(* ===== verification/Py_Prelude.thy ===== *)
theory Py_Prelude
  imports Main "HOL-Library.AList" "HOL-Library.Sublist"
begin

section \<open>Python values, errors and the list lemmas the components share\<close>

text \<open>
  The backend is Python. This theory fixes how the values it computes with are represented.

  \<^item> A value that the code inspects at run time (a JSON value: \<open>None\<close>, booleans, integers,
    strings, lists, dictionaries with string keys) is a \<open>pyval\<close>. A dictionary is the
    association list of its items in insertion order; assignment is the library's
    \<^const>\<open>AList.update\<close>, which overwrites in place and appends a new key, as Python does.
  \<^item> An exception is a value of \<open>py_error\<close>; a function that may raise returns
    \<open>py_error + 'a\<close>, with \<^const>\<open>Inl\<close> for the exception, and \<open>rbind\<close> is what
    Python does after each call: it stops at the first exception.
  \<^item> Strings are lists of characters (code points up to 255).

  Floating-point numbers are not represented.
\<close>

subsection \<open>Values and errors\<close>

datatype pyval =
    PNone
  | PBool bool
  | PInt int
  | PStr string
  | PList "pyval list"
  | PDict "(string \<times> pyval) list"

type_synonym pydict = "(string \<times> pyval) list"

datatype py_error =
    KeyError string
  | TypeError
  | AttributeError
  | ValueError string
  | IndexError
  | IntegrityError
  | DataError
  | HTTPException int string

type_synonym 'a result = "py_error + 'a"

definition rbind :: "'e + 'a \<Rightarrow> ('a \<Rightarrow> 'e + 'b) \<Rightarrow> 'e + 'b" where
  "rbind m f = (case m of Inl e \<Rightarrow> Inl e | Inr x \<Rightarrow> f x)"

fun rmap :: "('a \<Rightarrow> 'e + 'b) \<Rightarrow> 'a list \<Rightarrow> 'e + 'b list" where
  "rmap f [] = Inr []"
| "rmap f (x # xs) = rbind (f x) (\<lambda>y. rbind (rmap f xs) (\<lambda>ys. Inr (y # ys)))"

fun rfold :: "('a \<Rightarrow> 's \<Rightarrow> 'e + 's) \<Rightarrow> 'a list \<Rightarrow> 's \<Rightarrow> 'e + 's" where
  "rfold f [] s = Inr s"
| "rfold f (x # xs) s = rbind (f x s) (rfold f xs)"

text \<open>Truth value of a Python value (\<open>bool(v)\<close>), and \<open>a or b\<close>.\<close>

fun truthy :: "pyval \<Rightarrow> bool" where
  "truthy PNone = False"
| "truthy (PBool b) = b"
| "truthy (PInt i) = (i \<noteq> 0)"
| "truthy (PStr s) = (s \<noteq> [])"
| "truthy (PList xs) = (xs \<noteq> [])"
| "truthy (PDict d) = (d \<noteq> [])"

definition py_or :: "pyval \<Rightarrow> pyval \<Rightarrow> pyval" where
  "py_or a b = (if truthy a then a else b)"

fun is_dict :: "pyval \<Rightarrow> bool" where
  "is_dict (PDict d) = True"
| "is_dict _ = False"

fun is_list :: "pyval \<Rightarrow> bool" where
  "is_list (PList d) = True"
| "is_list _ = False"

fun is_str :: "pyval \<Rightarrow> bool" where
  "is_str (PStr d) = True"
| "is_str _ = False"

subsection \<open>Dictionaries\<close>

text \<open>\<open>d.get(k)\<close>, \<open>d.get(k, v)\<close>, \<open>d[k] = v\<close>, \<open>d.pop(k, None)\<close>, \<open>{**a, **b}\<close>.\<close>

definition dget :: "('k \<times> pyval) list \<Rightarrow> 'k \<Rightarrow> pyval" where
  "dget d k = (case map_of d k of None \<Rightarrow> PNone | Some v \<Rightarrow> v)"

definition dget_or :: "('k \<times> 'v) list \<Rightarrow> 'k \<Rightarrow> 'v \<Rightarrow> 'v" where
  "dget_or d k v = (case map_of d k of None \<Rightarrow> v | Some w \<Rightarrow> w)"

abbreviation dset :: "'k \<Rightarrow> 'v \<Rightarrow> ('k \<times> 'v) list \<Rightarrow> ('k \<times> 'v) list" where
  "dset \<equiv> AList.update"

abbreviation dpop :: "'k \<Rightarrow> ('k \<times> 'v) list \<Rightarrow> ('k \<times> 'v) list" where
  "dpop \<equiv> AList.delete"

definition dmerge :: "('k \<times> 'v) list \<Rightarrow> ('k \<times> 'v) list \<Rightarrow> ('k \<times> 'v) list" where
  "dmerge a b = fold (\<lambda>(k, v) d. dset k v d) b a"

definition dhas :: "('k \<times> 'v) list \<Rightarrow> 'k \<Rightarrow> bool" where
  "dhas d k = (map_of d k \<noteq> None)"

text \<open>\<open>v.get(k)\<close> on a value that may not be a dictionary, and \<open>v[k]\<close> on a dictionary.\<close>

fun py_get :: "pyval \<Rightarrow> string \<Rightarrow> pyval \<Rightarrow> pyval result" where
  "py_get (PDict d) k v = Inr (dget_or d k v)"
| "py_get _ k v = Inl AttributeError"

definition dict_item :: "pydict \<Rightarrow> string \<Rightarrow> pyval result" where
  "dict_item d k = (case map_of d k of None \<Rightarrow> Inl (KeyError k) | Some v \<Rightarrow> Inr v)"

text \<open>Iteration over a value: lists, the keys of a dictionary, the characters of a string.\<close>

fun py_iter :: "pyval \<Rightarrow> pyval list result" where
  "py_iter (PList xs) = Inr xs"
| "py_iter (PDict d) = Inr (map (PStr \<circ> fst) d)"
| "py_iter (PStr s) = Inr (map (\<lambda>c. PStr [c]) s)"
| "py_iter _ = Inl TypeError"

text \<open>\<open>v[k]\<close> and \<open>v[k] = x\<close> with a string \<open>k\<close>, on any value.\<close>

fun py_item :: "pyval \<Rightarrow> string \<Rightarrow> pyval result" where
  "py_item (PDict d) k = dict_item d k"
| "py_item _ k = Inl TypeError"

fun py_setitem :: "pyval \<Rightarrow> string \<Rightarrow> pyval \<Rightarrow> pyval result" where
  "py_setitem (PDict d) k x = Inr (PDict (dset k x d))"
| "py_setitem _ k x = Inl TypeError"

text \<open>
  Lists and dictionaries are unhashable: looking one up in a dictionary or a set raises. The keys of the
  dictionaries here are strings, so any other hashable value is not found.
\<close>

fun hashable :: "pyval \<Rightarrow> bool" where
  "hashable (PList _) = False"
| "hashable (PDict _) = False"
| "hashable _ = True"

fun key_find :: "(string \<times> 'v) list \<Rightarrow> pyval \<Rightarrow> 'v option result" where
  "key_find m (PStr k) = Inr (map_of m k)"
| "key_find m (PList _) = Inl TypeError"
| "key_find m (PDict _) = Inl TypeError"
| "key_find m _ = Inr None"

subsection \<open>Strings\<close>

definition lower_char :: "char \<Rightarrow> char" where
  "lower_char c =
     (let n = of_char c :: nat
      in if (65 \<le> n \<and> n \<le> 90) \<or> (192 \<le> n \<and> n \<le> 222 \<and> n \<noteq> 215) then char_of (n + 32) else c)"

definition str_lower :: "string \<Rightarrow> string" where
  "str_lower = map lower_char"

definition is_space_char :: "char \<Rightarrow> bool" where
  "is_space_char c =
     (let n = of_char c :: nat
      in (9 \<le> n \<and> n \<le> 13) \<or> (28 \<le> n \<and> n \<le> 32) \<or> n = 133 \<or> n = 160)"

definition str_strip :: "string \<Rightarrow> string" where
  "str_strip s = rev (dropWhile is_space_char (rev (dropWhile is_space_char s)))"

definition starts_with :: "string \<Rightarrow> string \<Rightarrow> bool" where
  "starts_with s p = prefix p s"

definition str_contains :: "string \<Rightarrow> string \<Rightarrow> bool" where
  "str_contains s p = sublist p s"

text \<open>\<open>s.split(c)\<close> for a separator of one character or byte: never empty.\<close>

fun str_split :: "'a \<Rightarrow> 'a list \<Rightarrow> 'a list list" where
  "str_split c [] = [[]]"
| "str_split c (x # s) =
     (if x = c then [] # str_split c s
      else (case str_split c s of [] \<Rightarrow> [[x]] | w # ws \<Rightarrow> (x # w) # ws))"

text \<open>\<open>sep.join(parts)\<close>.\<close>

fun str_join :: "string \<Rightarrow> string list \<Rightarrow> string" where
  "str_join sep [] = []"
| "str_join sep [x] = x"
| "str_join sep (x # y # ys) = x @ sep @ str_join sep (y # ys)"

text \<open>\<open>k in v\<close> for a string \<open>k\<close>: keys, list elements, substrings; an error otherwise.\<close>

fun py_in :: "string \<Rightarrow> pyval \<Rightarrow> bool result" where
  "py_in k (PDict d) = Inr (dhas d k)"
| "py_in k (PList xs) = Inr (PStr k \<in> set xs)"
| "py_in k (PStr s) = Inr (str_contains s k)"
| "py_in k _ = Inl TypeError"

lemma str_split_not_Nil [simp]: "str_split c s \<noteq> []"
  by (cases s) (auto split: list.split)

lemma str_split_append:
  "str_split c (s @ t) = butlast (str_split c s) @ (last (str_split c s) @ hd (str_split c t)) # tl (str_split c t)"
proof (induction s)
  case Nil
  then show ?case by (cases "str_split c t") auto
next
  case (Cons x s)
  then show ?case by (cases "str_split c s") auto
qed

lemma str_split_free: "c \<notin> set s \<Longrightarrow> str_split c s = [s]"
  by (induction s) auto

lemma str_split_single: "str_split c s = [w] \<longleftrightarrow> c \<notin> set s \<and> w = s"
proof (induction s arbitrary: w)
  case (Cons x s)
  then show ?case by (cases "str_split c s") (auto split: list.splits)
qed auto

lemma join_Cons: "xs \<noteq> [] \<Longrightarrow> str_join sep (x # xs) = x @ sep @ str_join sep xs"
  by (cases xs) simp_all

lemma join_split: "str_join [c] (str_split c s) = s"
proof (induction s)
  case (Cons x s)
  then show ?case
    by (cases "str_split c s"; cases "tl (str_split c s)") (auto simp: join_Cons split: list.splits)
qed simp

lemma join_append: "xs \<noteq> [] \<Longrightarrow> ys \<noteq> [] \<Longrightarrow> str_join sep (xs @ ys) = str_join sep xs @ sep @ str_join sep ys"
proof (induction xs)
  case (Cons x xs)
  then show ?case by (cases "xs = []") (simp_all add: join_Cons)
qed simp

lemma split_join:
  assumes "ws \<noteq> []" "\<forall>w \<in> set ws. c \<notin> set w"
  shows "str_split c (str_join [c] ws) = ws"
  using assms
proof (induction ws rule: induct_list012)
  case (3 w x ws)
  have "str_split c (w @ c # t) = w # str_split c t" if "c \<notin> set w" for w t
    using that by (induction w) (auto split: list.split)
  with 3 show ?case by simp
qed (simp_all add: str_split_free)

lemma join_ends:
  "ws \<noteq> [] \<Longrightarrow> \<forall>w \<in> set ws. w \<noteq> [] \<Longrightarrow> str_join sep ws \<noteq> [] \<and> hd (str_join sep ws) = hd (hd ws) \<and> last (str_join sep ws) = last (last ws)"
  by (induction ws rule: induct_list012) auto

subsection \<open>Facts about results\<close>

named_theorems result_simps

lemma rbind_simps [simp, result_simps]:
  "rbind (Inl e) f = Inl e" "rbind (Inr x) f = f x"
  by (simp_all add: rbind_def)

lemma rbind_Inr_iff: "rbind m f = Inr y \<longleftrightarrow> (\<exists>x. m = Inr x \<and> f x = Inr y)"
  by (cases m) simp_all

lemma rbind_Inl_iff: "rbind m f = Inl e \<longleftrightarrow> m = Inl e \<or> (\<exists>x. m = Inr x \<and> f x = Inl e)"
  by (cases m) simp_all

lemma rbind_Inr_right [simp]: "rbind m Inr = m"
  by (cases m) simp_all

lemma rmap_pure [simp]: "rmap (\<lambda>x. Inr (f x)) xs = Inr (map f xs)"
  by (induction xs) simp_all

lemma rmap_Inr_length: "rmap f xs = Inr ys \<Longrightarrow> length ys = length xs"
  by (induction xs arbitrary: ys) (auto simp: rbind_Inr_iff)

lemma rfold_append: "rfold f (xs @ ys) s = rbind (rfold f xs s) (rfold f ys)"
proof (induction xs arbitrary: s)
  case (Cons x xs)
  then show ?case by (cases "f x s") simp_all
qed simp

subsection \<open>Facts about dictionaries\<close>

named_theorems dict_simps

lemma dget_Nil [simp]: "dget [] k = PNone"
  by (simp add: dget_def)

lemma dget_Cons [simp]: "dget ((k', v) # d) k = (if k = k' then v else dget d k)"
  by (simp add: dget_def)

lemma dget_or_Nil [simp]: "dget_or [] k v = v"
  by (simp add: dget_or_def)

lemma dget_or_Cons [simp]: "dget_or ((k', w) # d) k v = (if k = k' then w else dget_or d k v)"
  by (simp add: dget_or_def)

lemma dhas_iff: "dhas d k \<longleftrightarrow> k \<in> fst ` set d"
  by (simp add: dhas_def map_of_eq_None_iff)

lemma dhas_simps [simp]: "dhas [] k = False" "dhas ((k', v) # d) k = (k = k' \<or> dhas d k)"
  by (auto simp: dhas_def)

lemma map_of_dset [dict_simps]: "map_of (dset k v d) = (map_of d)(k \<mapsto> v)"
  by (rule update_conv')

lemma dget_dset [simp, dict_simps]: "dget (dset k v d) k' = (if k' = k then v else dget d k')"
  by (simp add: dget_def map_of_dset)

lemma dhas_dset [simp, dict_simps]: "dhas (dset k v d) k' \<longleftrightarrow> k' = k \<or> dhas d k'"
  by (simp add: dhas_def map_of_dset)

lemma dget_or_dset [simp, dict_simps]:
  "dget_or (dset k v d) k' w = (if k' = k then v else dget_or d k' w)"
  by (simp add: dget_or_def map_of_dset)

lemma map_of_dpop [dict_simps]: "map_of (dpop k d) = (map_of d)(k := None)"
  by (rule delete_conv')

lemma dget_dpop [simp, dict_simps]: "dget (dpop k d) k' = (if k' = k then PNone else dget d k')"
  by (simp add: dget_def map_of_dpop)

lemma dhas_dpop [simp, dict_simps]: "dhas (dpop k d) k' \<longleftrightarrow> k' \<noteq> k \<and> dhas d k'"
  by (auto simp: dhas_def map_of_dpop)

lemma dmerge_simps [simp]: "dmerge a [] = a" "dmerge a ((k, v) # b) = dmerge (dset k v a) b"
  by (simp_all add: dmerge_def)

lemma map_of_dmerge:
  "distinct (map fst b) \<Longrightarrow> map_of (dmerge a b) = map_of a ++ map_of b"
proof (induction b arbitrary: a)
  case (Cons p b)
  obtain k v where p: "p = (k, v)" by (cases p)
  from Cons.prems p have "map_of b k = None"
    by (simp add: map_of_eq_None_iff)
  with Cons p show ?case
    by (intro ext) (simp add: map_of_dset map_add_def split: option.splits)
qed simp

lemma distinct_dmerge: "distinct (map fst a) \<Longrightarrow> distinct (map fst (dmerge a b))"
proof (induction b arbitrary: a)
  case (Cons p b)
  then show ?case by (cases p) (simp add: distinct_update)
qed simp

lemma set_dset: "p \<in> set (dset k v d) \<Longrightarrow> p = (k, v) \<or> p \<in> set d"
  by (induction d) (auto split: if_splits)

lemma set_dpop: "p \<in> set (dpop k d) \<Longrightarrow> p \<in> set d"
  by (induction d) (auto split: if_splits)

lemma keys_dpop: "fst ` set (dpop k d) = fst ` set d - {k}"
  by (induction d) auto

lemma dset_new: "k \<notin> fst ` set d \<Longrightarrow> dset k v d = d @ [(k, v)]"
  by (induction d) auto

lemma map_of_keyD: "map_of m k = Some v \<Longrightarrow> k \<in> fst ` set m"
  by (metis image_eqI fst_conv map_of_SomeD)

lemma dset_same: "dget d k = v \<Longrightarrow> v \<noteq> PNone \<Longrightarrow> dset k v d = d"
  by (auto simp: dget_def split: option.splits intro: update_triv)

lemma length_dset: "length (dset k v d) \<le> Suc (length d)"
  by (induction d) auto

lemma dset_not_Nil [simp]: "dset k v d \<noteq> []"
  by (cases d) auto

subsection \<open>Facts about lists of rows\<close>

text \<open>
  A SQL table is the list of its rows; \<open>SELECT \<dots> WHERE p\<close> is \<open>filter p\<close>, the first row
  of a result is \<open>find p\<close>, \<open>DELETE \<dots> WHERE p\<close> keeps the rows that fail \<open>p\<close> and
  \<open>UPDATE\<close> maps the rows that satisfy it. \<open>ORDER BY key DESC\<close> is a stable sort on the
  negated key (the order of ties is the table's).
\<close>

definition sql_delete :: "('r \<Rightarrow> bool) \<Rightarrow> 'r list \<Rightarrow> 'r list" where
  "sql_delete p t = filter (\<lambda>r. \<not> p r) t"

definition sql_update :: "('r \<Rightarrow> bool) \<Rightarrow> ('r \<Rightarrow> 'r) \<Rightarrow> 'r list \<Rightarrow> 'r list" where
  "sql_update p f t = map (\<lambda>r. if p r then f r else r) t"

definition sql_desc :: "('r \<Rightarrow> int) \<Rightarrow> 'r list \<Rightarrow> 'r list" where
  "sql_desc k t = sort_key (\<lambda>r. - k r) t"

lemma set_sql_delete [simp]: "set (sql_delete p t) = {r \<in> set t. \<not> p r}"
  by (simp add: sql_delete_def)

lemma set_sql_desc [simp]: "set (sql_desc k t) = set t"
  by (simp add: sql_desc_def)

lemma set_sql_update: "set (sql_update p f t) = {r \<in> set t. \<not> p r} \<union> f ` {r \<in> set t. p r}"
  by (auto simp: sql_update_def)

lemma map_sql_update: "(\<And>r. h (f r) = h r) \<Longrightarrow> map h (sql_update p f t) = map h t"
  by (simp add: sql_update_def)

lemma image_sql_update: "(\<And>r. h (f r) = h r) \<Longrightarrow> h ` set (sql_update p f t) = h ` set t"
  by (metis map_sql_update set_map)

lemma card_insert_seen:
  "k \<in> A \<Longrightarrow> k \<notin> S \<Longrightarrow> finite A \<Longrightarrow> card (A - insert k S) < card (A - S)"
  by (rule psubset_card_mono) auto

lemma distinct_map_sql_delete: "distinct (map h t) \<Longrightarrow> distinct (map h (sql_delete p t))"
  by (simp add: sql_delete_def distinct_map_filter)

lemma length_filter_eq_iff: "length (filter P xs) = length xs \<longleftrightarrow> (\<forall>x \<in> set xs. P x)"
  by (metis filter_True length_filter_less nat_neq_iff)

lemma find_None_iff_filter: "find p t = None \<longleftrightarrow> filter p t = []"
  by (induction t) auto

lemma find_SomeD: "find p t = Some r \<Longrightarrow> r \<in> set t \<and> p r"
  by (induction t) (auto split: if_splits)

lemma find_unique:
  assumes "distinct (map h t)" "r \<in> set t"
  shows "find (\<lambda>r'. h r' = h r) t = Some r"
  using assms by (induction t) (auto simp: image_iff)

end
