(* ===== verification/Parent_Chain.thy ===== *)
theory Parent_Chain
  imports Py_Prelude
begin

section \<open>Walking parent links with a visited set\<close>

text \<open>
  Several components follow parent links (folder to parent folder, model to base model, chat
  message to parent message) and stop at the first node they have already seen, because a
  corrupt store may hold a loop. Two interfaces state what such a walk promises; each component
  interprets one of them with its own loop.

  \<^item> \<open>verdict_walk\<close>: a loop that returns a result at the first node that decides.
  \<^item> \<open>list_walk\<close>: a loop that collects the nodes it visits.
\<close>

subsection \<open>Paths of a deterministic relation\<close>

lemma det_cycle_back:
  assumes det: "\<And>x y z. E x y \<Longrightarrow> E x z \<Longrightarrow> y = z"
    and cyc: "E\<^sup>+\<^sup>+ k k" and reach: "E\<^sup>*\<^sup>* k y"
  shows "E\<^sup>*\<^sup>* y k"
  using reach
proof (induction rule: rtranclp_induct)
  case base
  show ?case by simp
next
  case (step y z)
  have "E\<^sup>+\<^sup>+ y k"
    using step.IH cyc by (metis rtranclpD tranclp_rtranclp_tranclp tranclp.simps)
  then obtain w where "E y w" "E\<^sup>*\<^sup>* w k"
    by (metis tranclpD)
  with det step.hyps(2) show ?case by metis
qed

lemma det_no_cycle_before_terminal:
  assumes det: "\<And>x y z. E x y \<Longrightarrow> E x z \<Longrightarrow> y = z"
    and reach: "E\<^sup>*\<^sup>* k x" and terminal: "\<And>y. \<not> E x y"
  shows "\<not> E\<^sup>+\<^sup>+ k k"
proof
  assume cyc: "E\<^sup>+\<^sup>+ k k"
  have "E\<^sup>*\<^sup>* x k" by (rule det_cycle_back [OF det cyc reach])
  with terminal have "x = k" by (metis converse_rtranclpE)
  with cyc terminal show False by (metis tranclpD)
qed

subsection \<open>A walk that returns at the first deciding node\<close>

locale verdict_walk =
  fixes verdict :: "'k \<Rightarrow> 'r option"
    and up :: "'k \<Rightarrow> 'k option"
    and dflt :: 'r
    and walk :: "'k set \<Rightarrow> 'k \<Rightarrow> 'r"
  assumes finite_open: "finite {k. verdict k = None}"
    and walk_seen: "k \<in> seen \<Longrightarrow> walk seen k = dflt"
    and walk_verdict: "k \<notin> seen \<Longrightarrow> verdict k = Some r \<Longrightarrow> walk seen k = r"
    and walk_end: "k \<notin> seen \<Longrightarrow> verdict k = None \<Longrightarrow> up k = None \<Longrightarrow> walk seen k = dflt"
    and walk_up: "k \<notin> seen \<Longrightarrow> verdict k = None \<Longrightarrow> up k = Some k' \<Longrightarrow>
      walk seen k = walk (insert k seen) k'"
begin

lemma walk_sound:
  assumes "walk seen k = r" "r \<noteq> dflt"
  shows "\<exists>x. (\<lambda>x y. verdict x = None \<and> up x = Some y)\<^sup>*\<^sup>* k x \<and> verdict x = Some r"
  using assms
proof (induction "card ({k. verdict k = None} - seen)" arbitrary: seen k rule: less_induct)
  case less
  let ?E = "\<lambda>x y. verdict x = None \<and> up x = Some y"
  have notseen: "k \<notin> seen" using less.prems walk_seen by blast
  show ?case
  proof (cases "verdict k")
    case (Some r')
    with notseen less.prems have "r' = r" by (simp add: walk_verdict)
    with Some show ?thesis by blast
  next
    case None
    with notseen less.prems walk_end obtain k' where k': "up k = Some k'" by (cases "up k") auto
    have "card ({k. verdict k = None} - insert k seen) < card ({k. verdict k = None} - seen)"
      by (rule psubset_card_mono) (use notseen None finite_open in auto)
    moreover have "walk (insert k seen) k' = r"
      using walk_up [OF notseen None k'] less.prems by simp
    ultimately obtain x where "?E\<^sup>*\<^sup>* k' x" "verdict x = Some r"
      using less.hyps less.prems(2) by blast
    moreover have "?E k k'" using None k' by simp
    ultimately show ?thesis
      by (intro exI [of _ x]) (auto intro: converse_rtranclp_into_rtranclp)
  qed
qed

lemma walk_complete:
  assumes "(\<lambda>x y. verdict x = None \<and> up x = Some y)\<^sup>*\<^sup>* k x" "verdict x = Some r"
    and "\<And>y. y \<in> seen \<Longrightarrow> \<not> (\<lambda>x y. verdict x = None \<and> up x = Some y)\<^sup>*\<^sup>* k y"
  shows "walk seen k = r"
  using assms
proof (induction arbitrary: seen rule: converse_rtranclp_induct)
  case base
  then have "x \<notin> seen" by blast
  with base show ?case by (simp add: walk_verdict)
next
  case (step k k')
  let ?E = "\<lambda>x y. verdict x = None \<and> up x = Some y"
  have kx: "?E\<^sup>*\<^sup>* k x" using step.hyps by (rule converse_rtranclp_into_rtranclp)
  have acyc: "\<not> ?E\<^sup>+\<^sup>+ k k"
    by (rule det_no_cycle_before_terminal [OF _ kx]) (use step.prems in auto)
  have notseen: "k \<notin> seen" using step.prems(2) by blast
  have "\<not> ?E\<^sup>*\<^sup>* k' y" if "y \<in> insert k seen" for y
  proof
    assume y: "?E\<^sup>*\<^sup>* k' y"
    have ky: "?E\<^sup>+\<^sup>+ k y" using step.hyps(1) y by (rule rtranclp_into_tranclp2)
    show False
    proof (cases "y = k")
      case True
      with ky acyc show False by blast
    next
      case False
      with that step.prems(2) ky show False by (blast dest: tranclp_into_rtranclp)
    qed
  qed
  then have "walk (insert k seen) k' = r" using step.IH step.prems(1) by blast
  with walk_up [OF notseen] step.hyps show ?case by simp
qed

lemma walk_iff:
  assumes "r \<noteq> dflt"
  shows "walk {} k = r \<longleftrightarrow>
    (\<exists>x. (\<lambda>x y. verdict x = None \<and> up x = Some y)\<^sup>*\<^sup>* k x \<and> verdict x = Some r)"
  using walk_sound [OF _ assms] walk_complete [of k _ r "{}"] by blast

text \<open>
  When every other verdict is found only where the links end, the links alone decide, whatever the
  verdicts along the way.
\<close>

lemma walk_iff_links:
  assumes "r \<noteq> dflt" and other: "\<And>x r'. verdict x = Some r' \<Longrightarrow> r' = r \<or> up x = None"
  shows "walk {} k = r \<longleftrightarrow> (\<exists>x. (\<lambda>x y. up x = Some y)\<^sup>*\<^sup>* k x \<and> verdict x = Some r)"
proof -
  let ?E = "\<lambda>x y. verdict x = None \<and> up x = Some y"
  let ?U = "\<lambda>x y. up x = Some y"
  have first: "\<exists>z. ?E\<^sup>*\<^sup>* k z \<and> verdict z = Some r" if "?U\<^sup>*\<^sup>* k x" "verdict x = Some r" for x
    using that
  proof (induction rule: converse_rtranclp_induct)
    case base
    then show ?case by blast
  next
    case (step k k')
    show ?case
    proof (cases "verdict k")
      case None
      with step show ?thesis by (auto intro: converse_rtranclp_into_rtranclp)
    next
      case (Some r')
      with other step.hyps(1) have "r' = r" by fastforce
      with Some show ?thesis by blast
    qed
  qed
  have links: "?U\<^sup>*\<^sup>* k x" if "?E\<^sup>*\<^sup>* k x" for x
    using that by (induction rule: rtranclp_induct) (auto intro: rtranclp.rtrancl_into_rtrancl)
  show ?thesis using first links unfolding walk_iff [OF assms(1)] by blast
qed

end

subsection \<open>A walk that collects the nodes it visits\<close>

locale list_walk =
  fixes present :: "'k \<Rightarrow> bool"
    and up :: "'k \<Rightarrow> 'k option"
    and walk :: "'k set \<Rightarrow> 'k \<Rightarrow> 'k list"
  assumes finite_present: "finite {k. present k}"
    and walk_stop: "k \<in> seen \<or> \<not> present k \<Longrightarrow> walk seen k = []"
    and walk_step: "k \<notin> seen \<Longrightarrow> present k \<Longrightarrow>
      walk seen k = k # (case up k of None \<Rightarrow> [] | Some k' \<Rightarrow> walk (insert k seen) k')"
begin

lemma walk_induct [case_names stop step]:
  assumes stop: "\<And>seen k. k \<in> seen \<or> \<not> present k \<Longrightarrow> P seen k"
    and step: "\<And>seen k. k \<notin> seen \<Longrightarrow> present k \<Longrightarrow>
      (\<And>k'. up k = Some k' \<Longrightarrow> P (insert k seen) k') \<Longrightarrow> P seen k"
  shows "P seen k"
proof (induction "card ({k. present k} - seen)" arbitrary: seen k rule: less_induct)
  case (less seen k)
  show ?case
  proof (cases "k \<in> seen \<or> \<not> present k")
    case True
    then show ?thesis by (rule stop)
  next
    case False
    then have "card ({k. present k} - insert k seen) < card ({k. present k} - seen)"
      by (intro psubset_card_mono) (use finite_present in auto)
    then have "P (insert k seen) k'" for k' by (rule less)
    then show ?thesis using False by (metis step)
  qed
qed

lemma walk_distinct: "distinct (walk seen k) \<and> set (walk seen k) \<inter> seen = {}"
proof (induction seen k rule: walk_induct)
  case (stop seen k)
  then show ?case by (simp add: walk_stop)
next
  case (step seen k)
  then show ?case by (auto simp: walk_step split: option.split)
qed

lemma walk_present: "x \<in> set (walk seen k) \<Longrightarrow> present x"
proof (induction seen k rule: walk_induct)
  case (stop seen k)
  then show ?case by (simp add: walk_stop)
next
  case (step seen k)
  then show ?case by (cases "up k") (auto simp: walk_step)
qed

lemma walk_closed:
  assumes "y \<in> set (walk seen k)" "up y = Some z" "present z"
  shows "z \<in> set (walk seen k) \<union> seen"
  using assms
proof (induction seen k rule: walk_induct)
  case (stop seen k)
  then show ?case by (simp add: walk_stop)
next
  case (step seen k)
  show ?case
  proof (cases "y = k")
    case True
    with step.prems step.hyps show ?thesis
      by (cases "z \<in> insert k seen") (auto simp: walk_step)
  next
    case False
    with step.prems step.hyps obtain k' where k': "up k = Some k'" and y: "y \<in> set (walk (insert k seen) k')"
      by (cases "up k") (auto simp: walk_step)
    from step.IH [OF k' y step.prems(2,3)] k' step.hyps show ?thesis by (auto simp: walk_step)
  qed
qed

lemma walk_linked:
  assumes "Suc i < length (walk seen k)"
  shows "up (walk seen k ! i) = Some (walk seen k ! Suc i)"
  using assms
proof (induction seen k arbitrary: i rule: walk_induct)
  case (stop seen k)
  then show ?case by (simp add: walk_stop)
next
  case (step seen k)
  then obtain k' where k': "up k = Some k'"
    by (cases "up k") (auto simp: walk_step)
  let ?w = "walk (insert k seen) k'"
  have w: "walk seen k = k # ?w" using step.hyps k' by (simp add: walk_step)
  show ?case
  proof (cases i)
    case 0
    with step.prems w have ne: "?w \<noteq> []" by auto
    then have "k' \<notin> insert k seen" "present k'" using walk_stop by blast+
    then have "?w ! 0 = k'" by (simp add: walk_step)
    with 0 w k' show ?thesis by simp
  next
    case (Suc j)
    with step.IH [OF k', of j] step.prems w show ?thesis by simp
  qed
qed

lemma walk_set:
  assumes "present k"
  shows "set (walk {} k) = {x. (\<lambda>x y. up x = Some y \<and> present y)\<^sup>*\<^sup>* k x}"
    (is "?W = {x. ?E\<^sup>*\<^sup>* k x}")
proof
  have "x \<in> set (walk seen k) \<Longrightarrow> ?E\<^sup>*\<^sup>* k x" for x seen
  proof (induction seen k rule: walk_induct)
    case (stop seen k)
    then show ?case by (simp add: walk_stop)
  next
    case (step seen k)
    show ?case
    proof (cases "x = k")
      case False
      with step.prems step.hyps obtain k' where k': "up k = Some k'"
        and x: "x \<in> set (walk (insert k seen) k')"
        by (cases "up k") (auto simp: walk_step)
      have "present k'"
      proof (rule ccontr)
        assume "\<not> present k'"
        then have "walk (insert k seen) k' = []" by (intro walk_stop) simp
        with x show False by simp
      qed
      with step.IH [OF k' x] k' show ?thesis
        by (auto intro: converse_rtranclp_into_rtranclp)
    qed simp
  qed
  then show "?W \<subseteq> {x. ?E\<^sup>*\<^sup>* k x}" by blast
  have "x \<in> ?W" if "?E\<^sup>*\<^sup>* k x" for x
    using that
  proof (induction rule: rtranclp_induct)
    case base
    show ?case using assms by (simp add: walk_step)
  next
    case (step y z)
    with walk_closed [of y "{}" k z] show ?case by simp
  qed
  then show "{x. ?E\<^sup>*\<^sup>* k x} \<subseteq> ?W" by blast
qed

end

end
