(* ===== verification/Users_Groups.thy ===== *)
theory Users_Groups
  imports Py_Prelude
begin

section \<open>Users, groups and group membership\<close>

text \<open>
  Models \<open>models/groups.py\<close> (the class \<open>GroupTable\<close>) and the two queries of
  \<open>models/users.py\<close> that the access-grant table uses. The state is the record
  \<open>group_db\<close>: the user, group and group_member tables as lists of rows, and whether the
  database enforces foreign keys (PostgreSQL does; SQLite only with \<open>PRAGMA foreign_keys\<close>,
  which \<open>internal/db.py\<close> never issues). Fresh identifiers (\<open>uuid4\<close>) and clock readings
  are arguments. A transaction that violates a constraint leaves the tables unchanged.

  The properties: the tables' constraints are an invariant of every operation; membership after
  \<open>sync_groups_by_group_names\<close> is exactly the groups named; \<open>add_users_to_group\<close> adds every
  user when none is a member yet, and otherwise loses the users that precede a duplicate.
\<close>

subsection \<open>Rows and tables\<close>

record user_row =
  u_id :: string
  u_role :: string

record group_row =
  g_id :: string
  g_user_id :: string
  g_name :: string
  g_description :: string
  g_data :: "pydict option"
  g_meta :: "pydict option"
  g_permissions :: "pydict option"
  g_created_at :: int
  g_updated_at :: int

record member_row =
  gm_id :: string
  gm_group_id :: string
  gm_user_id :: string
  gm_created_at :: int
  gm_updated_at :: int

record group_form =
  gf_name :: string
  gf_description :: string
  gf_permissions :: "pydict option"
  gf_data :: "pydict option"

record group_db =
  db_users :: "user_row list"
  db_groups :: "group_row list"
  db_members :: "member_row list"
  db_fk :: bool

definition new_member :: "string \<Rightarrow> string \<Rightarrow> string \<Rightarrow> int \<Rightarrow> member_row" where
  "new_member uuid group_id user_id now =
     \<lparr>gm_id = uuid, gm_group_id = group_id, gm_user_id = user_id,
      gm_created_at = now, gm_updated_at = now\<rparr>"

text \<open>The constraints the schema declares (primary keys, the unique pair, the foreign keys).\<close>

definition groups_ok :: "group_row list \<Rightarrow> bool" where
  "groups_ok gs = distinct (map g_id gs)"

definition member_key :: "member_row \<Rightarrow> string \<times> string" where
  "member_key m = (gm_group_id m, gm_user_id m)"

definition members_ok :: "group_db \<Rightarrow> member_row list \<Rightarrow> bool" where
  "members_ok db ms =
     (distinct (map gm_id ms) \<and> distinct (map member_key ms) \<and>
      (db_fk db \<longrightarrow> (\<forall>m \<in> set ms. gm_group_id m \<in> g_id ` set (db_groups db) \<and>
                            gm_user_id m \<in> u_id ` set (db_users db))))"

definition group_db_ok :: "group_db \<Rightarrow> bool" where
  "group_db_ok db = (groups_ok (db_groups db) \<and> members_ok db (db_members db))"

subsection \<open>Queries on users\<close>

definition users_by_roles :: "string list \<Rightarrow> user_row list \<Rightarrow> user_row list" where
  "users_by_roles roles us =
     (if roles = [] then us
      else (let include_roles = filter (\<lambda>r. \<not> starts_with r ''!'') roles;
                exclude_roles = map (drop 1) (filter (\<lambda>r. starts_with r ''!'') roles);
                us1 = (if include_roles \<noteq> [] then filter (\<lambda>u. u_role u \<in> set include_roles) us else us)
            in if exclude_roles \<noteq> [] then filter (\<lambda>u. u_role u \<notin> set exclude_roles) us1 else us1))"

definition get_users_by_user_ids :: "string list \<Rightarrow> user_row list \<Rightarrow> user_row list" where
  "get_users_by_user_ids user_ids us = filter (\<lambda>u. u_id u \<in> set user_ids) us"

subsection \<open>Creating and reading groups\<close>

definition group_form_dump :: "group_form \<Rightarrow> pydict" where
  "group_form_dump f =
     [(''name'', PStr (gf_name f)), (''description'', PStr (gf_description f))] @
     (case gf_permissions f of None \<Rightarrow> [] | Some d \<Rightarrow> [(''permissions'', PDict d)]) @
     (case gf_data f of None \<Rightarrow> [] | Some d \<Rightarrow> [(''data'', PDict d)])"

definition ensure_default_share_config :: "pyval \<Rightarrow> pydict \<Rightarrow> pydict result" where
  "ensure_default_share_config default_share group_data =
     (let gd = (if \<not> dhas group_data ''data'' \<or> dget group_data ''data'' = PNone
                then dset ''data'' (PDict []) group_data else group_data);
          data = dget gd ''data''
      in rbind (py_in ''config'' data) (\<lambda>has_config.
         rbind (if has_config then Inr data else py_setitem data ''config'' (PDict [])) (\<lambda>data1.
         rbind (py_item data1 ''config'') (\<lambda>config.
         rbind (py_in ''share'' config) (\<lambda>has_share.
         rbind (if has_share then Inr config else py_setitem config ''share'' default_share) (\<lambda>config1.
         rbind (py_setitem data1 ''config'' config1) (\<lambda>data2.
         Inr (dset ''data'' data2 gd))))))))"

definition as_dict_opt :: "pyval \<Rightarrow> pydict option" where
  "as_dict_opt v = (case v of PDict d \<Rightarrow> Some d | _ \<Rightarrow> None)"

definition insert_new_group ::
    "pyval \<Rightarrow> string \<Rightarrow> int \<Rightarrow> int \<Rightarrow> string \<Rightarrow> group_form \<Rightarrow> group_db \<Rightarrow> group_db \<times> group_row option result"
where
  "insert_new_group default_share uuid now1 now2 user_id form db =
     (case ensure_default_share_config default_share (group_form_dump form) of
        Inl e \<Rightarrow> (db, Inl e)
      | Inr gd \<Rightarrow>
          (let g = \<lparr>g_id = uuid, g_user_id = user_id, g_name = gf_name form,
                    g_description = gf_description form, g_data = as_dict_opt (dget gd ''data''),
                    g_meta = None, g_permissions = as_dict_opt (dget gd ''permissions''),
                    g_created_at = now1, g_updated_at = now2\<rparr>;
               gs = db_groups db @ [g]
           in if groups_ok gs then (db\<lparr>db_groups := gs\<rparr>, Inr (Some g)) else (db, Inr None)))"

definition get_all_groups :: "group_db \<Rightarrow> group_row list" where
  "get_all_groups db = sql_desc g_updated_at (db_groups db)"

definition get_group_by_name :: "string \<Rightarrow> group_db \<Rightarrow> group_row option" where
  "get_group_by_name name db = find (\<lambda>g. g_name g = name) (db_groups db)"

definition get_group_by_id :: "string \<Rightarrow> group_db \<Rightarrow> group_row option" where
  "get_group_by_id gid db = find (\<lambda>g. g_id g = gid) (db_groups db)"

definition join_members :: "(member_row \<Rightarrow> bool) \<Rightarrow> group_db \<Rightarrow> (string \<times> group_row) list" where
  "join_members p db =
     concat (map (\<lambda>g. map (\<lambda>m. (gm_user_id m, g))
       (filter (\<lambda>m. gm_group_id m = g_id g \<and> p m) (db_members db))) (db_groups db))"

definition get_groups_by_member_id :: "string \<Rightarrow> group_db \<Rightarrow> group_row list" where
  "get_groups_by_member_id user_id db =
     sql_desc g_updated_at (map snd (join_members (\<lambda>m. gm_user_id m = user_id) db))"

definition get_groups_by_member_ids :: "string list \<Rightarrow> group_db \<Rightarrow> (string \<times> group_row list) list" where
  "get_groups_by_member_ids user_ids db =
     (let rows = sql_desc (\<lambda>(u, g). g_updated_at g) (join_members (\<lambda>m. gm_user_id m \<in> set user_ids) db);
          user_groups = fold (\<lambda>u d. dset u [] d) user_ids []
      in fold (\<lambda>(u, g) d. dset u (dget_or d u [] @ [g]) d) rows user_groups)"

definition get_group_user_ids_by_id :: "string \<Rightarrow> group_db \<Rightarrow> string list" where
  "get_group_user_ids_by_id gid db =
     map gm_user_id (filter (\<lambda>m. gm_group_id m = gid) (db_members db))"

definition get_group_user_ids_by_ids :: "string list \<Rightarrow> group_db \<Rightarrow> (string \<times> string list) list" where
  "get_group_user_ids_by_ids group_ids db =
     (let members = filter (\<lambda>m. gm_group_id m \<in> set group_ids) (db_members db);
          group_user_ids = fold (\<lambda>g d. dset g [] d) group_ids []
      in fold (\<lambda>m d. dset (gm_group_id m) (dget_or d (gm_group_id m) [] @ [gm_user_id m]) d)
           members group_user_ids)"

definition get_group_member_count_by_id :: "string \<Rightarrow> group_db \<Rightarrow> nat" where
  "get_group_member_count_by_id gid db = length (filter (\<lambda>m. gm_group_id m = gid) (db_members db))"

definition get_group_member_counts_by_ids :: "string list \<Rightarrow> group_db \<Rightarrow> (string \<times> nat) list" where
  "get_group_member_counts_by_ids ids db =
     (if ids = [] then []
      else fold (\<lambda>m d. dset (gm_group_id m) (Suc (dget_or d (gm_group_id m) 0)) d)
             (filter (\<lambda>m. gm_group_id m \<in> set ids) (db_members db)) [])"

text \<open>
  \<open>get_groups\<close> takes a filter; \<open>ilike\<close> is the database's pattern operator and
  \<open>json_text\<close> its rendering of a JSON scalar as text (SQLite writes true as 1), both
  arguments of the model.
\<close>

record group_filter =
  flt_query :: "string option"
  flt_share :: "pyval option"
  flt_member_id :: "string option"

definition group_share_text :: "(pyval \<Rightarrow> string option) \<Rightarrow> group_row \<Rightarrow> string option" where
  "group_share_text json_text g =
     (case g_data g of None \<Rightarrow> None
      | Some d \<Rightarrow> (case dget d ''config'' of
            PDict c \<Rightarrow> (if dhas c ''share'' then json_text (dget c ''share'') else None)
          | _ \<Rightarrow> None))"

definition group_visible ::
    "(string \<Rightarrow> string \<Rightarrow> bool) \<Rightarrow> (pyval \<Rightarrow> string option) \<Rightarrow> group_filter \<Rightarrow> group_db \<Rightarrow> group_row \<Rightarrow> bool"
where
  "group_visible ilike json_text flt db g =
     (let is_member = (\<lambda>uid. list_ex (\<lambda>m. gm_user_id m = uid \<and> gm_group_id m = g_id g) (db_members db));
          share = group_share_text json_text g;
          share_lower = map_option str_lower share
      in (case flt_query flt of None \<Rightarrow> True | Some q \<Rightarrow> ilike (''%'' @ q @ ''%'') (g_name g)) \<and>
         (case flt_share flt of
            Some v \<Rightarrow>
              (if truthy v then
                 (let anyone_can_share = (g_data g = None \<or> share = None \<or>
                        share_lower = Some ''true'' \<or> share_lower = Some ''1'')
                  in (case flt_member_id flt of
                        None \<Rightarrow> anyone_can_share
                      | Some uid \<Rightarrow>
                          if uid = [] then anyone_can_share
                          else anyone_can_share \<or> (share_lower = Some ''members'' \<and> is_member uid)))
               else g_data g \<noteq> None \<and> share_lower = Some ''false'')
          | None \<Rightarrow> (case flt_member_id flt of None \<Rightarrow> True | Some uid \<Rightarrow> is_member uid)))"

definition get_groups ::
    "(string \<Rightarrow> string \<Rightarrow> bool) \<Rightarrow> (pyval \<Rightarrow> string option) \<Rightarrow> group_filter option \<Rightarrow> group_db
      \<Rightarrow> (group_row \<times> nat) list"
where
  "get_groups ilike json_text flt db =
     map (\<lambda>g. (g, get_group_member_count_by_id (g_id g) db))
       (sql_desc g_updated_at
          (case flt of None \<Rightarrow> db_groups db
           | Some f \<Rightarrow> filter (group_visible ilike json_text f db) (db_groups db)))"

subsection \<open>Changing groups and their members\<close>

definition set_group_user_ids_by_id ::
    "(nat \<Rightarrow> string) \<Rightarrow> int \<Rightarrow> string \<Rightarrow> string list \<Rightarrow> group_db \<Rightarrow> group_db \<times> unit result"
where
  "set_group_user_ids_by_id uuids now group_id user_ids db =
     (let kept = sql_delete (\<lambda>m. gm_group_id m = group_id) (db_members db);
          new_members = map (\<lambda>(i, u). new_member (uuids i) group_id u now) (enumerate 0 user_ids);
          ms = kept @ new_members
      in if members_ok db ms then (db\<lparr>db_members := ms\<rparr>, Inr ()) else (db, Inl IntegrityError))"

definition update_group_by_id :: "int \<Rightarrow> string \<Rightarrow> group_form \<Rightarrow> group_db \<Rightarrow> group_db \<times> group_row option" where
  "update_group_by_id now gid form db =
     (let upd = (\<lambda>g. g\<lparr>g_name := gf_name form, g_description := gf_description form,
                       g_permissions := (case gf_permissions form of None \<Rightarrow> g_permissions g | Some d \<Rightarrow> Some d),
                       g_data := (case gf_data form of None \<Rightarrow> g_data g | Some d \<Rightarrow> Some d),
                       g_updated_at := now\<rparr>);
          db' = db\<lparr>db_groups := sql_update (\<lambda>g. g_id g = gid) upd (db_groups db)\<rparr>
      in (db', get_group_by_id gid db'))"

text \<open>Deleting a group deletes its members where foreign keys are enforced (\<open>ON DELETE CASCADE\<close>).\<close>

definition cascade_members :: "(string \<Rightarrow> bool) \<Rightarrow> group_db \<Rightarrow> member_row list" where
  "cascade_members gone db =
     (if db_fk db then sql_delete (\<lambda>m. gone (gm_group_id m)) (db_members db) else db_members db)"

definition delete_group_by_id :: "string \<Rightarrow> group_db \<Rightarrow> group_db \<times> bool" where
  "delete_group_by_id gid db =
     (db\<lparr>db_groups := sql_delete (\<lambda>g. g_id g = gid) (db_groups db),
         db_members := cascade_members (\<lambda>i. i = gid) db\<rparr>, True)"

definition delete_all_groups :: "group_db \<Rightarrow> group_db \<times> bool" where
  "delete_all_groups db = (db\<lparr>db_groups := [], db_members := cascade_members (\<lambda>_. True) db\<rparr>, True)"

definition touch_group :: "int \<Rightarrow> (string \<Rightarrow> bool) \<Rightarrow> group_db \<Rightarrow> group_db" where
  "touch_group now p db =
     db\<lparr>db_groups := sql_update (\<lambda>g. p (g_id g)) (\<lambda>g. g\<lparr>g_updated_at := now\<rparr>) (db_groups db)\<rparr>"

definition remove_user_from_all_groups :: "(nat \<Rightarrow> int) \<Rightarrow> string \<Rightarrow> group_db \<Rightarrow> group_db \<times> bool" where
  "remove_user_from_all_groups nows user_id db =
     (let groups = map snd (join_members (\<lambda>m. gm_user_id m = user_id) db)
      in (fold (\<lambda>(i, g) d. touch_group (nows i) (\<lambda>x. x = g_id g)
                 (d\<lparr>db_members := sql_delete (\<lambda>m. gm_group_id m = g_id g \<and> gm_user_id m = user_id) (db_members d)\<rparr>))
            (enumerate 0 groups) db, True))"

definition named_group :: "pyval \<Rightarrow> string \<Rightarrow> string \<Rightarrow> string \<Rightarrow> int \<Rightarrow> int \<Rightarrow> group_row" where
  "named_group share uuid user_id name now1 now2 =
     \<lparr>g_id = uuid, g_user_id = user_id, g_name = name, g_description = [],
      g_data = Some [(''config'', PDict [(''share'', share)])], g_meta = None,
      g_permissions = None, g_created_at = now1, g_updated_at = now2\<rparr>"

fun create_groups_loop ::
    "pyval \<Rightarrow> string \<Rightarrow> string list \<Rightarrow> (string \<times> string \<times> int \<times> int) list \<Rightarrow> group_db
      \<Rightarrow> group_db \<times> group_row list"
where
  "create_groups_loop share user_id existing [] db = (db, [])"
| "create_groups_loop share user_id existing ((name, uuid, now1, now2) # rest) db =
     (if name \<notin> set existing then
        (let g = named_group share uuid user_id name now1 now2;
             gs = db_groups db @ [g]
         in if groups_ok gs
            then (case create_groups_loop share user_id existing rest (db\<lparr>db_groups := gs\<rparr>) of
                    (db', new) \<Rightarrow> (db', g # new))
            else create_groups_loop share user_id existing rest db)
      else create_groups_loop share user_id existing rest db)"

definition create_groups_by_group_names ::
    "pyval \<Rightarrow> string \<Rightarrow> (string \<times> string \<times> int \<times> int) list \<Rightarrow> group_db \<Rightarrow> group_db \<times> group_row list"
where
  "create_groups_by_group_names share user_id names db =
     create_groups_loop share user_id (map g_name (get_all_groups db)) names db"

text \<open>Python sets of identifiers are lists without repetition here; only their members matter.\<close>

definition sync_target_ids :: "string list \<Rightarrow> group_db \<Rightarrow> string list" where
  "sync_target_ids group_names db =
     remdups (map g_id (filter (\<lambda>g. g_name g \<in> set group_names) (db_groups db)))"

definition sync_existing_ids :: "string \<Rightarrow> group_db \<Rightarrow> string list" where
  "sync_existing_ids user_id db =
     remdups (map (g_id \<circ> snd) (join_members (\<lambda>m. gm_user_id m = user_id) db))"

definition sync_groups_by_group_names ::
    "(nat \<Rightarrow> string) \<Rightarrow> int \<Rightarrow> string \<Rightarrow> string list \<Rightarrow> group_db \<Rightarrow> group_db \<times> bool"
where
  "sync_groups_by_group_names uuids now user_id group_names db =
     (let target_group_ids = sync_target_ids group_names db;
          existing_group_ids = sync_existing_ids user_id db;
          groups_to_add = filter (\<lambda>i. i \<notin> set existing_group_ids) target_group_ids;
          groups_to_remove = filter (\<lambda>i. i \<notin> set target_group_ids) existing_group_ids;
          db1 = (if groups_to_remove \<noteq> [] then
                   touch_group now (\<lambda>i. i \<in> set groups_to_remove)
                     (db\<lparr>db_members := sql_delete (\<lambda>m. gm_user_id m = user_id \<and> gm_group_id m \<in> set groups_to_remove)
                          (db_members db)\<rparr>)
                 else db);
          ms = db_members db1 @ map (\<lambda>(i, g). new_member (uuids i) g user_id now) (enumerate 0 groups_to_add);
          db2 = (if groups_to_add \<noteq> [] then touch_group now (\<lambda>i. i \<in> set groups_to_add) db1 else db1)
      in if members_ok db2 ms then (db2\<lparr>db_members := ms\<rparr>, True) else (db, False))"

text \<open>
  The loop of \<open>add_users_to_group\<close>: each new row is flushed at once, and a violation rolls the
  session back, that is, to the rows committed before the call (\<open>base\<close>).
\<close>

fun add_users_loop ::
    "group_db \<Rightarrow> string \<Rightarrow> int \<Rightarrow> (string \<times> string) list \<Rightarrow> member_row list \<Rightarrow> member_row list"
where
  "add_users_loop db gid now [] cur = cur"
| "add_users_loop db gid now ((uuid, u) # rest) cur =
     (let ms = cur @ [new_member uuid gid u now]
      in if members_ok db ms then add_users_loop db gid now rest ms
         else add_users_loop db gid now rest (db_members db))"

definition add_users_to_group ::
    "(nat \<Rightarrow> string) \<Rightarrow> int \<Rightarrow> string \<Rightarrow> string list option \<Rightarrow> group_db \<Rightarrow> group_db \<times> group_row option"
where
  "add_users_to_group uuids now gid user_ids db =
     (case get_group_by_id gid db of
        None \<Rightarrow> (db, None)
      | Some grp \<Rightarrow>
          (let us = (case user_ids of None \<Rightarrow> [] | Some xs \<Rightarrow> xs);
               ms = add_users_loop db gid now (map (\<lambda>(i, u). (uuids i, u)) (enumerate 0 us)) (db_members db);
               db' = touch_group now (\<lambda>i. i = gid) (db\<lparr>db_members := ms\<rparr>)
           in (db', get_group_by_id gid db')))"

definition remove_users_from_group ::
    "int \<Rightarrow> string \<Rightarrow> string list option \<Rightarrow> group_db \<Rightarrow> group_db \<times> group_row option"
where
  "remove_users_from_group now gid user_ids db =
     (case get_group_by_id gid db of
        None \<Rightarrow> (db, None)
      | Some grp \<Rightarrow>
          (case user_ids of
             None \<Rightarrow> (db, Some grp)
           | Some us \<Rightarrow>
               if us = [] then (db, Some grp)
               else (let db' = touch_group now (\<lambda>i. i = gid)
                           (db\<lparr>db_members := sql_delete (\<lambda>m. gm_group_id m = gid \<and> gm_user_id m \<in> set us)
                                (db_members db)\<rparr>)
                     in (db', get_group_by_id gid db'))))"

definition apply_default_group_assignment ::
    "(nat \<Rightarrow> string) \<Rightarrow> int \<Rightarrow> string \<Rightarrow> string \<Rightarrow> group_db \<Rightarrow> group_db"
where
  "apply_default_group_assignment uuids now default_group_id user_id db =
     (if default_group_id \<noteq> [] then fst (add_users_to_group uuids now default_group_id (Some [user_id]) db)
      else db)"


subsection \<open>Facts about the queries\<close>

definition is_member :: "group_db \<Rightarrow> string \<Rightarrow> string \<Rightarrow> bool" where
  "is_member db gid uid = list_ex (\<lambda>m. gm_group_id m = gid \<and> gm_user_id m = uid) (db_members db)"

lemma is_member_iff: "is_member db gid uid \<longleftrightarrow> (gid, uid) \<in> member_key ` set (db_members db)"
  by (force simp: is_member_def list_ex_iff member_key_def)

lemma new_member_simps [simp]:
  "gm_id (new_member i g u n) = i" "gm_group_id (new_member i g u n) = g"
  "gm_user_id (new_member i g u n) = u" "member_key (new_member i g u n) = (g, u)"
  by (simp_all add: new_member_def member_key_def)

lemma set_join_members:
  "set (join_members p db) =
     {(gm_user_id m, g) | m g. m \<in> set (db_members db) \<and> g \<in> set (db_groups db) \<and> gm_group_id m = g_id g \<and> p m}"
  by (auto simp: join_members_def)

lemma set_get_groups_by_member_id:
  "set (get_groups_by_member_id uid db) = {g \<in> set (db_groups db). is_member db (g_id g) uid}"
  by (force simp: get_groups_by_member_id_def set_join_members is_member_def list_ex_iff)

lemma set_get_group_user_ids: "set (get_group_user_ids_by_id gid db) = {u. is_member db gid u}"
  by (force simp: get_group_user_ids_by_id_def is_member_def list_ex_iff)

lemma touch_group_simps [simp]:
  "db_members (touch_group n p db) = db_members db" "db_users (touch_group n p db) = db_users db"
  "db_fk (touch_group n p db) = db_fk db" "map g_id (db_groups (touch_group n p db)) = map g_id (db_groups db)"
  "map g_name (db_groups (touch_group n p db)) = map g_name (db_groups db)"
  by (simp_all add: touch_group_def map_sql_update)

lemma touch_group_ids [simp]: "g_id ` set (db_groups (touch_group n p db)) = g_id ` set (db_groups db)"
  using touch_group_simps(4) [of n p db] by (metis set_map)

lemma members_ok_cong:
  assumes "g_id ` set (db_groups d) = g_id ` set (db_groups db)" "db_users d = db_users db" "db_fk d = db_fk db"
  shows "members_ok d ms = members_ok db ms"
  using assms by (simp add: members_ok_def)

lemma members_ok_touch [simp]: "members_ok (touch_group n p db) = members_ok db"
  by (rule ext) (simp add: members_ok_cong [of "touch_group n p db" db])

lemma members_ok_upd [simp]: "members_ok (db\<lparr>db_members := x\<rparr>) = members_ok db"
  by (rule ext) (simp add: members_ok_def)

lemma groups_ok_touch [simp]: "groups_ok (db_groups (touch_group n p db)) = groups_ok (db_groups db)"
  by (simp add: groups_ok_def)

lemma members_ok_filter: "members_ok db ms \<Longrightarrow> members_ok db (filter p ms)"
  by (auto simp: members_ok_def distinct_map_filter)

lemma members_ok_delete: "members_ok db ms \<Longrightarrow> members_ok db (sql_delete p ms)"
  by (simp add: sql_delete_def members_ok_filter)

lemma members_ok_sub_groups:
  assumes "members_ok db ms" "db_users d = db_users db" "db_fk d = db_fk db"
    "\<And>m. db_fk db \<Longrightarrow> m \<in> set ms \<Longrightarrow> gm_group_id m \<in> g_id ` set (db_groups d)"
  shows "members_ok d ms"
  using assms by (auto simp: members_ok_def)

subsection \<open>The declared constraints are an invariant\<close>

inductive group_step :: "group_db \<Rightarrow> group_db \<Rightarrow> bool" where
  insert: "group_step db (fst (insert_new_group share uuid n1 n2 u form db))"
| set_users: "group_step db (fst (set_group_user_ids_by_id uuids n gid us db))"
| update: "group_step db (fst (update_group_by_id n gid form db))"
| delete: "group_step db (fst (delete_group_by_id gid db))"
| delete_all: "group_step db (fst (delete_all_groups db))"
| remove_user: "group_step db (fst (remove_user_from_all_groups nows u db))"
| create_groups: "group_step db (fst (create_groups_by_group_names share u names db))"
| sync: "group_step db (fst (sync_groups_by_group_names uuids n u gnames db))"
| add_users: "group_step db (fst (add_users_to_group uuids n gid us' db))"
| remove_users: "group_step db (fst (remove_users_from_group n gid us' db))"

lemma group_db_ok_touch [simp]: "group_db_ok (touch_group n p db) = group_db_ok db"
  by (simp add: group_db_ok_def)

lemma group_db_ok_members:
  assumes "group_db_ok db" "members_ok db ms"
  shows "group_db_ok (db\<lparr>db_members := ms\<rparr>)"
  using assms by (simp add: group_db_ok_def)

lemma group_db_ok_add_group:
  assumes "group_db_ok db" "groups_ok (db_groups db @ [g])"
  shows "group_db_ok (db\<lparr>db_groups := db_groups db @ [g]\<rparr>)"
proof -
  have "members_ok (db\<lparr>db_groups := db_groups db @ [g]\<rparr>) (db_members db)"
    by (rule members_ok_sub_groups [where db = db])
      (use assms(1) in \<open>auto simp: group_db_ok_def members_ok_def\<close>)
  with assms(2) show ?thesis by (simp add: group_db_ok_def)
qed

lemma create_groups_loop_ok:
  "group_db_ok db \<Longrightarrow> group_db_ok (fst (create_groups_loop share u existing names db))"
proof (induction share u existing names db rule: create_groups_loop.induct)
  case (2 share user_id existing name uuid now1 now2 rest db)
  then show ?case
    by (simp add: Let_def group_db_ok_add_group prod.case_eq_if)
qed simp

lemma add_users_loop_ok:
  "members_ok db cur \<Longrightarrow> members_ok db (db_members db) \<Longrightarrow>
    members_ok db (add_users_loop db gid now us cur)"
  by (induction db gid now us cur rule: add_users_loop.induct) (auto simp: Let_def)

lemma remove_user_fold_ok:
  "group_db_ok db \<Longrightarrow>
    group_db_ok (fold (\<lambda>(i, g) d. touch_group (nows i) (\<lambda>x. x = g_id g)
                 (d\<lparr>db_members := sql_delete (\<lambda>m. gm_group_id m = g_id g \<and> gm_user_id m = u) (db_members d)\<rparr>))
            igs db)"
proof (induction igs arbitrary: db)
  case (Cons ig igs)
  obtain i g where ig: "ig = (i, g)" by (cases ig)
  have "group_db_ok (db\<lparr>db_members := sql_delete (\<lambda>m. gm_group_id m = g_id g \<and> gm_user_id m = u) (db_members db)\<rparr>)"
    using Cons.prems by (intro group_db_ok_members) (auto simp: group_db_ok_def members_ok_delete)
  with Cons.IH ig show ?case by simp
qed simp

lemma sync_ok: "group_db_ok db \<Longrightarrow> group_db_ok (fst (sync_groups_by_group_names uuids n u gnames db))"
  unfolding sync_groups_by_group_names_def Let_def
  by (simp add: group_db_ok_def)

lemma cascade_ok:
  assumes "group_db_ok db" "groups_ok gs" "set gs \<subseteq> set (db_groups db)"
    "\<And>g. g \<in> set (db_groups db) \<Longrightarrow> g \<notin> set gs \<Longrightarrow> gone (g_id g)"
  shows "group_db_ok (db\<lparr>db_groups := gs, db_members := cascade_members gone db\<rparr>)"
  using assms by (fastforce simp: group_db_ok_def groups_ok_def cascade_members_def members_ok_def
      distinct_map_sql_delete)

lemma group_step_ok: "group_step db db' \<Longrightarrow> group_db_ok db \<Longrightarrow> group_db_ok db'"
proof (induction rule: group_step.induct)
  case (insert db share uuid n1 n2 u form)
  then show ?case
    by (auto simp: insert_new_group_def Let_def split: sum.splits intro: group_db_ok_add_group)
next
  case (set_users db uuids n gid us)
  then show ?case by (auto simp: set_group_user_ids_by_id_def Let_def intro: group_db_ok_members)
next
  case (update db n gid form)
  then show ?case
    unfolding update_group_by_id_def Let_def group_db_ok_def groups_ok_def
    by (subst members_ok_cong [of _ db]) (simp_all add: map_sql_update image_sql_update)
next
  case (delete db gid)
  then show ?case
    by (auto simp: delete_group_by_id_def groups_ok_def distinct_map_sql_delete group_db_ok_def [of db]
        intro!: cascade_ok)
next
  case (delete_all db)
  then show ?case by (auto simp: delete_all_groups_def groups_ok_def intro!: cascade_ok)
next
  case (remove_user db nows u)
  then show ?case by (simp add: remove_user_from_all_groups_def Let_def remove_user_fold_ok)
next
  case (create_groups db share u names)
  then show ?case by (simp add: create_groups_by_group_names_def create_groups_loop_ok)
next
  case (sync db uuids n u gnames)
  then show ?case by (rule sync_ok)
next
  case (add_users db uuids n gid us')
  then show ?case
    by (auto simp: add_users_to_group_def Let_def split: option.splits
        intro!: group_db_ok_members add_users_loop_ok) (auto simp: group_db_ok_def)
next
  case (remove_users db n gid us')
  then show ?case
    by (auto simp: remove_users_from_group_def Let_def split: option.splits
        intro!: group_db_ok_members members_ok_delete) (auto simp: group_db_ok_def)
qed


inductive group_reachable :: "group_db \<Rightarrow> group_db \<Rightarrow> bool" for init :: group_db where
  start: "group_reachable init init"
| more: "group_reachable init db \<Longrightarrow> group_step db db' \<Longrightarrow> group_reachable init db'"

lemma group_reachable_ok: "group_reachable init db \<Longrightarrow> group_db_ok init \<Longrightarrow> group_db_ok db"
  by (induction rule: group_reachable.induct) (auto intro: group_step_ok)

lemma fk_member_group:
  "group_db_ok db \<Longrightarrow> db_fk db \<Longrightarrow> is_member db gid uid \<Longrightarrow> gid \<in> g_id ` set (db_groups db)"
  by (auto simp: group_db_ok_def members_ok_def is_member_def list_ex_iff)

subsection \<open>Synchronising the groups of a user\<close>

lemma set_sync_target_ids:
  "set (sync_target_ids names db) = g_id ` {g \<in> set (db_groups db). g_name g \<in> set names}"
  by (auto simp: sync_target_ids_def)

lemma set_sync_existing_ids:
  "set (sync_existing_ids u db) = {i \<in> g_id ` set (db_groups db). is_member db i u}"
  by (force simp: sync_existing_ids_def set_join_members is_member_def list_ex_iff)

text \<open>The table after a successful synchronisation, as a set of (group, user) pairs.\<close>

lemma keys_new_users:
  "member_key ` set (map (\<lambda>(i, u). new_member (uuids i) g u n) (enumerate k us)) = (\<lambda>u. (g, u)) ` set us"
  by (induction us arbitrary: k) auto

lemma snd_uuid_pairs: "snd ` set (map (\<lambda>(i, u). (uuids i, u)) (enumerate k us)) = set us"
  by (induction us arbitrary: k) auto

lemma keys_new_members:
  "member_key ` set (map (\<lambda>(i, g). new_member (uuids i) g u n) (enumerate k gs)) = (\<lambda>g. (g, u)) ` set gs"
  by (induction gs arbitrary: k) auto

definition sync_rows :: "(nat \<Rightarrow> string) \<Rightarrow> int \<Rightarrow> string \<Rightarrow> string list \<Rightarrow> group_db \<Rightarrow> member_row list" where
  "sync_rows uuids now u names db =
     sql_delete (\<lambda>m. gm_user_id m = u \<and> gm_group_id m \<in> set (sync_existing_ids u db) - set (sync_target_ids names db))
       (db_members db) @
     map (\<lambda>(i, g). new_member (uuids i) g u now)
       (enumerate 0 (filter (\<lambda>i. i \<notin> set (sync_existing_ids u db)) (sync_target_ids names db)))"

lemma sync_result:
  "sync_groups_by_group_names uuids now u names db =
     (if members_ok db (sync_rows uuids now u names db)
      then (fst (sync_groups_by_group_names uuids now u names db), True) else (db, False))"
  "members_ok db (sync_rows uuids now u names db) \<Longrightarrow>
     db_members (fst (sync_groups_by_group_names uuids now u names db)) = sync_rows uuids now u names db"
proof -
  let ?rem = "filter (\<lambda>i. i \<notin> set (sync_target_ids names db)) (sync_existing_ids u db)"
  have rows: "(if ?rem \<noteq> [] then sql_delete (\<lambda>m. gm_user_id m = u \<and> gm_group_id m \<in> set ?rem) (db_members db)
        else db_members db) =
      sql_delete (\<lambda>m. gm_user_id m = u \<and> gm_group_id m \<in> set (sync_existing_ids u db) - set (sync_target_ids names db))
       (db_members db)"
  proof (cases "?rem = []")
    case True
    then have "set (sync_existing_ids u db) - set (sync_target_ids names db) = {}"
      by (auto simp: filter_empty_conv)
    then show ?thesis unfolding sql_delete_def by (simp only: if_True True) simp
  next
    case False
    then show ?thesis by (auto simp: sql_delete_def intro!: filter_cong)
  qed
  show "sync_groups_by_group_names uuids now u names db =
     (if members_ok db (sync_rows uuids now u names db)
      then (fst (sync_groups_by_group_names uuids now u names db), True) else (db, False))"
    "members_ok db (sync_rows uuids now u names db) \<Longrightarrow>
     db_members (fst (sync_groups_by_group_names uuids now u names db)) = sync_rows uuids now u names db"
    using rows by (auto simp: sync_groups_by_group_names_def sync_rows_def Let_def)
qed

lemma sync_members_keys:
  "member_key ` set (sync_rows uuids now u names db) =
     {k \<in> member_key ` set (db_members db).
        \<not> (snd k = u \<and> fst k \<in> set (sync_existing_ids u db) - set (sync_target_ids names db))} \<union>
     (\<lambda>g. (g, u)) ` (set (sync_target_ids names db) - set (sync_existing_ids u db))"
proof -
  have "member_key ` set (sync_rows uuids now u names db) =
    member_key ` {m \<in> set (db_members db). \<not> (gm_user_id m = u \<and>
        gm_group_id m \<in> set (sync_existing_ids u db) - set (sync_target_ids names db))} \<union>
     (\<lambda>g. (g, u)) ` (set (sync_target_ids names db) - set (sync_existing_ids u db))"
    unfolding sync_rows_def set_append image_Un keys_new_members
    by (intro arg_cong2 [where f = "(\<union>)"]) auto
  then show ?thesis by (auto simp: member_key_def)
qed

text \<open>Membership after a synchronisation is decided by the names alone.\<close>

lemma sync_is_member:
  assumes "snd (sync_groups_by_group_names uuids now u names db)" "i \<in> g_id ` set (db_groups db)"
  shows "is_member (fst (sync_groups_by_group_names uuids now u names db)) i v \<longleftrightarrow>
    (if v = u then i \<in> set (sync_target_ids names db) else is_member db i v)"
proof -
  have ok: "members_ok db (sync_rows uuids now u names db)"
    using assms(1) sync_result(1) [of uuids now u names db] by (metis snd_conv)
  show ?thesis
    using assms(2)
    by (auto simp: is_member_iff sync_result(2) [OF ok] sync_members_keys set_sync_existing_ids)
qed

lemma sync_keeps_groups:
  "map g_id (db_groups (fst (sync_groups_by_group_names uuids now u names db))) = map g_id (db_groups db)"
  "map g_name (db_groups (fst (sync_groups_by_group_names uuids now u names db))) = map g_name (db_groups db)"
  by (simp_all add: sync_groups_by_group_names_def Let_def)


text \<open>Fresh identifiers: what \<open>uuid4\<close> promises to the inserts of one call.\<close>

definition fresh_uuids :: "(nat \<Rightarrow> string) \<Rightarrow> nat \<Rightarrow> string set \<Rightarrow> bool" where
  "fresh_uuids uuids n used = (inj_on uuids {..<n} \<and> (\<forall>i < n. uuids i \<notin> used))"

definition fk_allows :: "group_db \<Rightarrow> string \<Rightarrow> string set \<Rightarrow> bool" where
  "fk_allows db gid us = (db_fk db \<longrightarrow> gid \<in> g_id ` set (db_groups db) \<and> us \<subseteq> u_id ` set (db_users db))"

lemma fresh_uuids_mono:
  "fresh_uuids uuids n used \<Longrightarrow> m \<le> n \<Longrightarrow> used' \<subseteq> used \<Longrightarrow> fresh_uuids uuids m used'"
  unfolding fresh_uuids_def by (meson inj_on_subset lessThan_subset_iff less_le_trans subsetD)

lemma map_enumerate_fst: "map (\<lambda>(i, x). f i) (enumerate k xs) = map f [k..<k + length xs]"
  by (induction xs arbitrary: k) (auto simp: upt_conv_Cons simp del: upt_Suc)

lemma map_enumerate_snd: "map (\<lambda>(i, x). f x) (enumerate k xs) = map f xs"
  by (induction xs arbitrary: k) auto

lemma new_rows_ok:
  assumes old: "members_ok db old"
    and fresh: "fresh_uuids uuids (length xs) (gm_id ` set old)"
    and keys: "distinct (map (\<lambda>x. (gf x, uf x)) xs)"
      "\<And>x. x \<in> set xs \<Longrightarrow> (gf x, uf x) \<notin> member_key ` set old"
    and fk: "\<And>x. x \<in> set xs \<Longrightarrow> db_fk db \<Longrightarrow> gf x \<in> g_id ` set (db_groups db) \<and> uf x \<in> u_id ` set (db_users db)"
  shows "members_ok db (old @ map (\<lambda>(i, x). new_member (uuids i) (gf x) (uf x) now) (enumerate 0 xs))"
proof -
  define new where "new = map (\<lambda>(i, x). new_member (uuids i) (gf x) (uf x) now) (enumerate 0 xs)"
  have ids: "map gm_id new = map uuids [0..<length xs]"
    using map_enumerate_fst [of uuids 0 xs] by (simp add: new_def comp_def case_prod_beta')
  have ks: "map member_key new = map (\<lambda>x. (gf x, uf x)) xs"
    using map_enumerate_snd [of "\<lambda>x. (gf x, uf x)" 0 xs] by (simp add: new_def comp_def case_prod_beta')
  have "distinct (map gm_id new)" "set (map gm_id new) \<inter> gm_id ` set old = {}"
    unfolding ids using fresh by (auto simp: fresh_uuids_def distinct_map atLeast0LessThan)
  moreover have "distinct (map member_key new)" "set (map member_key new) \<inter> member_key ` set old = {}"
    unfolding ks using keys by auto
  moreover have "\<forall>m \<in> set new. db_fk db \<longrightarrow>
      gm_group_id m \<in> g_id ` set (db_groups db) \<and> gm_user_id m \<in> u_id ` set (db_users db)"
    using fk by (auto simp: new_def in_set_enumerate_eq)
  ultimately have "members_ok db (old @ new)" using old
    by (auto simp: members_ok_def Int_commute)
  then show ?thesis by (simp add: new_def)
qed

lemma sync_succeeds:
  assumes "group_db_ok db"
    and "fresh_uuids uuids (length (db_groups db)) (gm_id ` set (db_members db))"
    and "db_fk db \<Longrightarrow> u \<in> u_id ` set (db_users db)"
  shows "members_ok db (sync_rows uuids now u names db)"
proof -
  let ?add = "filter (\<lambda>i. i \<notin> set (sync_existing_ids u db)) (sync_target_ids names db)"
  have len: "length ?add \<le> length (db_groups db)"
    unfolding sync_target_ids_def
    by (metis (no_types, lifting) length_filter_le length_map length_remdups_leq le_trans)
  have new: "(i, u) \<notin> member_key ` set (db_members db)" if "i \<in> set ?add" for i
    using that by (auto simp: set_sync_existing_ids set_sync_target_ids is_member_iff)
  have "members_ok db (sql_delete p (db_members db) @
      map (\<lambda>(i, g). new_member (uuids i) g u now) (enumerate 0 ?add))" for p
  proof (rule new_rows_ok [where gf = "\<lambda>x. x" and uf = "\<lambda>_. u"])
    show "members_ok db (sql_delete p (db_members db))"
      using assms(1) by (simp add: group_db_ok_def members_ok_delete)
    show "fresh_uuids uuids (length ?add) (gm_id ` set (sql_delete p (db_members db)))"
      by (rule fresh_uuids_mono [OF assms(2) len]) auto
    show "distinct (map (\<lambda>x. (x, u)) ?add)"
      by (simp add: sync_target_ids_def distinct_map inj_on_def)
    show "(x, u) \<notin> member_key ` set (sql_delete p (db_members db))" if "x \<in> set ?add" for x
      using new [OF that] by auto
    show "x \<in> g_id ` set (db_groups db) \<and> u \<in> u_id ` set (db_users db)"
      if "x \<in> set ?add" "db_fk db" for x
      using that assms(3) by (auto simp: set_sync_target_ids)
  qed
  then show ?thesis unfolding sync_rows_def .
qed

subsection \<open>Adding users\<close>

lemma add_users_loop_restart:
  "\<not> members_ok db (db_members db @ [new_member uuid gid d now]) \<Longrightarrow>
   members_ok db cur \<Longrightarrow> (gid, d) \<in> member_key ` set cur \<Longrightarrow>
   add_users_loop db gid now ((uuid, d) # rest) cur = add_users_loop db gid now rest (db_members db)"
  by (force simp: members_ok_def Let_def)

lemma add_users_loop_keeps:
  "set (db_members db) \<subseteq> set cur \<Longrightarrow> set (db_members db) \<subseteq> set (add_users_loop db gid now us cur)"
  by (induction db gid now us cur rule: add_users_loop.induct) (auto simp: Let_def)

lemma add_users_loop_drops_prefix:
  assumes "(gid, d) \<in> member_key ` set (db_members db)" "set (db_members db) \<subseteq> set cur"
  shows "add_users_loop db gid now (xs @ (uuid, d) # ys) cur = add_users_loop db gid now ys (db_members db)"
  using assms(2)
proof (induction xs arbitrary: cur)
  case Nil
  with assms(1) have "\<not> members_ok db (cur @ [new_member uuid gid d now])"
    by (auto simp: members_ok_def)
  then show ?case by (simp add: Let_def)
next
  case (Cons x xs)
  obtain i u where "x = (i, u)" by (cases x)
  moreover have "set (db_members db) \<subseteq> set (cur @ [new_member i gid u now])"
    using Cons.prems by auto
  ultimately show ?case using Cons.IH by (simp add: Let_def)
qed

lemma add_users_loop_keys:
  "member_key ` set (add_users_loop db gid now us cur) \<subseteq>
     member_key ` (set cur \<union> set (db_members db)) \<union> {(gid, u) | u. u \<in> snd ` set us}"
proof (induction db gid now us cur rule: add_users_loop.induct)
  case (2 db gid now uuid u rest cur)
  then show ?case
    by (cases "members_ok db (cur @ [new_member uuid gid u now])") (simp_all add: Let_def, blast+)
qed auto

lemma add_users_loop_all:
  assumes "members_ok db (cur @ map (\<lambda>(i, u). new_member i gid u now) us)"
  shows "add_users_loop db gid now us cur = cur @ map (\<lambda>(i, u). new_member i gid u now) us"
  using assms
proof (induction us arbitrary: cur)
  case (Cons x us)
  obtain i u where x: "x = (i, u)" by (cases x)
  have "members_ok db ((cur @ [new_member i gid u now]) @ map (\<lambda>(i, u). new_member i gid u now) us)"
    using Cons.prems x by simp
  moreover from this have "members_ok db (cur @ [new_member i gid u now])"
    by (auto simp: members_ok_def)
  ultimately show ?case using Cons.IH x by (simp add: Let_def)
qed simp

lemma add_users_members:
  "get_group_by_id gid db \<noteq> None \<Longrightarrow>
   db_members (fst (add_users_to_group uuids now gid (Some us) db)) =
     add_users_loop db gid now (map (\<lambda>(i, u). (uuids i, u)) (enumerate 0 us)) (db_members db)"
  by (auto simp: add_users_to_group_def Let_def)


subsection \<open>Properties\<close>

text \<open>The constraints of the group and membership tables (primary keys, one membership row per
  group and user, foreign keys where they are enforced) hold in every state reachable through the
  operations of the group table.\<close>

lemma group_tables_consistent:
  "group_reachable init db \<Longrightarrow> group_db_ok init \<Longrightarrow> group_db_ok db"
  by (rule group_reachable_ok)

definition sample_group_db :: group_db where
  "sample_group_db =
     \<lparr>db_users = [\<lparr>u_id = ''u1'', u_role = ''user''\<rparr>, \<lparr>u_id = ''u2'', u_role = ''user''\<rparr>, \<lparr>u_id = ''adm'', u_role = ''admin''\<rparr>],
      db_groups = [named_group (PStr ''members'') ''g1'' ''adm'' ''staff'' 1 1,
                   named_group (PStr ''members'') ''g2'' ''adm'' ''guests'' 2 2],
      db_members = [new_member ''m1'' ''g2'' ''u1'' 3], db_fk = True\<rparr>"

lemma sample_group_db_ok: "group_db_ok sample_group_db"
  by (simp add: sample_group_db_def group_db_ok_def groups_ok_def members_ok_def named_group_def member_key_def
      new_member_def)

theorem group_tables_consistent_witness:
  "group_db_ok (fst (delete_group_by_id ''g2'' sample_group_db)) \<and>
   db_members (fst (delete_group_by_id ''g2'' sample_group_db)) = []"
proof
  have "group_reachable sample_group_db (fst (delete_group_by_id ''g2'' sample_group_db))"
    by (rule group_reachable.more [OF group_reachable.start]) (rule group_step.delete)
  then show "group_db_ok (fst (delete_group_by_id ''g2'' sample_group_db))"
    using sample_group_db_ok by (rule group_tables_consistent)
  show "db_members (fst (delete_group_by_id ''g2'' sample_group_db)) = []"
    by (simp add: delete_group_by_id_def cascade_members_def sql_delete_def sample_group_db_def new_member_def)
qed

text \<open>C33. Synchronising the groups of a user (the groups an identity provider names) succeeds on
  consistent tables with fresh identifiers and an existing user; afterwards the user's groups are
  exactly the groups with one of the given names, and no other user's membership changes.\<close>

theorem sync_groups_correct:
  assumes "group_db_ok db"
    and "fresh_uuids uuids (length (db_groups db)) (gm_id ` set (db_members db))"
    and "db_fk db \<Longrightarrow> u \<in> u_id ` set (db_users db)"
    and "sync_groups_by_group_names uuids now u names db = (db', ok)"
  shows "ok \<and>
    g_id ` set (get_groups_by_member_id u db') = g_id ` set (filter (\<lambda>g. g_name g \<in> set names) (db_groups db)) \<and>
    (\<forall>v. v \<noteq> u \<longrightarrow> g_id ` set (get_groups_by_member_id v db') = g_id ` set (get_groups_by_member_id v db))"
proof -
  have ok: "ok" and snd: "snd (sync_groups_by_group_names uuids now u names db)"
    using sync_succeeds [OF assms(1-3)] sync_result(1) [of uuids now u names db] assms(4) by auto
  have db': "db' = fst (sync_groups_by_group_names uuids now u names db)" using assms(4) by simp
  have ids: "g_id ` set (db_groups db') = g_id ` set (db_groups db)"
    using sync_keeps_groups(1) unfolding db' by (metis set_map)
  have groups: "g_id ` set (get_groups_by_member_id v d) = {i \<in> g_id ` set (db_groups d). is_member d i v}" for v d
    by (auto simp: set_get_groups_by_member_id)
  show ?thesis
    using ok sync_is_member [OF snd, folded db'] by (auto simp: groups ids set_sync_target_ids)
qed

theorem sync_groups_correct_witness:
  "g_id ` set (get_groups_by_member_id ''u1''
     (fst (sync_groups_by_group_names (\<lambda>i. ''n'' @ replicate i CHR ''x'') 9 ''u1'' [''staff'', ''nosuch''] sample_group_db)))
   = {''g1''}"
proof -
  let ?uuids = "\<lambda>i. ''n'' @ replicate i CHR ''x''"
  have fresh: "fresh_uuids ?uuids (length (db_groups sample_group_db)) (gm_id ` set (db_members sample_group_db))"
    by (auto simp: fresh_uuids_def inj_on_def sample_group_db_def new_member_def)
  have user: "''u1'' \<in> u_id ` set (db_users sample_group_db)" by (simp add: sample_group_db_def)
  have "g_id ` set (filter (\<lambda>g. g_name g \<in> set [''staff'', ''nosuch'']) (db_groups sample_group_db)) = {''g1''}"
    by (simp add: sample_group_db_def named_group_def)
  then show ?thesis
    using sync_groups_correct [OF sample_group_db_ok fresh user, where now = 9 and names = "[''staff'', ''nosuch'']"]
    by (metis prod.collapse)
qed

text \<open>Adding users none of whom is a member yet adds every one of them and keeps the members
  there were.\<close>

lemma add_users_adds_all:
  assumes "group_db_ok db" "get_group_by_id gid db \<noteq> None" "distinct us"
    and "\<And>u. u \<in> set us \<Longrightarrow> \<not> is_member db gid u"
    and "fresh_uuids uuids (length us) (gm_id ` set (db_members db))"
    and "fk_allows db gid (set us)"
  shows "set (get_group_user_ids_by_id gid (fst (add_users_to_group uuids now gid (Some us) db))) =
    set (get_group_user_ids_by_id gid db) \<union> set us"
proof -
  let ?new = "map (\<lambda>(i, u). new_member (uuids i) gid u now) (enumerate 0 us)"
  have "members_ok db (db_members db @ ?new)"
    by (rule new_rows_ok [where gf = "\<lambda>_. gid" and uf = "\<lambda>u. u"])
      (use assms in \<open>auto simp: group_db_ok_def fk_allows_def is_member_iff distinct_map inj_on_def\<close>)
  then have "add_users_loop db gid now (map (\<lambda>(i, u). (uuids i, u)) (enumerate 0 us)) (db_members db) =
      db_members db @ ?new"
    using add_users_loop_all [of db "db_members db" gid now "map (\<lambda>(i, u). (uuids i, u)) (enumerate 0 us)"]
    by (simp add: comp_def case_prod_beta')
  then have "db_members (fst (add_users_to_group uuids now gid (Some us) db)) = db_members db @ ?new"
    using add_users_members [OF assms(2)] by metis
  moreover have "member_key ` set (db_members db @ ?new) =
      member_key ` set (db_members db) \<union> (\<lambda>u. (gid, u)) ` set us"
    unfolding set_append image_Un keys_new_users ..
  ultimately show ?thesis
    by (auto simp: set_get_group_user_ids is_member_iff)
qed

theorem add_users_adds_all_witness:
  "set (get_group_user_ids_by_id ''g2''
     (fst (add_users_to_group (\<lambda>i. ''n'' @ replicate i CHR ''x'') 9 ''g2'' (Some [''u2'', ''adm'']) sample_group_db)))
   = {''u1'', ''u2'', ''adm''}"
proof -
  let ?uuids = "\<lambda>i. ''n'' @ replicate i CHR ''x''"
  have g: "get_group_by_id ''g2'' sample_group_db \<noteq> None"
    by (simp add: get_group_by_id_def sample_group_db_def named_group_def)
  have d: "distinct [''u2'', ''adm'']" by simp
  have m: "\<not> is_member sample_group_db ''g2'' u" if "u \<in> set [''u2'', ''adm'']" for u
    using that by (auto simp: is_member_def sample_group_db_def new_member_def)
  have f: "fresh_uuids ?uuids (length [''u2'', ''adm'']) (gm_id ` set (db_members sample_group_db))"
    by (auto simp: fresh_uuids_def inj_on_def sample_group_db_def new_member_def)
  have k: "fk_allows sample_group_db ''g2'' (set [''u2'', ''adm''])"
    by (simp add: fk_allows_def sample_group_db_def named_group_def)
  have "set (get_group_user_ids_by_id ''g2'' sample_group_db) = {''u1''}"
    by (simp add: get_group_user_ids_by_id_def sample_group_db_def new_member_def)
  then show ?thesis
    using add_users_adds_all [OF sample_group_db_ok g d m f k, of 9] by (simp add: insert_commute)
qed

text \<open>C39. A user already in the group makes the insert fail, and the rollback that follows discards
  every user of the same request that precedes it: such a user is not a member afterwards.\<close>

theorem add_users_duplicate_discards_earlier:
  assumes "get_group_by_id gid db \<noteq> None" "is_member db gid d"
    and "\<not> is_member db gid u" "u \<notin> set vs"
  shows "\<not> is_member (fst (add_users_to_group uuids now gid (Some (us @ d # vs)) db)) gid u"
proof -
  let ?pairs = "map (\<lambda>(i, u). (uuids i, u)) (enumerate 0 (us @ d # vs))"
  let ?tail = "map (\<lambda>(i, u). (uuids i, u)) (enumerate (Suc (length us)) vs)"
  have split: "?pairs = map (\<lambda>(i, u). (uuids i, u)) (enumerate 0 us) @ (uuids (length us), d) # ?tail"
    by (simp add: enumerate_append_eq)
  have dk: "(gid, d) \<in> member_key ` set (db_members db)" using assms(2) by (simp add: is_member_iff)
  have "db_members (fst (add_users_to_group uuids now gid (Some (us @ d # vs)) db)) =
      add_users_loop db gid now ?tail (db_members db)"
    unfolding add_users_members [OF assms(1)] split by (rule add_users_loop_drops_prefix [OF dk]) simp
  moreover have "snd ` set ?tail = set vs" by (rule snd_uuid_pairs)
  ultimately show ?thesis
    using add_users_loop_keys [of db gid now ?tail "db_members db"] assms(3,4) by (auto simp: is_member_iff)
qed

theorem add_users_duplicate_discards_earlier_witness:
  "\<not> is_member (fst (add_users_to_group (\<lambda>i. ''n'' @ replicate i CHR ''x'') 9 ''g2'' (Some [''u2'', ''u1'', ''adm''])
      sample_group_db)) ''g2'' ''u2''"
proof -
  have g: "get_group_by_id ''g2'' sample_group_db \<noteq> None"
    by (simp add: get_group_by_id_def sample_group_db_def named_group_def)
  have d: "is_member sample_group_db ''g2'' ''u1''" and u: "\<not> is_member sample_group_db ''g2'' ''u2''"
    by (simp_all add: is_member_def sample_group_db_def new_member_def)
  show ?thesis
    using add_users_duplicate_discards_earlier [OF g d u, of "[''adm'']" _ _ "[''u2'']"] by simp
qed

end
