(* ===== verification/Access_Grants.thy ===== *)
theory Access_Grants
  imports Users_Groups
begin

section \<open>Access grants\<close>

text \<open>
  Models \<open>models/access_grants.py\<close>: the conversions between the legacy \<open>access_control\<close>
  dictionary and grant lists, the normalisation of grant lists received from clients, and every
  operation of \<open>AccessGrantsTable\<close>. The table is a list of rows; a commit that breaks the
  primary key or \<open>uq_access_grant_grant\<close> raises \<^const>\<open>IntegrityError\<close> and leaves the table as it
  was. A grant in a client's list is a \<^typ>\<open>pyval\<close>; a pydantic object stands for the dictionary
  it dumps to. The SQL filters of \<open>has_permission_filter\<close> are predicates on documents.

  The properties: what a user may do after the grants of a resource are replaced; agreement of the
  single check, the batch check and the SQL filters; the constraint as an invariant; the round trip
  with the legacy form.
\<close>

subsection \<open>Rows\<close>

record access_grant =
  ag_id :: string
  ag_resource_type :: string
  ag_resource_id :: string
  ag_principal_type :: string
  ag_principal_id :: string
  ag_permission :: string
  ag_created_at :: int

type_synonym grant_key = "string \<times> string \<times> string \<times> string \<times> string"

definition grant_key :: "access_grant \<Rightarrow> grant_key" where
  "grant_key g =
     (ag_resource_type g, ag_resource_id g, ag_principal_type g, ag_principal_id g, ag_permission g)"

definition grants_ok :: "access_grant list \<Rightarrow> bool" where
  "grants_ok t = (distinct (map ag_id t) \<and> distinct (map grant_key t))"

record grant_response =
  gr_id :: string
  gr_principal_type :: string
  gr_principal_id :: string
  gr_permission :: string

definition from_grant :: "access_grant \<Rightarrow> grant_response" where
  "from_grant g =
     \<lparr>gr_id = ag_id g, gr_principal_type = ag_principal_type g,
      gr_principal_id = ag_principal_id g, gr_permission = ag_permission g\<rparr>"

subsection \<open>Conversions\<close>

definition grant_dict :: "string \<Rightarrow> string \<Rightarrow> string \<Rightarrow> pyval \<Rightarrow> string \<Rightarrow> pydict" where
  "grant_dict rtype rid ptype pid perm =
     [(''resource_type'', PStr rtype), (''resource_id'', PStr rid), (''principal_type'', PStr ptype),
      (''principal_id'', pid), (''permission'', PStr perm)]"

definition permission_grants ::
    "(string \<Rightarrow> pyval \<Rightarrow> string \<Rightarrow> pydict) \<Rightarrow> pydict \<Rightarrow> string \<Rightarrow> pydict list result"
where
  "permission_grants mk access_control perm =
     (let perm_data = dget_or access_control perm (PDict [])
      in if \<not> truthy perm_data then Inr []
         else rbind (py_get perm_data ''group_ids'' (PList [])) (\<lambda>gids.
              rbind (py_iter gids) (\<lambda>group_ids.
              rbind (py_get perm_data ''user_ids'' (PList [])) (\<lambda>uids.
              rbind (py_iter uids) (\<lambda>user_ids.
              Inr (map (\<lambda>i. mk ''group'' i perm) group_ids @ map (\<lambda>i. mk ''user'' i perm) user_ids))))))"

definition access_control_to_grants :: "string \<Rightarrow> string \<Rightarrow> pydict option \<Rightarrow> pydict list result" where
  "access_control_to_grants rtype rid access_control =
     (case access_control of
        None \<Rightarrow> Inr (if rtype \<noteq> ''file'' then [grant_dict rtype rid ''user'' (PStr ''*'') ''read''] else [])
      | Some ac \<Rightarrow>
          if ac = [] then Inr []
          else rbind (permission_grants (grant_dict rtype rid) ac ''read'') (\<lambda>rs.
               rbind (permission_grants (grant_dict rtype rid) ac ''write'') (\<lambda>ws. Inr (rs @ ws))))"

record norm_grant =
  ng_id :: string
  ng_principal_type :: string
  ng_principal_id :: string
  ng_permission :: string

definition ng_key :: "norm_grant \<Rightarrow> string \<times> string \<times> string" where
  "ng_key g = (ng_principal_type g, ng_principal_id g, ng_permission g)"

fun str_of :: "pyval \<Rightarrow> string option" where
  "str_of (PStr s) = Some s"
| "str_of _ = None"

definition normalize_grant :: "string \<Rightarrow> pyval \<Rightarrow> norm_grant option" where
  "normalize_grant uuid grant =
     (case grant of
        PDict d \<Rightarrow>
          (case (str_of (dget d ''principal_type''), str_of (dget d ''principal_id''), str_of (dget d ''permission'')) of
             (Some ptype, Some pid, Some perm) \<Rightarrow>
               (if ptype \<notin> {''user'', ''group'', ''anyone''} then None
                else if perm \<notin> {''read'', ''write''} then None
                else if pid = [] then None
                else if ptype = ''anyone'' \<and> (pid \<noteq> ''*'' \<or> perm \<noteq> ''read'') then None
                else Some \<lparr>ng_id = (case str_of (dget d ''id'') of Some i \<Rightarrow> if i \<noteq> [] then i else uuid | None \<Rightarrow> uuid),
                           ng_principal_type = ptype, ng_principal_id = pid, ng_permission = perm\<rparr>)
           | _ \<Rightarrow> None)
      | _ \<Rightarrow> None)"

fun normalize_loop ::
    "(nat \<Rightarrow> string) \<Rightarrow> nat \<Rightarrow> pyval list \<Rightarrow> ((string \<times> string \<times> string) \<times> norm_grant) list
      \<Rightarrow> ((string \<times> string \<times> string) \<times> norm_grant) list"
where
  "normalize_loop uuids i [] deduped = deduped"
| "normalize_loop uuids i (grant # grants) deduped =
     (case normalize_grant (uuids i) grant of
        None \<Rightarrow> normalize_loop uuids (Suc i) grants deduped
      | Some g \<Rightarrow> normalize_loop uuids (Suc i) grants (dset (ng_key g) g deduped))"

definition normalize_access_grants :: "(nat \<Rightarrow> string) \<Rightarrow> pyval list \<Rightarrow> norm_grant list" where
  "normalize_access_grants uuids access_grants = map snd (normalize_loop uuids 0 access_grants [])"

text \<open>The checks on a client's list; they never look at the identifiers, so none is supplied.\<close>

definition has_public_read_access_grant :: "pyval list \<Rightarrow> bool" where
  "has_public_read_access_grant gs =
     list_ex (\<lambda>g. ng_principal_type g = ''user'' \<and> ng_principal_id g = ''*'' \<and> ng_permission g = ''read'')
       (normalize_access_grants (\<lambda>_. []) gs)"

definition has_public_write_access_grant :: "pyval list \<Rightarrow> bool" where
  "has_public_write_access_grant gs =
     list_ex (\<lambda>g. ng_principal_type g = ''user'' \<and> ng_principal_id g = ''*'' \<and> ng_permission g = ''write'')
       (normalize_access_grants (\<lambda>_. []) gs)"

definition has_anyone_read_access_grant :: "pyval list \<Rightarrow> bool" where
  "has_anyone_read_access_grant gs =
     list_ex (\<lambda>g. ng_principal_type g = ''anyone'' \<and> ng_principal_id g = ''*'' \<and> ng_permission g = ''read'')
       (normalize_access_grants (\<lambda>_. []) gs)"

definition has_user_access_grant :: "pyval list \<Rightarrow> bool" where
  "has_user_access_grant gs =
     list_ex (\<lambda>g. ng_principal_type g = ''user'' \<and> ng_principal_id g \<noteq> ''*'') (normalize_access_grants (\<lambda>_. []) gs)"

definition grant_field :: "pyval \<Rightarrow> string \<Rightarrow> pyval" where
  "grant_field g k = (case g of PDict d \<Rightarrow> dget d k | _ \<Rightarrow> PNone)"

definition strip_user_access_grants :: "pyval list \<Rightarrow> pyval list" where
  "strip_user_access_grants gs =
     filter (\<lambda>g. \<not> (grant_field g ''principal_type'' = PStr ''user'' \<and> grant_field g ''principal_id'' \<noteq> PStr ''*'')) gs"

definition strip_anyone_access_grants :: "pyval list \<Rightarrow> pyval list" where
  "strip_anyone_access_grants gs = filter (\<lambda>g. grant_field g ''principal_type'' \<noteq> PStr ''anyone'') gs"

text \<open>
  The legacy dictionary rebuilt from rows: \<open>acc permission kind\<close> is the list
  \<open>result[permission][kind]\<close>.
\<close>

type_synonym legacy_lists = "string \<Rightarrow> string \<Rightarrow> string list"

definition legacy_add :: "string \<Rightarrow> string \<Rightarrow> string \<Rightarrow> legacy_lists \<Rightarrow> legacy_lists" where
  "legacy_add perm kind pid acc =
     (if pid \<in> set (acc perm kind) then acc
      else acc(perm := (acc perm)(kind := acc perm kind @ [pid])))"

fun legacy_loop :: "access_grant list \<Rightarrow> bool \<Rightarrow> legacy_lists \<Rightarrow> bool \<times> legacy_lists" where
  "legacy_loop [] is_public acc = (is_public, acc)"
| "legacy_loop (g # gs) is_public acc =
     (if ag_principal_type g = ''user'' \<and> ag_principal_id g = ''*'' \<and> ag_permission g = ''read''
      then legacy_loop gs True acc
      else if ag_permission g \<notin> {''read'', ''write''} then legacy_loop gs is_public acc
      else if ag_principal_type g = ''group''
      then legacy_loop gs is_public (legacy_add (ag_permission g) ''group_ids'' (ag_principal_id g) acc)
      else if ag_principal_type g = ''user''
      then legacy_loop gs is_public (legacy_add (ag_permission g) ''user_ids'' (ag_principal_id g) acc)
      else legacy_loop gs is_public acc)"

definition legacy_dict :: "legacy_lists \<Rightarrow> pydict" where
  "legacy_dict acc =
     map (\<lambda>perm. (perm, PDict (map (\<lambda>kind. (kind, PList (map PStr (acc perm kind)))) [''group_ids'', ''user_ids''])))
       [''read'', ''write'']"

definition grants_to_access_control :: "access_grant list \<Rightarrow> pydict option" where
  "grants_to_access_control grants =
     (if grants = [] then Some []
      else (case legacy_loop grants False (\<lambda>_ _. []) of
              (is_public, acc) \<Rightarrow> if is_public then None else Some (legacy_dict acc)))"

subsection \<open>Table operations that write\<close>

definition matches :: "string \<Rightarrow> string \<Rightarrow> string \<Rightarrow> string \<Rightarrow> string \<Rightarrow> access_grant \<Rightarrow> bool" where
  "matches rtype rid ptype pid perm g = (grant_key g = (rtype, rid, ptype, pid, perm))"

definition on_resource :: "string \<Rightarrow> string \<Rightarrow> access_grant \<Rightarrow> bool" where
  "on_resource rtype rid g = (ag_resource_type g = rtype \<and> ag_resource_id g = rid)"

definition new_grant :: "string \<Rightarrow> string \<Rightarrow> string \<Rightarrow> string \<Rightarrow> string \<Rightarrow> string \<Rightarrow> int \<Rightarrow> access_grant" where
  "new_grant uuid rtype rid ptype pid perm now =
     \<lparr>ag_id = uuid, ag_resource_type = rtype, ag_resource_id = rid, ag_principal_type = ptype,
      ag_principal_id = pid, ag_permission = perm, ag_created_at = now\<rparr>"

definition commit_grants :: "access_grant list \<Rightarrow> access_grant list \<Rightarrow> 'a \<Rightarrow> access_grant list \<times> 'a result" where
  "commit_grants old t x = (if grants_ok t then (t, Inr x) else (old, Inl IntegrityError))"

definition grant_access ::
    "string \<Rightarrow> int \<Rightarrow> string \<Rightarrow> string \<Rightarrow> string \<Rightarrow> string \<Rightarrow> string \<Rightarrow> access_grant list
      \<Rightarrow> access_grant list \<times> access_grant result"
where
  "grant_access uuid now rtype rid ptype pid perm t =
     (case find (matches rtype rid ptype pid perm) t of
        Some existing \<Rightarrow> (t, Inr existing)
      | None \<Rightarrow> (let grant = new_grant uuid rtype rid ptype pid perm now
                 in commit_grants t (t @ [grant]) grant))"

definition revoke_access ::
    "string \<Rightarrow> string \<Rightarrow> string \<Rightarrow> string \<Rightarrow> string \<Rightarrow> access_grant list \<Rightarrow> access_grant list \<times> bool"
where
  "revoke_access rtype rid ptype pid perm t =
     (sql_delete (matches rtype rid ptype pid perm) t,
      0 < length (filter (matches rtype rid ptype pid perm) t))"

definition revoke_all_access :: "string \<Rightarrow> string \<Rightarrow> access_grant list \<Rightarrow> access_grant list \<times> nat" where
  "revoke_all_access rtype rid t =
     (sql_delete (on_resource rtype rid) t, length (filter (on_resource rtype rid) t))"

text \<open>
  \<open>set_access_control\<close> stores a dictionary per grant; the principal column holds text, so a
  principal that is not a string is rejected by the driver.
\<close>

definition dict_grant :: "string \<Rightarrow> int \<Rightarrow> pydict \<Rightarrow> access_grant result" where
  "dict_grant uuid now d =
     (case (str_of (dget d ''resource_type''), str_of (dget d ''resource_id''), str_of (dget d ''principal_type''),
            str_of (dget d ''principal_id''), str_of (dget d ''permission'')) of
        (Some rt, Some ri, Some pt, Some pi, Some pm) \<Rightarrow> Inr (new_grant uuid rt ri pt pi pm now)
      | _ \<Rightarrow> Inl DataError)"

definition set_access_control ::
    "(nat \<Rightarrow> string) \<Rightarrow> (nat \<Rightarrow> int) \<Rightarrow> string \<Rightarrow> string \<Rightarrow> pydict option \<Rightarrow> access_grant list
      \<Rightarrow> access_grant list \<times> access_grant list result"
where
  "set_access_control uuids nows rtype rid access_control t =
     (case access_control_to_grants rtype rid access_control of
        Inl e \<Rightarrow> (t, Inl e)
      | Inr grant_dicts \<Rightarrow>
          (case rmap (\<lambda>(i, d). dict_grant (uuids i) (nows i) d) (enumerate 0 grant_dicts) of
             Inl e \<Rightarrow> (t, Inl e)
           | Inr results \<Rightarrow> commit_grants t (sql_delete (on_resource rtype rid) t @ results) results))"

definition set_access_grants ::
    "(nat \<Rightarrow> string) \<Rightarrow> (nat \<Rightarrow> string) \<Rightarrow> (nat \<Rightarrow> int) \<Rightarrow> string \<Rightarrow> string \<Rightarrow> pyval list \<Rightarrow> access_grant list
      \<Rightarrow> access_grant list \<times> access_grant list result"
where
  "set_access_grants norm_uuids uuids nows rtype rid access_grants t =
     (let results = map (\<lambda>(i, g). new_grant (uuids i) rtype rid (ng_principal_type g) (ng_principal_id g)
                                   (ng_permission g) (nows i))
                     (enumerate 0 (normalize_access_grants norm_uuids access_grants))
      in commit_grants t (sql_delete (on_resource rtype rid) t @ results) results)"

subsection \<open>Table operations that read\<close>

definition get_grants_by_resource :: "string \<Rightarrow> string \<Rightarrow> access_grant list \<Rightarrow> access_grant list" where
  "get_grants_by_resource rtype rid t = filter (on_resource rtype rid) t"

definition get_access_control :: "string \<Rightarrow> string \<Rightarrow> access_grant list \<Rightarrow> pydict option" where
  "get_access_control rtype rid t = grants_to_access_control (filter (on_resource rtype rid) t)"

definition get_grants_by_resources ::
    "string \<Rightarrow> string list \<Rightarrow> access_grant list \<Rightarrow> (string \<times> access_grant list) list"
where
  "get_grants_by_resources rtype rids t =
     (if rids = [] then []
      else fold (\<lambda>g d. dset (ag_resource_id g) (dget_or d (ag_resource_id g) [] @ [g]) d)
             (filter (\<lambda>g. ag_resource_type g = rtype \<and> ag_resource_id g \<in> set rids) t)
             (fold (\<lambda>r d. dset r [] d) rids []))"

definition has_anyone_access :: "string \<Rightarrow> string \<Rightarrow> string \<Rightarrow> access_grant list \<Rightarrow> bool" where
  "has_anyone_access rtype rid perm t =
     list_ex (\<lambda>g. ag_resource_type g = rtype \<and> ag_resource_id g = rid \<and> ag_principal_type g = ''anyone'' \<and>
                  ag_principal_id g = ''*'' \<and> ag_permission g = perm) t"

definition member_group_ids :: "string list option \<Rightarrow> string \<Rightarrow> group_db \<Rightarrow> string list" where
  "member_group_ids user_group_ids user_id db =
     (case user_group_ids of
        Some gids \<Rightarrow> gids
      | None \<Rightarrow> map g_id (get_groups_by_member_id user_id db))"

definition principal_conditions :: "string \<Rightarrow> string list \<Rightarrow> (access_grant \<Rightarrow> bool) list" where
  "principal_conditions user_id gids =
     [\<lambda>g. ag_principal_type g = ''user'' \<and> ag_principal_id g = ''*'',
      \<lambda>g. ag_principal_type g = ''user'' \<and> ag_principal_id g = user_id] @
     (if gids \<noteq> [] then [\<lambda>g. ag_principal_type g = ''group'' \<and> ag_principal_id g \<in> set gids] else [])"

definition has_access ::
    "string \<Rightarrow> string \<Rightarrow> string \<Rightarrow> string \<Rightarrow> string list option \<Rightarrow> group_db \<Rightarrow> access_grant list \<Rightarrow> bool"
where
  "has_access user_id rtype rid perm user_group_ids db t =
     (let conditions = principal_conditions user_id (member_group_ids user_group_ids user_id db)
      in find (\<lambda>g. ag_resource_type g = rtype \<and> ag_resource_id g = rid \<and> ag_permission g = perm \<and>
                   list_ex (\<lambda>c. c g) conditions) t \<noteq> None)"

definition get_accessible_resource_ids ::
    "string \<Rightarrow> string \<Rightarrow> string list \<Rightarrow> string \<Rightarrow> string list option \<Rightarrow> group_db \<Rightarrow> access_grant list \<Rightarrow> string list"
where
  "get_accessible_resource_ids user_id rtype rids perm user_group_ids db t =
     (if rids = [] then []
      else (let conditions = principal_conditions user_id (member_group_ids user_group_ids user_id db)
            in remdups (map ag_resource_id
                 (filter (\<lambda>g. ag_resource_type g = rtype \<and> ag_resource_id g \<in> set rids \<and>
                              ag_permission g = perm \<and> list_ex (\<lambda>c. c g) conditions) t))))"

definition get_users_with_access ::
    "string \<Rightarrow> string \<Rightarrow> string \<Rightarrow> group_db \<Rightarrow> access_grant list \<Rightarrow> user_row list"
where
  "get_users_with_access rtype rid perm db t =
     (let grants = filter (\<lambda>g. on_resource rtype rid g \<and> ag_permission g = perm) t
      in if list_ex (\<lambda>g. ag_principal_type g = ''user'' \<and> ag_principal_id g = ''*'') grants
         then users_by_roles [''!pending''] (db_users db)
         else (let user_ids = concat (map (\<lambda>g.
                     if ag_principal_type g = ''user'' then [ag_principal_id g]
                     else if ag_principal_type g = ''group'' then get_group_user_ids_by_id (ag_principal_id g) db
                     else []) grants)
               in if user_ids = [] then [] else get_users_by_user_ids user_ids (db_users db)))"

subsection \<open>The SQL filters\<close>

record document =
  doc_id :: string
  doc_user_id :: string

record access_filter =
  af_group_ids :: "string list"
  af_user_id :: "string option"

definition af_user_given :: "access_filter \<Rightarrow> bool" where
  "af_user_given flt = (case af_user_id flt of None \<Rightarrow> False | Some u \<Rightarrow> u \<noteq> [])"

definition grant_exists :: "string \<Rightarrow> string \<Rightarrow> access_filter \<Rightarrow> access_grant list \<Rightarrow> document \<Rightarrow> bool" where
  "grant_exists rtype perm flt t doc =
     list_ex (\<lambda>g. ag_resource_type g = rtype \<and> ag_resource_id g = doc_id doc \<and> ag_permission g = perm \<and>
       ((ag_principal_type g = ''user'' \<and> ag_principal_id g = ''*'') \<or>
        (af_user_given flt \<and> ag_principal_type g = ''user'' \<and> Some (ag_principal_id g) = af_user_id flt) \<or>
        (af_group_ids flt \<noteq> [] \<and> ag_principal_type g = ''group'' \<and> ag_principal_id g \<in> set (af_group_ids flt)))) t"

definition read_only_permission_filter ::
    "access_filter \<Rightarrow> string \<Rightarrow> access_grant list \<Rightarrow> document list \<Rightarrow> document list"
where
  "read_only_permission_filter flt rtype t query =
     filter (\<lambda>doc. grant_exists rtype ''read'' flt t doc \<and> \<not> grant_exists rtype ''write'' flt t doc \<and>
                   (af_user_given flt \<longrightarrow> Some (doc_user_id doc) \<noteq> af_user_id flt)) query"

definition has_permission_filter ::
    "access_filter \<Rightarrow> string \<Rightarrow> string \<Rightarrow> access_grant list \<Rightarrow> document list \<Rightarrow> document list"
where
  "has_permission_filter flt rtype perm t query =
     (if perm = ''read_only'' then read_only_permission_filter flt rtype t query
      else if af_group_ids flt = [] \<and> \<not> af_user_given flt then query
      else filter (\<lambda>doc. grant_exists rtype perm flt t doc \<or>
                         (af_user_given flt \<and> Some (doc_user_id doc) = af_user_id flt)) query)"


subsection \<open>Which grants cover which users\<close>

definition covers :: "string \<Rightarrow> string set \<Rightarrow> string \<Rightarrow> string \<Rightarrow> bool" where
  "covers user_id gids ptype pid =
     (ptype = ''user'' \<and> (pid = ''*'' \<or> pid = user_id) \<or> ptype = ''group'' \<and> pid \<in> gids)"

lemma principal_conditions_covers:
  "list_ex (\<lambda>c. c g) (principal_conditions u gids) \<longleftrightarrow> covers u (set gids) (ag_principal_type g) (ag_principal_id g)"
  by (auto simp: principal_conditions_def covers_def)

lemma has_access_iff:
  "has_access u rtype rid perm gi db t \<longleftrightarrow>
     (\<exists>g \<in> set t. on_resource rtype rid g \<and> ag_permission g = perm \<and>
        covers u (set (member_group_ids gi u db)) (ag_principal_type g) (ag_principal_id g))"
  by (auto simp: has_access_def Let_def find_None_iff principal_conditions_covers on_resource_def)

lemma set_accessible:
  "set (get_accessible_resource_ids u rtype rids perm gi db t) =
     {rid \<in> set rids. has_access u rtype rid perm gi db t}"
  by (auto simp: get_accessible_resource_ids_def Let_def has_access_iff principal_conditions_covers on_resource_def)

lemma grant_exists_covers:
  "af_user_id flt = Some u \<Longrightarrow> u \<noteq> [] \<Longrightarrow>
   grant_exists rtype perm flt t doc \<longleftrightarrow> has_access u rtype (doc_id doc) perm (Some (af_group_ids flt)) db t"
  by (force simp: grant_exists_def has_access_iff list_ex_iff covers_def member_group_ids_def af_user_given_def
      on_resource_def)

subsection \<open>Normalised lists\<close>

text \<open>The (type, id, permission) triple of a valid entry; the entry's identifier plays no part.\<close>

definition grant_triple :: "pyval \<Rightarrow> (string \<times> string \<times> string) option" where
  "grant_triple grant = map_option ng_key (normalize_grant [] grant)"

lemma normalize_grant_key: "map_option ng_key (normalize_grant uuid grant) = grant_triple grant"
  by (auto simp: normalize_grant_def grant_triple_def ng_key_def split: pyval.split option.split)

lemma normalize_grant_SomeD: "normalize_grant uuid grant = Some g \<Longrightarrow> grant_triple grant = Some (ng_key g)"
  using normalize_grant_key [of uuid grant] by simp

lemma normalize_grant_NoneD: "normalize_grant uuid grant = None \<Longrightarrow> grant_triple grant = None"
  using normalize_grant_key [of uuid grant] by simp

definition keyed :: "((string \<times> string \<times> string) \<times> norm_grant) list \<Rightarrow> bool" where
  "keyed d = (distinct (map fst d) \<and> (\<forall>(k, g) \<in> set d. k = ng_key g))"

lemma keyed_dset: "keyed d \<Longrightarrow> keyed (dset (ng_key g) g d)"
  by (auto simp: keyed_def distinct_update dest!: set_dset)

lemma normalize_loop_keyed: "keyed d \<Longrightarrow> keyed (normalize_loop uuids i gs d)"
  by (induction uuids i gs d rule: normalize_loop.induct) (auto simp: keyed_dset split: option.split)

lemma normalize_loop_keys:
  "fst ` set (normalize_loop uuids i gs d) = fst ` set d \<union> {k. \<exists>g \<in> set gs. grant_triple g = Some k}"
  by (induction uuids i gs d rule: normalize_loop.induct)
    (auto simp: dom_update split: option.splits dest: normalize_grant_SomeD normalize_grant_NoneD)

lemma normalize_keys:
  "ng_key ` set (normalize_access_grants uuids gs) = {k. \<exists>g \<in> set gs. grant_triple g = Some k}"
proof -
  have "keyed (normalize_loop uuids 0 gs [])" by (rule normalize_loop_keyed) (simp add: keyed_def)
  then have "ng_key ` snd ` set (normalize_loop uuids 0 gs []) = fst ` set (normalize_loop uuids 0 gs [])"
    by (force simp: keyed_def image_image intro!: image_cong)
  then show ?thesis by (simp add: normalize_access_grants_def normalize_loop_keys)
qed

lemma normalize_distinct: "distinct (map ng_key (normalize_access_grants uuids gs))"
proof -
  have "keyed (normalize_loop uuids 0 gs [])" by (rule normalize_loop_keyed) (simp add: keyed_def)
  moreover from this have "map ng_key (map snd (normalize_loop uuids 0 gs [])) = map fst (normalize_loop uuids 0 gs [])"
    by (auto simp: keyed_def)
  ultimately show ?thesis by (metis keyed_def normalize_access_grants_def)
qed

lemma normalize_length: "length (normalize_access_grants uuids gs) \<le> length gs"
proof -
  have "length (normalize_loop uuids i gs d) \<le> length gs + length d" for i d
  proof (induction uuids i gs d rule: normalize_loop.induct)
    case (2 uuids i grant grants d)
    show ?case
    proof (cases "normalize_grant (uuids i) grant")
      case None
      with 2 show ?thesis by simp
    next
      case (Some g)
      with "2.IH"(2) [OF Some] length_dset [of "ng_key g" g d] show ?thesis by simp
    qed
  qed simp
  from this [of 0 "[]"] show ?thesis by (simp add: normalize_access_grants_def)
qed

lemma grant_triple_valid:
  "grant_triple grant = Some (ptype, pid, perm) \<Longrightarrow>
     ptype \<in> {''user'', ''group'', ''anyone''} \<and> perm \<in> {''read'', ''write''} \<and> pid \<noteq> [] \<and>
     (ptype = ''anyone'' \<longrightarrow> pid = ''*'' \<and> perm = ''read'')"
  by (auto simp: grant_triple_def normalize_grant_def ng_key_def split: pyval.splits option.splits if_splits)

lemma normalize_list_ex:
  "list_ex (\<lambda>g. P (ng_principal_type g) (ng_principal_id g) (ng_permission g)) (normalize_access_grants uuids gs) \<longleftrightarrow>
     (\<exists>g \<in> set gs. \<exists>ptype pid perm. grant_triple g = Some (ptype, pid, perm) \<and> P ptype pid perm)"
proof -
  have "list_ex (\<lambda>g. P (ng_principal_type g) (ng_principal_id g) (ng_permission g)) (normalize_access_grants uuids gs) \<longleftrightarrow>
      (\<exists>k \<in> ng_key ` set (normalize_access_grants uuids gs). case k of (ptype, pid, perm) \<Rightarrow> P ptype pid perm)"
    by (auto simp: list_ex_iff ng_key_def)
  then show ?thesis by (auto simp: normalize_keys)
qed

subsection \<open>Replacing the grants of a resource\<close>

definition installed_grants ::
    "(nat \<Rightarrow> string) \<Rightarrow> (nat \<Rightarrow> int) \<Rightarrow> string \<Rightarrow> string \<Rightarrow> norm_grant list \<Rightarrow> access_grant list"
where
  "installed_grants uuids nows rtype rid ngs =
     map (\<lambda>(i, g). new_grant (uuids i) rtype rid (ng_principal_type g) (ng_principal_id g) (ng_permission g) (nows i))
       (enumerate 0 ngs)"

lemma new_grant_simps [simp]:
  "ag_id (new_grant i a b c d e n) = i" "ag_resource_type (new_grant i a b c d e n) = a"
  "ag_resource_id (new_grant i a b c d e n) = b" "ag_principal_type (new_grant i a b c d e n) = c"
  "ag_principal_id (new_grant i a b c d e n) = d" "ag_permission (new_grant i a b c d e n) = e"
  "grant_key (new_grant i a b c d e n) = (a, b, c, d, e)"
  by (simp_all add: new_grant_def grant_key_def)

lemma map_enumerate_both:
  "map f (map (\<lambda>(i, x). h i x) (enumerate k xs)) = map (\<lambda>(i, x). f (h i x)) (enumerate k xs)"
  by (simp add: comp_def case_prod_beta')

lemma installed_ids: "map ag_id (installed_grants uuids nows rtype rid ngs) = map uuids [0..<length ngs]"
  unfolding installed_grants_def map_enumerate_both using map_enumerate_fst [of uuids 0 ngs] by simp

lemma installed_keys:
  "map grant_key (installed_grants uuids nows rtype rid ngs) = map (\<lambda>g. (rtype, rid, ng_key g)) ngs"
  unfolding installed_grants_def map_enumerate_both
  using map_enumerate_snd [of "\<lambda>g. (rtype, rid, ng_key g)" 0 ngs] by (simp add: ng_key_def)

lemma grants_ok_replace:
  assumes "grants_ok t" and "distinct (map ag_id new)" "set (map ag_id new) \<inter> ag_id ` set t = {}"
    and "distinct (map grant_key new)" "\<And>g. g \<in> set new \<Longrightarrow> on_resource rtype rid g"
  shows "grants_ok (sql_delete (on_resource rtype rid) t @ new)"
proof -
  have "grant_key ` set (sql_delete (on_resource rtype rid) t) \<inter> grant_key ` set new = {}"
    using assms(5) by (force simp: grant_key_def on_resource_def)
  moreover have "ag_id ` set (sql_delete (on_resource rtype rid) t) \<inter> ag_id ` set new = {}"
    using assms(3) by auto
  ultimately show ?thesis using assms by (simp add: grants_ok_def distinct_map_sql_delete)
qed

lemma installed_on_resource: "g \<in> set (installed_grants uuids nows rtype rid ngs) \<Longrightarrow> on_resource rtype rid g"
  by (auto simp: installed_grants_def on_resource_def)

lemma set_access_grants_ok:
  assumes "grants_ok t" "fresh_uuids uuids (length gs) (ag_id ` set t)"
  shows "set_access_grants nu uuids nows rtype rid gs t =
    (sql_delete (on_resource rtype rid) t @ installed_grants uuids nows rtype rid (normalize_access_grants nu gs),
     Inr (installed_grants uuids nows rtype rid (normalize_access_grants nu gs)))"
proof -
  let ?ngs = "normalize_access_grants nu gs"
  have fresh: "fresh_uuids uuids (length ?ngs) (ag_id ` set t)"
    by (rule fresh_uuids_mono [OF assms(2) normalize_length]) simp
  have "grants_ok (sql_delete (on_resource rtype rid) t @ installed_grants uuids nows rtype rid ?ngs)"
  proof (rule grants_ok_replace [OF assms(1)])
    show "distinct (map ag_id (installed_grants uuids nows rtype rid ?ngs))"
      "set (map ag_id (installed_grants uuids nows rtype rid ?ngs)) \<inter> ag_id ` set t = {}"
      unfolding installed_ids using fresh by (auto simp: fresh_uuids_def distinct_map atLeast0LessThan)
    show "distinct (map grant_key (installed_grants uuids nows rtype rid ?ngs))"
      unfolding installed_keys using normalize_distinct [of nu gs] by (auto simp: distinct_map inj_on_def)
  qed (rule installed_on_resource)
  then show ?thesis by (simp add: set_access_grants_def commit_grants_def Let_def flip: installed_grants_def)
qed

lemma covers_installed:
  "(\<exists>g \<in> set (installed_grants uuids nows rtype rid ngs). ag_permission g = perm \<and>
      P (ag_principal_type g) (ag_principal_id g)) \<longleftrightarrow>
   (\<exists>(ptype, pid, p) \<in> ng_key ` set ngs. p = perm \<and> P ptype pid)"
proof -
  have "(\<exists>g \<in> set (installed_grants uuids nows rtype rid ngs). ag_permission g = perm \<and>
      P (ag_principal_type g) (ag_principal_id g)) \<longleftrightarrow>
    (\<exists>(_, _, ptype, pid, p) \<in> set (map grant_key (installed_grants uuids nows rtype rid ngs)). p = perm \<and> P ptype pid)"
    by (auto simp: grant_key_def)
  then show ?thesis unfolding installed_keys by (auto simp: ng_key_def)
qed

lemma has_access_replaced:
  assumes "\<And>g. g \<in> set new \<Longrightarrow> on_resource rtype rid g"
  shows "has_access u rtype rid perm gi db (sql_delete (on_resource rtype rid) t @ new) \<longleftrightarrow>
      (\<exists>g \<in> set new. ag_permission g = perm \<and>
        covers u (set (member_group_ids gi u db)) (ag_principal_type g) (ag_principal_id g))"
    and "(rt, ri) \<noteq> (rtype, rid) \<Longrightarrow>
      has_access u rt ri perm gi db (sql_delete (on_resource rtype rid) t @ new) = has_access u rt ri perm gi db t"
  using assms by (auto simp: has_access_iff on_resource_def)


subsection \<open>The legacy form\<close>

definition row_triple :: "access_grant \<Rightarrow> string \<times> string \<times> string" where
  "row_triple g = (ag_principal_type g, ag_principal_id g, ag_permission g)"

definition legacy_triples :: "legacy_lists \<Rightarrow> (string \<times> string \<times> string) list" where
  "legacy_triples acc =
     concat (map (\<lambda>perm. map (\<lambda>i. (''group'', i, perm)) (acc perm ''group_ids'') @
                          map (\<lambda>i. (''user'', i, perm)) (acc perm ''user_ids'')) [''read'', ''write''])"

definition triple_rows ::
    "(nat \<Rightarrow> string) \<Rightarrow> (nat \<Rightarrow> int) \<Rightarrow> string \<Rightarrow> string \<Rightarrow> nat \<Rightarrow> (string \<times> string \<times> string) list \<Rightarrow> access_grant list"
where
  "triple_rows uuids nows rtype rid k ts =
     map (\<lambda>(i, ptype, pid, perm). new_grant (uuids i) rtype rid ptype pid perm (nows i)) (enumerate k ts)"

lemma triple_rows_triples: "map row_triple (triple_rows uuids nows rtype rid k ts) = ts"
  by (induction ts arbitrary: k) (auto simp: triple_rows_def row_triple_def)

lemma triple_rows_keys:
  "map grant_key (triple_rows uuids nows rtype rid k ts) = map (\<lambda>t. (rtype, rid, t)) ts"
  by (induction ts arbitrary: k) (auto simp: triple_rows_def)

lemma triple_rows_ids: "map ag_id (triple_rows uuids nows rtype rid k ts) = map uuids [k..<k + length ts]"
  by (induction ts arbitrary: k) (auto simp: triple_rows_def upt_conv_Cons simp del: upt_Suc)

lemma triple_rows_on_resource: "g \<in> set (triple_rows uuids nows rtype rid k ts) \<Longrightarrow> on_resource rtype rid g"
  by (auto simp: triple_rows_def on_resource_def)

lemma legacy_dict_grants:
  "access_control_to_grants rtype rid (Some (legacy_dict acc)) =
     Inr (map (\<lambda>(ptype, pid, perm). grant_dict rtype rid ptype (PStr pid) perm) (legacy_triples acc))"
  by (simp add: access_control_to_grants_def permission_grants_def legacy_dict_def legacy_triples_def comp_def)

lemma dict_grants_rows:
  "rmap (\<lambda>(i, d). dict_grant (uuids i) (nows i) d)
     (enumerate k (map (\<lambda>(ptype, pid, perm). grant_dict rtype rid ptype (PStr pid) perm) ts)) =
   Inr (triple_rows uuids nows rtype rid k ts)"
  by (induction ts arbitrary: k) (auto simp: triple_rows_def dict_grant_def grant_dict_def)

lemma set_access_control_legacy:
  "set_access_control uuids nows rtype rid (Some (legacy_dict acc)) t =
     commit_grants t (sql_delete (on_resource rtype rid) t @ triple_rows uuids nows rtype rid 0 (legacy_triples acc))
       (triple_rows uuids nows rtype rid 0 (legacy_triples acc))"
  by (simp add: set_access_control_def legacy_dict_grants dict_grants_rows)

lemma legacy_loop_append:
  "legacy_loop (xs @ ys) b acc = (case legacy_loop xs b acc of (b', acc') \<Rightarrow> legacy_loop ys b' acc')"
  by (induction xs b acc rule: legacy_loop.induct) auto

lemma row_tripleD:
  "row_triple g = (ptype, pid, perm) \<Longrightarrow> ag_principal_type g = ptype \<and> ag_principal_id g = pid \<and> ag_permission g = perm"
  by (simp add: row_triple_def)

lemma legacy_loop_groups:
  assumes "map row_triple rows = map (\<lambda>i. (''group'', i, perm)) ids" "perm \<in> {''read'', ''write''}"
    and "distinct (acc perm ''group_ids'' @ ids)"
  shows "legacy_loop rows b acc =
    (b, acc(perm := (acc perm)(''group_ids'' := acc perm ''group_ids'' @ ids)))"
  using assms
proof (induction rows arbitrary: ids acc)
  case Nil
  then show ?case by simp
next
  case (Cons g rows)
  then obtain i ids' where ids: "ids = i # ids'" and g: "row_triple g = (''group'', i, perm)"
    and rows: "map row_triple rows = map (\<lambda>i. (''group'', i, perm)) ids'"
    by (cases ids) auto
  let ?acc = "legacy_add perm ''group_ids'' i acc"
  have acc: "?acc = acc(perm := (acc perm)(''group_ids'' := acc perm ''group_ids'' @ [i]))"
    using Cons.prems(3) ids by (simp add: legacy_add_def)
  have "legacy_loop (g # rows) b acc = legacy_loop rows b ?acc"
    using row_tripleD [OF g] Cons.prems(2) by auto
  also have "\<dots> = (b, ?acc(perm := (?acc perm)(''group_ids'' := ?acc perm ''group_ids'' @ ids')))"
    by (rule Cons.IH [OF rows Cons.prems(2)]) (use Cons.prems(3) ids acc in auto)
  finally show ?case by (simp add: acc ids fun_upd_def fun_eq_iff)
qed

lemma legacy_loop_users:
  assumes "map row_triple rows = map (\<lambda>i. (''user'', i, perm)) ids" "perm \<in> {''read'', ''write''}"
    and "distinct (acc perm ''user_ids'' @ ids)" "perm = ''read'' \<Longrightarrow> ''*'' \<notin> set ids"
  shows "legacy_loop rows b acc =
    (b, acc(perm := (acc perm)(''user_ids'' := acc perm ''user_ids'' @ ids)))"
  using assms
proof (induction rows arbitrary: ids acc)
  case Nil
  then show ?case by simp
next
  case (Cons g rows)
  then obtain i ids' where ids: "ids = i # ids'" and g: "row_triple g = (''user'', i, perm)"
    and rows: "map row_triple rows = map (\<lambda>i. (''user'', i, perm)) ids'"
    by (cases ids) auto
  let ?acc = "legacy_add perm ''user_ids'' i acc"
  have acc: "?acc = acc(perm := (acc perm)(''user_ids'' := acc perm ''user_ids'' @ [i]))"
    using Cons.prems(3) ids by (simp add: legacy_add_def)
  have "legacy_loop (g # rows) b acc = legacy_loop rows b ?acc"
    using row_tripleD [OF g] Cons.prems(2,4) ids by auto
  also have "\<dots> = (b, ?acc(perm := (?acc perm)(''user_ids'' := ?acc perm ''user_ids'' @ ids')))"
    by (rule Cons.IH [OF rows Cons.prems(2)]) (use Cons.prems(3,4) ids acc in auto)
  finally show ?case by (simp add: acc ids fun_upd_def fun_eq_iff)
qed

definition legacy_ok :: "legacy_lists \<Rightarrow> bool" where
  "legacy_ok acc =
     ((\<forall>perm \<in> {''read'', ''write''}. \<forall>kind \<in> {''group_ids'', ''user_ids''}. distinct (acc perm kind)) \<and>
      ''*'' \<notin> set (acc ''read'' ''user_ids''))"

lemma map_eq_append_split:
  "map f xs = ys @ zs \<Longrightarrow> \<exists>us vs. xs = us @ vs \<and> map f us = ys \<and> map f vs = zs"
  by (metis map_eq_append_conv)

lemma legacy_rebuild:
  assumes "legacy_ok acc" "map row_triple rows = legacy_triples acc" "rows \<noteq> []"
  shows "grants_to_access_control rows = Some (legacy_dict acc)"
proof -
  have "map row_triple rows = map (\<lambda>i. (''group'', i, ''read'')) (acc ''read'' ''group_ids'') @
      (map (\<lambda>i. (''user'', i, ''read'')) (acc ''read'' ''user_ids'') @
      (map (\<lambda>i. (''group'', i, ''write'')) (acc ''write'' ''group_ids'') @
       map (\<lambda>i. (''user'', i, ''write'')) (acc ''write'' ''user_ids'')))"
    by (simp add: assms(2) legacy_triples_def)
  from map_eq_append_split [OF this] obtain rg v1 where rg: "map row_triple rg = map (\<lambda>i. (''group'', i, ''read'')) (acc ''read'' ''group_ids'')"
    and r1: "rows = rg @ v1"
    and v1: "map row_triple v1 = map (\<lambda>i. (''user'', i, ''read'')) (acc ''read'' ''user_ids'') @
      (map (\<lambda>i. (''group'', i, ''write'')) (acc ''write'' ''group_ids'') @
       map (\<lambda>i. (''user'', i, ''write'')) (acc ''write'' ''user_ids''))"
    by blast
  from map_eq_append_split [OF v1] obtain ru v2
    where ru: "map row_triple ru = map (\<lambda>i. (''user'', i, ''read'')) (acc ''read'' ''user_ids'')"
    and r2: "v1 = ru @ v2"
    and v2: "map row_triple v2 = map (\<lambda>i. (''group'', i, ''write'')) (acc ''write'' ''group_ids'') @
       map (\<lambda>i. (''user'', i, ''write'')) (acc ''write'' ''user_ids'')"
    by blast
  from map_eq_append_split [OF v2] obtain wg wu
    where wg: "map row_triple wg = map (\<lambda>i. (''group'', i, ''write'')) (acc ''write'' ''group_ids'')"
    and r3: "v2 = wg @ wu"
    and wu: "map row_triple wu = map (\<lambda>i. (''user'', i, ''write'')) (acc ''write'' ''user_ids'')"
    by blast
  have rows: "rows = rg @ ru @ wg @ wu" by (simp add: r1 r2 r3)
  have d: "distinct (acc ''read'' ''group_ids'')" "distinct (acc ''read'' ''user_ids'')"
    "distinct (acc ''write'' ''group_ids'')" "distinct (acc ''write'' ''user_ids'')"
    "''*'' \<notin> set (acc ''read'' ''user_ids'')"
    using assms(1) by (auto simp: legacy_ok_def)
  show ?thesis
    using assms(3) d
    by (simp add: grants_to_access_control_def rows legacy_loop_append legacy_loop_groups [OF rg]
        legacy_loop_users [OF ru] legacy_loop_groups [OF wg] legacy_loop_users [OF wu] legacy_dict_def)
qed

lemma distinct_legacy_triples:
  "distinct (legacy_triples acc) \<longleftrightarrow>
     (\<forall>perm \<in> {''read'', ''write''}. \<forall>kind \<in> {''group_ids'', ''user_ids''}. distinct (acc perm kind))"
  by (auto simp: legacy_triples_def distinct_map inj_on_def)

lemma filter_on_resource_replaced:
  "(\<And>g. g \<in> set new \<Longrightarrow> on_resource rtype rid g) \<Longrightarrow>
   filter (on_resource rtype rid) (sql_delete (on_resource rtype rid) t @ new) = new"
  by (simp add: sql_delete_def filter_empty_conv)


subsection \<open>The table's constraint is an invariant\<close>

inductive grant_step :: "access_grant list \<Rightarrow> access_grant list \<Rightarrow> bool" where
  grant: "grant_step t (fst (grant_access uuid now rtype rid ptype pid perm t))"
| revoke: "grant_step t (fst (revoke_access rtype rid ptype pid perm t))"
| revoke_all: "grant_step t (fst (revoke_all_access rtype rid t))"
| set_control: "grant_step t (fst (set_access_control uuids nows rtype rid ac t))"
| set_grants: "grant_step t (fst (set_access_grants nu uuids nows rtype rid gs t))"

inductive grant_reachable :: "access_grant list \<Rightarrow> bool" where
  start: "grant_reachable []"
| more: "grant_reachable t \<Longrightarrow> grant_step t t' \<Longrightarrow> grant_reachable t'"

lemma grants_ok_delete: "grants_ok t \<Longrightarrow> grants_ok (sql_delete p t)"
  by (simp add: grants_ok_def distinct_map_sql_delete)

lemma commit_grants_ok: "grants_ok old \<Longrightarrow> grants_ok (fst (commit_grants old t x))"
  by (simp add: commit_grants_def)

lemma grant_step_ok: "grant_step t t' \<Longrightarrow> grants_ok t \<Longrightarrow> grants_ok t'"
  by (induction rule: grant_step.induct)
    (auto simp: grant_access_def revoke_access_def revoke_all_access_def set_access_control_def
      set_access_grants_def Let_def grants_ok_delete commit_grants_ok split: option.split sum.split)

lemma grant_reachable_ok: "grant_reachable t \<Longrightarrow> grants_ok t"
proof (induction rule: grant_reachable.induct)
  case start
  show ?case by (simp add: grants_ok_def)
next
  case (more t t')
  then show ?case by (blast intro: grant_step_ok)
qed

subsection \<open>Properties\<close>

text \<open>C2. Replacing the grants of a resource with a list sent by a client succeeds, and from then on a
  user has a permission on the resource exactly when a valid entry of the list gives it to everyone,
  to the user or to one of the user's groups; access to every other resource is unchanged.\<close>

theorem set_access_grants_decides_access:
  assumes "grants_ok t" "fresh_uuids uuids (length gs) (ag_id ` set t)"
    and "set_access_grants nu uuids nows rtype rid gs t = (t', res)"
  shows "(\<exists>rows. res = Inr rows) \<and>
    (has_access u rtype rid perm gi db t' \<longleftrightarrow>
       (\<exists>grant \<in> set gs. \<exists>ptype pid. grant_triple grant = Some (ptype, pid, perm) \<and>
          covers u (set (member_group_ids gi u db)) ptype pid)) \<and>
    ((rt, ri) \<noteq> (rtype, rid) \<longrightarrow> has_access v rt ri perm' gi' db t' = has_access v rt ri perm' gi' db t)"
proof -
  let ?new = "installed_grants uuids nows rtype rid (normalize_access_grants nu gs)"
  have res: "t' = sql_delete (on_resource rtype rid) t @ ?new" "res = Inr ?new"
    using set_access_grants_ok [OF assms(1,2), of nu nows rtype rid] assms(3) by auto
  have "has_access u rtype rid perm gi db t' \<longleftrightarrow>
      (\<exists>g \<in> set ?new. ag_permission g = perm \<and>
        covers u (set (member_group_ids gi u db)) (ag_principal_type g) (ag_principal_id g))"
    unfolding res(1) by (rule has_access_replaced(1)) (rule installed_on_resource)
  also have "\<dots> \<longleftrightarrow> (\<exists>(ptype, pid, p) \<in> ng_key ` set (normalize_access_grants nu gs).
      p = perm \<and> covers u (set (member_group_ids gi u db)) ptype pid)"
    by (rule covers_installed)
  also have "\<dots> \<longleftrightarrow> (\<exists>(ptype, pid, p) \<in> {k. \<exists>g \<in> set gs. grant_triple g = Some k}.
         p = perm \<and> covers u (set (member_group_ids gi u db)) ptype pid)"
    by (simp only: normalize_keys)
  finally have "has_access u rtype rid perm gi db t' \<longleftrightarrow>
      (\<exists>(ptype, pid, p) \<in> {k. \<exists>g \<in> set gs. grant_triple g = Some k}.
         p = perm \<and> covers u (set (member_group_ids gi u db)) ptype pid)" .
  moreover have "(rt, ri) \<noteq> (rtype, rid) \<Longrightarrow> has_access v rt ri perm' gi' db t' = has_access v rt ri perm' gi' db t"
    unfolding res(1) by (rule has_access_replaced(2) [OF installed_on_resource])
  ultimately show ?thesis using res(2) by blast
qed

definition sample_grants :: "access_grant list" where
  "sample_grants =
     [new_grant ''a1'' ''note'' ''n1'' ''user'' ''u2'' ''write'' 5,
      new_grant ''a2'' ''note'' ''n2'' ''group'' ''g2'' ''read'' 6]"

definition sample_payload :: "pyval list" where
  "sample_payload =
     [PDict [(''principal_type'', PStr ''group''), (''principal_id'', PStr ''g2''), (''permission'', PStr ''read'')],
      PStr ''junk'',
      PDict [(''principal_type'', PStr ''anyone''), (''principal_id'', PStr ''*''), (''permission'', PStr ''write'')]]"

theorem set_access_grants_decides_access_witness:
  "has_access ''u1'' ''note'' ''n1'' ''read'' None sample_group_db
     (fst (set_access_grants (\<lambda>_. []) (\<lambda>i. ''n'' @ replicate i CHR ''x'') (\<lambda>_. 9) ''note'' ''n1'' sample_payload sample_grants)) \<and>
   \<not> has_access ''u2'' ''note'' ''n1'' ''write'' None sample_group_db
     (fst (set_access_grants (\<lambda>_. []) (\<lambda>i. ''n'' @ replicate i CHR ''x'') (\<lambda>_. 9) ''note'' ''n1'' sample_payload sample_grants))"
proof -
  let ?uuids = "\<lambda>i. ''n'' @ replicate i CHR ''x''"
  let ?r = "set_access_grants (\<lambda>_. []) ?uuids (\<lambda>_. 9) ''note'' ''n1'' sample_payload sample_grants"
  have ok: "grants_ok sample_grants"
    by (simp add: grants_ok_def sample_grants_def)
  have fresh: "fresh_uuids ?uuids (length sample_payload) (ag_id ` set sample_grants)"
    by (auto simp: fresh_uuids_def inj_on_def sample_grants_def)
  have r: "?r = (fst ?r, snd ?r)" by simp
  have gids: "set (member_group_ids None ''u1'' sample_group_db) = {''g2''}"
    "set (member_group_ids None ''u2'' sample_group_db) = {}"
    by (force simp: member_group_ids_def set_get_groups_by_member_id is_member_def sample_group_db_def
        named_group_def new_member_def)
      (auto simp: member_group_ids_def set_get_groups_by_member_id is_member_def sample_group_db_def
        named_group_def new_member_def)
  have triples: "{k. \<exists>g \<in> set sample_payload. grant_triple g = Some k} = {(''group'', ''g2'', ''read'')}"
    by (auto simp: sample_payload_def grant_triple_def normalize_grant_def ng_key_def)
  have u1: "(\<exists>grant \<in> set sample_payload. \<exists>ptype pid. grant_triple grant = Some (ptype, pid, ''read'') \<and>
      covers ''u1'' {''g2''} ptype pid)"
  proof -
    have "(''group'', ''g2'', ''read'') \<in> {k. \<exists>g \<in> set sample_payload. grant_triple g = Some k}"
      by (simp only: triples insertI1)
    then obtain g where "g \<in> set sample_payload" "grant_triple g = Some (''group'', ''g2'', ''read'')" by blast
    moreover have "covers ''u1'' {''g2''} ''group'' ''g2''" by (simp add: covers_def)
    ultimately show ?thesis by blast
  qed
  have u2: "\<not> (\<exists>grant \<in> set sample_payload. \<exists>ptype pid. grant_triple grant = Some (ptype, pid, ''write'') \<and>
      covers ''u2'' {} ptype pid)"
  proof -
    have "(ptype, pid, ''write'') \<notin> {k. \<exists>g \<in> set sample_payload. grant_triple g = Some k}" for ptype pid
      unfolding triples by simp
    then show ?thesis by blast
  qed
  note decides = set_access_grants_decides_access [OF ok fresh r, THEN conjunct2, THEN conjunct1]
  have d1: "has_access ''u1'' ''note'' ''n1'' ''read'' None sample_group_db (fst ?r) \<longleftrightarrow>
      (\<exists>grant \<in> set sample_payload. \<exists>ptype pid. grant_triple grant = Some (ptype, pid, ''read'') \<and>
        covers ''u1'' (set (member_group_ids None ''u1'' sample_group_db)) ptype pid)"
    by (rule decides)
  have d2: "has_access ''u2'' ''note'' ''n1'' ''write'' None sample_group_db (fst ?r) \<longleftrightarrow>
      (\<exists>grant \<in> set sample_payload. \<exists>ptype pid. grant_triple grant = Some (ptype, pid, ''write'') \<and>
        covers ''u2'' (set (member_group_ids None ''u2'' sample_group_db)) ptype pid)"
    by (rule decides)
  from d1 d2 u1 u2 show ?thesis unfolding gids by blast
qed

text \<open>No sequence of operations on the grant table stores two rows with the same identifier or two
  grants of the same permission on the same resource to the same principal.\<close>

lemma grant_table_constraints:
  "grant_reachable t \<Longrightarrow> distinct (map ag_id t) \<and> distinct (map grant_key t)"
  using grant_reachable_ok by (simp add: grants_ok_def)

theorem grant_table_constraints_witness:
  "distinct (map grant_key (fst (grant_access ''a'' 1 ''note'' ''n'' ''user'' ''u'' ''read'' [])))"
  using grant_table_constraints [OF grant_reachable.more [OF grant_reachable.start
      grant_step.grant [of "[]" "''a''" 1 "''note''" "''n''" "''user''" "''u''" "''read''"]]] by simp

text \<open>The batch query returns exactly the requested resources on which the single check succeeds.\<close>

lemma accessible_ids_agree_with_has_access:
  "rid \<in> set (get_accessible_resource_ids u rtype rids perm gi db t) \<longleftrightarrow>
     rid \<in> set rids \<and> has_access u rtype rid perm gi db t"
  by (simp add: set_accessible)

text \<open>For a filter that names a user, the SQL filter on documents keeps exactly the documents the
  user owns or has the permission on; the read-only filter keeps exactly those the user does not own
  and may read but not write.\<close>

lemma permission_filter_agrees:
  assumes "af_user_id flt = Some u" "u \<noteq> []" "perm \<noteq> ''read_only''"
  shows "has_permission_filter flt rtype perm t docs =
      filter (\<lambda>doc. doc_user_id doc = u \<or> has_access u rtype (doc_id doc) perm (Some (af_group_ids flt)) db t) docs \<and>
    has_permission_filter flt rtype ''read_only'' t docs =
      filter (\<lambda>doc. doc_user_id doc \<noteq> u \<and> has_access u rtype (doc_id doc) ''read'' (Some (af_group_ids flt)) db t \<and>
                    \<not> has_access u rtype (doc_id doc) ''write'' (Some (af_group_ids flt)) db t) docs"
proof -
  have given: "af_user_given flt" using assms by (simp add: af_user_given_def)
  have [simp]: "grant_exists rtype p flt t doc = has_access u rtype (doc_id doc) p (Some (af_group_ids flt)) db t" for p doc
    by (rule grant_exists_covers [OF assms(1,2)])
  show ?thesis
    using assms given
    by (auto simp: has_permission_filter_def read_only_permission_filter_def intro!: filter_cong)
qed

theorem permission_filter_agrees_witness:
  "has_permission_filter \<lparr>af_group_ids = [''g2''], af_user_id = Some ''u1''\<rparr> ''note'' ''read_only'' sample_grants
     [\<lparr>doc_id = ''n1'', doc_user_id = ''u3''\<rparr>, \<lparr>doc_id = ''n2'', doc_user_id = ''u3''\<rparr>] =
   [\<lparr>doc_id = ''n2'', doc_user_id = ''u3''\<rparr>]"
proof -
  let ?flt = "\<lparr>af_group_ids = [''g2''], af_user_id = Some ''u1''\<rparr>"
  have h: "af_user_id ?flt = Some ''u1''" "''u1'' \<noteq> []" "''read'' \<noteq> ''read_only''" by simp_all
  show ?thesis
    using permission_filter_agrees [OF h, of "''note''" sample_grants
        "[\<lparr>doc_id = ''n1'', doc_user_id = ''u3''\<rparr>, \<lparr>doc_id = ''n2'', doc_user_id = ''u3''\<rparr>]" sample_group_db]
    by (simp add: has_access_iff covers_def on_resource_def sample_grants_def member_group_ids_def)
qed


definition sample_legacy :: legacy_lists where
  "sample_legacy = (\<lambda>perm kind. if kind = ''user_ids'' then (if perm = ''read'' then [''u1'', ''u2''] else [''u1''])
     else if perm = ''read'' then [''g1''] else [])"


text \<open>A legacy dictionary that repeats an identifier is not stored: the unique constraint makes the
  commit fail and the table keeps the grants it had, whereas the direct list form drops repetitions.\<close>

lemma legacy_duplicates_rejected:
  assumes "perm \<in> {''read'', ''write''}" "kind \<in> {''group_ids'', ''user_ids''}" "\<not> distinct (acc perm kind)"
  shows "set_access_control uuids nows rtype rid (Some (legacy_dict acc)) t = (t, Inl IntegrityError)"
proof -
  let ?new = "triple_rows uuids nows rtype rid 0 (legacy_triples acc)"
  have "\<not> distinct (legacy_triples acc)" using assms distinct_legacy_triples by blast
  then have "\<not> distinct (map grant_key ?new)"
    unfolding triple_rows_keys by (auto simp: distinct_map inj_on_def)
  then have "\<not> grants_ok (sql_delete (on_resource rtype rid) t @ ?new)" by (simp add: grants_ok_def)
  then show ?thesis by (simp add: set_access_control_legacy commit_grants_def)
qed

theorem legacy_duplicates_rejected_witness:
  "set_access_control (\<lambda>_. ''x'') (\<lambda>_. 0) ''note'' ''n1'' (Some (legacy_dict (\<lambda>_ _. [''g'', ''g'']))) sample_grants =
     (sample_grants, Inl IntegrityError)"
  by (rule legacy_duplicates_rejected [of "''read''" "''group_ids''"]) simp_all

text \<open>Where foreign keys are enforced and the resource is not public, the users reported to have a
  permission are exactly the registered users on whom the single check succeeds.\<close>

lemma users_with_access_agree:
  assumes "group_db_ok db" "db_fk db"
    and "\<not> (\<exists>g \<in> set t. on_resource rtype rid g \<and> ag_permission g = perm \<and>
             ag_principal_type g = ''user'' \<and> ag_principal_id g = ''*'')"
  shows "set (get_users_with_access rtype rid perm db t) =
    {u \<in> set (db_users db). has_access (u_id u) rtype rid perm None db t}"
proof -
  have member: "is_member db gid uid \<longleftrightarrow> gid \<in> g_id ` set (get_groups_by_member_id uid db)" for gid uid
    using fk_member_group [OF assms(1,2), of gid uid] by (auto simp: set_get_groups_by_member_id)
  have acc: "has_access uid rtype rid perm None db t \<longleftrightarrow>
      (\<exists>g \<in> set t. on_resource rtype rid g \<and> ag_permission g = perm \<and>
         (ag_principal_type g = ''user'' \<and> ag_principal_id g = uid \<or>
          ag_principal_type g = ''group'' \<and> is_member db (ag_principal_id g) uid))" for uid
    using assms(3) by (auto simp: has_access_iff covers_def member_group_ids_def member)
  define ids where "ids = concat (map (\<lambda>g.
                     if ag_principal_type g = ''user'' then [ag_principal_id g]
                     else if ag_principal_type g = ''group'' then get_group_user_ids_by_id (ag_principal_id g) db
                     else []) (filter (\<lambda>g. on_resource rtype rid g \<and> ag_permission g = perm) t))"
  have ids: "uid \<in> set ids \<longleftrightarrow> has_access uid rtype rid perm None db t" for uid
    unfolding acc ids_def by (auto simp: set_get_group_user_ids split: if_splits)
  have "\<not> list_ex (\<lambda>g. ag_principal_type g = ''user'' \<and> ag_principal_id g = ''*'')
      (filter (\<lambda>g. on_resource rtype rid g \<and> ag_permission g = perm) t)"
    using assms(3) by (auto simp: list_ex_iff)
  then have "get_users_with_access rtype rid perm db t =
      (if ids = [] then [] else get_users_by_user_ids ids (db_users db))"
    by (simp add: get_users_with_access_def Let_def ids_def)
  then show ?thesis by (auto simp: get_users_by_user_ids_def ids [symmetric])
qed

theorem users_with_access_agree_witness:
  "set (get_users_with_access ''note'' ''n2'' ''read'' sample_group_db sample_grants) =
    {u \<in> set (db_users sample_group_db). has_access (u_id u) ''note'' ''n2'' ''read'' None sample_group_db sample_grants} \<and>
   map u_id (get_users_with_access ''note'' ''n2'' ''read'' sample_group_db sample_grants) = [''u1'']"
proof
  show "set (get_users_with_access ''note'' ''n2'' ''read'' sample_group_db sample_grants) =
    {u \<in> set (db_users sample_group_db). has_access (u_id u) ''note'' ''n2'' ''read'' None sample_group_db sample_grants}"
    by (rule users_with_access_agree [OF sample_group_db_ok])
      (auto simp: sample_group_db_def sample_grants_def)
  show "map u_id (get_users_with_access ''note'' ''n2'' ''read'' sample_group_db sample_grants) = [''u1'']"
    by (simp add: get_users_with_access_def get_users_by_user_ids_def get_group_user_ids_by_id_def on_resource_def
        sample_group_db_def sample_grants_def new_member_def Let_def)
qed

end
