(* ===== verification/Access_Control.thy ===== *)
theory Access_Control
  imports Access_Grants Parent_Chain
begin

section \<open>Permissions and access checks\<close>

text \<open>
  Models \<open>utils/access_control/__init__.py\<close>: the permissions of a user (the union of the
  permissions of the user's groups over the defaults), the check of one permission key, the checks
  on grant lists kept in configuration, the filter on the grants a user may hand out, the migration
  of the legacy configuration form, and the walk over the base models of a model.

  Permission trees are dictionaries (\<^typ>\<open>pydict\<close>) whose leaves may be any value. Subscripting or
  searching a value that is no container raises, as in Python. \<open>DEFAULT_USER_PERMISSIONS\<close>, which
  \<open>config.py\<close> reads from the environment, is an argument.
\<close>

subsection \<open>Permission trees\<close>

fun fill_missing_permissions :: "pydict \<Rightarrow> pydict \<Rightarrow> pydict" where
  "fill_missing_permissions permissions [] = permissions"
| "fill_missing_permissions permissions ((key, value) # defaults) =
     fill_missing_permissions
       (if \<not> dhas permissions key then dset key value permissions
        else (case (value, dget permissions key) of
                (PDict dv, PDict pv) \<Rightarrow> dset key (PDict (fill_missing_permissions pv dv)) permissions
              | _ \<Rightarrow> permissions))
       defaults"

fun combine_permissions :: "pyval \<Rightarrow> pydict \<Rightarrow> pyval result" where
  "combine_permissions permissions [] = Inr permissions"
| "combine_permissions permissions ((key, value) # rest) =
     (case permissions of
        PDict d \<Rightarrow>
          (case value of
             PDict dv \<Rightarrow>
               rbind (combine_permissions (dget_or d key (PDict [])) dv)
                 (\<lambda>p. combine_permissions (PDict (dset key p d)) rest)
           | _ \<Rightarrow>
               combine_permissions
                 (PDict (dset key (if dhas d key then py_or (dget d key) value else value) d)) rest)
      | _ \<Rightarrow> Inl TypeError)"

definition group_permissions :: "group_row \<Rightarrow> pydict" where
  "group_permissions g = (case g_permissions g of None \<Rightarrow> [] | Some d \<Rightarrow> d)"

definition get_permissions :: "string \<Rightarrow> pydict \<Rightarrow> group_db \<Rightarrow> pydict result" where
  "get_permissions user_id default_permissions db =
     rbind (rfold (\<lambda>g p. combine_permissions p (group_permissions g))
              (get_groups_by_member_id user_id db) (PDict default_permissions))
       (\<lambda>p. case p of PDict d \<Rightarrow> Inr (fill_missing_permissions d default_permissions)
                    | _ \<Rightarrow> Inl TypeError)"

fun get_permission :: "pyval \<Rightarrow> string list \<Rightarrow> bool result" where
  "get_permission permissions [] = Inr (truthy permissions)"
| "get_permission permissions (key # keys) =
     rbind (py_in key permissions) (\<lambda>found.
       if \<not> found then Inr False
       else rbind (py_item permissions key) (\<lambda>p. get_permission p keys))"

fun any_group_permits :: "group_row list \<Rightarrow> string list \<Rightarrow> bool result" where
  "any_group_permits [] keys = Inr False"
| "any_group_permits (g # gs) keys =
     rbind (get_permission (PDict (group_permissions g)) keys)
       (\<lambda>b. if b then Inr True else any_group_permits gs keys)"

definition has_permission :: "pydict \<Rightarrow> string \<Rightarrow> string \<Rightarrow> pydict \<Rightarrow> group_db \<Rightarrow> bool result" where
  "has_permission default_user_permissions user_id permission_key default_permissions db =
     (let keys = str_split CHR ''.'' permission_key
      in rbind (any_group_permits (get_groups_by_member_id user_id db) keys)
           (\<lambda>b. if b then Inr True
                else get_permission
                       (PDict (fill_missing_permissions default_permissions default_user_permissions)) keys))"

subsection \<open>Grant lists in configuration\<close>

fun list_grants :: "string \<Rightarrow> string \<Rightarrow> string list \<Rightarrow> pyval list \<Rightarrow> bool result" where
  "list_grants user_id permission gids [] = Inr False"
| "list_grants user_id permission gids (grant # grants) =
     (case grant of
        PDict d \<Rightarrow>
          (let ptype = dget d ''principal_type''; pid = dget d ''principal_id''
           in if dget d ''permission'' \<noteq> PStr permission then list_grants user_id permission gids grants
              else if ptype = PStr ''user'' \<and> (pid = PStr ''*'' \<or> pid = PStr user_id) then Inr True
              else if ptype = PStr ''group'' \<and> gids \<noteq> [] then
                (if \<not> hashable pid then Inl TypeError
                 else if pid \<in> set (map PStr gids) then Inr True
                 else list_grants user_id permission gids grants)
              else list_grants user_id permission gids grants)
      | _ \<Rightarrow> list_grants user_id permission gids grants)"

definition has_access_list ::
    "string \<Rightarrow> string \<Rightarrow> pyval \<Rightarrow> string list option \<Rightarrow> group_db \<Rightarrow> bool result"
where
  "has_access_list user_id permission access_grants user_group_ids db =
     (if \<not> truthy access_grants then Inr False
      else rbind (py_iter access_grants)
             (list_grants user_id permission (member_group_ids user_group_ids user_id db)))"

definition has_connection_access ::
    "bool \<Rightarrow> user_row \<Rightarrow> pydict \<Rightarrow> string list option \<Rightarrow> group_db \<Rightarrow> bool result"
where
  "has_connection_access bypass_admin user connection user_group_ids db =
     (if u_role user = ''admin'' \<and> bypass_admin then Inr True
      else rbind (py_get (py_or (dget connection ''config'') (PDict [])) ''access_grants'' (PList []))
        (\<lambda>access_grants.
           if \<not> truthy access_grants then Inr (u_role user = ''admin'')
           else has_access_list (u_id user) ''read'' access_grants
                  (Some (member_group_ids user_group_ids (u_id user) db)) db))"

definition config_grant :: "string \<Rightarrow> pyval \<Rightarrow> string \<Rightarrow> pydict" where
  "config_grant ptype pid perm =
     [(''principal_type'', PStr ptype), (''principal_id'', pid), (''permission'', PStr perm)]"

definition migrate_access_control :: "string \<Rightarrow> string \<Rightarrow> pydict \<Rightarrow> pydict result" where
  "migrate_access_control ac_key grants_key data =
     (if dhas data grants_key then Inr data
      else if dget data ac_key = PNone \<and> \<not> dhas data ac_key then Inr data
      else rbind (case dget data ac_key of
                    PDict ac \<Rightarrow>
                      if ac = [] then Inr []
                      else rbind (permission_grants config_grant ac ''read'') (\<lambda>rs.
                           rbind (permission_grants config_grant ac ''write'') (\<lambda>ws. Inr (rs @ ws)))
                  | _ \<Rightarrow> Inr [])
             (\<lambda>grants. Inr (dpop ac_key (dset grants_key (PList (map PDict grants)) data))))"

definition strip_unless :: "bool \<Rightarrow> bool result \<Rightarrow> (pyval list \<Rightarrow> pyval list) \<Rightarrow> pyval list \<Rightarrow> pyval list result" where
  "strip_unless found permitted strip gs =
     (if found then rbind permitted (\<lambda>b. Inr (if b then gs else strip gs)) else Inr gs)"

definition filter_allowed_access_grants ::
    "pydict \<Rightarrow> pydict \<Rightarrow> string \<Rightarrow> string \<Rightarrow> pyval list \<Rightarrow> string \<Rightarrow> string option \<Rightarrow> group_db \<Rightarrow> pyval list result"
where
  "filter_allowed_access_grants default_user_permissions default_permissions user_id user_role access_grants
      public_permission_key anyone_permission_key db =
     (let permitted = (\<lambda>key. has_permission default_user_permissions user_id key default_permissions db);
          allow_anyone =
            (case anyone_permission_key of
               None \<Rightarrow> Inr False
             | Some key \<Rightarrow> if key = [] then Inr False
                         else if user_role \<noteq> ''admin'' then permitted key
                         else Inr True)
      in if access_grants = [] then Inr access_grants
         else rbind (strip_unless (has_anyone_read_access_grant access_grants) allow_anyone
                       strip_anyone_access_grants access_grants) (\<lambda>gs1.
           if user_role = ''admin'' then Inr gs1
           else rbind (strip_unless (has_public_read_access_grant gs1 \<or> has_public_write_access_grant gs1)
                         (permitted public_permission_key)
                         (filter (\<lambda>g. \<not> (grant_field g ''principal_type'' = PStr ''user'' \<and>
                                          grant_field g ''principal_id'' = PStr ''*''))) gs1) (\<lambda>gs2.
                rbind (strip_unless (has_user_access_grant gs2) (permitted ''access_grants.allow_users'')
                         strip_user_access_grants gs2) (\<lambda>gs3.
                strip_unless (list_ex (\<lambda>g. grant_field g ''principal_type'' = PStr ''group'') gs3)
                  (permitted ''access_grants.allow_groups'')
                  (filter (\<lambda>g. grant_field g ''principal_type'' \<noteq> PStr ''group'')) gs3))))"

subsection \<open>Base models\<close>

record model_row =
  m_id :: string
  m_user_id :: string
  m_base_model_id :: "string option"

definition get_model_by_id :: "string \<Rightarrow> model_row list \<Rightarrow> model_row option" where
  "get_model_by_id mid models = find (\<lambda>m. m_id m = mid) models"

definition next_base :: "model_row \<Rightarrow> string option" where
  "next_base m = (case m_base_model_id m of None \<Rightarrow> None | Some b \<Rightarrow> if b = [] then None else Some b)"

definition model_readable ::
    "string \<Rightarrow> string list option \<Rightarrow> group_db \<Rightarrow> access_grant list \<Rightarrow> model_row \<Rightarrow> bool"
where
  "model_readable user_id user_group_ids db t m =
     (user_id = m_user_id m \<or> has_access user_id ''model'' (m_id m) ''read'' user_group_ids db t)"

function base_model_walk ::
    "string option \<Rightarrow> (model_row \<Rightarrow> bool) \<Rightarrow> model_row list \<Rightarrow> string set \<Rightarrow> string \<Rightarrow> bool"
where
  "base_model_walk user_role readable models seen base_model_id =
     (if base_model_id \<in> seen then True
      else (case get_model_by_id base_model_id models of
              None \<Rightarrow> user_role = Some ''admin''
            | Some base_model_info \<Rightarrow>
                if \<not> readable base_model_info then False
                else (case next_base base_model_info of
                        None \<Rightarrow> True
                      | Some b \<Rightarrow> base_model_walk user_role readable models (insert base_model_id seen) b)))"
  by pat_completeness auto
termination
proof (relation "measure (\<lambda>(r, p, models, seen, k). card (set (map m_id models) - seen))", goal_cases)
  case (2 user_role readable models seen k info b)
  then have "k \<in> set (map m_id models)" by (auto simp: get_model_by_id_def dest: find_SomeD)
  from card_insert_seen [OF this 2(1)] show ?case by simp
qed simp

declare base_model_walk.simps [simp del]

definition has_base_model_access ::
    "string \<Rightarrow> model_row \<Rightarrow> string option \<Rightarrow> string list option \<Rightarrow> group_db \<Rightarrow> access_grant list \<Rightarrow> model_row list \<Rightarrow> bool"
where
  "has_base_model_access user_id model_info user_role user_group_ids db t models =
     (case next_base model_info of
        None \<Rightarrow> True
      | Some b \<Rightarrow> base_model_walk user_role (model_readable user_id user_group_ids db t) models {m_id model_info} b)"

definition check_model_access ::
    "user_row \<Rightarrow> model_row option \<Rightarrow> bool \<Rightarrow> group_db \<Rightarrow> access_grant list \<Rightarrow> model_row list \<Rightarrow> unit result"
where
  "check_model_access user model_info bypass_filter db t models =
     (if bypass_filter then Inr ()
      else (case model_info of
              Some m \<Rightarrow>
                if u_role user \<noteq> ''admin'' then
                  (let gids = Some (member_group_ids None (u_id user) db)
                   in if \<not> model_readable (u_id user) gids db t m then Inl (HTTPException 403 ''Model not found'')
                      else if \<not> has_base_model_access (u_id user) m (Some (u_role user)) gids db t models
                      then Inl (HTTPException 403 ''Model not found'')
                      else Inr ())
                else Inr ()
            | None \<Rightarrow> if u_role user \<noteq> ''admin'' then Inl (HTTPException 403 ''Model not found'') else Inr ()))"


subsection \<open>Permission trees as sets of granted keys\<close>

text \<open>
  A key path is granted when the traversal ends in a true value. Python dictionaries have distinct
  keys; \<open>tree_ok\<close> says so at every level. \<open>conforms\<close> says that a tree has dictionaries where a
  schema has them, and leaves elsewhere: the shape the permission editor saves.
\<close>

definition granted :: "pyval \<Rightarrow> string list \<Rightarrow> bool" where
  "granted p keys = (get_permission p keys = Inr True)"

fun tree_ok :: "pydict \<Rightarrow> bool" where
  "tree_ok [] = True"
| "tree_ok ((k, v) # d) = (\<not> dhas d k \<and> (case v of PDict dv \<Rightarrow> tree_ok dv | _ \<Rightarrow> True) \<and> tree_ok d)"

fun conforms :: "pydict \<Rightarrow> pydict \<Rightarrow> bool" where
  "conforms schema [] = True"
| "conforms schema ((k, v) # d) =
     ((case (dget schema k, v) of
         (PDict s, PDict dv) \<Rightarrow> conforms s dv
       | (PDict s, _) \<Rightarrow> False
       | (_, PDict dv) \<Rightarrow> False
       | _ \<Rightarrow> True) \<and> conforms schema d)"

fun filled :: "pydict \<Rightarrow> pydict \<Rightarrow> bool" where
  "filled p [] = True"
| "filled p ((k, v) # d) =
     (dhas p k \<and> (case (v, dget p k) of (PDict dv, PDict pv) \<Rightarrow> filled pv dv | _ \<Rightarrow> True) \<and> filled p d)"

lemma tree_ok_lookup: "tree_ok d \<Longrightarrow> (k, v) \<in> set d \<Longrightarrow> map_of d k = Some v"
proof (induction d rule: tree_ok.induct)
  case (2 k' v' d)
  then show ?case by (auto simp: dhas_iff image_iff)
qed simp

lemma granted_Nil [simp]: "granted p [] = truthy p"
  by (simp add: granted_def)

lemma granted_Cons:
  "granted p (k # ks) \<longleftrightarrow> (\<exists>d. p = PDict d \<and> dhas d k \<and> granted (dget d k) ks)"
  by (cases p) (auto simp: granted_def dict_item_def dhas_def dget_def rbind_Inr_iff split: option.splits if_splits)

lemma granted_leaf [simp]: "\<not> is_dict p \<Longrightarrow> \<not> granted p (k # ks)"
  by (cases p) (auto simp: granted_Cons)

lemma granted_PDict_Cons [simp]: "granted (PDict d) (k # ks) \<longleftrightarrow> dhas d k \<and> granted (dget d k) ks"
  by (simp add: granted_Cons)

lemma granted_empty [simp]: "\<not> granted (PDict []) ks"
  by (cases ks) auto

lemma granted_py_or:
  assumes "\<not> is_dict v"
  shows "granted (py_or w v) ks \<longleftrightarrow> granted w ks \<or> granted v ks"
proof (cases ks)
  case Nil
  then show ?thesis by (simp add: py_or_def)
next
  case (Cons k ks')
  have "\<not> granted w ks" if "\<not> truthy w"
    using that Cons by (cases w) auto
  then show ?thesis using assms Cons by (auto simp: py_or_def)
qed

lemma combine_induct [consumes 1, case_names Nil Dict Leaf]:
  assumes "combine_permissions p e = Inr p'"
    and Nil: "\<And>p. P p [] p"
    and Dict: "\<And>d key dv rest v p'. combine_permissions (dget_or d key (PDict [])) dv = Inr v \<Longrightarrow>
      P (dget_or d key (PDict [])) dv v \<Longrightarrow> P (PDict (dset key v d)) rest p' \<Longrightarrow>
      P (PDict d) ((key, PDict dv) # rest) p'"
    and Leaf: "\<And>d key val rest p'. \<not> is_dict val \<Longrightarrow>
      P (PDict (dset key (if dhas d key then py_or (dget d key) val else val) d)) rest p' \<Longrightarrow>
      P (PDict d) ((key, val) # rest) p'"
  shows "P p e p'"
  using assms(1)
proof (induction p e arbitrary: p' rule: combine_permissions.induct)
  case (1 p)
  then show ?case by (simp add: Nil)
next
  case (2 permissions key val rest)
  from "2.prems" obtain d where p: "permissions = PDict d" by (cases permissions) auto
  show ?case
  proof (cases "is_dict val")
    case True
    then obtain dv where val: "val = PDict dv" by (cases val) auto
    with "2.prems" p obtain v where v: "combine_permissions (dget_or d key (PDict [])) dv = Inr v"
      "combine_permissions (PDict (dset key v d)) rest = Inr p'" by (auto simp: rbind_Inr_iff)
    have "P (dget_or d key (PDict [])) dv v" "P (PDict (dset key v d)) rest p'"
      using "2.IH" p val v by auto
    with v(1) show ?thesis unfolding p val by (rule Dict)
  next
    case False
    with "2.prems" p have
      "combine_permissions (PDict (dset key (if dhas d key then py_or (dget d key) val else val) d)) rest = Inr p'"
      by (cases val) auto
    with "2.IH" p False have
      "P (PDict (dset key (if dhas d key then py_or (dget d key) val else val) d)) rest p'"
      by (cases val) auto
    with False show ?thesis unfolding p by (rule Leaf)
  qed
qed

lemma combine_grants:
  "combine_permissions p e = Inr p' \<Longrightarrow> tree_ok e \<Longrightarrow> granted p' ks \<longleftrightarrow> granted p ks \<or> granted (PDict e) ks"
proof (induction arbitrary: ks rule: combine_induct)
  case (Nil p)
  then show ?case by simp
next
  case (Dict d key dv rest v p')
  have v: "granted v ks' \<longleftrightarrow> (dhas d key \<and> granted (dget d key) ks') \<or> granted (PDict dv) ks'" for ks'
    using Dict by (cases "map_of d key") (auto simp: dget_or_def dget_def dhas_def)
  have "granted p' ks \<longleftrightarrow> granted (PDict (dset key v d)) ks \<or> granted (PDict rest) ks"
    using Dict by simp
  then show ?case using Dict.prems v by (cases ks) auto
next
  case (Leaf d key val rest p')
  have "granted p' ks \<longleftrightarrow>
      granted (PDict (dset key (if dhas d key then py_or (dget d key) val else val) d)) ks \<or>
      granted (PDict rest) ks"
    using Leaf by simp
  then show ?case using Leaf by (cases ks) (auto simp: granted_py_or)
qed

lemma filled_dset:
  assumes "filled d s" "dhas d key \<Longrightarrow> \<not> is_dict (dget d key) \<Longrightarrow> \<not> is_dict v"
    and "\<And>pv dv. dhas d key \<Longrightarrow> v = PDict pv \<Longrightarrow>
      (case dget d key of PDict old \<Rightarrow> filled old dv | _ \<Rightarrow> True) \<Longrightarrow> filled pv dv"
  shows "filled (dset key v d) s"
  using assms(1)
proof (induction s)
  case (Cons e s)
  obtain k w where e: "e = (k, w)" by (cases e)
  show ?case
    using Cons assms(2) assms(3) [of _ "case w of PDict dv \<Rightarrow> dv | _ \<Rightarrow> []"] e
    by (cases w; cases v; cases "dget d key") auto
qed simp

lemma combine_filled:
  assumes "combine_permissions p e = Inr p'" "p = PDict d" "filled d s"
  shows "\<exists>d'. p' = PDict d' \<and> filled d' s"
  using assms
proof (induction arbitrary: d s rule: combine_induct)
  case (Nil p)
  then show ?case by simp
next
  case (Dict d0 key dv rest v p')
  have "filled (dset key v d0) s"
  proof (rule filled_dset)
    show "filled d0 s" using Dict.prems by simp
  next
    assume "dhas d0 key" "\<not> is_dict (dget d0 key)"
    then show "\<not> is_dict v" using Dict.hyps(1)
      by (cases dv; cases "dget d0 key") (auto simp: dget_or_def dget_def dhas_def split: pyval.splits)
  next
    fix pv dv'
    assume "dhas d0 key" "v = PDict pv"
      and old: "case dget d0 key of PDict old \<Rightarrow> filled old dv' | _ \<Rightarrow> True"
    then show "filled pv dv'"
      using Dict.IH(1) Dict.hyps(1)
      by (cases dv; cases "dget d0 key") (auto simp: dget_or_def dget_def dhas_def split: pyval.splits)
  qed
  then show ?case using Dict.IH(2) by blast
next
  case (Leaf d0 key val rest p')
  have "filled (dset key (if dhas d0 key then py_or (dget d0 key) val else val) d0) s"
    by (rule filled_dset) (use Leaf in \<open>auto simp: py_or_def split: if_splits\<close>)
  then show ?case using Leaf.IH by blast
qed

lemma filled_sub: "tree_ok s \<Longrightarrow> \<forall>(k, v) \<in> set s. map_of p k = Some v \<Longrightarrow> filled p s"
proof (induction p s rule: filled.induct)
  case (2 p k v s)
  then have p: "dhas p k" "dget p k = v" by (auto simp: dhas_def dget_def)
  have "filled dv dv" if v: "v = PDict dv" for dv
  proof -
    have "tree_ok dv" using "2.prems" v by simp
    moreover from this have "\<forall>(k, v) \<in> set dv. map_of dv k = Some v" by (auto simp: tree_ok_lookup)
    ultimately show ?thesis using "2.IH" v p(2) by simp
  qed
  then show ?case using 2 p by (cases v) auto
qed simp

lemma filled_refl: "tree_ok d \<Longrightarrow> filled d d"
  by (rule filled_sub) (auto simp: tree_ok_lookup)

lemma fill_filled: "filled p d \<Longrightarrow> fill_missing_permissions p d = p"
proof (induction p d rule: fill_missing_permissions.induct)
  case (2 p key val d)
  then show ?case
    by (cases val; cases "dget p key")
      (auto simp: dget_def dhas_def update_triv split: option.splits)
qed simp

lemma fill_grants: "granted (PDict p) ks \<Longrightarrow> granted (PDict (fill_missing_permissions p d)) ks"
proof (induction p d arbitrary: ks rule: fill_missing_permissions.induct)
  case (2 p key val d)
  let ?p = "if \<not> dhas p key then dset key val p
    else (case val of
            PDict dv \<Rightarrow> (case dget p key of
              PDict pv \<Rightarrow> dset key (PDict (fill_missing_permissions pv dv)) p | _ \<Rightarrow> p)
          | _ \<Rightarrow> p)"
  have "granted (PDict ?p) ks"
  proof (cases ks)
    case Nil
    then show ?thesis using "2.prems" by (auto split: pyval.split)
  next
    case (Cons k ks')
    then show ?thesis using "2.prems" "2.IH"(1) by (auto split: pyval.split)
  qed
  from "2.IH"(2) [OF this] show ?case by (simp only: fill_missing_permissions.simps prod.case)
qed simp

lemma get_permissions_grants:
  assumes "get_permissions user_id defaults db = Inr p" "tree_ok defaults"
    and "\<And>g. g \<in> set (db_groups db) \<Longrightarrow> tree_ok (group_permissions g)"
  shows "granted (PDict p) ks \<longleftrightarrow> granted (PDict defaults) ks \<or>
    (\<exists>g \<in> set (get_groups_by_member_id user_id db). granted (PDict (group_permissions g)) ks)"
proof -
  have fold: "\<exists>d'. q' = PDict d' \<and> filled d' defaults \<and>
      (granted q' ks \<longleftrightarrow> granted (PDict d) ks \<or> (\<exists>g \<in> set gs. granted (PDict (group_permissions g)) ks))"
    if "rfold (\<lambda>g p. combine_permissions p (group_permissions g)) gs (PDict d) = Inr q'"
      "filled d defaults" "set gs \<subseteq> set (db_groups db)" for gs d q'
    using that
  proof (induction gs arbitrary: d)
    case (Cons g gs)
    from Cons.prems(1) obtain q where q: "combine_permissions (PDict d) (group_permissions g) = Inr q"
      "rfold (\<lambda>g p. combine_permissions p (group_permissions g)) gs q = Inr q'"
      by (auto simp: rbind_Inr_iff)
    obtain d1 where d1: "q = PDict d1" "filled d1 defaults"
      using combine_filled [OF q(1) refl Cons.prems(2)] by blast
    have "granted q ks \<longleftrightarrow> granted (PDict d) ks \<or> granted (PDict (group_permissions g)) ks"
      using combine_grants [OF q(1)] assms(3) Cons.prems(3) by simp
    then show ?case using Cons.IH [of d1] Cons.prems(3) q(2) d1 by auto
  qed auto
  from assms(1) obtain q where q0: "rfold (\<lambda>g p. combine_permissions p (group_permissions g))
      (get_groups_by_member_id user_id db) (PDict defaults) = Inr q"
    "(case q of PDict d \<Rightarrow> Inr (fill_missing_permissions d defaults) | _ \<Rightarrow> Inl TypeError) = Inr p"
    by (auto simp: get_permissions_def rbind_Inr_iff)
  then obtain d where q: "q = PDict d" "p = fill_missing_permissions d defaults" by (cases q) auto
  have "set (get_groups_by_member_id user_id db) \<subseteq> set (db_groups db)"
    by (auto simp: set_get_groups_by_member_id)
  from fold [OF q0(1) filled_refl [OF assms(2)] this] q fill_filled show ?thesis by auto
qed

lemma any_group_permits_iff:
  "any_group_permits gs ks = Inr b \<Longrightarrow> b \<longleftrightarrow> (\<exists>g \<in> set gs. granted (PDict (group_permissions g)) ks)"
proof (induction gs)
  case (Cons g gs)
  then show ?case by (cases b) (auto simp: rbind_Inr_iff granted_def split: if_splits)
qed simp

lemma has_permission_iff:
  assumes "has_permission dup user_id key defaults db = Inr b"
  shows "b \<longleftrightarrow> (\<exists>g \<in> set (get_groups_by_member_id user_id db).
      granted (PDict (group_permissions g)) (str_split CHR ''.'' key)) \<or>
    granted (PDict (fill_missing_permissions defaults dup)) (str_split CHR ''.'' key)"
proof -
  let ?ks = "str_split CHR ''.'' key"
  from assms obtain c where c: "any_group_permits (get_groups_by_member_id user_id db) ?ks = Inr c"
    and b: "if c then b else get_permission (PDict (fill_missing_permissions defaults dup)) ?ks = Inr b"
    by (auto simp: has_permission_def Let_def rbind_Inr_iff split: if_splits)
  show ?thesis using any_group_permits_iff [OF c] b by (cases b) (auto simp: granted_def split: if_splits)
qed

definition conforms_at :: "pydict \<Rightarrow> string \<Rightarrow> pyval \<Rightarrow> bool" where
  "conforms_at s k v = conforms s [(k, v)]"

lemma conforms_iff: "conforms s d \<longleftrightarrow> (\<forall>(k, v) \<in> set d. conforms_at s k v)"
  by (induction s d rule: conforms.induct) (auto simp: conforms_at_def)

lemma conforms_dset: "conforms s d \<Longrightarrow> conforms_at s k v \<Longrightarrow> conforms s (dset k v d)"
  by (auto simp: conforms_iff dest: set_dset)

lemma conforms_lookup: "conforms s d \<Longrightarrow> dhas d k \<Longrightarrow> conforms_at s k (dget d k)"
  by (cases "map_of d k") (auto simp: conforms_iff dhas_def dget_def dest: map_of_SomeD)

lemma conforms_at_PDict: "conforms_at s k (PDict dv) \<Longrightarrow> \<exists>s'. dget s k = PDict s' \<and> conforms s' dv"
  by (cases "dget s k") (auto simp: conforms_at_def)

lemma conforms_at_dict_iff: "conforms_at s k v \<Longrightarrow> is_dict v = is_dict (dget s k)"
  by (cases "dget s k"; cases v) (auto simp: conforms_at_def)

lemma conforms_at_leaf: "\<not> is_dict v \<Longrightarrow> \<not> is_dict (dget s k) \<Longrightarrow> conforms_at s k v"
  by (cases "dget s k"; cases v) (auto simp: conforms_at_def)

lemma conforms_combine:
  "conforms s d \<Longrightarrow> conforms s e \<Longrightarrow> \<exists>d'. combine_permissions (PDict d) e = Inr (PDict d') \<and> conforms s d'"
proof (induction s e arbitrary: d rule: conforms.induct)
  case (2 s k v e)
  then have v: "conforms_at s k v" "conforms s e" by (auto simp: conforms_iff)
  show ?case
  proof (cases "is_dict v")
    case True
    then obtain dv where dv: "v = PDict dv" by (cases v) auto
    with v obtain s' where s': "dget s k = PDict s'" "conforms s' dv" using conforms_at_PDict by blast
    obtain old where old: "dget_or d k (PDict []) = PDict old" "conforms s' old"
    proof (cases "dhas d k")
      case True
      then have "conforms_at s k (dget d k)" using "2.prems" by (simp add: conforms_lookup)
      with s' True show ?thesis
        using that conforms_at_dict_iff [of s k "dget d k"]
        by (cases "dget d k") (auto simp: conforms_at_def dget_or_def dget_def dhas_def split: option.splits)
    next
      case False
      then show ?thesis using that [of "[]"] by (auto simp: dget_or_def dhas_def)
    qed
    obtain new where new: "combine_permissions (PDict old) dv = Inr (PDict new)" "conforms s' new"
      using "2.IH" s' dv old(2) by fastforce
    have "conforms s (dset k (PDict new) d)"
      using "2.prems" new(2) s' by (intro conforms_dset) (auto simp: conforms_at_def)
    with "2.IH" v(2) dv old(1) new(1) show ?thesis by auto
  next
    case False
    then have leaf: "\<not> is_dict (dget s k)" using v conforms_at_dict_iff by blast
    have "\<not> is_dict (dget d k)" if "dhas d k"
      using conforms_at_dict_iff [OF conforms_lookup [OF "2.prems"(1) that]] leaf by simp
    then have "conforms_at s k (if dhas d k then py_or (dget d k) v else v)"
      using False leaf by (intro conforms_at_leaf) (auto simp: py_or_def)
    then have "conforms s (dset k (if dhas d k then py_or (dget d k) v else v) d)"
      using "2.prems" by (intro conforms_dset)
    with "2.IH" v(2) False show ?thesis by (cases v) auto
  qed
qed simp

lemma get_permissions_returns:
  assumes "conforms defaults defaults"
    and "\<And>g. g \<in> set (db_groups db) \<Longrightarrow> conforms defaults (group_permissions g)"
  shows "\<exists>p. get_permissions user_id defaults db = Inr p"
proof -
  have "\<exists>d'. rfold (\<lambda>g p. combine_permissions p (group_permissions g)) gs (PDict d) = Inr (PDict d')"
    if "conforms defaults d" "set gs \<subseteq> set (db_groups db)" for gs d
    using that
  proof (induction gs arbitrary: d)
    case (Cons g gs)
    then obtain d1 where "combine_permissions (PDict d) (group_permissions g) = Inr (PDict d1)" "conforms defaults d1"
      using conforms_combine assms(2) by (metis insert_subset list.simps(15))
    with Cons show ?case by simp
  qed simp
  moreover have "set (get_groups_by_member_id user_id db) \<subseteq> set (db_groups db)"
    by (auto simp: set_get_groups_by_member_id)
  ultimately obtain d' where "rfold (\<lambda>g p. combine_permissions p (group_permissions g))
      (get_groups_by_member_id user_id db) (PDict defaults) = Inr (PDict d')"
    using assms(1) by blast
  then show ?thesis by (simp add: get_permissions_def)
qed

subsection \<open>Grant lists agree with the grant table\<close>

lemma list_grants_iff:
  assumes "\<forall>g \<in> set gs. hashable (grant_field g ''principal_id'')"
  shows "list_grants u perm gids gs = Inr (\<exists>g \<in> set gs. grant_field g ''permission'' = PStr perm \<and>
      (grant_field g ''principal_type'' = PStr ''user'' \<and>
         (grant_field g ''principal_id'' = PStr ''*'' \<or> grant_field g ''principal_id'' = PStr u) \<or>
       grant_field g ''principal_type'' = PStr ''group'' \<and> grant_field g ''principal_id'' \<in> PStr ` set gids))"
  using assms
proof (induction gs)
  case (Cons g gs)
  then show ?case by (cases g) (auto simp: Let_def grant_field_def)
qed simp

lemma str_of_eq_Some [simp]: "str_of v = Some x \<longleftrightarrow> v = PStr x"
  by (cases v) auto

lemma grant_triple_fields:
  "grant_triple g = Some (ptype, pid, perm) \<Longrightarrow>
     grant_field g ''principal_type'' = PStr ptype \<and> grant_field g ''principal_id'' = PStr pid \<and>
     grant_field g ''permission'' = PStr perm"
  by (auto simp: grant_triple_def normalize_grant_def ng_key_def grant_field_def
      split: pyval.splits option.splits if_splits)

lemma grant_field_triple:
  assumes "perm \<in> {''read'', ''write''}" "u \<noteq> []" "[] \<notin> gids"
  shows "grant_field g ''permission'' = PStr perm \<and>
      (grant_field g ''principal_type'' = PStr ''user'' \<and>
         (grant_field g ''principal_id'' = PStr ''*'' \<or> grant_field g ''principal_id'' = PStr u) \<or>
       grant_field g ''principal_type'' = PStr ''group'' \<and> grant_field g ''principal_id'' \<in> PStr ` gids) \<longleftrightarrow>
    (\<exists>ptype pid. grant_triple g = Some (ptype, pid, perm) \<and> covers u gids ptype pid)" (is "?L = ?R")
proof
  assume L: ?L
  then obtain d where g: "g = PDict d" by (cases g) (auto simp: grant_field_def)
  from L obtain ptype pid where f: "dget d ''permission'' = PStr perm" "dget d ''principal_type'' = PStr ptype"
    "dget d ''principal_id'' = PStr pid" "ptype = ''user'' \<and> (pid = ''*'' \<or> pid = u) \<or> ptype = ''group'' \<and> pid \<in> gids"
    unfolding g by (auto simp: grant_field_def)
  moreover have "pid \<noteq> []" using f(4) assms by auto
  ultimately have "grant_triple g = Some (ptype, pid, perm)"
    using assms(1) unfolding g by (auto simp: grant_triple_def normalize_grant_def ng_key_def)
  then show ?R using f(4) by (auto simp: covers_def)
next
  assume ?R
  then show ?L by (auto simp: covers_def dest: grant_triple_fields)
qed

subsection \<open>Filtering the grants a user hands out\<close>

lemma strip_stage:
  assumes "strip_unless found perm strip gs = Inr gs'" "strip gs = filter P gs"
    and "g \<in> set gs \<Longrightarrow> C \<Longrightarrow> found" "P g \<longleftrightarrow> \<not> C"
  shows "subseq gs' gs \<and> (g \<in> set gs' \<longleftrightarrow> g \<in> set gs \<and> (C \<longrightarrow> perm = Inr True))"
proof (cases found)
  case True
  with assms(1) have "rbind perm (\<lambda>b. Inr (if b then gs else strip gs)) = Inr gs'"
    by (simp add: strip_unless_def)
  then obtain b where b: "perm = Inr b" "gs' = (if b then gs else strip gs)"
    by (cases perm) simp_all
  show ?thesis using b assms(4) unfolding assms(2) by (cases b) simp_all
next
  case False
  with assms(1,3) show ?thesis by (auto simp: strip_unless_def)
qed

lemma has_grant_iff:
  "has_anyone_read_access_grant l \<longleftrightarrow>
     (\<exists>g \<in> set l. \<exists>t i q. grant_triple g = Some (t, i, q) \<and> t = ''anyone'' \<and> i = ''*'' \<and> q = ''read'')"
  "has_public_read_access_grant l \<longleftrightarrow>
     (\<exists>g \<in> set l. \<exists>t i q. grant_triple g = Some (t, i, q) \<and> t = ''user'' \<and> i = ''*'' \<and> q = ''read'')"
  "has_public_write_access_grant l \<longleftrightarrow>
     (\<exists>g \<in> set l. \<exists>t i q. grant_triple g = Some (t, i, q) \<and> t = ''user'' \<and> i = ''*'' \<and> q = ''write'')"
  "has_user_access_grant l \<longleftrightarrow>
     (\<exists>g \<in> set l. \<exists>t i q. grant_triple g = Some (t, i, q) \<and> t = ''user'' \<and> i \<noteq> ''*'')"
  using normalize_list_ex [of "\<lambda>t i q. t = ''anyone'' \<and> i = ''*'' \<and> q = ''read''"]
    normalize_list_ex [of "\<lambda>t i q. t = ''user'' \<and> i = ''*'' \<and> q = ''read''"]
    normalize_list_ex [of "\<lambda>t i q. t = ''user'' \<and> i = ''*'' \<and> q = ''write''"]
    normalize_list_ex [of "\<lambda>t i q. t = ''user'' \<and> i \<noteq> ''*''"]
  by (simp_all only: has_anyone_read_access_grant_def has_public_read_access_grant_def
      has_public_write_access_grant_def has_user_access_grant_def)

subsection \<open>Base models\<close>

definition base_verdict :: "string option \<Rightarrow> (model_row \<Rightarrow> bool) \<Rightarrow> model_row list \<Rightarrow> string \<Rightarrow> bool option" where
  "base_verdict user_role readable models k =
     (case get_model_by_id k models of
        None \<Rightarrow> Some (user_role = Some ''admin'')
      | Some m \<Rightarrow> if readable m then None else Some False)"

definition base_link :: "model_row list \<Rightarrow> string \<Rightarrow> string option" where
  "base_link models k = (case get_model_by_id k models of None \<Rightarrow> None | Some m \<Rightarrow> next_base m)"

lemma base_walk_seen: "k \<in> seen \<Longrightarrow> base_model_walk r p models seen k = True"
  by (subst base_model_walk.simps) simp

lemma base_walk_open:
  "k \<notin> seen \<Longrightarrow> base_model_walk r p models seen k =
     (case base_verdict r p models k of
        Some b \<Rightarrow> b
      | None \<Rightarrow> (case base_link models k of
                  None \<Rightarrow> True
                | Some k' \<Rightarrow> base_model_walk r p models (insert k seen) k'))"
  by (subst base_model_walk.simps) (simp add: base_verdict_def base_link_def split: option.split)

interpretation base_models: verdict_walk
  "base_verdict user_role readable models" "base_link models" True "base_model_walk user_role readable models"
  for user_role readable models
proof
  have "{k. base_verdict user_role readable models k = None} \<subseteq> set (map m_id models)"
    by (auto simp: base_verdict_def get_model_by_id_def dest: find_SomeD split: option.splits if_splits)
  then show "finite {k. base_verdict user_role readable models k = None}" by (rule finite_subset) simp
qed (simp_all add: base_walk_seen base_walk_open)

lemma base_walk_iff:
  assumes "r \<noteq> Some ''admin''"
  shows "base_model_walk r p models {} k \<longleftrightarrow>
    (\<forall>x. (\<lambda>x y. base_link models x = Some y)\<^sup>*\<^sup>* k x \<longrightarrow> base_verdict r p models x = None)"
proof -
  have "base_model_walk r p models {} k = False \<longleftrightarrow>
      (\<exists>x. (\<lambda>x y. base_link models x = Some y)\<^sup>*\<^sup>* k x \<and> base_verdict r p models x = Some False)"
    by (rule base_models.walk_iff_links)
      (use assms in \<open>auto simp: base_verdict_def split: option.splits if_splits\<close>)
  moreover have "base_verdict r p models x = Some False \<longleftrightarrow> base_verdict r p models x \<noteq> None" for x
    using assms by (auto simp: base_verdict_def split: option.splits)
  ultimately show ?thesis by auto
qed

subsection \<open>Properties\<close>

text \<open>C9. When the group permissions have the shape of the defaults, computing the permissions of a
  user never raises, and the result grants a key exactly when the defaults or one of the user's
  groups grants it.\<close>

theorem get_permissions_most_permissive:
  assumes "tree_ok defaults" "conforms defaults defaults"
    and "\<forall>g \<in> set (db_groups db). tree_ok (group_permissions g) \<and> conforms defaults (group_permissions g)"
  shows "\<exists>p. get_permissions user_id defaults db = Inr p \<and>
    (\<forall>ks. granted (PDict p) ks \<longleftrightarrow> granted (PDict defaults) ks \<or>
       (\<exists>g \<in> set (get_groups_by_member_id user_id db). granted (PDict (group_permissions g)) ks))"
  using get_permissions_returns [of defaults db user_id] get_permissions_grants [of user_id defaults db] assms
  by blast

definition sample_permissions :: pydict where
  "sample_permissions =
     [(''chat'', PDict [(''delete'', PBool False), (''edit'', PBool True)]),
      (''access_grants'', PDict [(''allow_users'', PBool True), (''allow_groups'', PBool False)])]"

definition sample_permission_db :: group_db where
  "sample_permission_db = sample_group_db\<lparr>db_groups :=
     map (\<lambda>g. g\<lparr>g_permissions := Some [(''chat'', PDict [(''delete'', PBool True)])]\<rparr>) (db_groups sample_group_db)\<rparr>"

lemma sample_member_permissions:
  "group_permissions ` set (get_groups_by_member_id ''u1'' sample_permission_db) =
     {[(''chat'', PDict [(''delete'', PBool True)])]}"
proof -
  have "map group_permissions (get_groups_by_member_id ''u1'' sample_permission_db) =
      [[(''chat'', PDict [(''delete'', PBool True)])]]" by code_simp
  from arg_cong [OF this, of set] show ?thesis by simp
qed

theorem get_permissions_most_permissive_witness:
  "\<exists>p. get_permissions ''u1'' sample_permissions sample_permission_db = Inr p \<and>
     granted (PDict p) [''chat'', ''delete''] \<and> \<not> granted (PDict p) [''access_grants'', ''allow_groups'']"
proof -
  have "tree_ok sample_permissions" "conforms sample_permissions sample_permissions"
    "\<forall>g \<in> set (db_groups sample_permission_db).
       tree_ok (group_permissions g) \<and> conforms sample_permissions (group_permissions g)"
    by (simp_all add: sample_permissions_def sample_permission_db_def sample_group_db_def group_permissions_def)
  from get_permissions_most_permissive [OF this, of "''u1''"] obtain p where
    p: "get_permissions ''u1'' sample_permissions sample_permission_db = Inr p"
    and iff: "granted (PDict p) ks \<longleftrightarrow> granted (PDict sample_permissions) ks \<or>
      (\<exists>d \<in> group_permissions ` set (get_groups_by_member_id ''u1'' sample_permission_db). granted (PDict d) ks)" for ks
    by auto
  have "granted (PDict p) [''chat'', ''delete'']" "\<not> granted (PDict p) [''access_grants'', ''allow_groups'']"
    unfolding iff sample_member_permissions by (simp_all add: sample_permissions_def)
  with p show ?thesis by blast
qed

text \<open>C34. The check of one key and the computed permissions of the same user never contradict each
  other: the check succeeds exactly when the computed permissions, or the defaults completed with the
  built-in ones, grant the key.\<close>

theorem has_permission_agrees_with_get_permissions:
  assumes "has_permission builtin user_id key defaults db = Inr b"
    and "get_permissions user_id defaults db = Inr p"
    and "tree_ok defaults" "\<forall>g \<in> set (db_groups db). tree_ok (group_permissions g)"
  shows "b \<longleftrightarrow> granted (PDict p) (str_split CHR ''.'' key) \<or>
    granted (PDict (fill_missing_permissions defaults builtin)) (str_split CHR ''.'' key)"
proof -
  have "granted (PDict defaults) ks \<Longrightarrow> granted (PDict (fill_missing_permissions defaults builtin)) ks" for ks
    by (rule fill_grants)
  moreover have "granted (PDict p) ks \<longleftrightarrow> granted (PDict defaults) ks \<or>
      (\<exists>g \<in> set (get_groups_by_member_id user_id db). granted (PDict (group_permissions g)) ks)" for ks
    by (rule get_permissions_grants [OF assms(2,3)]) (use assms(4) in blast)
  ultimately show ?thesis using has_permission_iff [OF assms(1)] by blast
qed

theorem has_permission_agrees_with_get_permissions_witness:
  "has_permission [(''notes'', PBool True)] ''u1'' ''chat.delete'' sample_permissions sample_permission_db = Inr True \<and>
   (\<exists>p. get_permissions ''u1'' sample_permissions sample_permission_db = Inr p \<and>
        granted (PDict p) [''chat'', ''delete''])"
proof -
  have h: "has_permission [(''notes'', PBool True)] ''u1'' ''chat.delete'' sample_permissions sample_permission_db = Inr True"
    "get_permissions ''u1'' sample_permissions sample_permission_db =
       Inr [(''chat'', PDict [(''delete'', PBool True), (''edit'', PBool True)]),
            (''access_grants'', PDict [(''allow_users'', PBool True), (''allow_groups'', PBool False)])]"
    by code_simp+
  have ok: "tree_ok sample_permissions" "\<forall>g \<in> set (db_groups sample_permission_db). tree_ok (group_permissions g)"
    by code_simp+
  have "granted (PDict (fill_missing_permissions sample_permissions [(''notes'', PBool True)]))
      (str_split CHR ''.'' ''chat.delete'') = False" by code_simp
  with has_permission_agrees_with_get_permissions [OF h ok] h show ?thesis by auto
qed

text \<open>C3. Filtering the grants a non-admin submits keeps exactly the valid entries the user may hand
  out: public entries need the sharing permission, entries for other users or groups need theirs, and
  entries for anyone need a configured key the user has. The rest of the list keeps its order.\<close>

theorem filter_allowed_access_grants_exact:
  assumes "filter_allowed_access_grants builtin defaults user_id role gs public_key anyone_key db = Inr gs'"
    and "role \<noteq> ''admin''" and "grant_triple g = Some (ptype, pid, perm)"
  shows "subseq gs' gs \<and>
    (g \<in> set gs' \<longleftrightarrow> g \<in> set gs \<and>
       (let permitted = (\<lambda>key. has_permission builtin user_id key defaults db = Inr True) in
        (ptype = ''anyone'' \<longrightarrow> (\<exists>key. anyone_key = Some key \<and> key \<noteq> [] \<and> permitted key)) \<and>
        (ptype = ''user'' \<and> pid = ''*'' \<longrightarrow> permitted public_key) \<and>
        (ptype = ''user'' \<and> pid \<noteq> ''*'' \<longrightarrow> permitted ''access_grants.allow_users'') \<and>
        (ptype = ''group'' \<longrightarrow> permitted ''access_grants.allow_groups'')))"
proof -
  define permitted where "permitted = (\<lambda>key. has_permission builtin user_id key defaults db)"
  have kinds: "perm = ''read'' \<or> perm = ''write''" "ptype = ''anyone'' \<Longrightarrow> pid = ''*'' \<and> perm = ''read''"
    using grant_triple_valid [OF assms(3)] by auto
  have fields: "grant_field g ''principal_type'' = PStr ptype" "grant_field g ''principal_id'' = PStr pid"
    using grant_triple_fields [OF assms(3)] by simp_all
  define ask where "ask = (case anyone_key of None \<Rightarrow> Inr False | Some key \<Rightarrow> if key = [] then Inr False else permitted key)"
  show ?thesis
  proof (cases "gs = []")
    case True
    with assms(1) show ?thesis by (simp add: filter_allowed_access_grants_def Let_def)
  next
    case False
    obtain gs1 gs2 gs3 where
      s1: "strip_unless (has_anyone_read_access_grant gs) ask strip_anyone_access_grants gs = Inr gs1"
      and s2: "strip_unless (has_public_read_access_grant gs1 \<or> has_public_write_access_grant gs1)
        (permitted public_key) (filter (\<lambda>g. \<not> (grant_field g ''principal_type'' = PStr ''user'' \<and>
           grant_field g ''principal_id'' = PStr ''*''))) gs1 = Inr gs2"
      and s3: "strip_unless (has_user_access_grant gs2) (permitted ''access_grants.allow_users'')
        strip_user_access_grants gs2 = Inr gs3"
      and s4: "strip_unless (list_ex (\<lambda>g. grant_field g ''principal_type'' = PStr ''group'') gs3)
        (permitted ''access_grants.allow_groups'') (filter (\<lambda>g. grant_field g ''principal_type'' \<noteq> PStr ''group'')) gs3
          = Inr gs'"
      using assms(1) unfolding ask_def permitted_def
      by (simp only: filter_allowed_access_grants_def Let_def rbind_Inr_iff False assms(2) if_False if_True
          not_False_eq_True) blast
    have t1: "subseq gs1 gs \<and> (g \<in> set gs1 \<longleftrightarrow> g \<in> set gs \<and> (ptype = ''anyone'' \<longrightarrow> ask = Inr True))"
      by (rule strip_stage [OF s1 strip_anyone_access_grants_def])
        (use assms(3) kinds fields in \<open>auto simp: has_grant_iff\<close>)
    have t2: "subseq gs2 gs1 \<and>
        (g \<in> set gs2 \<longleftrightarrow> g \<in> set gs1 \<and> (ptype = ''user'' \<and> pid = ''*'' \<longrightarrow> permitted public_key = Inr True))"
      by (rule strip_stage [OF s2 refl]) (use assms(3) kinds fields in \<open>auto simp: has_grant_iff\<close>)
    have t3: "subseq gs3 gs2 \<and> (g \<in> set gs3 \<longleftrightarrow> g \<in> set gs2 \<and>
        (ptype = ''user'' \<and> pid \<noteq> ''*'' \<longrightarrow> permitted ''access_grants.allow_users'' = Inr True))"
      by (rule strip_stage [OF s3 strip_user_access_grants_def])
        (use assms(3) fields in \<open>auto simp: has_grant_iff\<close>)
    have t4: "subseq gs' gs3 \<and> (g \<in> set gs' \<longleftrightarrow> g \<in> set gs3 \<and>
        (ptype = ''group'' \<longrightarrow> permitted ''access_grants.allow_groups'' = Inr True))"
      by (rule strip_stage [OF s4 refl]) (use fields in \<open>auto simp: list_ex_iff\<close>)
    have ask: "ask = Inr True \<longleftrightarrow> (\<exists>key. anyone_key = Some key \<and> key \<noteq> [] \<and> permitted key = Inr True)"
      by (auto simp: ask_def split: option.splits)
    have "subseq gs' gs" using t1 t2 t3 t4 by (meson subseq_order.trans)
    then show ?thesis
      by (simp only: t4 [THEN conjunct2] t3 [THEN conjunct2] t2 [THEN conjunct2] t1 [THEN conjunct2]
          ask permitted_def Let_def conj_assoc simp_thms)
  qed
qed

theorem filter_allowed_access_grants_exact_witness:
  "filter_allowed_access_grants [] sample_permissions ''u1'' ''user''
     [PDict (config_grant ''group'' (PStr ''g2'') ''read''), PDict (config_grant ''user'' (PStr ''u2'') ''write'')]
     ''sharing.public'' None sample_group_db = Inr [PDict (config_grant ''user'' (PStr ''u2'') ''write'')] \<and>
   has_permission [] ''u1'' ''access_grants.allow_users'' sample_permissions sample_group_db = Inr True"
proof -
  let ?gs = "[PDict (config_grant ''group'' (PStr ''g2'') ''read''), PDict (config_grant ''user'' (PStr ''u2'') ''write'')]"
  have r: "filter_allowed_access_grants [] sample_permissions ''u1'' ''user'' ?gs ''sharing.public'' None sample_group_db =
      Inr [PDict (config_grant ''user'' (PStr ''u2'') ''write'')]" by code_simp
  have t: "grant_triple (PDict (config_grant ''user'' (PStr ''u2'') ''write'')) = Some (''user'', ''u2'', ''write'')"
    by code_simp
  from filter_allowed_access_grants_exact [OF r _ t] r show ?thesis by (simp add: Let_def)
qed

text \<open>A grant list kept in configuration gives a user the access that the grant table gives after the
  same list is installed on a resource, for well-formed lists and identifiers.\<close>

lemma config_grants_agree_with_table:
  assumes "\<forall>g \<in> set gs. hashable (grant_field g ''principal_id'')"
    and "perm \<in> {''read'', ''write''}" "u \<noteq> []" "[] \<notin> set (member_group_ids gi u db)"
    and "grants_ok t" "fresh_uuids uuids (length gs) (ag_id ` set t)"
  shows "has_access_list u perm (PList gs) gi db =
    Inr (has_access u rtype rid perm gi db (fst (set_access_grants nu uuids nows rtype rid gs t)))"
proof -
  let ?ngs = "normalize_access_grants nu gs"
  let ?new = "installed_grants uuids nows rtype rid ?ngs"
  have t': "fst (set_access_grants nu uuids nows rtype rid gs t) = sql_delete (on_resource rtype rid) t @ ?new"
    using set_access_grants_ok [OF assms(5,6), of nu nows rtype rid] by simp
  have "has_access u rtype rid perm gi db (sql_delete (on_resource rtype rid) t @ ?new) \<longleftrightarrow>
      (\<exists>(ptype, pid, p) \<in> ng_key ` set ?ngs. p = perm \<and> covers u (set (member_group_ids gi u db)) ptype pid)"
    by (simp only: has_access_replaced(1) [OF installed_on_resource] covers_installed)
  also have "\<dots> \<longleftrightarrow> (\<exists>g \<in> set gs. \<exists>ptype pid. grant_triple g = Some (ptype, pid, perm) \<and>
      covers u (set (member_group_ids gi u db)) ptype pid)"
    by (auto simp: normalize_keys)
  finally show ?thesis
    unfolding t' has_access_list_def
    by (cases "gs = []") (simp_all add: list_grants_iff [OF assms(1)] grant_field_triple [OF assms(2-4)])
qed

theorem config_grants_agree_with_table_witness:
  "has_access_list ''u1'' ''read'' (PList sample_payload) None sample_group_db = Inr True \<and>
   has_access ''u1'' ''note'' ''n1'' ''read'' None sample_group_db
     (fst (set_access_grants (\<lambda>_. []) (\<lambda>i. ''n'' @ replicate i CHR ''x'') (\<lambda>_. 9) ''note'' ''n1'' sample_payload sample_grants))"
proof -
  have h: "\<forall>g \<in> set sample_payload. hashable (grant_field g ''principal_id'')" "''read'' \<in> {''read'', ''write''}"
    "''u1'' \<noteq> []" "[] \<notin> set (member_group_ids None ''u1'' sample_group_db)" by code_simp+
  have ok: "grants_ok sample_grants" by (simp add: grants_ok_def sample_grants_def)
  have fresh: "fresh_uuids (\<lambda>i. ''n'' @ replicate i CHR ''x'') (length sample_payload) (ag_id ` set sample_grants)"
    by (auto simp: fresh_uuids_def inj_on_def sample_grants_def)
  have "has_access_list ''u1'' ''read'' (PList sample_payload) None sample_group_db = Inr True" by code_simp
  with config_grants_agree_with_table [OF h ok fresh, of "''note''" "''n1''" "\<lambda>_. []" "\<lambda>_. 9"] show ?thesis by simp
qed

text \<open>C8. A non-admin may use a registered model exactly when every model on its chain of base models
  (itself included) is registered and owned by or readable to the user; the walk returns on loops.\<close>

theorem check_model_access_chain:
  assumes "u_role user \<noteq> ''admin''" "get_model_by_id (m_id m) models = Some m"
  shows "check_model_access user (Some m) False db t models = Inr () \<longleftrightarrow>
    (\<forall>k. (\<lambda>x y. base_link models x = Some y)\<^sup>*\<^sup>* (m_id m) k \<longrightarrow>
       (\<exists>b. get_model_by_id k models = Some b \<and>
          (u_id user = m_user_id b \<or> has_access (u_id user) ''model'' (m_id b) ''read'' None db t)))"
proof -
  let ?gids = "Some (member_group_ids None (u_id user) db)"
  let ?readable = "model_readable (u_id user) ?gids db t"
  let ?r = "Some (u_role user)"
  have same: "has_access (u_id user) ''model'' i ''read'' ?gids db t =
      has_access (u_id user) ''model'' i ''read'' None db t" for i
    by (simp add: has_access_iff member_group_ids_def)
  have "check_model_access user (Some m) False db t models = Inr () \<longleftrightarrow>
      ?readable m \<and> has_base_model_access (u_id user) m ?r ?gids db t models"
    using assms(1) by (simp add: check_model_access_def Let_def)
  also have "\<dots> \<longleftrightarrow> base_model_walk ?r ?readable models {} (m_id m)"
    using assms(2) by (subst base_model_walk.simps) (simp add: has_base_model_access_def split: option.split)
  also have "\<dots> \<longleftrightarrow> (\<forall>k. (\<lambda>x y. base_link models x = Some y)\<^sup>*\<^sup>* (m_id m) k \<longrightarrow>
      base_verdict ?r ?readable models k = None)"
    using assms(1) by (simp add: base_walk_iff)
  finally have walk: "check_model_access user (Some m) False db t models = Inr () \<longleftrightarrow>
      (\<forall>k. (\<lambda>x y. base_link models x = Some y)\<^sup>*\<^sup>* (m_id m) k \<longrightarrow> base_verdict ?r ?readable models k = None)" .
  have "base_verdict ?r ?readable models k = None \<longleftrightarrow>
      (\<exists>b. get_model_by_id k models = Some b \<and>
         (u_id user = m_user_id b \<or> has_access (u_id user) ''model'' (m_id b) ''read'' None db t))" for k
    by (simp add: base_verdict_def model_readable_def same split: option.split)
  with walk show ?thesis by simp
qed

definition sample_models :: "model_row list" where
  "sample_models =
     [\<lparr>m_id = ''a'', m_user_id = ''u1'', m_base_model_id = Some ''b''\<rparr>,
      \<lparr>m_id = ''b'', m_user_id = ''u1'', m_base_model_id = Some ''a''\<rparr>,
      \<lparr>m_id = ''c'', m_user_id = ''u1'', m_base_model_id = Some ''raw''\<rparr>]"

theorem check_model_access_chain_witness:
  "{k. (\<lambda>x y. base_link sample_models x = Some y)\<^sup>*\<^sup>* ''a'' k} \<subseteq> {k. get_model_by_id k sample_models \<noteq> None} \<and>
   (\<exists>k. (\<lambda>x y. base_link sample_models x = Some y)\<^sup>*\<^sup>* ''c'' k \<and> get_model_by_id k sample_models = None)"
proof -
  let ?u = "\<lparr>u_id = ''u1'', u_role = ''user''\<rparr>"
  have role: "u_role ?u \<noteq> ''admin''" by simp
  have a: "get_model_by_id (m_id (hd sample_models)) sample_models = Some (hd sample_models)"
    "check_model_access ?u (Some (hd sample_models)) False sample_group_db [] sample_models = Inr ()"
    "m_id (hd sample_models) = ''a''" by code_simp+
  have c: "get_model_by_id (m_id (sample_models ! 2)) sample_models = Some (sample_models ! 2)"
    "check_model_access ?u (Some (sample_models ! 2)) False sample_group_db [] sample_models \<noteq> Inr ()"
    "m_id (sample_models ! 2) = ''c''" by code_simp+
  have own: "get_model_by_id k sample_models = Some b \<Longrightarrow> u_id ?u = m_user_id b" for k b
    by (auto simp: get_model_by_id_def sample_models_def split: if_splits)
  show ?thesis
  proof
    show "{k. (\<lambda>x y. base_link sample_models x = Some y)\<^sup>*\<^sup>* ''a'' k} \<subseteq> {k. get_model_by_id k sample_models \<noteq> None}"
      using check_model_access_chain [OF role a(1), of sample_group_db "[]"] a(2,3) by fastforce
    show "\<exists>k. (\<lambda>x y. base_link sample_models x = Some y)\<^sup>*\<^sup>* ''c'' k \<and> get_model_by_id k sample_models = None"
    proof (rule ccontr)
      assume "\<not> ?thesis"
      then have "\<exists>b. get_model_by_id k sample_models = Some b \<and> u_id ?u = m_user_id b"
        if "(\<lambda>x y. base_link sample_models x = Some y)\<^sup>*\<^sup>* ''c'' k" for k
        using that own [of k] by (cases "get_model_by_id k sample_models") auto
      with check_model_access_chain [OF role c(1), of sample_group_db "[]"] c(2,3) show False by fastforce
    qed
  qed
qed

end
