(* ===== verification/Folders.thy ===== *)
theory Folders
  imports Access_Control
begin

section \<open>Folders\<close>

text \<open>
  Models \<open>models/folders.py\<close>, \<open>utils/access_control/folders.py\<close> and the unread counters of
  \<open>routers/folders.py\<close>. The folders of a user form a forest given by parent links; a corrupt table
  may hold loops, so every traversal keeps the identifiers it has seen: the depth-first collection of
  the children, the worklist of the subtree, the recursive deletion, the walk to the ancestors that
  decides access and the one that adds up unread counts.

  A name in a stored row is text: an update whose form sets the name to null is not represented.
\<close>

subsection \<open>Rows\<close>

record folder_row =
  fo_id :: string
  fo_parent_id :: "string option"
  fo_user_id :: string
  fo_name :: string
  fo_data :: "pydict option"
  fo_meta :: "pydict option"
  fo_is_expanded :: bool
  fo_created_at :: int
  fo_updated_at :: int

record folder_form =
  ff_name :: string
  ff_data :: "pydict option"
  ff_meta :: "pydict option"

record folder_update_form =
  fu_name :: "string option"
  fu_data :: "pydict option option"
  fu_meta :: "pydict option option"

definition folders_ok :: "folder_row list \<Rightarrow> bool" where
  "folders_ok t = distinct (map fo_id t)"

definition insert_new_folder ::
    "string \<Rightarrow> int \<Rightarrow> int \<Rightarrow> string \<Rightarrow> folder_form \<Rightarrow> string option \<Rightarrow> folder_row list
      \<Rightarrow> folder_row list \<times> folder_row option"
where
  "insert_new_folder uuid now1 now2 user_id form parent_id t =
     (let folder = \<lparr>fo_id = uuid, fo_parent_id = parent_id, fo_user_id = user_id, fo_name = ff_name form,
                    fo_data = ff_data form, fo_meta = ff_meta form, fo_is_expanded = False,
                    fo_created_at = now1, fo_updated_at = now2\<rparr>
      in if folders_ok (t @ [folder]) then (t @ [folder], Some folder) else (t, None))"

subsection \<open>Queries\<close>

definition owned_row :: "string \<Rightarrow> string \<Rightarrow> folder_row \<Rightarrow> bool" where
  "owned_row i user_id f = (fo_id f = i \<and> fo_user_id f = user_id)"

definition get_folder_by_id_and_user_id :: "string \<Rightarrow> string \<Rightarrow> folder_row list \<Rightarrow> folder_row option" where
  "get_folder_by_id_and_user_id i user_id t = find (owned_row i user_id) t"

definition get_folder_by_id :: "string \<Rightarrow> folder_row list \<Rightarrow> folder_row option" where
  "get_folder_by_id i t = find (\<lambda>f. fo_id f = i) t"

definition get_folders_by_ids :: "string list \<Rightarrow> folder_row list \<Rightarrow> folder_row list" where
  "get_folders_by_ids ids t = sql_desc fo_updated_at (filter (\<lambda>f. fo_id f \<in> set ids) t)"

definition get_folders_by_user_id :: "string \<Rightarrow> folder_row list \<Rightarrow> folder_row list" where
  "get_folders_by_user_id user_id t = filter (\<lambda>f. fo_user_id f = user_id) t"

definition get_folder_by_parent_id_and_user_id_and_name ::
    "string option \<Rightarrow> string \<Rightarrow> string \<Rightarrow> folder_row list \<Rightarrow> folder_row option"
where
  "get_folder_by_parent_id_and_user_id_and_name parent_id user_id name t =
     find (\<lambda>f. fo_parent_id f = parent_id \<and> fo_user_id f = user_id \<and> str_lower (fo_name f) = str_lower name) t"

definition get_folders_by_parent_id_and_user_id ::
    "string option \<Rightarrow> string \<Rightarrow> folder_row list \<Rightarrow> folder_row list"
where
  "get_folders_by_parent_id_and_user_id parent_id user_id t =
     sql_desc fo_updated_at (filter (\<lambda>f. fo_parent_id f = parent_id \<and> fo_user_id f = user_id) t)"

definition get_shared_folder_ids_for_user ::
    "string \<Rightarrow> string list \<Rightarrow> access_grant list \<Rightarrow> (string \<times> string) list"
where
  "get_shared_folder_ids_for_user user_id user_group_ids grants =
     (let conditions = principal_conditions user_id user_group_ids
      in fold (\<lambda>g folder_perms.
                 if map_of folder_perms (ag_resource_id g) \<noteq> Some ''write''
                 then dset (ag_resource_id g) (ag_permission g) folder_perms
                 else folder_perms)
           (filter (\<lambda>g. ag_resource_type g = ''folder'' \<and> list_ex (\<lambda>c. c g) conditions) grants) [])"

subsection \<open>Traversals\<close>

text \<open>The nested function \<open>get_children\<close>: the loop over the fetched children, with the shared seen set.\<close>

abbreviation folder_ids :: "folder_row list \<Rightarrow> string set" where
  "folder_ids t \<equiv> set (map fo_id t)"

function (domintros) get_children ::
    "string \<Rightarrow> folder_row list \<Rightarrow> folder_row list \<Rightarrow> string set \<Rightarrow> folder_row list \<Rightarrow> string set \<times> folder_row list"
where
  "get_children user_id t [] seen folders = (seen, folders)"
| "get_children user_id t (child # rest) seen folders =
     (if fo_id child \<in> seen then get_children user_id t rest seen folders
      else (case get_children user_id t (get_folders_by_parent_id_and_user_id (Some (fo_id child)) user_id t)
                   (insert (fo_id child) seen) folders of
              (seen', folders') \<Rightarrow> get_children user_id t rest seen' (folders' @ [child])))"
  by pat_completeness auto

lemma get_children_seen:
  "get_children_dom (user_id, t, cs, seen, folders) \<Longrightarrow>
     seen \<subseteq> fst (get_children user_id t cs seen folders)"
proof (induction rule: get_children.pinduct)
  case (1 user_id t seen folders)
  then show ?case by (simp add: get_children.psimps)
next
  case (2 user_id t child rest seen folders)
  then show ?case by (fastforce simp: get_children.psimps split: prod.splits)
qed

lemma set_children:
  "set (get_folders_by_parent_id_and_user_id p user_id t) =
     {f \<in> set t. fo_parent_id f = p \<and> fo_user_id f = user_id}"
  by (auto simp: get_folders_by_parent_id_and_user_id_def)

termination get_children
proof (relation "measures [\<lambda>(user_id, t, cs, seen, folders). card (folder_ids t \<union> fo_id ` set cs - seen),
    \<lambda>(user_id, t, cs, seen, folders). length cs]", goal_cases)
  case (2 user_id t child rest seen folders)
  have "card (folder_ids t \<union> fo_id ` set rest - seen) \<le> card (folder_ids t \<union> fo_id ` set (child # rest) - seen)"
    by (rule card_mono) auto
  then show ?case by auto
next
  case (3 user_id t child rest seen folders)
  have "card (folder_ids t \<union> fo_id ` set (get_folders_by_parent_id_and_user_id (Some (fo_id child)) user_id t) -
      insert (fo_id child) seen) < card (folder_ids t \<union> fo_id ` set (child # rest) - seen)"
    by (rule psubset_card_mono) (use 3 in \<open>auto simp: set_children\<close>)
  then show ?case by simp
next
  case (4 user_id t child rest seen folders seen' folders')
  have "insert (fo_id child) seen \<subseteq> seen'"
    using get_children_seen [OF 4(3)] 4(2) by (metis fst_conv)
  then have "card (folder_ids t \<union> fo_id ` set rest - seen') \<le> card (folder_ids t \<union> fo_id ` set (child # rest) - seen)"
    by (intro card_mono) auto
  then show ?case by auto
qed simp

definition get_children_folders_by_id_and_user_id ::
    "string \<Rightarrow> string \<Rightarrow> folder_row list \<Rightarrow> folder_row list option"
where
  "get_children_folders_by_id_and_user_id i user_id t =
     (case find (owned_row i user_id) t of
        None \<Rightarrow> None
      | Some folder \<Rightarrow>
          Some (snd (get_children user_id t
                  (get_folders_by_parent_id_and_user_id (Some (fo_id folder)) user_id t) {i} [])))"

text \<open>The worklist: \<open>pop\<close> takes the last folder; unseen children are appended.\<close>

definition push_children :: "folder_row list \<Rightarrow> string set \<times> folder_row list \<Rightarrow> string set \<times> folder_row list" where
  "push_children children st =
     fold (\<lambda>child (folder_ids, folders).
             if fo_id child \<notin> folder_ids then (insert (fo_id child) folder_ids, folders @ [child])
             else (folder_ids, folders)) children st"

lemma push_children_measure:
  assumes "set cs \<subseteq> set t" "push_children cs (ids, fs) = (ids', fs')"
  shows "2 * card (folder_ids t - ids') + length fs' \<le> 2 * card (folder_ids t - ids) + length fs"
  using assms
proof (induction cs arbitrary: ids fs)
  case Nil
  then show ?case by (simp add: push_children_def)
next
  case (Cons c cs)
  show ?case
  proof (cases "fo_id c \<in> ids")
    case True
    with Cons show ?thesis by (simp add: push_children_def)
  next
    case False
    have "card (folder_ids t - insert (fo_id c) ids) < card (folder_ids t - ids)"
      by (rule card_insert_seen) (use Cons.prems False in auto)
    with False Cons.IH [of "insert (fo_id c) ids" "fs @ [c]"] Cons.prems show ?thesis
      by (simp add: push_children_def)
  qed
qed

function subtree_loop :: "string \<Rightarrow> folder_row list \<Rightarrow> string set \<Rightarrow> folder_row list \<Rightarrow> string set" where
  "subtree_loop user_id t ids folders =
     (if folders = [] then ids
      else (case push_children (get_folders_by_parent_id_and_user_id (Some (fo_id (last folders))) user_id t)
                   (ids, butlast folders) of
              (ids', folders') \<Rightarrow> subtree_loop user_id t ids' folders'))"
  by pat_completeness auto
termination
proof (relation "measure (\<lambda>(user_id, t, ids, fs). 2 * card (folder_ids t - ids) + length fs)", goal_cases)
  case (2 user_id t ids fs ids' fs')
  have "2 * card (folder_ids t - ids') + length fs' \<le> 2 * card (folder_ids t - ids) + length (butlast fs)"
    by (rule push_children_measure [where cs = "get_folders_by_parent_id_and_user_id (Some (fo_id (last fs))) user_id t"])
      (use 2 in \<open>auto simp: set_children\<close>)
  moreover have "length (butlast fs) < length fs" using 2 by (cases fs rule: rev_cases) auto
  ultimately have "2 * card (folder_ids t - ids') + length fs' < 2 * card (folder_ids t - ids) + length fs"
    by linarith
  then show ?case by simp
qed simp

declare subtree_loop.simps [simp del]

text \<open>The result is a set: the code returns its elements in no particular order.\<close>

definition get_folder_ids_by_id_and_user_id_in_subtree :: "string \<Rightarrow> string \<Rightarrow> folder_row list \<Rightarrow> string set" where
  "get_folder_ids_by_id_and_user_id_in_subtree i user_id t =
     (case find (owned_row i user_id) t of
        None \<Rightarrow> {}
      | Some folder \<Rightarrow> subtree_loop user_id t {fo_id folder} [folder])"

subsection \<open>Updates\<close>

text \<open>The row is updated in place; a commit cannot fail because the identifier does not change.\<close>

definition update_owned ::
    "string \<Rightarrow> string \<Rightarrow> (folder_row \<Rightarrow> folder_row) \<Rightarrow> folder_row list \<Rightarrow> folder_row list \<times> folder_row option"
where
  "update_owned i user_id f t =
     (case find (owned_row i user_id) t of
        None \<Rightarrow> (t, None)
      | Some folder \<Rightarrow> (sql_update (\<lambda>r. fo_id r = fo_id folder) f t, Some (f folder)))"

definition update_folder_parent_id_by_id_and_user_id ::
    "int \<Rightarrow> string \<Rightarrow> string \<Rightarrow> string option \<Rightarrow> folder_row list \<Rightarrow> folder_row list \<times> folder_row option"
where
  "update_folder_parent_id_by_id_and_user_id now i user_id parent_id =
     update_owned i user_id (\<lambda>f. f\<lparr>fo_parent_id := parent_id, fo_updated_at := now\<rparr>)"

definition update_folder_is_expanded_by_id_and_user_id ::
    "int \<Rightarrow> string \<Rightarrow> string \<Rightarrow> bool \<Rightarrow> folder_row list \<Rightarrow> folder_row list \<times> folder_row option"
where
  "update_folder_is_expanded_by_id_and_user_id now i user_id is_expanded =
     update_owned i user_id (\<lambda>f. f\<lparr>fo_is_expanded := is_expanded, fo_updated_at := now\<rparr>)"

text \<open>\<open>{**(old or {}), **new}\<close>; a null \<open>new\<close> cannot be unpacked and raises.\<close>

definition merge_json :: "pydict option \<Rightarrow> pydict option option \<Rightarrow> pydict option result" where
  "merge_json old new =
     (case new of
        None \<Rightarrow> Inr old
      | Some None \<Rightarrow> Inl TypeError
      | Some (Some d) \<Rightarrow> Inr (Some (dmerge (case old of None \<Rightarrow> [] | Some o' \<Rightarrow> o') d)))"

definition update_folder_by_id_and_user_id ::
    "int \<Rightarrow> string \<Rightarrow> string \<Rightarrow> folder_update_form \<Rightarrow> folder_row list \<Rightarrow> folder_row list \<times> folder_row option"
where
  "update_folder_by_id_and_user_id now i user_id form t =
     (case find (owned_row i user_id) t of
        None \<Rightarrow> (t, None)
      | Some folder \<Rightarrow>
          (let existing = (case fu_name form of
                             None \<Rightarrow> None
                           | Some name \<Rightarrow> find (\<lambda>f. fo_name f = name \<and> fo_parent_id f = fo_parent_id folder \<and>
                                                   fo_user_id f = user_id) t)
           in if (case existing of None \<Rightarrow> False | Some e \<Rightarrow> fo_id e \<noteq> i) then (t, None)
              else (case rbind (merge_json (fo_data folder) (fu_data form)) (\<lambda>data.
                         rbind (merge_json (fo_meta folder) (fu_meta form)) (\<lambda>meta. Inr (data, meta))) of
                      Inl e \<Rightarrow> (t, None)
                    | Inr (data, meta) \<Rightarrow>
                        update_owned i user_id (\<lambda>f. f\<lparr>fo_name := (case fu_name form of None \<Rightarrow> fo_name f | Some n \<Rightarrow> n),
                          fo_data := data, fo_meta := meta, fo_updated_at := now\<rparr>) t)))"

subsection \<open>Deletion\<close>

text \<open>
  The nested function \<open>delete_children\<close> commits after every row, so later fetches read the smaller
  table.
\<close>

function (domintros) delete_children ::
    "string \<Rightarrow> folder_row list \<Rightarrow> string set \<Rightarrow> string list \<Rightarrow> folder_row list
      \<Rightarrow> string set \<times> string list \<times> folder_row list"
where
  "delete_children user_id [] seen ids t = (seen, ids, t)"
| "delete_children user_id (child # rest) seen ids t =
     (if fo_id child \<in> seen then delete_children user_id rest seen ids t
      else (case delete_children user_id (get_folders_by_parent_id_and_user_id (Some (fo_id child)) user_id t)
                   (insert (fo_id child) seen) ids t of
              (seen', ids', t') \<Rightarrow>
                delete_children user_id rest seen' (ids' @ [fo_id child])
                  (sql_delete (\<lambda>f. fo_id f = fo_id child) t')))"
  by pat_completeness auto

lemma delete_children_seen:
  "delete_children_dom (user_id, cs, seen, ids, t) \<Longrightarrow>
     seen \<subseteq> fst (delete_children user_id cs seen ids t) \<and>
     set (snd (snd (delete_children user_id cs seen ids t))) \<subseteq> set t"
proof (induction rule: delete_children.pinduct)
  case (1 user_id seen ids t)
  then show ?case by (simp add: delete_children.psimps)
next
  case (2 user_id child rest seen ids t)
  show ?case
  proof (cases "fo_id child \<in> seen")
    case True
    with 2 show ?thesis by (simp add: delete_children.psimps)
  next
    case False
    obtain seen' ids' t' where r: "delete_children user_id
        (get_folders_by_parent_id_and_user_id (Some (fo_id child)) user_id t) (insert (fo_id child) seen) ids t =
        (seen', ids', t')" by (metis prod_cases3)
    have "insert (fo_id child) seen \<subseteq> seen'" "set t' \<subseteq> set t"
      using "2.IH"(2) [OF False] r by auto
    with "2.IH"(3) [OF False r [symmetric] refl] False r "2.hyps" show ?thesis
      by (auto simp: delete_children.psimps)
  qed
qed

termination delete_children
proof (relation "measures [\<lambda>(user_id, cs, seen, ids, t). card (folder_ids t \<union> fo_id ` set cs - seen),
    \<lambda>(user_id, cs, seen, ids, t). length cs]", goal_cases)
  case (2 user_id child rest seen ids t)
  have "card (folder_ids t \<union> fo_id ` set rest - seen) \<le> card (folder_ids t \<union> fo_id ` set (child # rest) - seen)"
    by (rule card_mono) auto
  then show ?case by auto
next
  case (3 user_id child rest seen ids t)
  have "card (folder_ids t \<union> fo_id ` set (get_folders_by_parent_id_and_user_id (Some (fo_id child)) user_id t) -
      insert (fo_id child) seen) < card (folder_ids t \<union> fo_id ` set (child # rest) - seen)"
    by (rule psubset_card_mono) (use 3 in \<open>auto simp: set_children\<close>)
  then show ?case by simp
next
  case (4 user_id child rest seen ids t seen' y ids' t')
  have "insert (fo_id child) seen \<subseteq> seen'" "set t' \<subseteq> set t"
    using delete_children_seen [OF 4(4)] 4(2,3) by (metis fst_conv snd_conv)+
  then have "card (folder_ids (sql_delete (\<lambda>f. fo_id f = fo_id child) t') \<union> fo_id ` set rest - seen') \<le>
      card (folder_ids t \<union> fo_id ` set (child # rest) - seen)"
    by (intro card_mono) auto
  then show ?case by auto
qed simp

definition delete_folder_by_id_and_user_id ::
    "string \<Rightarrow> string \<Rightarrow> folder_row list \<Rightarrow> folder_row list \<times> string list"
where
  "delete_folder_by_id_and_user_id i user_id t =
     (case find (owned_row i user_id) t of
        None \<Rightarrow> (t, [])
      | Some folder \<Rightarrow>
          (case delete_children user_id (get_folders_by_parent_id_and_user_id (Some (fo_id folder)) user_id t)
                  {fo_id folder} [fo_id folder] t of
             (seen, ids, t') \<Rightarrow> (sql_delete (\<lambda>f. fo_id f = fo_id folder) t', ids)))"

subsection \<open>Search\<close>

text \<open>\<open>re.sub(r'[\s_]+', ' ', name)\<close>: every maximal run of white space and underscores becomes one space.\<close>

fun collapse_spaces :: "bool \<Rightarrow> string \<Rightarrow> string" where
  "collapse_spaces inside [] = []"
| "collapse_spaces inside (c # s) =
     (if is_space_char c \<or> c = CHR ''_''
      then (if inside then collapse_spaces True s else CHR '' '' # collapse_spaces True s)
      else c # collapse_spaces False s)"

definition normalize_folder_name :: "string \<Rightarrow> string" where
  "normalize_folder_name name = str_lower (str_strip (collapse_spaces False name))"

definition search_folders_by_names :: "string \<Rightarrow> string list \<Rightarrow> folder_row list \<Rightarrow> folder_row list" where
  "search_folders_by_names user_id queries t =
     (if queries = [] then []
      else map snd (fold (\<lambda>folder results.
             if normalize_folder_name (fo_name folder) \<in> set (map normalize_folder_name queries)
             then fold (\<lambda>child. dset (fo_id child) child)
                    (case get_children_folders_by_id_and_user_id (fo_id folder) user_id t of
                       None \<Rightarrow> [] | Some children \<Rightarrow> children)
                    (dset (fo_id folder) folder results)
             else results) (filter (\<lambda>f. fo_user_id f = user_id) t) []))"

definition search_folders_by_name_contains :: "string \<Rightarrow> string \<Rightarrow> folder_row list \<Rightarrow> folder_row list" where
  "search_folders_by_name_contains user_id query t =
     filter (\<lambda>f. str_contains (normalize_folder_name (fo_name f)) (normalize_folder_name query))
       (filter (\<lambda>f. fo_user_id f = user_id) t)"

subsection \<open>Access through ancestors\<close>

definition next_parent :: "folder_row \<Rightarrow> string option" where
  "next_parent f = (case fo_parent_id f of None \<Rightarrow> None | Some p \<Rightarrow> if p = [] then None else Some p)"

function folder_access_walk ::
    "(folder_row \<Rightarrow> bool) \<Rightarrow> folder_row list \<Rightarrow> string set \<Rightarrow> folder_row \<Rightarrow> bool"
where
  "folder_access_walk allowed t seen_ids folder =
     (if fo_id folder \<in> seen_ids then False
      else if allowed folder then True
      else (case next_parent folder of
              None \<Rightarrow> False
            | Some p \<Rightarrow>
                (case get_folder_by_id p t of
                   None \<Rightarrow> False
                 | Some parent \<Rightarrow> folder_access_walk allowed t (insert (fo_id folder) seen_ids) parent)))"
  by pat_completeness auto
termination
proof (relation "measures [\<lambda>(allowed, t, seen, f). card (insert (fo_id f) (folder_ids t) - seen)]", goal_cases)
  case (2 allowed t seen f p parent)
  have "fo_id parent \<in> folder_ids t" using 2(4) by (auto simp: get_folder_by_id_def dest: find_SomeD)
  then have "card (insert (fo_id parent) (folder_ids t) - insert (fo_id f) seen) <
      card (insert (fo_id f) (folder_ids t) - seen)"
    by (intro psubset_card_mono) (use 2(1) in auto)
  then show ?case by simp
qed simp

declare folder_access_walk.simps [simp del]

definition folder_allowed ::
    "string \<Rightarrow> string \<Rightarrow> group_db \<Rightarrow> access_grant list \<Rightarrow> folder_row \<Rightarrow> bool"
where
  "folder_allowed user_id permission db grants folder =
     (fo_user_id folder = user_id \<or> has_access user_id ''folder'' (fo_id folder) permission None db grants)"

definition has_folder_access ::
    "string \<Rightarrow> folder_row \<Rightarrow> string \<Rightarrow> group_db \<Rightarrow> access_grant list \<Rightarrow> folder_row list \<Rightarrow> bool"
where
  "has_folder_access user_id folder permission db grants t =
     folder_access_walk (folder_allowed user_id permission db grants) t {} folder"

definition has_folder_write_access ::
    "string \<Rightarrow> string \<Rightarrow> group_db \<Rightarrow> access_grant list \<Rightarrow> folder_row list \<Rightarrow> bool"
where
  "has_folder_write_access user_id folder_id db grants t =
     (case get_folder_by_id folder_id t of
        None \<Rightarrow> False
      | Some folder \<Rightarrow> has_folder_access user_id folder ''write'' db grants t)"

subsection \<open>Unread counts\<close>

text \<open>The inner loop: from a folder with unread chats up its parents, adding the count to each.\<close>

function unread_loop ::
    "(string \<times> string option) list \<Rightarrow> nat \<Rightarrow> string set \<Rightarrow> string option \<Rightarrow> (string \<times> nat) list \<Rightarrow> (string \<times> nat) list"
where
  "unread_loop parent_by_id n seen current_id counts =
     (case current_id of
        None \<Rightarrow> counts
      | Some k \<Rightarrow>
          if k = [] \<or> k \<in> seen then counts
          else (let counts' = (if dhas counts k then dset k (dget_or counts k 0 + n) counts else counts)
                in case map_of parent_by_id k of
                     None \<Rightarrow> counts'
                   | Some p \<Rightarrow> unread_loop parent_by_id n (insert k seen) p counts'))"
  by pat_completeness auto
termination
proof (relation "measure (\<lambda>(parent_by_id, n, seen, k, counts). card (fst ` set parent_by_id - seen))", goal_cases)
  case (2 parent_by_id n seen current counts k' counts' p)
  have "card (fst ` set parent_by_id - insert k' seen) < card (fst ` set parent_by_id - seen)"
    by (rule card_insert_seen) (use 2 in \<open>auto dest: map_of_SomeD simp: image_iff intro!: bexI\<close>)
  then show ?case by simp
qed simp

declare unread_loop.simps [simp del]

definition get_folder_unread_counts :: "string \<Rightarrow> (string \<times> nat) list \<Rightarrow> folder_row list \<Rightarrow> (string \<times> nat) list" where
  "get_folder_unread_counts user_id direct_unread_counts t =
     (let folders = get_folders_by_user_id user_id t;
          parent_by_id = fold (\<lambda>f. dset (fo_id f) (fo_parent_id f)) folders []
      in fold (\<lambda>(k, n). unread_loop parent_by_id n {} (Some k)) direct_unread_counts
           (map (\<lambda>(k, _). (k, 0)) parent_by_id))"

subsection \<open>The traversals visit the owned subtree\<close>

text \<open>\<open>owned_edge user t x y\<close>: the table has a folder \<open>y\<close> of the user whose parent is \<open>x\<close>.\<close>

definition owned_edge :: "string \<Rightarrow> folder_row list \<Rightarrow> string \<Rightarrow> string \<Rightarrow> bool" where
  "owned_edge user_id t x y = (\<exists>f \<in> set t. fo_id f = y \<and> fo_parent_id f = Some x \<and> fo_user_id f = user_id)"

lemma owned_edge_children:
  "owned_edge u t x y \<longleftrightarrow> y \<in> fo_id ` set (get_folders_by_parent_id_and_user_id (Some x) u t)"
  by (auto simp: owned_edge_def set_children)

lemma child_reach:
  assumes "d \<in> set (get_folders_by_parent_id_and_user_id (Some i) u t)" "(owned_edge u t)\<^sup>*\<^sup>* (fo_id d) x"
  shows "(owned_edge u t)\<^sup>*\<^sup>* i x"
proof -
  have "owned_edge u t i (fo_id d)" using assms(1) by (simp add: owned_edge_children)
  then show ?thesis using assms(2) by (rule converse_rtranclp_into_rtranclp)
qed

text \<open>What one run of the nested loop adds: the new folders are unseen, distinct, reachable from the
  list it started with, and leave no child behind.\<close>

definition collected :: "string \<Rightarrow> folder_row list \<Rightarrow> folder_row list \<Rightarrow> string set \<Rightarrow> folder_row list \<Rightarrow> bool" where
  "collected u t cs seen new =
     (distinct (map fo_id new) \<and> folder_ids new \<inter> seen = {} \<and> folder_ids cs \<subseteq> seen \<union> folder_ids new \<and>
      (\<forall>x \<in> folder_ids new. \<exists>c \<in> set cs. (owned_edge u t)\<^sup>*\<^sup>* (fo_id c) x) \<and>
      (\<forall>x \<in> folder_ids new. \<forall>y. owned_edge u t x y \<longrightarrow> y \<in> seen \<union> folder_ids new))"

lemma collected_Nil [simp]: "collected u t [] seen []"
  by (simp add: collected_def)

lemma collected_seen: "fo_id c \<in> seen \<Longrightarrow> collected u t cs seen new \<Longrightarrow> collected u t (c # cs) seen new"
  by (auto simp: collected_def)

lemma collected_child:
  assumes "fo_id c \<notin> seen"
    and sub: "collected u t (get_folders_by_parent_id_and_user_id (Some (fo_id c)) u t) (insert (fo_id c) seen) new1"
    and rest: "collected u t cs (insert (fo_id c) seen \<union> folder_ids new1) new2"
  shows "collected u t (c # cs) seen (new1 @ c # new2)"
proof -
  have "(owned_edge u t)\<^sup>*\<^sup>* (fo_id c) x" if x: "x \<in> folder_ids new1" for x
  proof -
    obtain d where "d \<in> set (get_folders_by_parent_id_and_user_id (Some (fo_id c)) u t)"
      "(owned_edge u t)\<^sup>*\<^sup>* (fo_id d) x"
      using sub x unfolding collected_def by blast
    then show ?thesis by (rule child_reach)
  qed
  moreover have "y \<in> insert (fo_id c) seen \<union> folder_ids new1" if "owned_edge u t (fo_id c) y" for y
    using sub that unfolding collected_def owned_edge_children by auto
  ultimately show ?thesis using assms unfolding collected_def by auto
qed

lemma get_children_collects:
  "\<exists>new. get_children u t cs seen fs = (seen \<union> folder_ids new, fs @ new) \<and> collected u t cs seen new"
proof (induction u t cs seen fs rule: get_children.induct)
  case (1 u t seen fs)
  show ?case by (rule exI [of _ "[]"]) simp
next
  case (2 u t c cs seen fs)
  show ?case
  proof (cases "fo_id c \<in> seen")
    case True
    with 2(1) show ?thesis by (auto intro: collected_seen)
  next
    case False
    let ?sub = "get_folders_by_parent_id_and_user_id (Some (fo_id c)) u t"
    obtain new1 where new1: "get_children u t ?sub (insert (fo_id c) seen) fs =
        (insert (fo_id c) seen \<union> folder_ids new1, fs @ new1)" "collected u t ?sub (insert (fo_id c) seen) new1"
      using 2(2) [OF False] by blast
    obtain new2 where new2: "get_children u t cs (insert (fo_id c) seen \<union> folder_ids new1) ((fs @ new1) @ [c]) =
        (insert (fo_id c) seen \<union> folder_ids new1 \<union> folder_ids new2, ((fs @ new1) @ [c]) @ new2)"
      "collected u t cs (insert (fo_id c) seen \<union> folder_ids new1) new2"
      using 2(3) [OF False new1(1) [symmetric]] by blast
    show ?thesis
    proof (intro exI [of _ "new1 @ c # new2"] conjI)
      show "get_children u t (c # cs) seen fs = (seen \<union> folder_ids (new1 @ c # new2), fs @ new1 @ c # new2)"
        using False new1(1) new2(1) by (simp add: ac_simps)
      show "collected u t (c # cs) seen (new1 @ c # new2)"
        by (rule collected_child [OF False new1(2) new2(2)])
    qed
  qed
qed

lemma collected_root:
  assumes "collected u t (get_folders_by_parent_id_and_user_id (Some i) u t) {i} new"
  shows "insert i (folder_ids new) = {x. (owned_edge u t)\<^sup>*\<^sup>* i x}"
proof
  have "(owned_edge u t)\<^sup>*\<^sup>* i x" if x: "x \<in> folder_ids new" for x
  proof -
    obtain c where "c \<in> set (get_folders_by_parent_id_and_user_id (Some i) u t)" "(owned_edge u t)\<^sup>*\<^sup>* (fo_id c) x"
      using assms x unfolding collected_def by blast
    then show ?thesis by (rule child_reach)
  qed
  then show "insert i (folder_ids new) \<subseteq> {x. (owned_edge u t)\<^sup>*\<^sup>* i x}" by auto
  have "x \<in> insert i (folder_ids new)" if "(owned_edge u t)\<^sup>*\<^sup>* i x" for x
    using that
  proof (induction rule: rtranclp_induct)
    case (step y z)
    show ?case
    proof (cases "y = i")
      case True
      with step.hyps(2) have "z \<in> folder_ids (get_folders_by_parent_id_and_user_id (Some i) u t)"
        by (simp add: owned_edge_children)
      then show ?thesis using assms unfolding collected_def by blast
    next
      case False
      with step.IH have "y \<in> folder_ids new" by simp
      then show ?thesis using assms step.hyps(2) unfolding collected_def by blast
    qed
  qed simp
  then show "{x. (owned_edge u t)\<^sup>*\<^sup>* i x} \<subseteq> insert i (folder_ids new)" by blast
qed

lemma get_children_root:
  obtains new where "get_children u t (get_folders_by_parent_id_and_user_id (Some i) u t) {i} [] =
      (insert i (folder_ids new), new)"
    and "distinct (i # map fo_id new)" and "insert i (folder_ids new) = {x. (owned_edge u t)\<^sup>*\<^sup>* i x}"
proof -
  from get_children_collects [of u t "get_folders_by_parent_id_and_user_id (Some i) u t" "{i}" "[]"]
  obtain new where new: "get_children u t (get_folders_by_parent_id_and_user_id (Some i) u t) {i} [] =
      ({i} \<union> folder_ids new, [] @ new)" "collected u t (get_folders_by_parent_id_and_user_id (Some i) u t) {i} new"
    by blast
  show ?thesis
    by (rule that [of new]) (use new collected_root [OF new(2)] in \<open>auto simp: collected_def\<close>)
qed

subsubsection \<open>The worklist\<close>

lemma push_children_result:
  "\<exists>new. push_children cs (ids, fs) = (ids \<union> folder_ids cs, fs @ new) \<and> folder_ids new \<union> ids = folder_ids cs \<union> ids"
proof (induction cs arbitrary: ids fs)
  case Nil
  then show ?case by (simp add: push_children_def)
next
  case (Cons c cs)
  show ?case
  proof (cases "fo_id c \<in> ids")
    case True
    with Cons [of ids fs] show ?thesis by (auto simp: push_children_def)
  next
    case False
    from Cons [of "insert (fo_id c) ids" "fs @ [c]"] obtain new where
      "push_children cs (insert (fo_id c) ids, fs @ [c]) = (insert (fo_id c) ids \<union> folder_ids cs, (fs @ [c]) @ new)"
      "folder_ids new \<union> insert (fo_id c) ids = folder_ids cs \<union> insert (fo_id c) ids" by blast
    with False show ?thesis by (intro exI [of _ "c # new"]) (auto simp: push_children_def)
  qed
qed

lemma subtree_loop_reach:
  assumes "i \<in> ids" "\<forall>x \<in> ids. (owned_edge u t)\<^sup>*\<^sup>* i x" "folder_ids fs \<subseteq> ids"
    and "\<forall>x \<in> ids. x \<in> folder_ids fs \<or> (\<forall>y. owned_edge u t x y \<longrightarrow> y \<in> ids)"
  shows "subtree_loop u t ids fs = {x. (owned_edge u t)\<^sup>*\<^sup>* i x}"
  using assms
proof (induction u t ids fs rule: subtree_loop.induct)
  case (1 u t ids fs)
  show ?case
  proof (cases "fs = []")
    case True
    have "x \<in> ids" if "(owned_edge u t)\<^sup>*\<^sup>* i x" for x
      using that by (induction rule: rtranclp_induct) (use "1.prems" True in auto)
    with "1.prems" True show ?thesis by (subst subtree_loop.simps) auto
  next
    case False
    let ?cs = "get_folders_by_parent_id_and_user_id (Some (fo_id (last fs))) u t"
    obtain new where new: "push_children ?cs (ids, butlast fs) = (ids \<union> folder_ids ?cs, butlast fs @ new)"
      "folder_ids new \<union> ids = folder_ids ?cs \<union> ids"
      using push_children_result by blast
    have fs: "folder_ids fs = insert (fo_id (last fs)) (folder_ids (butlast fs))"
      using False by (cases fs rule: rev_cases) auto
    have last: "(owned_edge u t)\<^sup>*\<^sup>* i (fo_id (last fs))" using "1.prems" fs by auto
    have "subtree_loop u t (ids \<union> folder_ids ?cs) (butlast fs @ new) = {x. (owned_edge u t)\<^sup>*\<^sup>* i x}"
    proof (rule "1.IH" [OF False new(1) [symmetric]])
      show "i \<in> ids \<union> folder_ids ?cs" using "1.prems" by simp
      show "\<forall>x \<in> ids \<union> folder_ids ?cs. (owned_edge u t)\<^sup>*\<^sup>* i x"
      proof
        fix x
        assume "x \<in> ids \<union> folder_ids ?cs"
        then have "x \<in> ids \<or> owned_edge u t (fo_id (last fs)) x" by (simp add: owned_edge_children)
        then show "(owned_edge u t)\<^sup>*\<^sup>* i x"
          using "1.prems"(2) last by (auto intro: rtranclp.rtrancl_into_rtrancl)
      qed
      show "folder_ids (butlast fs @ new) \<subseteq> ids \<union> folder_ids ?cs" using "1.prems"(3) fs new(2) by auto
      show "\<forall>x \<in> ids \<union> folder_ids ?cs. x \<in> folder_ids (butlast fs @ new) \<or>
          (\<forall>y. owned_edge u t x y \<longrightarrow> y \<in> ids \<union> folder_ids ?cs)"
      proof (intro ballI)
        fix x
        assume x: "x \<in> ids \<union> folder_ids ?cs"
        have "x \<in> folder_ids new" if "x \<notin> ids" using that x new(2) by blast
        moreover have "y \<in> folder_ids ?cs" if "owned_edge u t (fo_id (last fs)) y" for y
          using that by (simp add: owned_edge_children)
        ultimately show "x \<in> folder_ids (butlast fs @ new) \<or>
            (\<forall>y. owned_edge u t x y \<longrightarrow> y \<in> ids \<union> folder_ids ?cs)"
          using "1.prems"(4) fs by (cases "x \<in> ids") auto
      qed
    qed
    with False new(1) show ?thesis by (subst subtree_loop.simps) simp
  qed
qed

subsubsection \<open>The deletion\<close>

lemma delete_children_grows: "seen \<subseteq> fst (delete_children u cs seen ids t)"
proof (induction u cs seen ids t rule: delete_children.induct)
  case (2 u c cs seen ids t)
  then show ?case by (fastforce split: prod.splits)
qed simp

lemma delete_children_skip:
  "A \<subseteq> seen \<Longrightarrow> delete_children u (filter (\<lambda>c. fo_id c \<notin> A) cs) seen ids t = delete_children u cs seen ids t"
proof (induction cs arbitrary: seen ids t)
  case (Cons c cs)
  show ?case
  proof (cases "fo_id c \<in> seen")
    case True
    with Cons show ?thesis by auto
  next
    case False
    obtain seen' ids' t' where r: "delete_children u (get_folders_by_parent_id_and_user_id (Some (fo_id c)) u t)
        (insert (fo_id c) seen) ids t = (seen', ids', t')" by (metis prod_cases3)
    have "insert (fo_id c) seen \<subseteq> seen'"
      using delete_children_grows [of "insert (fo_id c) seen" u _ ids t] r by (metis fst_conv)
    with False Cons r show ?thesis by auto
  qed
qed simp

lemma children_sql_delete:
  "get_folders_by_parent_id_and_user_id p u (sql_delete (\<lambda>f. fo_id f \<in> D) t) =
     filter (\<lambda>f. fo_id f \<notin> D) (get_folders_by_parent_id_and_user_id p u t)"
  by (simp add: get_folders_by_parent_id_and_user_id_def sql_delete_def sql_desc_def filter_sort conj_commute)

text \<open>The deletion visits what the collection visits, although it reads a shrinking table.\<close>

lemma delete_children_refines:
  "D \<subseteq> seen \<Longrightarrow> get_children u t cs seen fs = (seen', fs @ new) \<Longrightarrow>
     delete_children u cs seen ids (sql_delete (\<lambda>f. fo_id f \<in> D) t) =
       (seen', ids @ map fo_id new, sql_delete (\<lambda>f. fo_id f \<in> D \<union> folder_ids new) t)"
proof (induction u t cs seen fs arbitrary: D ids seen' new rule: get_children.induct)
  case (1 u t seen fs)
  then show ?case by simp
next
  case (2 u t c cs seen fs)
  show ?case
  proof (cases "fo_id c \<in> seen")
    case True
    with 2 show ?thesis by simp
  next
    case False
    let ?sub = "get_folders_by_parent_id_and_user_id (Some (fo_id c)) u t"
    obtain new1 where new1: "get_children u t ?sub (insert (fo_id c) seen) fs =
        (insert (fo_id c) seen \<union> folder_ids new1, fs @ new1)"
      using get_children_collects by blast
    let ?seen1 = "insert (fo_id c) seen \<union> folder_ids new1"
    obtain new2 where new2: "get_children u t cs ?seen1 ((fs @ new1) @ [c]) =
        (?seen1 \<union> folder_ids new2, ((fs @ new1) @ [c]) @ new2)"
      using get_children_collects by blast
    have r: "seen' = ?seen1 \<union> folder_ids new2" "new = new1 @ c # new2"
      using "2.prems"(2) False new1 new2 by auto
    have sub: "delete_children u (get_folders_by_parent_id_and_user_id (Some (fo_id c)) u (sql_delete (\<lambda>f. fo_id f \<in> D) t))
        (insert (fo_id c) seen) ids (sql_delete (\<lambda>f. fo_id f \<in> D) t) =
        (?seen1, ids @ map fo_id new1, sql_delete (\<lambda>f. fo_id f \<in> D \<union> folder_ids new1) t)"
      unfolding children_sql_delete
      using "2.IH"(2) [OF False _ new1, of D ids] "2.prems"(1) delete_children_skip [of D "insert (fo_id c) seen"]
      by (simp add: subset_insertI2)
    have del: "sql_delete (\<lambda>f. fo_id f = fo_id c) (sql_delete (\<lambda>f. fo_id f \<in> D \<union> folder_ids new1) t) =
        sql_delete (\<lambda>f. fo_id f \<in> insert (fo_id c) (D \<union> folder_ids new1)) t"
      by (auto simp: sql_delete_def intro!: filter_cong)
    have "delete_children u cs ?seen1 ((ids @ map fo_id new1) @ [fo_id c])
        (sql_delete (\<lambda>f. fo_id f \<in> insert (fo_id c) (D \<union> folder_ids new1)) t) =
        (?seen1 \<union> folder_ids new2, ((ids @ map fo_id new1) @ [fo_id c]) @ map fo_id new2,
         sql_delete (\<lambda>f. fo_id f \<in> insert (fo_id c) (D \<union> folder_ids new1) \<union> folder_ids new2) t)"
      by (rule "2.IH"(3) [OF False new1 [symmetric] _ new2]) (use "2.prems"(1) in auto)
    moreover have "insert (fo_id c) (D \<union> folder_ids new1) \<union> folder_ids new2 = D \<union> folder_ids new"
      by (auto simp: r)
    ultimately show ?thesis using False sub del by (simp add: r)
  qed
qed

subsection \<open>The access walk\<close>

definition folder_link :: "folder_row list \<Rightarrow> string \<Rightarrow> string option" where
  "folder_link t k = (case get_folder_by_id k t of None \<Rightarrow> None | Some f \<Rightarrow> next_parent f)"

definition folder_verdict :: "(folder_row \<Rightarrow> bool) \<Rightarrow> folder_row list \<Rightarrow> string \<Rightarrow> bool option" where
  "folder_verdict allowed t k =
     (case get_folder_by_id k t of
        None \<Rightarrow> Some False
      | Some f \<Rightarrow> if allowed f then Some True else None)"

definition folder_walk_by_id :: "(folder_row \<Rightarrow> bool) \<Rightarrow> folder_row list \<Rightarrow> string set \<Rightarrow> string \<Rightarrow> bool" where
  "folder_walk_by_id allowed t seen k =
     (case get_folder_by_id k t of
        None \<Rightarrow> False
      | Some f \<Rightarrow> folder_access_walk allowed t seen f)"

lemma get_folder_by_id_SomeD: "get_folder_by_id k t = Some f \<Longrightarrow> f \<in> set t \<and> fo_id f = k"
  by (auto simp: get_folder_by_id_def dest: find_SomeD)

lemma folder_access_seen: "fo_id f \<in> seen \<Longrightarrow> folder_access_walk allowed t seen f = False"
  by (subst folder_access_walk.simps) simp

lemma folder_access_open:
  "fo_id f \<notin> seen \<Longrightarrow> folder_access_walk allowed t seen f =
     (allowed f \<or> (case next_parent f of
        None \<Rightarrow> False
      | Some p \<Rightarrow> folder_walk_by_id allowed t (insert (fo_id f) seen) p))"
  by (subst folder_access_walk.simps) (simp add: folder_walk_by_id_def split: option.split)

lemma folder_walk_seen: "k \<in> seen \<Longrightarrow> folder_walk_by_id allowed t seen k = False"
  unfolding folder_walk_by_id_def
  by (auto simp: folder_access_seen dest: get_folder_by_id_SomeD split: option.split)

lemma folder_walk_open:
  assumes "k \<notin> seen"
  shows "folder_walk_by_id allowed t seen k =
     (case folder_verdict allowed t k of
        Some b \<Rightarrow> b
      | None \<Rightarrow> (case folder_link t k of
                  None \<Rightarrow> False
                | Some p \<Rightarrow> folder_walk_by_id allowed t (insert k seen) p))"
proof (cases "get_folder_by_id k t")
  case None
  then show ?thesis by (simp add: folder_verdict_def folder_walk_by_id_def)
next
  case (Some f)
  then have f: "fo_id f = k" by (auto dest: get_folder_by_id_SomeD)
  have "folder_walk_by_id allowed t seen k = folder_access_walk allowed t seen f"
    using Some by (simp add: folder_walk_by_id_def)
  with Some f assms folder_access_open [of f seen allowed t] show ?thesis
    by (simp add: folder_verdict_def folder_link_def split: option.split)
qed

interpretation folders: verdict_walk
  "folder_verdict allowed t" "folder_link t" False "folder_walk_by_id allowed t"
  for allowed t
proof
  have "{k. folder_verdict allowed t k = None} \<subseteq> folder_ids t"
    by (auto simp: folder_verdict_def dest: get_folder_by_id_SomeD split: option.splits if_splits)
  then show "finite {k. folder_verdict allowed t k = None}" by (rule finite_subset) simp
qed (simp_all add: folder_walk_seen folder_walk_open)

lemma folder_access_walk_iff:
  assumes "get_folder_by_id (fo_id f) t = Some f"
  shows "folder_access_walk allowed t {} f \<longleftrightarrow>
    (\<exists>k a. (\<lambda>x y. folder_link t x = Some y)\<^sup>*\<^sup>* (fo_id f) k \<and> get_folder_by_id k t = Some a \<and> allowed a)"
proof -
  have "folder_access_walk allowed t {} f = folder_walk_by_id allowed t {} (fo_id f)"
    using assms by (simp add: folder_walk_by_id_def)
  moreover have "folder_walk_by_id allowed t {} (fo_id f) = True \<longleftrightarrow>
      (\<exists>k. (\<lambda>x y. folder_link t x = Some y)\<^sup>*\<^sup>* (fo_id f) k \<and> folder_verdict allowed t k = Some True)"
    by (rule folders.walk_iff_links) (auto simp: folder_verdict_def folder_link_def split: option.splits if_splits)
  moreover have "folder_verdict allowed t k = Some True \<longleftrightarrow> (\<exists>a. get_folder_by_id k t = Some a \<and> allowed a)" for k
    by (auto simp: folder_verdict_def split: option.split)
  ultimately show ?thesis by auto
qed

subsection \<open>The unread walk\<close>

function unread_chain :: "(string \<times> string option) list \<Rightarrow> string set \<Rightarrow> string \<Rightarrow> string list" where
  "unread_chain parents seen k =
     (if k \<in> seen \<or> k = [] \<or> map_of parents k = None then []
      else k # (case the (map_of parents k) of None \<Rightarrow> [] | Some p \<Rightarrow> unread_chain parents (insert k seen) p))"
  by pat_completeness auto
termination
proof (relation "measure (\<lambda>(parents, seen, k). card (fst ` set parents - seen))", goal_cases)
  case (2 parents seen k p)
  have "k \<in> fst ` set parents" using 2(1) by (auto simp: map_of_eq_None_iff)
  then have "card (fst ` set parents - insert k seen) < card (fst ` set parents - seen)"
    by (rule card_insert_seen) (use 2 in auto)
  then show ?case by simp
qed simp

declare unread_chain.simps [simp del]

definition parent_link :: "(string \<times> string option) list \<Rightarrow> string \<Rightarrow> string option" where
  "parent_link parents k = (case map_of parents k of None \<Rightarrow> None | Some p \<Rightarrow> p)"

interpretation unread: list_walk "\<lambda>k. k \<noteq> [] \<and> map_of parents k \<noteq> None" "parent_link parents" "unread_chain parents"
  for parents
proof
  have "{k. k \<noteq> [] \<and> map_of parents k \<noteq> None} \<subseteq> fst ` set parents"
    by (auto simp: map_of_eq_None_iff)
  then show "finite {k. k \<noteq> [] \<and> map_of parents k \<noteq> None}" by (rule finite_subset) simp
next
  fix k :: string and seen
  show "k \<in> seen \<or> \<not> (k \<noteq> [] \<and> map_of parents k \<noteq> None) \<Longrightarrow> unread_chain parents seen k = []"
    by (subst unread_chain.simps) auto
next
  fix k :: string and seen
  assume "k \<notin> seen" "k \<noteq> [] \<and> map_of parents k \<noteq> None"
  then show "unread_chain parents seen k =
      k # (case parent_link parents k of None \<Rightarrow> [] | Some k' \<Rightarrow> unread_chain parents (insert k seen) k')"
    by (subst unread_chain.simps) (auto simp: parent_link_def)
qed

lemma unread_loop_adds:
  "\<forall>k. dhas counts k \<longleftrightarrow> map_of parents k \<noteq> None \<Longrightarrow>
     map_of (unread_loop parents n seen c counts) x =
       map_option (\<lambda>m. if (\<exists>k. c = Some k \<and> x \<in> set (unread_chain parents seen k)) then m + n else m)
         (map_of counts x)"
proof (induction parents n seen c counts rule: unread_loop.induct)
  case (1 parents n seen c counts)
  show ?case
  proof (cases c)
    case None
    then show ?thesis by (subst unread_loop.simps) (simp add: option.map_ident)
  next
    case (Some k)
    show ?thesis
    proof (cases "k = [] \<or> k \<in> seen")
      case True
      then show ?thesis using Some
        by (subst unread_loop.simps) (auto simp: unread.walk_stop option.map_ident)
    next
      case False
      show ?thesis
      proof (cases "map_of parents k")
        case None
        with "1.prems" have "\<not> dhas counts k" by simp
        with None False Some show ?thesis
          by (subst unread_loop.simps) (auto simp: unread.walk_stop option.map_ident Let_def)
      next
        case p: (Some p)
        let ?counts = "dset k (dget_or counts k 0 + n) counts"
        have k: "dhas counts k" using "1.prems" p by simp
        have chain: "unread_chain parents seen k =
            k # (case p of None \<Rightarrow> [] | Some k' \<Rightarrow> unread_chain parents (insert k seen) k')"
          using False p unread.walk_step [of k seen parents] by (simp add: parent_link_def)
        have "map_of (unread_loop parents n (insert k seen) p ?counts) x =
            map_option (\<lambda>m. if (\<exists>k'. p = Some k' \<and> x \<in> set (unread_chain parents (insert k seen) k')) then m + n else m)
              (map_of ?counts x)"
          using "1.IH" [OF Some False refl p] k "1.prems" by auto
        moreover have "unread_loop parents n seen c counts = unread_loop parents n (insert k seen) p ?counts"
          using Some False k p by (subst unread_loop.simps) (simp add: Let_def)
        moreover have "k \<notin> set (unread_chain parents (insert k seen) k')" for k'
          using unread.walk_distinct [of parents "insert k seen" k'] by blast
        ultimately show ?thesis
          using Some k chain by (cases p) (auto simp: map_of_dset dget_or_def dhas_def option.map_ident)
      qed
    qed
  qed
qed

lemma unread_loop_keys:
  "\<forall>k. dhas counts k \<longleftrightarrow> map_of parents k \<noteq> None \<Longrightarrow> dhas (unread_loop parents n seen c counts) k = dhas counts k"
  using unread_loop_adds [of counts parents n seen c k] by (simp add: dhas_def)

lemma unread_fold:
  assumes "\<forall>k. dhas counts k \<longleftrightarrow> map_of parents k \<noteq> None" "dhas counts x"
  shows "dget_or (fold (\<lambda>(k, n). unread_loop parents n {} (Some k)) direct counts) x 0 =
    dget_or counts x 0 + sum_list (map (\<lambda>(k, n). if x \<in> set (unread_chain parents {} k) then n else 0) direct)"
  using assms
proof (induction direct arbitrary: counts)
  case (Cons d direct)
  obtain k n where d: "d = (k, n)" by (cases d)
  let ?counts = "unread_loop parents n {} (Some k) counts"
  have "dget_or ?counts x 0 = dget_or counts x 0 + (if x \<in> set (unread_chain parents {} k) then n else 0)"
    using unread_loop_adds [OF Cons.prems(1), of n "{}" "Some k" x] Cons.prems(2)
    by (auto simp: dget_or_def dhas_def)
  with Cons.IH [of ?counts] Cons.prems d show ?case by (simp add: unread_loop_keys)
qed simp

lemma fold_dset_map_of:
  "distinct (map h fs) \<Longrightarrow> h ` set fs \<inter> fst ` set d = {} \<Longrightarrow>
     fold (\<lambda>f. dset (h f) (v f)) fs d = d @ map (\<lambda>f. (h f, v f)) fs"
proof (induction fs arbitrary: d)
  case (Cons f fs)
  have "dset (h f) (v f) d = d @ [(h f, v f)]"
    using Cons.prems by (intro dset_new) auto
  with Cons show ?case by auto
qed simp

lemma unread_parents:
  assumes "folders_ok t"
    and parents_def: "parents = fold (\<lambda>f. dset (fo_id f) (fo_parent_id f)) (get_folders_by_user_id u t) []"
  shows "parents = map (\<lambda>f. (fo_id f, fo_parent_id f)) (get_folders_by_user_id u t)"
    and "map_of parents k = Some p \<longleftrightarrow> (\<exists>f \<in> set t. fo_id f = k \<and> fo_user_id f = u \<and> fo_parent_id f = p)"
proof -
  have d: "distinct (map fo_id (get_folders_by_user_id u t))"
    using assms(1) by (simp add: folders_ok_def get_folders_by_user_id_def distinct_map_filter)
  show eq: "parents = map (\<lambda>f. (fo_id f, fo_parent_id f)) (get_folders_by_user_id u t)"
    unfolding parents_def using fold_dset_map_of [OF d, of "[]" fo_parent_id] by simp
  have "distinct (map fst parents)" using d by (simp add: eq comp_def)
  then have "map_of parents k = Some p \<longleftrightarrow> (k, p) \<in> set parents" by (rule map_of_eq_Some_iff)
  then show "map_of parents k = Some p \<longleftrightarrow> (\<exists>f \<in> set t. fo_id f = k \<and> fo_user_id f = u \<and> fo_parent_id f = p)"
    by (auto simp: eq get_folders_by_user_id_def image_iff)
qed

lemma unread_chain_iff:
  assumes "folders_ok t" "f \<in> set t" "fo_user_id f = u" "[] \<notin> folder_ids t"
    and parents_def: "parents = fold (\<lambda>f. dset (fo_id f) (fo_parent_id f)) (get_folders_by_user_id u t) []"
  shows "fo_id f \<in> set (unread_chain parents {} k) \<longleftrightarrow> (owned_edge u t)\<^sup>*\<^sup>* (fo_id f) k"
proof -
  let ?E = "\<lambda>x y. parent_link parents x = Some y \<and> y \<noteq> [] \<and> map_of parents y \<noteq> None"
  have own: "map_of parents x \<noteq> None \<longleftrightarrow> (\<exists>g \<in> set t. fo_id g = x \<and> fo_user_id g = u)" for x
    using unread_parents(2) [OF assms(1) parents_def, of x] by (auto simp: not_None_eq)
  have ne: "x \<noteq> []" if "map_of parents x \<noteq> None" for x
    using that assms(4) unfolding own by (metis image_eqI list.set_map)
  have link: "?E y x \<longleftrightarrow> owned_edge u t x y \<and> map_of parents x \<noteq> None" for x y
    using unread_parents(2) [OF assms(1) parents_def, of y "Some x"] ne [of x]
    unfolding parent_link_def owned_edge_def by (auto split: option.splits)
  have down: "?E\<^sup>*\<^sup>* k x \<longleftrightarrow> (owned_edge u t)\<^sup>*\<^sup>* x k" if "map_of parents x \<noteq> None" for x
  proof
    assume "?E\<^sup>*\<^sup>* k x"
    then show "(owned_edge u t)\<^sup>*\<^sup>* x k"
    proof (induction rule: rtranclp_induct)
      case (step y z)
      have "owned_edge u t z y" using step.hyps(2) by (simp only: link)
      then show ?case using step.IH by (rule converse_rtranclp_into_rtranclp)
    qed simp
  next
    assume "(owned_edge u t)\<^sup>*\<^sup>* x k"
    then show "?E\<^sup>*\<^sup>* k x" using that
    proof (induction rule: converse_rtranclp_induct)
      case (step x z)
      have "map_of parents z \<noteq> None" using step.hyps(1) unfolding own owned_edge_def by blast
      then have "?E\<^sup>*\<^sup>* k z" by (rule step.IH)
      moreover have "?E z x" using step.hyps(1) step.prems unfolding link by blast
      ultimately show ?case by (rule rtranclp.rtrancl_into_rtrancl)
    qed simp
  qed
  have f: "map_of parents (fo_id f) \<noteq> None" using assms(2,3) own by blast
  show ?thesis
  proof (cases "k \<noteq> [] \<and> map_of parents k \<noteq> None")
    case True
    then show ?thesis using unread.walk_set [OF True] down [OF f] by simp
  next
    case False
    then have "unread_chain parents {} k = []" by (simp add: unread.walk_stop)
    moreover have "k \<noteq> [] \<and> map_of parents k \<noteq> None" if "(owned_edge u t)\<^sup>*\<^sup>* (fo_id f) k"
    proof -
      from that have "map_of parents k \<noteq> None"
      proof (cases rule: rtranclp.cases)
        case (rtrancl_into_rtrancl b)
        then show ?thesis unfolding own owned_edge_def by blast
      qed (use f in simp)
      with ne show ?thesis by blast
    qed
    ultimately show ?thesis using False by auto
  qed
qed

subsection \<open>Properties\<close>

text \<open>C4. Deleting a folder removes exactly the rows the owner has at or below it, in a table where
  parent links may form loops; the identifiers returned are those rows, each once, and they are the
  identifiers the subtree query returns.\<close>

theorem delete_folder_removes_subtree:
  assumes "get_folder_by_id_and_user_id i u t = Some f"
    and "delete_folder_by_id_and_user_id i u t = (t', ids)"
  shows "set ids = {x. (owned_edge u t)\<^sup>*\<^sup>* i x} \<and> distinct ids \<and>
    t' = sql_delete (\<lambda>f. fo_id f \<in> set ids) t \<and>
    get_folder_ids_by_id_and_user_id_in_subtree i u t = set ids"
proof -
  have f: "find (owned_row i u) t = Some f" "fo_id f = i"
    using assms(1) by (auto simp: get_folder_by_id_and_user_id_def owned_row_def dest: find_SomeD)
  obtain new where new: "get_children u t (get_folders_by_parent_id_and_user_id (Some i) u t) {i} [] =
      (insert i (folder_ids new), new)"
    "distinct (i # map fo_id new)" "insert i (folder_ids new) = {x. (owned_edge u t)\<^sup>*\<^sup>* i x}"
    by (rule get_children_root)
  have "delete_children u (get_folders_by_parent_id_and_user_id (Some i) u t) {i} [i]
      (sql_delete (\<lambda>f. fo_id f \<in> {}) t) =
      (insert i (folder_ids new), [i] @ map fo_id new, sql_delete (\<lambda>f. fo_id f \<in> {} \<union> folder_ids new) t)"
    by (rule delete_children_refines [where fs = "[]"]) (use new(1) in simp_all)
  then have "delete_children u (get_folders_by_parent_id_and_user_id (Some i) u t) {i} [i] t =
      (insert i (folder_ids new), i # map fo_id new, sql_delete (\<lambda>f. fo_id f \<in> folder_ids new) t)"
    by (simp add: sql_delete_def)
  then have ids: "ids = i # map fo_id new" and
    t': "t' = sql_delete (\<lambda>f. fo_id f = i) (sql_delete (\<lambda>f. fo_id f \<in> folder_ids new) t)"
    using assms(2) f by (auto simp: delete_folder_by_id_and_user_id_def)
  have "t' = sql_delete (\<lambda>f. fo_id f \<in> set ids) t"
    unfolding t' ids by (auto simp: sql_delete_def intro!: filter_cong)
  moreover have "set ids = {x. (owned_edge u t)\<^sup>*\<^sup>* i x}" "distinct ids"
    using new(2,3) ids by simp_all
  moreover from this have "get_folder_ids_by_id_and_user_id_in_subtree i u t = set ids"
    using f by (simp add: get_folder_ids_by_id_and_user_id_in_subtree_def) (rule subtree_loop_reach; simp)
  ultimately show ?thesis by blast
qed

definition sample_folder :: "string \<Rightarrow> string option \<Rightarrow> string \<Rightarrow> folder_row" where
  "sample_folder i p u =
     \<lparr>fo_id = i, fo_parent_id = p, fo_user_id = u, fo_name = i, fo_data = None, fo_meta = None,
      fo_is_expanded = False, fo_created_at = 0, fo_updated_at = 0\<rparr>"

definition sample_folders :: "folder_row list" where
  "sample_folders =
     [sample_folder ''a'' (Some ''c'') ''u1'', sample_folder ''b'' (Some ''a'') ''u1'',
      sample_folder ''c'' (Some ''b'') ''u1'', sample_folder ''d'' (Some ''b'') ''u2'',
      sample_folder ''e'' (Some ''d'') ''u2'']"

theorem delete_folder_removes_subtree_witness:
  "set (snd (delete_folder_by_id_and_user_id ''b'' ''u1'' sample_folders)) =
     get_folder_ids_by_id_and_user_id_in_subtree ''b'' ''u1'' sample_folders \<and>
   map fo_id (fst (delete_folder_by_id_and_user_id ''b'' ''u1'' sample_folders)) = [''d'', ''e'']"
proof -
  have h: "get_folder_by_id_and_user_id ''b'' ''u1'' sample_folders = Some (sample_folder ''b'' (Some ''a'') ''u1'')"
    "delete_folder_by_id_and_user_id ''b'' ''u1'' sample_folders =
       (drop 3 sample_folders, [''b'', ''a'', ''c''])" by code_simp+
  from delete_folder_removes_subtree [OF h] h(2) show ?thesis
    by (simp add: sample_folders_def sample_folder_def)
qed

text \<open>A user has access to a stored folder exactly when the user owns, or holds a grant on, the folder
  or one of its ancestors; the walk returns on parent loops.\<close>

lemma folder_access_is_inherited:
  assumes "get_folder_by_id (fo_id f) t = Some f"
  shows "has_folder_access u f perm db grants t \<longleftrightarrow>
    (\<exists>k a. (\<lambda>x y. folder_link t x = Some y)\<^sup>*\<^sup>* (fo_id f) k \<and> get_folder_by_id k t = Some a \<and>
       (fo_user_id a = u \<or> has_access u ''folder'' k perm None db grants))"
  unfolding has_folder_access_def folder_access_walk_iff [OF assms]
  by (auto simp: folder_allowed_def dest: get_folder_by_id_SomeD)

theorem folder_access_is_inherited_witness:
  "(\<exists>k a. (\<lambda>x y. folder_link sample_folders x = Some y)\<^sup>*\<^sup>* ''e'' k \<and> get_folder_by_id k sample_folders = Some a \<and>
      (fo_user_id a = ''u1'' \<or> has_access ''u1'' ''folder'' k ''read'' None sample_group_db [])) \<and>
   \<not> (\<exists>k a. (\<lambda>x y. folder_link sample_folders x = Some y)\<^sup>*\<^sup>* ''a'' k \<and> get_folder_by_id k sample_folders = Some a \<and>
      (fo_user_id a = ''u2'' \<or> has_access ''u2'' ''folder'' k ''read'' None sample_group_db []))"
proof -
  have e: "get_folder_by_id (fo_id (sample_folders ! 4)) sample_folders = Some (sample_folders ! 4)"
    "has_folder_access ''u1'' (sample_folders ! 4) ''read'' sample_group_db [] sample_folders"
    "fo_id (sample_folders ! 4) = ''e''" by code_simp+
  have a: "get_folder_by_id (fo_id (sample_folders ! 0)) sample_folders = Some (sample_folders ! 0)"
    "\<not> has_folder_access ''u2'' (sample_folders ! 0) ''read'' sample_group_db [] sample_folders"
    "fo_id (sample_folders ! 0) = ''a''" by code_simp+
  show ?thesis
    using folder_access_is_inherited [OF e(1), of "''u1''" "''read''" sample_group_db "[]"] e(2,3)
      folder_access_is_inherited [OF a(1), of "''u2''" "''read''" sample_group_db "[]"] a(2,3)
    by simp
qed

text \<open>The unread count of a folder is the number of unread chats in the subtree the user owns below it,
  the folder included; a parent loop adds nothing twice.\<close>

lemma unread_counts_sum_subtrees:
  assumes "folders_ok t" "[] \<notin> folder_ids t" "f \<in> set t" "fo_user_id f = u"
  shows "dget_or (get_folder_unread_counts u direct t) (fo_id f) 0 =
    sum_list (map (\<lambda>(k, n). if (owned_edge u t)\<^sup>*\<^sup>* (fo_id f) k then n else 0) direct)"
proof -
  define parents where "parents = fold (\<lambda>f. dset (fo_id f) (fo_parent_id f)) (get_folders_by_user_id u t) []"
  let ?zero = "map (\<lambda>(k, _). (k, 0 :: nat)) parents"
  have keys: "fst ` set ?zero = fst ` set parents" by force
  have inv: "\<forall>k. dhas ?zero k \<longleftrightarrow> map_of parents k \<noteq> None"
    using keys by (simp add: dhas_iff map_of_eq_None_iff)
  have f: "map_of parents (fo_id f) \<noteq> None"
    using unread_parents(2) [OF assms(1) parents_def, of "fo_id f" "fo_parent_id f"] assms(3,4) by auto
  then have "dhas ?zero (fo_id f)" using inv by blast
  moreover have "dget_or ?zero k 0 = 0" for k
    by (auto simp: dget_or_def dest: map_of_SomeD split: option.split)
  ultimately have "dget_or (get_folder_unread_counts u direct t) (fo_id f) 0 =
      sum_list (map (\<lambda>(k, n). if fo_id f \<in> set (unread_chain parents {} k) then n else 0) direct)"
    using unread_fold [OF inv] by (simp add: get_folder_unread_counts_def Let_def flip: parents_def)
  then show ?thesis
    by (simp add: unread_chain_iff [OF assms(1,3,4,2) parents_def])
qed

theorem unread_counts_sum_subtrees_witness:
  "dget_or (get_folder_unread_counts ''u1'' [(''a'', 2), (''b'', 5), (''e'', 9)] sample_folders) ''c'' 0 = 7 \<and>
   dget_or (get_folder_unread_counts ''u2'' [(''e'', 9)] sample_folders) ''d'' 0 = 9"
proof -
  have ok: "folders_ok sample_folders" "[] \<notin> folder_ids sample_folders"
    "sample_folder ''d'' (Some ''b'') ''u2'' \<in> set sample_folders"
    "fo_user_id (sample_folder ''d'' (Some ''b'') ''u2'') = ''u2''" by code_simp+
  have "owned_edge ''u2'' sample_folders ''d'' ''e''" by (simp add: owned_edge_def sample_folders_def sample_folder_def)
  then have "(owned_edge ''u2'' sample_folders)\<^sup>*\<^sup>* ''d'' ''e''" by (rule r_into_rtranclp)
  with unread_counts_sum_subtrees [OF ok, of "[(''e'', 9)]"]
  have "dget_or (get_folder_unread_counts ''u2'' [(''e'', 9)] sample_folders) ''d'' 0 = 9"
    by (simp add: sample_folder_def)
  moreover have "dget_or (get_folder_unread_counts ''u1'' [(''a'', 2), (''b'', 5), (''e'', 9)] sample_folders) ''c'' 0 = 7"
    by code_simp
  ultimately show ?thesis by simp
qed

lemma shared_permissions_fold:
  assumes "\<forall>g \<in> set gs. ag_permission g \<in> {''read'', ''write''}"
  shows "map_of (fold (\<lambda>g m. if map_of m (ag_resource_id g) \<noteq> Some ''write''
                       then dset (ag_resource_id g) (ag_permission g) m else m) gs []) fid =
     (if \<exists>g \<in> set gs. ag_resource_id g = fid \<and> ag_permission g = ''write'' then Some ''write''
      else if \<exists>g \<in> set gs. ag_resource_id g = fid then Some ''read'' else None)"
  using assms
proof (induction gs rule: rev_induct)
  case (snoc g gs)
  define m where "m = fold (\<lambda>g m. if map_of m (ag_resource_id g) \<noteq> Some ''write''
      then dset (ag_resource_id g) (ag_permission g) m else m) gs []"
  have IH: "map_of m fid =
     (if \<exists>g \<in> set gs. ag_resource_id g = fid \<and> ag_permission g = ''write'' then Some ''write''
      else if \<exists>g \<in> set gs. ag_resource_id g = fid then Some ''read'' else None)"
    using snoc unfolding m_def by simp
  have step: "fold (\<lambda>g m. if map_of m (ag_resource_id g) \<noteq> Some ''write''
      then dset (ag_resource_id g) (ag_permission g) m else m) (gs @ [g]) [] =
      (if map_of m (ag_resource_id g) \<noteq> Some ''write'' then dset (ag_resource_id g) (ag_permission g) m else m)"
    by (simp add: m_def)
  show ?case unfolding step
  proof (cases "ag_resource_id g = fid")
    case True
    have "ag_permission g = ''read'' \<or> ag_permission g = ''write''" using snoc.prems by simp
    then show "map_of (if map_of m (ag_resource_id g) \<noteq> Some ''write''
        then dset (ag_resource_id g) (ag_permission g) m else m) fid =
      (if \<exists>g \<in> set (gs @ [g]). ag_resource_id g = fid \<and> ag_permission g = ''write'' then Some ''write''
       else if \<exists>g \<in> set (gs @ [g]). ag_resource_id g = fid then Some ''read'' else None)"
      using IH True by (elim disjE) (simp_all add: map_of_dset)
  next
    case False
    then show "map_of (if map_of m (ag_resource_id g) \<noteq> Some ''write''
        then dset (ag_resource_id g) (ag_permission g) m else m) fid =
      (if \<exists>g \<in> set (gs @ [g]). ag_resource_id g = fid \<and> ag_permission g = ''write'' then Some ''write''
       else if \<exists>g \<in> set (gs @ [g]). ag_resource_id g = fid then Some ''read'' else None)"
      using IH by (simp add: map_of_dset)
  qed
qed simp

text \<open>The permission listed for a shared folder is the highest one the grants give the user: write
  when the write check succeeds, otherwise read when the read check does, and no entry otherwise.\<close>

lemma shared_folder_permission_is_highest:
  assumes "\<forall>g \<in> set grants. ag_permission g \<in> {''read'', ''write''}"
  shows "map_of (get_shared_folder_ids_for_user u gids grants) fid =
    (if has_access u ''folder'' fid ''write'' (Some gids) db grants then Some ''write''
     else if has_access u ''folder'' fid ''read'' (Some gids) db grants then Some ''read'' else None)"
proof -
  let ?gs = "filter (\<lambda>g. ag_resource_type g = ''folder'' \<and> list_ex (\<lambda>c. c g) (principal_conditions u gids)) grants"
  have "has_access u ''folder'' fid p (Some gids) db grants \<longleftrightarrow>
      (\<exists>g \<in> set ?gs. ag_resource_id g = fid \<and> ag_permission g = p)" for p
    by (auto simp: has_access_iff on_resource_def member_group_ids_def principal_conditions_covers)
  moreover have "(\<exists>g \<in> set ?gs. ag_resource_id g = fid) \<longleftrightarrow>
      (\<exists>g \<in> set ?gs. ag_resource_id g = fid \<and> ag_permission g = ''write'') \<or>
      (\<exists>g \<in> set ?gs. ag_resource_id g = fid \<and> ag_permission g = ''read'')"
    using assms by auto
  ultimately show ?thesis
    unfolding get_shared_folder_ids_for_user_def Let_def
    by (subst shared_permissions_fold) (use assms in auto)
qed

theorem shared_folder_permission_is_highest_witness:
  "map_of (get_shared_folder_ids_for_user ''u1'' [''g2'']
     [new_grant ''a'' ''folder'' ''f'' ''user'' ''u1'' ''write'' 1,
      new_grant ''b'' ''folder'' ''f'' ''group'' ''g2'' ''read'' 2]) ''f'' = Some ''write''"
  by (subst shared_folder_permission_is_highest [where db = sample_group_db])
    (simp_all add: has_access_iff on_resource_def covers_def)

end
