(* ===== verification/File_Access.thy ===== *)
theory File_Access
  imports Folders
begin

section \<open>Access to files\<close>

text \<open>
  Models \<open>utils/access_control/files.py\<close> with the queries it makes: the knowledge bases that link a file
  (\<open>models/knowledge.py\<close>), the channels that carry it (\<open>models/channels.py\<close>), the shared chats it
  appears in (\<open>models/chats.py\<close>) and the workspace models that attach it (\<open>models/models.py\<close>).

  A file may be reached through objects of several kinds. Reading needs access to any of them; writing needs
  write access to a knowledge base or model whose owner also owns the file, so that nobody gains write
  access to a file by attaching it to an object of their own.

  The text match of \<open>get_model_owners_attaching_file\<close> on the serialised column only preselects rows; the
  exact test that follows it is the one modelled.
\<close>

subsection \<open>Rows and queries\<close>

record file_row =
  fi_id :: string
  fi_user_id :: string
  fi_meta :: "pydict option"

record owned_object =
  oo_id :: string
  oo_user_id :: string

record channel_row =
  cn_id :: string
  cn_user_id :: string
  cn_type :: "string option"
  cn_deleted :: bool
  cn_archived :: bool

record channel_member_row =
  cm_channel_id :: string
  cm_user_id :: string
  cm_is_active :: bool

record chat_row =
  ct_id :: string
  ct_share_id :: "string option"

record workspace_model_row = model_row +
  wm_meta :: pydict

record file_db =
  fdb_files :: "file_row list"
  fdb_knowledge :: "owned_object list"
  fdb_knowledge_files :: "(string \<times> string) list"
  fdb_channels :: "channel_row list"
  fdb_channel_files :: "(string \<times> string) list"
  fdb_channel_members :: "channel_member_row list"
  fdb_chats :: "chat_row list"
  fdb_chat_files :: "(string \<times> string) list"
  fdb_models :: "workspace_model_row list"
  fdb_notes :: "owned_object list"
  fdb_grants :: "access_grant list"
  fdb_groups :: group_db

definition get_file_by_id :: "pyval \<Rightarrow> file_db \<Rightarrow> file_row option" where
  "get_file_by_id i db = (case i of PStr s \<Rightarrow> find (\<lambda>f. fi_id f = s) (fdb_files db) | _ \<Rightarrow> None)"

definition get_knowledge_by_id :: "pyval \<Rightarrow> file_db \<Rightarrow> owned_object option" where
  "get_knowledge_by_id i db = (case i of PStr s \<Rightarrow> find (\<lambda>k. oo_id k = s) (fdb_knowledge db) | _ \<Rightarrow> None)"

definition get_knowledges_by_file_id :: "string \<Rightarrow> file_db \<Rightarrow> owned_object list" where
  "get_knowledges_by_file_id file_id db =
     concat (map (\<lambda>k. map (\<lambda>_. k) (filter (\<lambda>(kid, fid). kid = oo_id k \<and> fid = file_id) (fdb_knowledge_files db)))
               (fdb_knowledge db))"

definition check_knowledge_access :: "pyval \<Rightarrow> string \<Rightarrow> string \<Rightarrow> string list option \<Rightarrow> file_db \<Rightarrow> bool" where
  "check_knowledge_access i user_id permission user_group_ids db =
     (case get_knowledge_by_id i db of
        None \<Rightarrow> False
      | Some knowledge \<Rightarrow>
          oo_user_id knowledge = user_id \<or>
          has_access user_id ''knowledge'' (oo_id knowledge) permission
            (Some (member_group_ids user_group_ids user_id (fdb_groups db))) (fdb_groups db) (fdb_grants db))"

definition channel_document :: "channel_row \<Rightarrow> document" where
  "channel_document c = \<lparr>doc_id = cn_id c, doc_user_id = cn_user_id c\<rparr>"

definition channel_allows :: "string \<Rightarrow> string list \<Rightarrow> file_db \<Rightarrow> channel_row \<Rightarrow> bool" where
  "channel_allows user_id group_ids db c =
     (if cn_type c = Some ''group'' \<or> cn_type c = Some ''dm''
      then list_ex (\<lambda>m. cm_channel_id m = cn_id c \<and> cm_user_id m = user_id \<and> cm_is_active m) (fdb_channel_members db)
      else has_permission_filter \<lparr>af_group_ids = group_ids, af_user_id = Some user_id\<rparr> ''channel'' ''read''
             (fdb_grants db) (map channel_document (filter (\<lambda>c'. cn_id c' = cn_id c) (fdb_channels db))) \<noteq> [])"

definition get_channels_by_file_id_and_user_id :: "string \<Rightarrow> string \<Rightarrow> file_db \<Rightarrow> channel_row list" where
  "get_channels_by_file_id_and_user_id file_id user_id db =
     (let channel_ids = map fst (filter (\<lambda>(cid, fid). fid = file_id) (fdb_channel_files db));
          channels = filter (\<lambda>c. cn_id c \<in> set channel_ids \<and> \<not> cn_deleted c \<and> \<not> cn_archived c) (fdb_channels db);
          user_group_ids = map g_id (get_groups_by_member_id user_id (fdb_groups db))
      in filter (channel_allows user_id user_group_ids db) channels)"

definition get_shared_chat_ids_by_file_id :: "string \<Rightarrow> file_db \<Rightarrow> string list" where
  "get_shared_chat_ids_by_file_id file_id db =
     concat (map (\<lambda>c. map (\<lambda>_. ct_id c) (filter (\<lambda>(cid, fid). cid = ct_id c \<and> fid = file_id) (fdb_chat_files db)))
               (filter (\<lambda>c. ct_share_id c \<noteq> None) (fdb_chats db)))"

definition attaches_file :: "string \<Rightarrow> pyval \<Rightarrow> bool" where
  "attaches_file file_id item =
     (case item of PDict d \<Rightarrow> dget d ''type'' = PStr ''file'' \<and> dget d ''id'' = PStr file_id | _ \<Rightarrow> False)"

definition get_model_owners_attaching_file :: "string \<Rightarrow> file_db \<Rightarrow> (string \<times> string) list result" where
  "get_model_owners_attaching_file file_id db =
     rfold (\<lambda>m owners. rbind (py_iter (py_or (dget (wm_meta m) ''knowledge'') (PList []))) (\<lambda>items.
              Inr (if list_ex (attaches_file file_id) items then dset (m_id m) (m_user_id m) owners else owners)))
       (filter (\<lambda>m. m_base_model_id m \<noteq> None) (fdb_models db)) []"

subsection \<open>The check\<close>

definition knowledge_confers ::
    "string \<Rightarrow> string \<Rightarrow> string list \<Rightarrow> file_row \<Rightarrow> file_db \<Rightarrow> owned_object \<Rightarrow> bool"
where
  "knowledge_confers user_id access_type gids file db k =
     ((oo_user_id k = user_id \<or>
       has_access user_id ''knowledge'' (oo_id k) access_type (Some gids) (fdb_groups db) (fdb_grants db)) \<and>
      (access_type = ''read'' \<or> oo_user_id k = fi_user_id file))"

definition has_access_to_file ::
    "pyval \<Rightarrow> string \<Rightarrow> user_row \<Rightarrow> string list option \<Rightarrow> file_db \<Rightarrow> bool result"
where
  "has_access_to_file file_id access_type user user_group_ids db =
     (case get_file_by_id file_id db of
        None \<Rightarrow> Inr False
      | Some file \<Rightarrow>
          if fi_user_id file = u_id user then Inr True
          else (let gids = member_group_ids user_group_ids (u_id user) (fdb_groups db);
                    confers = knowledge_confers (u_id user) access_type gids file db;
                    knowledge_base_id = (case fi_meta file of
                        None \<Rightarrow> PNone | Some meta \<Rightarrow> if meta = [] then PNone else dget meta ''collection_name'')
                in if list_ex confers (get_knowledges_by_file_id (fi_id file) db) then Inr True
                   else if truthy knowledge_base_id \<and>
                           (case get_knowledge_by_id knowledge_base_id db of None \<Rightarrow> False | Some k \<Rightarrow> confers k)
                   then Inr True
                   else if access_type = ''read'' \<and> get_channels_by_file_id_and_user_id (fi_id file) (u_id user) db \<noteq> []
                   then Inr True
                   else if access_type = ''read'' \<and>
                           get_accessible_resource_ids (u_id user) ''shared_chat''
                             (get_shared_chat_ids_by_file_id (fi_id file) db) ''read'' (Some gids)
                             (fdb_groups db) (fdb_grants db) \<noteq> []
                   then Inr True
                   else rbind (get_model_owners_attaching_file (fi_id file) db) (\<lambda>owners.
                     let model_owners = (if access_type \<noteq> ''read''
                                         then filter (\<lambda>(m, owner). owner = fi_user_id file) owners else owners)
                     in if u_id user \<in> set (map snd model_owners) then Inr True
                        else Inr (get_accessible_resource_ids (u_id user) ''model'' (map fst model_owners) access_type
                                    (Some gids) (fdb_groups db) (fdb_grants db) \<noteq> []))))"

subsection \<open>The files of a folder\<close>

definition folder_entry :: "pyval \<Rightarrow> bool result" where
  "folder_entry entry =
     (case entry of
        PDict d \<Rightarrow>
          if \<not> hashable (dget d ''type'') then Inl TypeError
          else Inr (dget d ''type'' \<in> {PStr ''file'', PStr ''collection'', PStr ''note''} \<and> truthy (dget d ''id''))
      | _ \<Rightarrow> Inr False)"

fun rfilter :: "('a \<Rightarrow> bool result) \<Rightarrow> 'a list \<Rightarrow> 'a list result" where
  "rfilter p [] = Inr []"
| "rfilter p (x # xs) = rbind (p x) (\<lambda>b. rbind (rfilter p xs) (\<lambda>ys. Inr (if b then x # ys else ys)))"

definition note_readable :: "pyval \<Rightarrow> user_row \<Rightarrow> string list \<Rightarrow> file_db \<Rightarrow> bool result" where
  "note_readable i user gids db =
     (case i of
        PStr s \<Rightarrow>
          Inr (case find (\<lambda>n. oo_id n = s) (fdb_notes db) of
                 None \<Rightarrow> False
               | Some note \<Rightarrow> oo_user_id note = u_id user \<or>
                   has_access (u_id user) ''note'' s ''read'' (Some gids) (fdb_groups db) (fdb_grants db))
      | _ \<Rightarrow> Inl DataError)"

definition entry_readable :: "user_row \<Rightarrow> string list \<Rightarrow> file_db \<Rightarrow> pyval \<Rightarrow> bool result" where
  "entry_readable user gids db entry =
     (let entry_type = grant_field entry ''type''; entry_id = grant_field entry ''id''
      in if entry_type = PStr ''file'' then has_access_to_file entry_id ''read'' user (Some gids) db
         else if entry_type = PStr ''collection''
         then Inr (check_knowledge_access entry_id (u_id user) ''read'' (Some gids) db)
         else if entry_type = PStr ''note'' then note_readable entry_id user gids db
         else Inr False)"

definition get_accessible_folder_files ::
    "pyval \<Rightarrow> user_row \<Rightarrow> string list option \<Rightarrow> file_db \<Rightarrow> pyval list result"
where
  "get_accessible_folder_files entries user user_group_ids db =
     (case entries of
        PList xs \<Rightarrow>
          rbind (rfilter folder_entry xs) (\<lambda>es.
            if u_role user = ''admin'' then Inr es
            else rfilter (entry_readable user (member_group_ids user_group_ids (u_id user) (fdb_groups db)) db) es)
      | _ \<Rightarrow> Inr [])"

definition can_read_all_folder_files :: "pyval \<Rightarrow> user_row \<Rightarrow> file_db \<Rightarrow> bool result" where
  "can_read_all_folder_files entries user db =
     (case entries of
        PNone \<Rightarrow> Inr True
      | PList xs \<Rightarrow>
          if xs = [] then Inr True
          else rbind (get_accessible_folder_files entries user None db) (\<lambda>es. Inr (length es = length xs))
      | _ \<Rightarrow> Inr False)"

definition get_owner_accessible_folder_files :: "folder_row \<Rightarrow> file_db \<Rightarrow> pyval list result" where
  "get_owner_accessible_folder_files folder db =
     (let files = py_or (dget (case fo_data folder of None \<Rightarrow> [] | Some d \<Rightarrow> d) ''files'') (PList [])
      in if \<not> truthy files then Inr []
         else (case find (\<lambda>u. u_id u = fo_user_id folder) (db_users (fdb_groups db)) of
                 None \<Rightarrow> Inr []
               | Some owner \<Rightarrow> get_accessible_folder_files files owner None db))"

subsection \<open>Which objects give access to a file\<close>

definition model_attaches :: "string \<Rightarrow> workspace_model_row \<Rightarrow> bool" where
  "model_attaches file_id m =
     (m_base_model_id m \<noteq> None \<and>
      (\<exists>items. py_iter (py_or (dget (wm_meta m) ''knowledge'') (PList [])) = Inr items \<and>
               list_ex (attaches_file file_id) items))"

text \<open>The objects that carry a file: (type, id, owner).\<close>

definition carriers :: "file_row \<Rightarrow> file_db \<Rightarrow> (string \<times> string \<times> string) set" where
  "carriers file db =
     {(''knowledge'', oo_id k, oo_user_id k) | k. k \<in> set (fdb_knowledge db) \<and>
        (oo_id k, fi_id file) \<in> set (fdb_knowledge_files db)} \<union>
     {(''knowledge'', oo_id k, oo_user_id k) | k meta i. fi_meta file = Some meta \<and>
        dget meta ''collection_name'' = PStr i \<and> i \<noteq> [] \<and> get_knowledge_by_id (PStr i) db = Some k} \<union>
     {(''model'', m_id m, m_user_id m) | m. m \<in> set (fdb_models db) \<and> model_attaches (fi_id file) m}"

lemma set_model_owners:
  assumes "distinct (map m_id (fdb_models db))" "get_model_owners_attaching_file fid db = Inr owners"
  shows "set owners = {(m_id m, m_user_id m) | m. m \<in> set (fdb_models db) \<and> model_attaches fid m}"
proof -
  let ?step = "\<lambda>m owners. rbind (py_iter (py_or (dget (wm_meta m) ''knowledge'') (PList []))) (\<lambda>items.
      Inr (if list_ex (attaches_file fid) items then dset (m_id m) (m_user_id m) owners else owners))"
  have gen: "set res = set acc \<union> {(m_id m, m_user_id m) | m. m \<in> set ms \<and> model_attaches fid m}"
    if "distinct (map m_id ms)" "\<forall>m \<in> set ms. m_base_model_id m \<noteq> None" "rfold ?step ms acc = Inr res"
      "m_id ` set ms \<inter> fst ` set acc = {}" for ms acc res
    using that
  proof (induction ms arbitrary: acc)
    case (Cons m ms)
    from Cons.prems(3) obtain items where items:
      "py_iter (py_or (dget (wm_meta m) ''knowledge'') (PList [])) = Inr items"
      "rfold ?step ms (if list_ex (attaches_file fid) items then dset (m_id m) (m_user_id m) acc else acc) = Inr res"
      by (auto simp: rbind_Inr_iff)
    have m: "model_attaches fid m \<longleftrightarrow> list_ex (attaches_file fid) items"
      using items(1) Cons.prems(2) by (simp add: model_attaches_def)
    have new: "dset (m_id m) (m_user_id m) acc = acc @ [(m_id m, m_user_id m)]"
      using Cons.prems(4) by (intro dset_new) auto
    have "set res = set (if list_ex (attaches_file fid) items then dset (m_id m) (m_user_id m) acc else acc) \<union>
        {(m_id m, m_user_id m) | m. m \<in> set ms \<and> model_attaches fid m}"
    proof (rule Cons.IH [OF _ _ items(2)])
      show "m_id ` set ms \<inter>
          fst ` set (if list_ex (attaches_file fid) items then dset (m_id m) (m_user_id m) acc else acc) = {}"
        using Cons.prems(1,4) unfolding new by auto
    qed (use Cons.prems in auto)
    then show ?case unfolding new using m by auto
  qed simp
  let ?ms = "filter (\<lambda>m. m_base_model_id m \<noteq> None) (fdb_models db)"
  have "rfold ?step ?ms [] = Inr owners" using assms(2) by (simp only: get_model_owners_attaching_file_def)
  then have "set owners = set [] \<union> {(m_id m, m_user_id m) | m. m \<in> set ?ms \<and> model_attaches fid m}"
    by (intro gen) (use assms(1) in \<open>simp_all add: distinct_map_filter\<close>)
  moreover have "m \<in> set ?ms \<and> model_attaches fid m \<longleftrightarrow> m \<in> set (fdb_models db) \<and> model_attaches fid m" for m
    by (auto simp: model_attaches_def)
  ultimately show ?thesis by simp
qed

lemma set_knowledges:
  "set (get_knowledges_by_file_id fid db) = {k \<in> set (fdb_knowledge db). (oo_id k, fid) \<in> set (fdb_knowledge_files db)}"
  by (auto simp: get_knowledges_by_file_id_def image_iff)

lemma set_shared_chats:
  "set (get_shared_chat_ids_by_file_id fid db) =
     {ct_id c | c. c \<in> set (fdb_chats db) \<and> ct_share_id c \<noteq> None \<and> (ct_id c, fid) \<in> set (fdb_chat_files db)}"
  by (auto simp: get_shared_chat_ids_by_file_id_def)

definition confers ::
    "user_row \<Rightarrow> string \<Rightarrow> string list option \<Rightarrow> file_row \<Rightarrow> file_db \<Rightarrow> string \<times> string \<times> string \<Rightarrow> bool"
where
  "confers user access_type gi file db c =
     (case c of (rtype, oid, owner) \<Rightarrow>
        (access_type = ''read'' \<or> owner = fi_user_id file) \<and>
        (owner = u_id user \<or> has_access (u_id user) rtype oid access_type gi (fdb_groups db) (fdb_grants db)))"

lemma has_access_given_groups:
  "has_access u rtype rid perm (Some (member_group_ids gi u db)) db t = has_access u rtype rid perm gi db t"
  by (simp add: has_access_iff member_group_ids_def)

lemma knowledge_confers_iff:
  "knowledge_confers (u_id user) access_type (member_group_ids gi (u_id user) (fdb_groups db)) file db k \<longleftrightarrow>
     confers user access_type gi file db (''knowledge'', oo_id k, oo_user_id k)"
  by (auto simp: knowledge_confers_def confers_def has_access_given_groups)

lemma accessible_not_empty:
  "get_accessible_resource_ids u rtype rids perm (Some (member_group_ids gi u db)) db t \<noteq> [] \<longleftrightarrow>
     (\<exists>rid \<in> set rids. has_access u rtype rid perm gi db t)"
proof -
  have "l \<noteq> [] \<longleftrightarrow> (\<exists>x. x \<in> set l)" for l :: "string list" by (cases l) auto
  then show ?thesis by (simp add: set_accessible has_access_given_groups Bex_def)
qed

definition file_readable_elsewhere :: "user_row \<Rightarrow> string list option \<Rightarrow> file_row \<Rightarrow> file_db \<Rightarrow> bool" where
  "file_readable_elsewhere user gi file db =
     (get_channels_by_file_id_and_user_id (fi_id file) (u_id user) db \<noteq> [] \<or>
      (\<exists>c \<in> set (fdb_chats db). ct_share_id c \<noteq> None \<and> (ct_id c, fi_id file) \<in> set (fdb_chat_files db) \<and>
         has_access (u_id user) ''shared_chat'' (ct_id c) ''read'' gi (fdb_groups db) (fdb_grants db)))"

lemma has_access_to_file_iff:
  assumes "has_access_to_file (PStr fid) access_type user gi db = Inr b"
    and "get_file_by_id (PStr fid) db = Some file" "distinct (map m_id (fdb_models db))"
  shows "b \<longleftrightarrow> fi_user_id file = u_id user \<or> (\<exists>c \<in> carriers file db. confers user access_type gi file db c) \<or>
    (access_type = ''read'' \<and> file_readable_elsewhere user gi file db)"
proof (cases "fi_user_id file = u_id user")
  case True
  with assms(1,2) show ?thesis by (simp add: has_access_to_file_def)
next
  case False
  define gids where "gids = member_group_ids gi (u_id user) (fdb_groups db)"
  define kc where "kc = knowledge_confers (u_id user) access_type gids file db"
  define kb where "kb = (case fi_meta file of
      None \<Rightarrow> PNone | Some meta \<Rightarrow> if meta = [] then PNone else dget meta ''collection_name'')"
  define linked where "linked = list_ex kc (get_knowledges_by_file_id (fi_id file) db)"
  define referenced where
    "referenced = (truthy kb \<and> (case get_knowledge_by_id kb db of None \<Rightarrow> False | Some k \<Rightarrow> kc k))"
  define elsewhere where "elsewhere = (access_type = ''read'' \<and> file_readable_elsewhere user gi file db)"
  define by_model where "by_model = (\<exists>c \<in> {(''model'', m_id m, m_user_id m) | m.
      m \<in> set (fdb_models db) \<and> model_attaches (fi_id file) m}. confers user access_type gi file db c)"
  have kc: "kc k \<longleftrightarrow> confers user access_type gi file db (''knowledge'', oo_id k, oo_user_id k)" for k
    by (simp add: kc_def gids_def knowledge_confers_iff)
  have linked: "linked \<longleftrightarrow> (\<exists>k \<in> set (fdb_knowledge db). (oo_id k, fi_id file) \<in> set (fdb_knowledge_files db) \<and>
      confers user access_type gi file db (''knowledge'', oo_id k, oo_user_id k))"
    by (auto simp: linked_def list_ex_iff set_knowledges kc)
  have referenced: "referenced \<longleftrightarrow> (\<exists>meta i k. fi_meta file = Some meta \<and> dget meta ''collection_name'' = PStr i \<and>
      i \<noteq> [] \<and> get_knowledge_by_id (PStr i) db = Some k \<and>
      confers user access_type gi file db (''knowledge'', oo_id k, oo_user_id k))"
  proof (cases "fi_meta file")
    case (Some meta)
    then show ?thesis
      by (cases "dget meta ''collection_name''"; cases "get_knowledge_by_id (dget meta ''collection_name'') db")
        (auto simp: referenced_def kb_def kc get_knowledge_by_id_def)
  qed (simp add: referenced_def kb_def)
  have carriers: "(\<exists>c \<in> carriers file db. confers user access_type gi file db c) \<longleftrightarrow> linked \<or> referenced \<or> by_model"
    unfolding carriers_def linked referenced by_model_def by blast
  have elsewhere: "elsewhere \<longleftrightarrow> access_type = ''read'' \<and>
      (get_channels_by_file_id_and_user_id (fi_id file) (u_id user) db \<noteq> [] \<or>
       get_accessible_resource_ids (u_id user) ''shared_chat'' (get_shared_chat_ids_by_file_id (fi_id file) db)
         ''read'' (Some gids) (fdb_groups db) (fdb_grants db) \<noteq> [])"
    unfolding elsewhere_def file_readable_elsewhere_def gids_def accessible_not_empty set_shared_chats by blast
  have "b \<longleftrightarrow> linked \<or> referenced \<or> elsewhere \<or> by_model"
  proof (cases "linked \<or> referenced \<or> elsewhere")
    case True
    have "has_access_to_file (PStr fid) access_type user gi db = Inr True"
      using True False assms(2) unfolding elsewhere linked_def referenced_def kb_def kc_def gids_def
      by (auto simp: has_access_to_file_def Let_def)
    with assms(1) have b by simp
    with True show ?thesis by blast
  next
    case no: False
    then have eq: "has_access_to_file (PStr fid) access_type user gi db =
        rbind (get_model_owners_attaching_file (fi_id file) db) (\<lambda>owners.
          let model_owners = (if access_type \<noteq> ''read''
                              then filter (\<lambda>(m, owner). owner = fi_user_id file) owners else owners)
          in if u_id user \<in> set (map snd model_owners) then Inr True
             else Inr (get_accessible_resource_ids (u_id user) ''model'' (map fst model_owners) access_type
                         (Some gids) (fdb_groups db) (fdb_grants db) \<noteq> []))"
      using False assms(2) unfolding elsewhere linked_def referenced_def kb_def kc_def gids_def
      by (auto simp: has_access_to_file_def Let_def)
    with assms(1) obtain owners where owners: "get_model_owners_attaching_file (fi_id file) db = Inr owners"
      by (cases "get_model_owners_attaching_file (fi_id file) db") auto
    define mo where
      "mo = (if access_type \<noteq> ''read'' then filter (\<lambda>(m, owner). owner = fi_user_id file) owners else owners)"
    have mo: "(m, owner) \<in> set mo \<longleftrightarrow> (m, owner) \<in> set owners \<and> (access_type = ''read'' \<or> owner = fi_user_id file)"
      for m owner by (auto simp: mo_def)
    have "b \<longleftrightarrow> u_id user \<in> set (map snd mo) \<or>
        get_accessible_resource_ids (u_id user) ''model'' (map fst mo) access_type (Some gids) (fdb_groups db)
          (fdb_grants db) \<noteq> []"
      using eq assms(1) unfolding owners rbind_simps Let_def mo_def [symmetric] by (auto split: if_splits)
    also have "\<dots> \<longleftrightarrow> (\<exists>(m, owner) \<in> set mo. owner = u_id user \<or>
        has_access (u_id user) ''model'' m access_type gi (fdb_groups db) (fdb_grants db))"
      unfolding gids_def accessible_not_empty by force
    also have "\<dots> \<longleftrightarrow> (\<exists>(m, owner) \<in> set owners. (access_type = ''read'' \<or> owner = fi_user_id file) \<and>
        (owner = u_id user \<or> has_access (u_id user) ''model'' m access_type gi (fdb_groups db) (fdb_grants db)))"
      by (simp add: Bex_def split_paired_Ex mo conj_assoc)
    finally have b: "b \<longleftrightarrow> (\<exists>(m, owner) \<in> set owners. (access_type = ''read'' \<or> owner = fi_user_id file) \<and>
        (owner = u_id user \<or> has_access (u_id user) ''model'' m access_type gi (fdb_groups db) (fdb_grants db)))" .
    have "b \<longleftrightarrow> by_model"
      unfolding b set_model_owners [OF assms(3) owners] by_model_def confers_def by auto
    with no show ?thesis by simp
  qed
  with False carriers show ?thesis unfolding elsewhere_def by blast
qed

lemma rfilter_exact:
  "rfilter p xs = Inr ys \<Longrightarrow> ys = filter (\<lambda>x. p x = Inr True) xs \<and> (\<forall>x \<in> set xs. \<exists>b. p x = Inr b)"
proof (induction xs arbitrary: ys)
  case (Cons x xs)
  then obtain b zs where "p x = Inr b" "rfilter p xs = Inr zs" "ys = (if b then x # zs else zs)"
    by (auto simp: rbind_Inr_iff)
  with Cons.IH [of zs] show ?case by (cases b) auto
qed simp

subsection \<open>Properties\<close>

text \<open>C1. A check of access to a stored file succeeds exactly when the user owns the file, or holds the
  access on (or owns) a knowledge base or model that carries the file (for anything but reading, one whose
  owner owns the file), or reads and sees the file in a channel or a shared chat.\<close>

theorem file_access_exact:
  assumes "has_access_to_file (PStr fid) access_type user gi db = Inr b"
    and "get_file_by_id (PStr fid) db = Some file" "distinct (map m_id (fdb_models db))"
  shows "b \<longleftrightarrow> fi_user_id file = u_id user \<or> (\<exists>c \<in> carriers file db. confers user access_type gi file db c) \<or>
    (access_type = ''read'' \<and> file_readable_elsewhere user gi file db)"
  by (rule has_access_to_file_iff [OF assms])

definition sample_file_db :: file_db where
  "sample_file_db =
     \<lparr>fdb_files = [\<lparr>fi_id = ''f'', fi_user_id = ''adm'', fi_meta = None\<rparr>],
      fdb_knowledge = [\<lparr>oo_id = ''k1'', oo_user_id = ''u1''\<rparr>, \<lparr>oo_id = ''k2'', oo_user_id = ''adm''\<rparr>],
      fdb_knowledge_files = [(''k1'', ''f''), (''k2'', ''f'')],
      fdb_channels = [], fdb_channel_files = [], fdb_channel_members = [], fdb_chats = [], fdb_chat_files = [],
      fdb_models = [], fdb_notes = [],
      fdb_grants = [new_grant ''x'' ''knowledge'' ''k2'' ''user'' ''u2'' ''write'' 1],
      fdb_groups = sample_group_db\<rparr>"

theorem file_access_exact_witness:
  "confers \<lparr>u_id = ''u1'', u_role = ''user''\<rparr> ''read'' None
     \<lparr>fi_id = ''f'', fi_user_id = ''adm'', fi_meta = None\<rparr> sample_file_db (''knowledge'', ''k1'', ''u1'') \<and>
   \<not> (\<exists>c \<in> carriers \<lparr>fi_id = ''f'', fi_user_id = ''adm'', fi_meta = None\<rparr> sample_file_db.
        confers \<lparr>u_id = ''u1'', u_role = ''user''\<rparr> ''write'' None
          \<lparr>fi_id = ''f'', fi_user_id = ''adm'', fi_meta = None\<rparr> sample_file_db c)"
proof -
  let ?u = "\<lparr>u_id = ''u1'', u_role = ''user''\<rparr>"
  have r: "has_access_to_file (PStr ''f'') ''write'' ?u None sample_file_db = Inr False" by code_simp
  have f: "get_file_by_id (PStr ''f'') sample_file_db = Some \<lparr>fi_id = ''f'', fi_user_id = ''adm'', fi_meta = None\<rparr>"
    by code_simp
  have d: "distinct (map m_id (fdb_models sample_file_db))" by code_simp
  show ?thesis using file_access_exact [OF r f d] by (simp add: confers_def)
qed

text \<open>C5. Nobody but the owner can write to a file through an object of their own: a non-owner who may write
  holds a write grant on a knowledge base or model that carries the file and belongs to the file's owner.\<close>

theorem file_write_not_launderable:
  assumes "has_access_to_file (PStr fid) ''write'' user gi db = Inr True"
    and "get_file_by_id (PStr fid) db = Some file" "distinct (map m_id (fdb_models db))"
    and "fi_user_id file \<noteq> u_id user"
  shows "\<exists>rtype oid. (rtype, oid, fi_user_id file) \<in> carriers file db \<and>
    has_access (u_id user) rtype oid ''write'' gi (fdb_groups db) (fdb_grants db)"
  using has_access_to_file_iff [OF assms(1-3)] assms(4) by (auto simp: confers_def)

theorem file_write_not_launderable_witness:
  "\<exists>rtype oid. (rtype, oid, ''adm'') \<in> carriers \<lparr>fi_id = ''f'', fi_user_id = ''adm'', fi_meta = None\<rparr> sample_file_db \<and>
     has_access ''u2'' rtype oid ''write'' None sample_group_db (fdb_grants sample_file_db)"
proof -
  let ?u = "\<lparr>u_id = ''u2'', u_role = ''user''\<rparr>"
  have r: "has_access_to_file (PStr ''f'') ''write'' ?u None sample_file_db = Inr True" by code_simp
  have f: "get_file_by_id (PStr ''f'') sample_file_db = Some \<lparr>fi_id = ''f'', fi_user_id = ''adm'', fi_meta = None\<rparr>"
    by code_simp
  have d: "distinct (map m_id (fdb_models sample_file_db))" by code_simp
  have g: "fdb_groups sample_file_db = sample_group_db" by (simp add: sample_file_db_def)
  show ?thesis using file_write_not_launderable [OF r f d] g by simp
qed

text \<open>The check that a user can read all files of a folder succeeds exactly when every entry has a known
  kind and an identifier and, unless the user is an administrator, is readable by the user; the filtered
  list is the sublist of those entries.\<close>

lemma folder_files_all_readable:
  assumes "can_read_all_folder_files (PList xs) user db = Inr b"
  shows "b \<longleftrightarrow> (\<forall>e \<in> set xs. folder_entry e = Inr True \<and>
    (u_role user = ''admin'' \<or>
     entry_readable user (member_group_ids None (u_id user) (fdb_groups db)) db e = Inr True))"
proof (cases "xs = []")
  case True
  with assms show ?thesis by (simp add: can_read_all_folder_files_def)
next
  case False
  let ?r = "entry_readable user (member_group_ids None (u_id user) (fdb_groups db)) db"
  from assms False obtain es where es: "get_accessible_folder_files (PList xs) user None db = Inr es"
    "b \<longleftrightarrow> length es = length xs"
    by (auto simp: can_read_all_folder_files_def rbind_Inr_iff)
  from es(1) obtain e1 where e1: "rfilter folder_entry xs = Inr e1"
    "if u_role user = ''admin'' then es = e1 else rfilter ?r e1 = Inr es"
    by (auto simp: get_accessible_folder_files_def rbind_Inr_iff split: if_splits)
  have f1: "e1 = filter (\<lambda>e. folder_entry e = Inr True) xs" using rfilter_exact [OF e1(1)] by blast
  have "es = filter (\<lambda>e. folder_entry e = Inr True \<and> (u_role user = ''admin'' \<or> ?r e = Inr True)) xs"
  proof (cases "u_role user = ''admin''")
    case True
    with e1(2) f1 show ?thesis by simp
  next
    case False
    with e1(2) have "rfilter ?r e1 = Inr es" by simp
    with rfilter_exact have "es = filter (\<lambda>e. ?r e = Inr True) e1" by blast
    with False f1 show ?thesis by simp
  qed
  with es(2) show ?thesis by (simp only: length_filter_eq_iff)
qed

theorem folder_files_all_readable_witness:
  "can_read_all_folder_files (PList [PDict [(''type'', PStr ''file''), (''id'', PStr ''f'')]])
     \<lparr>u_id = ''u1'', u_role = ''user''\<rparr> sample_file_db = Inr True \<and>
   entry_readable \<lparr>u_id = ''u1'', u_role = ''user''\<rparr> (member_group_ids None ''u1'' sample_group_db) sample_file_db
     (PDict [(''type'', PStr ''file''), (''id'', PStr ''f'')]) = Inr True"
proof -
  have r: "can_read_all_folder_files (PList [PDict [(''type'', PStr ''file''), (''id'', PStr ''f'')]])
     \<lparr>u_id = ''u1'', u_role = ''user''\<rparr> sample_file_db = Inr True" by code_simp
  have g: "fdb_groups sample_file_db = sample_group_db" by (simp add: sample_file_db_def)
  show ?thesis using folder_files_all_readable [OF r] r g by simp
qed

end
