(* ===== verification/Rate_Limit.thy ===== *)
theory Rate_Limit
  imports Py_Prelude
begin

section \<open>The rate limiter\<close>

text \<open>
  Models \<open>utils/rate_limit.py\<close>: a rolling window kept as counters per bucket of seconds. With a Redis
  client the counters live there, and any exception falls back to the process memory. The client is an
  argument: a record of its three commands over a server state, each of which may fail. The clock is an
  argument of every call, in whole seconds.

  The property of the memory store is stated against the log of all calls: the verdict counts the checks
  of that key in the current bucket and the \<open>num_buckets\<close> before it.
\<close>

subsection \<open>Configuration and buckets\<close>

record limiter =
  rl_limit :: int
  rl_window :: int
  rl_bucket_size :: int
  rl_enabled :: bool

definition num_buckets :: "limiter \<Rightarrow> int" where
  "num_buckets rl = rl_window rl div rl_bucket_size rl"

definition current_bucket :: "limiter \<Rightarrow> int \<Rightarrow> int" where
  "current_bucket rl now = now div rl_bucket_size rl"

type_synonym bucket_store = "(int \<times> int) list"
type_synonym memory_store = "(string \<times> bucket_store) list"

definition drop_expired :: "int \<Rightarrow> bucket_store \<Rightarrow> bucket_store" where
  "drop_expired min_bucket store = filter (\<lambda>(b, n). \<not> b < min_bucket) store"

subsection \<open>Counters in memory\<close>

definition is_limited_memory :: "limiter \<Rightarrow> string \<Rightarrow> int \<Rightarrow> memory_store \<Rightarrow> memory_store \<times> bool" where
  "is_limited_memory rl key now ms =
     (let now_bucket = current_bucket rl now;
          store = dget_or ms key [];
          store1 = dset now_bucket (dget_or store now_bucket 0 + 1) store;
          store2 = drop_expired (now_bucket - num_buckets rl) store1;
          total = sum_list (map snd store2)
      in (dset key store2 ms, total > rl_limit rl))"

definition get_count_memory :: "limiter \<Rightarrow> string \<Rightarrow> int \<Rightarrow> memory_store \<Rightarrow> memory_store \<times> int" where
  "get_count_memory rl key now ms =
     (if \<not> dhas ms key then (ms, 0)
      else (let store = drop_expired (current_bucket rl now - num_buckets rl) (dget_or ms key [])
            in (dset key store ms, sum_list (map snd store))))"

subsection \<open>Counters in Redis\<close>

text \<open>Each command returns the new server state and its reply, or \<^const>\<open>None\<close> for an exception.\<close>

record 'r redis_client =
  rc_incr :: "string \<Rightarrow> 'r \<Rightarrow> 'r \<times> int option"
  rc_expire :: "string \<Rightarrow> int \<Rightarrow> 'r \<Rightarrow> 'r \<times> unit option"
  rc_mget :: "string list \<Rightarrow> 'r \<Rightarrow> 'r \<times> int option list option"

fun nat_digits :: "nat \<Rightarrow> string" where
  "nat_digits n = (if n < 10 then [char_of (48 + n)] else nat_digits (n div 10) @ [char_of (48 + n mod 10)])"

declare nat_digits.simps [simp del]

definition str_of_int :: "int \<Rightarrow> string" where
  "str_of_int i = (if i < 0 then ''-'' @ nat_digits (nat (- i)) else nat_digits (nat i))"

definition bucket_key :: "string \<Rightarrow> string \<Rightarrow> int \<Rightarrow> string" where
  "bucket_key redis_key_prefix key bucket_index =
     redis_key_prefix @ '':ratelimit:'' @ str_lower key @ '':'' @ str_of_int bucket_index"

definition window_keys :: "limiter \<Rightarrow> string \<Rightarrow> string \<Rightarrow> int \<Rightarrow> string list" where
  "window_keys rl redis_key_prefix key now_bucket =
     map (\<lambda>i. bucket_key redis_key_prefix key (now_bucket - i)) [0..num_buckets rl]"

definition sum_replies :: "int option list \<Rightarrow> int" where
  "sum_replies counts = sum_list (map (\<lambda>c. case c of None \<Rightarrow> 0 | Some n \<Rightarrow> n) counts)"

definition is_limited_redis ::
    "limiter \<Rightarrow> string \<Rightarrow> 'r redis_client \<Rightarrow> string \<Rightarrow> int \<Rightarrow> 'r \<Rightarrow> 'r \<times> bool option"
where
  "is_limited_redis rl redis_key_prefix r key now s =
     (let now_bucket = current_bucket rl now; k = bucket_key redis_key_prefix key now_bucket
      in case rc_incr r k s of
           (s1, None) \<Rightarrow> (s1, None)
         | (s1, Some attempts) \<Rightarrow>
             (case (if attempts = 1 then rc_expire r k (rl_window rl + rl_bucket_size rl) s1 else (s1, Some ())) of
                (s2, None) \<Rightarrow> (s2, None)
              | (s2, Some _) \<Rightarrow>
                  (case rc_mget r (window_keys rl redis_key_prefix key now_bucket) s2 of
                     (s3, None) \<Rightarrow> (s3, None)
                   | (s3, Some counts) \<Rightarrow> (s3, Some (sum_replies counts > rl_limit rl)))))"

definition get_count_redis ::
    "limiter \<Rightarrow> string \<Rightarrow> 'r redis_client \<Rightarrow> string \<Rightarrow> int \<Rightarrow> 'r \<Rightarrow> 'r \<times> int option"
where
  "get_count_redis rl redis_key_prefix r key now s =
     (case rc_mget r (window_keys rl redis_key_prefix key (current_bucket rl now)) s of
        (s1, None) \<Rightarrow> (s1, None)
      | (s1, Some counts) \<Rightarrow> (s1, Some (sum_replies counts)))"

subsection \<open>The interface\<close>

definition is_limited ::
    "limiter \<Rightarrow> string \<Rightarrow> 'r redis_client option \<Rightarrow> string \<Rightarrow> int \<Rightarrow> 'r \<times> memory_store \<Rightarrow> ('r \<times> memory_store) \<times> bool"
where
  "is_limited rl redis_key_prefix redis key now st =
     (if \<not> rl_enabled rl then (st, False)
      else (case st of (s, ms) \<Rightarrow>
        (case redis of
           None \<Rightarrow> (case is_limited_memory rl key now ms of (ms', b) \<Rightarrow> ((s, ms'), b))
         | Some r \<Rightarrow>
             (case is_limited_redis rl redis_key_prefix r key now s of
                (s', Some b) \<Rightarrow> ((s', ms), b)
              | (s', None) \<Rightarrow> (case is_limited_memory rl key now ms of (ms', b) \<Rightarrow> ((s', ms'), b))))))"

definition get_count ::
    "limiter \<Rightarrow> string \<Rightarrow> 'r redis_client option \<Rightarrow> string \<Rightarrow> int \<Rightarrow> 'r \<times> memory_store \<Rightarrow> ('r \<times> memory_store) \<times> int"
where
  "get_count rl redis_key_prefix redis key now st =
     (if \<not> rl_enabled rl then (st, 0)
      else (case st of (s, ms) \<Rightarrow>
        (case redis of
           None \<Rightarrow> (case get_count_memory rl key now ms of (ms', n) \<Rightarrow> ((s, ms'), n))
         | Some r \<Rightarrow>
             (case get_count_redis rl redis_key_prefix r key now s of
                (s', Some n) \<Rightarrow> ((s', ms), n)
              | (s', None) \<Rightarrow> (case get_count_memory rl key now ms of (ms', n) \<Rightarrow> ((s', ms'), n))))))"

definition remaining ::
    "limiter \<Rightarrow> string \<Rightarrow> 'r redis_client option \<Rightarrow> string \<Rightarrow> int \<Rightarrow> 'r \<times> memory_store \<Rightarrow> ('r \<times> memory_store) \<times> int"
where
  "remaining rl redis_key_prefix redis key now st =
     (case get_count rl redis_key_prefix redis key now st of (st', used) \<Rightarrow> (st', max 0 (rl_limit rl - used)))"

subsection \<open>The memory store against the log of calls\<close>

datatype call = Check string int | Ask string int

fun call_time :: "call \<Rightarrow> int" where
  "call_time (Check key now) = now"
| "call_time (Ask key now) = now"

fun run_call :: "limiter \<Rightarrow> call \<Rightarrow> memory_store \<Rightarrow> memory_store" where
  "run_call rl (Check key now) ms = fst (is_limited_memory rl key now ms)"
| "run_call rl (Ask key now) ms = fst (get_count_memory rl key now ms)"

text \<open>The checks of a key in one bucket, and in a window of buckets.\<close>

fun in_bucket :: "limiter \<Rightarrow> string \<Rightarrow> int \<Rightarrow> call \<Rightarrow> bool" where
  "in_bucket rl key b (Check k now) = (k = key \<and> current_bucket rl now = b)"
| "in_bucket rl key b (Ask k now) = False"

fun in_window :: "limiter \<Rightarrow> string \<Rightarrow> int \<Rightarrow> call \<Rightarrow> bool" where
  "in_window rl key low (Check k now) = (k = key \<and> low \<le> current_bucket rl now)"
| "in_window rl key low (Ask k now) = False"

definition bucket_count :: "limiter \<Rightarrow> call list \<Rightarrow> string \<Rightarrow> int \<Rightarrow> int" where
  "bucket_count rl log key b = int (length (filter (in_bucket rl key b) log))"

definition window_count :: "limiter \<Rightarrow> call list \<Rightarrow> string \<Rightarrow> int \<Rightarrow> int" where
  "window_count rl log key low = int (length (filter (in_window rl key low) log))"

text \<open>The store of a key holds the exact counts from some bucket on, at or below the window's first.\<close>

definition store_ok :: "limiter \<Rightarrow> call list \<Rightarrow> int \<Rightarrow> string \<Rightarrow> bucket_store \<Rightarrow> bool" where
  "store_ok rl log hi key store =
     (distinct (map fst store) \<and>
      (\<exists>low \<le> hi - num_buckets rl. \<forall>b. dget_or store b 0 = (if b < low then 0 else bucket_count rl log key b)))"

lemma dget_or_drop: "dget_or (drop_expired m store) b 0 = (if b < m then 0 else dget_or store b 0)"
  by (induction store) (auto simp: drop_expired_def)

lemma distinct_drop: "distinct (map fst store) \<Longrightarrow> distinct (map fst (drop_expired m store))"
  unfolding drop_expired_def by (induction store) auto

lemma store_ok_drop:
  assumes "store_ok rl log hi key store" "hi \<le> b0"
  shows "distinct (map fst (drop_expired (b0 - num_buckets rl) store))"
    and "dget_or (drop_expired (b0 - num_buckets rl) store) b 0 =
      (if b < b0 - num_buckets rl then 0 else bucket_count rl log key b)"
  using assms by (auto simp: store_ok_def dget_or_drop distinct_drop)

lemma store_ok_raise: "store_ok rl log hi key store \<Longrightarrow> hi \<le> b0 \<Longrightarrow> store_ok rl log b0 key store"
  unfolding store_ok_def by (meson diff_right_mono order_trans)

lemma store_ok_cong:
  "store_ok rl log hi key store \<Longrightarrow> (\<And>b. bucket_count rl log' key b = bucket_count rl log key b) \<Longrightarrow>
     store_ok rl log' hi key store"
  by (simp add: store_ok_def cong: if_cong)

lemma sum_store:
  "distinct (map fst store) \<Longrightarrow> finite A \<Longrightarrow> (\<forall>b. dget_or store b 0 \<noteq> 0 \<longrightarrow> b \<in> A) \<Longrightarrow>
     sum_list (map snd store) = (\<Sum>b \<in> A. dget_or store b (0 :: int))"
proof (induction store arbitrary: A)
  case (Cons p store)
  obtain b n where p: "p = (b, n)" by (cases p)
  have none: "dget_or store b 0 = 0"
    using Cons.prems(1) p by (auto simp: dget_or_def map_of_eq_None_iff split: option.split dest: map_of_SomeD) force
  have "sum_list (map snd store) = (\<Sum>b' \<in> A - {b}. dget_or store b' 0)"
  proof (rule Cons.IH)
    show "\<forall>b'. dget_or store b' 0 \<noteq> 0 \<longrightarrow> b' \<in> A - {b}"
    proof (intro allI impI)
      fix b'
      assume nz: "dget_or store b' 0 \<noteq> 0"
      with none have "b' \<noteq> b" by auto
      with nz Cons.prems(3) p show "b' \<in> A - {b}" by simp
    qed
  qed (use Cons.prems in auto)
  also have eq: "\<dots> = (\<Sum>b' \<in> A - {b}. dget_or (p # store) b' 0)"
    by (rule sum.cong) (auto simp: p)
  finally have rest: "sum_list (map snd store) = (\<Sum>b' \<in> A - {b}. dget_or (p # store) b' 0)" .
  show ?case
  proof (cases "b \<in> A")
    case True
    with rest Cons.prems(2) show ?thesis by (simp add: sum.remove [of A b] p)
  next
    case False
    with Cons.prems(3) [rule_format, of b] p have "n = 0" by auto
    with rest False show ?thesis by (simp add: p)
  qed
qed simp

lemma window_count_sum:
  assumes "finite A" "\<And>c. c \<in> set log \<Longrightarrow> in_window rl key low c \<Longrightarrow> current_bucket rl (call_time c) \<in> A"
  shows "window_count rl log key low = (\<Sum>b \<in> A. if b < low then 0 else bucket_count rl log key b)"
  using assms(2)
proof (induction log)
  case Nil
  then show ?case by (simp add: window_count_def bucket_count_def cong: if_cong)
next
  case (Cons c log)
  have IH: "window_count rl log key low = (\<Sum>b \<in> A. if b < low then 0 else bucket_count rl log key b)"
    using Cons by simp
  let ?b = "current_bucket rl (call_time c)"
  have one: "(if b < low then 0 else bucket_count rl (c # log) key b) =
      (if b < low then 0 else bucket_count rl log key b) + (if in_window rl key low c \<and> b = ?b then 1 else 0)" for b
    by (cases c) (auto simp: bucket_count_def)
  have "(\<Sum>b \<in> A. if in_window rl key low c \<and> b = ?b then 1 else (0 :: int)) =
      (if in_window rl key low c then 1 else 0)"
    using Cons.prems [of c] assms(1) by simp
  then have "(\<Sum>b \<in> A. if b < low then 0 else bucket_count rl (c # log) key b) =
      window_count rl log key low + (if in_window rl key low c then 1 else 0)"
    unfolding one sum.distrib IH by simp
  then show ?case by (simp add: window_count_def)
qed

lemma window_total:
  assumes "distinct (map fst store)"
    and "\<And>b. dget_or store b 0 = (if b < low then 0 else bucket_count rl log key b)"
  shows "sum_list (map snd store) = window_count rl log key low"
proof -
  let ?A = "(current_bucket rl \<circ> call_time) ` set log"
  have "b \<in> ?A" if "dget_or store b 0 \<noteq> 0" for b
  proof -
    have "filter (in_bucket rl key b) log \<noteq> []"
      using that assms(2) by (auto simp: bucket_count_def split: if_splits)
    then obtain c where c: "c \<in> set log" "in_bucket rl key b c" by (auto simp: filter_empty_conv)
    have "b = current_bucket rl (call_time c)" by (cases c) (use c(2) in auto)
    with c(1) show ?thesis by simp
  qed
  then have "sum_list (map snd store) = (\<Sum>b \<in> ?A. dget_or store b 0)"
    by (intro sum_store assms(1)) auto
  also have "\<dots> = window_count rl log key low"
    unfolding assms(2) by (rule window_count_sum [symmetric]) auto
  finally show ?thesis .
qed

lemma bucket_count_append: "bucket_count rl (log @ [c]) key b = bucket_count rl log key b + (if in_bucket rl key b c then 1 else 0)"
  by (simp add: bucket_count_def)

definition stores_ok :: "limiter \<Rightarrow> call list \<Rightarrow> int \<Rightarrow> memory_store \<Rightarrow> bool" where
  "stores_ok rl log hi ms = (\<forall>key. store_ok rl log hi key (dget_or ms key []))"

lemma is_limited_step:
  assumes "stores_ok rl log hi ms" "hi \<le> current_bucket rl now" "0 \<le> num_buckets rl"
  shows "stores_ok rl (log @ [Check key now]) (current_bucket rl now) (fst (is_limited_memory rl key now ms))"
    and "snd (is_limited_memory rl key now ms) \<longleftrightarrow>
      window_count rl (log @ [Check key now]) key (current_bucket rl now - num_buckets rl) > rl_limit rl"
proof -
  let ?b0 = "current_bucket rl now"
  let ?store = "dget_or ms key []"
  let ?store1 = "dset ?b0 (dget_or ?store ?b0 0 + 1) ?store"
  let ?store2 = "drop_expired (?b0 - num_buckets rl) ?store1"
  have ok: "store_ok rl log hi k (dget_or ms k [])" for k
    using assms(1) by (simp add: stores_ok_def)
  then obtain low where low: "low \<le> hi - num_buckets rl" "distinct (map fst ?store)"
    "\<And>b. dget_or ?store b 0 = (if b < low then 0 else bucket_count rl log key b)"
    unfolding store_ok_def by blast
  have d: "distinct (map fst ?store2)"
    using low(2) by (simp add: distinct_drop distinct_update)
  have c: "dget_or ?store2 b 0 = (if b < ?b0 - num_buckets rl then 0 else bucket_count rl (log @ [Check key now]) key b)" for b
    using low(1) assms(2,3) by (auto simp: dget_or_drop low(3) bucket_count_append)
  show "snd (is_limited_memory rl key now ms) \<longleftrightarrow>
      window_count rl (log @ [Check key now]) key (current_bucket rl now - num_buckets rl) > rl_limit rl"
    using window_total [OF d c] by (simp add: is_limited_memory_def Let_def)
  have "store_ok rl (log @ [Check key now]) ?b0 k (dget_or (fst (is_limited_memory rl key now ms)) k [])" for k
  proof (cases "k = key")
    case True
    then show ?thesis using d c by (auto simp: is_limited_memory_def Let_def store_ok_def)
  next
    case False
    then have "bucket_count rl (log @ [Check key now]) k b = bucket_count rl log k b" for b
      by (simp add: bucket_count_append)
    with store_ok_cong [OF store_ok_raise [OF ok [of k] assms(2)]] False show ?thesis
      by (simp add: is_limited_memory_def Let_def)
  qed
  then show "stores_ok rl (log @ [Check key now]) ?b0 (fst (is_limited_memory rl key now ms))"
    by (simp add: stores_ok_def)
qed

lemma get_count_step:
  assumes "stores_ok rl log hi ms" "hi \<le> current_bucket rl now"
  shows "stores_ok rl (log @ [Ask key now]) (current_bucket rl now) (fst (get_count_memory rl key now ms))"
    and "snd (get_count_memory rl key now ms) = window_count rl log key (current_bucket rl now - num_buckets rl)"
proof -
  let ?b0 = "current_bucket rl now"
  let ?store = "drop_expired (?b0 - num_buckets rl) (dget_or ms key [])"
  have ok: "store_ok rl log hi k (dget_or ms k [])" for k
    using assms(1) by (simp add: stores_ok_def)
  note drop = store_ok_drop [OF ok [of key] assms(2)]
  have total: "sum_list (map snd ?store) = window_count rl log key (?b0 - num_buckets rl)"
    by (rule window_total [OF drop])
  show "snd (get_count_memory rl key now ms) = window_count rl log key (?b0 - num_buckets rl)"
  proof (cases "dhas ms key")
    case True
    with total show ?thesis by (simp add: get_count_memory_def Let_def)
  next
    case False
    then have "dget_or ms key [] = []" by (simp add: dget_or_def dhas_def)
    with total False show ?thesis by (simp add: get_count_memory_def drop_expired_def)
  qed
  have "store_ok rl log ?b0 k (dget_or (fst (get_count_memory rl key now ms)) k [])" for k
    using drop store_ok_raise [OF ok [of k] assms(2)]
    by (cases "k = key") (auto simp: get_count_memory_def Let_def store_ok_def)
  then have "store_ok rl (log @ [Ask key now]) ?b0 k (dget_or (fst (get_count_memory rl key now ms)) k [])" for k
    by (rule store_ok_cong) (simp add: bucket_count_append)
  then show "stores_ok rl (log @ [Ask key now]) ?b0 (fst (get_count_memory rl key now ms))"
    by (simp add: stores_ok_def)
qed

lemma run_calls_ok:
  assumes "sorted (map call_time log)" "0 < rl_bucket_size rl" "0 \<le> num_buckets rl"
    and "\<forall>c \<in> set log. call_time c \<le> now"
  shows "stores_ok rl log (current_bucket rl now) (fold (run_call rl) log [])"
  using assms(1,4)
proof (induction log arbitrary: now rule: rev_induct)
  case Nil
  show ?case by (auto simp: stores_ok_def store_ok_def bucket_count_def cong: if_cong)
next
  case (snoc c log)
  have prev: "stores_ok rl log (current_bucket rl (call_time c)) (fold (run_call rl) log [])"
    using snoc by (intro snoc.IH) (auto simp: sorted_append)
  have "stores_ok rl (log @ [c]) (current_bucket rl (call_time c)) (fold (run_call rl) (log @ [c]) [])"
  proof (cases c)
    case (Check key t)
    with is_limited_step(1) [OF prev _ assms(3), of t key] show ?thesis by simp
  next
    case (Ask key t)
    with get_count_step(1) [OF prev, of t key] show ?thesis by simp
  qed
  moreover have "current_bucket rl (call_time c) \<le> current_bucket rl now"
    using snoc.prems(2) assms(2) by (simp add: current_bucket_def zdiv_mono1)
  ultimately show ?case by (auto simp: stores_ok_def intro: store_ok_raise)
qed

subsection \<open>Properties\<close>

text \<open>C30. With the counters in memory and a clock that does not run backwards, a check is refused exactly
  when the checks of that key in the current bucket and the \<open>num_buckets\<close> before it, this one included,
  exceed the limit, whatever other keys did; a count query reports that number and changes no verdict.\<close>

theorem rate_limit_window:
  assumes "sorted (map call_time log)" "\<forall>c \<in> set log. call_time c \<le> now"
    and "0 < rl_bucket_size rl" "0 \<le> rl_window rl" "rl_enabled rl"
    and "\<forall>r. redis = Some r \<longrightarrow> snd (is_limited_redis rl pre r key now s) = None \<and>
      snd (get_count_redis rl pre r key now s) = None"
  shows "(snd (is_limited rl pre redis key now (s, fold (run_call rl) log [])) \<longleftrightarrow>
      window_count rl log key (current_bucket rl now - num_buckets rl) + 1 > rl_limit rl) \<and>
    snd (get_count rl pre redis key now (s, fold (run_call rl) log [])) =
      window_count rl log key (current_bucket rl now - num_buckets rl)"
proof -
  let ?ms = "fold (run_call rl) log []"
  have nb: "0 \<le> num_buckets rl"
    using assms(3,4) by (simp add: num_buckets_def pos_imp_zdiv_nonneg_iff)
  have ok: "stores_ok rl log (current_bucket rl now) ?ms"
    by (rule run_calls_ok [OF assms(1,3) nb assms(2)])
  have "snd (is_limited rl pre redis key now (s, ?ms)) = snd (is_limited_memory rl key now ?ms)"
    "snd (get_count rl pre redis key now (s, ?ms)) = snd (get_count_memory rl key now ?ms)"
    using assms(5,6) by (auto simp: is_limited_def get_count_def split: option.splits prod.splits)
  moreover have "window_count rl (log @ [Check key now]) key (current_bucket rl now - num_buckets rl) =
      window_count rl log key (current_bucket rl now - num_buckets rl) + 1"
    using nb by (simp add: window_count_def)
  ultimately show ?thesis
    using is_limited_step(2) [OF ok order_refl nb, of key] get_count_step(2) [OF ok order_refl, of key] by simp
qed

definition failing_redis :: "unit redis_client" where
  "failing_redis = \<lparr>rc_incr = (\<lambda>_ s. (s, None)), rc_expire = (\<lambda>_ _ s. (s, None)), rc_mget = (\<lambda>_ s. (s, None))\<rparr>"

theorem rate_limit_window_witness:
  "let rl = \<lparr>rl_limit = 2, rl_window = 120, rl_bucket_size = 60, rl_enabled = True\<rparr>;
       log = [Check ''a'' 10, Check ''b'' 70, Check ''a'' 130, Ask ''a'' 150];
       ms = fold (run_call rl) log []
   in snd (is_limited rl ''owui'' (Some failing_redis) ''a'' 179 ((), ms)) \<and>
      \<not> snd (is_limited rl ''owui'' (Some failing_redis) ''a'' 180 ((), ms))"
proof -
  let ?rl = "\<lparr>rl_limit = 2, rl_window = 120, rl_bucket_size = 60, rl_enabled = True\<rparr>"
  let ?log = "[Check ''a'' 10, Check ''b'' 70, Check ''a'' 130, Ask ''a'' 150]"
  have h: "sorted (map call_time ?log)" "\<forall>c \<in> set ?log. call_time c \<le> 179" "\<forall>c \<in> set ?log. call_time c \<le> 180"
    "0 < rl_bucket_size ?rl" "0 \<le> rl_window ?rl" "rl_enabled ?rl" by simp_all
  have f: "\<forall>r. Some failing_redis = Some r \<longrightarrow> snd (is_limited_redis ?rl ''owui'' r ''a'' now ()) = None \<and>
      snd (get_count_redis ?rl ''owui'' r ''a'' now ()) = None" for now
    by (simp add: failing_redis_def is_limited_redis_def get_count_redis_def Let_def)
  show ?thesis
    using rate_limit_window [OF h(1,2,4,5,6) f] rate_limit_window [OF h(1,3,4,5,6) f]
    by (simp add: Let_def window_count_def current_bucket_def num_buckets_def)
qed

end
