(* ===== verification/Task_Registry.thy ===== *)
theory Task_Registry
  imports Py_Prelude
begin

section \<open>The task registry\<close>

text \<open>
  Models \<open>tasks.py\<close> when no Redis is configured: the dictionaries of running tasks, of the task ids of
  each item (a chat) and of the partial response streams, and the handlers that change them.

  The event loop is part of the state: the tasks that still run, and the ended tasks whose done callback
  has not yet run \<open>cleanup_task\<close>. Cancelling a task ends it. A task id is fresh when it is created.
  Other coroutines run between two awaits of \<open>stop_item_tasks\<close>, which walks the very list that
  \<open>cleanup_task\<close> shrinks; its steps are a relation.
\<close>

subsection \<open>State\<close>

text \<open>\<open>rg_live\<close> and \<open>rg_ended\<close> hold the task id and item id the done callback has captured.\<close>

record registry =
  rg_tasks :: "string list"
  rg_items :: "(string option \<times> string list) list"
  rg_streams :: "(string \<times> pydict) list"
  rg_live :: "(string \<times> string option) list"
  rg_ended :: "(string \<times> string option) list"

definition empty_registry :: registry where
  "empty_registry = \<lparr>rg_tasks = [], rg_items = [], rg_streams = [], rg_live = [], rg_ended = []\<rparr>"

definition given :: "string option \<Rightarrow> bool" where
  "given i = (i \<noteq> None \<and> i \<noteq> Some [])"

definition list_tasks :: "registry \<Rightarrow> string list" where
  "list_tasks rg = rg_tasks rg"

definition list_task_ids_by_item_id :: "string option \<Rightarrow> registry \<Rightarrow> string list" where
  "list_task_ids_by_item_id i rg = dget_or (rg_items rg) i []"

definition has_active_tasks :: "string option \<Rightarrow> registry \<Rightarrow> bool" where
  "has_active_tasks i rg = (length (list_task_ids_by_item_id i rg) > 0)"

subsection \<open>Handlers\<close>

type_synonym item_table = "(string option \<times> string list) list"

definition add_item_task :: "string \<Rightarrow> string option \<Rightarrow> item_table \<Rightarrow> item_table" where
  "add_item_task task_id i items =
     (if dget_or items i [] \<noteq> [] then dset i (dget_or items i [] @ [task_id]) items
      else dset i [task_id] items)"

definition remove_item_task :: "string \<Rightarrow> string option \<Rightarrow> item_table \<Rightarrow> item_table" where
  "remove_item_task task_id i items =
     (if given i \<and> task_id \<in> set (dget_or items i [])
      then (let rest = remove1 task_id (dget_or items i [])
            in if rest = [] then dpop i items else dset i rest items)
      else items)"

definition create_task :: "string \<Rightarrow> string option \<Rightarrow> registry \<Rightarrow> registry" where
  "create_task task_id i rg =
     rg\<lparr>rg_tasks := (if task_id \<in> set (rg_tasks rg) then rg_tasks rg else rg_tasks rg @ [task_id]),
        rg_items := add_item_task task_id i (rg_items rg),
        rg_live := rg_live rg @ [(task_id, i)]\<rparr>"

definition cleanup_task :: "string \<Rightarrow> string option \<Rightarrow> registry \<Rightarrow> registry" where
  "cleanup_task task_id i rg =
     rg\<lparr>rg_tasks := filter (\<lambda>t. t \<noteq> task_id) (rg_tasks rg),
        rg_streams := dpop task_id (rg_streams rg),
        rg_items := remove_item_task task_id i (rg_items rg)\<rparr>"

text \<open>A task ends (it returns, raises or is cancelled): its done callback is scheduled.\<close>

definition end_task :: "string \<Rightarrow> registry \<Rightarrow> registry" where
  "end_task task_id rg =
     rg\<lparr>rg_live := filter (\<lambda>(t, i). t \<noteq> task_id) (rg_live rg),
        rg_ended := rg_ended rg @ filter (\<lambda>(t, i). t = task_id) (rg_live rg)\<rparr>"

definition run_cleanup :: "string \<times> string option \<Rightarrow> registry \<Rightarrow> registry" where
  "run_cleanup c rg = cleanup_task (fst c) (snd c) (rg\<lparr>rg_ended := remove1 c (rg_ended rg)\<rparr>)"

definition stop_task :: "string \<Rightarrow> registry \<Rightarrow> registry \<times> bool" where
  "stop_task task_id rg =
     (if task_id \<notin> set (rg_tasks rg) then (rg, False)
      else (end_task task_id (rg\<lparr>rg_tasks := filter (\<lambda>t. t \<noteq> task_id) (rg_tasks rg)\<rparr>), True))"

definition save_response_stream ::
    "string option \<Rightarrow> string option \<Rightarrow> string option \<Rightarrow> string \<Rightarrow> pyval list \<Rightarrow> registry \<Rightarrow> registry"
where
  "save_response_stream task_id chat_id message_id content output rg =
     (case (task_id, chat_id, message_id) of
        (Some t, Some c, Some m) \<Rightarrow>
          if t = [] \<or> c = [] \<or> m = [] then rg
          else rg\<lparr>rg_streams := dset t [(''chat_id'', PStr c), (''message_id'', PStr m),
                   (''content'', PStr content), (''output'', PList output)] (rg_streams rg)\<rparr>
      | _ \<Rightarrow> rg)"

definition get_response_streams_by_chat_id :: "string \<Rightarrow> registry \<Rightarrow> pydict list" where
  "get_response_streams_by_chat_id chat_id rg =
     filter (\<lambda>stream. stream \<noteq> [] \<and> dget stream ''chat_id'' = PStr chat_id)
       (map (\<lambda>t. dget_or (rg_streams rg) t []) (list_task_ids_by_item_id (Some chat_id) rg))"

definition clear_response_stream :: "string option \<Rightarrow> registry \<Rightarrow> registry" where
  "clear_response_stream task_id rg =
     (case task_id of
        None \<Rightarrow> rg
      | Some t \<Rightarrow> if t = [] then rg else rg\<lparr>rg_streams := dpop t (rg_streams rg)\<rparr>)"

subsection \<open>Reachable registries\<close>

text \<open>Only a running task saves its own stream, as the middleware does.\<close>

inductive registry_step :: "registry \<Rightarrow> registry \<Rightarrow> bool" where
  create: "t \<noteq> [] \<Longrightarrow> t \<notin> fst ` set (rg_live rg @ rg_ended rg) \<Longrightarrow> t \<notin> set (rg_tasks rg) \<Longrightarrow>
    registry_step rg (create_task t i rg)"
| ends: "t \<in> fst ` set (rg_live rg) \<Longrightarrow> registry_step rg (end_task t rg)"
| cleanup: "c \<in> set (rg_ended rg) \<Longrightarrow> registry_step rg (run_cleanup c rg)"
| stop: "registry_step rg (fst (stop_task t rg))"
| save: "t \<in> fst ` set (rg_live rg) \<Longrightarrow> registry_step rg (save_response_stream (Some t) c m content output rg)"
| clear: "registry_step rg (clear_response_stream t rg)"

inductive registry_reachable :: "registry \<Rightarrow> bool" where
  start: "registry_reachable empty_registry"
| step: "registry_reachable rg \<Longrightarrow> registry_step rg rg' \<Longrightarrow> registry_reachable rg'"

subsection \<open>Stopping the tasks of an item\<close>

text \<open>
  The \<open>for\<close> loop of \<open>stop_item_tasks\<close> holds the live list and an index: the state of the loop is the
  index, and the result once it has returned. Between two turns ended tasks may be cleaned up.
\<close>

definition stop_item_turn :: "string option \<Rightarrow> registry \<Rightarrow> nat \<Rightarrow> registry \<times> nat \<times> bool option" where
  "stop_item_turn i rg n =
     (let task_ids = list_task_ids_by_item_id i rg
      in if n < length task_ids
         then (case stop_task (task_ids ! n) rg of
                 (rg', True) \<Rightarrow> (rg', Suc n, None)
               | (rg', False) \<Rightarrow> (rg', Suc n, Some False))
         else (rg, n, Some True))"

inductive stop_item_step ::
    "string option \<Rightarrow> registry \<times> nat \<times> bool option \<Rightarrow> registry \<times> nat \<times> bool option \<Rightarrow> bool"
  for i :: "string option"
where
  turn: "stop_item_step i (rg, n, None) (stop_item_turn i rg n)"
| clean: "c \<in> set (rg_ended rg) \<Longrightarrow> stop_item_step i (rg, n, res) (run_cleanup c rg, n, res)"

definition stop_item_tasks :: "string option \<Rightarrow> registry \<Rightarrow> registry \<Rightarrow> bool \<Rightarrow> bool" where
  "stop_item_tasks i rg rg' status = (\<exists>n. (stop_item_step i)\<^sup>*\<^sup>* (rg, 0, None) (rg', n, Some status))"

subsection \<open>The invariant\<close>

text \<open>\<open>active\<close>: the tasks that run or wait for their cleanup.\<close>

definition active :: "registry \<Rightarrow> (string \<times> string option) list" where
  "active rg = rg_live rg @ rg_ended rg"

definition items_ok :: "(string option \<times> string list) list \<Rightarrow> (string \<times> string option) set \<Rightarrow> bool" where
  "items_ok items act =
     (\<forall>i. given i \<longrightarrow>
        (dhas items i \<longrightarrow> dget_or items i [] \<noteq> []) \<and> distinct (dget_or items i []) \<and>
        set (dget_or items i []) = {t. (t, i) \<in> act})"

definition tasks_ok :: "registry \<Rightarrow> bool" where
  "tasks_ok rg =
     (distinct (map fst (active rg)) \<and> fst ` set (rg_live rg) \<subseteq> set (rg_tasks rg) \<and>
      set (rg_tasks rg) \<subseteq> fst ` set (active rg) \<and> fst ` set (rg_streams rg) \<subseteq> fst ` set (active rg))"

definition registry_ok :: "registry \<Rightarrow> bool" where
  "registry_ok rg = (tasks_ok rg \<and> items_ok (rg_items rg) (set (active rg)))"

lemma items_ok_at:
  "items_ok items act \<longleftrightarrow>
     (\<forall>i. given i \<longrightarrow> (dhas items i \<longrightarrow> dget_or items i [] \<noteq> []) \<and> distinct (dget_or items i []) \<and>
        (\<forall>t. t \<in> set (dget_or items i []) \<longleftrightarrow> (t, i) \<in> act))"
  by (auto simp: items_ok_def)

lemma add_item_task_get:
  "dget_or (add_item_task t i items) j [] = (if j = i then dget_or items i [] @ [t] else dget_or items j [])"
  "dhas (add_item_task t i items) j \<longleftrightarrow> j = i \<or> dhas items j"
  by (auto simp: add_item_task_def)

lemma remove_item_task_get:
  assumes "given i"
  shows "dget_or (remove_item_task t i items) j [] =
      (if j = i then remove1 t (dget_or items i []) else dget_or items j [])"
    and "dhas (remove_item_task t i items) j \<Longrightarrow>
      dhas items j \<and> (j = i \<longrightarrow> t \<in> set (dget_or items i []) \<longrightarrow> remove1 t (dget_or items i []) \<noteq> [])"
  using assms
  by (auto simp: remove_item_task_def Let_def dget_or_def dhas_def map_of_dpop map_of_dset remove1_idem
      split: if_splits option.splits)

lemma items_ok_add:
  assumes "items_ok items act" "t \<notin> fst ` act"
  shows "items_ok (add_item_task t i items) (insert (t, i) act)"
proof -
  have "(t, j) \<notin> act" for j using assms(2) by force
  with assms(1) show ?thesis unfolding items_ok_at add_item_task_get by simp
qed

lemma items_ok_remove:
  assumes "items_ok items act" "(t, i) \<in> act" "\<And>j. (t, j) \<in> act \<Longrightarrow> j = i"
  shows "items_ok (remove_item_task t i items) (act - {(t, i)})"
proof (cases "given i")
  case False
  then show ?thesis using assms(1) unfolding items_ok_at by (auto simp: remove_item_task_def)
next
  case True
  show ?thesis
    unfolding items_ok_at remove_item_task_get(1) [OF True]
  proof (intro allI impI)
    fix j
    assume "given j"
    then show "(dhas (remove_item_task t i items) j \<longrightarrow>
          (if j = i then remove1 t (dget_or items i []) else dget_or items j []) \<noteq> []) \<and>
        distinct (if j = i then remove1 t (dget_or items i []) else dget_or items j []) \<and>
        (\<forall>ta. ta \<in> set (if j = i then remove1 t (dget_or items i []) else dget_or items j []) \<longleftrightarrow>
           (ta, j) \<in> act - {(t, i)})"
      using assms(1,2) True remove_item_task_get(2) [OF True, of t items j]
      by (cases "j = i") (simp_all add: items_ok_at)
  qed
qed

lemma empty_registry_ok: "registry_ok empty_registry"
  by (simp add: registry_ok_def empty_registry_def active_def tasks_ok_def items_ok_def)

lemma create_task_ok:
  assumes "registry_ok rg" "t \<notin> fst ` set (active rg)"
  shows "registry_ok (create_task t i rg)"
proof -
  have act: "set (active (create_task t i rg)) = insert (t, i) (set (active rg))"
    by (auto simp: active_def create_task_def)
  have "items_ok (rg_items (create_task t i rg)) (insert (t, i) (set (active rg)))"
    using items_ok_add [of "rg_items rg" "set (active rg)" t i] assms
    by (simp add: registry_ok_def create_task_def)
  moreover have "tasks_ok (create_task t i rg)"
    using assms unfolding registry_ok_def tasks_ok_def by (auto simp: active_def create_task_def)
  ultimately show ?thesis by (simp add: registry_ok_def act)
qed

lemma run_cleanup_ok:
  assumes "registry_ok rg" "c \<in> set (rg_ended rg)"
  shows "registry_ok (run_cleanup c rg)"
proof -
  obtain t i where c: "c = (t, i)" by (cases c)
  have d: "distinct (map fst (active rg))" using assms(1) by (simp add: registry_ok_def tasks_ok_def)
  have uniq: "(t, j) \<in> set (active rg) \<Longrightarrow> j = i" for j
    using eq_key_imp_eq_value [OF d, of t j i] assms(2) c by (simp add: active_def)
  have notlive: "t \<notin> fst ` set (rg_live rg)"
    using d assms(2) c by (force simp: active_def)
  have dist: "distinct (rg_live rg @ rg_ended rg)" using iffD1 [OF distinct_map d] unfolding active_def by blast
  have act: "set (active (run_cleanup c rg)) = set (active rg) - {(t, i)}"
    using dist assms(2) c notlive by (auto simp: active_def run_cleanup_def cleanup_task_def)
  have "items_ok (rg_items (run_cleanup c rg)) (set (active rg) - {(t, i)})"
  proof -
    have "items_ok (rg_items rg) (set (active rg))" "(t, i) \<in> set (active rg)"
      using assms c by (simp_all add: registry_ok_def active_def)
    from items_ok_remove [OF this uniq] show ?thesis by (simp add: run_cleanup_def cleanup_task_def c Let_def)
  qed
  moreover have "tasks_ok (run_cleanup c rg)"
  proof -
    have "active (run_cleanup c rg) = rg_live rg @ remove1 c (rg_ended rg)"
      by (simp add: active_def run_cleanup_def cleanup_task_def)
    moreover have "distinct (map fst (rg_live rg @ remove1 c (rg_ended rg)))"
      using d set_remove1_subset [of c "rg_ended rg"]
      by (auto simp: active_def distinct_map inj_on_def distinct_remove1)
    ultimately have d': "distinct (map fst (active (run_cleanup c rg)))" by simp
    have act': "fst ` set (active (run_cleanup c rg)) = fst ` set (active rg) - {t}"
      unfolding act using uniq by force
    have eqs: "rg_live (run_cleanup c rg) = rg_live rg"
      "set (rg_tasks (run_cleanup c rg)) = set (rg_tasks rg) - {t}"
      "fst ` set (rg_streams (run_cleanup c rg)) = fst ` set (rg_streams rg) - {t}"
      by (auto simp: run_cleanup_def cleanup_task_def c keys_dpop)
    have "fst ` set (rg_live rg) \<subseteq> set (rg_tasks rg)" "set (rg_tasks rg) \<subseteq> fst ` set (active rg)"
      "fst ` set (rg_streams rg) \<subseteq> fst ` set (active rg)"
      using assms(1) by (simp_all add: registry_ok_def tasks_ok_def)
    then show ?thesis unfolding tasks_ok_def eqs act' using d' notlive by blast
  qed
  ultimately show ?thesis by (simp add: registry_ok_def act)
qed

lemma end_task_active: "set (active (end_task t rg)) = set (active rg)"
  by (auto simp: active_def end_task_def)

lemma end_task_distinct: "distinct (map fst (active rg)) \<Longrightarrow> distinct (map fst (active (end_task t rg)))"
  by (auto simp: active_def end_task_def distinct_map inj_on_def)

lemma end_task_live: "fst ` set (rg_live (end_task t rg)) = fst ` set (rg_live rg) - {t}"
  by (auto simp: end_task_def)

lemma end_task_same [simp]:
  "rg_tasks (end_task t rg) = rg_tasks rg" "rg_streams (end_task t rg) = rg_streams rg"
  "rg_items (end_task t rg) = rg_items rg"
  by (simp_all add: end_task_def)

lemma end_task_ok: "registry_ok rg \<Longrightarrow> registry_ok (end_task t rg)"
  unfolding registry_ok_def tasks_ok_def end_task_active end_task_live end_task_same
  using end_task_distinct by blast

lemma stop_task_ok: "registry_ok rg \<Longrightarrow> registry_ok (fst (stop_task t rg))"
proof (cases "t \<in> set (rg_tasks rg)")
  case True
  let ?rg = "rg\<lparr>rg_tasks := filter (\<lambda>t'. t' \<noteq> t) (rg_tasks rg)\<rparr>"
  have eq: "fst (stop_task t rg) = end_task t ?rg" using True by (simp add: stop_task_def)
  have same: "active ?rg = active rg" "rg_live ?rg = rg_live rg" "rg_items ?rg = rg_items rg"
    "rg_streams ?rg = rg_streams rg" "set (rg_tasks ?rg) = set (rg_tasks rg) - {t}"
    by (auto simp: active_def)
  assume "registry_ok rg"
  then show ?thesis
    unfolding eq registry_ok_def tasks_ok_def end_task_active end_task_live end_task_same same
    using end_task_distinct [of ?rg t] by (auto simp: same)
qed (simp add: stop_task_def)

lemma save_response_stream_ok:
  assumes "registry_ok rg" "t \<in> fst ` set (rg_live rg)"
  shows "registry_ok (save_response_stream (Some t) c m content output rg)"
proof -
  let ?rg = "save_response_stream (Some t) c m content output rg"
  have same: "active ?rg = active rg" "rg_live ?rg = rg_live rg" "rg_items ?rg = rg_items rg" "rg_tasks ?rg = rg_tasks rg"
    by (auto simp: active_def save_response_stream_def split: option.splits)
  have "fst ` set (rg_streams ?rg) \<subseteq> insert t (fst ` set (rg_streams rg))"
    by (auto simp: save_response_stream_def dest!: set_dset split: option.splits)
  moreover have "insert t (fst ` set (rg_streams rg)) \<subseteq> fst ` set (active rg)"
    using assms by (auto simp: registry_ok_def tasks_ok_def active_def)
  ultimately have "fst ` set (rg_streams ?rg) \<subseteq> fst ` set (active rg)" by (rule subset_trans)
  with assms(1) show ?thesis by (simp add: registry_ok_def tasks_ok_def same)
qed

lemma clear_response_stream_ok: "registry_ok rg \<Longrightarrow> registry_ok (clear_response_stream t rg)"
proof -
  assume ok: "registry_ok rg"
  let ?rg = "clear_response_stream t rg"
  have same: "active ?rg = active rg" "rg_live ?rg = rg_live rg" "rg_items ?rg = rg_items rg" "rg_tasks ?rg = rg_tasks rg"
    by (auto simp: active_def clear_response_stream_def split: option.splits)
  have "fst ` set (rg_streams ?rg) \<subseteq> fst ` set (rg_streams rg)"
    by (auto simp: clear_response_stream_def dest: set_dpop split: option.splits)
  moreover have "fst ` set (rg_streams rg) \<subseteq> fst ` set (active rg)"
    using ok by (simp add: registry_ok_def tasks_ok_def)
  ultimately have "fst ` set (rg_streams ?rg) \<subseteq> fst ` set (active rg)" by (rule subset_trans)
  with ok show ?thesis by (simp add: registry_ok_def tasks_ok_def same)
qed

lemma registry_reachable_ok: "registry_reachable rg \<Longrightarrow> registry_ok rg"
proof (induction rule: registry_reachable.induct)
  case start
  show ?case by (rule empty_registry_ok)
next
  case (step rg rg')
  from step.hyps(2) show ?case
  proof (cases rule: registry_step.cases)
    case (create t i)
    with step.IH create_task_ok [of rg t i] show ?thesis by (simp add: active_def)
  qed (use step.IH in \<open>auto intro: run_cleanup_ok end_task_ok stop_task_ok save_response_stream_ok
      clear_response_stream_ok\<close>)
qed

subsection \<open>Properties\<close>



text \<open>In memory, stopping the tasks of an item walks the list that the cleanup shrinks: with three
  running tasks there is a run, the one the event loop takes when a cancelled task ends at once, that
  reports success while the third task still runs.\<close>

lemma stop_item_tasks_may_skip:
  assumes "registry_reachable rg" "given i"
    and "list_task_ids_by_item_id i rg = [t1, t2, t3]"
    and "{(t1, i), (t2, i), (t3, i)} \<subseteq> set (rg_live rg)"
  shows "\<exists>rg'. stop_item_tasks i rg rg' True \<and> (t3, i) \<in> set (rg_live rg') \<and> t3 \<in> set (list_tasks rg')"
proof -
  have ok: "registry_ok rg" by (rule registry_reachable_ok [OF assms(1)])
  have d: "distinct [t1, t2, t3]"
    using ok assms(2,3) by (metis items_ok_def list_task_ids_by_item_id_def registry_ok_def)
  have tasks: "t1 \<in> set (rg_tasks rg)" "t2 \<in> set (rg_tasks rg)" "t3 \<in> set (rg_tasks rg)"
    using ok assms(4) by (auto simp: registry_ok_def tasks_ok_def)
  define rg1 where "rg1 = fst (stop_task t1 rg)"
  define rg2 where "rg2 = fst (stop_task t2 rg1)"
  define rg3 where "rg3 = run_cleanup (t1, i) rg2"
  note defs = rg1_def rg2_def rg3_def
  have items: "rg_items rg1 = rg_items rg" "rg_items rg2 = rg_items rg"
    by (simp_all add: defs stop_task_def)
  have s1: "stop_task t1 rg = (rg1, True)" using tasks by (simp add: rg1_def stop_task_def)
  have t2: "t2 \<in> set (rg_tasks rg1)" using tasks d by (auto simp: rg1_def stop_task_def)
  have s2: "stop_task t2 rg1 = (rg2, True)" using t2 by (simp add: rg2_def stop_task_def)
  have turn1: "stop_item_turn i rg 0 = (rg1, 1, None)"
    using assms(3) s1 by (simp add: stop_item_turn_def Let_def)
  have turn2: "stop_item_turn i rg1 1 = (rg2, 2, None)"
    using assms(3) s2 items(1) by (simp add: stop_item_turn_def Let_def list_task_ids_by_item_id_def)
  have ended: "(t1, i) \<in> set (rg_ended rg2)"
    using tasks t2 assms(4) by (auto simp: rg1_def rg2_def stop_task_def end_task_def)
  have "dget_or (rg_items rg3) i [] = [t2, t3]"
    using assms(2,3) items(2)
    by (simp add: rg3_def run_cleanup_def cleanup_task_def remove_item_task_get list_task_ids_by_item_id_def)
  then have turn3: "stop_item_turn i rg3 2 = (rg3, 2, Some True)"
    by (simp add: stop_item_turn_def Let_def list_task_ids_by_item_id_def)
  have "stop_item_step i (rg, 0, None) (rg1, 1, None)" using stop_item_step.turn [of i rg 0] turn1 by simp
  moreover have "stop_item_step i (rg1, 1, None) (rg2, 2, None)"
    using stop_item_step.turn [of i rg1 1] turn2 by simp
  moreover have "stop_item_step i (rg2, 2, None) (rg3, 2, None)"
    using ended unfolding rg3_def by (rule stop_item_step.clean)
  moreover have "stop_item_step i (rg3, 2, None) (rg3, 2, Some True)"
    using stop_item_step.turn [of i rg3 2] turn3 by simp
  ultimately have "(stop_item_step i)\<^sup>*\<^sup>* (rg, 0, None) (rg3, 2, Some True)"
    by (meson converse_rtranclp_into_rtranclp rtranclp.rtrancl_refl)
  then have "stop_item_tasks i rg rg3 True" unfolding stop_item_tasks_def by blast
  moreover have "(t3, i) \<in> set (rg_live rg3)" "t3 \<in> set (list_tasks rg3)"
    using assms(4) d tasks t2
    by (auto simp: defs run_cleanup_def cleanup_task_def list_tasks_def stop_task_def end_task_def)
  ultimately show ?thesis by blast
qed

theorem stop_item_tasks_may_skip_witness:
  "let rg = create_task ''c'' (Some ''x'') (create_task ''b'' (Some ''x'') (create_task ''a'' (Some ''x'') empty_registry))
   in \<exists>rg'. stop_item_tasks (Some ''x'') rg rg' True \<and> ''c'' \<in> set (list_tasks rg')"
proof -
  let ?rg = "create_task ''c'' (Some ''x'') (create_task ''b'' (Some ''x'') (create_task ''a'' (Some ''x'') empty_registry))"
  have r: "registry_reachable ?rg"
    by (rule registry_reachable.step [OF registry_reachable.step [OF registry_reachable.step [OF registry_reachable.start
              registry_step.create] registry_step.create] registry_step.create])
      (simp_all add: empty_registry_def create_task_def)
  have l: "list_task_ids_by_item_id (Some ''x'') ?rg = [''a'', ''b'', ''c'']"
    "{(''a'', Some ''x''), (''b'', Some ''x''), (''c'', Some ''x'')} \<subseteq> set (rg_live ?rg)"
    by (simp_all add: empty_registry_def create_task_def add_item_task_def list_task_ids_by_item_id_def)
  have "given (Some ''x'')" by (simp add: given_def)
  from stop_item_tasks_may_skip [OF r this l] show ?thesis unfolding Let_def by blast
qed

text \<open>A task created without an item is entered under the key None and never removed from there: its
  cleanup leaves the entry, whatever the registry held.\<close>

lemma task_without_item_leaks:
  "t \<in> set (list_task_ids_by_item_id None (cleanup_task t None (create_task t None rg)))"
  by (simp add: list_task_ids_by_item_id_def cleanup_task_def create_task_def remove_item_task_def given_def
      add_item_task_def)

end
