(* ===== verification/Ydoc_Manager.thy ===== *)
theory Ydoc_Manager
  imports Py_Prelude
begin

section \<open>Collaborative documents\<close>

text \<open>
  Models the \<open>YdocManager\<close> of \<open>socket/utils.py\<close> when no Redis is configured: the updates of every
  open document, the sessions that joined it, and the rolling compaction that keeps the list of updates
  short. The document library \<open>pycrdt\<close> is an argument: an empty document, applying an update, and
  encoding a document as one update.
\<close>

subsection \<open>State\<close>

record ('d, 'u) ydoc_lib =
  yl_empty :: 'd
  yl_apply :: "'d \<Rightarrow> 'u \<Rightarrow> 'd"
  yl_get_update :: "'d \<Rightarrow> 'u"

record 'u ydoc_state =
  ys_updates :: "(string \<times> 'u list) list"
  ys_users :: "(string \<times> string list) list"

definition compaction_threshold :: nat where
  "compaction_threshold = 500"

definition sanitize_id :: "string \<Rightarrow> string" where
  "sanitize_id document_id = map (\<lambda>c. if c = CHR '':'' then CHR ''_'' else c) document_id"

definition ydoc_content :: "('d, 'u) ydoc_lib \<Rightarrow> 'u list \<Rightarrow> 'd" where
  "ydoc_content lib us = foldl (yl_apply lib) (yl_empty lib) us"

subsection \<open>Updates\<close>

definition compact_updates_memory :: "('d, 'u) ydoc_lib \<Rightarrow> string \<Rightarrow> 'u ydoc_state \<Rightarrow> 'u ydoc_state" where
  "compact_updates_memory lib document_id st =
     (let updates = dget_or (ys_updates st) document_id []; mid = length updates div 2
      in if length updates \<le> 1 then st
         else st\<lparr>ys_updates := dset document_id
                ([yl_get_update lib (ydoc_content lib (take mid updates))] @ drop mid updates) (ys_updates st)\<rparr>)"

definition append_to_updates :: "('d, 'u) ydoc_lib \<Rightarrow> string \<Rightarrow> 'u \<Rightarrow> 'u ydoc_state \<Rightarrow> 'u ydoc_state" where
  "append_to_updates lib doc update st =
     (let document_id = sanitize_id doc;
          updates = dget_or (ys_updates st) document_id [] @ [update];
          st1 = st\<lparr>ys_updates := dset document_id updates (ys_updates st)\<rparr>
      in if length updates \<ge> compaction_threshold then compact_updates_memory lib document_id st1 else st1)"

definition get_updates :: "string \<Rightarrow> 'u ydoc_state \<Rightarrow> 'u list" where
  "get_updates doc st = dget_or (ys_updates st) (sanitize_id doc) []"

definition document_exists :: "string \<Rightarrow> 'u ydoc_state \<Rightarrow> bool" where
  "document_exists doc st = dhas (ys_updates st) (sanitize_id doc)"

subsection \<open>Sessions\<close>

text \<open>A set of sessions is a list without repetitions.\<close>

definition get_users :: "string \<Rightarrow> 'u ydoc_state \<Rightarrow> string list" where
  "get_users doc st = dget_or (ys_users st) (sanitize_id doc) []"

definition add_user :: "string \<Rightarrow> string \<Rightarrow> 'u ydoc_state \<Rightarrow> 'u ydoc_state" where
  "add_user doc user_id st =
     (let document_id = sanitize_id doc; users = dget_or (ys_users st) document_id []
      in st\<lparr>ys_users := dset document_id (if user_id \<in> set users then users else users @ [user_id]) (ys_users st)\<rparr>)"

definition remove_user :: "string \<Rightarrow> string \<Rightarrow> 'u ydoc_state \<Rightarrow> 'u ydoc_state" where
  "remove_user doc user_id st =
     (let document_id = sanitize_id doc; users = dget_or (ys_users st) document_id []
      in if dhas (ys_users st) document_id \<and> user_id \<in> set users
         then st\<lparr>ys_users := dset document_id (filter (\<lambda>u. u \<noteq> user_id) users) (ys_users st)\<rparr>
         else st)"

definition clear_document :: "string \<Rightarrow> 'u ydoc_state \<Rightarrow> 'u ydoc_state" where
  "clear_document doc st =
     (let document_id = sanitize_id doc
      in st\<lparr>ys_updates := dpop document_id (ys_updates st), ys_users := dpop document_id (ys_users st)\<rparr>)"

definition leave_document :: "string \<Rightarrow> string \<Rightarrow> 'u ydoc_state \<Rightarrow> 'u ydoc_state" where
  "leave_document user_id document_id st =
     (let users = dget_or (ys_users st) document_id []; rest = filter (\<lambda>u. u \<noteq> user_id) users
      in if user_id \<notin> set users then st
         else if rest = []
         then clear_document document_id (st\<lparr>ys_users := dpop document_id (ys_users st)\<rparr>)
         else st\<lparr>ys_users := dset document_id rest (ys_users st)\<rparr>)"

definition remove_user_from_all_documents :: "string \<Rightarrow> 'u ydoc_state \<Rightarrow> 'u ydoc_state" where
  "remove_user_from_all_documents user_id st = fold (leave_document user_id) (map fst (ys_users st)) st"

subsection \<open>Compaction keeps the document\<close>

text \<open>
  What the code relies on in \<open>pycrdt\<close>: the update that encodes a document rebuilds it from an empty one.
\<close>

definition lawful :: "('d, 'u) ydoc_lib \<Rightarrow> bool" where
  "lawful lib = (\<forall>us. yl_apply lib (yl_empty lib) (yl_get_update lib (ydoc_content lib us)) = ydoc_content lib us)"

lemma sanitize_id_idem [simp]: "sanitize_id (sanitize_id d) = sanitize_id d"
  by (simp add: sanitize_id_def)

lemma content_append: "ydoc_content lib (us @ vs) = foldl (yl_apply lib) (ydoc_content lib us) vs"
  by (simp add: ydoc_content_def)

lemma content_snapshot:
  "lawful lib \<Longrightarrow> ydoc_content lib (yl_get_update lib (ydoc_content lib us) # vs) = ydoc_content lib (us @ vs)"
  unfolding content_append by (simp add: ydoc_content_def lawful_def)

lemma content_compacted:
  "lawful lib \<Longrightarrow> ydoc_content lib ([yl_get_update lib (ydoc_content lib (take n us))] @ drop n us) = ydoc_content lib us"
  by (simp add: content_snapshot)

lemma append_updates:
  assumes "lawful lib"
  shows "ydoc_content lib (get_updates d (append_to_updates lib doc u st)) =
      ydoc_content lib (get_updates d st @ (if sanitize_id doc = sanitize_id d then [u] else []))"
    and "length (get_updates d st) < compaction_threshold \<Longrightarrow>
      length (get_updates d (append_to_updates lib doc u st)) < compaction_threshold"
proof -
  let ?i = "sanitize_id doc"
  let ?us = "dget_or (ys_updates st) ?i [] @ [u]"
  define us' where "us' = (if length ?us \<ge> compaction_threshold
    then [yl_get_update lib (ydoc_content lib (take (length ?us div 2) ?us))] @ drop (length ?us div 2) ?us else ?us)"
  have get: "get_updates d (append_to_updates lib doc u st) = (if ?i = sanitize_id d then us' else get_updates d st)"
    by (auto simp: append_to_updates_def compact_updates_memory_def get_updates_def us'_def Let_def
        compaction_threshold_def)
  have "ydoc_content lib us' = ydoc_content lib ?us"
    unfolding us'_def using content_compacted [OF assms] by (cases "length ?us \<ge> compaction_threshold") (simp_all only: if_True if_False)
  with get show "ydoc_content lib (get_updates d (append_to_updates lib doc u st)) =
      ydoc_content lib (get_updates d st @ (if ?i = sanitize_id d then [u] else []))"
    by (simp add: get_updates_def)
  assume "length (get_updates d st) < compaction_threshold"
  with get show "length (get_updates d (append_to_updates lib doc u st)) < compaction_threshold"
    by (auto simp: us'_def get_updates_def compaction_threshold_def)
qed

definition empty_ydocs :: "'u ydoc_state" where
  "empty_ydocs = \<lparr>ys_updates = [], ys_users = []\<rparr>"

definition append_all :: "('d, 'u) ydoc_lib \<Rightarrow> (string \<times> 'u) list \<Rightarrow> 'u ydoc_state \<Rightarrow> 'u ydoc_state" where
  "append_all lib ops st = fold (\<lambda>(doc, u). append_to_updates lib doc u) ops st"

lemma append_all_content:
  assumes "lawful lib"
  shows "ydoc_content lib (get_updates d (append_all lib ops st)) =
      ydoc_content lib (get_updates d st @ map snd (filter (\<lambda>(doc, u). sanitize_id doc = sanitize_id d) ops))"
    and "length (get_updates d st) < compaction_threshold \<Longrightarrow>
      length (get_updates d (append_all lib ops st)) < compaction_threshold"
proof (induction ops arbitrary: st)
  case (Cons op ops)
  obtain doc u where op: "op = (doc, u)" by (cases op)
  {
    case 1
    show ?case
      using Cons.IH(1) [of "append_to_updates lib doc u st"] append_updates(1) [OF assms, of d doc u st] op
      by (simp add: append_all_def content_append)
  next
    case 2
    then show ?case
      using Cons.IH(2) [of "append_to_updates lib doc u st"] append_updates(2) [OF assms, of d st doc u] op
      by (simp add: append_all_def)
  }
qed (simp_all add: append_all_def)

subsection \<open>Leaving documents\<close>

definition sanitized :: "'u ydoc_state \<Rightarrow> bool" where
  "sanitized st = (\<forall>d \<in> fst ` set (ys_users st). sanitize_id d = d)"

lemma leave_document_other:
  "sanitize_id d' = d' \<Longrightarrow> d \<noteq> d' \<Longrightarrow>
     map_of (ys_users (leave_document u d' st)) d = map_of (ys_users st) d \<and>
     map_of (ys_updates (leave_document u d' st)) d = map_of (ys_updates st) d"
  by (simp add: leave_document_def clear_document_def Let_def map_of_dpop map_of_dset)

lemma leave_document_same:
  assumes "sanitize_id d = d"
  shows "dget_or (ys_users (leave_document u d st)) d [] = filter (\<lambda>v. v \<noteq> u) (dget_or (ys_users st) d []) \<and>
    map_of (ys_updates (leave_document u d st)) d =
      (if u \<in> set (dget_or (ys_users st) d []) \<and> filter (\<lambda>v. v \<noteq> u) (dget_or (ys_users st) d []) = []
       then None else map_of (ys_updates st) d)"
proof -
  define users where "users = dget_or (ys_users st) d []"
  define rest where "rest = filter (\<lambda>v. v \<noteq> u) users"
  have "rest = users" if "u \<notin> set users" using that by (auto simp: rest_def filter_id_conv)
  then show ?thesis
    using assms
    by (simp add: leave_document_def clear_document_def Let_def map_of_dpop dget_or_def [of "dpop _ _"]
        flip: users_def rest_def)
qed

lemma fold_leave:
  assumes "distinct ds" "\<forall>d \<in> set ds. sanitize_id d = d"
  shows "dget_or (ys_users (fold (leave_document u) ds st)) d [] =
      (if d \<in> set ds then filter (\<lambda>v. v \<noteq> u) (dget_or (ys_users st) d []) else dget_or (ys_users st) d []) \<and>
    map_of (ys_updates (fold (leave_document u) ds st)) d =
      (if d \<in> set ds \<and> u \<in> set (dget_or (ys_users st) d []) \<and> filter (\<lambda>v. v \<noteq> u) (dget_or (ys_users st) d []) = []
       then None else map_of (ys_updates st) d)"
  using assms
proof (induction ds arbitrary: st)
  case (Cons d' ds)
  show ?case
  proof (cases "d = d'")
    case True
    with Cons leave_document_same [of d u st] show ?thesis by auto
  next
    case False
    with Cons leave_document_other [of d' d u st] show ?thesis by (auto simp: dget_or_def)
  qed
qed simp

subsection \<open>Properties\<close>


definition set_lib :: "(nat set, nat set) ydoc_lib" where
  "set_lib = \<lparr>yl_empty = {}, yl_apply = (\<union>), yl_get_update = (\<lambda>d. d)\<rparr>"


text \<open>When a session disconnects it is in no document any more; a document only it had open loses its
  updates, and every other document keeps its updates and its other sessions.\<close>

lemma disconnect_leaves_all_documents:
  assumes "distinct (map fst (ys_users st))" "sanitized st" "sanitize_id d = d"
    and st'_def: "st' = remove_user_from_all_documents u st"
  shows "get_users d st' = filter (\<lambda>v. v \<noteq> u) (get_users d st) \<and>
    (document_exists d st' \<longleftrightarrow> document_exists d st \<and> \<not> (u \<in> set (get_users d st) \<and> set (get_users d st) = {u})) \<and>
    (document_exists d st' \<longrightarrow> get_updates d st' = get_updates d st)"
proof -
  have key: "d \<in> fst ` set (ys_users st) \<longleftrightarrow> map_of (ys_users st) d \<noteq> None"
    by (simp add: map_of_eq_None_iff)
  have "d \<in> fst ` set (ys_users st)" if "u \<in> set (get_users d st)"
    unfolding key using that assms(3) by (cases "map_of (ys_users st) d") (simp_all add: get_users_def dget_or_def)
  moreover have "get_users d st = []" if "d \<notin> fst ` set (ys_users st)"
    using that assms(3) unfolding key by (simp add: get_users_def dget_or_def)
  moreover have "u \<in> set (get_users d st) \<and> filter (\<lambda>v. v \<noteq> u) (get_users d st) = [] \<longleftrightarrow>
      u \<in> set (get_users d st) \<and> set (get_users d st) = {u}"
    by (auto simp: filter_empty_conv)
  ultimately show ?thesis
    using fold_leave [OF assms(1), of u st d] assms(2,3)
    unfolding st'_def remove_user_from_all_documents_def get_users_def document_exists_def get_updates_def sanitized_def
    by (auto simp: dhas_def dget_or_def)
qed

theorem disconnect_leaves_all_documents_witness:
  "let st = append_to_updates set_lib ''a'' {1} (add_user ''b'' ''s2'' (add_user ''b'' ''s1'' (add_user ''a'' ''s1'' empty_ydocs)));
       st' = remove_user_from_all_documents ''s1'' st
   in \<not> document_exists ''a'' st' \<and> get_users ''b'' st' = [''s2'']"
proof -
  define st where "st = append_to_updates set_lib ''a'' {1} (add_user ''b'' ''s2'' (add_user ''b'' ''s1'' (add_user ''a'' ''s1'' empty_ydocs)))"
  have fields: "ys_users st = [(''a'', [''s1'']), (''b'', [''s1'', ''s2''])]" "ys_updates st = [(''a'', [{1}])]"
    by (simp_all add: st_def append_to_updates_def compaction_threshold_def add_user_def empty_ydocs_def sanitize_id_def Let_def)
  have h: "distinct (map fst (ys_users st))" "sanitized st" "sanitize_id ''a'' = ''a''" "sanitize_id ''b'' = ''b''"
    unfolding sanitized_def fields by (simp_all add: sanitize_id_def)
  have "get_users ''a'' st = [''s1'']" "get_users ''b'' st = [''s1'', ''s2'']"
    by (simp_all add: get_users_def h fields)
  then show ?thesis
    using disconnect_leaves_all_documents [OF h(1,2,3) refl, of "''s1''"]
      disconnect_leaves_all_documents [OF h(1,2,4) refl, of "''s1''"]
    unfolding st_def [symmetric] by (simp add: Let_def)
qed

end
