(* ===== verification/Stream_Chunks.thy ===== *)
theory Stream_Chunks
  imports Py_Prelude "HOL-Library.Word"
begin

section \<open>Lines of a chunked stream\<close>

text \<open>
  Models \<open>stream_chunks_handler\<close> of \<open>utils/misc.py\<close>: a response arrives in chunks of bytes that need not
  end where a line does; the handler buffers the unfinished line, yields complete lines and drops a line
  longer than the configured maximum without buffering it. The specification says which lines the whole
  stream has, whatever the chunks.
\<close>

type_synonym bytes = "8 word list"

definition newline :: "8 word" where
  "newline = 10"

subsection \<open>The handler\<close>

text \<open>The limit: \<^const>\<open>None\<close> when it is unset or not positive.\<close>

definition max_buffer_size :: "int option \<Rightarrow> nat option" where
  "max_buffer_size configured =
     (case configured of None \<Rightarrow> None | Some n \<Rightarrow> if n \<le> 0 then None else Some (nat n))"

definition exceeds :: "nat option \<Rightarrow> bytes \<Rightarrow> bool" where
  "exceeds limit line = (case limit of None \<Rightarrow> False | Some n \<Rightarrow> length line > n)"

text \<open>The loop over the completed lines: the flag, then the lines yielded.\<close>

fun emit_lines :: "nat option \<Rightarrow> bool \<Rightarrow> bytes list \<Rightarrow> bool \<times> bytes list" where
  "emit_lines limit dropping_line_tail [] = (dropping_line_tail, [])"
| "emit_lines limit dropping_line_tail (line # rest) =
     (if dropping_line_tail then emit_lines limit False rest
      else if exceeds limit line then emit_lines limit False rest
      else (case emit_lines limit False rest of (dropping, out) \<Rightarrow> (dropping, (line @ [newline]) # out)))"

definition handle_chunk :: "nat option \<Rightarrow> bytes \<Rightarrow> bytes \<times> bool \<Rightarrow> (bytes \<times> bool) \<times> bytes list" where
  "handle_chunk limit data st =
     (case st of (buffer, dropping_line_tail) \<Rightarrow>
        if data = [] then (st, [])
        else (let buffer1 = buffer @ data;
                  parts = str_split newline buffer1;
                  (lines, rest) = (if newline \<in> set data then (butlast parts, last parts) else ([], buffer1));
                  (dropping, out) = emit_lines limit dropping_line_tail lines
              in if exceeds limit rest then (([], True), out) else ((rest, dropping), out)))"

fun handle_chunks :: "nat option \<Rightarrow> bytes list \<Rightarrow> bytes \<times> bool \<Rightarrow> bytes list" where
  "handle_chunks limit [] (buffer, dropping_line_tail) =
     (if buffer \<noteq> [] \<and> \<not> dropping_line_tail then [buffer] else [])"
| "handle_chunks limit (data # chunks) st =
     (case handle_chunk limit data st of (st', out) \<Rightarrow> out @ handle_chunks limit chunks st')"

definition stream_chunks_handler :: "int option \<Rightarrow> bytes list \<Rightarrow> bytes list" where
  "stream_chunks_handler configured chunks = handle_chunks (max_buffer_size configured) chunks ([], False)"

subsection \<open>The specification\<close>

definition complete_lines :: "nat option \<Rightarrow> bytes list \<Rightarrow> bytes list" where
  "complete_lines limit lines = map (\<lambda>l. l @ [newline]) (filter (\<lambda>l. \<not> exceeds limit l) lines)"

definition stream_lines :: "nat option \<Rightarrow> bytes \<Rightarrow> bytes list" where
  "stream_lines limit s =
     (let parts = str_split newline s; final = last parts
      in complete_lines limit (butlast parts) @
         (if final \<noteq> [] \<and> \<not> exceeds limit final then [final] else []))"

subsection \<open>The invariant\<close>

text \<open>
  \<open>partial\<close> is the unfinished line of the stream so far. While nothing is being dropped the buffer is that
  line; otherwise the line is already too long and the buffer holds no line end.
\<close>

definition buffer_ok :: "nat option \<Rightarrow> bytes \<Rightarrow> bytes \<times> bool \<Rightarrow> bool" where
  "buffer_ok limit partial st =
     (case st of (buffer, dropping) \<Rightarrow>
        newline \<notin> set partial \<and> newline \<notin> set buffer \<and>
        (if dropping then exceeds limit partial else buffer = partial \<and> \<not> exceeds limit partial))"

lemma exceeds_append: "exceeds limit a \<Longrightarrow> exceeds limit (a @ b)"
  by (auto simp: exceeds_def split: option.splits)

lemma emit_lines_fresh: "emit_lines limit False lines = (False, complete_lines limit lines)"
  by (induction lines) (simp_all add: complete_lines_def)

lemma emit_lines_dropping:
  "emit_lines limit True lines = (lines = [], complete_lines limit (tl lines))"
  by (cases lines) (simp_all add: emit_lines_fresh complete_lines_def)

lemma split_buffer:
  assumes "newline \<notin> set p"
  shows "str_split newline (p @ data) = (p @ hd (str_split newline data)) # tl (str_split newline data)"
  by (simp add: str_split_append str_split_free [OF assms])

lemma split_last_free: "newline \<notin> set (last (str_split newline s))"
proof (induction s)
  case (Cons x s)
  then show ?case by (cases "str_split newline s") auto
qed simp

lemma split_many: "newline \<in> set data \<Longrightarrow> tl (str_split newline data) \<noteq> []"
  by (metis list.exhaust_sel str_split_not_Nil str_split_single)

lemma handle_chunk_ok:
  assumes ok: "buffer_ok limit partial st"
  shows "buffer_ok limit (last (str_split newline (partial @ data))) (fst (handle_chunk limit data st)) \<and>
    snd (handle_chunk limit data st) = complete_lines limit (butlast (str_split newline (partial @ data)))"
proof -
  obtain buffer dropping where st: "st = (buffer, dropping)" by (cases st)
  have free: "newline \<notin> set partial" "newline \<notin> set buffer"
    and drop: "dropping \<Longrightarrow> exceeds limit partial"
    and keep: "\<not> dropping \<Longrightarrow> buffer = partial \<and> \<not> exceeds limit partial"
    using ok by (auto simp: st buffer_ok_def split: if_splits)
  define d ds where "d = hd (str_split newline data)" and "ds = tl (str_split newline data)"
  have parts: "str_split newline (partial @ data) = (partial @ d) # ds"
    "str_split newline (buffer @ data) = (buffer @ d) # ds"
    by (simp_all add: split_buffer free d_def ds_def)
  show ?thesis
  proof (cases "newline \<in> set data")
    case True
    then have ds: "ds \<noteq> []" and ne: "data \<noteq> []" by (auto simp: ds_def split_many)
    have rest: "newline \<notin> set (last ds)"
      using split_last_free [of "partial @ data"] ds by (simp add: parts)
    show ?thesis
    proof (cases dropping)
      case True
      have "exceeds limit (partial @ d)" using drop [OF True] by (rule exceeds_append)
      with True ds ne rest \<open>newline \<in> set data\<close> show ?thesis
        by (simp add: st handle_chunk_def parts emit_lines_dropping emit_lines_fresh buffer_ok_def complete_lines_def)
    next
      case False
      with keep ds ne rest \<open>newline \<in> set data\<close> show ?thesis
        by (simp add: st handle_chunk_def parts emit_lines_fresh buffer_ok_def complete_lines_def)
    qed
  next
    case False
    then have data: "str_split newline data = [data]" by (rule str_split_free)
    then have "d = data" "ds = []" by (simp_all add: d_def ds_def)
    moreover have "dropping \<Longrightarrow> exceeds limit (partial @ data)" using drop exceeds_append by blast
    ultimately show ?thesis
      using False free keep drop
      by (auto simp: st handle_chunk_def parts buffer_ok_def complete_lines_def Let_def)
  qed
qed

lemma stream_lines_append:
  "stream_lines limit (s @ t) =
     complete_lines limit (butlast (str_split newline s)) @ stream_lines limit (last (str_split newline s) @ t)"
proof -
  have "str_split newline (last (str_split newline s) @ t) =
      (last (str_split newline s) @ hd (str_split newline t)) # tl (str_split newline t)"
    by (rule split_buffer) (rule split_last_free)
  then show ?thesis
    by (simp add: stream_lines_def Let_def complete_lines_def str_split_append [of _ s t] butlast_append)
qed

lemma handle_chunks_ok:
  "buffer_ok limit partial st \<Longrightarrow> handle_chunks limit chunks st = stream_lines limit (partial @ concat chunks)"
proof (induction chunks arbitrary: partial st)
  case Nil
  then show ?case
    by (cases st) (auto simp: buffer_ok_def stream_lines_def str_split_free complete_lines_def exceeds_def
        split: if_splits option.splits)
next
  case (Cons data chunks)
  obtain st' out where step: "handle_chunk limit data st = (st', out)" by (cases "handle_chunk limit data st")
  from handle_chunk_ok [OF Cons.prems, of data] step
  have st': "buffer_ok limit (last (str_split newline (partial @ data))) st'"
    and out: "out = complete_lines limit (butlast (str_split newline (partial @ data)))" by simp_all
  have "handle_chunks limit (data # chunks) st = out @ handle_chunks limit chunks st'"
    using step by (cases st) simp
  also have "\<dots> = stream_lines limit ((partial @ data) @ concat chunks)"
    by (simp add: Cons.IH [OF st'] out stream_lines_append [of limit "partial @ data"] del: append_assoc)
  finally show ?case by simp
qed

text \<open>
  C31. The lines yielded depend on the bytes received and not on how they were cut into chunks: they are the
  lines of the whole stream, in order, with their line ends, except the lines longer than the configured
  maximum, followed by the unfinished last line when it is not empty and not too long.
\<close>

theorem stream_chunks_are_the_lines:
  "stream_chunks_handler configured chunks = stream_lines (max_buffer_size configured) (concat chunks)"
proof -
  have "buffer_ok (max_buffer_size configured) [] ([], False)"
    by (auto simp: buffer_ok_def exceeds_def split: option.split)
  from handle_chunks_ok [OF this] show ?thesis by (simp add: stream_chunks_handler_def)
qed

end
