(* ===== verification/Chat_Branch.thy ===== *)
theory Chat_Branch
  imports Parent_Chain
begin

section \<open>The branch of a chat that ends at a message\<close>

text \<open>
  Models \<open>get_message_list\<close> of \<open>utils/misc.py\<close>, \<open>build_fork_history\<close> of \<open>utils/chat_fork.py\<close> and
  \<open>utils/chat_id.py\<close>. A chat is a map from message ids to messages; each message is a dictionary whose
  \<open>parentId\<close> names the message before it. Both functions follow the parent links: the first reads what it
  can, the second copies the branch into a new chat and refuses a map with a gap or a loop.
\<close>

subsection \<open>Reading a branch\<close>

text \<open>
  The loop of \<open>get_message_list\<close>: the ids visited, and the exception that ended it, if one did (a message
  that is not a dictionary, a parent id that cannot be looked up).
\<close>

function message_walk :: "pydict \<Rightarrow> string set \<Rightarrow> string \<Rightarrow> string list \<times> py_error option" where
  "message_walk m seen k =
     (case map_of m k of
        None \<Rightarrow> ([], None)
      | Some msg \<Rightarrow>
          if \<not> truthy msg \<or> k \<in> seen then ([], None)
          else (case py_get msg ''parentId'' PNone of
                  Inl e \<Rightarrow> ([k], Some e)
                | Inr pid \<Rightarrow>
                    if \<not> truthy pid then ([k], None)
                    else (case pid of
                            PStr k' \<Rightarrow> (case message_walk m (insert k seen) k' of (ks, e) \<Rightarrow> (k # ks, e))
                          | _ \<Rightarrow> ([k], if hashable pid then None else Some TypeError))))"
  by pat_completeness auto
termination
proof (relation "measure (\<lambda>(m, seen, k). card (fst ` set m - seen))")
  fix m :: pydict and seen :: "string set" and k k' msg pid
  assume "map_of m k = Some msg" "\<not> (\<not> truthy msg \<or> k \<in> seen)"
  then show "((m, insert k seen, k'), m, seen, k) \<in> measure (\<lambda>(m, seen, k). card (fst ` set m - seen))"
    by (auto intro!: card_insert_seen dest: map_of_keyD simp del: card_Diff_insert)
qed simp

declare message_walk.simps [simp del]

definition get_message_list :: "pydict \<Rightarrow> pyval \<Rightarrow> pyval list result" where
  "get_message_list messages_map message_id =
     (if messages_map = [] then Inr []
      else rbind (key_find messages_map message_id) (\<lambda>current_message.
        case message_id of
          PStr k \<Rightarrow> (case message_walk messages_map {} k of
                        (ks, None) \<Rightarrow> Inr (rev (map (dget messages_map) ks))
                      | (ks, Some e) \<Rightarrow> Inl e)
        | _ \<Rightarrow> Inr []))"

subsection \<open>Copying a branch\<close>

text \<open>The first loop: the branch from the message up, or the exception.\<close>

function fork_branch :: "pydict \<Rightarrow> string set \<Rightarrow> pyval \<Rightarrow> (string \<times> pydict) list result" where
  "fork_branch m seen message_id =
     (if \<not> truthy message_id then Inr []
      else if \<not> hashable message_id then Inl TypeError
      else (case message_id of
              PStr k \<Rightarrow>
                if k \<in> seen then Inl (ValueError ''message branch contains a cycle'')
                else (case map_of m k of
                        Some (PDict message) \<Rightarrow>
                          rbind (fork_branch m (insert k seen) (dget message ''parentId''))
                            (\<lambda>branch. Inr ((k, message) # branch))
                      | _ \<Rightarrow> Inl (ValueError ''message not found''))
            | _ \<Rightarrow> Inl (ValueError ''message not found'')))"
  by pat_completeness auto
termination
proof (relation "measure (\<lambda>(m, seen, k). card (fst ` set m - seen))")
  fix m :: pydict and seen :: "string set" and message_id k v message
  assume "map_of m k = Some v" "k \<notin> seen"
  then show "((m, insert k seen, dget message ''parentId''), m, seen, message_id)
      \<in> measure (\<lambda>(m, seen, k). card (fst ` set m - seen))"
    by (auto intro!: card_insert_seen dest: map_of_keyD simp del: card_Diff_insert)
qed simp

declare fork_branch.simps [simp del]

text \<open>
  The second loop, root first: a copy of each message, linked to the one before it. The list of messages
  the function also returns holds the same objects, so it shows the \<open>childrenIds\<close> set later.
\<close>

definition fork_copy :: "string \<Rightarrow> pydict \<Rightarrow> pyval \<Rightarrow> pydict" where
  "fork_copy message_id message parent_id =
     dset ''childrenIds'' (PList []) (dset ''parentId'' parent_id (dset ''id'' (PStr message_id) message))"

definition fork_link :: "pyval \<Rightarrow> string \<Rightarrow> (string \<times> pydict) list \<Rightarrow> (string \<times> pydict) list result" where
  "fork_link parent_id message_id fork_messages =
     (if \<not> truthy parent_id then Inr fork_messages
      else (case parent_id of
              PStr p \<Rightarrow> (case map_of fork_messages p of
                            None \<Rightarrow> Inl (KeyError p)
                          | Some parent \<Rightarrow>
                              Inr (dset p (dset ''childrenIds'' (PList [PStr message_id]) parent) fork_messages))
            | _ \<Rightarrow> Inl (KeyError [])))"

fun fork_loop ::
  "(string \<times> pydict) list \<Rightarrow> pyval \<Rightarrow> (string \<times> pydict) list \<Rightarrow> (string \<times> pydict) list result" where
  "fork_loop [] parent_id fork_messages = Inr fork_messages"
| "fork_loop ((message_id, message) # rest) parent_id fork_messages =
     rbind (fork_link parent_id message_id fork_messages) (\<lambda>linked.
       fork_loop rest (PStr message_id) (dset message_id (fork_copy message_id message parent_id) linked))"

definition build_fork_history ::
  "pydict \<Rightarrow> string \<Rightarrow> (((string \<times> pydict) list \<times> string) \<times> pydict list) result" where
  "build_fork_history messages_map source_message_id =
     (if messages_map = [] then Inl (ValueError ''chat has no messages to fork'')
      else rbind (fork_branch messages_map {} (PStr source_message_id)) (\<lambda>branch.
        rbind (fork_loop (rev branch) PNone []) (\<lambda>fork_messages.
          Inr ((fork_messages, source_message_id),
               map (\<lambda>(k, _). the (map_of fork_messages k)) (rev branch)))))"

subsection \<open>Kinds of chat id\<close>

definition TEMPORARY_CHAT_ID_PREFIX :: string where
  "TEMPORARY_CHAT_ID_PREFIX = ''temporary:''"

definition LEGACY_TEMPORARY_CHAT_ID_PREFIX :: string where
  "LEGACY_TEMPORARY_CHAT_ID_PREFIX = ''local:''"

definition CHANNEL_CHAT_ID_PREFIX :: string where
  "CHANNEL_CHAT_ID_PREFIX = ''channel:''"

definition TEMPORARY_CHAT_ID_PREFIXES :: "string list" where
  "TEMPORARY_CHAT_ID_PREFIXES = [TEMPORARY_CHAT_ID_PREFIX, LEGACY_TEMPORARY_CHAT_ID_PREFIX]"

definition NON_SAVED_CHAT_ID_PREFIXES :: "string list" where
  "NON_SAVED_CHAT_ID_PREFIXES = TEMPORARY_CHAT_ID_PREFIXES @ [CHANNEL_CHAT_ID_PREFIX]"

definition is_saved_chat_id :: "string option \<Rightarrow> bool" where
  "is_saved_chat_id chat_id =
     (case chat_id of None \<Rightarrow> False
      | Some c \<Rightarrow> c \<noteq> [] \<and> \<not> list_ex (starts_with c) NON_SAVED_CHAT_ID_PREFIXES)"

definition is_temporary_chat_id :: "string option \<Rightarrow> bool" where
  "is_temporary_chat_id chat_id =
     (case chat_id of None \<Rightarrow> False
      | Some c \<Rightarrow> c \<noteq> [] \<and> list_ex (starts_with c) TEMPORARY_CHAT_ID_PREFIXES)"

definition get_temporary_chat_session_id :: "string \<Rightarrow> string option" where
  "get_temporary_chat_session_id chat_id =
     map_option (\<lambda>p. drop (length p) chat_id) (find (starts_with chat_id) TEMPORARY_CHAT_ID_PREFIXES)"

subsection \<open>The branch read is the chain of parents\<close>

definition parent_of :: "pydict \<Rightarrow> string \<Rightarrow> string option" where
  "parent_of m k =
     (case dget m k of
        PDict message \<Rightarrow>
          (case dget message ''parentId'' of PStr p \<Rightarrow> if p = [] then None else Some p | _ \<Rightarrow> None)
      | _ \<Rightarrow> None)"

fun message_ok :: "pyval \<Rightarrow> bool" where
  "message_ok (PDict d) = (d \<noteq> [] \<and> (case dget d ''parentId'' of PNone \<Rightarrow> True | PStr p \<Rightarrow> True | _ \<Rightarrow> False))"
| "message_ok _ = False"

definition messages_ok :: "pydict \<Rightarrow> bool" where
  "messages_ok m = (\<forall>(k, message) \<in> set m. message_ok message)"

lemma message_okE:
  assumes "message_ok v"
  obtains d where "v = PDict d" "d \<noteq> []" "dget d ''parentId'' = PNone \<or> (\<exists>p. dget d ''parentId'' = PStr p)"
  using assms by (cases v) (auto split: pyval.splits)

lemma messages_ok_dget: "messages_ok m \<Longrightarrow> map_of m k = Some v \<Longrightarrow> message_ok v"
  by (auto simp: messages_ok_def dest: map_of_SomeD)

lemma message_walk_step:
  assumes "messages_ok m" "map_of m k \<noteq> None" "k \<notin> seen"
  shows "message_walk m seen k =
    (case parent_of m k of None \<Rightarrow> ([k], None)
     | Some k' \<Rightarrow> (case message_walk m (insert k seen) k' of (ks, e) \<Rightarrow> (k # ks, e)))"
proof -
  from assms(2) obtain v where v: "map_of m k = Some v" by blast
  with assms(1) obtain d where "v = PDict d" "d \<noteq> []"
    "dget d ''parentId'' = PNone \<or> (\<exists>p. dget d ''parentId'' = PStr p)"
    by (metis messages_ok_dget message_okE)
  moreover have "dget_or d ''parentId'' PNone = dget d ''parentId''"
    by (simp add: dget_def dget_or_def)
  ultimately show ?thesis
    using assms(3) v by (subst message_walk.simps) (auto simp: parent_of_def dget_def [of m])
qed

lemma message_walk_stop: "map_of m k = None \<or> k \<in> seen \<Longrightarrow> message_walk m seen k = ([], None)"
  by (subst message_walk.simps) (auto split: option.split)

text \<open>On a map of well-formed messages the walk is a \<open>list_walk\<close>; on any other it visits nothing.\<close>

definition visited :: "pydict \<Rightarrow> string set \<Rightarrow> string \<Rightarrow> string list" where
  "visited m seen k = (if messages_ok m then fst (message_walk m seen k) else [])"

interpretation branch: list_walk "\<lambda>k. messages_ok m \<and> map_of m k \<noteq> None" "parent_of m" "visited m"
  for m
proof
  have "{k. messages_ok m \<and> map_of m k \<noteq> None} \<subseteq> fst ` set m" by (auto dest: map_of_keyD)
  then show "finite {k. messages_ok m \<and> map_of m k \<noteq> None}" by (rule finite_subset) simp
next
  fix k seen
  show "k \<in> seen \<or> \<not> (messages_ok m \<and> map_of m k \<noteq> None) \<Longrightarrow> visited m seen k = []"
    by (auto simp: visited_def message_walk_stop)
next
  fix k seen
  assume "k \<notin> seen" "messages_ok m \<and> map_of m k \<noteq> None"
  then show "visited m seen k = k # (case parent_of m k of None \<Rightarrow> [] | Some k' \<Rightarrow> visited m (insert k seen) k')"
    by (auto simp: visited_def message_walk_step split: option.split prod.split)
qed

lemma message_walk_no_error: "messages_ok m \<Longrightarrow> snd (message_walk m seen k) = None"
proof (induction seen k rule: branch.walk_induct [of m])
  case (stop seen k)
  then show ?case by (auto simp: message_walk_stop)
next
  case (step seen k)
  then show ?case by (auto simp: message_walk_step split: option.split prod.split)
qed

lemma get_message_list_visited:
  assumes "messages_ok m" "map_of m k \<noteq> None"
  shows "get_message_list m (PStr k) = Inr (rev (map (dget m) (visited m {} k)))"
proof -
  have "m \<noteq> []" using assms(2) by auto
  moreover have "message_walk m {} k = (visited m {} k, None)"
    by (rule prod_eqI) (simp_all add: visited_def assms(1) message_walk_no_error)
  ultimately show ?thesis by (simp add: get_message_list_def)
qed

text \<open>
  On a chat whose messages are well formed, \<open>get_message_list\<close> returns, for a message that exists, the
  messages of its chain of parents: the root first, the message itself last, each one the parent of the
  next, every message that can be reached exactly once, even when the links of a damaged chat form a loop.
\<close>

lemma get_message_list_is_the_branch:
  assumes "messages_ok m" "map_of m k \<noteq> None"
  shows "\<exists>ks. get_message_list m (PStr k) = Inr (map (dget m) ks) \<and> distinct ks \<and> ks \<noteq> [] \<and> last ks = k \<and>
    set ks = {x. (\<lambda>x y. parent_of m x = Some y \<and> dhas m y)\<^sup>*\<^sup>* k x} \<and>
    (\<forall>i. Suc i < length ks \<longrightarrow> parent_of m (ks ! Suc i) = Some (ks ! i))"
proof (intro exI conjI allI impI)
  let ?w = "visited m {} k"
  have w: "?w \<noteq> []" "hd ?w = k" by (simp_all add: branch.walk_step assms)
  show "get_message_list m (PStr k) = Inr (map (dget m) (rev ?w))"
    by (simp add: get_message_list_visited assms rev_map)
  show "distinct (rev ?w)" by (simp add: branch.walk_distinct)
  show "rev ?w \<noteq> []" "last (rev ?w) = k" by (simp_all add: w last_rev)
  show "set (rev ?w) = {x. (\<lambda>x y. parent_of m x = Some y \<and> dhas m y)\<^sup>*\<^sup>* k x}"
    using branch.walk_set [of m k] by (simp add: assms dhas_def)
  fix i
  assume i: "Suc i < length (rev ?w)"
  define j where "j = length ?w - Suc (Suc i)"
  have "parent_of m (?w ! j) = Some (?w ! Suc j)"
    by (rule branch.walk_linked) (use i in \<open>simp add: j_def\<close>)
  moreover have "rev ?w ! Suc i = ?w ! j" "rev ?w ! i = ?w ! Suc j"
    using i by (simp_all add: rev_nth j_def Suc_diff_Suc)
  ultimately show "parent_of m (rev ?w ! Suc i) = Some (rev ?w ! i)" by simp
qed

definition sample_loop :: pydict where
  "sample_loop =
     [(''a'', PDict [(''parentId'', PStr ''b'')]), (''b'', PDict [(''parentId'', PStr ''a'')]),
      (''c'', PDict [(''parentId'', PStr ''b''), (''role'', PStr ''user'')])]"

lemma get_message_list_is_the_branch_witness:
  "(\<exists>ks. get_message_list sample_loop (PStr ''c'') = Inr (map (dget sample_loop) ks) \<and> distinct ks \<and> ks \<noteq> [] \<and>
      last ks = ''c'' \<and>
      set ks = {x. (\<lambda>x y. parent_of sample_loop x = Some y \<and> dhas sample_loop y)\<^sup>*\<^sup>* ''c'' x} \<and>
      (\<forall>i. Suc i < length ks \<longrightarrow> parent_of sample_loop (ks ! Suc i) = Some (ks ! i))) \<and>
   get_message_list sample_loop (PStr ''c'') =
     Inr [PDict [(''parentId'', PStr ''b'')], PDict [(''parentId'', PStr ''a'')],
          PDict [(''parentId'', PStr ''b''), (''role'', PStr ''user'')]]"
proof
  have "messages_ok sample_loop" "map_of sample_loop ''c'' \<noteq> None"
    by (simp_all add: messages_ok_def sample_loop_def)
  from get_message_list_is_the_branch [OF this]
  show "\<exists>ks. get_message_list sample_loop (PStr ''c'') = Inr (map (dget sample_loop) ks) \<and> distinct ks \<and> ks \<noteq> [] \<and>
      last ks = ''c'' \<and>
      set ks = {x. (\<lambda>x y. parent_of sample_loop x = Some y \<and> dhas sample_loop y)\<^sup>*\<^sup>* ''c'' x} \<and>
      (\<forall>i. Suc i < length ks \<longrightarrow> parent_of sample_loop (ks ! Suc i) = Some (ks ! i))" .
qed (simp add: get_message_list_def sample_loop_def message_walk.simps)

subsection \<open>A fork is a faithful, linear copy\<close>

text \<open>\<open>rooted_branch m k b\<close>: \<open>b\<close> is the chain of parents of \<open>k\<close> from a root down, complete and of dictionaries.\<close>

inductive rooted_branch :: "pydict \<Rightarrow> string \<Rightarrow> (string \<times> pydict) list \<Rightarrow> bool" for m where
  root: "map_of m k = Some (PDict d) \<Longrightarrow> \<not> truthy (dget d ''parentId'') \<Longrightarrow> rooted_branch m k [(k, d)]"
| step: "map_of m k = Some (PDict d) \<Longrightarrow> dget d ''parentId'' = PStr p \<Longrightarrow> p \<noteq> [] \<Longrightarrow> rooted_branch m p b \<Longrightarrow>
    rooted_branch m k (b @ [(k, d)])"

inductive_cases rooted_branchE: "rooted_branch m k b"

text \<open>The copy of a branch: each message keeps its fields, and is linked to its neighbours only.\<close>

fun fork_chain :: "pyval \<Rightarrow> (string \<times> pydict) list \<Rightarrow> (string \<times> pydict) list" where
  "fork_chain prev [] = []"
| "fork_chain prev ((k, message) # rest) =
     (k, dset ''childrenIds'' (PList (map (PStr \<circ> fst) (take 1 rest)))
           (dset ''parentId'' prev (dset ''id'' (PStr k) message))) # fork_chain (PStr k) rest"

lemma fork_chain_keys: "map fst (fork_chain prev b) = map fst b"
  by (induction prev b rule: fork_chain.induct) simp_all

lemma rooted_branch_det: "rooted_branch m k b \<Longrightarrow> rooted_branch m k b' \<Longrightarrow> b' = b"
proof (induction arbitrary: b' rule: rooted_branch.induct)
  case (root k d)
  from root.prems show ?case by (rule rooted_branchE) (use root.hyps in auto)
next
  case (step k d p b)
  from step.hyps step.prems obtain b0 where "b' = b0 @ [(k, d)]" "rooted_branch m p b0"
    by (elim rooted_branchE [of m k b']) auto
  with step.IH [of b0] show ?case by simp
qed

lemma rooted_branch_part:
  "rooted_branch m k b \<Longrightarrow> k' \<in> fst ` set b \<Longrightarrow> \<exists>b'. rooted_branch m k' b' \<and> length b' \<le> length b"
proof (induction rule: rooted_branch.induct)
  case (root k d)
  then show ?case by (auto intro: rooted_branch.root)
next
  case (step k d p b)
  show ?case
  proof (cases "k' = k")
    case True
    with step.hyps show ?thesis by (auto intro: rooted_branch.step)
  next
    case False
    with step.IH step.prems show ?thesis by (auto intro: le_SucI)
  qed
qed

lemma rooted_branch_distinct: "rooted_branch m k b \<Longrightarrow> distinct (map fst b) \<and> b \<noteq> [] \<and> fst (last b) = k"
proof (induction rule: rooted_branch.induct)
  case (step k d p b)
  have whole: "rooted_branch m k (b @ [(k, d)])" using step.hyps by (rule rooted_branch.step)
  have "k \<notin> fst ` set b"
  proof
    assume "k \<in> fst ` set b"
    with rooted_branch_part [OF step.hyps(4)] obtain b' where "rooted_branch m k b'" "length b' \<le> length b"
      by blast
    with rooted_branch_det [OF whole] show False by fastforce
  qed
  with step.IH show ?case by simp
qed simp

lemma fork_branch_complete:
  "rooted_branch m k b \<Longrightarrow> k \<noteq> [] \<Longrightarrow> fst ` set b \<inter> seen = {} \<Longrightarrow> fork_branch m seen (PStr k) = Inr (rev b)"
proof (induction arbitrary: seen rule: rooted_branch.induct)
  case (root k d)
  then show ?case
    by (subst fork_branch.simps) (simp add: fork_branch.simps [of _ _ "dget d ''parentId''"])
next
  case (step k d p b)
  have "k \<notin> fst ` set b"
    using rooted_branch_distinct [OF rooted_branch.step [OF step.hyps]] by auto
  with step.prems have "fst ` set b \<inter> insert k seen = {}" by auto
  with step show ?case by (subst fork_branch.simps) auto
qed

lemma fork_branch_InrE:
  assumes "fork_branch m seen v = Inr br" "truthy v"
  obtains k d br' where "v = PStr k" "k \<notin> seen" "map_of m k = Some (PDict d)" "br = (k, d) # br'"
    "fork_branch m (insert k seen) (dget d ''parentId'') = Inr br'"
proof (cases v)
  case (PStr k)
  note eq = assms(1) [unfolded fork_branch.simps [of m seen v]]
  show ?thesis
  proof (cases "map_of m k")
    case None
    with eq assms(2) PStr show ?thesis by (simp split: if_splits)
  next
    case (Some w)
    then show ?thesis
      using eq assms(2) PStr that by (cases w) (auto simp: rbind_Inr_iff split: if_splits)
  qed
qed (use assms(2) assms(1) [unfolded fork_branch.simps [of m seen v]] in simp_all)

lemma fork_branch_sound:
  "fork_branch m seen v = Inr br \<Longrightarrow> truthy v \<Longrightarrow> \<exists>k. v = PStr k \<and> rooted_branch m k (rev br)"
proof (induction m seen v arbitrary: br rule: fork_branch.induct)
  case (1 m seen v)
  from "1.prems" obtain k d br' where k: "v = PStr k" "k \<notin> seen" "map_of m k = Some (PDict d)"
    and br: "br = (k, d) # br'" and up: "fork_branch m (insert k seen) (dget d ''parentId'') = Inr br'"
    by (rule fork_branch_InrE)
  show ?case
  proof (cases "truthy (dget d ''parentId'')")
    case True
    have "\<not> \<not> truthy v" "\<not> \<not> hashable v" using k "1.prems"(2) by simp_all
    with "1.IH" [OF _ _ k(1,2,3) refl up True] obtain p where
      "dget d ''parentId'' = PStr p" "rooted_branch m p (rev br')" by blast
    with k br True show ?thesis by (auto intro: rooted_branch.step)
  next
    case False
    then have "br' = []" using up fork_branch.simps [of m "insert k seen" "dget d ''parentId''"] by simp
    with k br False show ?thesis by (auto intro: rooted_branch.root)
  qed
qed

lemma fork_loop_chain:
  assumes "distinct (map fst (done @ (p, c) # rest))" "p \<noteq> []" "[] \<notin> fst ` set rest"
  shows "fork_loop rest (PStr p) (done @ [(p, dset ''childrenIds'' (PList []) c)]) =
    Inr (done @ (p, dset ''childrenIds'' (PList (map (PStr \<circ> fst) (take 1 rest))) c) # fork_chain (PStr p) rest)"
  using assms
proof (induction rest arbitrary: p c "done")
  case (Cons x rest)
  obtain k message where x: "x = (k, message)" by (cases x)
  have p: "p \<notin> fst ` set done" and k: "k \<notin> fst ` set done" "k \<noteq> p" "k \<noteq> []"
    using Cons.prems x by auto
  let ?c = "dset ''parentId'' (PStr p) (dset ''id'' (PStr k) message)"
  let ?d = "done @ [(p, dset ''childrenIds'' (PList [PStr k]) c)]"
  have "map_of (done @ [(p, v)]) p = Some v" for v :: pydict
    using p by (auto simp: map_add_def dest: map_of_keyD split: option.split)
  moreover have "dset p v (done @ [(p, w)]) = done @ [(p, v)]" for v w :: pydict
    using p by (induction "done") auto
  ultimately have "fork_link (PStr p) k (done @ [(p, dset ''childrenIds'' (PList []) c)]) = Inr ?d"
    using Cons.prems(2) by (simp add: fork_link_def)
  moreover have "dset k v ?d = ?d @ [(k, v)]" for v :: pydict
    using k by (intro dset_new) auto
  ultimately have "fork_loop (x # rest) (PStr p) (done @ [(p, dset ''childrenIds'' (PList []) c)]) =
      fork_loop rest (PStr k) (?d @ [(k, dset ''childrenIds'' (PList []) ?c)])"
    by (simp add: x fork_copy_def)
  also have "\<dots> = Inr (?d @ (k, dset ''childrenIds'' (PList (map (PStr \<circ> fst) (take 1 rest))) ?c) # fork_chain (PStr k) rest)"
    by (rule Cons.IH) (use Cons.prems x in auto)
  finally show ?case by (simp add: x)
qed simp

lemma fork_loop_branch:
  assumes "distinct (map fst b)" "[] \<notin> fst ` set b"
  shows "fork_loop b PNone [] = Inr (fork_chain PNone b)"
proof (cases b)
  case (Cons x rest)
  obtain k message where "x = (k, message)" by (cases x)
  with Cons assms fork_loop_chain [of "[]" k "dset ''parentId'' PNone (dset ''id'' (PStr k) message)" rest]
  show ?thesis by (auto simp: fork_link_def fork_copy_def)
qed simp

lemma rooted_branch_ids: "rooted_branch m k b \<Longrightarrow> k \<noteq> [] \<Longrightarrow> [] \<notin> fst ` set b"
  by (induction rule: rooted_branch.induct) auto

lemma map_lookup_chain:
  "distinct (map fst f) \<Longrightarrow> map fst b = map fst f \<Longrightarrow> map (\<lambda>(k, _). the (map_of f k)) b = map snd f"
proof -
  assume d: "distinct (map fst f)" and b: "map fst b = map fst f"
  have "map (\<lambda>(k, _). the (map_of f k)) b = map (\<lambda>k. the (map_of f k)) (map fst b)"
    by (simp add: case_prod_beta')
  also have "\<dots> = map snd f"
    using d by (auto simp: b map_of_is_SomeI intro!: map_cong)
  finally show ?thesis .
qed

text \<open>
  C15. Forking at a message succeeds exactly when its chain of parents is complete, that is when every link
  leads to a message of the chat and the chain ends at a root (so there is no loop). The new chat is then the
  copy of exactly that chain, root first: each message keeps its fields, its \<open>parentId\<close> is the one before it
  and its only child the one after it; the forked message is current, and the list returned with the map
  holds the same messages.
\<close>

theorem fork_copies_the_branch:
  assumes "source_message_id \<noteq> []"
  shows "build_fork_history m source_message_id = Inr ((fork_messages, current_id), ordered) \<longleftrightarrow>
    (\<exists>b. rooted_branch m source_message_id b \<and> fork_messages = fork_chain PNone b \<and>
         current_id = source_message_id \<and> ordered = map snd fork_messages)"
    (is "?L \<longleftrightarrow> ?R")
proof -
  have built: "build_fork_history m source_message_id =
      Inr ((fork_chain PNone b, source_message_id), map snd (fork_chain PNone b))"
    if b: "rooted_branch m source_message_id b" for b
  proof -
    have "m \<noteq> []" using b by (auto elim: rooted_branchE)
    moreover have "distinct (map fst b)" using rooted_branch_distinct [OF b] by blast
    ultimately show ?thesis
      using fork_branch_complete [OF b assms, of "{}"] rooted_branch_ids [OF b assms]
      by (simp add: build_fork_history_def fork_loop_branch map_lookup_chain fork_chain_keys)
  qed
  show ?thesis
  proof
    assume L: ?L
    then obtain br where "fork_branch m {} (PStr source_message_id) = Inr br"
      by (auto simp: build_fork_history_def rbind_Inr_iff split: if_splits)
    with assms have "rooted_branch m source_message_id (rev br)" using fork_branch_sound by fastforce
    with built L show ?R by auto
  next
    assume ?R
    with built show ?L by auto
  qed
qed

definition sample_chat :: pydict where
  "sample_chat =
     [(''q'', PDict [(''parentId'', PNone), (''childrenIds'', PList [PStr ''a'', PStr ''b'']), (''content'', PStr ''hi'')]),
      (''a'', PDict [(''parentId'', PStr ''q''), (''childrenIds'', PList [])]),
      (''b'', PDict [(''parentId'', PStr ''q''), (''childrenIds'', PList [])])]"

lemma fork_copies_the_branch_witness:
  "\<exists>b. rooted_branch sample_chat ''b'' b \<and>
     [(''q'', [(''parentId'', PNone), (''childrenIds'', PList [PStr ''b'']), (''content'', PStr ''hi''), (''id'', PStr ''q'')]),
      (''b'', [(''parentId'', PStr ''q''), (''childrenIds'', PList []), (''id'', PStr ''b'')])] = fork_chain PNone b"
proof -
  let ?f = "[(''q'', [(''parentId'', PNone), (''childrenIds'', PList [PStr ''b'']), (''content'', PStr ''hi''), (''id'', PStr ''q'')]),
      (''b'', [(''parentId'', PStr ''q''), (''childrenIds'', PList []), (''id'', PStr ''b'')])]"
  have "build_fork_history sample_chat ''b'' = Inr ((?f, ''b''), map snd ?f)" by code_simp
  with fork_copies_the_branch [of "''b''" sample_chat ?f "''b''" "map snd ?f"] show ?thesis by auto
qed

text \<open>
  A chat id is of one kind only: it is empty, temporary, a channel's, or saved. A session id can be read
  from exactly the temporary ones, and it is what follows the prefix.
\<close>

lemma chat_ids_are_classified:
  "(is_saved_chat_id (Some c) \<longleftrightarrow>
      c \<noteq> [] \<and> \<not> is_temporary_chat_id (Some c) \<and> \<not> starts_with c CHANNEL_CHAT_ID_PREFIX) \<and>
   \<not> (is_temporary_chat_id (Some c) \<and> starts_with c CHANNEL_CHAT_ID_PREFIX) \<and>
   (get_temporary_chat_session_id c = Some s \<longleftrightarrow>
      c = TEMPORARY_CHAT_ID_PREFIX @ s \<or> c = LEGACY_TEMPORARY_CHAT_ID_PREFIX @ s) \<and>
   (is_temporary_chat_id (Some c) \<longleftrightarrow> get_temporary_chat_session_id c \<noteq> None)"
  by (intro conjI) (auto simp: is_saved_chat_id_def is_temporary_chat_id_def get_temporary_chat_session_id_def
      NON_SAVED_CHAT_ID_PREFIXES_def TEMPORARY_CHAT_ID_PREFIXES_def starts_with_def
      TEMPORARY_CHAT_ID_PREFIX_def LEGACY_TEMPORARY_CHAT_ID_PREFIX_def CHANNEL_CHAT_ID_PREFIX_def prefix_def)

end
