(* ===== verification/Chat_History.thy ===== *)
theory Chat_History
  imports Chat_Branch
begin

section \<open>The message tree of a chat\<close>

text \<open>
  Models the operations of \<open>ChatTable\<close> (\<open>models/chats.py\<close>) on the history of a chat: the JSON object whose
  \<open>messages\<close> maps ids to messages, each with its \<open>parentId\<close> and the list \<open>childrenIds\<close>, and whose \<open>currentId\<close>
  names the message shown. The functions change the object in place; here they return the new one. What a
  raised exception leaves half changed is not kept: the callers drop the object then.
\<close>

text \<open>\<open>v in messages\<close> for any value, and \<open>messages.get(v, {}).get(k, d)\<close>.\<close>

definition id_in :: "(string \<times> 'v) list \<Rightarrow> pyval \<Rightarrow> bool result" where
  "id_in messages v = rbind (key_find messages v) (\<lambda>x. Inr (x \<noteq> None))"

definition message_get :: "pydict \<Rightarrow> pyval \<Rightarrow> string \<Rightarrow> pyval \<Rightarrow> pyval result" where
  "message_get messages v k d =
     rbind (key_find messages v) (\<lambda>x. case x of None \<Rightarrow> Inr d | Some message \<Rightarrow> py_get message k d)"

text \<open>The elements of an iterable that are ids of messages, in order.\<close>

fun ids_in :: "(string \<times> 'v) list \<Rightarrow> pyval list \<Rightarrow> string list result" where
  "ids_in messages [] = Inr []"
| "ids_in messages (c # cs) =
     rbind (id_in messages c) (\<lambda>b. rbind (ids_in messages cs) (\<lambda>ks.
       Inr (case c of PStr k \<Rightarrow> if b then k # ks else ks | _ \<Rightarrow> ks)))"

subsection \<open>The current message\<close>

definition get_current_message_id :: "pydict \<Rightarrow> pyval" where
  "get_current_message_id chat =
     (let history = (case dget chat ''history'' of PDict h \<Rightarrow> h | _ \<Rightarrow> []);
          current_id = py_or (dget history ''currentId'') (py_or (dget chat ''currentId'') (dget chat ''branchPointMessageId''))
      in if truthy current_id then current_id
         else (case dget chat ''messages'' of
                 PList messages \<Rightarrow>
                   (case find (\<lambda>message. case message of PDict d \<Rightarrow> truthy (dget d ''id'') | _ \<Rightarrow> False) (rev messages) of
                      Some (PDict d) \<Rightarrow> dget d ''id''
                    | _ \<Rightarrow> PNone)
               | _ \<Rightarrow> PNone))"

fun first_present :: "(string \<times> 'v) list \<Rightarrow> pyval list \<Rightarrow> string option result" where
  "first_present messages [] = Inr None"
| "first_present messages (c # cs) =
     rbind (id_in messages c) (\<lambda>b.
       if b then Inr (case c of PStr k \<Rightarrow> Some k | _ \<Rightarrow> None) else first_present messages cs)"

function last_descendant_id :: "pydict \<Rightarrow> string set \<Rightarrow> string \<Rightarrow> string result" where
  "last_descendant_id messages seen_ids message_id =
     (case map_of messages message_id of
        None \<Rightarrow> Inr message_id
      | Some message \<Rightarrow>
          if message_id \<in> seen_ids then Inr message_id
          else (let child_ids = (case message of
                                   PDict d \<Rightarrow> (case dget d ''childrenIds'' of PList cs \<Rightarrow> cs | _ \<Rightarrow> [])
                                 | _ \<Rightarrow> [])
                in case first_present messages (rev child_ids) of
                     Inl e \<Rightarrow> Inl e
                   | Inr None \<Rightarrow> Inr message_id
                   | Inr (Some next_id) \<Rightarrow>
                       if next_id = [] then Inr message_id
                       else last_descendant_id messages (insert message_id seen_ids) next_id))"
  by pat_completeness auto
termination
  by (relation "measure (\<lambda>(m, seen, k). card (fst ` set m - seen))")
    (auto intro!: card_insert_seen dest: map_of_keyD simp del: card_Diff_insert)

declare last_descendant_id.simps [simp del]

subsection \<open>Links\<close>

definition add_child_id_to_parent :: "pydict \<Rightarrow> pyval \<Rightarrow> string \<Rightarrow> (pydict \<times> bool) result" where
  "add_child_id_to_parent messages parent_id child_id =
     rbind (if truthy parent_id then key_find messages parent_id else Inr None) (\<lambda>parent.
       Inr (case (parent, parent_id) of
              (Some (PDict d), PStr p) \<Rightarrow>
                (let child_ids = (case dget d ''childrenIds'' of PList cs \<Rightarrow> cs | _ \<Rightarrow> [])
                 in if PStr child_id \<in> set child_ids then (messages, False)
                    else (dset p (PDict (dset ''childrenIds'' (PList (child_ids @ [PStr child_id])) d)) messages, True))
            | _ \<Rightarrow> (messages, False)))"

fun relink_loop :: "string list \<Rightarrow> pydict \<Rightarrow> bool \<Rightarrow> (pydict \<times> bool) result" where
  "relink_loop [] messages changed = Inr (messages, changed)"
| "relink_loop (message_id # rest) messages changed =
     (case dget messages message_id of
        PDict message \<Rightarrow>
          rbind (add_child_id_to_parent messages (dget message ''parentId'') message_id)
            (\<lambda>(messages', added). relink_loop rest messages' (added \<or> changed))
      | _ \<Rightarrow> relink_loop rest messages changed)"

text \<open>The role of the first item of an output that has one.\<close>

definition output_role :: "pyval \<Rightarrow> pyval result" where
  "output_role output =
     rbind (py_iter (py_or output (PList []))) (\<lambda>items.
       Inr (case find (\<lambda>item. case item of PDict d \<Rightarrow> truthy (dget d ''role'') | _ \<Rightarrow> False) items of
              Some (PDict d) \<Rightarrow> dget d ''role''
            | _ \<Rightarrow> PNone))"

fun py_int :: "pyval \<Rightarrow> int result" where
  "py_int (PInt i) = Inr i"
| "py_int (PBool b) = Inr (if b then 1 else 0)"
| "py_int _ = Inl TypeError"

fun latest_leaf :: "pydict \<Rightarrow> string option \<Rightarrow> int \<Rightarrow> string option result" where
  "latest_leaf [] leaf latest_timestamp = Inr leaf"
| "latest_leaf ((message_id, message) # rest) leaf latest_timestamp =
     (case message of
        PDict d \<Rightarrow>
          if \<not> truthy (dget d ''role'') then latest_leaf rest leaf latest_timestamp
          else if (case dget d ''childrenIds'' of PList cs \<Rightarrow> cs | _ \<Rightarrow> []) \<noteq> [] then latest_leaf rest leaf latest_timestamp
          else rbind (py_int (py_or (dget d ''timestamp'') (PInt 0))) (\<lambda>timestamp.
            if timestamp > latest_timestamp then latest_leaf rest (Some message_id) timestamp
            else latest_leaf rest leaf latest_timestamp)
      | _ \<Rightarrow> latest_leaf rest leaf latest_timestamp)"

definition current_is_good :: "pydict \<Rightarrow> pydict \<Rightarrow> bool result" where
  "current_is_good messages d =
     rbind (output_role (dget d ''output'')) (\<lambda>role.
       let bad_leaf = (role = PStr ''assistant'' \<and> dget d ''parentId'' = PNone \<and>
                       \<not> truthy (dget d ''timestamp'') \<and> length messages > 1)
       in Inr (truthy (dget d ''id'') \<and> truthy (dget d ''role'') \<and> \<not> bad_leaf))"

definition with_history :: "pydict \<Rightarrow> pydict \<Rightarrow> pydict \<Rightarrow> pydict" where
  "with_history chat history messages =
     dset ''history'' (PDict (dset ''messages'' (PDict messages) history)) chat"

definition newest_leaf_current :: "pydict \<Rightarrow> pydict \<Rightarrow> pydict \<Rightarrow> bool \<Rightarrow> (pydict \<times> bool) result" where
  "newest_leaf_current chat history messages changed =
     rbind (latest_leaf messages None (- 1)) (\<lambda>leaf.
       Inr (case leaf of
              None \<Rightarrow> (with_history chat history messages, changed)
            | Some leaf_id \<Rightarrow>
                if leaf_id = [] \<or> PStr leaf_id = dget history ''currentId''
                then (with_history chat history messages, changed)
                else (with_history chat (dset ''currentId'' (PStr leaf_id) history) messages, True)))"

definition repair_chat_current_id :: "pydict \<Rightarrow> (pydict \<times> bool) result" where
  "repair_chat_current_id chat =
     (case dget chat ''history'' of
        PDict history \<Rightarrow>
          (case dget history ''messages'' of
             PDict messages0 \<Rightarrow>
               rbind (relink_loop (map fst messages0) messages0 False) (\<lambda>(messages, changed).
               rbind (key_find messages (dget history ''currentId'')) (\<lambda>current_message.
                 case (current_message, dget history ''currentId'') of
                   (Some (PDict d), PStr current_id) \<Rightarrow>
                     rbind (current_is_good messages d) (\<lambda>good.
                       if \<not> good then newest_leaf_current chat history messages changed
                       else if \<not> truthy (py_or (dget d ''contextSummary'') (dget d ''context_summary''))
                       then Inr (with_history chat history messages, changed)
                       else rbind (last_descendant_id messages {} current_id) (\<lambda>last_id.
                         if last_id \<noteq> current_id
                         then Inr (with_history chat (dset ''currentId'' (PStr last_id) history) messages, True)
                         else Inr (with_history chat history messages, changed)))
                 | _ \<Rightarrow> newest_leaf_current chat history messages changed))
           | _ \<Rightarrow> Inr (chat, False))
      | _ \<Rightarrow> Inr (chat, False))"

text \<open>The ids of parents that the map lacks; a Python set, here without repetitions.\<close>

fun unresolved_loop :: "pydict \<Rightarrow> pydict \<Rightarrow> pyval list result" where
  "unresolved_loop messages_map [] = Inr []"
| "unresolved_loop messages_map ((k, msg) # rest) =
     rbind (py_get msg ''parentId'' PNone) (\<lambda>parent_id.
       rbind (if truthy parent_id then id_in messages_map parent_id else Inr True) (\<lambda>present.
         rbind (unresolved_loop messages_map rest) (\<lambda>ids. Inr (if present then ids else parent_id # ids))))"

definition get_unresolved_parent_ids :: "pydict \<Rightarrow> pyval list result" where
  "get_unresolved_parent_ids messages_map = rbind (unresolved_loop messages_map messages_map) (\<lambda>ids. Inr (remdups ids))"

subsection \<open>Merging two versions of a history\<close>

text \<open>\<open>{**message, 'childrenIds': []}\<close> for the messages that are dictionaries.\<close>

definition childless :: "pydict \<Rightarrow> (string \<times> pydict) list" where
  "childless messages =
     concat (map (\<lambda>(k, v). case v of PDict d \<Rightarrow> [(k, dset ''childrenIds'' (PList []) d)] | _ \<Rightarrow> []) messages)"

definition append_child :: "string \<Rightarrow> string \<Rightarrow> (string \<times> pydict) list \<Rightarrow> (string \<times> pydict) list result" where
  "append_child parent_id message_id merged =
     (case map_of merged parent_id of
        None \<Rightarrow> Inr merged
      | Some parent \<Rightarrow>
          (case dget parent ''childrenIds'' of
             PList cs \<Rightarrow> Inr (dset parent_id (dset ''childrenIds'' (PList (cs @ [PStr message_id])) parent) merged)
           | _ \<Rightarrow> Inl AttributeError))"

fun merge_loop :: "string list \<Rightarrow> (string \<times> pydict) list \<Rightarrow> (string \<times> pydict) list result" where
  "merge_loop [] merged = Inr merged"
| "merge_loop (message_id # rest) merged =
     (let parent_id = dget (dget_or merged message_id []) ''parentId''
      in rbind (id_in merged parent_id) (\<lambda>b.
         rbind (case parent_id of PStr p \<Rightarrow> append_child p message_id merged | _ \<Rightarrow> Inr merged)
           (merge_loop rest)))"

text \<open>\<open>(history or {}).get('messages') or {}\<close>, as the mapping it is unpacked into.\<close>

definition history_dict :: "pyval \<Rightarrow> pydict result" where
  "history_dict history = (case py_or history (PDict []) of PDict h \<Rightarrow> Inr h | _ \<Rightarrow> Inl AttributeError)"

definition history_messages :: "pydict \<Rightarrow> pydict result" where
  "history_messages h =
     (case py_or (dget h ''messages'') (PDict []) of PDict m \<Rightarrow> Inr m | _ \<Rightarrow> Inl TypeError)"

definition merge_current_id :: "(string \<times> pydict) list \<Rightarrow> pydict \<Rightarrow> pydict \<Rightarrow> pyval result" where
  "merge_current_id merged incoming existing =
     rbind (id_in merged (dget incoming ''currentId'')) (\<lambda>b.
       if b then Inr (dget incoming ''currentId'')
       else rbind (id_in merged (dget existing ''currentId'')) (\<lambda>b'.
         Inr (if b' then dget existing ''currentId'' else PNone)))"

definition merge_history :: "pyval \<Rightarrow> pyval \<Rightarrow> pydict result" where
  "merge_history existing_history incoming_history =
     rbind (history_dict existing_history) (\<lambda>eh.
     rbind (history_dict incoming_history) (\<lambda>ih.
     rbind (history_messages eh) (\<lambda>existing.
     rbind (history_messages ih) (\<lambda>incoming.
       let merged0 = childless (dmerge existing incoming)
       in rbind (merge_loop (map fst merged0) merged0) (\<lambda>merged.
          rbind (merge_current_id merged ih eh) (\<lambda>current_id.
            Inr (dset ''currentId'' current_id
                  (dset ''messages'' (PDict (map (\<lambda>(k, d). (k, PDict d)) merged)) (dmerge eh ih)))))))))"

subsection \<open>Deleting a message\<close>

text \<open>The ids of \<open>messages[v]['childrenIds']\<close> that exist, for every child in turn.\<close>

fun grandchildren :: "pydict \<Rightarrow> string list \<Rightarrow> string list result" where
  "grandchildren messages [] = Inr []"
| "grandchildren messages (child_id # rest) =
     rbind (py_get (dget messages child_id) ''childrenIds'' PNone) (\<lambda>cs.
     rbind (py_iter (py_or cs (PList []))) (\<lambda>xs.
     rbind (ids_in messages xs) (\<lambda>here.
     rbind (grandchildren messages rest) (\<lambda>more. Inr (here @ more)))))"

definition reparent_parent :: "pyval \<Rightarrow> string \<Rightarrow> string list \<Rightarrow> pydict \<Rightarrow> pydict result" where
  "reparent_parent parent_id message_id grandchild_ids messages =
     (case parent_id of
        PStr p \<Rightarrow>
          (case map_of messages p of
             None \<Rightarrow> Inr messages
           | Some parent \<Rightarrow>
               rbind (py_get parent ''childrenIds'' PNone) (\<lambda>cs.
               rbind (py_iter (py_or cs (PList []))) (\<lambda>xs.
               rbind (py_setitem parent ''childrenIds''
                       (PList (filter (\<lambda>c. c \<noteq> PStr message_id) xs @ map PStr grandchild_ids))) (\<lambda>parent'.
               Inr (dset p parent' messages)))))
      | _ \<Rightarrow> if hashable parent_id then Inr messages else Inl TypeError)"

definition set_parent :: "pyval \<Rightarrow> string \<Rightarrow> pydict \<Rightarrow> pydict result" where
  "set_parent parent_id grandchild_id messages =
     rbind (py_setitem (dget messages grandchild_id) ''parentId'' parent_id) (\<lambda>m.
       Inr (dset grandchild_id m messages))"

text \<open>\<open>xs[-1]\<close> of a truthy value.\<close>

fun py_last :: "pyval \<Rightarrow> pyval result" where
  "py_last (PList xs) = Inr (last xs)"
| "py_last (PStr s) = Inr (PStr [last s])"
| "py_last (PDict d) = Inl (KeyError ''-1'')"
| "py_last _ = Inl TypeError"

text \<open>The loop that goes down to the last child; it ends at a leaf, at an id it has seen, or at a missing one.\<close>

function descend :: "pydict \<Rightarrow> string set \<Rightarrow> pyval \<Rightarrow> pyval \<Rightarrow> pyval result" where
  "descend messages visited_ids current_id child_ids =
     (if \<not> truthy child_ids then Inr current_id
      else (case py_last child_ids of
              Inl e \<Rightarrow> Inl e
            | Inr c \<Rightarrow>
                (case c of
                   PStr k \<Rightarrow>
                     if k \<in> visited_ids then Inr current_id
                     else (case map_of messages k of
                             None \<Rightarrow> Inr c
                           | Some child \<Rightarrow>
                               (case py_get child ''childrenIds'' (PList []) of
                                  Inl e \<Rightarrow> Inl e
                                | Inr cs \<Rightarrow> descend messages (insert k visited_ids) c cs))
                 | _ \<Rightarrow> if hashable c then Inr c else Inl TypeError)))"
  by pat_completeness auto
termination
  by (relation "measure (\<lambda>(m, seen, c, cs). card (fst ` set m - seen))")
    (auto intro!: card_insert_seen dest: map_of_keyD simp del: card_Diff_insert)

declare descend.simps [simp del]

definition roots :: "pydict \<Rightarrow> pyval list result" where
  "roots messages =
     rbind (rmap (\<lambda>(k, child). rbind (py_get child ''parentId'' PNone) (\<lambda>p. Inr (k, p))) messages) (\<lambda>ps.
       Inr (map (\<lambda>(k, p). PStr k) (filter (\<lambda>(k, p). p = PNone) ps)))"

definition next_current_id :: "pydict \<Rightarrow> pyval \<Rightarrow> pyval result" where
  "next_current_id messages parent_id =
     rbind (if parent_id = PNone then rbind (roots messages) (\<lambda>rs. Inr (PList rs))
            else message_get messages parent_id ''childrenIds'' (PList [])) (\<lambda>child_ids.
     rbind (descend messages {} parent_id child_ids) (\<lambda>current_id.
     rbind (id_in messages current_id) (\<lambda>b. Inr (if b then current_id else PNone))))"

definition delete_message_from_history :: "pydict \<Rightarrow> string \<Rightarrow> (pydict \<times> string set) result" where
  "delete_message_from_history history message_id =
     (case py_or (dget history ''messages'') (PDict []) of
        PDict messages \<Rightarrow>
          (case map_of messages message_id of
             Some (PDict message) \<Rightarrow>
               (let parent_id = dget message ''parentId''
                in rbind (py_iter (py_or (dget message ''childrenIds'') (PList []))) (\<lambda>cs.
                   rbind (ids_in messages cs) (\<lambda>child_ids.
                   rbind (grandchildren messages child_ids) (\<lambda>grandchild_ids.
                   rbind (reparent_parent parent_id message_id grandchild_ids messages) (\<lambda>messages1.
                   rbind (rfold (set_parent parent_id) grandchild_ids messages1) (\<lambda>messages2.
                   let deleted_ids = insert message_id (set child_ids);
                       messages3 = filter (\<lambda>(k, v). k \<notin> deleted_ids) messages2
                   in rbind (next_current_id messages3 parent_id) (\<lambda>current_id.
                      Inr (dset ''currentId'' current_id (dset ''messages'' (PDict messages3) history),
                           deleted_ids))))))))
           | _ \<Rightarrow> Inr (history, {}))
      | _ \<Rightarrow> Inl AttributeError)"

subsection \<open>Saving a message\<close>

text \<open>The first message whose \<open>childrenIds\<close> name the message, when it names no parent itself.\<close>

fun listed_by :: "string \<Rightarrow> pydict \<Rightarrow> pyval result" where
  "listed_by message_id [] = Inr PNone"
| "listed_by message_id ((existing_id, existing_message) # rest) =
     rbind (py_get existing_message ''childrenIds'' (PList [])) (\<lambda>cs.
     rbind (py_in message_id cs) (\<lambda>b.
       if b then Inr (PStr existing_id) else listed_by message_id rest))"

definition new_message_role :: "pydict \<Rightarrow> pyval option \<Rightarrow> pyval result" where
  "new_message_role message parent =
     rbind (output_role (dget message ''output'')) (\<lambda>out_role.
       let role = py_or (dget message ''role'') out_role
       in if truthy role then Inr role
          else rbind (case parent of
                        None \<Rightarrow> Inr PNone
                      | Some p \<Rightarrow> if truthy p then py_get p ''role'' PNone else Inr PNone) (\<lambda>parent_role.
            Inr (if parent_role = PStr ''user'' then PStr ''assistant''
                 else if parent_role = PStr ''assistant'' then PStr ''user''
                 else PStr ''assistant'')))"

definition new_message :: "int \<Rightarrow> pydict \<Rightarrow> string \<Rightarrow> pydict \<Rightarrow> pydict result" where
  "new_message now messages message_id message =
     rbind (if dget message ''parentId'' = PNone then listed_by message_id messages
            else Inr (dget message ''parentId'')) (\<lambda>parent_id.
     rbind (if truthy parent_id then key_find messages parent_id else Inr None) (\<lambda>parent.
     rbind (new_message_role message parent) (\<lambda>role.
       Inr (dset ''timestamp'' (py_or (dget message ''timestamp'') (PInt now))
           (dset ''role'' role
           (dset ''childrenIds'' (case dget message ''childrenIds'' of PList cs \<Rightarrow> PList cs | _ \<Rightarrow> PList [])
           (dset ''parentId'' parent_id
           (dset ''id'' (py_or (dget message ''id'') (PStr message_id)) message))))))))"

text \<open>A \<open>messages\<close> that is not a dictionary: which exception the first use raises.\<close>

definition upsert_non_dict :: "pyval \<Rightarrow> string \<Rightarrow> pydict \<Rightarrow> py_error" where
  "upsert_non_dict messages message_id message =
     (case py_in message_id messages of
        Inl e \<Rightarrow> e
      | Inr True \<Rightarrow> TypeError
      | Inr False \<Rightarrow>
          if dget message ''parentId'' = PNone \<or> truthy (dget message ''parentId'') then AttributeError else TypeError)"

definition upsert_message_to_history :: "int \<Rightarrow> pydict \<Rightarrow> string \<Rightarrow> pydict \<Rightarrow> (pydict \<times> pydict) result" where
  "upsert_message_to_history now history message_id message =
     (case dget_or history ''messages'' (PDict []) of
        PDict messages \<Rightarrow>
          rbind (case map_of messages message_id of
                   Some old \<Rightarrow>
                     (case old of PDict d \<Rightarrow> Inr (dmerge d message, history) | _ \<Rightarrow> Inl TypeError)
                 | None \<Rightarrow>
                     rbind (new_message now messages message_id message) (\<lambda>saved.
                       Inr (saved, dset ''currentId'' (PStr message_id)
                              (dset ''messages'' (PDict messages) history)))) (\<lambda>(saved, history1).
          rbind (add_child_id_to_parent (dset message_id (PDict saved) messages) (dget saved ''parentId'') message_id)
            (\<lambda>(messages1, added).
              Inr (dset ''messages'' (PDict messages1) history1,
                   case dget messages1 message_id of PDict d \<Rightarrow> d | _ \<Rightarrow> saved)))
      | messages \<Rightarrow> Inl (upsert_non_dict messages message_id message))"

subsection \<open>Linked histories\<close>

text \<open>
  \<open>field\<close> reads a field of a message; \<open>kids\<close> the ids its \<open>childrenIds\<close> lists. A map is \<open>linked\<close> when every
  message is a dictionary, its \<open>parentId\<close> is missing or a string, its \<open>childrenIds\<close> lists strings once each,
  and a message is listed as a child exactly where it names its parent.
\<close>

definition field :: "pydict \<Rightarrow> string \<Rightarrow> string \<Rightarrow> pyval" where
  "field m k f = (case dget m k of PDict d \<Rightarrow> dget d f | _ \<Rightarrow> PNone)"

definition kids :: "pydict \<Rightarrow> string \<Rightarrow> string list" where
  "kids m k =
     (case field m k ''childrenIds'' of
        PList cs \<Rightarrow> concat (map (\<lambda>c. case c of PStr s \<Rightarrow> [s] | _ \<Rightarrow> []) cs) | _ \<Rightarrow> [])"

fun parent_ok :: "pyval \<Rightarrow> bool" where
  "parent_ok PNone = True"
| "parent_ok (PStr p) = True"
| "parent_ok _ = False"

definition typed :: "pydict \<Rightarrow> bool" where
  "typed m =
     (\<forall>k. dhas m k \<longrightarrow> is_dict (dget m k) \<and> parent_ok (field m k ''parentId'') \<and>
        field m k ''childrenIds'' = PList (map PStr (kids m k)) \<and> distinct (kids m k))"

definition linked :: "pydict \<Rightarrow> bool" where
  "linked m = (typed m \<and> (\<forall>p k. k \<in> set (kids m p) \<longleftrightarrow> dhas m p \<and> field m k ''parentId'' = PStr p))"

lemma concat_strs [simp]: "concat (map ((\<lambda>c. case c of PStr s \<Rightarrow> [s] | _ \<Rightarrow> []) \<circ> PStr) ks) = ks"
  by (induction ks) simp_all

lemma dget_not_has: "\<not> dhas m k \<Longrightarrow> dget m k = PNone"
  by (simp add: dhas_def dget_def)

lemma field_absent: "\<not> dhas m k \<Longrightarrow> field m k f = PNone"
  by (simp add: field_def dget_not_has)

lemma kids_absent: "\<not> dhas m k \<Longrightarrow> kids m k = []"
  by (simp add: kids_def field_absent)

lemma field_dset: "field (dset j (PDict d) m) k f = (if k = j then dget d f else field m k f)"
  by (simp add: field_def)

lemma kids_field: "field m k ''childrenIds'' = PList (map PStr ks) \<Longrightarrow> kids m k = ks"
  by (simp add: kids_def)

lemma kids_cong: "field m' k ''childrenIds'' = field m k ''childrenIds'' \<Longrightarrow> kids m' k = kids m k"
  by (simp add: kids_def)

lemma typed_message:
  assumes "typed m" "dhas m k"
  obtains d where "map_of m k = Some (PDict d)" "dget m k = PDict d" "parent_ok (dget d ''parentId'')"
    "dget d ''childrenIds'' = PList (map PStr (kids m k))" "distinct (kids m k)"
proof -
  from assms have dict: "is_dict (dget m k)" "parent_ok (field m k ''parentId'')"
    "field m k ''childrenIds'' = PList (map PStr (kids m k))" "distinct (kids m k)" by (auto simp: typed_def)
  then obtain d where "dget m k = PDict d" by (cases "dget m k") auto
  moreover with assms(2) have "map_of m k = Some (PDict d)" by (auto simp: dget_def dhas_def)
  ultimately show thesis using dict that by (simp add: field_def)
qed

lemma linkedD: "linked m \<Longrightarrow> k \<in> set (kids m p) \<longleftrightarrow> dhas m p \<and> field m k ''parentId'' = PStr p"
  by (simp add: linked_def)

lemma linked_kids_exist: "linked m \<Longrightarrow> k \<in> set (kids m p) \<Longrightarrow> dhas m k"
  by (metis field_absent linkedD pyval.distinct(5))

lemma parent_okE: "parent_ok v \<Longrightarrow> (v = PNone \<Longrightarrow> P) \<Longrightarrow> (\<And>p. v = PStr p \<Longrightarrow> P) \<Longrightarrow> P"
  by (cases v) auto

lemma parent_ok_hashable: "parent_ok v \<Longrightarrow> hashable v"
  by (cases v) auto

lemma id_in_simps [simp]:
  "id_in m PNone = Inr False" "id_in m (PStr k) = Inr (dhas m k)"
  by (simp_all add: id_in_def dhas_def)

lemma ids_in_strs: "ids_in m (map PStr ks) = Inr (filter (dhas m) ks)"
  by (induction ks) simp_all

subsection \<open>Merging keeps every message and rebuilds the links\<close>

definition parent_in :: "(string \<times> pydict) list \<Rightarrow> string \<Rightarrow> pyval" where
  "parent_in merged k = dget (dget_or merged k []) ''parentId''"

definition child_list :: "pydict \<Rightarrow> pyval list" where
  "child_list d = (case dget d ''childrenIds'' of PList cs \<Rightarrow> cs | _ \<Rightarrow> [])"

definition with_children :: "pyval list \<Rightarrow> pydict \<Rightarrow> pydict" where
  "with_children cs d = dset ''childrenIds'' (PList (child_list d @ cs)) d"

definition merge_ready :: "(string \<times> pydict) list \<Rightarrow> bool" where
  "merge_ready merged =
     (\<forall>k d. map_of merged k = Some d \<longrightarrow> parent_ok (dget d ''parentId'') \<and> is_list (dget d ''childrenIds''))"

lemma is_list_child_list: "is_list v \<Longrightarrow> v = PList (case v of PList cs \<Rightarrow> cs | _ \<Rightarrow> [])"
  by (cases v) auto

lemma with_children_Nil: "is_list (dget d ''childrenIds'') \<Longrightarrow> with_children [] d = d"
  by (cases "map_of d ''childrenIds''")
    (auto simp: with_children_def child_list_def dget_def split: pyval.splits intro: update_triv)

lemma with_children_append: "with_children cs (with_children bs d) = with_children (bs @ cs) d"
  by (simp add: with_children_def child_list_def)

lemma with_children_get: "f \<noteq> ''childrenIds'' \<Longrightarrow> dget (with_children cs d) f = dget d f"
  by (simp add: with_children_def)

lemma merge_loop_result:
  assumes "merge_ready merged"
  shows "\<exists>merged'. merge_loop ks merged = Inr merged' \<and>
    (\<forall>p. map_of merged' p = map_option (with_children (map PStr (filter (\<lambda>k. parent_in merged k = PStr p) ks)))
           (map_of merged p))"
  using assms
proof (induction ks arbitrary: merged)
  case Nil
  then show ?case
    by (auto simp: merge_ready_def with_children_Nil map_option.id [unfolded id_def] intro!: option.map_ident_strong [symmetric])
next
  case (Cons k ks)
  have ok: "parent_ok (parent_in merged k)"
    using Cons.prems by (auto simp: merge_ready_def parent_in_def dget_or_def split: option.split)
  define p0 where "p0 = parent_in merged k"
  show ?case
  proof (cases "\<exists>p parent. p0 = PStr p \<and> map_of merged p = Some parent")
    case False
    then have loop: "merge_loop (k # ks) merged = merge_loop ks merged"
      using ok by (cases p0) (auto simp: p0_def parent_in_def append_child_def split: option.split)
    have same: "map_option (with_children (map PStr (filter (\<lambda>j. parent_in merged j = PStr q) (k # ks)))) (map_of merged q) =
        map_option (with_children (map PStr (filter (\<lambda>j. parent_in merged j = PStr q) ks))) (map_of merged q)" for q
      using False by (cases "map_of merged q") (auto simp: p0_def)
    show ?thesis unfolding loop same by (rule Cons.IH [OF Cons.prems])
  next
    case True
    then obtain p parent where p: "p0 = PStr p" "map_of merged p = Some parent" by blast
    let ?m1 = "dset p (with_children [PStr k] parent) merged"
    have list: "is_list (dget parent ''childrenIds'')" using Cons.prems p(2) by (auto simp: merge_ready_def)
    then have loop: "merge_loop (k # ks) merged = merge_loop ks ?m1"
      using p is_list_child_list [OF list]
      by (auto simp: p0_def parent_in_def append_child_def with_children_def child_list_def dhas_def split: pyval.splits)
    have ready: "merge_ready ?m1"
      using Cons.prems p(2) by (auto simp: merge_ready_def map_of_dset with_children_get) (simp add: with_children_def)
    have par: "parent_in ?m1 j = parent_in merged j" for j
      using p(2) by (auto simp: parent_in_def dget_or_def map_of_dset with_children_get)
    from Cons.IH [OF ready] obtain merged' where m': "merge_loop ks ?m1 = Inr merged'"
      "\<And>q. map_of merged' q = map_option (with_children (map PStr (filter (\<lambda>j. parent_in merged j = PStr q) ks)))
         (map_of ?m1 q)" unfolding par by blast
    have "map_of merged' q = map_option (with_children (map PStr (filter (\<lambda>j. parent_in merged j = PStr q) (k # ks))))
         (map_of merged q)" for q
      using p by (auto simp: m'(2) map_of_dset with_children_append p0_def)
    with loop m'(1) show ?thesis by auto
  qed
qed

text \<open>The messages that are dictionaries, as a map; what the merge keeps.\<close>

definition dict_at :: "pydict \<Rightarrow> string \<Rightarrow> pydict option" where
  "dict_at m k = (case map_of m k of Some (PDict d) \<Rightarrow> Some d | _ \<Rightarrow> None)"

lemma field_dict_at: "field m k f = (case dict_at m k of None \<Rightarrow> PNone | Some d \<Rightarrow> dget d f)"
  by (auto simp: field_def dict_at_def dget_def [of m] split: option.split pyval.split)

lemma is_dict_at: "is_dict (dget m k) \<longleftrightarrow> dict_at m k \<noteq> None"
  by (auto simp: dict_at_def dget_def split: option.split pyval.split)

lemma childless_Cons:
  "childless ((k, v) # m) = (case v of PDict d \<Rightarrow> [(k, dset ''childrenIds'' (PList []) d)] | _ \<Rightarrow> []) @ childless m"
  by (simp add: childless_def)

lemma childless_keys: "fst ` set (childless m) \<subseteq> fst ` set m"
proof (induction m)
  case (Cons x m)
  then show ?case by (cases x) (auto simp: childless_Cons split: pyval.split)
qed (simp add: childless_def)

lemma childless_distinct: "distinct (map fst m) \<Longrightarrow> distinct (map fst (childless m))"
proof (induction m)
  case (Cons x m)
  obtain k v where x: "x = (k, v)" by (cases x)
  have "k \<notin> fst ` set (childless m)" using Cons.prems childless_keys [of m] x by auto
  with Cons show ?case by (cases v) (auto simp: x childless_Cons)
qed (simp add: childless_def)

lemma map_of_childless:
  "distinct (map fst m) \<Longrightarrow> map_of (childless m) k = map_option (dset ''childrenIds'' (PList [])) (dict_at m k)"
proof (induction m)
  case (Cons x m)
  obtain j v where x: "x = (j, v)" by (cases x)
  have none: "map_of (childless m) j = None"
    using Cons.prems childless_keys [of m] x by (auto simp: map_of_eq_None_iff)
  with Cons show ?case
    by (cases v) (auto simp: x childless_Cons dict_at_def map_add_def split: option.split)
qed (simp add: childless_def dict_at_def)

text \<open>The map the merge stores: the messages that survive, each with the children its map gives it.\<close>

definition rebuilt :: "pydict \<Rightarrow> string \<Rightarrow> pydict option" where
  "rebuilt m p =
     map_option (dset ''childrenIds''
        (PList (map PStr (filter (\<lambda>k. field m k ''parentId'' = PStr p) (map fst (childless m)))))) (dict_at m p)"

lemma merge_messages:
  assumes d: "distinct (map fst m)" and ok: "\<And>k. parent_ok (field m k ''parentId'')"
  shows "\<exists>merged. merge_loop (map fst (childless m)) (childless m) = Inr merged \<and> (\<forall>p. map_of merged p = rebuilt m p)"
proof -
  note c = map_of_childless [OF d]
  have par: "parent_in (childless m) k = field m k ''parentId''" for k
    by (cases "dict_at m k") (simp_all add: parent_in_def dget_or_def c field_dict_at)
  have "parent_ok (dget z ''parentId'')" if "dict_at m k = Some z" for k z
    using ok [of k] that by (simp add: field_dict_at)
  then have ready: "merge_ready (childless m)" by (auto simp: merge_ready_def c)
  have "with_children cs (dset ''childrenIds'' (PList []) d) = dset ''childrenIds'' (PList cs) d" for cs d
    by (simp add: with_children_def child_list_def)
  then have "map_option (with_children (map PStr (filter (\<lambda>k. field m k ''parentId'' = PStr p) (map fst (childless m)))))
      (map_of (childless m) p) = rebuilt m p" for p
    by (simp add: c rebuilt_def option.map_comp comp_def)
  with merge_loop_result [OF ready, of "map fst (childless m)"] show ?thesis by (simp add: par)
qed

definition with_dicts :: "(string \<times> pydict) list \<Rightarrow> pydict" where
  "with_dicts merged = map (\<lambda>(k, d). (k, PDict d)) merged"

lemma map_of_with_dicts: "map_of (with_dicts merged) k = map_option PDict (map_of merged k)"
  by (simp add: with_dicts_def map_of_map)

lemma rebuilt_linked:
  assumes d: "distinct (map fst m)" and ok: "\<And>k. parent_ok (field m k ''parentId'')"
    and m': "\<And>p. map_of m' p = map_option PDict (rebuilt m p)"
  shows "linked m'" "dhas m' k \<longleftrightarrow> is_dict (dget m k)"
    "f \<noteq> ''childrenIds'' \<Longrightarrow> field m' k f = field m k f"
proof -
  have at: "dict_at m' p = rebuilt m p" for p
    by (cases "rebuilt m p") (simp_all add: dict_at_def m')
  have has: "dhas m' k \<longleftrightarrow> dict_at m k \<noteq> None" for k by (simp add: dhas_def m' rebuilt_def)
  have get: "field m' k f = field m k f" if "f \<noteq> ''childrenIds''" for k f
    using that by (simp add: field_dict_at at) (simp add: rebuilt_def split: option.split)
  let ?kids = "\<lambda>p. filter (\<lambda>k. field m k ''parentId'' = PStr p) (map fst (childless m))"
  have ks: "field m' p ''childrenIds'' = PList (map PStr (?kids p))" if "dhas m' p" for p
    using that by (auto simp: has field_dict_at [of m'] at rebuilt_def)
  have kids: "kids m' p = ?kids p" if "dhas m' p" for p
    by (rule kids_field [OF ks [OF that]])
  have dict: "k \<in> fst ` set (childless m) \<longleftrightarrow> dict_at m k \<noteq> None" for k
    using map_of_eq_None_iff [of "childless m" k] map_of_childless [OF d, of k] by auto
  have "typed m'"
    unfolding typed_def
  proof (intro allI impI conjI)
    fix k
    assume k: "dhas m' k"
    then show "is_dict (dget m' k)" by (simp add: is_dict_at at) (simp add: has rebuilt_def)
    show "parent_ok (field m' k ''parentId'')" by (simp add: get ok)
    show "field m' k ''childrenIds'' = PList (map PStr (kids m' k))" unfolding ks [OF k] kids [OF k] ..
    show "distinct (kids m' k)" using childless_distinct [OF d] by (simp add: kids [OF k])
  qed
  moreover have "k \<in> set (kids m' p) \<longleftrightarrow> dhas m' p \<and> field m' k ''parentId'' = PStr p" for p k
  proof (cases "dhas m' p")
    case True
    have "dict_at m k \<noteq> None" if "field m k ''parentId'' = PStr p"
      using that by (cases "dict_at m k") (simp_all add: field_dict_at)
    with True show ?thesis using dict [of k] by (auto simp: kids get)
  qed (simp add: kids_absent)
  ultimately show "linked m'" by (simp add: linked_def)
  show "dhas m' k \<longleftrightarrow> is_dict (dget m k)" by (simp add: has is_dict_at)
  show "field m' k f = field m k f" if "f \<noteq> ''childrenIds''" using that by (rule get)
qed

text \<open>
  C24. Merging the stored history with one a client sends keeps every message of both (the client's version of
  a message wins) and every field but \<open>childrenIds\<close>; the children are rebuilt, so that in the merged map a
  message is listed as a child exactly where it names its parent; the current message is one of the map, the
  client's if possible, or none.
\<close>

theorem merge_history_keeps_messages:
  assumes "dget eh ''messages'' = PDict em" "dget ih ''messages'' = PDict im" "distinct (map fst em)"
    and "\<forall>k. parent_ok (field (dmerge em im) k ''parentId'')"
    and "parent_ok (dget eh ''currentId'')" "parent_ok (dget ih ''currentId'')"
  shows "\<exists>h m. merge_history (PDict eh) (PDict ih) = Inr h \<and> dget h ''messages'' = PDict m \<and> linked m \<and>
    (\<forall>k. dhas m k \<longleftrightarrow> is_dict (dget (dmerge em im) k)) \<and>
    (\<forall>k f. f \<noteq> ''childrenIds'' \<longrightarrow> field m k f = field (dmerge em im) k f) \<and>
    (dget h ''currentId'' = PNone \<or> (\<exists>k. dget h ''currentId'' = PStr k \<and> dhas m k)) \<and>
    (\<forall>k. dget ih ''currentId'' = PStr k \<and> dhas m k \<longrightarrow> dget h ''currentId'' = PStr k)"
proof -
  let ?m = "dmerge em im"
  have d: "distinct (map fst ?m)" using assms(3) by (rule distinct_dmerge)
  from merge_messages [OF d] assms(4) obtain merged where
    merged: "merge_loop (map fst (childless ?m)) (childless ?m) = Inr merged" and at: "\<And>p. map_of merged p = rebuilt ?m p"
    by blast
  let ?w = "with_dicts merged"
  have w: "map_of ?w p = map_option PDict (rebuilt ?m p)" for p by (simp add: map_of_with_dicts at)
  have ok: "parent_ok (field ?m k ''parentId'')" for k using assms(4) by blast
  have in_w: "dhas ?w k = dhas merged k" for k by (simp add: dhas_def map_of_with_dicts)
  have dicts: "history_dict (PDict eh) = Inr eh" "history_dict (PDict ih) = Inr ih"
    "history_messages eh = Inr em" "history_messages ih = Inr im"
    using assms(1,2) by (auto simp: history_dict_def history_messages_def py_or_def)
  define cur where "cur =
      (if \<exists>k. dget ih ''currentId'' = PStr k \<and> dhas ?w k then dget ih ''currentId''
       else if \<exists>k. dget eh ''currentId'' = PStr k \<and> dhas ?w k then dget eh ''currentId'' else PNone)"
  have cur: "merge_current_id merged ih eh = Inr cur"
    using assms(5,6) by (auto simp: merge_current_id_def in_w cur_def elim!: parent_okE)
  let ?h = "dset ''currentId'' cur (dset ''messages'' (PDict ?w) (dmerge eh ih))"
  have "merge_history (PDict eh) (PDict ih) = Inr ?h"
    by (simp add: merge_history_def dicts merged cur Let_def with_dicts_def)
  moreover have get: "dget ?h ''messages'' = PDict ?w" "dget ?h ''currentId'' = cur" by simp_all
  moreover have "linked ?w" "\<forall>k. dhas ?w k \<longleftrightarrow> is_dict (dget ?m k)"
    "\<forall>k f. f \<noteq> ''childrenIds'' \<longrightarrow> field ?w k f = field ?m k f"
    using rebuilt_linked [OF d ok w] by blast+
  moreover have "dget ?h ''currentId'' = PNone \<or> (\<exists>k. dget ?h ''currentId'' = PStr k \<and> dhas ?w k)"
    unfolding get by (simp add: cur_def)
  moreover have "\<forall>k. dget ih ''currentId'' = PStr k \<and> dhas ?w k \<longrightarrow> dget ?h ''currentId'' = PStr k"
    unfolding get by (auto simp: cur_def)
  ultimately show ?thesis by (intro exI conjI) assumption+
qed

definition sample_stored :: pydict where
  "sample_stored =
     [(''messages'', PDict [(''a'', PDict [(''parentId'', PNone), (''childrenIds'', PList [])]),
        (''b'', PDict [(''parentId'', PStr ''a''), (''childrenIds'', PList [])])]), (''currentId'', PStr ''b'')]"

definition sample_sent :: pydict where
  "sample_sent =
     [(''messages'', PDict [(''a'', PDict [(''parentId'', PNone), (''childrenIds'', PList [PStr ''c''])]),
        (''c'', PDict [(''parentId'', PStr ''a''), (''childrenIds'', PList [])])]), (''currentId'', PStr ''c'')]"

lemma merge_history_keeps_messages_witness:
  "\<exists>h m. merge_history (PDict sample_stored) (PDict sample_sent) = Inr h \<and> dget h ''messages'' = PDict m \<and>
     linked m \<and> dhas m ''b'' \<and> dhas m ''c'' \<and> kids m ''a'' = [''b'', ''c''] \<and> dget h ''currentId'' = PStr ''c''"
proof -
  let ?em = "[(''a'', PDict [(''parentId'', PNone), (''childrenIds'', PList [])]),
      (''b'', PDict [(''parentId'', PStr ''a''), (''childrenIds'', PList [])])]"
  let ?im = "[(''a'', PDict [(''parentId'', PNone), (''childrenIds'', PList [PStr ''c''])]),
      (''c'', PDict [(''parentId'', PStr ''a''), (''childrenIds'', PList [])])]"
  have em: "dget sample_stored ''messages'' = PDict ?em" "dget sample_sent ''messages'' = PDict ?im" "distinct (map fst ?em)"
    by (simp_all add: sample_stored_def sample_sent_def)
  have par: "\<forall>k. parent_ok (field (dmerge ?em ?im) k ''parentId'')" by (auto simp: field_def)
  have cur: "parent_ok (dget sample_stored ''currentId'')" "parent_ok (dget sample_sent ''currentId'')"
    by (simp_all add: sample_stored_def sample_sent_def)
  obtain h m where hm: "merge_history (PDict sample_stored) (PDict sample_sent) = Inr h"
    "dget h ''messages'' = PDict m" "linked m"
    using merge_history_keeps_messages [OF em par cur] by blast
  have "(case merge_history (PDict sample_stored) (PDict sample_sent) of Inr h \<Rightarrow>
      (case dget h ''messages'' of PDict m \<Rightarrow> dhas m ''b'' \<and> dhas m ''c'' \<and> kids m ''a'' = [''b'', ''c''] | _ \<Rightarrow> False) \<and>
      dget h ''currentId'' = PStr ''c'' | _ \<Rightarrow> False)" by code_simp
  with hm show ?thesis by auto
qed

subsection \<open>Deleting a message relinks what it leaves\<close>

definition grand_ids :: "pydict \<Rightarrow> string \<Rightarrow> string list" where
  "grand_ids m k = concat (map (kids m) (kids m k))"

lemma set_grand_ids: "j \<in> set (grand_ids m k) \<longleftrightarrow> (\<exists>c \<in> set (kids m k). j \<in> set (kids m c))"
  by (simp add: grand_ids_def)

lemma distinct_concat_map:
  assumes "distinct xs" "\<And>x. x \<in> set xs \<Longrightarrow> distinct (f x)"
    and "\<And>x y z. z \<in> set (f x) \<Longrightarrow> z \<in> set (f y) \<Longrightarrow> x = y"
  shows "distinct (concat (map f xs))"
  using assms(1,2)
proof (induction xs)
  case (Cons x xs)
  then have "set (f x) \<inter> set (concat (map f xs)) = {}" using assms(3) by fastforce
  with Cons show ?case by simp
qed simp

lemma linked_distinct: "linked m \<Longrightarrow> distinct (kids m k)"
  by (cases "dhas m k") (auto simp: linked_def typed_def kids_absent)

lemma linked_one_parent: "linked m \<Longrightarrow> j \<in> set (kids m a) \<Longrightarrow> j \<in> set (kids m b) \<Longrightarrow> a = b"
  by (simp add: linkedD)

lemma linked_grand_ids: "linked m \<Longrightarrow> distinct (grand_ids m k)"
  unfolding grand_ids_def
  by (rule distinct_concat_map) (auto simp: linked_distinct dest: linked_one_parent)

lemma delete_linked:
  assumes l: "linked m" and k: "dhas m k"
    and has: "\<And>j. dhas m' j \<longleftrightarrow> dhas m j \<and> j \<notin> insert k (set (kids m k))"
    and dict: "\<And>j. dhas m' j \<Longrightarrow> is_dict (dget m' j)"
    and par: "\<And>j. dhas m' j \<Longrightarrow>
      field m' j ''parentId'' = (if j \<in> set (grand_ids m k) then field m k ''parentId'' else field m j ''parentId'')"
    and ch: "\<And>j. dhas m' j \<Longrightarrow> field m' j ''childrenIds'' =
      PList (map PStr (if field m k ''parentId'' = PStr j then filter (\<lambda>c. c \<noteq> k) (kids m j) @ grand_ids m k else kids m j))"
  shows "linked m'"
proof -
  have kd: "kids m' j = (if field m k ''parentId'' = PStr j then filter (\<lambda>c. c \<noteq> k) (kids m j) @ grand_ids m k else kids m j)"
    if "dhas m' j" for j
    by (rule kids_field [OF ch [OF that]])
  have keep: "j \<noteq> k" "j \<notin> set (kids m k)" if "dhas m' j" for j using has that by auto
  have not_both: "j \<notin> set (grand_ids m k)" if "j \<in> set (kids m q)" "dhas m' q" for j q
    using linked_one_parent [OF l that(1)] keep [OF that(2)] by (auto simp: set_grand_ids)
  have pok: "parent_ok (field m j ''parentId'')" for j
    using l by (cases "dhas m j") (auto simp: linked_def typed_def field_absent)
  have "typed m'"
    unfolding typed_def
  proof (intro allI impI conjI)
    fix j
    assume j: "dhas m' j"
    show "is_dict (dget m' j)" by (rule dict [OF j])
    show "parent_ok (field m' j ''parentId'')" by (simp add: par [OF j] pok)
    show "field m' j ''childrenIds'' = PList (map PStr (kids m' j))" unfolding ch [OF j] kd [OF j] ..
    show "distinct (kids m' j)"
      using not_both j linked_distinct [OF l] linked_grand_ids [OF l] by (auto simp: kd [OF j])
  qed
  moreover have "j \<in> set (kids m' q) \<longleftrightarrow> dhas m' q \<and> field m' j ''parentId'' = PStr q" for q j
  proof (cases "dhas m' q \<and> dhas m' j")
    case True
    then have q: "dhas m q" "dhas m' q" and j: "dhas m' j" using has by auto
    show ?thesis
      using linkedD [OF l, of j q] q j keep [OF j] not_both [OF _ q(2)]
      by (auto simp: kd [OF q(2)] par [OF j])
  next
    case False
    have "j \<notin> set (kids m' q)" if q: "dhas m' q" and j: "\<not> dhas m' j"
    proof
      assume in_kids: "j \<in> set (kids m' q)"
      show False
      proof (cases "j \<in> set (kids m q) \<and> j \<noteq> k")
        case True
        with linked_kids_exist [OF l] j has have "j \<in> set (kids m k)" by auto
        with True linked_one_parent [OF l] keep [OF q] show False by blast
      next
        case False
        with in_kids have pq: "field m k ''parentId'' = PStr q" and g: "j \<in> set (grand_ids m k)"
          using kd [OF q] linkedD [OF l, of k q] by (auto split: if_splits)
        from g obtain c where c: "c \<in> set (kids m k)" "j \<in> set (kids m c)" by (auto simp: set_grand_ids)
        with linked_kids_exist [OF l] j has have "j = k \<or> j \<in> set (kids m k)" by auto
        with pq c l keep [OF q] show False by (auto simp: linkedD)
      qed
    qed
    with False show ?thesis
      by (cases "dhas m' q"; cases "dhas m' j") (auto simp: kids_absent field_absent)
  qed
  ultimately show ?thesis by (simp add: linked_def)
qed

text \<open>The steps of the deletion on a linked map.\<close>

lemma py_or_list [simp]: "py_or (PList xs) (PList []) = PList xs"
  by (simp add: py_or_def)

lemma grandchildren_linked:
  assumes "linked m" "\<forall>c \<in> set cs. dhas m c"
  shows "grandchildren m cs = Inr (concat (map (kids m) cs))"
  using assms(2)
proof (induction cs)
  case (Cons c cs)
  then have "dhas m c" by simp
  with assms(1) obtain d where d: "dget m c = PDict d" "dget d ''childrenIds'' = PList (map PStr (kids m c))"
    by (auto simp: linked_def elim: typed_message)
  then have "dget_or d ''childrenIds'' PNone = PList (map PStr (kids m c))"
    by (simp add: dget_def dget_or_def)
  moreover have "filter (dhas m) (kids m c) = kids m c"
    using linked_kids_exist [OF assms(1)] by (simp add: filter_id_conv)
  ultimately show ?case using Cons by (simp add: d(1) ids_in_strs)
qed simp

lemma set_parent_loop:
  assumes "\<forall>g \<in> set gs. dict_at m g \<noteq> None"
  shows "\<exists>m'. rfold (set_parent p) gs m = Inr m' \<and> (\<forall>j. dhas m' j \<longleftrightarrow> dhas m j) \<and>
    (\<forall>j. dict_at m' j = (if j \<in> set gs then map_option (dset ''parentId'' p) (dict_at m j) else dict_at m j))"
  using assms
proof (induction gs arbitrary: m)
  case (Cons g gs)
  then obtain d where d: "dict_at m g = Some d" by auto
  then have g: "dget m g = PDict d" "dhas m g"
    by (auto simp: dict_at_def dget_def dhas_def split: option.splits pyval.splits)
  let ?m = "dset g (PDict (dset ''parentId'' p d)) m"
  have at: "dict_at ?m j = (if j = g then Some (dset ''parentId'' p d) else dict_at m j)" for j
    by (simp add: dict_at_def map_of_dset)
  from Cons have "\<forall>g \<in> set gs. dict_at ?m g \<noteq> None" by (auto simp: at)
  from Cons.IH [OF this] obtain m' where m': "rfold (set_parent p) gs ?m = Inr m'" "\<forall>j. dhas m' j \<longleftrightarrow> dhas ?m j"
    "\<forall>j. dict_at m' j = (if j \<in> set gs then map_option (dset ''parentId'' p) (dict_at ?m j) else dict_at ?m j)"
    by blast
  have "rfold (set_parent p) (g # gs) m = Inr m'" by (simp add: set_parent_def g m')
  moreover have "\<forall>j. dhas m' j \<longleftrightarrow> dhas m j" using m'(2) g(2) by auto
  ultimately show ?case using m'(3) d by (intro exI [of _ m']) (auto simp: at)
qed simp

lemma descend_ok:
  assumes "typed m" "parent_ok c"
  shows "\<exists>v. descend m seen c (PList (map PStr ks)) = Inr v \<and> parent_ok v"
  using assms(2)
proof (induction "card (fst ` set m - seen)" arbitrary: seen c ks rule: less_induct)
  case less
  show ?case
  proof (cases "ks = [] \<or> last ks \<in> seen \<or> map_of m (last ks) = None")
    case True
    then show ?thesis using less.prems by (subst descend.simps) (auto simp: last_map)
  next
    case False
    then have "dhas m (last ks)" by (simp add: dhas_def)
    with assms(1) obtain d where d: "map_of m (last ks) = Some (PDict d)"
      "dget d ''childrenIds'' = PList (map PStr (kids m (last ks)))" by (rule typed_message)
    then have "dget_or d ''childrenIds'' (PList []) = PList (map PStr (kids m (last ks)))"
      by (auto simp: dget_def dget_or_def split: option.splits)
    with False d have step: "descend m seen c (PList (map PStr ks)) =
        descend m (insert (last ks) seen) (PStr (last ks)) (PList (map PStr (kids m (last ks))))"
      by (subst descend.simps) (auto simp: last_map)
    have "card (fst ` set m - insert (last ks) seen) < card (fst ` set m - seen)"
      using False map_of_keyD [OF d(1)] by (intro card_insert_seen) auto
    from less.hyps [OF this, of "PStr (last ks)"] show ?thesis unfolding step by simp
  qed
qed

lemma roots_typed: "typed m \<Longrightarrow> distinct (map fst m) \<Longrightarrow> \<exists>ks. roots m = Inr (map PStr ks)"
proof -
  assume t: "typed m" and d: "distinct (map fst m)"
  have "rmap (\<lambda>(k, child). rbind (py_get child ''parentId'' PNone) (\<lambda>p. Inr (k, p))) xs =
      Inr (map (\<lambda>(k, child). (k, field m k ''parentId'')) xs)" if "set xs \<subseteq> set m" for xs
    using that
  proof (induction xs)
    case (Cons x xs)
    obtain k v where x: "x = (k, v)" by (cases x)
    with Cons.prems d have v: "map_of m k = Some v" by (simp add: map_of_is_SomeI)
    then have "dhas m k" by (simp add: dhas_def)
    with t v obtain d where "v = PDict d" by (metis option.inject typed_message)
    with v Cons x show ?case by (simp add: field_def dget_def dget_or_def)
  qed simp
  then show ?thesis
    by (auto simp: roots_def intro!: exI [of _ "map fst (filter (\<lambda>(k, p). p = PNone) (map (\<lambda>(k, child). (k, field m k ''parentId'')) m))"])
qed

lemma next_current_id_ok:
  assumes "typed m" "distinct (map fst m)" "parent_ok p"
  shows "\<exists>cur. next_current_id m p = Inr cur \<and> (cur = PNone \<or> (\<exists>j. cur = PStr j \<and> dhas m j))"
proof -
  have "\<exists>ks. (if p = PNone then rbind (roots m) (\<lambda>rs. Inr (PList rs))
      else message_get m p ''childrenIds'' (PList [])) = Inr (PList (map PStr ks))"
    using assms(3)
  proof (rule parent_okE)
    assume "p = PNone"
    with roots_typed [OF assms(1,2)] show ?thesis by auto
  next
    fix q
    assume p: "p = PStr q"
    show ?thesis
    proof (cases "dhas m q")
      case True
      with assms(1) obtain d where "map_of m q = Some (PDict d)" "dget d ''childrenIds'' = PList (map PStr (kids m q))"
        by (rule typed_message)
      with p show ?thesis by (auto simp: message_get_def dget_def dget_or_def split: option.splits)
    next
      case False
      with p show ?thesis by (simp add: message_get_def dhas_def)
    qed
  qed
  then obtain ks where ks: "(if p = PNone then rbind (roots m) (\<lambda>rs. Inr (PList rs))
      else message_get m p ''childrenIds'' (PList [])) = Inr (PList (map PStr ks))" by blast
  from descend_ok [OF assms(1,3)] obtain v where "descend m {} p (PList (map PStr ks)) = Inr v" "parent_ok v" by blast
  then show ?thesis unfolding next_current_id_def ks by (auto elim!: parent_okE)
qed

lemma reparent_parent_result:
  assumes "typed m" "parent_ok p"
  shows "\<exists>m1. reparent_parent p k gs m = Inr m1 \<and> (\<forall>j. dhas m1 j \<longleftrightarrow> dhas m j) \<and>
    (\<forall>j. dict_at m1 j = (if p = PStr j
       then map_option (dset ''childrenIds'' (PList (map PStr (filter (\<lambda>c. c \<noteq> k) (kids m j) @ gs)))) (dict_at m j)
       else dict_at m j))"
  using assms(2)
proof (rule parent_okE)
  assume "p = PNone"
  then show ?thesis by (simp add: reparent_parent_def)
next
  fix q
  assume p: "p = PStr q"
  show ?thesis
  proof (cases "dhas m q")
    case False
    then have "map_of m q = None" by (simp add: dhas_def)
    then show ?thesis by (simp add: p reparent_parent_def dict_at_def)
  next
    case True
    with assms(1) obtain d where d: "map_of m q = Some (PDict d)" "dget d ''childrenIds'' = PList (map PStr (kids m q))"
      by (rule typed_message)
    let ?d = "dset ''childrenIds'' (PList (map PStr (filter (\<lambda>c. c \<noteq> k) (kids m q) @ gs))) d"
    have "dget_or d ''childrenIds'' PNone = PList (map PStr (kids m q))"
      using d(2) by (simp add: dget_def dget_or_def)
    moreover have "filter (\<lambda>c. c \<noteq> PStr k) (map PStr ks) = map PStr (filter (\<lambda>c. c \<noteq> k) ks)" for ks
      by (simp add: filter_map comp_def)
    ultimately have "reparent_parent p k gs m = Inr (dset q (PDict ?d) m)"
      by (simp add: p reparent_parent_def d)
    then show ?thesis
      using True by (intro exI [of _ "dset q (PDict ?d) m"]) (auto simp: p dict_at_def map_of_dset d)
  qed
qed

lemma map_of_filter_keys: "map_of (filter (\<lambda>(k, v). k \<notin> D) m) j = (if j \<in> D then None else map_of m j)"
  by (induction m) auto

lemma dhas_dict_at: "dict_at m j \<noteq> None \<Longrightarrow> dhas m j"
  by (auto simp: dict_at_def dhas_def split: option.splits)

lemma keys_relinked:
  "reparent_parent p k gs m = Inr m1 \<Longrightarrow> distinct (map fst m) \<Longrightarrow> distinct (map fst m1)"
  "rfold (set_parent p) gs m1 = Inr m2 \<Longrightarrow> distinct (map fst m1) \<Longrightarrow> distinct (map fst m2)"
proof -
  show "reparent_parent p k gs m = Inr m1 \<Longrightarrow> distinct (map fst m) \<Longrightarrow> distinct (map fst m1)"
    by (auto simp: reparent_parent_def rbind_Inr_iff distinct_update split: pyval.splits option.splits if_splits)
  show "rfold (set_parent p) gs m1 = Inr m2 \<Longrightarrow> distinct (map fst m1) \<Longrightarrow> distinct (map fst m2)"
    by (induction gs arbitrary: m1) (auto simp: set_parent_def rbind_Inr_iff distinct_update)
qed

lemma delete_message_steps:
  assumes msgs: "dget history ''messages'' = PDict m" and l: "linked m" and k: "dhas m k"
    and d: "distinct (map fst m)"
  shows "\<exists>h m'. delete_message_from_history history k = Inr (h, insert k (set (kids m k))) \<and>
    dget h ''messages'' = PDict m' \<and> linked m' \<and>
    (\<forall>j. dhas m' j \<longleftrightarrow> dhas m j \<and> j \<notin> insert k (set (kids m k))) \<and>
    (\<forall>j f. dhas m' j \<and> f \<noteq> ''childrenIds'' \<longrightarrow> field m' j f =
       (if f = ''parentId'' \<and> j \<in> set (grand_ids m k) then field m k ''parentId'' else field m j f)) \<and>
    (dget h ''currentId'' = PNone \<or> (\<exists>j. dget h ''currentId'' = PStr j \<and> dhas m' j))"
proof -
  have t: "typed m" using l by (simp add: linked_def)
  let ?C = "kids m k" and ?G = "grand_ids m k" and ?p = "field m k ''parentId''"
  let ?D = "insert k (set ?C)"
  from t k obtain msg where msg: "map_of m k = Some (PDict msg)" "dget m k = PDict msg" "parent_ok (dget msg ''parentId'')"
    "dget msg ''childrenIds'' = PList (map PStr ?C)" by (rule typed_message)
  have p: "dget msg ''parentId'' = ?p" by (simp add: field_def msg)
  have C: "\<forall>c \<in> set ?C. dhas m c" using linked_kids_exist [OF l] by blast
  have exist: "dict_at m j \<noteq> None" if "dhas m j" for j
  proof -
    from t that obtain dj where "map_of m j = Some (PDict dj)" by (rule typed_message)
    then show ?thesis by (simp add: dict_at_def)
  qed
  obtain m1 where m1: "reparent_parent ?p k ?G m = Inr m1" "\<And>j. dhas m1 j \<longleftrightarrow> dhas m j"
    "\<And>j. dict_at m1 j = (if ?p = PStr j
       then map_option (dset ''childrenIds'' (PList (map PStr (filter (\<lambda>c. c \<noteq> k) (kids m j) @ ?G)))) (dict_at m j)
       else dict_at m j)"
    using reparent_parent_result [OF t msg(3), of k ?G] unfolding p by blast
  have "\<forall>g \<in> set ?G. dict_at m1 g \<noteq> None"
    using exist linked_kids_exist [OF l] by (auto simp: m1(3) set_grand_ids)
  from set_parent_loop [OF this, of ?p] obtain m2 where m2: "rfold (set_parent ?p) ?G m1 = Inr m2"
    "\<And>j. dhas m2 j \<longleftrightarrow> dhas m1 j"
    "\<And>j. dict_at m2 j = (if j \<in> set ?G then map_option (dset ''parentId'' ?p) (dict_at m1 j) else dict_at m1 j)" by blast
  define m3 where "m3 = filter (\<lambda>(k, v). k \<notin> ?D) m2"
  have m3': "filter (\<lambda>(ka, v). ka \<noteq> k \<and> ka \<notin> set ?C) m2 = m3" by (simp add: m3_def)
  have at3: "dict_at m3 j = (if j \<in> ?D then None else dict_at m2 j)" for j
    unfolding dict_at_def m3_def map_of_filter_keys by simp
  have has3: "dhas m3 j \<longleftrightarrow> dhas m j \<and> j \<notin> ?D" for j
    using m1(2) m2(2) unfolding dhas_def m3_def map_of_filter_keys by simp
  have f3: "field m3 j f = (if f = ''parentId'' \<and> j \<in> set ?G then ?p
      else if f = ''childrenIds'' \<and> ?p = PStr j then PList (map PStr (filter (\<lambda>c. c \<noteq> k) (kids m j) @ ?G))
      else field m j f)" if j: "dhas m3 j" for j f
  proof -
    from j has3 exist obtain dj where dj: "dict_at m j = Some dj" "j \<notin> ?D" by blast
    then show ?thesis by (simp add: field_dict_at [of m3] field_dict_at [of m j] at3 m2(3) m1(3))
  qed
  have kj: "field m j ''childrenIds'' = PList (map PStr (kids m j))" if "dhas m j" for j
    using t that by (simp add: typed_def)
  have l3: "linked m3"
  proof (rule delete_linked [OF l k has3])
    fix j
    assume j: "dhas m3 j"
    with has3 exist have "dict_at m j \<noteq> None" "j \<notin> ?D" by blast+
    then show "is_dict (dget m3 j)" by (auto simp: is_dict_at at3 m2(3) m1(3))
    show "field m3 j ''parentId'' = (if j \<in> set ?G then ?p else field m j ''parentId'')" by (simp add: f3 [OF j])
    show "field m3 j ''childrenIds'' =
        PList (map PStr (if ?p = PStr j then filter (\<lambda>c. c \<noteq> k) (kids m j) @ ?G else kids m j))"
      using kj has3 j by (simp add: f3 [OF j])
  qed
  have "distinct (map fst m2)" using keys_relinked m1(1) m2(1) d by blast
  then have "distinct (map fst m3)" by (simp add: m3_def distinct_map_filter)
  with l3 msg(3) obtain cur where cur: "next_current_id m3 ?p = Inr cur" "cur = PNone \<or> (\<exists>j. cur = PStr j \<and> dhas m3 j)"
    using next_current_id_ok [of m3 ?p] unfolding p linked_def by blast
  let ?h = "dset ''currentId'' cur (dset ''messages'' (PDict m3) history)"
  have "py_or (PDict m) (PDict []) = PDict m" using k by (auto simp: py_or_def)
  moreover have "ids_in m (map PStr ?C) = Inr ?C" using C by (simp add: ids_in_strs filter_id_conv)
  moreover have "grandchildren m ?C = Inr ?G" using grandchildren_linked [OF l C] by (simp add: grand_ids_def)
  ultimately have "delete_message_from_history history k = Inr (?h, ?D)"
    unfolding delete_message_from_history_def Let_def msgs
    by (simp add: msg(1,4) p m1(1) m2(1) cur(1) m3')
  moreover have "dget ?h ''messages'' = PDict m3" "dget ?h ''currentId'' = cur" by simp_all
  moreover have "\<forall>j. dhas m3 j \<longleftrightarrow> dhas m j \<and> j \<notin> ?D" using has3 by blast
  moreover have "\<forall>j f. dhas m3 j \<and> f \<noteq> ''childrenIds'' \<longrightarrow> field m3 j f =
       (if f = ''parentId'' \<and> j \<in> set ?G then ?p else field m j f)" using f3 by simp
  ultimately show ?thesis using l3 cur(2) by (intro exI [of _ ?h] exI [of _ m3]) simp
qed

text \<open>
  C23. Deleting a message from a linked history removes exactly the message and its direct answers: every other
  message stays, those left without a parent by the deletion are attached to the parent of the deleted message,
  and no other field of a remaining message changes but the lists of children. The history is linked again, and
  the current message is one that remains, or none.
\<close>

theorem delete_message_relinks:
  assumes "dget history ''messages'' = PDict m" "linked m" "distinct (map fst m)" "dhas m k"
  shows "\<exists>h m'. delete_message_from_history history k = Inr (h, insert k (set (kids m k))) \<and>
    dget h ''messages'' = PDict m' \<and> linked m' \<and>
    (\<forall>j. dhas m' j \<longleftrightarrow> dhas m j \<and> j \<notin> insert k (set (kids m k))) \<and>
    (\<forall>j f. dhas m' j \<and> f \<noteq> ''childrenIds'' \<longrightarrow> field m' j f =
       (if f = ''parentId'' \<and> j \<in> set (grand_ids m k) then field m k ''parentId'' else field m j f)) \<and>
    (dget h ''currentId'' = PNone \<or> (\<exists>j. dget h ''currentId'' = PStr j \<and> dhas m' j))"
  by (rule delete_message_steps [OF assms(1,2,4,3)])

definition sample_tree :: pydict where
  "sample_tree =
     [(''a'', PDict [(''parentId'', PNone), (''childrenIds'', PList [PStr ''b''])]),
      (''b'', PDict [(''parentId'', PStr ''a''), (''childrenIds'', PList [PStr ''c''])]),
      (''c'', PDict [(''parentId'', PStr ''b''), (''childrenIds'', PList [PStr ''d''])]),
      (''d'', PDict [(''parentId'', PStr ''c''), (''childrenIds'', PList [])])]"

lemma sample_tree_linked: "linked sample_tree"
proof -
  have "field sample_tree k ''parentId'' = (if k = ''b'' then PStr ''a'' else if k = ''c'' then PStr ''b''
      else if k = ''d'' then PStr ''c'' else PNone)"
    "field sample_tree k ''childrenIds'' = (if k = ''a'' then PList [PStr ''b''] else if k = ''b'' then PList [PStr ''c'']
      else if k = ''c'' then PList [PStr ''d''] else if k = ''d'' then PList [] else PNone)"
    "dhas sample_tree k \<longleftrightarrow> k \<in> {''a'', ''b'', ''c'', ''d''}"
    "dhas sample_tree k \<Longrightarrow> is_dict (dget sample_tree k)" for k
    by (auto simp: sample_tree_def field_def)
  then show ?thesis by (auto simp: linked_def typed_def kids_def)
qed

lemma delete_message_relinks_witness:
  "\<exists>h m. delete_message_from_history [(''messages'', PDict sample_tree), (''currentId'', PStr ''d'')] ''b'' =
       Inr (h, {''b'', ''c''}) \<and>
     dget h ''messages'' = PDict m \<and> linked m \<and> dhas m ''a'' \<and> dhas m ''d'' \<and> field m ''d'' ''parentId'' = PStr ''a''"
proof -
  have h: "dget [(''messages'', PDict sample_tree), (''currentId'', PStr ''d'')] ''messages'' = PDict sample_tree"
    "distinct (map fst sample_tree)" "dhas sample_tree ''b''" by (simp_all add: sample_tree_def)
  have v: "kids sample_tree ''b'' = [''c'']" "''d'' \<in> set (grand_ids sample_tree ''b'')" "dhas sample_tree ''a''"
    "dhas sample_tree ''d''" "field sample_tree ''b'' ''parentId'' = PStr ''a''" by code_simp+
  show ?thesis using delete_message_relinks [OF h(1) sample_tree_linked h(2,3)] v by fastforce
qed

subsection \<open>Saving a new message links it\<close>

lemma listed_by_none:
  assumes "linked m" "distinct (map fst m)" "\<not> dhas m k" "set xs \<subseteq> set m"
  shows "listed_by k xs = Inr PNone"
  using assms(4)
proof (induction xs)
  case (Cons x xs)
  obtain j v where x: "x = (j, v)" by (cases x)
  with Cons.prems assms(2) have j: "map_of m j = Some v" by (simp add: map_of_is_SomeI)
  then have "dhas m j" by (simp add: dhas_def)
  with assms(1) obtain d where d: "map_of m j = Some (PDict d)" "dget d ''childrenIds'' = PList (map PStr (kids m j))"
    by (metis linked_def typed_message)
  have "dget_or d ''childrenIds'' (PList []) = PList (map PStr (kids m j))"
    using d(2) by (auto simp: dget_def dget_or_def split: option.splits)
  moreover have "k \<notin> set (kids m j)" using linked_kids_exist [OF assms(1)] assms(3) by blast
  ultimately show ?case using Cons d j x by auto
qed simp

lemma output_role_ok: "is_list (py_or v (PList [])) \<Longrightarrow> \<exists>r. output_role v = Inr r"
  by (cases "py_or v (PList [])") (simp_all add: output_role_def)

lemma new_message_role_ok:
  assumes "is_list (py_or (dget message ''output'') (PList []))" "\<And>v. parent = Some v \<Longrightarrow> is_dict v"
  shows "\<exists>r. new_message_role message parent = Inr r \<and> truthy r"
proof -
  obtain r0 where r0: "output_role (dget message ''output'') = Inr r0" using output_role_ok [OF assms(1)] by blast
  show ?thesis
  proof (cases parent)
    case None
    then show ?thesis by (simp add: new_message_role_def r0 Let_def)
  next
    case (Some v)
    with assms(2) obtain d where "v = PDict d" by (cases v) auto
    with Some show ?thesis by (simp add: new_message_role_def r0 Let_def)
  qed
qed

lemma add_leaf_linked:
  assumes l: "linked m" and k: "\<not> dhas m k" and fresh: "\<And>j. field m j ''parentId'' \<noteq> PStr k"
    and pok: "parent_ok p" "p \<noteq> PStr k"
    and has: "\<And>j. dhas m' j \<longleftrightarrow> dhas m j \<or> j = k"
    and dict: "\<And>j. dhas m' j \<Longrightarrow> is_dict (dget m' j)"
    and par: "\<And>j. field m' j ''parentId'' = (if j = k then p else field m j ''parentId'')"
    and ch: "\<And>j. dhas m' j \<Longrightarrow> field m' j ''childrenIds'' =
      PList (map PStr (if p = PStr j then kids m j @ [k] else kids m j))"
  shows "linked m'"
proof -
  have kd: "kids m' j = (if p = PStr j then kids m j @ [k] else kids m j)" if "dhas m' j" for j
    by (rule kids_field [OF ch [OF that]])
  have nk: "k \<notin> set (kids m j)" for j using linked_kids_exist [OF l] k by blast
  have "typed m'"
    unfolding typed_def
  proof (intro allI impI conjI)
    fix j
    assume j: "dhas m' j"
    show "is_dict (dget m' j)" by (rule dict [OF j])
    show "parent_ok (field m' j ''parentId'')"
      using l pok(1) by (cases "dhas m j") (auto simp: par linked_def typed_def field_absent)
    show "field m' j ''childrenIds'' = PList (map PStr (kids m' j))" unfolding ch [OF j] kd [OF j] ..
    show "distinct (kids m' j)" using linked_distinct [OF l] nk by (simp add: kd [OF j])
  qed
  moreover have "i \<in> set (kids m' q) \<longleftrightarrow> dhas m' q \<and> field m' i ''parentId'' = PStr q" for q i
  proof (cases "dhas m' q")
    case True
    show ?thesis
    proof (cases "i = k")
      case True
      then show ?thesis using nk [of q] \<open>dhas m' q\<close> by (simp add: kd par)
    next
      case False
      have "i \<in> set (kids m q) \<longleftrightarrow> field m i ''parentId'' = PStr q"
        using linkedD [OF l, of i q] fresh [of i] \<open>dhas m' q\<close> has by auto
      with False \<open>dhas m' q\<close> show ?thesis by (simp add: kd par)
    qed
  qed (simp add: kids_absent)
  ultimately show ?thesis by (simp add: linked_def)
qed

lemma add_child_result:
  assumes l: "linked m" and k: "\<not> dhas m k" "\<not> dhas m []" and p: "parent_ok p" "p \<noteq> PStr k"
    and s: "dget saved ''childrenIds'' = PList []"
  shows "\<exists>m' added. add_child_id_to_parent (dset k (PDict saved) m) p k = Inr (m', added) \<and>
    dget m' k = PDict saved \<and> (\<forall>j. dhas m' j \<longleftrightarrow> dhas m j \<or> j = k) \<and> (\<forall>j. dhas m' j \<longrightarrow> is_dict (dget m' j)) \<and>
    (\<forall>j f. f \<noteq> ''childrenIds'' \<longrightarrow> field m' j f = (if j = k then dget saved f else field m j f)) \<and>
    (\<forall>j. dhas m' j \<longrightarrow> field m' j ''childrenIds'' = PList (map PStr (if p = PStr j then kids m j @ [k] else kids m j)))"
proof -
  let ?m1 = "dset k (PDict saved) m"
  have t: "typed m" using l by (simp add: linked_def)
  have kj: "field m j ''childrenIds'' = PList (map PStr (kids m j))" "is_dict (dget m j)" if "dhas m j" for j
    using t that by (auto simp: typed_def)
  have kk: "kids m k = []" by (rule kids_absent [OF k(1)])
  show ?thesis
  proof (cases "\<exists>q. p = PStr q \<and> dhas m q")
    case False
    have "add_child_id_to_parent ?m1 p k = Inr (?m1, False)"
      using p(1)
    proof (rule parent_okE)
      fix q
      assume q: "p = PStr q"
      with False p(2) have "map_of ?m1 q = None" by (auto simp: dhas_def map_of_dset)
      then show ?thesis by (simp add: add_child_id_to_parent_def q)
    qed (simp add: add_child_id_to_parent_def)
    then show ?thesis
      using False s k kj kk p(2) by (intro exI [of _ ?m1] exI [of _ False]) (auto simp: field_dset)
  next
    case True
    then obtain q where q: "p = PStr q" "dhas m q" "q \<noteq> k" "q \<noteq> []" using k p by auto
    from t q(2) obtain d where d: "map_of m q = Some (PDict d)" "dget m q = PDict d"
      "dget d ''childrenIds'' = PList (map PStr (kids m q))" by (rule typed_message)
    let ?d = "dset ''childrenIds'' (PList (map PStr (kids m q @ [k]))) d"
    have "k \<notin> set (kids m q)" using linked_kids_exist [OF l] k by blast
    then have "add_child_id_to_parent ?m1 p k = Inr (dset q (PDict ?d) ?m1, True)"
      using q by (auto simp: add_child_id_to_parent_def map_of_dset d)
    then show ?thesis
      using q s k kj kk d
      by (intro exI [of _ "dset q (PDict ?d) ?m1"] exI [of _ True]) (auto simp: field_dset field_def [of m q])
  qed
qed

text \<open>
  Saving a message with a new id under a linked history stores it with a role and makes it current; it
  becomes the last child of the parent it names, when that exists; every other message keeps its fields, and
  the history stays linked.
\<close>

lemma save_message_links_it:
  assumes "dget history ''messages'' = PDict m" "linked m" "distinct (map fst m)"
    and "\<not> dhas m k" "\<not> dhas m []" "\<forall>j. field m j ''parentId'' \<noteq> PStr k"
    and "parent_ok (dget message ''parentId'')" "dget message ''parentId'' \<noteq> PStr k"
    and "dget message ''childrenIds'' \<in> {PNone, PList []}" "is_list (py_or (dget message ''output'') (PList []))"
  shows "\<exists>h saved m'. upsert_message_to_history now history k message = Inr (h, saved) \<and>
    dget h ''messages'' = PDict m' \<and> linked m' \<and> dget h ''currentId'' = PStr k \<and>
    dget m' k = PDict saved \<and> truthy (dget saved ''role'') \<and> dget saved ''parentId'' = dget message ''parentId'' \<and>
    (\<forall>j. dhas m' j \<longleftrightarrow> dhas m j \<or> j = k) \<and>
    (\<forall>j f. j \<noteq> k \<and> f \<noteq> ''childrenIds'' \<longrightarrow> field m' j f = field m j f) \<and>
    (\<forall>p. dhas m p \<longrightarrow> kids m' p = kids m p @ (if dget message ''parentId'' = PStr p then [k] else []))"
proof -
  let ?p = "dget message ''parentId''"
  have parent: "rbind (if ?p = PNone then listed_by k m else Inr ?p) f = f ?p" for f :: "pyval \<Rightarrow> 'b result"
    using listed_by_none [OF assms(2-4), of m] by simp
  have "\<exists>par. (if truthy ?p then key_find m ?p else Inr None) = Inr par \<and> (\<forall>v. par = Some v \<longrightarrow> is_dict v)"
  proof (cases "truthy ?p")
    case True
    with assms(7) obtain q where q: "?p = PStr q" by (auto elim!: parent_okE)
    have "is_dict v" if "map_of m q = Some v" for v
      using assms(2) that by (auto simp: linked_def typed_def dhas_def dget_def dest: spec [of _ q])
    with True q show ?thesis by simp
  qed simp
  then obtain par where par: "(if truthy ?p then key_find m ?p else Inr None) = Inr par"
    "\<And>v. par = Some v \<Longrightarrow> is_dict v" by blast
  obtain r where r: "new_message_role message par = Inr r" "truthy r"
    using new_message_role_ok [OF assms(10) par(2)] by blast
  obtain saved where new: "new_message now m k message = Inr saved" and saved: "dget saved ''parentId'' = ?p"
    "dget saved ''childrenIds'' = PList []" "dget saved ''role'' = r"
    using assms(9) unfolding new_message_def parent par(1) by (auto simp: r)
  from add_child_result [OF assms(2,4,5,7,8) saved(2)] obtain m' added where
    m0: "add_child_id_to_parent (dset k (PDict saved) m) ?p k = Inr (m', added)"
    "dget m' k = PDict saved" "\<forall>j. dhas m' j \<longleftrightarrow> dhas m j \<or> j = k" "\<forall>j. dhas m' j \<longrightarrow> is_dict (dget m' j)"
    "\<forall>j f. f \<noteq> ''childrenIds'' \<longrightarrow> field m' j f = (if j = k then dget saved f else field m j f)"
    "\<forall>j. dhas m' j \<longrightarrow>
       field m' j ''childrenIds'' = PList (map PStr (if ?p = PStr j then kids m j @ [k] else kids m j))"
    by (elim exE conjE) (rule that)
  note m' = m0(1,2) m0(3-6) [rule_format]
  have l': "linked m'"
    by (rule add_leaf_linked [OF assms(2,4) _ assms(7,8) m'(3,4) _ m'(6)])
      (use assms(6) saved(1) in \<open>simp_all add: m'(5)\<close>)
  let ?h = "dset ''messages'' (PDict m') (dset ''currentId'' (PStr k) (dset ''messages'' (PDict m) history))"
  have "dget_or history ''messages'' (PDict []) = PDict m"
    using assms(1) by (auto simp: dget_def dget_or_def split: option.splits)
  moreover have "map_of m k = None" using assms(4) by (simp add: dhas_def)
  ultimately have "upsert_message_to_history now history k message = Inr (?h, saved)"
    by (simp add: upsert_message_to_history_def new saved(1) m'(1,2))
  moreover have "kids m' p = kids m p @ (if ?p = PStr p then [k] else [])" if "dhas m p" for p
    using m'(3) that by (simp add: kids_field [OF m'(6)])
  ultimately show ?thesis
    using l' m'(2,3,5) saved(1,3) r(2) by (intro exI [of _ ?h] exI [of _ saved] exI [of _ m']) simp
qed

lemma save_message_links_it_witness:
  "\<exists>h saved m'. upsert_message_to_history 5 [(''messages'', PDict sample_tree)] ''e''
       [(''parentId'', PStr ''b''), (''content'', PStr ''hi'')] = Inr (h, saved) \<and>
     dget h ''messages'' = PDict m' \<and> linked m' \<and> kids m' ''b'' = [''c'', ''e''] \<and> dget h ''currentId'' = PStr ''e''"
proof -
  let ?h = "[(''messages'', PDict sample_tree)]" and ?msg = "[(''parentId'', PStr ''b''), (''content'', PStr ''hi'')]"
  have h: "dget ?h ''messages'' = PDict sample_tree" "distinct (map fst sample_tree)" "\<not> dhas sample_tree ''e''"
    "\<not> dhas sample_tree []" "\<forall>j. field sample_tree j ''parentId'' \<noteq> PStr ''e''"
    "parent_ok (dget ?msg ''parentId'')" "dget ?msg ''parentId'' \<noteq> PStr ''e''"
    "dget ?msg ''childrenIds'' \<in> {PNone, PList []}" "is_list (py_or (dget ?msg ''output'') (PList []))"
    by (auto simp: sample_tree_def field_def py_or_def)
  have v: "kids sample_tree ''b'' = [''c'']" "dhas sample_tree ''b''" by code_simp+
  show ?thesis using save_message_links_it [OF h(1) sample_tree_linked h(2-9), of 5] v by fastforce
qed

subsection \<open>Repairing a chat\<close>

definition clist :: "pydict \<Rightarrow> string \<Rightarrow> pyval list" where
  "clist m k = (case field m k ''childrenIds'' of PList cs \<Rightarrow> cs | _ \<Rightarrow> [])"

text \<open>\<open>grows m m'\<close>: only lists of children differ, and they only got longer.\<close>

definition grows :: "pydict \<Rightarrow> pydict \<Rightarrow> bool" where
  "grows m m' =
     (map fst m' = map fst m \<and> (\<forall>k. is_dict (dget m' k) \<longleftrightarrow> is_dict (dget m k)) \<and>
      (\<forall>k f. f \<noteq> ''childrenIds'' \<longrightarrow> field m' k f = field m k f) \<and>
      (\<forall>k. set (clist m k) \<subseteq> set (clist m' k)))"

lemma grows_refl: "grows m m"
  by (simp add: grows_def)

lemma grows_trans:
  assumes "grows a b" "grows b c"
  shows "grows a c"
proof -
  have "set (clist a k) \<subseteq> set (clist c k)" for k
    using assms unfolding grows_def by (meson subset_trans)
  with assms show ?thesis by (simp add: grows_def)
qed

lemma keys_dset: "k \<in> fst ` set m \<Longrightarrow> map fst (dset k v m) = map fst m"
  by (induction m) auto

lemma add_child_grows:
  assumes "add_child_id_to_parent m p k = Inr (m', added)"
  shows "grows m m'" "\<not> added \<Longrightarrow> m' = m"
    "p = PStr q \<Longrightarrow> q \<noteq> [] \<Longrightarrow> is_dict (dget m q) \<Longrightarrow> PStr k \<in> set (clist m' q)"
proof -
  have main: "grows m m' \<and> (\<not> added \<longrightarrow> m' = m) \<and>
    (p = PStr q \<longrightarrow> q \<noteq> [] \<longrightarrow> is_dict (dget m q) \<longrightarrow> PStr k \<in> set (clist m' q))"
  proof (cases "\<exists>r d. p = PStr r \<and> r \<noteq> [] \<and> map_of m r = Some (PDict d)")
    case False
    have same: "m' = m \<and> \<not> added"
    proof (cases p)
      case (PStr r)
      then show ?thesis
        using assms False by (cases "map_of m r"; cases "the (map_of m r)")
          (auto simp: add_child_id_to_parent_def split: if_splits)
    qed (use assms in \<open>auto simp: add_child_id_to_parent_def split: if_splits\<close>)
    have "\<not> is_dict (dget m q)" if "p = PStr q" "q \<noteq> []"
      using False that by (cases "map_of m q"; cases "the (map_of m q)") (auto simp: dget_def)
    with same show ?thesis by (auto simp: grows_refl)
  next
    case True
    then obtain r d where r: "p = PStr r" "r \<noteq> []" "map_of m r = Some (PDict d)" by blast
    let ?cs = "case dget d ''childrenIds'' of PList cs \<Rightarrow> cs | _ \<Rightarrow> []"
    have cs: "clist m r = ?cs" using r by (simp add: clist_def field_def dget_def [of m])
    show ?thesis
    proof (cases "PStr k \<in> set ?cs")
      case True
      then have "m' = m \<and> \<not> added" using assms r by (simp add: add_child_id_to_parent_def)
      moreover have "PStr k \<in> set (clist m r)" using True by (simp only: cs)
      ultimately show ?thesis using r(1) by (auto simp: grows_refl)
    next
      case False
      let ?d = "dset ''childrenIds'' (PList (?cs @ [PStr k])) d"
      have "add_child_id_to_parent m p k =
          Inr (if PStr k \<in> set ?cs then (m, False) else (dset r (PDict ?d) m, True))"
        by (simp add: add_child_id_to_parent_def Let_def r)
      then have m': "m' = dset r (PDict ?d) m" "added" using assms unfolding if_not_P [OF False] by simp_all
      have f: "field m' j f = (if j = r then dget ?d f else field m j f)" for j f by (simp add: m' field_dset)
      have dr: "field m r f = dget d f" for f using r by (simp add: field_def dget_def [of m])
      have "clist m' j = (if j = r then ?cs @ [PStr k] else clist m j)" for j by (simp add: clist_def f)
      moreover have "map fst m' = map fst m" unfolding m' by (rule keys_dset) (rule map_of_keyD [OF r(3)])
      moreover have "is_dict (dget m' j) \<longleftrightarrow> is_dict (dget m j)" for j using r(3) by (simp add: m' dget_def [of m])
      ultimately show ?thesis using r(1) m'(2) by (auto simp: grows_def f dr cs)
    qed
  qed
  then show "grows m m'" "\<not> added \<Longrightarrow> m' = m"
    "p = PStr q \<Longrightarrow> q \<noteq> [] \<Longrightarrow> is_dict (dget m q) \<Longrightarrow> PStr k \<in> set (clist m' q)" by blast+
qed

lemma relink_loop_links:
  assumes "relink_loop ks m changed = Inr (m', changed')"
  shows "grows m m'" "\<not> changed' \<Longrightarrow> m' = m \<and> \<not> changed"
    "k \<in> set ks \<Longrightarrow> is_dict (dget m k) \<Longrightarrow> field m k ''parentId'' = PStr p \<Longrightarrow> p \<noteq> [] \<Longrightarrow> is_dict (dget m p) \<Longrightarrow>
      PStr k \<in> set (clist m' p)"
proof -
  have "grows m m' \<and> (\<not> changed' \<longrightarrow> m' = m \<and> \<not> changed) \<and>
    (\<forall>k p. k \<in> set ks \<longrightarrow> is_dict (dget m k) \<longrightarrow> field m k ''parentId'' = PStr p \<longrightarrow> p \<noteq> [] \<longrightarrow> is_dict (dget m p) \<longrightarrow>
      PStr k \<in> set (clist m' p))"
    using assms
  proof (induction ks arbitrary: m changed)
    case Nil
    then show ?case by (simp add: grows_refl)
  next
    case (Cons j rest)
    show ?case
    proof (cases "dget m j")
      case (PDict d)
      from Cons.prems PDict obtain m1 added where a: "add_child_id_to_parent m (dget d ''parentId'') j = Inr (m1, added)"
        and rest: "relink_loop rest m1 (added \<or> changed) = Inr (m', changed')"
        by (auto simp: rbind_Inr_iff)
      note ih = Cons.IH [OF rest]
      have fj: "field m j ''parentId'' = dget d ''parentId''" by (simp add: field_def PDict)
      have g: "grows m m1" "\<not> added \<Longrightarrow> m1 = m" using add_child_grows(1,2) [OF a] by blast+
      have "PStr k \<in> set (clist m' p)"
        if "k \<in> set (j # rest)" "is_dict (dget m k)" "field m k ''parentId'' = PStr p" "p \<noteq> []" "is_dict (dget m p)" for k p
      proof (cases "k \<in> set rest")
        case True
        with ih g(1) that show ?thesis by (auto simp: grows_def)
      next
        case False
        with that add_child_grows(3) [OF a, of p] fj have "PStr k \<in> set (clist m1 p)" by auto
        with ih show ?thesis by (auto simp: grows_def)
      qed
      with ih g grows_trans show ?thesis by blast
    qed (use Cons in \<open>auto\<close>)
  qed
  then show "grows m m'" "\<not> changed' \<Longrightarrow> m' = m \<and> \<not> changed"
    "k \<in> set ks \<Longrightarrow> is_dict (dget m k) \<Longrightarrow> field m k ''parentId'' = PStr p \<Longrightarrow> p \<noteq> [] \<Longrightarrow> is_dict (dget m p) \<Longrightarrow>
      PStr k \<in> set (clist m' p)" by blast+
qed

lemma first_present_in: "first_present m cs = Inr (Some k) \<Longrightarrow> dhas m k"
  by (induction m cs rule: first_present.induct)
    (auto simp: rbind_Inr_iff id_in_def dhas_def split: if_splits pyval.splits)

lemma last_descendant_present:
  "last_descendant_id m seen k = Inr k' \<Longrightarrow> dhas m k \<Longrightarrow> dhas m k'"
proof (induction m seen k rule: last_descendant_id.induct)
  case (1 m seen k)
  note eq = "1.prems"(1) [unfolded last_descendant_id.simps [of m seen k]]
  from "1.prems"(2) obtain msg where msg: "map_of m k = Some msg" by (auto simp: dhas_def)
  define cs where "cs = (case msg of PDict d \<Rightarrow> (case dget d ''childrenIds'' of PList cs \<Rightarrow> cs | _ \<Rightarrow> []) | _ \<Rightarrow> [])"
  show ?case
  proof (cases "k \<in> seen")
    case True
    with eq msg "1.prems"(2) show ?thesis by simp
  next
    case False
    show ?thesis
    proof (cases "first_present m (rev cs)")
      case (Inl e)
      with eq msg False show ?thesis by (simp add: cs_def [symmetric])
    next
      case (Inr r)
      show ?thesis
      proof (cases "\<exists>n. r = Some n \<and> n \<noteq> []")
        case True
        then obtain n where n: "r = Some n" "n \<noteq> []" by blast
        with eq msg False Inr have "last_descendant_id m (insert k seen) n = Inr k'" by (simp add: cs_def [symmetric])
        with "1.IH" [OF msg False cs_def Inr n] first_present_in Inr n show ?thesis by blast
      next
        case no: False
        with eq msg False Inr "1.prems"(2) show ?thesis
          by (auto simp: cs_def [symmetric] split: option.splits if_splits)
      qed
    qed
  qed
qed

lemma latest_leaf_in: "latest_leaf xs leaf t = Inr (Some k) \<Longrightarrow> k \<in> fst ` set xs \<or> leaf = Some k"
proof (induction xs arbitrary: leaf t)
  case (Cons x xs)
  obtain j v where x: "x = (j, v)" by (cases x)
  from Cons.prems obtain t' where "latest_leaf xs leaf t' = Inr (Some k) \<or> latest_leaf xs (Some j) t' = Inr (Some k)"
    by (cases v) (auto simp: x rbind_Inr_iff split: if_splits)
  with Cons.IH x show ?case by fastforce
qed simp

text \<open>What the repair returns: the relinked messages, and the current message kept or moved to another one.\<close>

definition repaired :: "pydict \<Rightarrow> pydict \<Rightarrow> pydict \<Rightarrow> bool \<Rightarrow> pydict \<times> bool \<Rightarrow> bool" where
  "repaired chat history m changed res =
     (res = (with_history chat history m, changed) \<or>
      (\<exists>k. dhas m k \<and> res = (with_history chat (dset ''currentId'' (PStr k) history) m, True)))"

lemma newest_leaf_repaired:
  assumes "newest_leaf_current chat history m changed = Inr res"
  shows "repaired chat history m changed res"
proof -
  from assms obtain leaf where leaf: "latest_leaf m None (- 1) = Inr leaf"
    and res: "res = (case leaf of None \<Rightarrow> (with_history chat history m, changed)
      | Some leaf_id \<Rightarrow> if leaf_id = [] \<or> PStr leaf_id = dget history ''currentId'' then (with_history chat history m, changed)
          else (with_history chat (dset ''currentId'' (PStr leaf_id) history) m, True))"
    by (auto simp: newest_leaf_current_def rbind_Inr_iff)
  show ?thesis
  proof (cases leaf)
    case (Some k)
    with latest_leaf_in [of m None _ k] leaf have "dhas m k" by (auto simp: dhas_iff)
    with Some res show ?thesis by (auto simp: repaired_def)
  qed (simp add: res repaired_def)
qed

lemma repair_result:
  assumes h: "dget chat ''history'' = PDict history" "dget history ''messages'' = PDict m"
    and r: "repair_chat_current_id chat = Inr res"
  shows "\<exists>m1 changed. relink_loop (map fst m) m False = Inr (m1, changed) \<and> repaired chat history m1 changed res"
proof -
  from r obtain m1 changed cur where loop: "relink_loop (map fst m) m False = Inr (m1, changed)"
    and cur: "key_find m1 (dget history ''currentId'') = Inr cur"
    and rest: "(case (cur, dget history ''currentId'') of
                   (Some (PDict d), PStr current_id) \<Rightarrow>
                     rbind (current_is_good m1 d) (\<lambda>good.
                       if \<not> good then newest_leaf_current chat history m1 changed
                       else if \<not> truthy (py_or (dget d ''contextSummary'') (dget d ''context_summary''))
                       then Inr (with_history chat history m1, changed)
                       else rbind (last_descendant_id m1 {} current_id) (\<lambda>last_id.
                         if last_id \<noteq> current_id
                         then Inr (with_history chat (dset ''currentId'' (PStr last_id) history) m1, True)
                         else Inr (with_history chat history m1, changed)))
                 | _ \<Rightarrow> newest_leaf_current chat history m1 changed) = Inr res"
    by (auto simp: repair_chat_current_id_def h rbind_Inr_iff)
  have "repaired chat history m1 changed res"
  proof (cases "\<exists>d k. cur = Some (PDict d) \<and> dget history ''currentId'' = PStr k")
    case False
    then have "newest_leaf_current chat history m1 changed = Inr res"
      using rest by (auto split: option.splits pyval.splits)
    then show ?thesis by (rule newest_leaf_repaired)
  next
    case True
    then obtain d k where d: "cur = Some (PDict d)" "dget history ''currentId'' = PStr k" by blast
    with cur have "dhas m1 k" by (simp add: dhas_def)
    then have last: "dhas m1 k'" if "last_descendant_id m1 {} k = Inr k'" for k'
      using last_descendant_present that by blast
    from rest d obtain good where good: "current_is_good m1 d = Inr good" by (auto simp: rbind_Inr_iff)
    show ?thesis
    proof (cases good)
      case True
      with rest d good last show ?thesis by (auto simp: rbind_Inr_iff repaired_def split: if_splits)
    next
      case False
      with rest d good show ?thesis by (intro newest_leaf_repaired) simp
    qed
  qed
  with loop show ?thesis by blast
qed

text \<open>
  When repairing a chat returns, every message that names an existing parent is listed among the children
  of that parent; nothing else of any message has changed and no child was dropped; the current message is the
  one it was or one of the map; and when the function reports no change, the chat is the same.
\<close>

lemma repair_completes_links:
  assumes "dget chat ''history'' = PDict history" "dget history ''messages'' = PDict m"
    and "repair_chat_current_id chat = Inr (chat', changed)"
  shows "\<exists>history' m'. dget chat' ''history'' = PDict history' \<and> dget history' ''messages'' = PDict m' \<and>
    (\<forall>k p. field m k ''parentId'' = PStr p \<and> p \<noteq> [] \<and> is_dict (dget m p) \<longrightarrow> PStr k \<in> set (clist m' p)) \<and>
    grows m m' \<and>
    (dget history' ''currentId'' = dget history ''currentId'' \<or>
     (\<exists>k. dget history' ''currentId'' = PStr k \<and> dhas m k)) \<and>
    (\<not> changed \<longrightarrow> chat' = chat)"
proof -
  obtain m1 changed1 where loop: "relink_loop (map fst m) m False = Inr (m1, changed1)"
    and rep: "repaired chat history m1 changed1 (chat', changed)"
    using repair_result [OF assms] by blast
  note l = relink_loop_links [OF loop]
  have "k \<in> fst ` set m" "is_dict (dget m k)" if "field m k ''parentId'' = PStr p" for k p
    using that by (auto simp: field_def dget_def split: option.splits pyval.splits dest: map_of_keyD)
  then have links: "PStr k \<in> set (clist m1 p)"
    if "field m k ''parentId'' = PStr p \<and> p \<noteq> [] \<and> is_dict (dget m p)" for k p
    using l(3) [of k p] that by (metis set_map)
  have keys: "dhas m1 k \<longleftrightarrow> dhas m k" for k
    using l(1) by (metis dhas_iff grows_def set_map)
  from rep obtain history' where chat': "chat' = with_history chat history' m1"
    and hist: "history' = history \<and> changed = changed1 \<or>
      (\<exists>k. dhas m k \<and> history' = dset ''currentId'' (PStr k) history \<and> changed)"
    unfolding repaired_def by (auto simp: keys)
  have same: "chat' = chat" if "\<not> changed"
  proof -
    from that hist l(2) have "history' = history" "m1 = m" by auto
    then show ?thesis using assms(1,2) by (simp add: chat' with_history_def dset_same)
  qed
  show ?thesis
  proof (intro exI conjI allI impI)
    show "dget chat' ''history'' = PDict (dset ''messages'' (PDict m1) history')" by (simp add: chat' with_history_def)
    show "dget (dset ''messages'' (PDict m1) history') ''messages'' = PDict m1" by simp
    show "grows m m1" by (rule l(1))
    show "dget (dset ''messages'' (PDict m1) history') ''currentId'' = dget history ''currentId'' \<or>
        (\<exists>k. dget (dset ''messages'' (PDict m1) history') ''currentId'' = PStr k \<and> dhas m k)"
      using hist by auto
  qed (use links same in blast)+
qed

definition sample_broken :: pydict where
  "sample_broken =
     [(''history'', PDict [(''messages'', PDict
        [(''a'', PDict [(''id'', PStr ''a''), (''role'', PStr ''user''), (''childrenIds'', PList [])]),
         (''b'', PDict [(''id'', PStr ''b''), (''role'', PStr ''assistant''), (''parentId'', PStr ''a''), (''timestamp'', PInt 2)])]),
        (''currentId'', PStr ''gone'')])]"

lemma repair_completes_links_witness:
  "\<exists>chat' h m. repair_chat_current_id sample_broken = Inr (chat', True) \<and> dget chat' ''history'' = PDict h \<and>
     dget h ''messages'' = PDict m \<and> PStr ''b'' \<in> set (clist m ''a'') \<and> dget h ''currentId'' = PStr ''b''"
proof -
  let ?m = "[(''a'', PDict [(''id'', PStr ''a''), (''role'', PStr ''user''), (''childrenIds'', PList [])]),
         (''b'', PDict [(''id'', PStr ''b''), (''role'', PStr ''assistant''), (''parentId'', PStr ''a''), (''timestamp'', PInt 2)])]"
  let ?h = "[(''messages'', PDict ?m), (''currentId'', PStr ''gone'')]"
  define r where "r = repair_chat_current_id sample_broken"
  have "(case r of Inr (c, b) \<Rightarrow> b \<and> (case dget c ''history'' of PDict h \<Rightarrow> dget h ''currentId'' = PStr ''b'' | _ \<Rightarrow> False) | _ \<Rightarrow> False)"
    unfolding r_def by code_simp
  then obtain c h where c: "r = Inr (c, True)" "dget c ''history'' = PDict h" "dget h ''currentId'' = PStr ''b''"
    by (auto split: sum.splits pyval.splits)
  have h: "dget sample_broken ''history'' = PDict ?h" "dget ?h ''messages'' = PDict ?m"
    by (simp_all add: sample_broken_def)
  have "field ?m ''b'' ''parentId'' = PStr ''a'' \<and> ''a'' \<noteq> [] \<and> is_dict (dget ?m ''a'')" by (simp add: field_def)
  with repair_completes_links [OF h c(1) [unfolded r_def]] c show ?thesis by (fastforce simp: r_def)
qed

end
