(* ===== verification/Messages.thy ===== *)
theory Messages
  imports Py_Prelude
begin

section \<open>Messages for a provider\<close>

text \<open>
  Models the helpers of \<open>utils/misc.py\<close> that read the text of a message and that make a conversation
  acceptable to a provider: \<open>reconcile_tool_pairs\<close> drops tool calls without a result and results without a
  call. A message is a dictionary; what is inside may be any value, and a value of the wrong kind raises where
  the code would. The text form of a value that is not a string (\<open>str(v)\<close>) is the argument \<open>py_str\<close>. Python
  takes \<open>True\<close> and \<open>1\<close> for the same key; identifiers here are compared as values of their kind.
\<close>

subsection \<open>The text of a message\<close>

definition text_of :: "(pyval \<Rightarrow> string) \<Rightarrow> pyval \<Rightarrow> string" where
  "text_of py_str v = (case v of PStr s \<Rightarrow> s | _ \<Rightarrow> py_str v)"

definition is_space :: "string \<Rightarrow> bool" where
  "is_space s = (s \<noteq> [] \<and> list_all is_space_char s)"

text \<open>The parts of one output item, and the texts of a stored output.\<close>

definition part_texts :: "(pyval \<Rightarrow> string) \<Rightarrow> pyval list \<Rightarrow> string" where
  "part_texts py_str parts =
     concat (map (\<lambda>part. case part of
                PDict d \<Rightarrow> if dget d ''text'' = PNone then [] else text_of py_str (dget d ''text'')
              | _ \<Rightarrow> []) parts)"

definition item_text :: "(pyval \<Rightarrow> string) \<Rightarrow> pyval \<Rightarrow> string list" where
  "item_text py_str item =
     (case item of
        PDict d \<Rightarrow>
          if dget d ''type'' \<noteq> PStr ''message'' then []
          else (case py_or (dget d ''content'') (PList []) of
                  PList parts \<Rightarrow>
                    (let text = part_texts py_str parts
                     in if text \<noteq> [] \<and> \<not> is_space text then [text] else [])
                | _ \<Rightarrow> [])
      | _ \<Rightarrow> [])"

definition get_output_text :: "(pyval \<Rightarrow> string) \<Rightarrow> pyval \<Rightarrow> string" where
  "get_output_text py_str output =
     (case output of
        PList items \<Rightarrow> str_join [CHR 0x0A] (concat (map (item_text py_str) items))
      | _ \<Rightarrow> [])"

definition first_text :: "pyval list \<Rightarrow> pyval option" where
  "first_text items =
     map_option (\<lambda>item. case item of PDict d \<Rightarrow> dget d ''text'' | _ \<Rightarrow> PNone)
       (find (\<lambda>item. case item of PDict d \<Rightarrow> dget d ''type'' = PStr ''text'' | _ \<Rightarrow> False) items)"

definition get_content_from_message :: "(pyval \<Rightarrow> string) \<Rightarrow> pydict \<Rightarrow> pyval" where
  "get_content_from_message py_str message =
     (let content = dget message ''content'';
          output_text = get_output_text py_str (dget message ''output'');
          from_output = (if output_text \<noteq> [] then PStr output_text else if is_str content then content else PNone)
      in case content of
           PList items \<Rightarrow> (case first_text items of Some t \<Rightarrow> t | None \<Rightarrow> from_output)
         | _ \<Rightarrow> if truthy content then content else from_output)"

subsection \<open>Pairing tool calls with their results\<close>

text \<open>The identifiers of the calls of a message and whether one of them cannot be read.\<close>

definition call_id :: "pyval \<Rightarrow> pyval result" where
  "call_id tool_call = py_get tool_call ''id'' PNone"

definition hash_key :: "pyval \<Rightarrow> pyval result" where
  "hash_key v = (if hashable v then Inr v else Inl TypeError)"

fun completed_ids :: "pydict list \<Rightarrow> pyval list result" where
  "completed_ids [] = Inr []"
| "completed_ids (message # rest) =
     (let i = dget message ''tool_call_id''
      in if dget message ''role'' = PStr ''tool'' \<and> truthy i
         then rbind (hash_key i) (\<lambda>k. rbind (completed_ids rest) (\<lambda>ks. Inr (k # ks)))
         else completed_ids rest)"

fun call_ids :: "pyval list \<Rightarrow> pyval list result" where
  "call_ids [] = Inr []"
| "call_ids (tool_call # rest) =
     rbind (call_id tool_call) (\<lambda>i.
       if truthy i then rbind (hash_key i) (\<lambda>k. rbind (call_ids rest) (\<lambda>ks. Inr (k # ks)))
       else call_ids rest)"

fun requested_ids :: "pydict list \<Rightarrow> pyval list result" where
  "requested_ids [] = Inr []"
| "requested_ids (message # rest) =
     rbind (py_iter (py_or (dget message ''tool_calls'') (PList []))) (\<lambda>calls.
     rbind (if dget message ''role'' = PStr ''assistant'' then call_ids calls else Inr []) (\<lambda>ids.
     rbind (requested_ids rest) (\<lambda>more. Inr (ids @ more))))"

fun valid_calls :: "pyval list \<Rightarrow> pyval list \<Rightarrow> pyval list result" where
  "valid_calls completed [] = Inr []"
| "valid_calls completed (tool_call # rest) =
     rbind (call_id tool_call) (\<lambda>i. rbind (hash_key i) (\<lambda>k.
     rbind (valid_calls completed rest) (\<lambda>more. Inr (if k \<in> set completed then tool_call # more else more))))"

definition has_meaning :: "(pyval \<Rightarrow> string) \<Rightarrow> pydict \<Rightarrow> bool" where
  "has_meaning py_str message =
     (let content = py_or (get_content_from_message py_str message) (PStr [])
      in (case content of PStr s \<Rightarrow> str_strip s \<noteq> [] | _ \<Rightarrow> truthy content) \<or>
         truthy (dget message ''reasoning_content''))"

definition reconcile_message ::
    "(pyval \<Rightarrow> string) \<Rightarrow> pyval list \<Rightarrow> pyval list \<Rightarrow> pydict \<Rightarrow> pydict list result"
where
  "reconcile_message py_str completed requested message =
     (let role = dget message ''role'';
          keep_or_check = (if role \<noteq> PStr ''assistant'' \<or> \<not> truthy (dget message ''tool_calls'') then Inr [message]
            else rbind (py_iter (dget message ''tool_calls'')) (\<lambda>calls.
                 rbind (valid_calls completed calls) (\<lambda>valid.
                   Inr (if valid \<noteq> [] then [dset ''tool_calls'' (PList valid) message]
                        else if has_meaning py_str message then [dpop ''tool_calls'' message]
                        else []))))
      in if role = PStr ''tool''
         then rbind (hash_key (dget message ''tool_call_id'')) (\<lambda>k.
                if k \<notin> set requested then Inr [] else keep_or_check)
         else keep_or_check)"

fun reconcile_loop ::
    "(pyval \<Rightarrow> string) \<Rightarrow> pyval list \<Rightarrow> pyval list \<Rightarrow> pydict list \<Rightarrow> pydict list result"
where
  "reconcile_loop py_str completed requested [] = Inr []"
| "reconcile_loop py_str completed requested (message # rest) =
     rbind (reconcile_message py_str completed requested message) (\<lambda>kept.
     rbind (reconcile_loop py_str completed requested rest) (\<lambda>more. Inr (kept @ more)))"

definition reconcile_tool_pairs :: "(pyval \<Rightarrow> string) \<Rightarrow> pydict list \<Rightarrow> pydict list result" where
  "reconcile_tool_pairs py_str messages =
     rbind (completed_ids messages) (\<lambda>completed.
     rbind (requested_ids messages) (\<lambda>requested.
       reconcile_loop py_str completed requested messages))"

subsection \<open>What reconciling computes\<close>

definition calls_of :: "pydict \<Rightarrow> pyval list" where
  "calls_of m = (case py_iter (py_or (dget m ''tool_calls'') (PList [])) of Inr cs \<Rightarrow> cs | Inl _ \<Rightarrow> [])"

definition call_key :: "pyval \<Rightarrow> pyval" where
  "call_key tc = (case call_id tc of Inr k \<Rightarrow> k | Inl _ \<Rightarrow> PNone)"

abbreviation role_is :: "pydict \<Rightarrow> string \<Rightarrow> bool" where
  "role_is m r \<equiv> dget m ''role'' = PStr r"

definition completed_set :: "pydict list \<Rightarrow> pyval set" where
  "completed_set ms = {k. truthy k \<and> (\<exists>m \<in> set ms. role_is m ''tool'' \<and> dget m ''tool_call_id'' = k)}"

definition requested_set :: "pydict list \<Rightarrow> pyval set" where
  "requested_set ms =
     {k. truthy k \<and> (\<exists>m \<in> set ms. role_is m ''assistant'' \<and> (\<exists>tc \<in> set (calls_of m). call_key tc = k))}"

text \<open>Nothing in the message makes the code raise.\<close>

definition readable_call :: "pyval \<Rightarrow> bool" where
  "readable_call tc = (is_dict tc \<and> hashable (call_key tc))"

definition readable :: "pydict \<Rightarrow> bool" where
  "readable m =
     ((\<exists>cs. py_iter (py_or (dget m ''tool_calls'') (PList [])) = Inr cs) \<and>
      (role_is m ''tool'' \<longrightarrow> hashable (dget m ''tool_call_id'')) \<and>
      (role_is m ''assistant'' \<longrightarrow> (\<forall>tc \<in> set (calls_of m). readable_call tc)))"

lemma call_id_Inr: "call_id tc = Inr k \<longleftrightarrow> is_dict tc \<and> call_key tc = k"
  by (cases tc) (auto simp: call_id_def call_key_def)

lemma call_id_readable: "readable_call tc \<Longrightarrow> call_id tc = Inr (call_key tc) \<and> hashable (call_key tc)"
  by (simp add: readable_call_def call_id_Inr)

lemma hash_key_Inr: "hash_key v = Inr k \<longleftrightarrow> hashable v \<and> k = v"
  by (auto simp: hash_key_def)

lemma completed_ids_Inr:
  "(\<And>m. m \<in> set ms \<Longrightarrow> readable m) \<Longrightarrow> \<exists>cs. completed_ids ms = Inr cs \<and> set cs = completed_set ms"
proof (induction ms)
  case Nil
  then show ?case by (simp add: completed_set_def)
next
  case (Cons m ms)
  then obtain cs where cs: "completed_ids ms = Inr cs" "set cs = completed_set ms" by auto
  have set_eq: "completed_set (m # ms) = completed_set ms \<union>
      (if role_is m ''tool'' \<and> truthy (dget m ''tool_call_id'') then {dget m ''tool_call_id''} else {})"
    by (auto simp: completed_set_def)
  have "readable m" using Cons.prems by simp
  with cs show ?case by (auto simp: set_eq readable_def hash_key_def)
qed

lemma call_ids_Inr:
  "\<forall>tc \<in> set cs. readable_call tc \<Longrightarrow> call_ids cs = Inr (filter truthy (map call_key cs))"
  by (induction cs) (simp_all add: call_id_readable hash_key_def)

lemma requested_ids_Inr:
  "(\<And>m. m \<in> set ms \<Longrightarrow> readable m) \<Longrightarrow> \<exists>rs. requested_ids ms = Inr rs \<and> set rs = requested_set ms"
proof (induction ms)
  case Nil
  then show ?case by (simp add: requested_set_def)
next
  case (Cons m ms)
  then obtain rs where rs: "requested_ids ms = Inr rs" "set rs = requested_set ms" by auto
  from Cons.prems have m: "readable m" by simp
  then obtain cs where cs: "py_iter (py_or (dget m ''tool_calls'') (PList [])) = Inr cs" by (auto simp: readable_def)
  then have calls: "calls_of m = cs" by (simp add: calls_of_def)
  have set_eq: "requested_set (m # ms) = requested_set ms \<union>
      (if role_is m ''assistant'' then {k. truthy k \<and> (\<exists>tc \<in> set (calls_of m). call_key tc = k)} else {})"
    by (auto simp: requested_set_def)
  show ?case
  proof (cases "role_is m ''assistant''")
    case True
    with m have "\<forall>tc \<in> set cs. readable_call tc" by (simp add: readable_def calls)
    with rs cs True show ?thesis by (auto simp: call_ids_Inr set_eq calls)
  next
    case False
    with rs cs show ?thesis by (simp add: set_eq)
  qed
qed

text \<open>
  What becomes of a message; \<open>leftover\<close> is what is left of one whose calls all lack results.
\<close>

definition kept :: "(pydict \<Rightarrow> pydict list) \<Rightarrow> pyval set \<Rightarrow> pyval set \<Rightarrow> pydict \<Rightarrow> pydict list" where
  "kept leftover completed requested m =
     (if role_is m ''tool'' then (if dget m ''tool_call_id'' \<in> requested then [m] else [])
      else if \<not> role_is m ''assistant'' \<or> calls_of m = [] then [m]
      else (let valid = filter (\<lambda>tc. call_key tc \<in> completed) (calls_of m)
            in if valid \<noteq> [] then [dset ''tool_calls'' (PList valid) m]
               else leftover m))"

definition without_calls :: "(pyval \<Rightarrow> string) \<Rightarrow> pydict \<Rightarrow> pydict list" where
  "without_calls py_str m = (if has_meaning py_str m then [dpop ''tool_calls'' m] else [])"

lemma calls_of_empty:
  assumes "readable m"
  shows "calls_of m = [] \<longleftrightarrow> \<not> truthy (dget m ''tool_calls'')"
proof (cases "truthy (dget m ''tool_calls'')")
  case True
  with assms show ?thesis by (cases "dget m ''tool_calls''") (auto simp: readable_def calls_of_def py_or_def)
qed (simp add: calls_of_def py_or_def)

lemma valid_calls_Inr:
  "\<forall>tc \<in> set cs. readable_call tc \<Longrightarrow> valid_calls completed cs = Inr (filter (\<lambda>tc. call_key tc \<in> set completed) cs)"
  by (induction cs) (simp_all add: call_id_readable hash_key_def)

lemma reconcile_message_kept:
  assumes "readable m"
  shows "reconcile_message py_str completed requested m = Inr (kept (without_calls py_str) (set completed) (set requested) m)"
proof (cases "role_is m ''assistant'' \<and> calls_of m \<noteq> []")
  case True
  then have t: "truthy (dget m ''tool_calls'')" using assms by (simp add: calls_of_empty)
  then have "py_iter (dget m ''tool_calls'') = Inr (calls_of m)"
    using assms by (auto simp: readable_def calls_of_def py_or_def)
  with t True assms show ?thesis
    by (simp add: reconcile_message_def kept_def without_calls_def readable_def valid_calls_Inr Let_def)
next
  case False
  with assms show ?thesis
    by (auto simp: reconcile_message_def kept_def calls_of_empty readable_def hash_key_def Let_def)
qed

lemma reconcile_loop_kept:
  "(\<And>m. m \<in> set ms \<Longrightarrow> readable m) \<Longrightarrow>
     reconcile_loop py_str completed requested ms = Inr (concat (map (kept (without_calls py_str) (set completed) (set requested)) ms))"
  by (induction ms) (simp_all add: reconcile_message_kept)

lemma reconcile_Inr:
  assumes "\<And>m. m \<in> set ms \<Longrightarrow> readable m"
  shows "reconcile_tool_pairs py_str ms = Inr (concat (map (kept (without_calls py_str) (completed_set ms) (requested_set ms)) ms))"
  using completed_ids_Inr [OF assms] requested_ids_Inr [OF assms] reconcile_loop_kept [OF assms, of ms py_str]
  by (fastforce simp: reconcile_tool_pairs_def)

text \<open>The code raises on every list with an unreadable message.\<close>

lemma valid_calls_readable: "valid_calls c cs = Inr v \<Longrightarrow> \<forall>tc \<in> set cs. readable_call tc"
  by (induction cs arbitrary: v) (auto simp: rbind_Inr_iff hash_key_Inr call_id_Inr readable_call_def)

lemma requested_ids_iter:
  "requested_ids ms = Inr r \<Longrightarrow> m \<in> set ms \<Longrightarrow> \<exists>cs. py_iter (py_or (dget m ''tool_calls'') (PList [])) = Inr cs"
  by (induction ms arbitrary: r) (auto simp: rbind_Inr_iff)

lemma readableI:
  assumes iter: "\<exists>cs. py_iter (py_or (dget m ''tool_calls'') (PList [])) = Inr cs"
    and tool: "role_is m ''tool'' \<Longrightarrow> hashable (dget m ''tool_call_id'')"
    and calls: "\<And>cs. role_is m ''assistant'' \<Longrightarrow> truthy (dget m ''tool_calls'') \<Longrightarrow>
      py_iter (dget m ''tool_calls'') = Inr cs \<Longrightarrow> \<exists>v. valid_calls c cs = Inr v"
  shows "readable m"
proof -
  from iter obtain cs where cs: "py_iter (py_or (dget m ''tool_calls'') (PList [])) = Inr cs" by blast
  then have calls_m: "calls_of m = cs" by (simp add: calls_of_def)
  have "readable_call tc" if "role_is m ''assistant''" "tc \<in> set cs" for tc
  proof (cases "truthy (dget m ''tool_calls'')")
    case True
    with calls [OF that(1) True] cs valid_calls_readable that(2) show ?thesis by (auto simp: py_or_def)
  next
    case False
    with that cs show ?thesis by (simp add: py_or_def)
  qed
  with iter tool show ?thesis by (simp add: readable_def calls_m)
qed

lemma reconcile_readable:
  assumes "reconcile_tool_pairs py_str ms = Inr rs" "m \<in> set ms"
  shows "readable m"
proof -
  from assms(1) obtain c r where r: "requested_ids ms = Inr r" and l: "reconcile_loop py_str c r ms = Inr rs"
    by (auto simp: reconcile_tool_pairs_def rbind_Inr_iff)
  obtain out where "reconcile_message py_str c r m = Inr out"
    using l assms(2) by (induction ms arbitrary: rs) (auto simp: rbind_Inr_iff)
  with requested_ids_iter [OF r assms(2)] show ?thesis
    by (intro readableI [of m c]) (auto simp: reconcile_message_def rbind_Inr_iff hash_key_Inr)
qed

subsection \<open>The result is paired\<close>

text \<open>Every result answers a call of the conversation, and every call has its result.\<close>

definition paired :: "pydict list \<Rightarrow> bool" where
  "paired ms =
     (\<forall>m \<in> set ms.
        (role_is m ''tool'' \<longrightarrow> dget m ''tool_call_id'' \<in> requested_set ms) \<and>
        (role_is m ''assistant'' \<longrightarrow> (\<forall>tc \<in> set (calls_of m). call_key tc \<in> completed_set ms)))"

definition plain_message :: "pydict \<Rightarrow> bool" where
  "plain_message m = (\<not> role_is m ''assistant'' \<and> \<not> role_is m ''tool'')"

lemma calls_of_dset: "v \<noteq> [] \<Longrightarrow> calls_of (dset ''tool_calls'' (PList v) m) = v"
  by (simp add: calls_of_def py_or_def)

lemma calls_of_dpop: "calls_of (dpop ''tool_calls'' m) = []"
  by (simp add: calls_of_def py_or_def)

lemma calls_of_list:
  assumes "readable m" "role_is m ''assistant''" "calls_of m \<noteq> []"
  shows "dget m ''tool_calls'' = PList (calls_of m)"
proof -
  have t: "truthy (dget m ''tool_calls'')" using calls_of_empty [OF assms(1)] assms(3) by simp
  with assms show ?thesis
    by (cases "dget m ''tool_calls''") (auto simp: readable_def readable_call_def calls_of_def py_or_def neq_Nil_conv)
qed

text \<open>
  Two functions of the code drop unanswered calls and results without a call; they differ in what is left of a message
  without its calls. The interface asks of it only that it is the same kind of message and calls nothing.
\<close>

locale tool_pairing =
  fixes leftover :: "pydict \<Rightarrow> pydict list"
  assumes no_calls: "x \<in> set (leftover m) \<Longrightarrow> \<not> truthy (dget x ''tool_calls'')"
    and same_role: "x \<in> set (leftover m) \<Longrightarrow> dget x ''role'' = dget m ''role''"
begin

lemma kept_cases:
  assumes "x \<in> set (kept leftover C R m)" "readable m"
  shows "readable x" "role_is x r \<longleftrightarrow> role_is m r"
    "role_is x ''tool'' \<Longrightarrow> x = m \<and> dget x ''tool_call_id'' \<in> R"
    "role_is x ''assistant'' \<Longrightarrow> tc \<in> set (calls_of x) \<Longrightarrow> tc \<in> set (calls_of m) \<and> call_key tc \<in> C"
proof -
  have "readable x \<and> (role_is x r \<longleftrightarrow> role_is m r) \<and> (role_is x ''tool'' \<longrightarrow> x = m \<and> dget x ''tool_call_id'' \<in> R) \<and>
    (role_is x ''assistant'' \<longrightarrow> tc \<in> set (calls_of x) \<longrightarrow> tc \<in> set (calls_of m) \<and> call_key tc \<in> C)"
  proof (cases "role_is m ''assistant'' \<and> calls_of m \<noteq> []")
    case False
    with assms show ?thesis by (auto simp: kept_def split: if_splits)
  next
    case True
    let ?v = "filter (\<lambda>tc. call_key tc \<in> C) (calls_of m)"
    show ?thesis
    proof (cases "?v = []")
      case False
      with assms(1) True have x: "x = dset ''tool_calls'' (PList ?v) m" by (simp add: kept_def Let_def)
      have "calls_of x = ?v" unfolding x by (rule calls_of_dset [OF False])
      moreover have "readable x"
        using assms(2) True \<open>calls_of x = ?v\<close> by (auto simp: readable_def x py_or_def)
      ultimately show ?thesis using True by (auto simp: x)
    next
      case empty: True
      with assms(1) True have x: "x \<in> set (leftover m)" by (auto simp: kept_def Let_def split: if_splits)
      have "calls_of x = []" "readable x" "dget x ''role'' = dget m ''role''"
        using True no_calls [OF x] same_role [OF x] by (auto simp: readable_def calls_of_def py_or_def)
      then show ?thesis using True by auto
    qed
  qed
  then show "readable x" "role_is x r \<longleftrightarrow> role_is m r"
    "role_is x ''tool'' \<Longrightarrow> x = m \<and> dget x ''tool_call_id'' \<in> R"
    "role_is x ''assistant'' \<Longrightarrow> tc \<in> set (calls_of x) \<Longrightarrow> tc \<in> set (calls_of m) \<and> call_key tc \<in> C" by blast+
qed

lemma completed_survives:
  assumes "k \<in> completed_set ms" "k \<in> requested_set ms"
  shows "k \<in> completed_set (concat (map (kept leftover C (requested_set ms)) ms))"
proof -
  from assms(1) obtain m where m: "m \<in> set ms" "role_is m ''tool''" "dget m ''tool_call_id'' = k" "truthy k"
    by (auto simp: completed_set_def)
  then have "m \<in> set (kept leftover C (requested_set ms) m)" using assms(2) by (simp add: kept_def)
  with m show ?thesis by (auto simp: completed_set_def)
qed

lemma requested_survives:
  assumes "k \<in> requested_set ms" "k \<in> completed_set ms"
  shows "k \<in> requested_set (concat (map (kept leftover (completed_set ms) R) ms))"
proof -
  from assms(1) obtain m tc where m: "m \<in> set ms" "role_is m ''assistant''" "tc \<in> set (calls_of m)" "call_key tc = k" "truthy k"
    by (auto simp: requested_set_def)
  let ?v = "filter (\<lambda>tc. call_key tc \<in> completed_set ms) (calls_of m)"
  have v: "tc \<in> set ?v" using m assms(2) by simp
  then have ne: "?v \<noteq> []" by fastforce
  let ?x = "dset ''tool_calls'' (PList ?v) m"
  from m ne have "?x \<in> set (kept leftover (completed_set ms) R m)"
    by (auto simp: kept_def Let_def)
  with m(1) have x: "?x \<in> set (concat (map (kept leftover (completed_set ms) R) ms))" by auto
  have "calls_of ?x = ?v" by (rule calls_of_dset [OF ne])
  moreover have "role_is ?x ''assistant''" using m(2) by simp
  ultimately show ?thesis unfolding requested_set_def mem_Collect_eq
    using v x m(4,5) by (intro conjI bexI [of _ ?x] bexI [of _ tc]) simp_all
qed

text \<open>What is neither an answer nor a tool result survives, in order.\<close>

lemma plain_kept: "filter plain_message (concat (map (kept leftover C R) ms)) = filter plain_message ms"
proof -
  have "filter plain_message (kept leftover C R m) = filter plain_message [m]" for m
    using same_role by (auto simp: kept_def plain_message_def Let_def filter_empty_conv)
  then show ?thesis by (induction ms) simp_all
qed

lemma kept_paired: "readable m \<Longrightarrow> paired ms \<Longrightarrow> m \<in> set ms \<Longrightarrow>
    kept leftover (completed_set ms) (requested_set ms) m = [m]"
proof (cases "role_is m ''assistant'' \<and> calls_of m \<noteq> []")
  case True
  assume m: "readable m" "paired ms" "m \<in> set ms"
  with True have "filter (\<lambda>tc. call_key tc \<in> completed_set ms) (calls_of m) = calls_of m"
    by (auto simp: paired_def filter_id_conv)
  with True m show ?thesis by (simp add: kept_def Let_def dset_same calls_of_list)
next
  case False
  assume "readable m" "paired ms" "m \<in> set ms"
  with False show ?thesis by (auto simp: kept_def paired_def)
qed

lemma pairing:
  assumes readable: "\<And>m. m \<in> set ms \<Longrightarrow> readable m"
    and rs: "rs = concat (map (kept leftover (completed_set ms) (requested_set ms)) ms)"
  shows "paired rs" "\<And>x. x \<in> set rs \<Longrightarrow> readable x" "paired ms \<Longrightarrow> rs = ms"
    "concat (map (kept leftover (completed_set rs) (requested_set rs)) rs) = rs"
proof -
  let ?k = "kept leftover (completed_set ms) (requested_set ms)"
  show p: "paired rs"
    unfolding paired_def
  proof (intro ballI conjI impI)
    fix x
    assume "x \<in> set rs"
    then obtain m where m: "m \<in> set ms" "x \<in> set (?k m)" by (auto simp: rs)
    note c = kept_cases [OF m(2) readable [OF m(1)]]
    show "dget x ''tool_call_id'' \<in> requested_set rs" if "role_is x ''tool''"
    proof -
      have x: "x = m" "dget x ''tool_call_id'' \<in> requested_set ms" using c(3) that by blast+
      then have "dget x ''tool_call_id'' \<in> completed_set ms"
        using m(1) that by (auto simp: completed_set_def requested_set_def)
      with x(2) requested_survives show ?thesis unfolding rs by blast
    qed
    fix tc
    assume a: "role_is x ''assistant''" "tc \<in> set (calls_of x)"
    with c(4) have tc: "tc \<in> set (calls_of m)" "call_key tc \<in> completed_set ms" by blast+
    have "role_is m ''assistant''" using c(2) a(1) by blast
    with tc m(1) have "call_key tc \<in> requested_set ms" by (auto simp: requested_set_def completed_set_def)
    with tc(2) completed_survives show "call_key tc \<in> completed_set rs" unfolding rs by blast
  qed
  have unchanged: "concat (map (kept leftover (completed_set xs) (requested_set xs)) xs) = xs"
    if "paired xs" "\<And>m. m \<in> set xs \<Longrightarrow> readable m" for xs
  proof -
    have "map (kept leftover (completed_set xs) (requested_set xs)) xs = map (\<lambda>m. [m]) xs"
      by (rule map_cong [OF refl]) (rule kept_paired [OF that(2) that(1)])
    then show ?thesis by (simp only: concat_map_singleton) simp
  qed
  show q: "readable x" if x: "x \<in> set rs" for x
  proof -
    from x obtain m where "m \<in> set ms" "x \<in> set (?k m)" by (auto simp: rs)
    with kept_cases(1) readable show ?thesis by blast
  qed
  show "rs = ms" if "paired ms" using unchanged [OF that readable] rs by simp
  show "concat (map (kept leftover (completed_set rs) (requested_set rs)) rs) = rs"
    by (rule unchanged [OF p q])
qed

end

interpretation reconciling: tool_pairing "without_calls py_str" for py_str :: "pyval \<Rightarrow> string"
  by unfold_locales (auto simp: without_calls_def split: if_splits)

lemma reconcile_paired:
  assumes r: "reconcile_tool_pairs py_str ms = Inr rs"
  shows "paired rs" "reconcile_tool_pairs py_str rs = Inr rs" "paired ms \<Longrightarrow> rs = ms"
proof -
  have readable: "readable m" if "m \<in> set ms" for m using reconcile_readable [OF r that] .
  have rs: "rs = concat (map (kept (without_calls py_str) (completed_set ms) (requested_set ms)) ms)"
    using reconcile_Inr [OF readable] r by simp
  show "paired rs" by (rule reconciling.pairing(1) [OF _ rs]) (rule readable)
  show "rs = ms" if "paired ms" by (rule reconciling.pairing(3) [OF _ rs that]) (rule readable)
  have "readable x" if "x \<in> set rs" for x by (rule reconciling.pairing(2) [OF _ rs that]) (rule readable)
  moreover have "concat (map (kept (without_calls py_str) (completed_set rs) (requested_set rs)) rs) = rs"
    by (rule reconciling.pairing(4) [OF _ rs]) (rule readable)
  ultimately show "reconcile_tool_pairs py_str rs = Inr rs" using reconcile_Inr [of rs py_str] by simp
qed

text \<open>
  C27. When reconciling a conversation returns, every tool result left answers a tool call left and every tool
  call left has its result; reconciling again changes nothing, and a conversation that was paired already is
  returned unchanged.
\<close>

theorem reconciled_messages_are_paired:
  assumes "reconcile_tool_pairs py_str ms = Inr rs"
  shows "paired rs \<and> reconcile_tool_pairs py_str rs = Inr rs \<and> (paired ms \<longrightarrow> rs = ms)"
  using reconcile_paired [OF assms] by blast

definition sample_call :: "string \<Rightarrow> pyval" where
  "sample_call i = PDict [(''id'', PStr i), (''type'', PStr ''function'')]"

definition sample_conversation :: "pydict list" where
  "sample_conversation =
     [[(''role'', PStr ''user''), (''content'', PStr ''hi'')],
      [(''role'', PStr ''assistant''), (''content'', PStr []), (''tool_calls'', PList [sample_call ''1'', sample_call ''2''])],
      [(''role'', PStr ''tool''), (''tool_call_id'', PStr ''1''), (''content'', PStr ''ok'')],
      [(''role'', PStr ''tool''), (''tool_call_id'', PStr ''3''), (''content'', PStr ''lost'')]]"

lemma reconciled_messages_are_paired_witness:
  "paired [[(''role'', PStr ''user''), (''content'', PStr ''hi'')],
      [(''role'', PStr ''assistant''), (''content'', PStr []), (''tool_calls'', PList [sample_call ''1''])],
      [(''role'', PStr ''tool''), (''tool_call_id'', PStr ''1''), (''content'', PStr ''ok'')]]"
proof -
  have "reconcile_tool_pairs (\<lambda>_. []) sample_conversation =
    Inr [[(''role'', PStr ''user''), (''content'', PStr ''hi'')],
      [(''role'', PStr ''assistant''), (''content'', PStr []), (''tool_calls'', PList [sample_call ''1''])],
      [(''role'', PStr ''tool''), (''tool_call_id'', PStr ''1''), (''content'', PStr ''ok'')]]" by code_simp
  from reconciled_messages_are_paired [OF this] show ?thesis by blast
qed

end
