(* ===== verification/Output_Messages.thy ===== *)
theory Output_Messages
  imports Messages
begin

section \<open>Stored output as provider messages\<close>

text \<open>
  Models \<open>get_reasoning_details\<close> and \<open>convert_output_to_messages\<close> of \<open>utils/misc.py\<close>: the output items of
  a stored assistant turn (texts, tool calls, tool results, reasoning, code runs) become the messages that
  are sent to a provider again. The local lists of the function and the three nested functions that flush
  them are the record \<open>conversion\<close> and the operations on it. The text form of a value (\<open>str(v)\<close>, also what a
  format string inserts) and the JSON encoder are the arguments \<open>py_str\<close> and \<open>json_dumps\<close>.
\<close>

definition get_reasoning_details :: "pyval \<Rightarrow> pyval" where
  "get_reasoning_details payload =
     (case payload of
        PDict d \<Rightarrow>
          (let provider_details = (case py_or (dget d ''provider_specific_fields'') (PDict []) of
                 PDict f \<Rightarrow> dget f ''reasoning_details'' | _ \<Rightarrow> PNone)
           in py_or (dget d ''reasoning_details'') provider_details)
      | _ \<Rightarrow> PNone)"

subsection \<open>The state of a conversion\<close>

record conversion =
  cv_messages :: "pydict list"
  cv_tool_calls :: "pyval list"
  cv_content :: "string list"
  cv_reasoning :: "string list"
  cv_details :: "pyval list"
  cv_images :: "pyval list"
  cv_outputs :: "pydict list"

definition lf :: string where
  "lf = [CHR 0x0A]"

definition flush_pending :: "string option \<Rightarrow> conversion \<Rightarrow> conversion" where
  "flush_pending reasoning_format st =
     (if cv_content st = [] \<and> cv_tool_calls st = [] \<and> cv_reasoning st = [] \<and> cv_details st = [] then st
      else
        (let message = [(''role'', PStr ''assistant''), (''content'', PStr (str_join lf (cv_content st)))] @
               (if cv_tool_calls st \<noteq> [] then [(''tool_calls'', PList (cv_tool_calls st))] else []);
             message = (if cv_reasoning st = [] then message
               else dset (if reasoning_format = Some ''thinking'' then ''thinking'' else ''reasoning_content'')
                      (PStr (str_join lf (cv_reasoning st))) message);
             message = (if cv_details st = [] then message
               else dset ''reasoning_details'' (PList (cv_details st)) message)
         in st\<lparr>cv_messages := cv_messages st @ [message], cv_content := [], cv_tool_calls := [],
               cv_reasoning := [], cv_details := []\<rparr>))"

definition image_note :: string where
  "image_note = ''Here are the images from the tool results above. Please analyze them.''"

definition flush_tool_images :: "conversion \<Rightarrow> conversion" where
  "flush_tool_images st =
     (if cv_images st = [] then st
      else st\<lparr>cv_messages := cv_messages st @
                [[(''role'', PStr ''user''),
                  (''content'', PList
                     (PDict [(''type'', PStr ''text''), (''text'', PStr image_note)] #
                      map (\<lambda>url. PDict [(''type'', PStr ''image_url''), (''image_url'', PDict [(''url'', url)])])
                        (cv_images st)))]],
              cv_images := []\<rparr>)"

text \<open>The text and the image addresses of a tool result, read part by part.\<close>

definition output_part :: "(pyval \<Rightarrow> string) \<Rightarrow> pyval \<Rightarrow> string \<times> pyval list \<Rightarrow> (string \<times> pyval list) result" where
  "output_part py_str part acc =
     rbind (py_get part ''type'' PNone) (\<lambda>type.
       if type = PStr ''input_text'' then
         rbind (py_get part ''text'' (PStr [])) (\<lambda>text. Inr (fst acc @ text_of py_str text, snd acc))
       else if type = PStr ''input_image'' then
         rbind (py_get part ''image_url'' (PStr [])) (\<lambda>url.
           Inr (fst acc, if truthy url then snd acc @ [url] else snd acc))
       else Inr acc)"

definition tool_message :: "pydict \<Rightarrow> pyval \<Rightarrow> pydict" where
  "tool_message output_item content =
     [(''role'', PStr ''tool''), (''tool_call_id'', dget_or output_item ''call_id'' (PStr [])), (''content'', content)]"

definition flush_output :: "(pyval \<Rightarrow> string) \<Rightarrow> bool \<Rightarrow> pydict \<Rightarrow> conversion \<Rightarrow> conversion result" where
  "flush_output py_str flatten_tool_images output_item st =
     rbind (py_iter (dget_or output_item ''output'' (PList []))) (\<lambda>output_parts.
     rbind (rfold (output_part py_str) output_parts ([], [])) (\<lambda>(content, image_urls).
       Inr (if flatten_tool_images
            then st\<lparr>cv_messages := cv_messages st @ [tool_message output_item (PStr content)],
                    cv_images := cv_images st @ image_urls\<rparr>
            else if image_urls \<noteq> []
            then st\<lparr>cv_messages := cv_messages st @ [tool_message output_item (PList
                      (PDict [(''type'', PStr ''input_text''), (''text'', PStr content)] #
                       map (\<lambda>url. PDict [(''type'', PStr ''input_image''), (''image_url'', url)]) image_urls))]\<rparr>
            else st\<lparr>cv_messages := cv_messages st @ [tool_message output_item (PStr content)]\<rparr>)))"

definition flush_tool_outputs ::
    "(pyval \<Rightarrow> string) \<Rightarrow> string option \<Rightarrow> bool \<Rightarrow> conversion \<Rightarrow> conversion result"
where
  "flush_tool_outputs py_str reasoning_format flatten_tool_images st =
     (if cv_outputs st = [] then Inr st
      else rbind (rfold (flush_output py_str flatten_tool_images) (cv_outputs st) (flush_pending reasoning_format st))
             (\<lambda>st. Inr (st\<lparr>cv_outputs := []\<rparr>)))"

subsection \<open>Calls that completed and have a result\<close>

fun completed_call_ids :: "pyval list \<Rightarrow> pyval list result" where
  "completed_call_ids [] = Inr []"
| "completed_call_ids (item # rest) =
     rbind (py_get item ''type'' PNone) (\<lambda>type.
     rbind (py_get item ''call_id'' PNone) (\<lambda>call_id.
     rbind (py_get item ''status'' PNone) (\<lambda>status.
       if type = PStr ''function_call'' \<and> truthy call_id then
         rbind (hash_key status) (\<lambda>status.
           if status \<in> {PStr ''completed'', PStr ''failed'', PStr ''rejected''}
           then rbind (hash_key call_id) (\<lambda>k. rbind (completed_call_ids rest) (\<lambda>ks. Inr (k # ks)))
           else completed_call_ids rest)
       else completed_call_ids rest)))"

fun result_call_ids :: "pyval list \<Rightarrow> pyval list result" where
  "result_call_ids [] = Inr []"
| "result_call_ids (item # rest) =
     rbind (py_get item ''type'' PNone) (\<lambda>type.
     rbind (py_get item ''call_id'' PNone) (\<lambda>call_id.
       if type = PStr ''function_call_output'' \<and> truthy call_id
       then rbind (hash_key call_id) (\<lambda>k. rbind (result_call_ids rest) (\<lambda>ks. Inr (k # ks)))
       else result_call_ids rest))"

subsection \<open>One output item\<close>

text \<open>\<open>text += part.get('text', '')\<close>.\<close>

definition add_text :: "pyval \<Rightarrow> string \<Rightarrow> string result" where
  "add_text part text =
     rbind (py_get part ''text'' (PStr [])) (\<lambda>t. case t of PStr s \<Rightarrow> Inr (text @ s) | _ \<Rightarrow> Inl TypeError)"

definition message_part :: "pyval \<Rightarrow> string \<Rightarrow> string result" where
  "message_part part text =
     rbind (py_get part ''type'' PNone) (\<lambda>type.
       if type = PStr ''output_text'' then add_text part text else Inr text)"

definition handle_message :: "pydict \<Rightarrow> conversion \<Rightarrow> conversion result" where
  "handle_message item st =
     rbind (py_iter (dget_or item ''content'' (PList []))) (\<lambda>content_parts.
     rbind (rfold message_part content_parts []) (\<lambda>text.
       Inr (if text \<noteq> [] then st\<lparr>cv_content := cv_content st @ [text]\<rparr> else st)))"

definition tool_call_of :: "(pyval \<Rightarrow> string) \<Rightarrow> pydict \<Rightarrow> pyval" where
  "tool_call_of json_dumps item =
     (let arguments = dget_or item ''arguments'' (PStr ''{}'');
          arguments = (if is_str arguments then arguments else PStr (json_dumps arguments))
      in PDict [(''id'', dget_or item ''call_id'' (PStr [])), (''type'', PStr ''function''),
           (''function'', PDict [(''name'', dget_or item ''name'' (PStr [])), (''arguments'', arguments)])])"

definition handle_function_call :: "(pyval \<Rightarrow> string) \<Rightarrow> pyval list \<Rightarrow> pydict \<Rightarrow> conversion \<Rightarrow> conversion result" where
  "handle_function_call json_dumps function_call_ids item st =
     rbind (hash_key (dget item ''call_id'')) (\<lambda>call_id.
       Inr (if call_id \<notin> set function_call_ids then st
            else st\<lparr>cv_tool_calls := cv_tool_calls st @ [tool_call_of json_dumps item]\<rparr>))"

definition handle_function_call_output :: "pyval list \<Rightarrow> pydict \<Rightarrow> conversion \<Rightarrow> conversion result" where
  "handle_function_call_output function_call_ids item st =
     rbind (hash_key (dget item ''call_id'')) (\<lambda>call_id.
       Inr (if call_id \<notin> set function_call_ids then st
            else st\<lparr>cv_outputs := cv_outputs st @ [item]\<rparr>))"

definition usable_detail :: "pyval \<Rightarrow> bool" where
  "usable_detail detail =
     (case detail of
        PDict d \<Rightarrow> dget d ''format'' \<noteq> PStr ''anthropic-claude-v1'' \<or> truthy (dget d ''signature'')
      | _ \<Rightarrow> False)"

definition item_details :: "bool \<Rightarrow> pydict \<Rightarrow> pyval list" where
  "item_details raw item =
     (let details = (if raw then dget item ''reasoning_details'' else PNone)
      in if truthy details
         then filter usable_detail (case details of PList ds \<Rightarrow> ds | _ \<Rightarrow> [details])
         else [])"

definition reasoning_part :: "pyval \<Rightarrow> string \<Rightarrow> string result" where
  "reasoning_part part text =
     rbind (py_get part ''type'' PNone) (\<lambda>type.
       if type = PStr ''output_text'' then add_text part text
       else rbind (py_in ''text'' part) (\<lambda>has_text. if has_text then add_text part text else Inr text))"

definition handle_reasoning ::
    "(pyval \<Rightarrow> string) \<Rightarrow> bool \<Rightarrow> string option \<Rightarrow> pydict \<Rightarrow> conversion \<Rightarrow> conversion result"
where
  "handle_reasoning py_str raw reasoning_format item st =
     (let details = item_details raw item
      in if reasoning_format \<in> {None, Some []} \<and> details = [] then Inr st
         else
           rbind (py_iter (py_or (dget_or item ''summary'' (PList [])) (dget_or item ''content'' (PList []))))
             (\<lambda>source_list.
           rbind (rfold reasoning_part source_list []) (\<lambda>reasoning_text.
             (let start_tag = text_of py_str (dget_or item ''start_tag'' (PStr ''<think>''));
                  end_tag = text_of py_str (dget_or item ''end_tag'' (PStr ''</think>''));
                  st' = (if reasoning_text = [] then st
                    else if reasoning_format = Some ''think_tags''
                    then st\<lparr>cv_content := cv_content st @ [start_tag @ reasoning_text @ end_tag]\<rparr>
                    else if reasoning_format \<in> {Some ''thinking'', Some ''reasoning_content''}
                    then st\<lparr>cv_reasoning := cv_reasoning st @ [reasoning_text]\<rparr>
                    else st)
              in Inr (st'\<lparr>cv_details := cv_details st' @ details\<rparr>)))))"

definition fenced :: "string \<Rightarrow> string \<Rightarrow> string" where
  "fenced tag text = ''<'' @ tag @ ''>'' @ lf @ text @ lf @ ''</'' @ tag @ ''>''"

definition code_output_text :: "(pyval \<Rightarrow> string) \<Rightarrow> pyval \<Rightarrow> pyval" where
  "code_output_text py_str code_output =
     (case code_output of
        PDict d \<Rightarrow> py_or (dget_or d ''stdout'' (PStr [])) (dget_or d ''result'' (PStr []))
      | _ \<Rightarrow> PStr (text_of py_str code_output))"

definition handle_code_interpreter :: "(pyval \<Rightarrow> string) \<Rightarrow> pydict \<Rightarrow> conversion \<Rightarrow> conversion" where
  "handle_code_interpreter py_str item st =
     (let code = dget_or item ''code'' (PStr []);
          code_output = dget_or item ''output'' (PStr []);
          output_text = code_output_text py_str code_output;
          st = (if truthy code
            then st\<lparr>cv_content := cv_content st @ [fenced ''code_interpreter'' (text_of py_str code)]\<rparr> else st)
      in if truthy code_output \<and> truthy output_text
         then st\<lparr>cv_content := cv_content st @ [fenced ''code_interpreter_output'' (text_of py_str output_text)]\<rparr>
         else st)"

subsection \<open>The whole conversion\<close>

text \<open>The arguments of a conversion that every item sees.\<close>

record conversion_options =
  co_py_str :: "pyval \<Rightarrow> string"
  co_json_dumps :: "pyval \<Rightarrow> string"
  co_raw :: bool
  co_reasoning_format :: "string option"
  co_flatten_tool_images :: bool

definition flush_tools :: "conversion_options \<Rightarrow> conversion \<Rightarrow> conversion result" where
  "flush_tools opts st =
     rbind (flush_tool_outputs (co_py_str opts) (co_reasoning_format opts) (co_flatten_tool_images opts) st)
       (\<lambda>st. Inr (flush_tool_images st))"

definition handle_typed_item ::
    "conversion_options \<Rightarrow> pyval list \<Rightarrow> pyval \<Rightarrow> pydict \<Rightarrow> conversion \<Rightarrow> conversion result"
where
  "handle_typed_item opts function_call_ids item_type item st =
     (if item_type = PStr ''message'' then handle_message item st
      else if item_type = PStr ''function_call''
      then handle_function_call (co_json_dumps opts) function_call_ids item st
      else if item_type = PStr ''function_call_output'' then handle_function_call_output function_call_ids item st
      else if item_type = PStr ''reasoning''
      then handle_reasoning (co_py_str opts) (co_raw opts) (co_reasoning_format opts) item st
      else if item_type = PStr ''open_webui:code_interpreter''
      then Inr (handle_code_interpreter (co_py_str opts) item st)
      else if is_str item_type then Inr st else Inl AttributeError)"

definition convert_item ::
    "conversion_options \<Rightarrow> pyval list \<Rightarrow> pyval \<Rightarrow> conversion \<Rightarrow> conversion result"
where
  "convert_item opts function_call_ids item st =
     (case item of
        PDict d \<Rightarrow>
          rbind (hash_key (dget_or d ''type'' (PStr []))) (\<lambda>item_type.
          rbind (if item_type \<notin> {PStr ''function_call'', PStr ''function_call_output''}
                 then flush_tools opts st else Inr st) (\<lambda>st.
            handle_typed_item opts function_call_ids item_type d st))
      | _ \<Rightarrow> Inl AttributeError)"

definition no_messages :: conversion where
  "no_messages = \<lparr>cv_messages = [], cv_tool_calls = [], cv_content = [], cv_reasoning = [], cv_details = [],
     cv_images = [], cv_outputs = []\<rparr>"

definition convert_items :: "conversion_options \<Rightarrow> pyval list \<Rightarrow> pydict list result" where
  "convert_items opts items =
     rbind (completed_call_ids items) (\<lambda>completed.
     rbind (result_call_ids items) (\<lambda>results.
     rbind (rfold (convert_item opts (filter (\<lambda>k. k \<in> set results) completed)) items no_messages) (\<lambda>st.
     rbind (flush_tools opts st) (\<lambda>st.
       Inr (cv_messages (flush_pending (co_reasoning_format opts) st))))))"

definition convert_output_to_messages :: "conversion_options \<Rightarrow> pyval \<Rightarrow> pydict list result" where
  "convert_output_to_messages opts output =
     (case output of
        PList items \<Rightarrow>
          if items = [] then Inr []
          else rbind (convert_items opts items) (reconcile_tool_pairs (co_py_str opts))
      | _ \<Rightarrow> Inr [])"

subsection \<open>The calls and the results of the messages\<close>

definition calls_in :: "pydict list \<Rightarrow> pyval list" where
  "calls_in ms = concat (map (\<lambda>m. if role_is m ''assistant'' then calls_of m else []) ms)"

definition result_ids_in :: "pydict list \<Rightarrow> pyval list" where
  "result_ids_in ms = map (\<lambda>m. dget m ''tool_call_id'') (filter (\<lambda>m. role_is m ''tool'') ms)"

definition calls_seen :: "conversion \<Rightarrow> pyval list" where
  "calls_seen st = calls_in (cv_messages st) @ cv_tool_calls st"

definition results_seen :: "conversion \<Rightarrow> pyval list" where
  "results_seen st =
     result_ids_in (cv_messages st) @ map (\<lambda>item. dget_or item ''call_id'' (PStr [])) (cv_outputs st)"

text \<open>The items of a type whose call is kept.\<close>

definition item_dict :: "pyval \<Rightarrow> pydict" where
  "item_dict item = (case item of PDict d \<Rightarrow> d | _ \<Rightarrow> [])"

definition item_is :: "string \<Rightarrow> pyval set \<Rightarrow> pyval \<Rightarrow> bool" where
  "item_is type ids item =
     (dget (item_dict item) ''type'' = PStr type \<and> dget (item_dict item) ''call_id'' \<in> ids)"

text \<open>The calls that ended, in whatever way, and for which the output has a result.\<close>

definition ended_ids :: "pyval list \<Rightarrow> pyval set" where
  "ended_ids items =
     {k. truthy k \<and> (\<exists>item \<in> set items. item_is ''function_call'' {k} item \<and>
        dget (item_dict item) ''status'' \<in> {PStr ''completed'', PStr ''failed'', PStr ''rejected''})}"

definition result_ids :: "pyval list \<Rightarrow> pyval set" where
  "result_ids items = {k. truthy k \<and> (\<exists>item \<in> set items. item_is ''function_call_output'' {k} item)}"

definition answered_ids :: "pyval list \<Rightarrow> pyval set" where
  "answered_ids items = ended_ids items \<inter> result_ids items"

lemma calls_in_append [simp]: "calls_in (a @ b) = calls_in a @ calls_in b"
  by (simp add: calls_in_def)

lemma result_ids_in_append [simp]: "result_ids_in (a @ b) = result_ids_in a @ result_ids_in b"
  by (simp add: result_ids_in_def)

lemma calls_of_no_calls: "dget m ''tool_calls'' = PNone \<Longrightarrow> calls_of m = []"
  by (simp add: calls_of_def py_or_def)

named_theorems seen_simps

lemma flush_pending_seen [seen_simps]:
  "calls_seen (flush_pending f st) = calls_seen st" "results_seen (flush_pending f st) = results_seen st"
  "cv_outputs (flush_pending f st) = cv_outputs st" "cv_images (flush_pending f st) = cv_images st"
  "cv_tool_calls (flush_pending f st) = []"
  by (auto simp: flush_pending_def calls_seen_def results_seen_def calls_in_def result_ids_in_def Let_def
      calls_of_def py_or_def)

lemma flush_tool_images_seen [seen_simps]:
  "calls_seen (flush_tool_images st) = calls_seen st" "results_seen (flush_tool_images st) = results_seen st"
  "cv_outputs (flush_tool_images st) = cv_outputs st"
  by (auto simp: flush_tool_images_def calls_seen_def results_seen_def calls_in_def result_ids_in_def)

definition iterable_calls :: "conversion \<Rightarrow> bool" where
  "iterable_calls st = (\<forall>m \<in> set (cv_messages st). \<exists>cs. py_iter (py_or (dget m ''tool_calls'') (PList [])) = Inr cs)"

lemma flush_iterable [seen_simps]:
  "iterable_calls st \<Longrightarrow> iterable_calls (flush_pending f st)"
  "iterable_calls st \<Longrightarrow> iterable_calls (flush_tool_images st)"
  by (auto simp: iterable_calls_def flush_pending_def flush_tool_images_def py_or_def Let_def)

text \<open>What a step adds to the calls and results seen.\<close>

definition adds :: "conversion \<Rightarrow> pyval list \<Rightarrow> pyval list \<Rightarrow> conversion \<Rightarrow> bool" where
  "adds st calls results st' =
     (calls_seen st' = calls_seen st @ calls \<and> results_seen st' = results_seen st @ results \<and>
      (iterable_calls st \<longrightarrow> iterable_calls st'))"

lemma adds_trans: "adds st a b st' \<Longrightarrow> adds st' c d st'' \<Longrightarrow> adds st (a @ c) (b @ d) st''"
  by (simp add: adds_def)

lemma adds_nothing:
  "cv_messages st' = cv_messages st \<Longrightarrow> cv_tool_calls st' = cv_tool_calls st \<Longrightarrow> cv_outputs st' = cv_outputs st \<Longrightarrow>
     adds st [] [] st'"
  by (simp add: adds_def calls_seen_def results_seen_def iterable_calls_def)

lemma flush_output_messages:
  assumes "flush_output py_str flat item st = Inr st'"
  shows "\<exists>c. cv_messages st' = cv_messages st @ [tool_message item c] \<and>
     cv_tool_calls st' = cv_tool_calls st \<and> cv_outputs st' = cv_outputs st"
  using assms by (auto simp: flush_output_def rbind_Inr_iff split: if_splits)

lemma flush_outputs_seen:
  assumes "rfold (flush_output py_str flat) items st = Inr st'"
  shows "calls_in (cv_messages st') = calls_in (cv_messages st) \<and>
     result_ids_in (cv_messages st') =
       result_ids_in (cv_messages st) @ map (\<lambda>item. dget_or item ''call_id'' (PStr [])) items \<and>
     cv_tool_calls st' = cv_tool_calls st \<and> cv_outputs st' = cv_outputs st \<and>
     (iterable_calls st \<longrightarrow> iterable_calls st')"
  using assms
proof (induction items arbitrary: st)
  case (Cons item items)
  then obtain st1 where 1: "flush_output py_str flat item st = Inr st1"
    and 2: "rfold (flush_output py_str flat) items st1 = Inr st'" by (auto simp: rbind_Inr_iff)
  from flush_output_messages [OF 1] obtain c where c: "cv_messages st1 = cv_messages st @ [tool_message item c]"
    "cv_tool_calls st1 = cv_tool_calls st" "cv_outputs st1 = cv_outputs st" by blast
  then have "iterable_calls st \<longrightarrow> iterable_calls st1"
    by (auto simp: iterable_calls_def tool_message_def py_or_def)
  with c Cons.IH [OF 2] show ?case by (simp add: calls_in_def result_ids_in_def tool_message_def)
qed simp

lemma flush_tool_outputs_adds:
  assumes "flush_tool_outputs py_str f flat st = Inr st'"
  shows "adds st [] [] st' \<and> cv_outputs st' = []"
proof (cases "cv_outputs st = []")
  case True
  with assms show ?thesis by (simp add: flush_tool_outputs_def adds_def)
next
  case False
  with assms obtain st1 where st1: "rfold (flush_output py_str flat) (cv_outputs st) (flush_pending f st) = Inr st1"
    and st': "st' = st1\<lparr>cv_outputs := []\<rparr>" by (auto simp: flush_tool_outputs_def rbind_Inr_iff)
  let ?p = "flush_pending f st"
  note seen = flush_outputs_seen [OF st1]
  have calls: "calls_seen st' = calls_in (cv_messages ?p)"
    using seen by (simp add: calls_seen_def st' flush_pending_seen(5))
  have results: "results_seen st' = results_seen ?p"
    using seen by (simp add: results_seen_def st' flush_pending_seen(3))
  have iterable: "iterable_calls st \<longrightarrow> iterable_calls st'"
  proof -
    have "iterable_calls st' = iterable_calls st1" by (simp add: iterable_calls_def st')
    with seen flush_iterable(1) [of st f] show ?thesis by blast
  qed
  have "calls_in (cv_messages ?p) = calls_seen st"
    using flush_pending_seen(1) [of f st] flush_pending_seen(5) [of f st] by (simp add: calls_seen_def)
  with calls results iterable show ?thesis by (simp add: adds_def flush_pending_seen(2) st')
qed

lemma flush_tools_adds:
  assumes "flush_tools opts st = Inr st'"
  shows "adds st [] [] st' \<and> cv_outputs st' = []"
proof -
  from assms obtain st1 where st1: "flush_tool_outputs (co_py_str opts) (co_reasoning_format opts) (co_flatten_tool_images opts) st = Inr st1"
    and st': "st' = flush_tool_images st1" by (auto simp: flush_tools_def rbind_Inr_iff)
  from flush_tool_outputs_adds [OF st1] flush_iterable(2) [of st1] show ?thesis
    by (simp add: adds_def seen_simps st')
qed

lemma handle_typed_item_adds:
  assumes "handle_typed_item opts ids type item st = Inr st'" "type = dget_or item ''type'' (PStr [])"
  shows "adds st
     (if item_is ''function_call'' (set ids) (PDict item) then [tool_call_of (co_json_dumps opts) item] else [])
     (if item_is ''function_call_output'' (set ids) (PDict item) then [dget_or item ''call_id'' (PStr [])] else []) st'"
proof -
  have type: "dget item ''type'' = PStr s \<longleftrightarrow> type = PStr s" if "s \<noteq> []" for s
    using assms(2) that by (auto simp: dget_def dget_or_def split: option.splits)
  consider (call) "type = PStr ''function_call''" | (result) "type = PStr ''function_call_output''"
    | (other) "type \<noteq> PStr ''function_call''" "type \<noteq> PStr ''function_call_output''" by blast
  then show ?thesis
  proof cases
    case call
    with assms(1) show ?thesis
      by (auto simp: handle_typed_item_def handle_function_call_def rbind_Inr_iff hash_key_Inr item_is_def
          item_dict_def type adds_def calls_seen_def results_seen_def iterable_calls_def)
  next
    case result
    with assms(1) show ?thesis
      by (auto simp: handle_typed_item_def handle_function_call_output_def rbind_Inr_iff hash_key_Inr item_is_def
          item_dict_def type adds_def calls_seen_def results_seen_def iterable_calls_def)
  next
    case other
    then have "\<not> item_is ''function_call'' (set ids) (PDict item)" "\<not> item_is ''function_call_output'' (set ids) (PDict item)"
      by (simp_all add: item_is_def item_dict_def type)
    moreover have "adds st [] [] st'"
      using assms(1) other
      by (intro adds_nothing)
        (auto simp: handle_typed_item_def handle_message_def handle_reasoning_def handle_code_interpreter_def
          rbind_Inr_iff Let_def split: if_splits)
    ultimately show ?thesis by simp
  qed
qed

lemma convert_item_adds:
  assumes "convert_item opts ids item st = Inr st'"
  shows "adds st
     (if item_is ''function_call'' (set ids) item then [tool_call_of (co_json_dumps opts) (item_dict item)] else [])
     (if item_is ''function_call_output'' (set ids) item then [dget_or (item_dict item) ''call_id'' (PStr [])] else []) st'"
proof -
  from assms obtain d where d: "item = PDict d" by (cases item) (auto simp: convert_item_def)
  from assms obtain st1 where st1: "st1 = st \<or> flush_tools opts st = Inr st1"
    and h: "handle_typed_item opts ids (dget_or d ''type'' (PStr [])) d st1 = Inr st'"
    by (auto simp: convert_item_def d rbind_Inr_iff hash_key_Inr split: if_splits)
  from st1 flush_tools_adds have "adds st [] [] st1" by (auto simp: adds_def)
  from adds_trans [OF this handle_typed_item_adds [OF h refl]] show ?thesis
    unfolding d item_dict_def pyval.case append_Nil .
qed

lemma convert_items_adds:
  "rfold (convert_item opts ids) items st = Inr st' \<Longrightarrow>
     adds st (map (tool_call_of (co_json_dumps opts) \<circ> item_dict) (filter (item_is ''function_call'' (set ids)) items))
       (map (\<lambda>item. dget_or (item_dict item) ''call_id'' (PStr [])) (filter (item_is ''function_call_output'' (set ids)) items)) st'"
proof (induction items arbitrary: st)
  case Nil
  then show ?case by (simp add: adds_def)
next
  case (Cons item items)
  then obtain st1 where "convert_item opts ids item st = Inr st1" "rfold (convert_item opts ids) items st1 = Inr st'"
    by (auto simp: rbind_Inr_iff)
  from adds_trans [OF convert_item_adds [OF this(1)] Cons.IH [OF this(2)]] show ?case
    by (auto simp: comp_def split: if_splits)
qed

lemma completed_call_ids_set: "completed_call_ids items = Inr ks \<Longrightarrow> set ks = ended_ids items \<and> (\<forall>k \<in> set ks. hashable k)"
proof (induction items arbitrary: ks)
  case Nil
  then show ?case by (simp add: ended_ids_def)
next
  case (Cons item items)
  then obtain d where d: "item = PDict d" by (cases item) auto
  have "ended_ids (item # items) = ended_ids items \<union>
      (if dget d ''type'' = PStr ''function_call'' \<and> truthy (dget d ''call_id'') \<and>
          dget d ''status'' \<in> {PStr ''completed'', PStr ''failed'', PStr ''rejected''}
       then {dget d ''call_id''} else {})"
    by (auto simp: ended_ids_def item_is_def item_dict_def d)
  with Cons show ?case
    by (auto simp: d rbind_Inr_iff hash_key_Inr dget_or_def dget_def split: if_splits option.splits)
qed

lemma result_call_ids_set: "result_call_ids items = Inr ks \<Longrightarrow> set ks = result_ids items"
proof (induction items arbitrary: ks)
  case Nil
  then show ?case by (simp add: result_ids_def)
next
  case (Cons item items)
  then obtain d where d: "item = PDict d" by (cases item) auto
  have "result_ids (item # items) = result_ids items \<union>
      (if dget d ''type'' = PStr ''function_call_output'' \<and> truthy (dget d ''call_id'')
       then {dget d ''call_id''} else {})"
    by (auto simp: result_ids_def item_is_def item_dict_def d)
  with Cons show ?case
    by (auto simp: d rbind_Inr_iff hash_key_Inr dget_or_def dget_def split: if_splits option.splits)
qed

lemma requested_set_calls: "requested_set ms = {k. truthy k \<and> k \<in> call_key ` set (calls_in ms)}"
  by (auto simp: requested_set_def calls_in_def split: if_splits)

lemma completed_set_results: "completed_set ms = {k. truthy k \<and> k \<in> set (result_ids_in ms)}"
  by (auto simp: completed_set_def result_ids_in_def)

lemma paired_calls_results:
  "paired ms \<longleftrightarrow> set (result_ids_in ms) \<subseteq> requested_set ms \<and> call_key ` set (calls_in ms) \<subseteq> completed_set ms"
proof -
  have calls: "tc \<in> set (calls_in ms) \<longleftrightarrow> (\<exists>m \<in> set ms. role_is m ''assistant'' \<and> tc \<in> set (calls_of m))" for tc
    by (auto simp: calls_in_def split: if_splits)
  have results: "k \<in> set (result_ids_in ms) \<longleftrightarrow> (\<exists>m \<in> set ms. role_is m ''tool'' \<and> dget m ''tool_call_id'' = k)" for k
    by (auto simp: result_ids_in_def)
  show ?thesis unfolding paired_def image_subset_iff unfolding subset_iff Ball_def calls results by blast
qed

lemma tool_call_of_key [simp]:
  "call_key (tool_call_of f d) = dget_or d ''call_id'' (PStr [])" "is_dict (tool_call_of f d)"
  by (simp_all add: call_key_def call_id_def tool_call_of_def Let_def)

lemma convert_items_calls:
  assumes "convert_items opts items = Inr ms"
  shows "calls_in ms = map (tool_call_of (co_json_dumps opts) \<circ> item_dict) (filter (item_is ''function_call'' (answered_ids items)) items)"
    "result_ids_in ms = map (\<lambda>item. dget_or (item_dict item) ''call_id'' (PStr [])) (filter (item_is ''function_call_output'' (answered_ids items)) items)"
    "\<forall>m \<in> set ms. \<exists>cs. py_iter (py_or (dget m ''tool_calls'') (PList [])) = Inr cs"
    "\<forall>k \<in> answered_ids items. hashable k"
proof -
  from assms obtain completed results st st1 where
    c: "completed_call_ids items = Inr completed" and r: "result_call_ids items = Inr results"
    and st: "rfold (convert_item opts (filter (\<lambda>k. k \<in> set results) completed)) items no_messages = Inr st"
    and st1: "flush_tools opts st = Inr st1" and ms: "ms = cv_messages (flush_pending (co_reasoning_format opts) st1)"
    by (auto simp: convert_items_def rbind_Inr_iff)
  note cs = completed_call_ids_set [OF c] and rs = result_call_ids_set [OF r]
  have ids: "set (filter (\<lambda>k. k \<in> set results) completed) = answered_ids items"
    using cs rs by (auto simp: answered_ids_def)
  then show "\<forall>k \<in> answered_ids items. hashable k" using cs by auto
  note loop = convert_items_adds [OF st, unfolded ids]
  note all = adds_trans [OF loop flush_tools_adds [OF st1, THEN conjunct1]]
  let ?p = "flush_pending (co_reasoning_format opts) st1"
  have out: "cv_outputs ?p = []" "cv_tool_calls ?p = []" using flush_tools_adds [OF st1] by (simp_all add: flush_pending_seen)
  then have p: "calls_in ms = calls_seen st1" "result_ids_in ms = results_seen st1"
    using flush_pending_seen(1,2) [of "co_reasoning_format opts" st1]
    by (simp_all add: ms calls_seen_def [of ?p] results_seen_def [of ?p])
  have start: "calls_seen no_messages = []" "results_seen no_messages = []" "iterable_calls no_messages"
    by (simp_all add: no_messages_def calls_seen_def results_seen_def iterable_calls_def calls_in_def result_ids_in_def)
  from all start p show "calls_in ms = map (tool_call_of (co_json_dumps opts) \<circ> item_dict) (filter (item_is ''function_call'' (answered_ids items)) items)"
    "result_ids_in ms = map (\<lambda>item. dget_or (item_dict item) ''call_id'' (PStr [])) (filter (item_is ''function_call_output'' (answered_ids items)) items)"
    by (simp_all add: adds_def)
  from all start have "iterable_calls st1" by (simp add: adds_def)
  then have "iterable_calls ?p" by (rule flush_iterable)
  then show "\<forall>m \<in> set ms. \<exists>cs. py_iter (py_or (dget m ''tool_calls'') (PList [])) = Inr cs"
    by (simp add: iterable_calls_def ms)
qed

lemma answered_call_id:
  assumes "item_is type (answered_ids items) item"
  shows "dget_or (item_dict item) ''call_id'' (PStr []) \<in> answered_ids items"
proof -
  from assms have "dget (item_dict item) ''call_id'' \<in> answered_ids items" by (simp add: item_is_def)
  moreover from this have "dget (item_dict item) ''call_id'' \<noteq> PNone" by (auto simp: answered_ids_def ended_ids_def)
  ultimately show ?thesis by (auto simp: dget_def dget_or_def split: option.splits)
qed

lemma converted_is_paired:
  assumes "convert_items opts items = Inr ms"
  shows "paired ms" "\<forall>m \<in> set ms. readable m"
proof -
  note c = convert_items_calls [OF assms]
  let ?K = "answered_ids items"
  have truthy: "truthy k" if "k \<in> ?K" for k using that by (simp add: answered_ids_def ended_ids_def)
  have keys: "call_key ` set (calls_in ms) = ?K"
  proof
    show "call_key ` set (calls_in ms) \<subseteq> ?K" by (auto simp: c(1) answered_call_id)
    show "?K \<subseteq> call_key ` set (calls_in ms)"
    proof
      fix k assume k: "k \<in> ?K"
      then obtain item where i: "item \<in> set items" "item_is ''function_call'' {k} item"
        by (auto simp: answered_ids_def ended_ids_def)
      with k have "item_is ''function_call'' ?K item" "dget_or (item_dict item) ''call_id'' (PStr []) = k"
        using truthy [OF k] by (auto simp: item_is_def dget_def dget_or_def split: option.splits)
      with i(1) show "k \<in> call_key ` set (calls_in ms)" by (force simp: c(1))
    qed
  qed
  have results: "set (result_ids_in ms) = ?K"
  proof
    show "set (result_ids_in ms) \<subseteq> ?K" by (auto simp: c(2) answered_call_id)
    show "?K \<subseteq> set (result_ids_in ms)"
    proof
      fix k assume k: "k \<in> ?K"
      then obtain item where i: "item \<in> set items" "item_is ''function_call_output'' {k} item"
        by (auto simp: answered_ids_def result_ids_def)
      with k have "item_is ''function_call_output'' ?K item" "dget_or (item_dict item) ''call_id'' (PStr []) = k"
        using truthy [OF k] by (auto simp: item_is_def dget_def dget_or_def split: option.splits)
      with i(1) show "k \<in> set (result_ids_in ms)" by (force simp: c(2))
    qed
  qed
  show "paired ms"
    using keys results truthy by (auto simp: paired_calls_results requested_set_calls completed_set_results)
  show "\<forall>m \<in> set ms. readable m"
  proof
    fix m assume m: "m \<in> set ms"
    have "hashable (dget m ''tool_call_id'')" if "role_is m ''tool''"
    proof -
      from m that have "dget m ''tool_call_id'' \<in> set (result_ids_in ms)" by (auto simp: result_ids_in_def)
      with results c(4) show ?thesis by blast
    qed
    moreover have "readable_call tc" if "role_is m ''assistant''" "tc \<in> set (calls_of m)" for tc
    proof -
      from m that have tc: "tc \<in> set (calls_in ms)" by (auto simp: calls_in_def)
      then have "call_key tc \<in> ?K" using keys by blast
      with tc c(4) show ?thesis by (auto simp: readable_call_def c(1))
    qed
    ultimately show "readable m" using m c(3) by (auto simp: readable_def)
  qed
qed

lemma convert_output_is_loop: "convert_output_to_messages opts (PList items) = convert_items opts items"
proof (cases "convert_items opts items")
  case (Inl e)
  then have "items \<noteq> []" by (auto simp: convert_items_def flush_tools_def flush_tool_outputs_def no_messages_def)
  with Inl show ?thesis by (simp add: convert_output_to_messages_def)
next
  case (Inr ms)
  note p = converted_is_paired [OF Inr]
  have "readable m" if "m \<in> set ms" for m using p(2) that by blast
  from reconcile_Inr [OF this, of ms "co_py_str opts"]
  have "reconcile_tool_pairs (co_py_str opts) ms =
      Inr (concat (map (kept (without_calls (co_py_str opts)) (completed_set ms) (requested_set ms)) ms))" by simp
  with reconcile_paired(3) [OF this p(1)] have "reconcile_tool_pairs (co_py_str opts) ms = Inr ms" by simp
  moreover have "ms = []" if "items = []"
    using Inr that by (auto simp: convert_items_def flush_tools_def flush_tool_outputs_def no_messages_def
        flush_tool_images_def flush_pending_def)
  ultimately show ?thesis using Inr by (auto simp: convert_output_to_messages_def)
qed

text \<open>
  C26. Converting a stored output, when no malformed item makes it raise, gives a conversation whose tool calls
  are, in order, those of the output that ended and have a result, and whose tool results are those of these
  calls, in order; calls and results pair up, and the final reconciliation removes nothing.
\<close>

theorem converted_output_keeps_answered_calls:
  assumes "convert_output_to_messages opts (PList items) = Inr ms"
  shows "calls_in ms = map (tool_call_of (co_json_dumps opts) \<circ> item_dict)
           (filter (item_is ''function_call'' (answered_ids items)) items) \<and>
         result_ids_in ms = map (\<lambda>item. dget_or (item_dict item) ''call_id'' (PStr []))
           (filter (item_is ''function_call_output'' (answered_ids items)) items) \<and>
         paired ms \<and> convert_items opts items = Inr ms"
proof -
  from assms have "convert_items opts items = Inr ms" by (simp only: convert_output_is_loop)
  with convert_items_calls(1,2) converted_is_paired(1) show ?thesis by blast
qed

definition sample_output :: "pyval list" where
  "sample_output =
     [PDict [(''type'', PStr ''message''), (''content'', PList [PDict [(''type'', PStr ''output_text''), (''text'', PStr ''let me look'')]])],
      PDict [(''type'', PStr ''function_call''), (''call_id'', PStr ''a''), (''name'', PStr ''find''), (''status'', PStr ''completed'')],
      PDict [(''type'', PStr ''function_call''), (''call_id'', PStr ''b''), (''name'', PStr ''wait''), (''status'', PStr ''in_progress'')],
      PDict [(''type'', PStr ''function_call_output''), (''call_id'', PStr ''a''),
        (''output'', PList [PDict [(''type'', PStr ''input_text''), (''text'', PStr ''found'')]])],
      PDict [(''type'', PStr ''message''), (''content'', PList [PDict [(''type'', PStr ''output_text''), (''text'', PStr ''done'')]])]]"

definition plain_options :: conversion_options where
  "plain_options = \<lparr>co_py_str = \<lambda>_. [], co_json_dumps = \<lambda>_. ''{}'', co_raw = False, co_reasoning_format = None,
     co_flatten_tool_images = False\<rparr>"

definition sample_replay :: "pydict list" where
  "sample_replay =
     [[(''role'', PStr ''assistant''), (''content'', PStr ''let me look''), (''tool_calls'', PList
         [PDict [(''id'', PStr ''a''), (''type'', PStr ''function''),
            (''function'', PDict [(''name'', PStr ''find''), (''arguments'', PStr ''{}'')])]])],
      [(''role'', PStr ''tool''), (''tool_call_id'', PStr ''a''), (''content'', PStr ''found'')],
      [(''role'', PStr ''assistant''), (''content'', PStr ''done'')]]"

lemma converted_output_keeps_answered_calls_witness:
  "paired sample_replay \<and> convert_items plain_options sample_output = Inr sample_replay"
proof -
  have "convert_output_to_messages plain_options (PList sample_output) = Inr sample_replay" by code_simp
  from converted_output_keeps_answered_calls [OF this] show ?thesis by blast
qed

end
