(* ===== verification/Message_Edits.thy ===== *)
theory Message_Edits
  imports Messages
begin

section \<open>Finding and editing messages of a request\<close>

text \<open>
  Models the helpers of \<open>utils/misc.py\<close> that look up the last message of a role, take out or merge the system
  messages, insert or extend the system, user and assistant message, and drop empty text blocks, and the two
  functions there that merge dictionaries of parameters. The messages of a list are taken to be distinct
  objects, so that a message changed in place is an element of the list replaced. \<open>m['role']\<close> raises on a
  message without a role where \<open>m.get('role')\<close> does not; both occur.
\<close>

subsection \<open>Looking up\<close>

text \<open>The first message of the role in the order given.\<close>

fun find_role :: "string \<Rightarrow> pydict list \<Rightarrow> pydict option result" where
  "find_role role [] = Inr None"
| "find_role role (message # rest) =
     rbind (dict_item message ''role'') (\<lambda>r. if r = PStr role then Inr (Some message) else find_role role rest)"

definition get_last_user_message_item :: "pydict list \<Rightarrow> pydict option result" where
  "get_last_user_message_item messages = find_role ''user'' (rev messages)"

definition get_last_user_message :: "(pyval \<Rightarrow> string) \<Rightarrow> pydict list \<Rightarrow> pyval result" where
  "get_last_user_message py_str messages =
     rbind (get_last_user_message_item messages) (\<lambda>m. Inr
       (case m of None \<Rightarrow> PNone | Some message \<Rightarrow> get_content_from_message py_str message))"

definition get_last_assistant_message_item :: "pydict list \<Rightarrow> pydict option result" where
  "get_last_assistant_message_item messages = find_role ''assistant'' (rev messages)"

definition get_last_assistant_message :: "(pyval \<Rightarrow> string) \<Rightarrow> pydict list \<Rightarrow> pyval result" where
  "get_last_assistant_message py_str messages =
     rbind (find_role ''assistant'' (rev messages)) (\<lambda>m. Inr
       (case m of None \<Rightarrow> PNone | Some message \<Rightarrow> get_content_from_message py_str message))"

definition get_system_message :: "pydict list \<Rightarrow> pydict option result" where
  "get_system_message messages = find_role ''system'' messages"

fun remove_system_message :: "pydict list \<Rightarrow> pydict list result" where
  "remove_system_message [] = Inr []"
| "remove_system_message (message # rest) =
     rbind (dict_item message ''role'') (\<lambda>r. rbind (remove_system_message rest) (\<lambda>rest.
       Inr (if r \<noteq> PStr ''system'' then message # rest else rest)))"

definition pop_system_message :: "pydict list \<Rightarrow> (pydict option \<times> pydict list) result" where
  "pop_system_message messages =
     rbind (get_system_message messages) (\<lambda>m. rbind (remove_system_message messages) (\<lambda>rest. Inr (m, rest)))"

subsection \<open>One system message\<close>

text \<open>\<open>'\n'.join(values)\<close> raises on a value that is not a string.\<close>

definition as_text :: "pyval \<Rightarrow> string result" where
  "as_text v = (case v of PStr s \<Rightarrow> Inr s | _ \<Rightarrow> Inl TypeError)"

definition system_contents :: "(pyval \<Rightarrow> string) \<Rightarrow> pydict list \<Rightarrow> pyval list" where
  "system_contents py_str messages =
     filter truthy (map (get_content_from_message py_str) (filter (\<lambda>m. role_is m ''system'') messages))"

definition other_messages :: "pydict list \<Rightarrow> pydict list" where
  "other_messages messages = filter (\<lambda>m. \<not> role_is m ''system'') messages"

definition merge_system_messages :: "(pyval \<Rightarrow> string) \<Rightarrow> pydict list \<Rightarrow> pydict list result" where
  "merge_system_messages py_str messages =
     (if system_contents py_str messages = [] then Inr (other_messages messages)
      else rbind (rmap as_text (system_contents py_str messages)) (\<lambda>texts.
        Inr ([(''role'', PStr ''system''), (''content'', PStr (str_join [CHR 0x0A] texts))] # other_messages messages)))"

subsection \<open>Changing the content of a message\<close>

definition joined_text :: "(pyval \<Rightarrow> string) \<Rightarrow> bool \<Rightarrow> pyval \<Rightarrow> string \<Rightarrow> pyval" where
  "joined_text py_str at_end old content =
     PStr (if at_end then text_of py_str old @ [CHR 0x0A] @ content
           else content @ [CHR 0x0A] @ text_of py_str old)"

definition update_text_block :: "(pyval \<Rightarrow> string) \<Rightarrow> string \<Rightarrow> bool \<Rightarrow> pyval \<Rightarrow> pyval result" where
  "update_text_block py_str content at_end item =
     rbind (py_item item ''type'') (\<lambda>type.
       if type = PStr ''text''
       then rbind (py_item item ''text'') (\<lambda>text. py_setitem item ''text'' (joined_text py_str at_end text content))
       else Inr item)"

definition update_message_content :: "(pyval \<Rightarrow> string) \<Rightarrow> pydict \<Rightarrow> string \<Rightarrow> bool \<Rightarrow> pydict result" where
  "update_message_content py_str message content at_end =
     rbind (dict_item message ''content'') (\<lambda>old.
       case old of
         PList items \<Rightarrow>
           rbind (rmap (update_text_block py_str content at_end) items) (\<lambda>items.
             Inr (dset ''content'' (PList items) message))
       | _ \<Rightarrow> Inr (dset ''content'' (joined_text py_str at_end old content) message))"

text \<open>The first message of the role, in the order given, changed by \<open>f\<close>.\<close>

fun edit_first :: "string \<Rightarrow> (pydict \<Rightarrow> pydict result) \<Rightarrow> pydict list \<Rightarrow> pydict list result" where
  "edit_first role f [] = Inr []"
| "edit_first role f (message # rest) =
     rbind (dict_item message ''role'') (\<lambda>r.
       if r = PStr role then rbind (f message) (\<lambda>message. Inr (message # rest))
       else rbind (edit_first role f rest) (\<lambda>rest. Inr (message # rest)))"

definition replace_system_message_content :: "string \<Rightarrow> pydict list \<Rightarrow> pydict list result" where
  "replace_system_message_content content messages =
     edit_first ''system'' (\<lambda>m. Inr (dset ''content'' (PStr content) m)) messages"

definition add_or_update_system_message ::
    "(pyval \<Rightarrow> string) \<Rightarrow> string \<Rightarrow> pydict list \<Rightarrow> bool \<Rightarrow> pydict list result"
where
  "add_or_update_system_message py_str content messages at_end =
     (case messages of
        message # rest \<Rightarrow>
          if role_is message ''system''
          then rbind (update_message_content py_str message content at_end) (\<lambda>m. Inr (m # rest))
          else Inr ([(''role'', PStr ''system''), (''content'', PStr content)] # messages)
      | [] \<Rightarrow> Inr [[(''role'', PStr ''system''), (''content'', PStr content)]])"

definition add_or_update_user_message ::
    "(pyval \<Rightarrow> string) \<Rightarrow> string \<Rightarrow> pydict list \<Rightarrow> bool \<Rightarrow> pydict list result"
where
  "add_or_update_user_message py_str content messages at_end =
     (if messages \<noteq> [] \<and> role_is (last messages) ''user''
      then rbind (update_message_content py_str (last messages) content at_end) (\<lambda>m. Inr (butlast messages @ [m]))
      else Inr (messages @ [[(''role'', PStr ''user''), (''content'', PStr content)]]))"

definition prepend_to_first_user_message_content ::
    "(pyval \<Rightarrow> string) \<Rightarrow> string \<Rightarrow> pydict list \<Rightarrow> pydict list result"
where
  "prepend_to_first_user_message_content py_str content messages =
     edit_first ''user'' (\<lambda>m. update_message_content py_str m content False) messages"

definition append_or_update_assistant_message ::
    "(pyval \<Rightarrow> string) \<Rightarrow> string \<Rightarrow> pydict list \<Rightarrow> pydict list result"
where
  "append_or_update_assistant_message py_str content messages =
     (if messages \<noteq> [] \<and> role_is (last messages) ''assistant''
      then rbind (dict_item (last messages) ''content'') (\<lambda>old.
             Inr (butlast messages @ [dset ''content'' (joined_text py_str True old content) (last messages)]))
      else Inr (messages @ [[(''role'', PStr ''assistant''), (''content'', PStr content)]]))"

text \<open>\<open>set_last_user_message_content\<close> replaces the first text block, or the whole content.\<close>

fun set_first_text :: "string \<Rightarrow> pyval list \<Rightarrow> pyval list result" where
  "set_first_text content [] = Inr []"
| "set_first_text content (item # rest) =
     rbind (py_get item ''type'' PNone) (\<lambda>type.
       if type = PStr ''text'' then rbind (py_setitem item ''text'' (PStr content)) (\<lambda>item. Inr (item # rest))
       else rbind (set_first_text content rest) (\<lambda>rest. Inr (item # rest)))"

definition with_user_content :: "string \<Rightarrow> pydict \<Rightarrow> pydict result" where
  "with_user_content content message =
     (case dget message ''content'' of
        PList items \<Rightarrow> rbind (set_first_text content items) (\<lambda>items. Inr (dset ''content'' (PList items) message))
      | _ \<Rightarrow> Inr (dset ''content'' (PStr content) message))"

fun edit_first_user :: "string \<Rightarrow> pydict list \<Rightarrow> pydict list result" where
  "edit_first_user content [] = Inr []"
| "edit_first_user content (message # rest) =
     (if role_is message ''user'' then rbind (with_user_content content message) (\<lambda>m. Inr (m # rest))
      else rbind (edit_first_user content rest) (\<lambda>rest. Inr (message # rest)))"

definition set_last_user_message_content :: "string \<Rightarrow> pydict list \<Rightarrow> pydict list result" where
  "set_last_user_message_content content messages =
     rbind (edit_first_user content (rev messages)) (\<lambda>ms. Inr (rev ms))"

subsection \<open>Empty text blocks\<close>

text \<open>\<open>block.get('text', '').strip()\<close> raises on a text that is not a string.\<close>

definition block_is_empty :: "pyval \<Rightarrow> bool result" where
  "block_is_empty block =
     (case block of
        PDict d \<Rightarrow>
          if dget d ''type'' = PStr ''text''
          then (case dget_or d ''text'' (PStr []) of PStr s \<Rightarrow> Inr (str_strip s = []) | _ \<Rightarrow> Inl AttributeError)
          else Inr False
      | _ \<Rightarrow> Inr False)"

fun full_blocks :: "pyval list \<Rightarrow> pyval list result" where
  "full_blocks [] = Inr []"
| "full_blocks (block # rest) =
     rbind (block_is_empty block) (\<lambda>e. rbind (full_blocks rest) (\<lambda>rest. Inr (if e then rest else block # rest)))"

definition strip_blocks :: "pydict \<Rightarrow> pydict result" where
  "strip_blocks message =
     (case dget message ''content'' of
        PList content \<Rightarrow> rbind (full_blocks content) (\<lambda>cleaned.
          Inr (if cleaned \<noteq> [] then dset ''content'' (PList cleaned) message else message))
      | _ \<Rightarrow> Inr message)"

definition strip_empty_content_blocks :: "pydict list \<Rightarrow> pydict list result" where
  "strip_empty_content_blocks messages = rmap strip_blocks messages"

subsection \<open>Merging parameters\<close>

text \<open>
  \<open>deep_update\<close> merges nested dictionaries into \<open>d\<close>, which may be any value: reading or assigning an entry of
  a value that is not a dictionary raises, but nothing is read for an empty update.
\<close>

fun deep_update :: "pyval \<Rightarrow> pydict \<Rightarrow> pyval result" where
  "deep_update d [] = Inr d"
| "deep_update d ((k, PDict v) # u) =
     rbind (py_get d k (PDict [])) (\<lambda>old. rbind (deep_update old v) (\<lambda>new.
     rbind (py_setitem d k new) (\<lambda>d. deep_update d u)))"
| "deep_update d ((k, v) # u) = rbind (py_setitem d k v) (\<lambda>d. deep_update d u)"

definition merge_model_params :: "pydict \<Rightarrow> pydict \<Rightarrow> pydict" where
  "merge_model_params base override =
     (let params = dmerge base override;
          base_custom = dget base ''custom_params'';
          override_custom = dget override ''custom_params''
      in if is_dict base_custom \<and> (override_custom = PNone \<or> is_dict override_custom)
         then dset ''custom_params''
           (case (base_custom, py_or override_custom (PDict [])) of
              (PDict b, PDict c) \<Rightarrow> PDict (dmerge b c) | _ \<Rightarrow> PNone) params
         else params)"

subsection \<open>Facts\<close>

lemma dict_item_dget: "dict_item m k = Inr v \<Longrightarrow> dget m k = v"
  by (auto simp: dict_item_def dget_def split: option.splits)

lemma find_role_finds: "find_role role ms = Inr r \<Longrightarrow> r = find (\<lambda>m. role_is m role) ms"
proof (induction ms)
  case (Cons m ms)
  then obtain v where v: "dict_item m ''role'' = Inr v" by (auto simp: rbind_Inr_iff)
  with Cons dict_item_dget [OF v] show ?case by (cases "v = PStr role") auto
qed simp

lemma remove_system_removes: "remove_system_message ms = Inr rs \<Longrightarrow> rs = other_messages ms"
proof (induction ms arbitrary: rs)
  case (Cons m ms)
  then obtain v rest where v: "dict_item m ''role'' = Inr v" and rest: "remove_system_message ms = Inr rest"
    by (auto simp: rbind_Inr_iff)
  have "rest = other_messages ms" by (rule Cons.IH [OF rest])
  with Cons.prems v rest dict_item_dget [OF v] show ?case by (simp add: other_messages_def split: if_splits)
qed (simp add: other_messages_def)

lemma other_messages_idem [simp]: "other_messages (other_messages ms) = other_messages ms"
  by (simp add: other_messages_def)

lemma system_contents_other [simp]: "system_contents py_str (other_messages ms) = []"
  by (simp add: system_contents_def other_messages_def)

lemma str_join_not_Nil: "xs \<noteq> [] \<Longrightarrow> \<forall>x \<in> set xs. x \<noteq> [] \<Longrightarrow> str_join sep xs \<noteq> []"
  by (induction sep xs rule: str_join.induct) auto

lemma rmap_as_text: "rmap as_text vs = Inr ts \<longleftrightarrow> vs = map PStr ts"
proof (induction vs arbitrary: ts)
  case (Cons v vs)
  then show ?case by (cases v; cases ts) (auto simp: rbind_Inr_iff as_text_def)
qed auto

lemma merged_contents:
  assumes "system_contents py_str ms = map PStr ts" "ts \<noteq> []"
  shows "str_join [CHR 0x0A] ts \<noteq> []"
proof (rule str_join_not_Nil [OF assms(2)])
  have "\<forall>v \<in> set (system_contents py_str ms). truthy v" by (simp add: system_contents_def)
  then show "\<forall>x \<in> set ts. x \<noteq> []" using assms(1) by auto
qed

lemma content_of_text: "t \<noteq> [] \<Longrightarrow> get_content_from_message py_str [(''role'', r), (''content'', PStr t)] = PStr t"
  by (simp add: get_content_from_message_def Let_def)

text \<open>
  Merging the system messages keeps the other messages in order and leaves at most one system message,
  which comes first and holds the texts of all of them, in order, one per line; it is there exactly when one of
  them had content, and merging again changes nothing.
\<close>

lemma merged_system_message_is_first:
  assumes "merge_system_messages py_str ms = Inr rs"
  shows "merge_system_messages py_str rs = Inr rs \<and> other_messages rs = other_messages ms \<and>
    (system_contents py_str ms = [] \<and> rs = other_messages ms \<or>
     (\<exists>texts. system_contents py_str ms = map PStr texts \<and> texts \<noteq> [] \<and>
        rs = [(''role'', PStr ''system''), (''content'', PStr (str_join [CHR 0x0A] texts))] # other_messages ms))"
proof (cases "system_contents py_str ms = []")
  case True
  with assms show ?thesis by (auto simp: merge_system_messages_def)
next
  case False
  with assms obtain ts where ts: "system_contents py_str ms = map PStr ts" "ts \<noteq> []"
    and rs: "rs = [(''role'', PStr ''system''), (''content'', PStr (str_join [CHR 0x0A] ts))] # other_messages ms"
    by (auto simp: merge_system_messages_def rbind_Inr_iff rmap_as_text)
  let ?t = "str_join [CHR 0x0A] ts"
  have t: "?t \<noteq> []" by (rule merged_contents [OF ts])
  have "system_contents py_str rs = [PStr ?t]"
    using system_contents_other [of py_str ms] t
    by (simp add: rs system_contents_def content_of_text)
  moreover have "other_messages rs = other_messages ms"
    using other_messages_idem [of ms] by (simp add: rs other_messages_def)
  ultimately have "merge_system_messages py_str rs = Inr rs"
    by (simp add: merge_system_messages_def as_text_def rs)
  with ts rs \<open>other_messages rs = other_messages ms\<close> show ?thesis by blast
qed

lemma merged_system_message_is_first_witness:
  "other_messages [[(''role'', PStr ''system''), (''content'', PStr ''ab'')], [(''role'', PStr ''user'')]] =
     [[(''role'', PStr ''user'')]]"
proof -
  have "merge_system_messages (\<lambda>_. [])
      [[(''role'', PStr ''user'')], [(''role'', PStr ''system''), (''content'', PStr ''ab'')]] =
    Inr [[(''role'', PStr ''system''), (''content'', PStr ''ab'')], [(''role'', PStr ''user'')]]"
    by code_simp
  from merged_system_message_is_first [OF this] show ?thesis
    by (simp add: other_messages_def)
qed

end
