(* ===== verification/Timers.thy ===== *)
theory Timers
  imports Chat_History
begin

section \<open>One-shot timers\<close>

text \<open>
  Models \<open>utils/timers.py\<close>. A timer is a chat whose row has a due time and whose metadata holds a status; the
  scheduler of each server claims due timers, and a task executes each claim: it posts the timer's prompt into
  the parent chat, or puts the timer back while the parent is busy. The functions are translated one by one;
  a relation then interleaves their database transactions with those of other requests.

  A transaction is atomic. Only the columns of the chat table that timers use are kept, and an empty
  dictionary stands for a null column too. Arguments stand for what comes from elsewhere: fresh ids
  (\<open>uuid4\<close>), the clock, the reading of an absolute time stamp (\<open>datetime.fromisoformat\<close> after the
  RFC 3339 pattern), the message stored under an id. The completion that runs at the end, and the event sent to
  the browser, are not modelled beyond the request they are given.
\<close>

subsection \<open>Text stored in the database\<close>

text \<open>No character up to 255 is a surrogate; the fast paths return the text when there is nothing to strip.\<close>

definition sanitize_text_for_db :: "string \<Rightarrow> string" where
  "sanitize_text_for_db text = filter (\<lambda>c. c \<noteq> CHR 0x00) text"

fun strip_null_bytes_deep :: "pyval \<Rightarrow> pyval" where
  "strip_null_bytes_deep (PStr s) = PStr (sanitize_text_for_db s)"
| "strip_null_bytes_deep (PList xs) = PList (map strip_null_bytes_deep xs)"
| "strip_null_bytes_deep (PDict d) =
     PDict (dmerge [] (map (\<lambda>(k, v). (sanitize_text_for_db k, strip_null_bytes_deep v)) d))"
| "strip_null_bytes_deep v = v"

definition sanitize_data_for_db :: "pyval \<Rightarrow> pyval" where
  "sanitize_data_for_db = strip_null_bytes_deep"

subsection \<open>When a timer is due\<close>

definition is_digit :: "char \<Rightarrow> bool" where
  "is_digit c = (let n = of_char c :: nat in 48 \<le> n \<and> n \<le> 57)"

definition digits_value :: "string \<Rightarrow> int" where
  "digits_value s = foldl (\<lambda>n c. n * 10 + (of_char c - 48)) 0 s"

definition SECOND_NS :: int where
  "SECOND_NS = 1000000000"

definition TIME_UNITS_NS :: "(string \<times> int) list" where
  "TIME_UNITS_NS =
     map (\<lambda>u. (u, SECOND_NS)) [''s'', ''sec'', ''second'', ''seconds''] @
     map (\<lambda>u. (u, 60 * SECOND_NS)) [''m'', ''min'', ''minute'', ''minutes''] @
     map (\<lambda>u. (u, 60 * 60 * SECOND_NS)) [''h'', ''hour'', ''hours''] @
     map (\<lambda>u. (u, 24 * 60 * 60 * SECOND_NS)) [''d'', ''day'', ''days'']"

text \<open>The relative form: an optional \<open>+\<close> or \<open>in \<close>, digits, spaces, a unit. The number and the unit's length.\<close>

definition relative_prefix :: "string \<Rightarrow> string" where
  "relative_prefix s =
     (if starts_with s ''+'' then tl s
      else if starts_with s ''in'' \<and> dropWhile is_space_char (drop 2 s) \<noteq> drop 2 s
      then dropWhile is_space_char (drop 2 s) else s)"

definition relative_time :: "string \<Rightarrow> (int \<times> int) option" where
  "relative_time raw =
     (let s = relative_prefix raw;
          digits = takeWhile is_digit s;
          unit = dropWhile is_space_char (dropWhile is_digit s)
      in if digits = [] then None
         else map_option (\<lambda>ns. (digits_value digits, ns)) (map_of TIME_UNITS_NS unit))"

text \<open>An absolute time is read by the argument, which gives the nanoseconds or the message of its error.\<close>

definition parse_timer_at :: "(string \<Rightarrow> string + int) \<Rightarrow> int \<Rightarrow> string \<Rightarrow> string + int" where
  "parse_timer_at absolute now at =
     (let raw = str_strip at
      in case relative_time (str_lower raw) of
           Some (count, ns) \<Rightarrow>
             if count \<le> 0 then Inl ''at must be in the future.'' else Inr (now + count * ns)
         | None \<Rightarrow> rbind (absolute raw) (\<lambda>due_at.
             if due_at \<le> now then Inl ''at must be in the future.'' else Inr due_at))"

subsection \<open>Creating a timer\<close>

record timer_row =
  ch_id :: string
  ch_user :: string
  ch_title :: string
  ch_chat :: pydict
  ch_meta :: pydict
  ch_timer_at :: "int option"
  ch_updated :: int

definition timer_run :: "pydict \<Rightarrow> pyval \<Rightarrow> pydict" where
  "timer_run metadata model_id =
     [(''model_id'', model_id), (''session_id'', dget metadata ''session_id''),
      (''tool_ids'', py_or (dget metadata ''tool_ids'') (PList [])),
      (''skill_ids'', py_or (dget metadata ''skill_ids'') (PList [])),
      (''system_prompt'', dget metadata ''system_prompt''),
      (''filter_ids'', py_or (dget metadata ''filter_ids'') (PList [])),
      (''terminal_id'', dget metadata ''terminal_id''),
      (''features'', py_or (dget metadata ''features'') (PDict [])),
      (''files'', py_or (dget metadata ''files'') (PList [])),
      (''variables'', py_or (dget metadata ''variables'') (PDict []))]"

definition timer_chat :: "string \<Rightarrow> string \<Rightarrow> string \<Rightarrow> pyval \<Rightarrow> int \<Rightarrow> pydict" where
  "timer_chat chat_id user_message_id prompt model_id now_s =
     [(''id'', PStr chat_id), (''title'', PStr (''Timer: '' @ take 60 prompt)), (''models'', PList [model_id]),
      (''history'', PDict
        [(''currentId'', PStr user_message_id),
         (''messages'', PDict [(user_message_id, PDict
            [(''id'', PStr user_message_id), (''parentId'', PNone), (''childrenIds'', PList []), (''role'', PStr ''user''),
             (''content'', PStr prompt), (''timestamp'', PInt now_s), (''models'', PList [model_id])])])]),
      (''messages'', PList [PDict [(''role'', PStr ''user''), (''content'', PStr prompt)]])]"

definition timer_meta :: "string \<Rightarrow> pyval \<Rightarrow> int \<Rightarrow> pyval \<Rightarrow> string \<Rightarrow> string list \<Rightarrow> pydict \<Rightarrow> pydict" where
  "timer_meta parent_chat_id parent_message_id due_at model_id user_message_id selected_events run =
     [(''internal'', PBool True), (''type'', PStr ''timer''), (''parent_chat_id'', PStr parent_chat_id),
      (''parent_message_id'', parent_message_id), (''timer_at'', PInt due_at), (''status'', PStr ''pending''),
      (''timer_model_id'', model_id), (''timer_task_message_id'', PStr user_message_id),
      (''cancel_on'', PList (map PStr selected_events)), (''run'', PDict run)]"

text \<open>The row that \<open>Chats.insert_new_chat\<close> stores for it.\<close>

definition insert_timer_chat :: "string \<Rightarrow> string \<Rightarrow> pydict \<Rightarrow> pydict \<Rightarrow> int \<Rightarrow> int \<Rightarrow> timer_row" where
  "insert_timer_chat chat_id user_id chat internal_meta timer_at now_s =
     \<lparr>ch_id = chat_id, ch_user = user_id,
      ch_title = (case dget chat ''title'' of PStr t \<Rightarrow> sanitize_text_for_db t | _ \<Rightarrow> ''New Chat''),
      ch_chat = (case sanitize_data_for_db (PDict chat) of PDict c \<Rightarrow> c | _ \<Rightarrow> []),
      ch_meta = internal_meta, ch_timer_at = Some timer_at, ch_updated = now_s\<rparr>"

definition allowed_events :: "string list" where
  "allowed_events = [''chat.read'', ''chat.user_message'']"

record timer_request =
  tr_prompt :: string
  tr_at :: string
  tr_cancel_on :: "string list"
  tr_user_id :: string
  tr_metadata :: pydict
  tr_parent_chat_id :: string
  tr_parent_message_id :: pyval

text \<open>The stored row, or the text of the error the tool reports; \<open>list(dict.fromkeys(xs))\<close> keeps first occurrences.\<close>

definition create_timer ::
    "(string \<Rightarrow> string + int) \<Rightarrow> int \<Rightarrow> int \<Rightarrow> string \<Rightarrow> string \<Rightarrow> timer_request \<Rightarrow> (string + timer_row) result"
where
  "create_timer absolute now now_s chat_id user_message_id req =
     (let prompt = str_strip (tr_prompt req); metadata = tr_metadata req
      in if prompt = [] then Inr (Inl ''Error: prompt must not be empty.'')
         else if tr_parent_chat_id req = [] \<or> tr_user_id req = []
         then Inr (Inl ''Error: chat and user context are required.'')
         else case parse_timer_at absolute now (tr_at req) of
           Inl e \<Rightarrow> Inr (Inl (''Error: '' @ e))
         | Inr due_at \<Rightarrow>
           if \<not> set (tr_cancel_on req) \<subseteq> set allowed_events
           then Inr (Inl ''Error: cancel_on accepts only chat.read and chat.user_message.'')
           else rbind (if truthy (dget metadata ''model_id'') then Inr (dget metadata ''model_id'')
                       else py_get (py_or (dget metadata ''model'') (PDict [])) ''id'' PNone) (\<lambda>model_id.
             if \<not> truthy model_id then Inr (Inl ''Error: model context is required.'')
             else if truthy (dget metadata ''direct'')
             then Inr (Inl ''Error: timers are unavailable for direct connections.'')
             else Inr (Inr (insert_timer_chat chat_id (tr_user_id req)
                    (timer_chat chat_id user_message_id prompt model_id now_s)
                    (timer_meta (tr_parent_chat_id req) (tr_parent_message_id req) due_at model_id user_message_id
                       (rev (remdups (rev (tr_cancel_on req)))) (timer_run metadata model_id))
                    due_at now_s))))"

subsection \<open>Claiming and cancelling\<close>

definition status_is :: "timer_row \<Rightarrow> string \<Rightarrow> bool" where
  "status_is row status = (dget (ch_meta row) ''status'' = PStr status)"

definition due_timers :: "int \<Rightarrow> nat \<Rightarrow> timer_row list \<Rightarrow> timer_row list" where
  "due_timers now_ns limit rows =
     take limit (sort_key (\<lambda>r. the (ch_timer_at r))
       (filter (\<lambda>r. (case ch_timer_at r of None \<Rightarrow> False | Some t \<Rightarrow> t \<le> now_ns) \<and> status_is r ''pending'') rows))"

definition claim_row :: "int \<Rightarrow> int \<Rightarrow> string \<Rightarrow> timer_row \<Rightarrow> timer_row" where
  "claim_row now_ns now_s claim_id row =
     row\<lparr>ch_meta := dset ''timer_claim_id'' (PStr claim_id) (dset ''timer_started_at'' (PInt now_ns)
           (dset ''status'' (PStr ''running'') (ch_meta row))),
         ch_timer_at := None, ch_updated := now_s\<rparr>"

text \<open>\<open>claim_id\<close> gives the fresh id that each claimed row gets.\<close>

definition claim_due_timers ::
    "int \<Rightarrow> int \<Rightarrow> nat \<Rightarrow> (string \<Rightarrow> string) \<Rightarrow> timer_row list \<Rightarrow> timer_row list \<times> (string \<times> string) list"
where
  "claim_due_timers now_ns now_s limit claim_id rows =
     (let claimed = map ch_id (due_timers now_ns limit rows)
      in (sql_update (\<lambda>r. ch_id r \<in> set claimed) (\<lambda>r. claim_row now_ns now_s (claim_id (ch_id r)) r) rows,
          map (\<lambda>t. (t, claim_id t)) claimed))"

definition cancels :: "string \<Rightarrow> string \<Rightarrow> string \<Rightarrow> timer_row \<Rightarrow> bool" where
  "cancels parent_chat_id event user_id row =
     (ch_timer_at row \<noteq> None \<and> ch_user row = user_id \<and>
      dget (ch_meta row) ''parent_chat_id'' = PStr parent_chat_id \<and> status_is row ''pending'' \<and>
      (case dget (ch_meta row) ''cancel_on'' of PList es \<Rightarrow> PStr event \<in> set es | _ \<Rightarrow> False))"

definition cancel_row :: "int \<Rightarrow> int \<Rightarrow> string \<Rightarrow> timer_row \<Rightarrow> timer_row" where
  "cancel_row now_ns now_s event row =
     row\<lparr>ch_meta := dset ''timer_cancelled_by'' (PStr event) (dset ''timer_cancelled_at'' (PInt now_ns)
           (dset ''status'' (PStr ''cancelled'') (ch_meta row))),
         ch_timer_at := None, ch_updated := now_s\<rparr>"

definition cancel_timers_for_chat ::
    "string \<Rightarrow> string \<Rightarrow> string \<Rightarrow> int \<Rightarrow> int \<Rightarrow> timer_row list \<Rightarrow> timer_row list"
where
  "cancel_timers_for_chat parent_chat_id event user_id now_ns now_s rows =
     sql_update (cancels parent_chat_id event user_id) (cancel_row now_ns now_s event) rows"

definition set_timer_state :: "string \<Rightarrow> string \<Rightarrow> pydict \<Rightarrow> int \<Rightarrow> timer_row list \<Rightarrow> timer_row list" where
  "set_timer_state timer_id status extra now_s rows =
     sql_update (\<lambda>r. ch_id r = timer_id)
       (\<lambda>r. r\<lparr>ch_meta := dmerge (dset ''status'' (PStr status) (ch_meta r)) extra, ch_updated := now_s\<rparr>) rows"

subsection \<open>Executing a claim\<close>

text \<open>The first checks: the owner and the metadata of the timer, when it still runs under this claim.\<close>

definition start_timer :: "string \<Rightarrow> string option \<Rightarrow> timer_row list \<Rightarrow> (string \<times> pydict) option" where
  "start_timer timer_id claim_id rows =
     (case find (\<lambda>r. ch_id r = timer_id) rows of
        None \<Rightarrow> None
      | Some timer \<Rightarrow>
          if \<not> status_is timer ''running'' then None
          else if claim_id \<noteq> None \<and> dget (ch_meta timer) ''timer_claim_id'' \<noteq> PStr (the claim_id) then None
          else Some (ch_user timer, ch_meta timer))"

record timer_job =
  tj_timer :: string
  tj_user :: string
  tj_meta :: pydict
  tj_parent :: string
  tj_run :: pydict
  tj_model :: pyval
  tj_prompt :: pyval

definition prompt_text :: "(pyval \<Rightarrow> string) \<Rightarrow> pydict \<Rightarrow> pyval" where
  "prompt_text py_str prompt_message =
     (case py_or (dget prompt_message ''content'') (PStr []) of
        PList parts \<Rightarrow>
          PStr (concat (map (\<lambda>part. case part of
              PDict d \<Rightarrow> if dget d ''type'' = PStr ''text''
                then (case dget_or d ''text'' (PStr []) of PStr s \<Rightarrow> s | v \<Rightarrow> py_str v) else []
            | _ \<Rightarrow> []) parts))
      | content \<Rightarrow> content)"

text \<open>
  What the code looks up next: the parent chat, the stored prompt, the user, the model. \<open>Inl\<close> is the text
  that is recorded as the error.
\<close>

definition prepare_timer ::
    "(pyval \<Rightarrow> string) \<Rightarrow> timer_row list \<Rightarrow> string list \<Rightarrow> pydict \<Rightarrow> string \<Rightarrow> string \<Rightarrow> pydict \<Rightarrow> (string + timer_job) result"
where
  "prepare_timer py_str rows users prompt_message timer_id user_id meta =
     (case py_or (dget meta ''parent_chat_id'') (PStr []) of
        PStr parent_chat_id \<Rightarrow>
          if \<not> (\<exists>r \<in> set rows. ch_id r = parent_chat_id \<and> ch_user r = user_id)
          then Inr (Inl ''parent chat no longer exists'')
          else if prompt_message = [] then Inr (Inl ''timer task message is missing'')
          else if user_id \<notin> set users then Inr (Inl ''timer user no longer exists'')
          else (case py_or (dget meta ''run'') (PDict []) of
            PDict run \<Rightarrow>
              (let model_id = py_or (dget run ''model_id'') (dget meta ''timer_model_id'')
               in if \<not> truthy model_id then Inr (Inl ''model context is missing'')
                  else Inr (Inr \<lparr>tj_timer = timer_id, tj_user = user_id, tj_meta = meta, tj_parent = parent_chat_id,
                         tj_run = run, tj_model = model_id, tj_prompt = prompt_text py_str prompt_message\<rparr>))
          | _ \<Rightarrow> Inl AttributeError)
      | _ \<Rightarrow> Inr (Inl ''parent chat no longer exists''))"

subsection \<open>Posting the prompt into the parent chat\<close>

definition as_message :: "pyval \<Rightarrow> pydict result" where
  "as_message v = (case v of PDict d \<Rightarrow> Inr d | _ \<Rightarrow> Inl AttributeError)"

definition done_assistants :: "pydict \<Rightarrow> pydict list result" where
  "done_assistants messages =
     rbind (rmap as_message (map snd messages)) (\<lambda>ds.
       Inr (filter (\<lambda>d. dget d ''role'' = PStr ''assistant'' \<and> dget d ''done'' \<noteq> PBool False) ds))"

text \<open>The first message with the greatest time stamp, which has to be a number when there are several.\<close>

fun latest_from :: "pydict \<Rightarrow> pydict list \<Rightarrow> pydict result" where
  "latest_from best [] = Inr best"
| "latest_from best (d # ds) =
     rbind (py_int (dget_or best ''timestamp'' (PInt 0))) (\<lambda>a.
     rbind (py_int (dget_or d ''timestamp'' (PInt 0))) (\<lambda>b.
       latest_from (if b > a then d else best) ds))"

definition reply_parent_id :: "pydict \<Rightarrow> pyval \<Rightarrow> pyval result" where
  "reply_parent_id messages fallback =
     rbind (done_assistants messages) (\<lambda>ds.
       case ds of [] \<Rightarrow> Inr fallback | d # ds \<Rightarrow> rbind (latest_from d ds) (\<lambda>m. Inr (dget m ''id'')))"

text \<open>The child is appended to the list of its parent, if that is a message of the chat.\<close>

definition append_to_parent :: "pydict \<Rightarrow> pyval \<Rightarrow> string \<Rightarrow> pydict result" where
  "append_to_parent messages parent_id child_id =
     rbind (if truthy parent_id then key_find messages parent_id else Inr None) (\<lambda>parent.
       case (parent, parent_id) of
         (Some m, PStr p) \<Rightarrow>
           rbind (as_message m) (\<lambda>d.
           rbind (py_in child_id (dget_or d ''childrenIds'' (PList []))) (\<lambda>listed.
             if listed then Inr messages
             else (case dget_or d ''childrenIds'' (PList []) of
                     PList cs \<Rightarrow> Inr (dset p (PDict (dset ''childrenIds'' (PList (cs @ [PStr child_id])) d)) messages)
                   | _ \<Rightarrow> Inl AttributeError)))
       | _ \<Rightarrow> Inr messages)"

definition timer_user_message :: "string \<Rightarrow> string \<Rightarrow> int \<Rightarrow> timer_job \<Rightarrow> pyval \<Rightarrow> pydict" where
  "timer_user_message user_message_id assistant_message_id now_s job parent_id =
     [(''id'', PStr user_message_id), (''parentId'', parent_id), (''childrenIds'', PList [PStr assistant_message_id]),
      (''role'', PStr ''user''), (''content'', tj_prompt job), (''model'', tj_model job),
      (''meta'', PDict [(''internal'', PBool True), (''type'', PStr ''timer''), (''timer_id'', PStr (tj_timer job))]),
      (''timestamp'', PInt now_s)]"

definition pending_reply :: "string \<Rightarrow> string \<Rightarrow> int \<Rightarrow> pyval \<Rightarrow> pydict" where
  "pending_reply assistant_message_id user_message_id now_s model_id =
     [(''id'', PStr assistant_message_id), (''parentId'', PStr user_message_id), (''childrenIds'', PList []),
      (''role'', PStr ''assistant''), (''content'', PStr []), (''done'', PBool False), (''model'', model_id),
      (''timestamp'', PInt now_s)]"

record posted =
  po_chat :: pydict
  po_parent_id :: pyval
  po_message_list :: "pyval list"
  po_user_message :: pydict

definition post_prompt :: "string \<Rightarrow> string \<Rightarrow> int \<Rightarrow> timer_job \<Rightarrow> pydict \<Rightarrow> posted result" where
  "post_prompt user_message_id assistant_message_id now_s job chat =
     rbind (as_message (dget_or chat ''history'' (PDict []))) (\<lambda>history.
     rbind (as_message (dget_or history ''messages'' (PDict []))) (\<lambda>messages.
     rbind (reply_parent_id messages (dget (tj_meta job) ''parent_message_id'')) (\<lambda>parent_id.
     rbind (get_message_list messages parent_id) (\<lambda>message_list.
       (let user_message = timer_user_message user_message_id assistant_message_id now_s job parent_id;
            assistant_message = pending_reply assistant_message_id user_message_id now_s (tj_model job);
            added = dset assistant_message_id (PDict assistant_message) (dset user_message_id (PDict user_message) messages)
        in rbind (append_to_parent added parent_id user_message_id) (\<lambda>messages.
             Inr \<lparr>po_chat = dset ''history'' (PDict (dset ''currentId'' (PStr assistant_message_id)
                       (dset ''messages'' (PDict messages) history))) chat,
                  po_parent_id = parent_id, po_message_list = message_list, po_user_message = user_message\<rparr>))))))"

text \<open>The request that the completion gets.\<close>

definition timer_form_data :: "string \<Rightarrow> timer_job \<Rightarrow> posted \<Rightarrow> pydict" where
  "timer_form_data assistant_message_id job post =
     (let run = tj_run job;
          form_data =
            [(''model'', tj_model job),
             (''messages'', PList
               ((if truthy (dget run ''system_prompt'')
                 then [PDict [(''role'', PStr ''system''), (''content'', dget run ''system_prompt'')]] else []) @
                po_message_list post @
                [PDict [(''role'', PStr ''user''), (''content'', tj_prompt job)]])),
             (''stream'', PBool True), (''chat_id'', PStr (tj_parent job)), (''id'', PStr assistant_message_id),
             (''parent_id'', dget (po_user_message post) ''parentId''),
             (''user_message'', PDict (po_user_message post)),
             (''session_id'', py_or (dget run ''session_id'') (PStr (''timer:'' @ tj_parent job))),
             (''background_tasks'', PDict []),
             (''tool_ids'', py_or (dget run ''tool_ids'') (PList [])),
             (''skill_ids'', py_or (dget run ''skill_ids'') (PList [])),
             (''filter_ids'', py_or (dget run ''filter_ids'') (PList [])),
             (''features'', py_or (dget run ''features'') (PDict [])),
             (''files'', py_or (dget run ''files'') (PList [])),
             (''variables'', py_or (dget run ''variables'') (PDict []))]
      in if truthy (dget run ''terminal_id'') then dset ''terminal_id'' (dget run ''terminal_id'') form_data else form_data)"

text \<open>The transaction that ends the execution: the outcome and the new rows.\<close>

datatype outcome = Parent_Gone | Put_Back | Posted posted

definition put_back_row :: "int \<Rightarrow> timer_row \<Rightarrow> timer_row" where
  "put_back_row now_s row =
     row\<lparr>ch_meta := dset ''timer_started_at'' PNone (dset ''timer_claim_id'' PNone
           (dset ''status'' (PStr ''pending'') (ch_meta row))),
         ch_timer_at := (case dget (ch_meta row) ''timer_at'' of PInt t \<Rightarrow> Some t | _ \<Rightarrow> None), ch_updated := now_s\<rparr>"

definition complete_row :: "int \<Rightarrow> int \<Rightarrow> timer_row \<Rightarrow> timer_row" where
  "complete_row now_ns now_s row =
     row\<lparr>ch_meta := dset ''timer_completed_at'' (PInt now_ns) (dset ''status'' (PStr ''completed'') (ch_meta row)),
         ch_updated := now_s\<rparr>"

definition finish_timer ::
    "string \<Rightarrow> string \<Rightarrow> int \<Rightarrow> int \<Rightarrow> bool \<Rightarrow> timer_job \<Rightarrow> timer_row list \<Rightarrow> (outcome \<times> timer_row list) result"
where
  "finish_timer user_message_id assistant_message_id now_ns now_s active job rows =
     (let is_timer = (\<lambda>r. ch_id r = tj_timer job);
          is_parent = (\<lambda>r. ch_id r = tj_parent job \<and> ch_user r = tj_user job)
      in case find is_parent rows of
        None \<Rightarrow> Inr (Parent_Gone, set_timer_state (tj_timer job) ''error''
                     [(''timer_error'', PStr ''parent chat no longer exists'')] now_s rows)
      | Some parent \<Rightarrow>
          if active then Inr (Put_Back, sql_update is_timer (put_back_row now_s) rows)
          else rbind (post_prompt user_message_id assistant_message_id now_s job (ch_chat parent)) (\<lambda>post.
            Inr (Posted post, sql_update is_timer (complete_row now_ns now_s)
              (sql_update is_parent (\<lambda>r. r\<lparr>ch_chat := po_chat post, ch_updated := now_s\<rparr>) rows))))"

subsection \<open>The scheduler and the requests, interleaved\<close>

text \<open>
  An execution waits to start, has read its timer, has read all it needs, or runs the completion. Beside the
  rows and the users, the state records which ids were ever used for a chat (\<open>uuid4\<close> gives none of them again)
  and which timers were posted.
\<close>

datatype execution =
    Queued string string
  | Loaded string string pydict
  | Prepared timer_job
  | Completing string

fun exec_timer :: "execution \<Rightarrow> string" where
  "exec_timer (Queued t c) = t"
| "exec_timer (Loaded t u m) = t"
| "exec_timer (Prepared j) = tj_timer j"
| "exec_timer (Completing t) = t"

fun completing :: "execution \<Rightarrow> bool" where
  "completing (Completing t) = True"
| "completing _ = False"

record timer_state =
  ts_rows :: "timer_row list"
  ts_users :: "string list"
  ts_execs :: "execution list"
  ts_used :: "string list"
  ts_posted :: "string list"

definition live :: "timer_state \<Rightarrow> string list" where
  "live s = map exec_timer (filter (\<lambda>e. \<not> completing e) (ts_execs s))"

definition no_timers :: timer_state where
  "no_timers = \<lparr>ts_rows = [], ts_users = [], ts_execs = [], ts_used = [], ts_posted = []\<rparr>"

definition add_row :: "timer_row \<Rightarrow> timer_state \<Rightarrow> timer_state" where
  "add_row row s = s\<lparr>ts_rows := ts_rows s @ [row], ts_used := ch_id row # ts_used s\<rparr>"

definition claim_step :: "int \<Rightarrow> int \<Rightarrow> nat \<Rightarrow> (string \<Rightarrow> string) \<Rightarrow> timer_state \<Rightarrow> timer_state" where
  "claim_step now_ns now_s limit claim_id s =
     (case claim_due_timers now_ns now_s limit claim_id (ts_rows s) of
        (rows, claimed) \<Rightarrow> s\<lparr>ts_rows := rows, ts_execs := ts_execs s @ map (\<lambda>(t, c). Queued t c) claimed\<rparr>)"

text \<open>An execution goes on as \<open>es\<close>, or ends.\<close>

definition proceed :: "execution \<Rightarrow> execution list \<Rightarrow> timer_state \<Rightarrow> timer_state" where
  "proceed e es s = s\<lparr>ts_execs := remove1 e (ts_execs s) @ es\<rparr>"

definition load_step :: "string \<Rightarrow> string \<Rightarrow> timer_state \<Rightarrow> timer_state" where
  "load_step t c s =
     proceed (Queued t c)
       (case start_timer t (Some c) (ts_rows s) of None \<Rightarrow> [] | Some (u, m) \<Rightarrow> [Loaded t u m]) s"

definition prepare_step ::
    "(pyval \<Rightarrow> string) \<Rightarrow> pydict \<Rightarrow> int \<Rightarrow> string \<Rightarrow> string \<Rightarrow> pydict \<Rightarrow> timer_state \<Rightarrow> timer_state"
where
  "prepare_step py_str prompt_message now_s t u m s =
     (case prepare_timer py_str (ts_rows s) (ts_users s) prompt_message t u m of
        Inl _ \<Rightarrow> proceed (Loaded t u m) [] s
      | Inr (Inl e) \<Rightarrow> proceed (Loaded t u m) []
          (s\<lparr>ts_rows := set_timer_state t ''error'' [(''timer_error'', PStr e)] now_s (ts_rows s)\<rparr>)
      | Inr (Inr job) \<Rightarrow> proceed (Loaded t u m) [Prepared job] s)"

definition finish_step ::
    "string \<Rightarrow> string \<Rightarrow> int \<Rightarrow> int \<Rightarrow> bool \<Rightarrow> timer_job \<Rightarrow> timer_state \<Rightarrow> timer_state"
where
  "finish_step uid aid now_ns now_s active job s =
     (case finish_timer uid aid now_ns now_s active job (ts_rows s) of
        Inl _ \<Rightarrow> proceed (Prepared job) [] s
      | Inr (Posted post, rows) \<Rightarrow>
          proceed (Prepared job) [Completing (tj_timer job)]
            (s\<lparr>ts_rows := rows, ts_posted := tj_timer job # ts_posted s\<rparr>)
      | Inr (_, rows) \<Rightarrow> proceed (Prepared job) [] (s\<lparr>ts_rows := rows\<rparr>))"

text \<open>What other requests may change of a row: never the owner, the due time, the status or the stored due time.\<close>

definition same_timer :: "timer_row \<Rightarrow> timer_row \<Rightarrow> bool" where
  "same_timer r r' =
     (ch_id r' = ch_id r \<and> ch_user r' = ch_user r \<and> ch_timer_at r' = ch_timer_at r \<and>
      (\<forall>k \<in> {''status'', ''timer_claim_id'', ''timer_at''}. dget (ch_meta r') k = dget (ch_meta r) k))"

inductive timer_step :: "timer_state \<Rightarrow> timer_state \<Rightarrow> bool" where
  create: "create_timer absolute now now_s chat_id uid req = Inr (Inr row) \<Longrightarrow> chat_id \<notin> set (ts_used s) \<Longrightarrow>
    timer_step s (add_row row s)"
| claim: "timer_step s (claim_step now_ns now_s limit claim_id s)"
| cancel: "timer_step s (s\<lparr>ts_rows := cancel_timers_for_chat parent event user now_ns now_s (ts_rows s)\<rparr>)"
| load: "Queued t c \<in> set (ts_execs s) \<Longrightarrow> timer_step s (load_step t c s)"
| prepare: "Loaded t u m \<in> set (ts_execs s) \<Longrightarrow> timer_step s (prepare_step py_str prompt_message now_s t u m s)"
| finish: "Prepared job \<in> set (ts_execs s) \<Longrightarrow> timer_step s (finish_step uid aid now_ns now_s active job s)"
| completed: "Completing t \<in> set (ts_execs s) \<Longrightarrow> timer_step s (proceed (Completing t) [] s)"
| failed: "Completing t \<in> set (ts_execs s) \<Longrightarrow> timer_step s (proceed (Completing t) []
      (s\<lparr>ts_rows := set_timer_state t ''error'' [(''timer_error'', PStr e)] now_s (ts_rows s)\<rparr>))"
| crash: "e \<in> set (ts_execs s) \<Longrightarrow> timer_step s (proceed e [] s)"
| new_chat: "ch_id row \<notin> set (ts_used s) \<Longrightarrow> ch_timer_at row = None \<Longrightarrow> timer_step s (add_row row s)"
| change: "(\<And>r. r \<in> set (ts_rows s) \<Longrightarrow> same_timer r (f r)) \<Longrightarrow> timer_step s (s\<lparr>ts_rows := map f (ts_rows s)\<rparr>)"
| delete: "timer_step s (s\<lparr>ts_rows := sql_delete p (ts_rows s)\<rparr>)"
| users: "timer_step s (s\<lparr>ts_users := us\<rparr>)"

inductive timers_reachable :: "timer_state \<Rightarrow> bool" where
  start: "timers_reachable no_timers"
| step: "timers_reachable s \<Longrightarrow> timer_step s s' \<Longrightarrow> timers_reachable s'"

subsection \<open>The invariant\<close>

text \<open>What holds of a row, given the timers that execute and those that were posted.\<close>

definition row_ok :: "string set \<Rightarrow> string set \<Rightarrow> timer_row \<Rightarrow> bool" where
  "row_ok executing posted r =
     (if ch_id r \<in> posted
      then ch_timer_at r = None \<and> (status_is r ''completed'' \<or> status_is r ''error'')
      else if ch_id r \<in> executing
      then ch_timer_at r = None \<and> status_is r ''running'' \<and> (\<exists>t. dget (ch_meta r) ''timer_at'' = PInt t)
      else ch_timer_at r = None \<or>
        status_is r ''pending'' \<and> dget (ch_meta r) ''timer_at'' = PInt (the (ch_timer_at r)))"

definition timers_ok :: "timer_state \<Rightarrow> bool" where
  "timers_ok s =
     (distinct (map ch_id (ts_rows s)) \<and> distinct (live s) \<and> distinct (ts_posted s) \<and>
      set (live s) \<inter> set (ts_posted s) = {} \<and>
      exec_timer ` set (filter completing (ts_execs s)) \<subseteq> set (ts_posted s) \<and>
      ch_id ` set (ts_rows s) \<union> set (live s) \<union> set (ts_posted s) \<subseteq> set (ts_used s) \<and>
      (\<forall>r \<in> set (ts_rows s). row_ok (set (live s)) (set (ts_posted s)) r))"

lemma map_remove1: "distinct (map f xs) \<Longrightarrow> x \<in> set xs \<Longrightarrow> map f (remove1 x xs) = remove1 (f x) (map f xs)"
  by (induction xs) (auto simp: rev_image_eqI)

lemma live_proceed:
  assumes "e \<in> set (ts_execs s)" "distinct (live s)"
  shows "live (proceed e es s) =
    (if completing e then live s else remove1 (exec_timer e) (live s)) @ map exec_timer (filter (\<lambda>e. \<not> completing e) es)"
proof -
  let ?l = "filter (\<lambda>e. \<not> completing e) (ts_execs s)"
  have "map exec_timer (remove1 e ?l) = remove1 (exec_timer e) (map exec_timer ?l)" if "\<not> completing e"
    using assms that by (intro map_remove1) (auto simp: live_def)
  then show ?thesis by (auto simp: live_def proceed_def filter_remove1 remove1_idem)
qed

lemma proceed_fields [simp]:
  "ts_rows (proceed e es s) = ts_rows s" "ts_users (proceed e es s) = ts_users s"
  "ts_used (proceed e es s) = ts_used s" "ts_posted (proceed e es s) = ts_posted s"
  "ts_execs (proceed e es s) = remove1 e (ts_execs s) @ es"
  by (simp_all add: proceed_def)

lemma live_rows [simp]: "live (s\<lparr>ts_rows := rows\<rparr>) = live s"
  "live (s\<lparr>ts_users := us\<rparr>) = live s" "live (s\<lparr>ts_posted := ps\<rparr>) = live s" "live (add_row r s) = live s"
  by (simp_all add: live_def add_row_def)

lemma live_executing: "e \<in> set (ts_execs s) \<Longrightarrow> \<not> completing e \<Longrightarrow> exec_timer e \<in> set (live s)"
  by (auto simp: live_def)

lemma row_ok_other:
  "row_ok X P r \<Longrightarrow> ch_id r \<in> X' \<longleftrightarrow> ch_id r \<in> X \<Longrightarrow> ch_id r \<in> P' \<longleftrightarrow> ch_id r \<in> P \<Longrightarrow> row_ok X' P' r"
  by (simp add: row_ok_def split: if_splits)

lemma row_ok_same: "row_ok X P r \<Longrightarrow> same_timer r r' \<Longrightarrow> row_ok X P r'"
  by (simp add: row_ok_def same_timer_def status_is_def split: if_splits)

lemma row_ok_due:
  "row_ok X P r \<Longrightarrow> ch_timer_at r \<noteq> None \<Longrightarrow>
     ch_id r \<notin> X \<and> ch_id r \<notin> P \<and> (\<exists>t. dget (ch_meta r) ''timer_at'' = PInt t)"
  by (simp add: row_ok_def split: if_splits)

lemma row_ok_cancel: "row_ok X P r \<Longrightarrow> cancels c e u r \<Longrightarrow> row_ok X P (cancel_row n n' e r)"
  using row_ok_due [of X P r] by (subst row_ok_def) (simp add: cancels_def cancel_row_def)

lemma row_ok_claim:
  "row_ok X P r \<Longrightarrow> ch_timer_at r \<noteq> None \<Longrightarrow> row_ok (insert (ch_id r) X) P (claim_row n n' c r)"
  using row_ok_due [of X P r] by (subst row_ok_def) (simp add: claim_row_def status_is_def)

lemma row_ok_off: "row_ok X P r \<Longrightarrow> ch_id r \<in> X \<union> P \<Longrightarrow> ch_timer_at r = None"
  by (simp add: row_ok_def split: if_splits)

lemma row_ok_error:
  "row_ok X P r \<Longrightarrow> ch_id r \<in> X \<union> P \<Longrightarrow> ch_id r \<notin> X' \<Longrightarrow>
     row_ok X' P (r\<lparr>ch_meta := dmerge (dset ''status'' (PStr ''error'') (ch_meta r)) [(''timer_error'', v)], ch_updated := n\<rparr>)"
  using row_ok_off [of X P r] by (subst row_ok_def) (simp add: status_is_def)

lemma row_ok_put_back:
  "row_ok X P r \<Longrightarrow> ch_id r \<in> X \<Longrightarrow> ch_id r \<notin> P \<Longrightarrow> row_ok (X - {ch_id r}) P (put_back_row n r)"
  by (auto simp: row_ok_def put_back_row_def status_is_def)

lemma row_ok_complete:
  "row_ok X P r \<Longrightarrow> ch_id r \<in> X \<Longrightarrow> row_ok X' (insert (ch_id r) P) (complete_row n n' r)"
  using row_ok_off [of X P r] by (subst row_ok_def) (simp add: complete_row_def status_is_def)

lemma row_ok_chat [simp]: "row_ok X P (r\<lparr>ch_chat := c, ch_updated := n\<rparr>) \<longleftrightarrow> row_ok X P r"
  by (simp add: row_ok_def status_is_def split: if_splits)

text \<open>An update of rows that keeps their ids.\<close>

lemma ids_update:
  assumes "\<And>r. ch_id (f r) = ch_id r"
  shows "map ch_id (sql_update p f rows) = map ch_id rows" "ch_id ` set (sql_update p f rows) = ch_id ` set rows"
  using map_sql_update [of ch_id f, OF assms] image_sql_update [of ch_id f, OF assms] by blast+

lemma claim_ids: "map ch_id (fst (claim_due_timers n n' l c rows)) = map ch_id rows"
  unfolding claim_due_timers_def Let_def fst_conv by (rule ids_update) (simp add: claim_row_def)

lemma timer_state_ids:
  "map ch_id (set_timer_state t st ex n rows) = map ch_id rows"
  "map ch_id (cancel_timers_for_chat c e u n n' rows) = map ch_id rows"
  unfolding set_timer_state_def cancel_timers_for_chat_def
  by (rule ids_update(1), simp add: cancel_row_def)+

subsection \<open>Every step keeps it\<close>

lemma timers_okI:
  assumes "distinct (map ch_id (ts_rows s))" "distinct (live s)" "distinct (ts_posted s)"
    "set (live s) \<inter> set (ts_posted s) = {}" "exec_timer ` set (filter completing (ts_execs s)) \<subseteq> set (ts_posted s)"
    "ch_id ` set (ts_rows s) \<union> set (live s) \<union> set (ts_posted s) \<subseteq> set (ts_used s)"
    "\<And>r. r \<in> set (ts_rows s) \<Longrightarrow> row_ok (set (live s)) (set (ts_posted s)) r"
  shows "timers_ok s"
  using assms by (simp add: timers_ok_def)

lemma set_due_timers:
  "r \<in> set (due_timers n l rows) \<Longrightarrow> r \<in> set rows \<and> ch_timer_at r \<noteq> None \<and> status_is r ''pending''"
  unfolding due_timers_def by (auto dest!: in_set_takeD split: option.splits)

lemma claim_keeps: "timers_ok s \<Longrightarrow> timers_ok (claim_step n n' l c s)"
proof -
  assume ok: "timers_ok s"
  let ?rows = "ts_rows s" and ?due = "due_timers n l (ts_rows s)"
  let ?s = "claim_step n n' l c s"
  let ?ids = "map ch_id ?due"
  have s: "ts_rows ?s = fst (claim_due_timers n n' l c ?rows)" "ts_posted ?s = ts_posted s" "ts_used ?s = ts_used s"
    "ts_execs ?s = ts_execs s @ map (\<lambda>(t, c). Queued t c) (snd (claim_due_timers n n' l c ?rows))"
    by (simp_all add: claim_step_def split: prod.splits)
  have live: "live ?s = live s @ ?ids"
    by (simp add: live_def s claim_due_timers_def Let_def filter_map comp_def)
  have compl: "filter completing (ts_execs ?s) = filter completing (ts_execs s)"
    by (simp add: s claim_due_timers_def Let_def filter_map comp_def)
  have due: "r \<in> set ?rows \<and> ch_timer_at r \<noteq> None \<and> ch_id r \<notin> set (live s) \<and> ch_id r \<notin> set (ts_posted s)"
    if "r \<in> set ?due" for r
  proof -
    note d = set_due_timers [OF that]
    with ok have "row_ok (set (live s)) (set (ts_posted s)) r" by (simp add: timers_ok_def)
    with d row_ok_due show ?thesis by blast
  qed
  have dist: "distinct ?ids"
  proof -
    have "distinct (map ch_id ?rows)" using ok by (simp add: timers_ok_def)
    then have "distinct ?rows" "inj_on ch_id (set ?rows)" by (simp_all add: distinct_map)
    moreover have "distinct ?due" using \<open>distinct ?rows\<close> by (simp add: due_timers_def)
    ultimately show ?thesis using due by (auto simp: distinct_map inj_on_def)
  qed
  show ?thesis
  proof (rule timers_okI)
    show "distinct (map ch_id (ts_rows ?s))" using ok by (simp add: s claim_ids timers_ok_def)
    show "distinct (live ?s)" using ok dist due by (auto simp: live timers_ok_def)
    show "distinct (ts_posted ?s)" using ok by (simp add: s timers_ok_def)
    show "set (live ?s) \<inter> set (ts_posted ?s) = {}" using ok due by (auto simp: live s timers_ok_def)
    show "exec_timer ` set (filter completing (ts_execs ?s)) \<subseteq> set (ts_posted ?s)"
      using ok unfolding compl s(2) by (simp add: timers_ok_def)
    have "ch_id ` set (ts_rows ?s) = ch_id ` set ?rows" by (metis s(1) claim_ids set_map)
    then show "ch_id ` set (ts_rows ?s) \<union> set (live ?s) \<union> set (ts_posted ?s) \<subseteq> set (ts_used ?s)"
      using ok due by (auto simp: live s timers_ok_def)
    fix r assume "r \<in> set (ts_rows ?s)"
    then obtain r0 where r0: "r0 \<in> set ?rows"
      "r = (if ch_id r0 \<in> set ?ids then claim_row n n' (c (ch_id r0)) r0 else r0)"
      by (auto simp: s claim_due_timers_def Let_def sql_update_def)
    have ok0: "row_ok (set (live s)) (set (ts_posted s)) r0" using ok r0(1) by (simp add: timers_ok_def)
    show "row_ok (set (live ?s)) (set (ts_posted ?s)) r"
    proof (cases "ch_id r0 \<in> set ?ids")
      case True
      then obtain d where d: "d \<in> set ?due" "ch_id d = ch_id r0" by auto
      have "d = r0"
        using due [OF d(1)] r0(1) d(2) ok by (auto simp: timers_ok_def distinct_map dest: inj_onD)
      then have "row_ok (insert (ch_id r0) (set (live s))) (set (ts_posted s)) r"
        using row_ok_claim [OF ok0] due [OF d(1)] r0(2) True by simp
      then show ?thesis
        by (rule row_ok_other) (use True r0(2) in \<open>auto simp: live s claim_row_def\<close>)
    next
      case False
      then show ?thesis using r0(2) row_ok_other [OF ok0] by (auto simp: live s)
    qed
  qed
qed

text \<open>An execution that ends without posting, goes on, or posts.\<close>

definition leaves :: "execution \<Rightarrow> string set" where
  "leaves e = (if completing e then {} else {exec_timer e})"

lemma drop_ok:
  assumes ok: "timers_ok s" and e: "e \<in> set (ts_execs s)" and ids: "map ch_id rows = map ch_id (ts_rows s)"
    and rows: "\<And>r. r \<in> set rows \<Longrightarrow> row_ok (set (live s) - leaves e) (set (ts_posted s)) r"
  shows "timers_ok (proceed e [] (s\<lparr>ts_rows := rows\<rparr>))"
proof -
  have d: "distinct (live s)" using ok by (simp add: timers_ok_def)
  have "live (proceed e [] (s\<lparr>ts_rows := rows\<rparr>)) = (if completing e then live s else remove1 (exec_timer e) (live s))"
    using live_proceed [of e "s\<lparr>ts_rows := rows\<rparr>" "[]"] e d by simp
  then have l: "distinct (live (proceed e [] (s\<lparr>ts_rows := rows\<rparr>)))"
    "set (live (proceed e [] (s\<lparr>ts_rows := rows\<rparr>))) = set (live s) - leaves e"
    using d by (auto simp: leaves_def)
  have i: "ch_id ` set rows = ch_id ` set (ts_rows s)" using ids by (metis set_map)
  show ?thesis
  proof (rule timers_okI)
    show "exec_timer ` set (filter completing (ts_execs (proceed e [] (s\<lparr>ts_rows := rows\<rparr>)))) \<subseteq>
        set (ts_posted (proceed e [] (s\<lparr>ts_rows := rows\<rparr>)))"
      using ok set_remove1_subset [of e "ts_execs s"] by (auto simp: timers_ok_def)
  qed (use ok ids l i rows in \<open>auto simp: timers_ok_def\<close>)
qed

lemma go_on_ok:
  assumes ok: "timers_ok s" and e: "e \<in> set (ts_execs s)"
    and e': "\<not> completing e" "\<not> completing e'" "exec_timer e' = exec_timer e"
  shows "timers_ok (proceed e [e'] s)"
proof -
  have d: "distinct (live s)" using ok by (simp add: timers_ok_def)
  have t: "exec_timer e \<in> set (live s)" using e e'(1) by (rule live_executing)
  have "live (proceed e [e'] s) = remove1 (exec_timer e) (live s) @ [exec_timer e]"
    using live_proceed [OF e d, of "[e']"] e' by simp
  then have l: "distinct (live (proceed e [e'] s))" "set (live (proceed e [e'] s)) = set (live s)"
    using d t by auto
  show ?thesis
  proof (rule timers_okI)
    show "exec_timer ` set (filter completing (ts_execs (proceed e [e'] s))) \<subseteq> set (ts_posted (proceed e [e'] s))"
      using ok e'(2) set_remove1_subset [of e "ts_execs s"] by (auto simp: timers_ok_def)
  qed (use ok l in \<open>auto simp: timers_ok_def\<close>)
qed

lemma post_ok:
  assumes ok: "timers_ok s" and e: "e \<in> set (ts_execs s)" "\<not> completing e"
    and ids: "map ch_id rows = map ch_id (ts_rows s)"
    and rows: "\<And>r. r \<in> set rows \<Longrightarrow>
      row_ok (set (live s) - {exec_timer e}) (insert (exec_timer e) (set (ts_posted s))) r"
  shows "timers_ok (proceed e [Completing (exec_timer e)]
     (s\<lparr>ts_rows := rows, ts_posted := exec_timer e # ts_posted s\<rparr>))" (is "timers_ok ?s")
proof -
  have d: "distinct (live s)" using ok by (simp add: timers_ok_def)
  have t: "exec_timer e \<in> set (live s)" using e by (rule live_executing)
  have "live ?s = remove1 (exec_timer e) (live s)"
    using live_proceed [of e "s\<lparr>ts_rows := rows, ts_posted := exec_timer e # ts_posted s\<rparr>" "[Completing (exec_timer e)]"] e d
    by (simp add: live_def)
  then have l: "distinct (live ?s)" "set (live ?s) = set (live s) - {exec_timer e}" using d by auto
  have i: "ch_id ` set rows = ch_id ` set (ts_rows s)" using ids by (metis set_map)
  show ?thesis
  proof (rule timers_okI)
    show "exec_timer ` set (filter completing (ts_execs ?s)) \<subseteq> set (ts_posted ?s)"
      using ok set_remove1_subset [of e "ts_execs s"] by (auto simp: timers_ok_def)
  qed (use ok ids l i rows t in \<open>auto simp: timers_ok_def\<close>)
qed

lemma row_ok_drop: "row_ok X P r \<Longrightarrow> row_ok (X - Y) P r"
  by (simp add: row_ok_def split: if_splits)

lemma crash_ok: "timers_ok s \<Longrightarrow> e \<in> set (ts_execs s) \<Longrightarrow> timers_ok (proceed e [] s)"
  using drop_ok [of s e "ts_rows s"] row_ok_drop by (simp add: timers_ok_def [of s])

lemma error_ok:
  assumes ok: "timers_ok s" and e: "e \<in> set (ts_execs s)"
  shows "timers_ok (proceed e [] (s\<lparr>ts_rows := set_timer_state (exec_timer e) ''error'' [(''timer_error'', v)] n (ts_rows s)\<rparr>))"
proof (rule drop_ok [OF ok e timer_state_ids(1)])
  fix r assume "r \<in> set (set_timer_state (exec_timer e) ''error'' [(''timer_error'', v)] n (ts_rows s))"
  then obtain r0 where r0: "r0 \<in> set (ts_rows s)" and r: "r = (if ch_id r0 = exec_timer e
      then r0\<lparr>ch_meta := dmerge (dset ''status'' (PStr ''error'') (ch_meta r0)) [(''timer_error'', v)], ch_updated := n\<rparr>
      else r0)"
    by (auto simp: set_timer_state_def sql_update_def)
  have ok0: "row_ok (set (live s)) (set (ts_posted s)) r0" using ok r0 by (simp add: timers_ok_def)
  have t: "exec_timer e \<in> set (live s) \<union> set (ts_posted s)"
    using ok e live_executing [OF e] by (cases "completing e") (auto simp: timers_ok_def)
  have out: "exec_timer e \<notin> set (live s) - leaves e"
    using ok e by (cases "completing e") (auto simp: timers_ok_def leaves_def)
  show "row_ok (set (live s) - leaves e) (set (ts_posted s)) r"
  proof (cases "ch_id r0 = exec_timer e")
    case True
    with r row_ok_error [OF ok0] t out show ?thesis by simp
  next
    case False
    with r row_ok_drop [OF ok0] show ?thesis by simp
  qed
qed

lemma load_ok:
  assumes "timers_ok s" "Queued t c \<in> set (ts_execs s)"
  shows "timers_ok (load_step t c s)"
proof (cases "start_timer t (Some c) (ts_rows s)")
  case None
  with crash_ok [OF assms] show ?thesis by (simp add: load_step_def)
next
  case (Some um)
  then obtain u m where "start_timer t (Some c) (ts_rows s) = Some (u, m)" by (cases um) auto
  moreover have "timers_ok (proceed (Queued t c) [Loaded t u m] s)"
    by (rule go_on_ok [OF assms]) simp_all
  ultimately show ?thesis by (simp add: load_step_def)
qed

lemma prepare_job:
  "prepare_timer py_str rows users pm t u m = Inr (Inr job) \<Longrightarrow> tj_timer job = t"
  by (auto simp: prepare_timer_def Let_def split: pyval.splits if_splits)

lemma prepare_ok:
  assumes "timers_ok s" "Loaded t u m \<in> set (ts_execs s)"
  shows "timers_ok (prepare_step py_str pm n t u m s)"
proof -
  let ?p = "prepare_timer py_str (ts_rows s) (ts_users s) pm t u m"
  consider (raised) x where "?p = Inl x" | (error) x where "?p = Inr (Inl x)" | (job) job where "?p = Inr (Inr job)"
    by (cases ?p; cases "projr ?p") auto
  then show ?thesis
  proof cases
    case raised
    with crash_ok [OF assms] show ?thesis by (simp add: prepare_step_def)
  next
    case error
    with error_ok [OF assms] show ?thesis by (simp add: prepare_step_def)
  next
    case job
    then have "timers_ok (proceed (Loaded t u m) [Prepared job] s)"
      using prepare_job [OF job] by (intro go_on_ok [OF assms]) simp_all
    with job show ?thesis by (simp add: prepare_step_def)
  qed
qed

lemma put_back_ok:
  assumes ok: "timers_ok s" and e: "Prepared job \<in> set (ts_execs s)"
  shows "timers_ok (proceed (Prepared job) []
    (s\<lparr>ts_rows := sql_update (\<lambda>r. ch_id r = tj_timer job) (put_back_row n) (ts_rows s)\<rparr>))"
proof (rule drop_ok [OF ok e])
  show "map ch_id (sql_update (\<lambda>r. ch_id r = tj_timer job) (put_back_row n) (ts_rows s)) = map ch_id (ts_rows s)"
    by (rule ids_update) (simp add: put_back_row_def)
  have t: "tj_timer job \<in> set (live s)" "tj_timer job \<notin> set (ts_posted s)"
    using live_executing [OF e] ok by (auto simp: timers_ok_def)
  fix r assume "r \<in> set (sql_update (\<lambda>r. ch_id r = tj_timer job) (put_back_row n) (ts_rows s))"
  then obtain r0 where r0: "r0 \<in> set (ts_rows s)" "r = (if ch_id r0 = tj_timer job then put_back_row n r0 else r0)"
    by (auto simp: sql_update_def)
  have ok0: "row_ok (set (live s)) (set (ts_posted s)) r0" using ok r0 by (simp add: timers_ok_def)
  show "row_ok (set (live s) - leaves (Prepared job)) (set (ts_posted s)) r"
  proof (cases "ch_id r0 = tj_timer job")
    case True
    with row_ok_put_back [OF ok0] t r0(2) show ?thesis by (simp add: leaves_def)
  next
    case False
    with row_ok_drop [OF ok0] r0(2) show ?thesis by simp
  qed
qed

lemma posted_ok:
  assumes ok: "timers_ok s" and e: "Prepared job \<in> set (ts_execs s)"
  shows "timers_ok (proceed (Prepared job) [Completing (tj_timer job)]
    (s\<lparr>ts_rows := sql_update (\<lambda>r. ch_id r = tj_timer job) (complete_row n n')
        (sql_update p (\<lambda>r. r\<lparr>ch_chat := c, ch_updated := n'\<rparr>) (ts_rows s)),
       ts_posted := tj_timer job # ts_posted s\<rparr>))"
proof -
  let ?chat = "\<lambda>r. r\<lparr>ch_chat := c, ch_updated := n'\<rparr>"
  let ?rows1 = "sql_update p ?chat (ts_rows s)"
  let ?rows = "sql_update (\<lambda>r. ch_id r = tj_timer job) (complete_row n n') ?rows1"
  have i: "map ch_id ?rows1 = map ch_id (ts_rows s)" by (rule ids_update) simp
  have ids: "map ch_id ?rows = map ch_id (ts_rows s)"
    using ids_update(1) [of "complete_row n n'" "\<lambda>r. ch_id r = tj_timer job" ?rows1] i by (simp add: complete_row_def)
  have t: "tj_timer job \<in> set (live s)" using live_executing [OF e] by simp
  have "row_ok (set (live s) - {tj_timer job}) (insert (tj_timer job) (set (ts_posted s))) r" if "r \<in> set ?rows" for r
  proof -
    from that obtain r0 where r0: "r0 \<in> set (ts_rows s)"
      "r = (let r1 = if p r0 then ?chat r0 else r0 in if ch_id r1 = tj_timer job then complete_row n n' r1 else r1)"
      by (auto simp: sql_update_def)
    let ?r1 = "if p r0 then ?chat r0 else r0"
    have ok1: "row_ok (set (live s)) (set (ts_posted s)) ?r1" using ok r0(1) by (simp add: timers_ok_def)
    show ?thesis
    proof (cases "ch_id ?r1 = tj_timer job")
      case True
      with row_ok_complete [OF ok1] t r0(2) show ?thesis by (simp add: Let_def)
    next
      case False
      with row_ok_other [OF ok1] r0(2) show ?thesis by (simp add: Let_def)
    qed
  qed
  from post_ok [OF ok e _ ids] this show ?thesis by simp
qed

lemma finish_ok:
  assumes ok: "timers_ok s" and e: "Prepared job \<in> set (ts_execs s)"
  shows "timers_ok (finish_step uid aid n n' active job s)"
proof -
  let ?f = "finish_timer uid aid n n' active job (ts_rows s)"
  consider (raised) x where "?f = Inl x"
    | (gone) "?f = Inr (Parent_Gone, set_timer_state (tj_timer job) ''error''
        [(''timer_error'', PStr ''parent chat no longer exists'')] n' (ts_rows s))"
    | (again) "?f = Inr (Put_Back, sql_update (\<lambda>r. ch_id r = tj_timer job) (put_back_row n') (ts_rows s))"
    | (post) post p where "?f = Inr (Posted post, sql_update (\<lambda>r. ch_id r = tj_timer job) (complete_row n n')
              (sql_update p (\<lambda>r. r\<lparr>ch_chat := po_chat post, ch_updated := n'\<rparr>) (ts_rows s)))"
    by (cases ?f) (auto simp: finish_timer_def Let_def rbind_Inr_iff split: option.splits if_splits)
  then show ?thesis
  proof cases
    case raised
    with crash_ok [OF assms] show ?thesis by (simp add: finish_step_def)
  next
    case gone
    with error_ok [OF assms] show ?thesis by (simp add: finish_step_def)
  next
    case again
    with put_back_ok [OF assms] show ?thesis by (simp add: finish_step_def)
  next
    case post
    with posted_ok [OF assms] show ?thesis by (simp add: finish_step_def)
  qed
qed

lemma add_row_ok:
  assumes ok: "timers_ok s" and fresh: "ch_id row \<notin> set (ts_used s)"
    and row: "ch_timer_at row = None \<or>
      status_is row ''pending'' \<and> dget (ch_meta row) ''timer_at'' = PInt (the (ch_timer_at row))"
  shows "timers_ok (add_row row s)"
proof -
  have n: "ch_id row \<notin> set (live s)" "ch_id row \<notin> set (ts_posted s)" "ch_id row \<notin> ch_id ` set (ts_rows s)"
    using ok fresh by (auto simp: timers_ok_def)
  then have "row_ok (set (live s)) (set (ts_posted s)) row" using row by (simp add: row_ok_def)
  with ok n show ?thesis by (auto simp: timers_ok_def add_row_def live_def)
qed

lemma create_row:
  assumes "create_timer absolute now now_s chat_id uid req = Inr (Inr row)"
  shows "ch_id row = chat_id" "status_is row ''pending''" "ch_timer_at row \<noteq> None"
    "dget (ch_meta row) ''timer_at'' = PInt (the (ch_timer_at row))"
  using assms
  by (auto simp: create_timer_def Let_def rbind_Inr_iff insert_timer_chat_def timer_meta_def status_is_def
      split: if_splits sum.splits)

lemma timer_step_ok: "timer_step s s' \<Longrightarrow> timers_ok s \<Longrightarrow> timers_ok s'"
proof (induction rule: timer_step.induct)
  case (create absolute now now_s chat_id uid req row s)
  note c = create_row [OF create(1)]
  show ?case by (rule add_row_ok [OF create(3)]) (use c create(2) in auto)
next
  case (cancel s parent event user now_ns now_s)
  let ?rows = "cancel_timers_for_chat parent event user now_ns now_s (ts_rows s)"
  have ids: "map ch_id ?rows = map ch_id (ts_rows s)" by (rule timer_state_ids)
  then have i: "ch_id ` set ?rows = ch_id ` set (ts_rows s)" by (metis set_map)
  have "row_ok (set (live s)) (set (ts_posted s)) r" if "r \<in> set ?rows" for r
    using cancel that row_ok_cancel by (auto simp: cancel_timers_for_chat_def sql_update_def timers_ok_def)
  then show ?case using cancel ids i by (intro timers_okI) (auto simp: timers_ok_def)
next
  case (new_chat row s)
  then show ?case by (intro add_row_ok) auto
next
  case (change s f)
  have "map ch_id (map f (ts_rows s)) = map ch_id (ts_rows s)" using change(1) by (simp add: same_timer_def)
  then have i: "distinct (map ch_id (map f (ts_rows s)))" "ch_id ` set (map f (ts_rows s)) = ch_id ` set (ts_rows s)"
    using change(2) by (simp_all add: timers_ok_def del: map_map) (metis set_map)
  have "row_ok (set (live s)) (set (ts_posted s)) r" if "r \<in> set (map f (ts_rows s))" for r
    using that change row_ok_same by (auto simp: timers_ok_def)
  with i change(2) show ?case by (intro timers_okI) (simp_all add: timers_ok_def del: set_map)
next
  case (delete s p)
  then show ?case by (auto simp: timers_ok_def distinct_map_sql_delete)
next
  case (users s us)
  then show ?case by (simp add: timers_ok_def)
qed (auto intro: claim_keeps load_ok prepare_ok finish_ok error_ok [where e = "Completing t" for t, simplified]
    crash_ok)

lemma timers_reachable_ok: "timers_reachable s \<Longrightarrow> timers_ok s"
proof (induction rule: timers_reachable.induct)
  case start
  show ?case by (simp add: timers_ok_def no_timers_def live_def)
next
  case (step s s')
  then show ?case by (blast intro: timer_step_ok)
qed


definition sample_parent :: timer_row where
  "sample_parent = \<lparr>ch_id = ''p'', ch_user = ''u'', ch_title = ''Talk'', ch_chat = [], ch_meta = [], ch_timer_at = None,
     ch_updated = 0\<rparr>"

definition sample_request :: timer_request where
  "sample_request = \<lparr>tr_prompt = ''look again'', tr_at = ''in 10 s'', tr_cancel_on = [''chat.read''], tr_user_id = ''u'',
     tr_metadata = [(''model_id'', PStr ''m'')], tr_parent_chat_id = ''p'', tr_parent_message_id = PNone\<rparr>"

definition sample_timer :: timer_row where
  "sample_timer = (case create_timer (\<lambda>_. Inl []) 5 1 ''t'' ''q'' sample_request of Inr (Inr r) \<Rightarrow> r | _ \<Rightarrow> sample_parent)"

text \<open>A server claims the timer, reads it, and posts it; the second state is the one after the claim.\<close>

definition claimed_sample :: timer_state where
  "claimed_sample = claim_step 10000000005 11 10 (\<lambda>_. ''c'')
     (add_row sample_timer (add_row sample_parent (no_timers\<lparr>ts_users := [''u'']\<rparr>)))"

definition sample_job :: timer_job where
  "sample_job = \<lparr>tj_timer = ''t'', tj_user = ''u'', tj_meta = ch_meta (claim_row 10000000005 11 ''c'' sample_timer), tj_parent = ''p'',
     tj_run = timer_run [(''model_id'', PStr ''m'')] (PStr ''m''), tj_model = PStr ''m'', tj_prompt = PStr ''look again''\<rparr>"

definition prepared_sample :: timer_state where
  "prepared_sample = prepare_step (\<lambda>_. []) [(''content'', PStr ''look again'')] 11 ''t'' ''u''
     (ch_meta (claim_row 10000000005 11 ''c'' sample_timer)) (load_step ''t'' ''c'' claimed_sample)"

definition posted_sample :: timer_state where
  "posted_sample = finish_step ''x'' ''y'' 10000000006 11 False sample_job prepared_sample"

lemma claimed_sample_reachable: "timers_reachable claimed_sample"
proof -
  have "timers_reachable (no_timers\<lparr>ts_users := [''u'']\<rparr>)"
    by (rule timers_reachable.step [OF timers_reachable.start timer_step.users])
  from timers_reachable.step [OF this timer_step.new_chat, of sample_parent]
  have 1: "timers_reachable (add_row sample_parent (no_timers\<lparr>ts_users := [''u'']\<rparr>))"
    by (simp add: sample_parent_def no_timers_def)
  have "create_timer (\<lambda>_. Inl []) 5 1 ''t'' ''q'' sample_request = Inr (Inr sample_timer)" by code_simp
  from timers_reachable.step [OF 1 timer_step.create [OF this]]
  have "timers_reachable (add_row sample_timer (add_row sample_parent (no_timers\<lparr>ts_users := [''u'']\<rparr>)))"
    by (simp add: add_row_def no_timers_def sample_parent_def)
  from timers_reachable.step [OF this timer_step.claim] show ?thesis by (simp only: claimed_sample_def)
qed

lemma posted_sample_reachable: "timers_reachable posted_sample"
proof -
  let ?m = "ch_meta (claim_row 10000000005 11 ''c'' sample_timer)"
  have "Queued ''t'' ''c'' \<in> set (ts_execs claimed_sample)" by code_simp
  from timers_reachable.step [OF claimed_sample_reachable timer_step.load [OF this]]
  have 1: "timers_reachable (load_step ''t'' ''c'' claimed_sample)" .
  have "Loaded ''t'' ''u'' ?m \<in> set (ts_execs (load_step ''t'' ''c'' claimed_sample))" by code_simp
  from timers_reachable.step [OF 1 timer_step.prepare [OF this]]
  have 2: "timers_reachable prepared_sample" unfolding prepared_sample_def .
  have "Prepared sample_job \<in> set (ts_execs prepared_sample)" by code_simp
  from timers_reachable.step [OF 2 timer_step.finish [OF this]]
  show ?thesis unfolding posted_sample_def .
qed


subsection \<open>Timers nobody executes\<close>

text \<open>The timer has no due time and no task executes it.\<close>

definition idle :: "string \<Rightarrow> timer_state \<Rightarrow> bool" where
  "idle t s = (t \<in> set (ts_used s) \<and> t \<notin> set (live s) \<and> (\<forall>r \<in> set (ts_rows s). ch_id r = t \<longrightarrow> ch_timer_at r = None))"

lemma idle_update:
  assumes "idle t s" "\<And>r. r \<in> set (ts_rows s) \<Longrightarrow> p r \<Longrightarrow> ch_id r = t \<Longrightarrow> ch_timer_at r = None \<Longrightarrow> ch_timer_at (f r) = None"
    "\<And>r. ch_id (f r) = ch_id r"
  shows "idle t (s\<lparr>ts_rows := sql_update p f (ts_rows s)\<rparr>)"
  using assms by (auto simp: idle_def sql_update_def)

lemma idle_proceed:
  assumes "idle t s" "distinct (live s)" "e \<in> set (ts_execs s)" "\<And>e'. e' \<in> set es \<Longrightarrow> \<not> completing e' \<Longrightarrow> exec_timer e' \<noteq> t"
  shows "idle t (proceed e es s)"
proof -
  have "set (live (proceed e es s)) \<subseteq> set (live s) \<union> exec_timer ` {e' \<in> set es. \<not> completing e'}"
    using live_proceed [OF assms(3,2)] set_remove1_subset [of "exec_timer e" "live s"] by auto
  with assms(1,4) show ?thesis by (auto simp: idle_def)
qed

lemma idle_set_state: "idle t s \<Longrightarrow> idle t (s\<lparr>ts_rows := set_timer_state t' st ex n (ts_rows s)\<rparr>)"
  unfolding set_timer_state_def by (rule idle_update) simp_all

lemma idle_claim:
  assumes "idle t s"
  shows "idle t (claim_step n n' l c s)"
proof -
  have no: "t \<notin> ch_id ` set (due_timers n l (ts_rows s))"
  proof
    assume "t \<in> ch_id ` set (due_timers n l (ts_rows s))"
    then obtain r where "r \<in> set (due_timers n l (ts_rows s))" "ch_id r = t" by auto
    with set_due_timers [of r n l "ts_rows s"] assms show False by (auto simp: idle_def)
  qed
  let ?s1 = "s\<lparr>ts_rows := fst (claim_due_timers n n' l c (ts_rows s))\<rparr>"
  have s1: "idle t ?s1"
    unfolding claim_due_timers_def Let_def fst_conv by (rule idle_update [OF assms]) (simp_all add: claim_row_def)
  have "live (claim_step n n' l c s) = live s @ map ch_id (due_timers n l (ts_rows s))"
    by (simp add: live_def claim_step_def claim_due_timers_def Let_def filter_map comp_def)
  moreover have "ts_rows (claim_step n n' l c s) = ts_rows ?s1" "ts_used (claim_step n n' l c s) = ts_used s"
    by (simp_all add: claim_step_def split: prod.splits)
  ultimately show ?thesis using s1 no by (auto simp: idle_def)
qed

lemma idle_finish:
  assumes ok: "timers_ok s" and e: "Prepared job \<in> set (ts_execs s)" and i: "idle t s"
  shows "idle t (finish_step uid aid n n' active job s) \<and>
    (t \<in> set (ts_posted (finish_step uid aid n n' active job s)) \<longleftrightarrow> t \<in> set (ts_posted s))"
proof -
  let ?f = "finish_timer uid aid n n' active job (ts_rows s)"
  have d: "distinct (live s)" using ok by (simp add: timers_ok_def)
  have j: "tj_timer job \<noteq> t" using live_executing [OF e] i by (auto simp: idle_def)
  consider (raised) x where "?f = Inl x"
    | (rows) out rows where "?f = Inr (out, rows)" "idle t (s\<lparr>ts_rows := rows\<rparr>)"
  proof (cases ?f)
    case (Inr or)
    have "idle t (s\<lparr>ts_rows := sql_update (\<lambda>r. ch_id r = tj_timer job) (put_back_row n') (ts_rows s)\<rparr>)"
      by (rule idle_update [OF i]) (use j in \<open>simp_all add: put_back_row_def\<close>)
    moreover have "idle t (s\<lparr>ts_rows := sql_update (\<lambda>r. ch_id r = tj_timer job) (complete_row n n')
        (sql_update p (\<lambda>r. r\<lparr>ch_chat := c, ch_updated := n'\<rparr>) (ts_rows s))\<rparr>)" for p c
    proof -
      have "idle t (s\<lparr>ts_rows := sql_update p (\<lambda>r. r\<lparr>ch_chat := c, ch_updated := n'\<rparr>) (ts_rows s)\<rparr>)"
        by (rule idle_update [OF i]) simp_all
      from idle_update [OF this, of "\<lambda>r. ch_id r = tj_timer job" "complete_row n n'"] show ?thesis
        by (simp add: complete_row_def)
    qed
    ultimately show ?thesis
      using Inr idle_set_state [OF i] that(2)
      by (auto simp: finish_timer_def Let_def rbind_Inr_iff split: option.splits if_splits)
  qed blast
  then show ?thesis
  proof cases
    case raised
    with idle_proceed [OF i d e, of "[]"] show ?thesis by (simp add: finish_step_def)
  next
    case rows
    have "idle t (proceed (Prepared job) es (s\<lparr>ts_rows := rows\<rparr>))" if "\<forall>e' \<in> set es. completing e'" for es
      by (rule idle_proceed [OF rows(2)]) (use d e that in auto)
    from this [of "[]"] this [of "[Completing (tj_timer job)]"] rows(1) j show ?thesis
      by (cases out) (auto simp: finish_step_def idle_def live_def proceed_def)
  qed
qed

lemma idle_step:
  assumes "timer_step s s'" "timers_ok s" "idle t s"
  shows "idle t s' \<and> (t \<in> set (ts_posted s') \<longleftrightarrow> t \<in> set (ts_posted s))"
proof -
  have d: "distinct (live s)" using assms(2) by (simp add: timers_ok_def)
  from assms(1) show ?thesis
  proof cases
    case create
    with assms(3) create_row [OF create(2)] show ?thesis by (auto simp: idle_def add_row_def live_def)
  next
    case claim
    with idle_claim [OF assms(3)] show ?thesis by (simp add: claim_step_def split: prod.splits)
  next
    case cancel
    have "idle t (s\<lparr>ts_rows := sql_update p (cancel_row n n' e) (ts_rows s)\<rparr>)" for p n n' e
      by (rule idle_update [OF assms(3)]) (simp_all add: cancel_row_def)
    then show ?thesis unfolding cancel cancel_timers_for_chat_def by simp
  next
    case (load t' c)
    have "exec_timer (Queued t' c) \<in> set (live s)" using live_executing [OF load(2)] by simp
    with assms(3) have "t' \<noteq> t" by (auto simp: idle_def)
    then have "idle t (load_step t' c s)"
      unfolding load_step_def by (intro idle_proceed [OF assms(3) d load(2)]) (auto split: option.splits)
    then show ?thesis by (simp add: load load_step_def)
  next
    case (prepare t' u m py_str pm n)
    have "exec_timer (Loaded t' u m) \<in> set (live s)" using live_executing [OF prepare(2)] by simp
    with assms(3) have "t' \<noteq> t" by (auto simp: idle_def)
    let ?s = "\<lambda>x. s\<lparr>ts_rows := set_timer_state t' ''error'' [(''timer_error'', PStr x)] n (ts_rows s)\<rparr>"
    have "idle t (proceed (Loaded t' u m) [] (?s x))" for x
      by (rule idle_proceed [OF idle_set_state [OF assms(3)]]) (use d prepare(2) in auto)
    moreover have "idle t (proceed (Loaded t' u m) [Prepared j] s)" if "tj_timer j = t'" for j
      by (rule idle_proceed [OF assms(3) d prepare(2)]) (use that \<open>t' \<noteq> t\<close> in auto)
    moreover have "idle t (proceed (Loaded t' u m) [] s)"
      by (rule idle_proceed [OF assms(3) d prepare(2)]) simp
    ultimately have "idle t (prepare_step py_str pm n t' u m s)"
      using prepare_job [of py_str "ts_rows s" "ts_users s" pm t' u m]
      by (simp add: prepare_step_def split: sum.splits)
    then show ?thesis by (simp add: prepare prepare_step_def split: sum.splits)
  next
    case (finish job)
    with idle_finish [OF assms(2) finish(2) assms(3)] show ?thesis by simp
  next
    case (failed t' e n)
    have "idle t (proceed (Completing t') [] (s\<lparr>ts_rows := set_timer_state t' ''error'' [(''timer_error'', PStr e)] n (ts_rows s)\<rparr>))"
      by (rule idle_proceed [OF idle_set_state [OF assms(3)]]) (use d failed(2) in auto)
    then show ?thesis by (simp add: failed)
  next
    case new_chat
    with assms(3) show ?thesis by (auto simp: idle_def add_row_def live_def)
  next
    case (change f)
    with assms(3) show ?thesis by (fastforce simp: idle_def same_timer_def)
  next
    case delete
    with assms(3) show ?thesis by (auto simp: idle_def)
  next
    case users
    with assms(3) show ?thesis by (simp add: idle_def)
  qed (use idle_proceed [OF assms(3) d, of _ "[]"] in auto)
qed



subsection \<open>Cancelling and claiming\<close>

lemma cancel_is_owner_scoped:
  "r \<in> set rows \<Longrightarrow> ch_user r \<noteq> u \<or> dget (ch_meta r) ''parent_chat_id'' \<noteq> PStr c \<or> \<not> status_is r ''pending'' \<Longrightarrow>
     r \<in> set (cancel_timers_for_chat c e u n n' rows)"
  by (auto simp: cancel_timers_for_chat_def sql_update_def cancels_def intro!: image_eqI [of r])

lemma sorted_take_least:
  "x \<in> set (take n (sort_key f xs)) \<Longrightarrow> y \<in> set (drop n (sort_key f xs)) \<Longrightarrow> f x \<le> f y"
proof -
  assume "x \<in> set (take n (sort_key f xs))" "y \<in> set (drop n (sort_key f xs))"
  moreover have "sorted (map f (take n (sort_key f xs)) @ map f (drop n (sort_key f xs)))"
    by (metis append_take_drop_id map_append sorted_sort_key)
  ultimately show ?thesis by (auto simp: sorted_append)
qed

text \<open>A claim takes the earliest due timers, at most as many as the limit allows.\<close>

lemma claim_takes_earliest:
  assumes "r \<in> set rows" "ch_timer_at r = Some t" "t \<le> now" "status_is r ''pending''"
    and "r \<notin> set (due_timers now limit rows)" "d \<in> set (due_timers now limit rows)"
  shows "the (ch_timer_at d) \<le> t \<and> length (due_timers now limit rows) = limit"
proof -
  let ?due = "filter (\<lambda>r. (case ch_timer_at r of None \<Rightarrow> False | Some t \<Rightarrow> t \<le> now) \<and> status_is r ''pending'') rows"
  let ?k = "\<lambda>r. the (ch_timer_at r)"
  have "r \<in> set (sort_key ?k ?due)" using assms(1-4) by simp
  then have r: "r \<in> set (drop limit (sort_key ?k ?due))"
    using assms(5) set_append [of "take limit (sort_key ?k ?due)" "drop limit (sort_key ?k ?due)"]
    unfolding due_timers_def append_take_drop_id by blast
  have "limit < length (sort_key ?k ?due)"
  proof (rule ccontr)
    assume "\<not> limit < length (sort_key ?k ?due)"
    then have "drop limit (sort_key ?k ?due) = []" by (intro drop_all) (simp only: not_less)
    with r show False by (simp only: list.set(1) empty_iff)
  qed
  moreover have "?k d \<le> ?k r"
    by (rule sorted_take_least [OF assms(6) [unfolded due_timers_def] r])
  ultimately show ?thesis using assms(2) by (simp add: due_timers_def)
qed

subsection \<open>What posting does to the parent chat\<close>

text \<open>Stored messages: linked, each under its own id, with a number as time stamp when they have one.\<close>

definition stored_messages :: "pydict \<Rightarrow> bool" where
  "stored_messages m =
     (linked m \<and> distinct (map fst m) \<and> \<not> dhas m [] \<and>
      (\<forall>k d. dget m k = PDict d \<longrightarrow> dget d ''id'' = PStr k \<and> (\<exists>i. dget_or d ''timestamp'' (PInt 0) = PInt i)))"

definition is_done_assistant :: "pydict \<Rightarrow> bool" where
  "is_done_assistant d = (dget d ''role'' = PStr ''assistant'' \<and> dget d ''done'' \<noteq> PBool False)"

definition stamp :: "pydict \<Rightarrow> int" where
  "stamp d = (case dget_or d ''timestamp'' (PInt 0) of PInt i \<Rightarrow> i | _ \<Rightarrow> 0)"

lemma latest_from_max:
  "(\<And>d. d \<in> set (b # ds) \<Longrightarrow> \<exists>i. dget_or d ''timestamp'' (PInt 0) = PInt i) \<Longrightarrow>
     \<exists>m. latest_from b ds = Inr m \<and> m \<in> set (b # ds) \<and> (\<forall>d \<in> set (b # ds). stamp d \<le> stamp m)"
proof (induction ds arbitrary: b)
  case (Cons d ds)
  obtain i j where i: "dget_or b ''timestamp'' (PInt 0) = PInt i" and j: "dget_or d ''timestamp'' (PInt 0) = PInt j"
    using Cons.prems [of b] Cons.prems [of d] by auto
  let ?b = "if j > i then d else b"
  have "\<exists>m. latest_from ?b ds = Inr m \<and> m \<in> set (?b # ds) \<and> (\<forall>d \<in> set (?b # ds). stamp d \<le> stamp m)"
    by (rule Cons.IH) (use Cons.prems in \<open>auto split: if_splits\<close>)
  with i j show ?case by (auto simp: stamp_def split: if_splits)
qed simp

definition dict_of :: "pyval \<Rightarrow> pydict" where
  "dict_of v = (case v of PDict d \<Rightarrow> d | _ \<Rightarrow> [])"

lemma as_message_dict: "is_dict v \<Longrightarrow> as_message v = Inr (dict_of v)"
  by (cases v) (simp_all add: as_message_def dict_of_def)

lemma as_message_map: "\<forall>v \<in> set vs. is_dict v \<Longrightarrow> rmap as_message vs = Inr (map dict_of vs)"
  by (induction vs) (simp_all add: as_message_dict)

lemma stored_dict:
  assumes "stored_messages m" "(k, v) \<in> set m"
  obtains d where "v = PDict d" "dget m k = PDict d"
proof -
  from assms have "map_of m k = Some v" by (simp add: stored_messages_def)
  moreover then have "dhas m k" "dget m k = v" by (simp_all add: dhas_def dget_def)
  moreover then have "is_dict v" using assms(1) by (auto simp: stored_messages_def linked_def typed_def)
  ultimately show thesis using that by (cases v) auto
qed

lemma done_assistants_stored:
  assumes "stored_messages m"
  shows "\<exists>ds. done_assistants m = Inr ds \<and> set ds = {d. is_done_assistant d \<and> (\<exists>k. dget m k = PDict d)}"
proof -
  have "\<forall>v \<in> set (map snd m). is_dict v"
  proof
    fix v assume "v \<in> set (map snd m)"
    then obtain k where "(k, v) \<in> set m" by auto
    from stored_dict [OF assms this] show "is_dict v" by fastforce
  qed
  then have "done_assistants m = Inr (filter is_done_assistant (map dict_of (map snd m)))"
    by (simp only: done_assistants_def as_message_map rbind_simps is_done_assistant_def [abs_def])
  moreover have "d \<in> set (map dict_of (map snd m)) \<longleftrightarrow> (\<exists>k. dget m k = PDict d)" for d
  proof
    assume "d \<in> set (map dict_of (map snd m))"
    then obtain k v where v: "(k, v) \<in> set m" "d = dict_of v" by auto
    from assms v(1) obtain d' where "v = PDict d'" "dget m k = PDict d'" by (rule stored_dict)
    with v show "\<exists>k. dget m k = PDict d" by (auto simp: dict_of_def)
  next
    assume "\<exists>k. dget m k = PDict d"
    then obtain k where "map_of m k = Some (PDict d)" by (auto simp: dget_def split: option.splits)
    then have "(k, PDict d) \<in> set m" by (rule map_of_SomeD)
    then show "d \<in> set (map dict_of (map snd m))" by (force simp: dict_of_def)
  qed
  ultimately show ?thesis by (intro exI conjI) auto
qed

text \<open>The prompt answers the newest finished reply, or the message the timer was set from.\<close>

definition reply_parent :: "pydict \<Rightarrow> pyval \<Rightarrow> pyval \<Rightarrow> bool" where
  "reply_parent m fallback p =
     ((\<forall>k d. dget m k = PDict d \<longrightarrow> \<not> is_done_assistant d) \<and> p = fallback \<or>
      (\<exists>k d. p = PStr k \<and> dget m k = PDict d \<and> is_done_assistant d \<and>
         (\<forall>k' d'. dget m k' = PDict d' \<longrightarrow> is_done_assistant d' \<longrightarrow> stamp d' \<le> stamp d)))"

lemma reply_parent_id_stored:
  assumes "stored_messages m"
  shows "\<exists>p. reply_parent_id m fallback = Inr p \<and> reply_parent m fallback p"
proof -
  from done_assistants_stored [OF assms] obtain ds where ds: "done_assistants m = Inr ds"
    "set ds = {d. is_done_assistant d \<and> (\<exists>k. dget m k = PDict d)}" by blast
  show ?thesis
  proof (cases ds)
    case Nil
    with ds show ?thesis by (auto simp: reply_parent_id_def reply_parent_def)
  next
    case (Cons b bs)
    have "\<exists>i. dget_or d ''timestamp'' (PInt 0) = PInt i" if "d \<in> set (b # bs)" for d
      using that ds(2) assms by (auto simp: Cons [symmetric] stored_messages_def)
    from latest_from_max [of b bs, OF this] obtain d where d: "latest_from b bs = Inr d" "d \<in> set ds"
      "\<forall>d' \<in> set ds. stamp d' \<le> stamp d" by (auto simp: Cons)
    from d(2) ds(2) obtain k where k: "dget m k = PDict d" "is_done_assistant d" by blast
    with assms have "dget d ''id'' = PStr k" by (simp add: stored_messages_def)
    with d k ds Cons have "reply_parent_id m fallback = Inr (PStr k)" by (simp add: reply_parent_id_def)
    moreover have "reply_parent m fallback (PStr k)" using k d(3) ds(2) by (auto simp: reply_parent_def)
    ultimately show ?thesis by blast
  qed
qed

lemma field_dpop: "field (dpop j m) k f = (if k = j then PNone else field m k f)"
  by (simp add: field_def)

text \<open>The messages after posting, seen through their fields.\<close>

definition posted_under :: "string \<Rightarrow> string \<Rightarrow> pyval \<Rightarrow> pydict \<Rightarrow> pydict \<Rightarrow> bool" where
  "posted_under u a p m m' =
     ((\<forall>j. dhas m' j \<longleftrightarrow> dhas m j \<or> j = u \<or> j = a) \<and> (\<forall>j. dhas m' j \<longrightarrow> is_dict (dget m' j)) \<and>
      (\<forall>j. field m' j ''parentId'' = (if j = a then PStr u else if j = u then p else field m j ''parentId'')) \<and>
      (\<forall>j. dhas m' j \<longrightarrow> field m' j ''childrenIds'' = PList (map PStr
         (if j = a then [] else if j = u then [a] else if p = PStr j then kids m j @ [u] else kids m j))) \<and>
      (\<forall>j f. j \<noteq> u \<longrightarrow> j \<noteq> a \<longrightarrow> f \<noteq> ''childrenIds'' \<longrightarrow> field m' j f = field m j f))"

lemma posted_under_linked:
  assumes l: "linked m" and new: "\<not> dhas m u" "\<not> dhas m a" "u \<noteq> a"
    and fresh: "\<And>j. field m j ''parentId'' \<notin> {PStr u, PStr a}" and p: "parent_ok p" "p \<noteq> PStr u" "p \<noteq> PStr a"
    and m': "posted_under u a p m m'"
  shows "linked m'"
proof -
  obtain U where U: "dget m' u = PDict U" using m' by (cases "dget m' u") (auto simp: posted_under_def)
  let ?m1 = "dset u (PDict (dset ''childrenIds'' (PList []) U)) (dpop a m')"
  have has1: "dhas ?m1 j \<longleftrightarrow> dhas m j \<or> j = u" for j using m' new by (auto simp: posted_under_def)
  have field1: "field ?m1 j f = (if j = u then (if f = ''childrenIds'' then PList [] else field m' u f)
      else if j = a then PNone else field m' j f)" for j f
    by (simp add: field_dset field_dpop) (simp add: field_def U)
  have par1: "field ?m1 j ''parentId'' = (if j = u then p else field m j ''parentId'')" for j
    using m' new by (simp add: field1 posted_under_def field_absent)
  have ch1: "field ?m1 j ''childrenIds'' = PList (map PStr (if p = PStr j then kids m j @ [u] else kids m j))"
    if "dhas ?m1 j" for j
  proof (cases "j = u")
    case True
    with p new kids_absent [of m u] show ?thesis by (simp add: field1)
  next
    case False
    with that has1 new have j: "dhas m j" "j \<noteq> a" by auto
    with m' False show ?thesis by (simp add: field1 posted_under_def)
  qed
  have l1: "linked ?m1"
  proof (rule add_leaf_linked [OF l new(1) _ p(1,2) has1 _ par1 ch1])
    show "field m j ''parentId'' \<noteq> PStr u" for j using fresh [of j] by simp
    show "is_dict (dget ?m1 j)" if "dhas ?m1 j" for j
      using that m' has1 new by (auto simp: posted_under_def)
  qed
  have kids1: "kids ?m1 j = (if p = PStr j then kids m j @ [u] else kids m j)" if "dhas ?m1 j" for j
    by (rule kids_field [OF ch1 [OF that]])
  show ?thesis
  proof (rule add_leaf_linked [OF l1, where k = a and p = "PStr u"])
    show "\<not> dhas ?m1 a" using new has1 by auto
    show "field ?m1 j ''parentId'' \<noteq> PStr a" for j using fresh [of j] p par1 by auto
    show "dhas m' j \<longleftrightarrow> dhas ?m1 j \<or> j = a" for j using m' has1 by (auto simp: posted_under_def)
    show "is_dict (dget m' j)" if "dhas m' j" for j using that m' by (simp add: posted_under_def)
    show "field m' j ''parentId'' = (if j = a then PStr u else field ?m1 j ''parentId'')" for j
      using m' par1 by (simp add: posted_under_def)
    show "field m' j ''childrenIds'' = PList (map PStr (if PStr u = PStr j then kids ?m1 j @ [a] else kids ?m1 j))"
      if "dhas m' j" for j
    proof (cases "j = a")
      case True
      then have "kids ?m1 j = []" by (intro kids_absent) (use has1 new in auto)
      with True m' that new show ?thesis by (simp add: posted_under_def)
    next
      case False
      then have j1: "dhas ?m1 j" using that m' has1 by (auto simp: posted_under_def)
      have "kids m u = []" by (rule kids_absent [OF new(1)])
      with False m' that p kids1 [OF j1] show ?thesis by (auto simp: posted_under_def)
    qed
  qed (use new in auto)
qed

lemma append_to_parent_posts:
  assumes l: "linked m" and new: "\<not> dhas m u" "\<not> dhas m a" "u \<noteq> a" "\<not> dhas m []" and p: "parent_ok p" "p \<noteq> PStr u" "p \<noteq> PStr a"
    and U: "dget U ''childrenIds'' = PList [PStr a]" "dget U ''parentId'' = p"
    and A: "dget A ''childrenIds'' = PList []" "dget A ''parentId'' = PStr u"
  shows "\<exists>m'. append_to_parent (dset a (PDict A) (dset u (PDict U) m)) p u = Inr m' \<and> posted_under u a p m m'"
proof -
  let ?m2 = "dset a (PDict A) (dset u (PDict U) m)"
  have t: "typed m" using l by (simp add: linked_def)
  have old: "field m j ''childrenIds'' = PList (map PStr (kids m j))" "is_dict (dget m j)" if "dhas m j" for j
    using t that by (auto simp: typed_def)
  show ?thesis
  proof (cases "\<exists>q. p = PStr q \<and> dhas m q")
    case False
    have "append_to_parent ?m2 p u = Inr ?m2"
      using p(1)
    proof (rule parent_okE)
      fix q
      assume q: "p = PStr q"
      with False p have "map_of ?m2 q = None" by (auto simp: dhas_def map_of_dset)
      then show ?thesis by (simp add: append_to_parent_def q)
    qed (simp add: append_to_parent_def)
    moreover have "posted_under u a p m ?m2"
      using False by (auto simp: posted_under_def field_dset U A old new)
    ultimately show ?thesis by blast
  next
    case True
    then obtain q where q: "p = PStr q" "dhas m q" "q \<noteq> u" "q \<noteq> a" "q \<noteq> []" using new by auto
    from t q(2) obtain d where d: "map_of m q = Some (PDict d)" "dget m q = PDict d"
      "dget d ''childrenIds'' = PList (map PStr (kids m q))" by (rule typed_message)
    then have "dget_or d ''childrenIds'' (PList []) = PList (map PStr (kids m q))"
      by (auto simp: dget_or_def dget_def split: option.splits)
    moreover have "u \<notin> set (kids m q)" using linked_kids_exist [OF l] new(1) by blast
    ultimately have "append_to_parent ?m2 p u =
        Inr (dset q (PDict (dset ''childrenIds'' (PList (map PStr (kids m q) @ [PStr u])) d)) ?m2)"
      using q by (auto simp: append_to_parent_def map_of_dset d(1) as_message_def)
    moreover have "posted_under u a p m (dset q (PDict (dset ''childrenIds'' (PList (map PStr (kids m q) @ [PStr u])) d)) ?m2)"
      using q d(2) by (auto simp: posted_under_def field_dset U A old new field_def [of m q])
    ultimately show ?thesis by blast
  qed
qed

lemma stored_messages_ok:
  assumes "stored_messages m"
  shows "messages_ok m"
  unfolding messages_ok_def
proof (intro ballI, clarify)
  fix k v
  assume "(k, v) \<in> set m"
  from stored_dict [OF assms this] obtain d where d: "v = PDict d" "dget m k = PDict d" .
  then have "dhas m k" using dget_not_has [of m k] by auto
  then have "parent_ok (dget d ''parentId'')" using assms d(2) by (auto simp: stored_messages_def linked_def typed_def field_def)
  moreover have "dget d ''id'' = PStr k" using assms d(2) by (simp add: stored_messages_def)
  then have "d \<noteq> []" by auto
  ultimately show "message_ok v" using d(1) by (auto elim: parent_okE)
qed

lemma get_message_list_stored:
  assumes "stored_messages m" "parent_ok p"
  shows "\<exists>l. get_message_list m p = Inr l"
  using assms(2)
proof (rule parent_okE)
  fix q
  assume "p = PStr q"
  with get_message_list_visited [OF stored_messages_ok [OF assms(1)], of q] show ?thesis
    by (cases "map_of m q") (auto simp: get_message_list_def message_walk_stop)
qed (simp add: get_message_list_def)

text \<open>
  Posting the prompt of a timer into a parent chat with well-formed messages succeeds: the prompt becomes
  the last child of the newest finished reply (or of the message the timer was set from), an unfinished reply
  to it becomes the current message, every other message keeps its fields and its children, and the message
  tree stays linked.
\<close>

lemma timer_prompt_joins_the_tree:
  assumes chat: "dget chat ''history'' = PDict h" "dget h ''messages'' = PDict m" "stored_messages m"
    and new: "\<not> dhas m u" "\<not> dhas m a" "u \<noteq> a" "\<And>j. field m j ''parentId'' \<notin> {PStr u, PStr a}"
    and origin: "parent_ok (dget (tj_meta job) ''parent_message_id'')"
      "dget (tj_meta job) ''parent_message_id'' \<notin> {PStr u, PStr a}"
  shows "\<exists>post h' m'. post_prompt u a now_s job chat = Inr post \<and> dget (po_chat post) ''history'' = PDict h' \<and>
    dget h' ''messages'' = PDict m' \<and> dget h' ''currentId'' = PStr a \<and> linked m' \<and>
    reply_parent m (dget (tj_meta job) ''parent_message_id'') (po_parent_id post) \<and>
    posted_under u a (po_parent_id post) m m'"
proof -
  let ?f = "dget (tj_meta job) ''parent_message_id''"
  from reply_parent_id_stored [OF chat(3)] obtain p where p: "reply_parent_id m ?f = Inr p" "reply_parent m ?f p" by blast
  then have pok: "parent_ok p" "p \<noteq> PStr u" "p \<noteq> PStr a"
    using origin new(1,2) dget_not_has [of m u] dget_not_has [of m a] by (auto simp: reply_parent_def)
  from get_message_list_stored [OF chat(3) pok(1)] obtain l where l: "get_message_list m p = Inr l" by blast
  let ?U = "timer_user_message u a now_s job p" and ?A = "pending_reply a u now_s (tj_model job)"
  have lm: "linked m" "\<not> dhas m []" using chat(3) by (simp_all add: stored_messages_def)
  have "\<exists>m'. append_to_parent (dset a (PDict ?A) (dset u (PDict ?U) m)) p u = Inr m' \<and> posted_under u a p m m'"
    by (rule append_to_parent_posts [OF lm(1) new(1-3) lm(2) pok]) (simp_all add: timer_user_message_def pending_reply_def)
  then obtain m' where m': "append_to_parent (dset a (PDict ?A) (dset u (PDict ?U) m)) p u = Inr m'" "posted_under u a p m m'"
    by blast
  have "dget_or chat ''history'' (PDict []) = PDict h" "dget_or h ''messages'' (PDict []) = PDict m"
    using chat(1,2) by (auto simp: dget_or_def dget_def split: option.splits)
  then have "post_prompt u a now_s job chat = Inr \<lparr>po_chat = dset ''history'' (PDict (dset ''currentId'' (PStr a)
      (dset ''messages'' (PDict m') h))) chat, po_parent_id = p, po_message_list = l, po_user_message = ?U\<rparr>"
    using p(1) l m'(1) by (simp add: post_prompt_def as_message_def)
  moreover have "linked m'" by (rule posted_under_linked [OF lm(1) new pok m'(2)])
  ultimately show ?thesis using p(2) m'(2) by simp
qed

definition sample_history :: pydict where
  "sample_history =
     [(''1'', PDict [(''id'', PStr ''1''), (''parentId'', PNone), (''childrenIds'', PList [PStr ''2'']), (''role'', PStr ''user'')]),
      (''2'', PDict [(''id'', PStr ''2''), (''parentId'', PStr ''1''), (''childrenIds'', PList []), (''role'', PStr ''assistant''),
         (''done'', PBool True), (''timestamp'', PInt 3)])]"

lemma sample_history_stored: "stored_messages sample_history"
proof -
  have keys: "dhas sample_history k \<longleftrightarrow> k = ''1'' \<or> k = ''2''" for k by (auto simp: sample_history_def)
  have field: "field sample_history k f =
      (if k = ''1'' then dget (dict_of (dget sample_history ''1'')) f
       else if k = ''2'' then dget (dict_of (dget sample_history ''2'')) f else PNone)" for k f
    by (simp add: sample_history_def field_def dict_of_def)
  have kids: "kids sample_history k = (if k = ''1'' then [''2''] else [])" for k
    by (simp add: kids_def field_def sample_history_def)
  have "typed sample_history"
    unfolding typed_def keys by (auto simp: field kids) (simp_all add: sample_history_def dict_of_def)
  moreover have "k \<in> set (kids sample_history p) \<longleftrightarrow> dhas sample_history p \<and> field sample_history k ''parentId'' = PStr p" for p k
    by (auto simp: kids keys field) (simp_all add: sample_history_def dict_of_def)
  ultimately have "linked sample_history" by (simp add: linked_def)
  moreover have "dget d ''id'' = PStr k \<and> (\<exists>i. dget_or d ''timestamp'' (PInt 0) = PInt i)"
    if "dget sample_history k = PDict d" for k d
    using that by (auto simp: sample_history_def split: if_splits)
  ultimately show ?thesis by (simp add: stored_messages_def sample_history_def)
qed

lemma timer_prompt_joins_the_tree_witness:
  "\<exists>post h' m'. post_prompt ''u'' ''a'' 7 sample_job [(''history'', PDict [(''messages'', PDict sample_history)])] = Inr post \<and>
     dget (po_chat post) ''history'' = PDict h' \<and> dget h' ''messages'' = PDict m' \<and> linked m' \<and> dget h' ''currentId'' = PStr ''a''"
proof -
  have "\<not> dhas sample_history ''u''" "\<not> dhas sample_history ''a''" by (simp_all add: sample_history_def)
  moreover have "field sample_history j ''parentId'' \<notin> {PStr ''u'', PStr ''a''}" for j
    by (simp add: sample_history_def field_def)
  moreover have "dget (tj_meta sample_job) ''parent_message_id'' = PNone" by code_simp
  ultimately show ?thesis
    using timer_prompt_joins_the_tree [of "[(''history'', PDict [(''messages'', PDict sample_history)])]"
        "[(''messages'', PDict sample_history)]" sample_history "''u''" "''a''" sample_job 7] sample_history_stored
    by fastforce
qed

end
