(* ===== verification/Tool_Approval.thy ===== *)
theory Tool_Approval
  imports Output_Messages
begin

section \<open>Approving and answering tool calls\<close>

text \<open>
  Models \<open>utils/tool_approval.py\<close> and \<open>utils/ask_user.py\<close>. A message whose output holds tool calls that wait
  for the user stops; \<open>resolve_tool_call_output\<close> records the decision on one call in the output, and
  \<open>stage_ask_user_tool_calls\<close> puts the questions a model asks into the output, or the error it gets instead.
  The output is a list of items; the code changes items in place and appends results, here the new list is
  returned. The saved message and the event that follow are the returned output. The JSON encoder and decoder,
  the text form of a value and fresh ids are arguments.
\<close>

subsection \<open>Resolving a call\<close>

datatype action = Approve | Reject | Answer

record resolve_form =
  rf_call_id :: string
  rf_action :: action
  rf_answers :: pyval
  rf_timed_out :: bool

text \<open>The first function call with the id, and where it is.\<close>

fun find_call :: "string \<Rightarrow> pyval list \<Rightarrow> (nat \<times> pydict) option result" where
  "find_call cid [] = Inr None"
| "find_call cid (item # rest) =
     (case item of
        PDict d \<Rightarrow>
          if dget d ''type'' = PStr ''function_call'' \<and> py_or (dget d ''call_id'') (dget d ''id'') = PStr cid
          then Inr (Some (0, d))
          else rbind (find_call cid rest) (\<lambda>r. Inr (map_option (\<lambda>(i, d). (Suc i, d)) r))
      | _ \<Rightarrow> Inl AttributeError)"

fun any_item :: "(pydict \<Rightarrow> bool result) \<Rightarrow> pyval list \<Rightarrow> bool result" where
  "any_item p [] = Inr False"
| "any_item p (item # rest) =
     (case item of
        PDict d \<Rightarrow> rbind (p d) (\<lambda>b. if b then Inr True else any_item p rest)
      | _ \<Rightarrow> Inl AttributeError)"

definition is_result_of :: "string \<Rightarrow> pydict \<Rightarrow> bool" where
  "is_result_of cid d =
     (dget d ''type'' = PStr ''function_call_output'' \<and> dget d ''call_id'' = PStr cid)"

definition waiting_statuses :: "pyval set" where
  "waiting_statuses = {PStr ''pending'', PStr ''queued'', PStr ''requires_approval''}"

definition conflict :: py_error where
  "conflict = HTTPException 409 ''Tool call has already been resolved.''"

definition result_item :: "string \<Rightarrow> string \<Rightarrow> string \<Rightarrow> pyval" where
  "result_item cid text status =
     PDict [(''type'', PStr ''function_call_output''), (''id'', PStr (''fco_'' @ cid)), (''call_id'', PStr cid),
       (''output'', PList [PDict [(''type'', PStr ''input_text''), (''text'', PStr text)]]), (''status'', PStr status)]"

definition answer_payload :: "resolve_form \<Rightarrow> pyval" where
  "answer_payload form =
     PDict (if rf_timed_out form
       then [(''status'', PStr ''cancelled''), (''answers'', PDict []), (''timed_out'', PBool True)]
       else [(''status'', PStr ''answered''), (''answers'', py_or (rf_answers form) (PDict []))])"

text \<open>The call after the decision, and the result appended for it.\<close>

definition decide :: "(pyval \<Rightarrow> string) \<Rightarrow> resolve_form \<Rightarrow> pydict \<Rightarrow> (pydict \<times> pyval list) result" where
  "decide json_dumps form d =
     (let cid = rf_call_id form; tool_name = dget d ''name'' in
      case rf_action form of
        Approve \<Rightarrow>
          if tool_name = PStr ''ask_user'' then Inl (HTTPException 400 ''ask_user requires an answer or deny.'')
          else Inr (dset ''approved'' (PBool True) (dset ''status'' (PStr ''queued'') d), [])
      | Reject \<Rightarrow>
          Inr (dset ''status'' (PStr ''rejected'') d,
               [result_item cid ''Error: tool call rejected by user.'' ''rejected''])
      | Answer \<Rightarrow>
          if tool_name \<noteq> PStr ''ask_user'' then Inl (HTTPException 400 ''Tool call does not accept answers.'')
          else if rf_answers form = PNone \<and> \<not> rf_timed_out form
          then Inl (HTTPException 400 ''Answers are required for ask_user.'')
          else Inr (dset ''status'' (PStr ''completed'') d,
                 [result_item cid (json_dumps (answer_payload form)) ''completed'']))"

text \<open>The message still waits for a decision on another call.\<close>

definition waiting_call :: "pyval list \<Rightarrow> pydict \<Rightarrow> bool result" where
  "waiting_call ids d =
     (if dget d ''type'' = PStr ''function_call'' \<and> truthy (dget d ''call_id'')
      then rbind (hash_key (dget d ''status'')) (\<lambda>status.
        if status \<in> waiting_statuses
        then rbind (hash_key (dget d ''call_id'')) (\<lambda>k. Inr (k \<notin> set ids))
        else Inr False)
      else Inr False)"

definition is_paused :: "pyval list \<Rightarrow> bool result" where
  "is_paused output = rbind (result_call_ids output) (\<lambda>ids. any_item (waiting_call ids) output)"

definition resolve_output :: "(pyval \<Rightarrow> string) \<Rightarrow> resolve_form \<Rightarrow> pyval list \<Rightarrow> (pyval list \<times> bool) result" where
  "resolve_output json_dumps form output =
     rbind (find_call (rf_call_id form) output) (\<lambda>found.
       case found of
         None \<Rightarrow> Inl (HTTPException 404 ''Tool call not found.'')
       | Some (i, d) \<Rightarrow>
           (let d = (if dhas d ''call_id'' then d else dset ''call_id'' (PStr (rf_call_id form)) d) in
            rbind (any_item (\<lambda>d. Inr (is_result_of (rf_call_id form) d)) (output[i := PDict d])) (\<lambda>has_result.
            rbind (if has_result then Inr PNone else hash_key (dget d ''status'')) (\<lambda>status.
              if has_result \<or> status \<notin> waiting_statuses then Inl conflict
              else rbind (decide json_dumps form d) (\<lambda>(d, results).
                (let output = output[i := PDict d] @ results
                 in rbind (is_paused output) (\<lambda>paused. Inr (output, paused))))))))"

text \<open>\<open>chat\<close> is the owner of the chat, if there is one; \<open>message\<close> is empty when it is not found.\<close>

definition resolve_tool_call_output ::
    "(pyval \<Rightarrow> string) \<Rightarrow> string option \<Rightarrow> string \<Rightarrow> string \<Rightarrow> pydict \<Rightarrow> resolve_form \<Rightarrow> (pyval list \<times> bool) result"
where
  "resolve_tool_call_output json_dumps chat user_id role message form =
     (if chat = None \<or> (chat \<noteq> Some user_id \<and> role \<noteq> ''admin'')
      then Inl (HTTPException 401 (''You do not have permission to access this resource. '' @
                  ''Please contact your administrator for assistance.''))
      else if message = [] then Inl (HTTPException 404 (''We could not find what you'' @ CHR 0x27 # ''re looking for :/''))
      else (case py_or (dget message ''output'') (PList []) of
              PList output \<Rightarrow> resolve_output json_dumps form output
            | _ \<Rightarrow> Inl (HTTPException 400 ''Message has no resolvable output.'')))"

subsection \<open>A decision is final\<close>

lemma find_call_SomeD:
  "find_call c items = Inr (Some (i, d)) \<Longrightarrow>
     i < length items \<and> items ! i = PDict d \<and> dget d ''type'' = PStr ''function_call'' \<and>
     py_or (dget d ''call_id'') (dget d ''id'') = PStr c \<and> (\<forall>j < i. is_dict (items ! j))"
proof (induction items arbitrary: i)
  case (Cons item items)
  then obtain e where item: "item = PDict e" by (cases item) auto
  show ?case
  proof (cases "dget e ''type'' = PStr ''function_call'' \<and> py_or (dget e ''call_id'') (dget e ''id'') = PStr c")
    case False
    with Cons.prems item obtain j where "find_call c items = Inr (Some (j, d))" "i = Suc j"
      by (auto simp: rbind_Inr_iff)
    with Cons.IH [of j] item show ?thesis by (auto simp: less_Suc_eq_0_disj)
  qed (use Cons.prems item in auto)
qed simp

text \<open>A decided call is still the first one with its id.\<close>

lemma find_call_update:
  assumes "find_call c items = Inr (Some (i, d))"
    and "dget d' ''type'' = PStr ''function_call''" "py_or (dget d' ''call_id'') (dget d' ''id'') = PStr c"
  shows "find_call c (items[i := PDict d'] @ tail) = Inr (Some (i, d'))"
  using assms(1)
proof (induction items arbitrary: i)
  case (Cons item items)
  then obtain e where item: "item = PDict e" by (cases item) auto
  show ?case
  proof (cases "dget e ''type'' = PStr ''function_call'' \<and> py_or (dget e ''call_id'') (dget e ''id'') = PStr c")
    case True
    with Cons.prems item assms(2,3) show ?thesis by auto
  next
    case False
    with Cons.prems item obtain j where "find_call c items = Inr (Some (j, d))" "i = Suc j"
      by (auto simp: rbind_Inr_iff)
    with Cons.IH [of j] item False show ?thesis by (simp add: rbind_def)
  qed
qed simp

lemma any_item_pure:
  assumes "any_item (\<lambda>d. Inr (p d)) items = Inr b"
  shows "b \<longleftrightarrow> (\<exists>d. PDict d \<in> set items \<and> p d)"
  using assms
proof (induction items)
  case (Cons item items)
  then show ?case by (cases item) (auto split: if_splits)
qed simp

lemma is_dict_iff: "is_dict v \<longleftrightarrow> (\<exists>d. v = PDict d)"
  by (cases v) auto

lemma any_item_dicts: "\<forall>x \<in> set items. is_dict x \<Longrightarrow> \<exists>b. any_item (\<lambda>d. Inr (p d)) items = Inr b"
  by (induction items) (auto simp: is_dict_iff)

lemma result_call_ids_dicts: "result_call_ids items = Inr ks \<Longrightarrow> x \<in> set items \<Longrightarrow> is_dict x"
proof (induction items arbitrary: ks)
  case (Cons item items)
  then show ?case by (cases item) (auto simp: rbind_Inr_iff split: if_splits)
qed simp

definition with_call_id :: "string \<Rightarrow> pydict \<Rightarrow> pydict" where
  "with_call_id c d = (if dhas d ''call_id'' then d else dset ''call_id'' (PStr c) d)"

lemma with_call_id_get:
  assumes "py_or (dget d ''call_id'') (dget d ''id'') = PStr c"
  shows "py_or (dget (with_call_id c d) ''call_id'') (dget d ''id'') = PStr c"
    "k \<noteq> ''call_id'' \<Longrightarrow> dget (with_call_id c d) k = dget d k"
  using assms by (auto simp: with_call_id_def py_or_def dhas_def dget_def map_of_dset split: option.splits if_splits)

lemma resolve_outputE:
  assumes "resolve_output json_dumps form output = Inr (out, paused)"
  obtains i d d' results where
    "find_call (rf_call_id form) output = Inr (Some (i, d))"
    "any_item (\<lambda>d. Inr (is_result_of (rf_call_id form) d)) (output[i := PDict (with_call_id (rf_call_id form) d)]) = Inr False"
    "dget d ''status'' \<in> waiting_statuses"
    "decide json_dumps form (with_call_id (rf_call_id form) d) = Inr (d', results)"
    "out = output[i := PDict d'] @ results" "is_paused out = Inr paused"
proof -
  from assms obtain i d where f: "find_call (rf_call_id form) output = Inr (Some (i, d))"
    by (auto simp: resolve_output_def rbind_Inr_iff split: option.splits)
  from find_call_SomeD [OF f] have "dget (with_call_id (rf_call_id form) d) ''status'' = dget d ''status''"
    using with_call_id_get(2) by simp
  with assms f that show thesis
    by (auto simp: resolve_output_def rbind_Inr_iff hash_key_Inr with_call_id_def [symmetric] Let_def split: if_splits)
qed

lemma decide_call:
  assumes "decide json_dumps form d = Inr (d', results)"
  shows "dget d' ''type'' = dget d ''type''" "dget d' ''call_id'' = dget d ''call_id''" "dget d' ''id'' = dget d ''id''"
    "rf_action form = Approve \<Longrightarrow> results = [] \<and> dget d' ''status'' = PStr ''queued''"
    "rf_action form \<noteq> Approve \<Longrightarrow> \<exists>text status. results = [result_item (rf_call_id form) text status] \<and>
       dget d' ''status'' = PStr status \<and> status \<in> {''rejected'', ''completed''}"
  using assms by (auto simp: decide_def Let_def split: action.splits if_splits)

lemma result_item_dict: "is_result_of c (item_dict x) \<Longrightarrow> x = PDict (item_dict x)"
  by (cases x) (simp_all add: is_result_of_def item_dict_def)


definition waiting_message :: pydict where
  "waiting_message =
     [(''id'', PStr ''m''), (''output'', PList
        [PDict [(''type'', PStr ''function_call''), (''call_id'', PStr ''a''), (''name'', PStr ''run''), (''status'', PStr ''requires_approval'')],
         PDict [(''type'', PStr ''function_call''), (''call_id'', PStr ''b''), (''name'', PStr ''ask_user''), (''status'', PStr ''pending'')]])]"

definition reject_a :: resolve_form where
  "reject_a = \<lparr>rf_call_id = ''a'', rf_action = Reject, rf_answers = PNone, rf_timed_out = False\<rparr>"

definition after_reject :: "pyval list" where
  "after_reject =
     [PDict [(''type'', PStr ''function_call''), (''call_id'', PStr ''a''), (''name'', PStr ''run''), (''status'', PStr ''rejected'')],
      PDict [(''type'', PStr ''function_call''), (''call_id'', PStr ''b''), (''name'', PStr ''ask_user''), (''status'', PStr ''pending'')],
      result_item ''a'' ''Error: tool call rejected by user.'' ''rejected'']"


subsection \<open>Resuming the message\<close>

definition dict_or_empty :: "pyval \<Rightarrow> pydict" where
  "dict_or_empty v = (case v of PDict d \<Rightarrow> d | _ \<Rightarrow> [])"

definition resume_params :: "pydict \<Rightarrow> pydict \<Rightarrow> pydict result" where
  "resume_params chat_params message_meta =
     (let params = dmerge chat_params (dict_or_empty (dget message_meta ''params''));
          mode = dget chat_params ''tool_approval_mode''
      in rbind (hash_key mode) (\<lambda>mode.
           let params = (if mode \<in> {PStr ''ask'', PStr ''full''} then dset ''tool_approval_mode'' mode params else params)
           in Inr (if dhas params ''tool_approval_mode'' then params
                   else dset ''tool_approval_mode'' (PStr ''ask'') params)))"

text \<open>\<open>next(iter(v or []), None)\<close>.\<close>

definition first_of :: "pyval \<Rightarrow> pyval result" where
  "first_of v = rbind (py_iter (py_or v (PList []))) (\<lambda>xs. Inr (case xs of [] \<Rightarrow> PNone | x # _ \<Rightarrow> x))"

text \<open>
  \<open>chat\<close> is the chat with its variables, \<open>assistant_message\<close> and \<open>user_message\<close> what is stored under the id of
  the message and of its parent (empty when there is nothing).
\<close>

definition build_tool_approval_resume_payload ::
    "string \<Rightarrow> string \<Rightarrow> (pydict \<times> pyval) option \<Rightarrow> pydict \<Rightarrow> (pyval \<Rightarrow> pydict) \<Rightarrow> pydict result"
where
  "build_tool_approval_resume_payload chat_id message_id chat assistant_message stored =
     (case chat of
        None \<Rightarrow> Inl (HTTPException 404 (''We could not find what you'' @ CHR 0x27 # ''re looking for :/''))
      | Some (chat_data, variables) \<Rightarrow>
        if assistant_message = [] then Inl (HTTPException 404 (''We could not find what you'' @ CHR 0x27 # ''re looking for :/''))
        else (let user_message_id = dget assistant_message ''parentId'';
                  user_message = (if truthy user_message_id then stored user_message_id else [])
              in if user_message = [] then Inl (HTTPException 409 ''Tool call parent message is missing.'')
                 else
                   (let message_meta = dict_or_empty (dget assistant_message ''meta'');
                        chat_params = dict_or_empty (dget chat_data ''params'') in
                    rbind (resume_params chat_params message_meta) (\<lambda>params.
                    rbind (if truthy (dget assistant_message ''model'') then Inr (dget assistant_message ''model'')
                           else first_of (dget chat_data ''models'')) (\<lambda>model_id.
                    if \<not> truthy model_id then Inl (HTTPException 409 ''Tool call message model is missing.'')
                    else Inr
                      [(''stream'', dget_or params ''stream_response'' (PBool True)), (''model'', model_id),
                       (''messages'', PList (if truthy (dget params ''system'')
                          then [PDict [(''role'', PStr ''system''), (''content'', dget params ''system'')]] else [])),
                       (''params'', PDict params),
                       (''files'', py_or (dget message_meta ''files'') (py_or (dget chat_data ''files'') PNone)),
                       (''filter_ids'', py_or (dget message_meta ''filter_ids'') PNone),
                       (''tool_ids'', py_or (dget message_meta ''tool_ids'') PNone),
                       (''skill_ids'', py_or (dget message_meta ''skill_ids'') PNone),
                       (''terminal_id'', py_or (dget message_meta ''terminal_id'') PNone),
                       (''tool_servers'', py_or (dget message_meta ''tool_servers'') PNone),
                       (''features'', py_or (dget message_meta ''features'') (PDict [])),
                       (''variables'', py_or (dget message_meta ''variables'') (PDict [])),
                       (''chat_variables'', variables),
                       (''session_id'', dget message_meta ''session_id''), (''chat_id'', PStr chat_id),
                       (''id'', PStr message_id), (''parent_id'', dget user_message ''parentId''),
                       (''user_message'', PDict user_message), (''assistant_message_id'', PStr message_id)])))))"

subsection \<open>Questions a model asks\<close>

definition ASK_USER_NAME :: string where
  "ASK_USER_NAME = ''ask_user''"

text \<open>\<open>tool_call.get('function', {}).get(k, d)\<close>.\<close>

definition function_get :: "pyval \<Rightarrow> string \<Rightarrow> pyval \<Rightarrow> pyval result" where
  "function_get tool_call k d =
     rbind (py_get tool_call ''function'' (PDict [])) (\<lambda>f. py_get f k d)"

fun ask_calls :: "pyval list \<Rightarrow> pyval list result" where
  "ask_calls [] = Inr []"
| "ask_calls (tool_call # rest) =
     rbind (function_get tool_call ''name'' PNone) (\<lambda>name. rbind (ask_calls rest) (\<lambda>more.
       Inr (if name = PStr ASK_USER_NAME then tool_call # more else more)))"

definition get_ask_user_tool_calls :: "pyval list \<Rightarrow> (pyval list \<times> string option) result" where
  "get_ask_user_tool_calls tool_calls =
     rbind (ask_calls tool_calls) (\<lambda>ask_user_calls.
       Inr (if ask_user_calls = [] then ([], None)
            else if length tool_calls \<noteq> 1
            then (ask_user_calls, Some (''Error: ask_user must be the only tool call, so it did not run. '' @
                    ''Call ask_user on its own.''))
            else if length ask_user_calls \<noteq> 1
            then (ask_user_calls, Some ''Error: only one ask_user call is allowed per turn.'')
            else (ask_user_calls, None)))"

text \<open>\<open>str(d.get(k) or '').strip()[:n]\<close>.\<close>

definition short_text :: "(pyval \<Rightarrow> string) \<Rightarrow> pydict \<Rightarrow> string \<Rightarrow> nat \<Rightarrow> string" where
  "short_text py_str d k n = take n (str_strip (text_of py_str (py_or (dget d k) (PStr []))))"

definition normalize_option :: "(pyval \<Rightarrow> string) \<Rightarrow> pyval \<Rightarrow> pyval result" where
  "normalize_option py_str option =
     (case option of
        PDict d \<Rightarrow>
          (let label = short_text py_str d ''label'' 80; description = short_text py_str d ''description'' 240
           in if label = [] \<or> description = [] then Inl (ValueError ''Each option requires a label and description.'')
              else Inr (PDict [(''label'', PStr label), (''description'', PStr description)]))
      | _ \<Rightarrow> Inl (ValueError ''Each option must be an object.''))"

definition normalize_question ::
    "(pyval \<Rightarrow> string) \<Rightarrow> (nat \<Rightarrow> string) \<Rightarrow> bool \<Rightarrow> nat \<Rightarrow> string list \<Rightarrow> pyval \<Rightarrow> (string \<times> pyval) result"
where
  "normalize_question py_str decimal allow_other index seen_ids question =
     (case question of
        PDict q \<Rightarrow>
          (let question_id = short_text py_str q ''id'' 64 in
           if question_id = [] then Inl (ValueError ''Each question requires a non-empty id.'')
           else if question_id \<in> set seen_ids then Inl (ValueError (''Duplicate question id: '' @ question_id))
           else (case dget q ''options'' of
             PList options \<Rightarrow>
               if \<not> (2 \<le> length options \<and> length options \<le> 3)
               then Inl (ValueError ''Each question requires 2-3 options.'')
               else rbind (rmap (normalize_option py_str) options) (\<lambda>normalized_options.
                 (let question_text = short_text py_str q ''question'' 500;
                      header = short_text py_str q ''header'' 48
                  in if question_text = [] then Inl (ValueError ''Each question requires question text.'')
                     else Inr (question_id, PDict
                       [(''id'', PStr question_id),
                        (''header'', PStr (if header \<noteq> [] then header else ''Question '' @ decimal (index + 1))),
                        (''question'', PStr question_text), (''options'', PList normalized_options),
                        (''allow_other'', PBool (truthy (dget_or q ''allow_other'' (PBool allow_other))))])))
           | _ \<Rightarrow> Inl (ValueError ''Each question requires 2-3 options.'')))
      | _ \<Rightarrow> Inl (ValueError ''Each question must be an object.''))"

fun normalize_questions ::
    "(pyval \<Rightarrow> string) \<Rightarrow> (nat \<Rightarrow> string) \<Rightarrow> bool \<Rightarrow> nat \<Rightarrow> string list \<Rightarrow> pyval list \<Rightarrow> (string \<times> pyval) list result"
where
  "normalize_questions py_str decimal allow_other index seen_ids [] = Inr []"
| "normalize_questions py_str decimal allow_other index seen_ids (question # rest) =
     rbind (normalize_question py_str decimal allow_other index seen_ids question) (\<lambda>(question_id, normalized).
     rbind (normalize_questions py_str decimal allow_other (Suc index) (question_id # seen_ids) rest) (\<lambda>more.
       Inr ((question_id, normalized) # more)))"

text \<open>A Boolean is an \<open>int\<close> in Python but not accepted here.\<close>

definition clamp_timeout :: "pyval \<Rightarrow> int" where
  "clamp_timeout timeout_ms =
     (case timeout_ms of PInt i \<Rightarrow> if 60000 \<le> i \<and> i \<le> 240000 then i else 120000 | _ \<Rightarrow> 120000)"

definition normalize_ask_user_request :: "(pyval \<Rightarrow> string) \<Rightarrow> (nat \<Rightarrow> string) \<Rightarrow> pydict \<Rightarrow> pydict result" where
  "normalize_ask_user_request py_str decimal arguments =
     (case dget arguments ''questions'' of
        PList questions \<Rightarrow>
          if \<not> (1 \<le> length questions \<and> length questions \<le> 3)
          then Inl (ValueError ''ask_user requires 1-3 questions.'')
          else (let allow_other = truthy (dget_or arguments ''allow_other'' (PBool True)) in
            rbind (normalize_questions py_str decimal allow_other 0 [] questions) (\<lambda>normalized_questions.
              Inr [(''questions'', PList (map snd normalized_questions)), (''allow_other'', PBool allow_other),
                   (''timeout_ms'', PInt (clamp_timeout (dget_or arguments ''timeout_ms'' (PInt 120000))))]))
      | _ \<Rightarrow> Inl (ValueError ''ask_user requires 1-3 questions.''))"

subsection \<open>Staging the questions in the output\<close>

text \<open>
  \<open>loads\<close> decodes JSON (with the message of its exception), \<open>dumps\<close> encodes it and may raise with a message;
  \<open>new_id p n\<close> is the id that the \<open>n\<close>th call of \<open>make_output_id\<close> returns for the prefix \<open>p\<close>.
\<close>

record ask_codec =
  ac_py_str :: "pyval \<Rightarrow> string"
  ac_decimal :: "nat \<Rightarrow> string"
  ac_loads :: "pyval \<Rightarrow> string + pyval"
  ac_dumps :: "pyval \<Rightarrow> string"
  ac_new_id :: "string \<Rightarrow> nat \<Rightarrow> string"

definition parse_arguments :: "ask_codec \<Rightarrow> pyval \<Rightarrow> string + string" where
  "parse_arguments codec raw_arguments =
     rbind (ac_loads codec (py_or raw_arguments (PStr ''{}''))) (\<lambda>parsed.
       case parsed of
         PDict arguments \<Rightarrow>
           (case normalize_ask_user_request (ac_py_str codec) (ac_decimal codec) arguments of
              Inr request \<Rightarrow> Inr (ac_dumps codec (PDict request))
            | Inl (ValueError e) \<Rightarrow> Inl e
            | Inl _ \<Rightarrow> Inl [])
       | _ \<Rightarrow> Inl ''ask_user arguments must be an object.'')"

definition matches_item :: "pyval \<Rightarrow> pyval \<Rightarrow> pydict \<Rightarrow> bool result" where
  "matches_item cid tool_id existing =
     (if dget existing ''type'' \<noteq> PStr ''function_call'' then Inr False
      else if dget existing ''call_id'' = cid \<or> dget existing ''id'' = tool_id then Inr True
      else if truthy (dget existing ''call_id'') \<or> dget existing ''name'' \<noteq> PStr ASK_USER_NAME then Inr False
      else rbind (hash_key (dget existing ''status'')) (\<lambda>status.
        Inr (status \<notin> {PStr ''rejected'', PStr ''failed''})))"

fun find_existing :: "pyval \<Rightarrow> pyval \<Rightarrow> pyval list \<Rightarrow> (nat \<times> pydict) option result" where
  "find_existing cid tool_id [] = Inr None"
| "find_existing cid tool_id (item # rest) =
     (case item of
        PDict d \<Rightarrow>
          rbind (matches_item cid tool_id d) (\<lambda>b.
            if b then Inr (Some (0, d))
            else rbind (find_existing cid tool_id rest) (\<lambda>r. Inr (map_option (\<lambda>(i, d). (Suc i, d)) r)))
      | _ \<Rightarrow> Inl AttributeError)"

record staging =
  sg_output :: "pyval list"
  sg_error :: "string option"
  sg_count :: nat

definition error_item :: "string \<Rightarrow> pyval \<Rightarrow> string \<Rightarrow> pyval" where
  "error_item i cid error =
     PDict [(''type'', PStr ''function_call_output''), (''id'', PStr i), (''call_id'', cid),
       (''output'', PList [PDict [(''type'', PStr ''input_text''), (''text'', PStr error)]]), (''status'', PStr ''completed'')]"

definition staged_item :: "pyval \<Rightarrow> pyval \<Rightarrow> string option \<Rightarrow> pydict" where
  "staged_item cid arguments error =
     [(''type'', PStr ''function_call''), (''id'', cid), (''call_id'', cid), (''name'', PStr ASK_USER_NAME),
      (''arguments'', arguments), (''status'', PStr (if error \<noteq> None then ''completed'' else ''pending''))]"

text \<open>The call's id is truthy (a fresh one when the model gave none), so it is the id of the item too.\<close>

definition stage_call :: "ask_codec \<Rightarrow> pyval \<Rightarrow> staging \<Rightarrow> staging result" where
  "stage_call codec tool_call st =
     rbind (py_get tool_call ''id'' PNone) (\<lambda>tool_id.
     rbind (function_get tool_call ''arguments'' (PStr ''{}'')) (\<lambda>raw_arguments.
       (let fresh = \<not> truthy tool_id;
            cid = (if fresh then PStr (ac_new_id codec ''fc'' (sg_count st)) else tool_id);
            count = (if fresh then Suc (sg_count st) else sg_count st);
            parsed = (if sg_error st \<noteq> None then Inl [] else parse_arguments codec raw_arguments);
            arguments = (case parsed of Inr a \<Rightarrow> PStr a | Inl _ \<Rightarrow> raw_arguments);
            error = (if sg_error st \<noteq> None then sg_error st
                     else (case parsed of Inr _ \<Rightarrow> None | Inl e \<Rightarrow> Some (''Error: '' @ e)));
            item = staged_item cid arguments error
        in rbind (find_existing cid tool_id (sg_output st)) (\<lambda>existing.
             (let output = (case existing of
                    Some (i, d) \<Rightarrow> (sg_output st)[i := PDict (dmerge d item)]
                  | None \<Rightarrow> sg_output st @ [PDict item])
              in Inr (case error of
                   None \<Rightarrow> \<lparr>sg_output = output, sg_error = None, sg_count = count\<rparr>
                 | Some e \<Rightarrow> \<lparr>sg_output = output @ [error_item (ac_new_id codec ''fco'' count) cid e],
                     sg_error = Some e, sg_count = Suc count\<rparr>))))))"

definition stage_ask_user_tool_calls ::
    "ask_codec \<Rightarrow> pyval list \<Rightarrow> pyval list \<Rightarrow> (bool \<times> string option \<times> pyval list) result"
where
  "stage_ask_user_tool_calls codec tool_calls output =
     rbind (get_ask_user_tool_calls tool_calls) (\<lambda>(ask_user_calls, error).
       if ask_user_calls = [] then Inr (False, None, output)
       else rbind (rfold (stage_call codec) ask_user_calls \<lparr>sg_output = output, sg_error = error, sg_count = 0\<rparr>)
         (\<lambda>st. Inr (True, sg_error st, sg_output st)))"

subsection \<open>A request that was accepted is well formed\<close>

definition short :: "nat \<Rightarrow> string \<Rightarrow> bool" where
  "short n s = (s \<noteq> [] \<and> length s \<le> n)"

definition option_ok :: "pyval \<Rightarrow> bool" where
  "option_ok v = (\<exists>l d. v = PDict [(''label'', PStr l), (''description'', PStr d)] \<and> short 80 l \<and> short 240 d)"

definition question_ok :: "string \<Rightarrow> pyval \<Rightarrow> bool" where
  "question_ok i v =
     (short 64 i \<and> (\<exists>h t os b. v = PDict [(''id'', PStr i), (''header'', PStr h), (''question'', PStr t),
         (''options'', PList os), (''allow_other'', PBool b)] \<and>
        h \<noteq> [] \<and> short 500 t \<and> 2 \<le> length os \<and> length os \<le> 3 \<and> (\<forall>v \<in> set os. option_ok v)))"

definition request_ok :: "pydict \<Rightarrow> bool" where
  "request_ok request =
     (\<exists>ns. dget request ''questions'' = PList (map snd ns) \<and> 1 \<le> length ns \<and> length ns \<le> 3 \<and>
        distinct (map fst ns) \<and> (\<forall>(i, v) \<in> set ns. question_ok i v) \<and>
        (\<exists>t. dget request ''timeout_ms'' = PInt t \<and> 60000 \<le> t \<and> t \<le> 240000))"

lemma short_text_length: "length (short_text py_str d k n) \<le> n"
  by (simp add: short_text_def)

lemma normalize_option_ok: "normalize_option py_str v = Inr w \<Longrightarrow> option_ok w"
  by (auto simp: normalize_option_def option_ok_def short_def short_text_length Let_def split: pyval.splits if_splits)

lemma rmap_all: "rmap f xs = Inr ys \<Longrightarrow> (\<And>x y. f x = Inr y \<Longrightarrow> P y) \<Longrightarrow> \<forall>y \<in> set ys. P y"
  by (induction xs arbitrary: ys) (auto simp: rbind_Inr_iff)

lemma normalize_question_ok:
  assumes "normalize_question py_str decimal ao n seen q = Inr (i, v)"
  shows "question_ok i v" "i \<notin> set seen"
proof -
  from assms obtain d where d: "q = PDict d" by (cases q) (simp_all add: normalize_question_def)
  from assms d obtain options os where i: "i = short_text py_str d ''id'' 64" "i \<noteq> []" "i \<notin> set seen"
    and o: "2 \<le> length options" "length options \<le> 3" "rmap (normalize_option py_str) options = Inr os"
    and t: "short_text py_str d ''question'' 500 \<noteq> []"
    and v: "v = PDict [(''id'', PStr i),
      (''header'', PStr (if short_text py_str d ''header'' 48 \<noteq> [] then short_text py_str d ''header'' 48
         else ''Question '' @ decimal (n + 1))),
      (''question'', PStr (short_text py_str d ''question'' 500)), (''options'', PList os),
      (''allow_other'', PBool (truthy (dget_or d ''allow_other'' (PBool ao))))]"
    by (auto simp: normalize_question_def Let_def rbind_Inr_iff split: if_splits pyval.splits)
  have "2 \<le> length os" "length os \<le> 3" using o rmap_Inr_length [OF o(3)] by simp_all
  moreover have "\<forall>v \<in> set os. option_ok v" using rmap_all [OF o(3), of option_ok] normalize_option_ok by blast
  ultimately show "question_ok i v"
    using i t short_text_length by (auto simp: question_ok_def short_def v)
  show "i \<notin> set seen" by (rule i(3))
qed

lemma normalize_questions_ok:
  "normalize_questions py_str decimal ao n seen qs = Inr ns \<Longrightarrow>
     length ns = length qs \<and> distinct (map fst ns) \<and> set (map fst ns) \<inter> set seen = {} \<and>
     (\<forall>(i, v) \<in> set ns. question_ok i v)"
proof (induction qs arbitrary: n seen ns)
  case (Cons q qs)
  from Cons.prems obtain i v more where q: "normalize_question py_str decimal ao n seen q = Inr (i, v)"
    and m: "normalize_questions py_str decimal ao (Suc n) (i # seen) qs = Inr more" and ns: "ns = (i, v) # more"
    by (auto simp: rbind_Inr_iff)
  from Cons.IH [OF m] normalize_question_ok [OF q] show ?case by (auto simp: ns)
qed simp

text \<open>
  A request to the user that is accepted has one to three questions with distinct ids; every question has a
  text, a header and two or three options with a label and a description, all texts within their limits; and
  the time it waits lies between one and four minutes, whatever the model asked for.
\<close>

lemma accepted_requests_are_well_formed:
  assumes "normalize_ask_user_request py_str decimal arguments = Inr request"
  shows "request_ok request"
proof -
  from assms obtain qs ns where q: "dget arguments ''questions'' = PList qs" "1 \<le> length qs" "length qs \<le> 3"
    and n: "normalize_questions py_str decimal (truthy (dget_or arguments ''allow_other'' (PBool True))) 0 [] qs = Inr ns"
    and r: "request = [(''questions'', PList (map snd ns)),
      (''allow_other'', PBool (truthy (dget_or arguments ''allow_other'' (PBool True)))),
      (''timeout_ms'', PInt (clamp_timeout (dget_or arguments ''timeout_ms'' (PInt 120000))))]"
    by (auto simp: normalize_ask_user_request_def Let_def rbind_Inr_iff split: pyval.splits if_splits)
  have "60000 \<le> clamp_timeout v \<and> clamp_timeout v \<le> 240000" for v
    by (auto simp: clamp_timeout_def split: pyval.split)
  with normalize_questions_ok [OF n] q show ?thesis by (auto simp: request_ok_def r)
qed

definition sample_question :: "pyval" where
  "sample_question = PDict [(''id'', PStr '' q1 ''), (''question'', PStr ''Which one?''),
     (''options'', PList [PDict [(''label'', PStr ''a''), (''description'', PStr ''first'')],
        PDict [(''label'', PStr ''b''), (''description'', PStr ''second'')]])]"

lemma accepted_requests_are_well_formed_witness:
  "\<exists>request. normalize_ask_user_request (\<lambda>_. []) (\<lambda>_. ''1'') [(''questions'', PList [sample_question]), (''timeout_ms'', PInt 5)] =
       Inr request \<and> request_ok request \<and> dget request ''timeout_ms'' = PInt 120000"
proof -
  let ?a = "[(''questions'', PList [sample_question]), (''timeout_ms'', PInt 5)]"
  have "(case normalize_ask_user_request (\<lambda>_. []) (\<lambda>_. ''1'') ?a of Inr r \<Rightarrow> dget r ''timeout_ms'' | Inl _ \<Rightarrow> PNone) = PInt 120000"
    by code_simp
  then obtain request where r: "normalize_ask_user_request (\<lambda>_. []) (\<lambda>_. ''1'') ?a = Inr request"
    "dget request ''timeout_ms'' = PInt 120000"
    by (cases "normalize_ask_user_request (\<lambda>_. []) (\<lambda>_. ''1'') ?a") auto
  with accepted_requests_are_well_formed [OF r(1)] show ?thesis by blast
qed

end
