(* ===== verification/Py_Numbers.thy ===== *)
theory Py_Numbers
  imports Messages
begin

section \<open>Numbers of Python\<close>

text \<open>\<open>int(v)\<close> and \<open>a + b\<close>, used by the components that count tokens.\<close>

definition is_decimal :: "char \<Rightarrow> bool" where
  "is_decimal c = (let n = of_char c :: nat in 48 \<le> n \<and> n \<le> 57)"

fun digits_int :: "int \<Rightarrow> string \<Rightarrow> int option" where
  "digits_int n [] = Some n"
| "digits_int n (c # s) = (if is_decimal c then digits_int (n * 10 + (of_char c - 48)) s else None)"

text \<open>
  \<open>int(v)\<close>: of a text, optional spaces and a sign around decimal digits. Digits grouped by underscores, which
  Python also reads, do not occur in settings and count as malformed here.
\<close>

definition text_int :: "string \<Rightarrow> int option" where
  "text_int s =
     (case str_strip s of
        [] \<Rightarrow> None
      | c # r \<Rightarrow>
          if c = CHR ''-'' then (if r = [] then None else map_option uminus (digits_int 0 r))
          else if c = CHR ''+'' then (if r = [] then None else digits_int 0 r)
          else digits_int 0 (c # r))"

definition int_of :: "pyval \<Rightarrow> int result" where
  "int_of v =
     (case v of
        PInt i \<Rightarrow> Inr i
      | PBool b \<Rightarrow> Inr (if b then 1 else 0)
      | PStr s \<Rightarrow> (case text_int s of Some i \<Rightarrow> Inr i | None \<Rightarrow> Inl (ValueError ''invalid literal for int()''))
      | _ \<Rightarrow> Inl TypeError)"

text \<open>\<open>isinstance(v, int)\<close> and not a boolean, as an integer; the sum of two values.\<close>

definition is_number :: "pyval \<Rightarrow> bool" where
  "is_number v = (case v of PInt _ \<Rightarrow> True | _ \<Rightarrow> False)"

definition number_of :: "pyval \<Rightarrow> int" where
  "number_of v = (case v of PInt i \<Rightarrow> i | PBool b \<Rightarrow> if b then 1 else 0 | _ \<Rightarrow> 0)"

definition py_add :: "pyval \<Rightarrow> pyval \<Rightarrow> pyval result" where
  "py_add v w =
     (case (v, w) of
        (PStr s, PStr t) \<Rightarrow> Inr (PStr (s @ t))
      | (PList xs, PList ys) \<Rightarrow> Inr (PList (xs @ ys))
      | (PStr _, _) \<Rightarrow> Inl TypeError
      | (PList _, _) \<Rightarrow> Inl TypeError
      | (PNone, _) \<Rightarrow> Inl TypeError
      | (PDict _, _) \<Rightarrow> Inl TypeError
      | (_, PInt _) \<Rightarrow> Inr (PInt (number_of v + number_of w))
      | (_, PBool _) \<Rightarrow> Inr (PInt (number_of v + number_of w))
      | _ \<Rightarrow> Inl TypeError)"

lemma int_of_PInt [simp]: "int_of (PInt i) = Inr i"
  by (simp add: int_of_def)

lemma py_add_ints [simp]: "py_add (PInt i) (PInt j) = Inr (PInt (i + j))"
  by (simp add: py_add_def number_of_def)

lemma is_numberE: "is_number v \<Longrightarrow> (\<And>i. v = PInt i \<Longrightarrow> P) \<Longrightarrow> P"
  by (cases v) (auto simp: is_number_def)

text \<open>\<open>str(n)\<close> of an integer, and back.\<close>

definition digit_char :: "nat \<Rightarrow> char" where
  "digit_char n = char_of (48 + n)"

fun nat_text :: "nat \<Rightarrow> string" where
  "nat_text n = (if n < 10 then [digit_char n] else nat_text (n div 10) @ [digit_char (n mod 10)])"

declare nat_text.simps [simp del]

definition int_text :: "int \<Rightarrow> string" where
  "int_text i = (if i < 0 then CHR ''-'' # nat_text (nat (- i)) else nat_text (nat i))"

lemma digit_char_value: "n < 10 \<Longrightarrow> of_char (digit_char n) = (48 + n :: nat)"
  by (simp add: digit_char_def)

lemma digit_char_int: "n < 10 \<Longrightarrow> of_char (digit_char n) = (48 + int n)"
  using digit_char_value [of n] by (metis of_nat_of_char of_nat_add of_nat_numeral)

lemma is_decimal_digit: "n < 10 \<Longrightarrow> is_decimal (digit_char n)"
  by (simp add: is_decimal_def digit_char_value)

lemma digits_int_append: "digits_int n (s @ t) = (case digits_int n s of None \<Rightarrow> None | Some m \<Rightarrow> digits_int m t)"
  by (induction n s rule: digits_int.induct) auto

lemma digits_int_nat_text: "digits_int 0 (nat_text n) = Some (int n)"
proof (induction n rule: nat_text.induct)
  case (1 n)
  have "int (n div 10) * 10 + int (n mod 10) = int n" by presburger
  with 1 show ?case
    by (subst nat_text.simps) (auto simp: digits_int_append is_decimal_digit digit_char_int)
qed

lemma nat_text_decimal: "\<forall>c \<in> set (nat_text n). is_decimal c"
proof (induction n rule: nat_text.induct)
  case (1 n)
  then show ?case by (subst nat_text.simps) (auto simp: is_decimal_digit)
qed

lemma nat_text_not_Nil [simp]: "nat_text n \<noteq> []"
  by (subst nat_text.simps) auto

lemma strip_no_spaces: "\<forall>c \<in> set s. \<not> is_space_char c \<Longrightarrow> str_strip s = s"
proof -
  assume s: "\<forall>c \<in> set s. \<not> is_space_char c"
  have "\<forall>c \<in> set t. \<not> is_space_char c \<Longrightarrow> dropWhile is_space_char t = t" for t
    by (cases t) auto
  from this [of s] this [of "rev s"] s show ?thesis by (simp add: str_strip_def)
qed

lemma decimal_not_space: "is_decimal c \<Longrightarrow> \<not> is_space_char c \<and> c \<noteq> CHR ''-'' \<and> c \<noteq> CHR ''+''"
  by (auto simp: is_decimal_def is_space_char_def Let_def)

lemma minus_not_space [simp]: "\<not> is_space_char (CHR ''-'')"
  by code_simp

lemma text_int_of_int_text: "text_int (int_text i) = Some i"
proof -
  obtain c r where n: "nat_text (nat \<bar>i\<bar>) = c # r"
    by (cases "nat_text (nat \<bar>i\<bar>)") auto
  have d: "\<forall>x \<in> set (c # r). is_decimal x" and v: "digits_int 0 (c # r) = Some \<bar>i\<bar>"
    using nat_text_decimal [of "nat \<bar>i\<bar>"] digits_int_nat_text [of "nat \<bar>i\<bar>"] n by simp_all
  have "str_strip (c # r) = c # r" "str_strip (CHR ''-'' # c # r) = CHR ''-'' # c # r"
    using d decimal_not_space by (auto intro!: strip_no_spaces)
  moreover have "c \<noteq> CHR ''-''" "c \<noteq> CHR ''+''" using d decimal_not_space [of c] by auto
  moreover have "int_text i = (if i < 0 then CHR ''-'' # c # r else c # r)"
    using n by (cases "i < 0") (simp_all add: int_text_def)
  ultimately show ?thesis using v by (simp add: text_int_def abs_if del: digits_int.simps)
qed

end
