(* ===== verification/Context_Compaction.thy ===== *)
theory Context_Compaction
  imports Chat_History Py_Numbers
begin

section \<open>Compacting the context of a chat\<close>

text \<open>
  Models \<open>utils/context_compaction.py\<close>: when a conversation gets too long for a request, its older messages are
  replaced by a summary, and the summary is stored on the first message kept, where later requests find it. The
  JSON encoder that sizes are estimated from, the text form of a value, the settings, and the model call that
  writes the summary are arguments. Sizes are whole numbers; the percentage shown to the user, a rounded
  quotient of floating-point numbers, is left out. The events sent to the browser are not modelled.
\<close>

subsection \<open>Settings\<close>

definition parse_positive_int :: "pyval \<Rightarrow> int option" where
  "parse_positive_int value = (case int_of value of Inr i \<Rightarrow> if i > 0 then Some i else None | Inl _ \<Rightarrow> None)"

definition clamp_retention_percentage :: "pyval \<Rightarrow> int" where
  "clamp_retention_percentage value =
     (let parsed = (case int_of value of Inr i \<Rightarrow> i | Inl _ \<Rightarrow> 40) in min 50 (max 10 parsed))"

record compaction_config =
  cc_enable :: bool
  cc_token_threshold :: int
  cc_token_cap :: int
  cc_retention_percentage :: int

definition load_config :: "pydict \<Rightarrow> compaction_config" where
  "load_config values =
     (let token_threshold = (case parse_positive_int (dget values ''chat.context_compaction.token_threshold'') of
                               Some i \<Rightarrow> i | None \<Rightarrow> 80000)
      in \<lparr>cc_enable = truthy (dget values ''chat.context_compaction.enable''),
          cc_token_threshold = token_threshold,
          cc_token_cap = (case parse_positive_int (dget values ''chat.context_compaction.token_cap'') of
                            Some i \<Rightarrow> i | None \<Rightarrow> token_threshold),
          cc_retention_percentage = clamp_retention_percentage (dget values ''chat.context_compaction.retention_percentage'')\<rparr>)"

definition resolve_token_threshold :: "int \<Rightarrow> int \<Rightarrow> pydict \<Rightarrow> int result" where
  "resolve_token_threshold global_threshold global_cap metadata =
     rbind (py_get (py_or (dget metadata ''params'') (PDict [])) ''compact_token_threshold'' PNone) (\<lambda>v.
       Inr (min (case parse_positive_int v of Some i \<Rightarrow> i | None \<Rightarrow> global_threshold) global_cap))"

subsection \<open>Sizes\<close>

definition usage_token_count :: "pydict \<Rightarrow> int result" where
  "usage_token_count usage =
     rbind (int_of (py_or (dget usage ''prompt_tokens'') (py_or (dget usage ''prompt_eval_count'') (PInt 0)))) (\<lambda>prompt.
     rbind (if prompt = 0 \<and> (dget usage ''prompt_n'' \<noteq> PNone \<or> dget usage ''cache_n'' \<noteq> PNone)
            then rbind (int_of (py_or (dget usage ''prompt_n'') (PInt 0))) (\<lambda>n.
                 rbind (int_of (py_or (dget usage ''cache_n'') (PInt 0))) (\<lambda>c. Inr (n + c)))
            else Inr prompt) (\<lambda>prompt.
     rbind (if prompt = 0 then int_of (py_or (dget usage ''input_tokens'') (PInt 0)) else Inr prompt) (\<lambda>prompt.
     rbind (int_of (py_or (dget usage ''completion_tokens'') (py_or (dget usage ''output_tokens'')
              (py_or (dget usage ''eval_count'') (py_or (dget usage ''predicted_n'') (PInt 0)))))) (\<lambda>completion.
       Inr (prompt + completion)))))"

definition estimate_tokens :: "(pyval \<Rightarrow> string) \<Rightarrow> pyval \<Rightarrow> int" where
  "estimate_tokens dumps value =
     (if value = PNone then 0
      else (let text = (case value of PStr s \<Rightarrow> s | _ \<Rightarrow> dumps value)
            in if text = [] then 0 else max 1 (int (length text) div 4)))"

definition estimate_block :: "(pyval \<Rightarrow> string) \<Rightarrow> pyval \<Rightarrow> int result" where
  "estimate_block dumps item =
     (case item of
        PDict d \<Rightarrow>
          rbind (hash_key (dget d ''type'')) (\<lambda>type.
            Inr (if type \<in> {PStr ''image'', PStr ''image_url''} then 1000
                 else estimate_tokens dumps (py_or (dget d ''text'') (py_or (dget d ''content'') item))))
      | _ \<Rightarrow> Inr (estimate_tokens dumps item))"

definition estimate_message :: "(pyval \<Rightarrow> string) \<Rightarrow> pydict \<Rightarrow> int result" where
  "estimate_message dumps message =
     rbind (case dget message ''content'' of
              PList items \<Rightarrow> rbind (rmap (estimate_block dumps) items) (\<lambda>ns. Inr (sum_list ns))
            | content \<Rightarrow> Inr (estimate_tokens dumps content)) (\<lambda>content.
       Inr (4 + content + estimate_tokens dumps (dget message ''output'') +
            estimate_tokens dumps (dget message ''tool_calls'') + estimate_tokens dumps (dget message ''files'')))"

definition estimate_messages_tokens :: "(pyval \<Rightarrow> string) \<Rightarrow> pydict list \<Rightarrow> int result" where
  "estimate_messages_tokens dumps messages = rbind (rmap (estimate_message dumps) messages) (\<lambda>ns. Inr (sum_list ns))"

text \<open>
  From the last message back, the first one that records a usage: its tokens, and the messages after it. The
  messages come in reverse; \<open>after\<close> are those already passed.
\<close>

fun latest_usage :: "pydict list \<Rightarrow> pydict list \<Rightarrow> (int \<times> pydict list) option result" where
  "latest_usage [] after = Inr None"
| "latest_usage (message # rest) after =
     rbind (if truthy (dget message ''usage'') then Inr (dget message ''usage'')
            else py_get (py_or (dget message ''info'') (PDict [])) ''usage'' PNone) (\<lambda>usage.
     rbind (case usage of PDict d \<Rightarrow> usage_token_count d | _ \<Rightarrow> Inr 0) (\<lambda>tokens.
       if tokens \<noteq> 0 then Inr (Some (tokens, after)) else latest_usage rest (message # after)))"

definition exceeds_token_threshold ::
    "(pyval \<Rightarrow> string) \<Rightarrow> pydict list \<Rightarrow> string \<Rightarrow> string option \<Rightarrow> int \<Rightarrow> bool result"
where
  "exceeds_token_threshold dumps messages system_prompt summary threshold =
     (if threshold \<le> 0 then Inr False
      else rbind (latest_usage (rev messages) []) (\<lambda>found.
        case found of
          Some (tokens, after) \<Rightarrow>
            rbind (estimate_messages_tokens dumps after) (\<lambda>n. Inr (tokens + n > threshold))
        | None \<Rightarrow>
            rbind (estimate_messages_tokens dumps messages) (\<lambda>n.
              Inr (estimate_tokens dumps (PStr system_prompt) +
                   estimate_tokens dumps (PStr (case summary of None \<Rightarrow> [] | Some s \<Rightarrow> s)) + n > threshold))))"

subsection \<open>Where to cut\<close>

text \<open>The summary a message carries, if it is a text with more than spaces.\<close>

definition checkpoint_of :: "pydict \<Rightarrow> string option" where
  "checkpoint_of message =
     (case py_or (dget message ''contextSummary'') (dget message ''context_summary'') of
        PStr s \<Rightarrow> if str_strip s \<noteq> [] then Some s else None
      | _ \<Rightarrow> None)"

fun latest_checkpoint :: "nat \<Rightarrow> pydict list \<Rightarrow> (nat \<times> string) option" where
  "latest_checkpoint i [] = None"
| "latest_checkpoint i (message # rest) =
     (case latest_checkpoint (Suc i) rest of
        Some r \<Rightarrow> Some r
      | None \<Rightarrow> map_option (\<lambda>s. (i, s)) (checkpoint_of message))"

definition apply_latest_summary_checkpoint :: "pydict list \<Rightarrow> pydict list \<times> string option" where
  "apply_latest_summary_checkpoint messages =
     (case latest_checkpoint 0 messages of
        None \<Rightarrow> (messages, None)
      | Some (summary_idx, summary) \<Rightarrow> (drop summary_idx messages, Some summary))"

definition find_compaction_boundary :: "pydict list \<Rightarrow> int \<Rightarrow> nat" where
  "find_compaction_boundary messages retention_percentage =
     (let n = length messages;
          retention = clamp_retention_percentage (PInt retention_percentage);
          keep_count = max 2 (nat (int n * retention div 100));
          target = max 1 (n - keep_count);
          boundaries = tl (filter (\<lambda>i. role_is (messages ! i) ''user'') [0..<n])
      in (case filter (\<lambda>i. i \<le> target) boundaries of [] \<Rightarrow> 0 | bs \<Rightarrow> last bs))"

subsection \<open>The summary\<close>

text \<open>
  The text of the response of the model that writes the summary: a list of one response, or a response;
  \<open>text_value\<close> fails on what is not a text, where the code fails when it strips or joins it.
\<close>

definition content_text :: "pyval \<Rightarrow> pyval" where
  "content_text content =
     (case content of PDict d \<Rightarrow> py_or (dget d ''text'') (py_or (dget d ''content'') (PStr [])) | _ \<Rightarrow> PStr [])"

definition output_parts :: "pyval \<Rightarrow> pyval list result" where
  "output_parts item =
     rbind (py_get item ''content'' PNone) (\<lambda>v. rbind (py_iter (py_or v (PList []))) (\<lambda>contents.
       Inr (map content_text (filter is_dict contents))))"

definition text_value :: "pyval \<Rightarrow> string result" where
  "text_value v = (case v of PStr s \<Rightarrow> Inr s | _ \<Rightarrow> Inl TypeError)"

definition response_text :: "pyval \<Rightarrow> pyval result" where
  "response_text response =
     (let response = (case response of PList [r] \<Rightarrow> r | _ \<Rightarrow> response) in
      case response of
        PDict d \<Rightarrow>
          rbind (if truthy (dget d ''choices'') then py_iter (dget d ''choices'') else Inr []) (\<lambda>choices.
          case choices of
            choice # _ \<Rightarrow>
              rbind (py_get choice ''message'' PNone) (\<lambda>m.
              rbind (py_get (py_or m (PDict [])) ''content'' PNone) (\<lambda>content.
                if truthy content then Inr content
                else rbind (py_get (py_or m (PDict [])) ''reasoning_content'' PNone) (\<lambda>r. Inr (py_or r (PStr [])))))
          | [] \<Rightarrow>
              rbind (py_iter (py_or (dget d ''output'') (PList []))) (\<lambda>items.
              rbind (rmap output_parts items) (\<lambda>parts.
              rbind (rmap text_value (filter truthy (concat parts))) (\<lambda>texts.
                Inr (PStr (str_join [CHR 0x0A] texts))))))
      | _ \<Rightarrow> Inr (PStr []))"

text \<open>What is used when the model returns nothing: the old summary and the starts of the messages.\<close>

definition fallback_part :: "(pyval \<Rightarrow> string) \<Rightarrow> pydict \<Rightarrow> string list result" where
  "fallback_part py_str message =
     (let content = get_content_from_message py_str message in
      if \<not> truthy content then Inr []
      else rbind (case content of
               PStr s \<Rightarrow> Inr (take 500 s)
             | PList xs \<Rightarrow> Inr (py_str (PList (take 500 xs)))
             | PDict _ \<Rightarrow> Inl (KeyError [])
             | _ \<Rightarrow> Inl TypeError) (\<lambda>start.
           Inr [''- '' @ text_of py_str (dget_or message ''role'' (PStr ''unknown'')) @ '': '' @ start]))"

definition fallback_summary :: "(pyval \<Rightarrow> string) \<Rightarrow> string option \<Rightarrow> pydict list \<Rightarrow> string result" where
  "fallback_summary py_str previous_summary compacted_messages =
     rbind (rmap (fallback_part py_str) compacted_messages) (\<lambda>parts.
       Inr (take 4000 (str_join [CHR 0x0A]
         ((case previous_summary of None \<Rightarrow> [] | Some s \<Rightarrow> if s = [] then [] else [s]) @ concat parts))))"

definition generated_summary ::
    "(pyval \<Rightarrow> string) \<Rightarrow> pyval \<Rightarrow> pydict list \<Rightarrow> string option \<Rightarrow> string result"
where
  "generated_summary py_str response compacted_messages previous_summary =
     rbind (response_text response) (\<lambda>text.
       case text of
         PStr s \<Rightarrow> if str_strip s \<noteq> [] then Inr (str_strip s)
                   else fallback_summary py_str previous_summary compacted_messages
       | _ \<Rightarrow> Inl AttributeError)"

subsection \<open>Compacting a request\<close>

text \<open>
  \<open>complete\<close> stands for the call that fills the prompt and asks a model: given the messages to summarise, those
  kept and the old summary, its response or what it raises. Besides the messages, the summary and whether
  anything was compacted, the result has the checkpoint written: the chat, the message and the summary.
\<close>

type_synonym completion = "pydict list \<Rightarrow> pydict list \<Rightarrow> string option \<Rightarrow> pyval result"

definition generate_summary ::
    "completion \<Rightarrow> (pyval \<Rightarrow> string) \<Rightarrow> pydict list \<Rightarrow> pydict list \<Rightarrow> string option \<Rightarrow> string result"
where
  "generate_summary complete py_str compacted_messages recent_messages previous_summary =
     rbind (complete compacted_messages recent_messages previous_summary) (\<lambda>response.
       generated_summary py_str response compacted_messages previous_summary)"

definition saved_chat :: "pyval \<Rightarrow> bool result" where
  "saved_chat chat_id =
     (case chat_id of
        PStr s \<Rightarrow> Inr (is_saved_chat_id (Some s))
      | _ \<Rightarrow> if truthy chat_id then Inl AttributeError else Inr False)"

definition checkpoint_write :: "pydict \<Rightarrow> pydict list \<Rightarrow> string \<Rightarrow> (pyval \<times> pyval \<times> string) option result" where
  "checkpoint_write metadata recent_messages summary =
     (let chat_id = dget metadata ''chat_id'';
          checkpoint_message_id = py_or (dget (hd recent_messages) ''id'')
            (py_or (dget metadata ''user_message_id'') (dget metadata ''message_id''))
      in rbind (saved_chat chat_id) (\<lambda>saved.
           Inr (if saved \<and> truthy checkpoint_message_id then Some (chat_id, checkpoint_message_id, summary) else None)))"

definition split_system :: "pydict list \<Rightarrow> pydict list \<times> pydict list" where
  "split_system messages =
     (case messages of
        [] \<Rightarrow> ([], [])
      | message # rest \<Rightarrow> if role_is message ''system'' then ([message], rest) else ([], messages))"

record request_context =
  rc_messages :: "pydict list"
  rc_summary :: "string option"
  rc_compacted :: bool
  rc_checkpoint :: "(pyval \<times> pyval \<times> string) option"

definition compact_messages_for_request ::
    "compaction_config \<Rightarrow> completion \<Rightarrow> (pyval \<Rightarrow> string) \<Rightarrow> (pyval \<Rightarrow> string) \<Rightarrow> pydict list \<Rightarrow> pydict \<Rightarrow> string \<Rightarrow>
     request_context result"
where
  "compact_messages_for_request config complete py_str dumps all_messages metadata system_prompt =
     (if \<not> cc_enable config then Inr \<lparr>rc_messages = all_messages, rc_summary = None, rc_compacted = False, rc_checkpoint = None\<rparr>
      else
        let (system_messages, rest) = split_system all_messages;
            (messages, previous_summary) = apply_latest_summary_checkpoint rest;
            unchanged = \<lparr>rc_messages = system_messages @ messages, rc_summary = previous_summary,
                         rc_compacted = False, rc_checkpoint = None\<rparr>
        in rbind (resolve_token_threshold (cc_token_threshold config) (cc_token_cap config) metadata) (\<lambda>token_threshold.
           rbind (exceeds_token_threshold dumps messages system_prompt previous_summary token_threshold) (\<lambda>exceeds.
             if \<not> exceeds \<or> length messages \<le> 3 then Inr unchanged
             else
               let boundary = find_compaction_boundary messages (cc_retention_percentage config);
                   compacted_messages = take boundary messages;
                   recent_messages = drop boundary messages
               in if compacted_messages = [] \<or> recent_messages = [] then Inr unchanged
                  else rbind (generate_summary complete py_str compacted_messages recent_messages previous_summary) (\<lambda>summary.
                       rbind (checkpoint_write metadata recent_messages summary) (\<lambda>checkpoint.
                         Inr \<lparr>rc_messages = system_messages @ recent_messages, rc_summary = Some summary,
                              rc_compacted = True, rc_checkpoint = checkpoint\<rparr>)))))"

subsection \<open>Compacting a branch and its size\<close>

definition chat_history :: "pydict \<Rightarrow> pyval" where
  "chat_history chat_data = py_or (dget chat_data ''history'') (PDict [])"

definition chat_current_id :: "pyval \<Rightarrow> pydict \<Rightarrow> pyval result" where
  "chat_current_id current_message_id chat_data =
     rbind (if truthy current_message_id then Inr current_message_id
            else py_get (chat_history chat_data) ''currentId'' PNone) (\<lambda>current_id.
       let current_id = py_or current_id (py_or (dget chat_data ''currentId'') (dget chat_data ''branchPointMessageId''))
       in if truthy current_id then Inr current_id
          else (case dget chat_data ''messages'' of
                  PList messages \<Rightarrow>
                    if messages = [] then Inr current_id else py_get (last messages) ''id'' PNone
                | _ \<Rightarrow> Inr current_id))"

text \<open>The messages of the table, or when it has none those of the history; and the branch of a message in them.\<close>

definition messages_or_history :: "pydict \<Rightarrow> pydict \<Rightarrow> pydict result" where
  "messages_or_history messages_map chat_data =
     (if messages_map \<noteq> [] then Inr messages_map
      else rbind (py_get (chat_history chat_data) ''messages'' PNone) (\<lambda>v.
        case py_or v (PDict []) of PDict m \<Rightarrow> Inr m | _ \<Rightarrow> Inl AttributeError))"

fun message_dict :: "pyval \<Rightarrow> pydict result" where
  "message_dict (PDict d) = Inr d"
| "message_dict _ = Inl AttributeError"

definition chat_branch :: "pydict \<Rightarrow> pyval \<Rightarrow> pydict list result" where
  "chat_branch m current_id = rbind (get_message_list m current_id) (rmap message_dict)"

definition skipped :: "string \<Rightarrow> pydict" where
  "skipped reason = [(''ok'', PBool True), (''compacted'', PBool False), (''reason'', PStr reason)]"

definition compact_chat_branch ::
    "compaction_config \<Rightarrow> completion \<Rightarrow> (pyval \<Rightarrow> string) \<Rightarrow> pydict \<Rightarrow> pyval \<Rightarrow> pydict \<Rightarrow>
     (pydict \<times> (pyval \<times> string) option) result"
where
  "compact_chat_branch config complete py_str messages_map current_message_id chat_data =
     (if \<not> cc_enable config then Inr (skipped ''disabled'', None)
      else rbind (chat_current_id current_message_id chat_data) (\<lambda>current_id.
        if \<not> truthy current_id then Inr (skipped ''empty'', None)
        else rbind (messages_or_history messages_map chat_data) (\<lambda>m.
             rbind (chat_branch m current_id) (\<lambda>branch.
               let (messages, previous_summary) = apply_latest_summary_checkpoint branch;
                   compacted_messages = butlast messages;
                   recent_messages = drop (length messages - 1) messages
               in if compacted_messages = [] \<or> recent_messages = [] then Inr (skipped ''too_short'', None)
                  else rbind (generate_summary complete py_str compacted_messages recent_messages previous_summary) (\<lambda>summary.
                    Inr ([(''ok'', PBool True), (''compacted'', PBool True),
                          (''dropped_messages'', PInt (int (length compacted_messages))),
                          (''kept_messages'', PInt (int (length recent_messages))),
                          (''summary_chars'', PInt (int (length summary)))],
                         Some (current_id, summary)))))))"

text \<open>The tokens and the threshold of \<open>get_chat_context_usage\<close>, \<open>None\<close> where it returns nothing.\<close>

definition get_chat_context_usage ::
    "compaction_config \<Rightarrow> (pyval \<Rightarrow> string) \<Rightarrow> pydict \<Rightarrow> pyval \<Rightarrow> pydict \<Rightarrow> pyval \<Rightarrow> (int \<times> int) option result"
where
  "get_chat_context_usage config dumps messages_map current_message_id chat_data model_id =
     rbind (chat_current_id current_message_id chat_data) (\<lambda>current_id.
       if \<not> truthy current_id then Inr None
       else rbind (messages_or_history messages_map chat_data) (\<lambda>m.
            rbind (chat_branch m current_id) (\<lambda>branch.
              if branch = [] \<or> \<not> cc_enable config then Inr None
              else (case py_or (dget chat_data ''params'') (PDict []) of
                      PDict params \<Rightarrow>
                        rbind (resolve_token_threshold (cc_token_threshold config) (cc_token_cap config)
                                [(''params'', PDict (if truthy model_id then dset ''model'' model_id params else params))]) (\<lambda>threshold.
                          let (messages, previous_summary) = apply_latest_summary_checkpoint branch
                          in rbind (latest_usage (rev messages) []) (\<lambda>found.
                               case found of
                                 Some (tokens, after) \<Rightarrow>
                                   rbind (estimate_messages_tokens dumps after) (\<lambda>n. Inr (Some (tokens + n, threshold)))
                               | None \<Rightarrow>
                                   rbind (estimate_messages_tokens dumps messages) (\<lambda>n.
                                     Inr (Some (estimate_tokens dumps (PStr (case previous_summary of None \<Rightarrow> [] | Some s \<Rightarrow> s)) + n,
                                                threshold)))))
                    | PList _ \<Rightarrow> Inl (if truthy model_id then TypeError else AttributeError)
                    | _ \<Rightarrow> Inl AttributeError))))"

subsection \<open>A checkpoint is found again\<close>

lemma latest_checkpoint_none: "latest_checkpoint i ms = None \<longleftrightarrow> (\<forall>m \<in> set ms. checkpoint_of m = None)"
  by (induction ms arbitrary: i) (auto split: option.splits)

lemma latest_checkpoint_at:
  assumes "checkpoint_of m = Some s" "\<forall>x \<in> set rest. checkpoint_of x = None"
  shows "latest_checkpoint i (pre @ m # rest) = Some (i + length pre, s)"
proof (induction pre arbitrary: i)
  case Nil
  have "latest_checkpoint (Suc i) rest = None" using assms(2) by (simp add: latest_checkpoint_none)
  then show ?case using assms(1) by simp
qed simp

lemma latest_checkpointE:
  assumes "latest_checkpoint i ms = Some (j, s)"
  obtains pre m rest where "ms = pre @ m # rest" "j = i + length pre" "checkpoint_of m = Some s"
    "\<forall>x \<in> set rest. checkpoint_of x = None"
proof -
  have "\<exists>pre m rest. ms = pre @ m # rest \<and> j = i + length pre \<and> checkpoint_of m = Some s \<and>
      (\<forall>x \<in> set rest. checkpoint_of x = None)"
    using assms
  proof (induction ms arbitrary: i)
    case (Cons m ms)
    show ?case
    proof (cases "latest_checkpoint (Suc i) ms")
      case None
      then have "\<forall>x \<in> set ms. checkpoint_of x = None" by (simp add: latest_checkpoint_none)
      moreover have "j = i" "checkpoint_of m = Some s" using Cons.prems None by auto
      ultimately show ?thesis by (intro exI [of _ "[]"] exI [of _ m] exI [of _ ms]) simp
    next
      case (Some r)
      then have "latest_checkpoint (Suc i) ms = Some (j, s)" using Cons.prems by simp
      from Cons.IH [OF this] obtain pre m' rest where "ms = pre @ m' # rest" "j = Suc i + length pre"
        "checkpoint_of m' = Some s" "\<forall>x \<in> set rest. checkpoint_of x = None" by blast
      then show ?thesis by (intro exI [of _ "m # pre"] exI [of _ m'] exI [of _ rest]) simp
    qed
  qed simp
  with that show thesis by blast
qed

lemma apply_checkpoint_at:
  assumes "checkpoint_of m = Some s" "\<forall>x \<in> set rest. checkpoint_of x = None"
  shows "apply_latest_summary_checkpoint (pre @ m # rest) = (m # rest, Some s)"
  using latest_checkpoint_at [OF assms, of 0 pre] by (simp add: apply_latest_summary_checkpoint_def)

lemma apply_checkpoint_split:
  assumes "apply_latest_summary_checkpoint ms = (ms', s)"
  obtains pre where "ms = pre @ ms'" "\<forall>x \<in> set (tl ms'). checkpoint_of x = None"
proof (cases "latest_checkpoint 0 ms")
  case None
  then have "\<forall>x \<in> set ms. checkpoint_of x = None" by (simp add: latest_checkpoint_none)
  moreover have "ms' = ms" using assms None by (simp add: apply_latest_summary_checkpoint_def)
  ultimately show thesis using that [of "[]"] by (cases ms) auto
next
  case (Some r)
  then obtain j t where "latest_checkpoint 0 ms = Some (j, t)" by (cases r) auto
  moreover from this obtain pre m rest where "ms = pre @ m # rest" "j = length pre"
    "\<forall>x \<in> set rest. checkpoint_of x = None" by (auto elim: latest_checkpointE)
  moreover from calculation have "ms' = m # rest" using assms by (auto simp: apply_latest_summary_checkpoint_def)
  ultimately show thesis by (intro that [of pre]) simp_all
qed

lemma checkpoint_of_stored: "str_strip s \<noteq> [] \<Longrightarrow> checkpoint_of (dset ''contextSummary'' (PStr s) d) = Some s"
  by (cases s) (auto simp: checkpoint_of_def py_or_def str_strip_def)

lemma find_compaction_boundaryD:
  assumes "find_compaction_boundary ms r \<noteq> 0" "3 < length ms"
  defines "b \<equiv> find_compaction_boundary ms r"
  shows "b < length ms" "role_is (ms ! b) ''user''" "\<exists>i < b. role_is (ms ! i) ''user''"
    "b + max 2 (nat (int (length ms) * clamp_retention_percentage (PInt r) div 100)) \<le> length ms"
proof -
  let ?n = "length ms" and ?p = "clamp_retention_percentage (PInt r)"
  let ?keep = "max 2 (nat (int ?n * ?p div 100))"
  let ?us = "filter (\<lambda>i. role_is (ms ! i) ''user'') [0..<?n]"
  let ?bs = "filter (\<lambda>i. i \<le> max 1 (?n - ?keep)) (tl ?us)"
  have b: "b = (case ?bs of [] \<Rightarrow> 0 | bs \<Rightarrow> last bs)" by (simp add: b_def find_compaction_boundary_def Let_def)
  with assms(1) have ne: "?bs \<noteq> []" by (metis b_def list.simps(4))
  then have "b = last ?bs" unfolding b by (cases ?bs) simp_all
  with ne have "b \<in> set ?bs" by (metis last_in_set)
  then have in_tl: "b \<in> set (tl ?us)" and le: "b \<le> max 1 (?n - ?keep)" by auto
  from in_tl have us: "?us \<noteq> []" "b \<in> set ?us" by (cases ?us; simp)+
  then show "b < length ms" "role_is (ms ! b) ''user''" by auto
  have "sorted_wrt (<) ?us" by (intro sorted_wrt_filter) simp
  with us(1) in_tl have "hd ?us < b" by (cases ?us) auto
  moreover have "hd ?us \<in> set ?us" using us(1) by (rule hd_in_set)
  ultimately show "\<exists>i < b. role_is (ms ! i) ''user''" by auto
  have "?p \<le> 50" "0 \<le> ?p" by (simp_all add: clamp_retention_percentage_def Let_def)
  then have "int ?n * ?p \<le> int ?n * 50" by (simp add: mult_left_mono)
  then have "int ?n * ?p div 100 \<le> int ?n * 50 div 100" by (rule zdiv_mono1) simp
  then have "?keep < ?n" using assms(2) by linarith
  with le show "b + ?keep \<le> length ms" by linarith
qed

lemma split_system_append: "split_system ms = (sys, rest) \<Longrightarrow> ms = sys @ rest"
  by (auto simp: split_system_def split: list.splits if_splits)

text \<open>
  When a request compacts its conversation with a summary of more than spaces, what it sends is the system message, if the
  conversation starts with one, and the newest messages, from a user turn that is not the first one on: at least
  two messages, and at least the configured share of those since the last summary. Storing the summary on the
  first message kept makes the next request find exactly the kept messages and this summary, whatever summaries
  the older messages carry.
\<close>

lemma checkpoint_is_restored:
  assumes "compact_messages_for_request config complete py_str dumps all_messages metadata prompt = Inr r"
    and "rc_compacted r" "rc_summary r = Some s" "str_strip s \<noteq> []"
  shows "\<exists>sys older dropped first rest. all_messages = sys @ older @ dropped @ first # rest \<and>
    split_system all_messages = (sys, older @ dropped @ first # rest) \<and>
    rc_messages r = sys @ first # rest \<and> role_is first ''user'' \<and> (\<exists>m \<in> set dropped. role_is m ''user'') \<and>
    max 2 (nat (int (length dropped + length (first # rest)) *
      clamp_retention_percentage (PInt (cc_retention_percentage config)) div 100)) \<le> length (first # rest) \<and>
    (let stored = dset ''contextSummary'' (PStr s) first
     in apply_latest_summary_checkpoint (older @ dropped @ stored # rest) = (stored # rest, Some s))"
proof -
  obtain sys conv where split: "split_system all_messages = (sys, conv)" by (cases "split_system all_messages")
  obtain ms prev where ap: "apply_latest_summary_checkpoint conv = (ms, prev)"
    by (cases "apply_latest_summary_checkpoint conv")
  let ?b = "find_compaction_boundary ms (cc_retention_percentage config)"
  from assms(1,2) have kept: "3 < length ms" "take ?b ms \<noteq> []" "rc_messages r = sys @ drop ?b ms"
    by (auto simp: compact_messages_for_request_def split ap rbind_Inr_iff Let_def split: if_splits)
  from kept(2) have "?b \<noteq> 0" by auto
  note b = find_compaction_boundaryD [OF this kept(1)]
  obtain older where older: "conv = older @ ms" "\<forall>x \<in> set (tl ms). checkpoint_of x = None"
    using ap by (rule apply_checkpoint_split)
  from b(1) have ms: "ms = take ?b ms @ ms ! ?b # drop (Suc ?b) ms" by (rule id_take_nth_drop)
  from b(1) have dr: "drop ?b ms = ms ! ?b # drop (Suc ?b) ms" by (simp add: Cons_nth_drop_Suc)
  have "set (drop (Suc ?b) ms) \<subseteq> set (tl ms)" by (metis drop_Suc set_drop_subset)
  then have rest: "\<forall>x \<in> set (drop (Suc ?b) ms). checkpoint_of x = None" using older(2) by auto
  from b(3) obtain i where i: "i < ?b" "role_is (ms ! i) ''user''" by blast
  with b(1) have "ms ! i \<in> set (take ?b ms)" by (auto simp: in_set_conv_nth)
  with i(2) have user: "\<exists>m \<in> set (take ?b ms). role_is m ''user''" by blast
  let ?dropped = "take ?b ms" and ?first = "ms ! ?b" and ?rest = "drop (Suc ?b) ms"
  have conv: "conv = older @ ?dropped @ ?first # ?rest" using older(1) ms by simp
  have gen: "b + k \<le> n \<Longrightarrow> k \<le> n - b" for b k n :: nat by simp
  have lens: "length ?dropped + (length ms - ?b) = length ms" using b(1) by simp
  have "all_messages = sys @ older @ ?dropped @ ?first # ?rest" using split_system_append [OF split] conv by simp
  moreover have "split_system all_messages = (sys, older @ ?dropped @ ?first # ?rest)" using split conv by simp
  moreover have "rc_messages r = sys @ ?first # ?rest" using kept(3) dr by simp
  moreover have "max 2 (nat (int (length ?dropped + length (?first # ?rest)) *
      clamp_retention_percentage (PInt (cc_retention_percentage config)) div 100)) \<le> length (?first # ?rest)"
    using gen [OF b(4)] by (simp only: lens dr [symmetric] length_drop)
  moreover have "let stored = dset ''contextSummary'' (PStr s) ?first
     in apply_latest_summary_checkpoint (older @ ?dropped @ stored # ?rest) = (stored # ?rest, Some s)"
    unfolding Let_def append_assoc [symmetric]
    by (rule apply_checkpoint_at [OF checkpoint_of_stored [OF assms(4)] rest])
  ultimately show ?thesis using b(2) user
    by blast
qed

definition sample_long_chat :: "pydict list" where
  "sample_long_chat =
     [[(''role'', PStr ''system''), (''content'', PStr ''be brief'')],
      [(''id'', PStr ''a''), (''role'', PStr ''user''), (''content'', PStr ''one'')],
      [(''id'', PStr ''b''), (''role'', PStr ''assistant''), (''content'', PStr ''two'')],
      [(''id'', PStr ''c''), (''role'', PStr ''user''), (''content'', PStr ''three'')],
      [(''id'', PStr ''d''), (''role'', PStr ''assistant''), (''content'', PStr ''four''),
       (''usage'', PDict [(''prompt_tokens'', PInt 900), (''completion_tokens'', PInt 200)])]]"

definition sample_config :: compaction_config where
  "sample_config = \<lparr>cc_enable = True, cc_token_threshold = 1000, cc_token_cap = 1000, cc_retention_percentage = 40\<rparr>"

definition sample_completion :: completion where
  "sample_completion old recent previous =
     Inr (PDict [(''choices'', PList [PDict [(''message'', PDict [(''content'', PStr ''counting'')])]])])"

lemma sample_compacted:
  "compact_messages_for_request sample_config sample_completion (\<lambda>v. []) (\<lambda>v. []) sample_long_chat
     [(''chat_id'', PStr ''c1'')] [] =
   Inr \<lparr>rc_messages = [sample_long_chat ! 0, sample_long_chat ! 3, sample_long_chat ! 4],
        rc_summary = Some ''counting'', rc_compacted = True,
        rc_checkpoint = Some (PStr ''c1'', PStr ''c'', ''counting'')\<rparr>"
  by code_simp

lemma checkpoint_is_restored_witness:
  "\<exists>sys older dropped first rest. sample_long_chat = sys @ older @ dropped @ first # rest \<and>
    split_system sample_long_chat = (sys, older @ dropped @ first # rest) \<and>
    [sample_long_chat ! 0, sample_long_chat ! 3, sample_long_chat ! 4] = sys @ first # rest \<and>
    role_is first ''user'' \<and> (\<exists>m \<in> set dropped. role_is m ''user'') \<and>
    max 2 (nat (int (length dropped + length (first # rest)) *
      clamp_retention_percentage (PInt (cc_retention_percentage sample_config)) div 100)) \<le> length (first # rest) \<and>
    (let stored = dset ''contextSummary'' (PStr ''counting'') first
     in apply_latest_summary_checkpoint (older @ dropped @ stored # rest) = (stored # rest, Some ''counting''))"
proof -
  have "str_strip ''counting'' \<noteq> []" by code_simp
  from checkpoint_is_restored [OF sample_compacted, of "''counting''"] this show ?thesis by simp
qed

subsection \<open>The checkpoint of a branch, in the tree\<close>

lemma as_dicts: "rmap message_dict (map PDict ds) = Inr ds"
  by (induction ds) simp_all

lemma same_walk:
  assumes "messages_ok m" "messages_ok m'" "parent_of m' = parent_of m" "\<And>k. map_of m' k = None \<longleftrightarrow> map_of m k = None"
  shows "visited m' seen k = visited m seen k"
proof (induction seen k rule: branch.walk_induct [of m])
  case (stop seen k)
  then have "k \<in> seen \<or> map_of m k = None" using assms(1) by blast
  then show ?case using assms(4) by (auto simp: visited_def message_walk_stop)
next
  case (step seen k)
  then have "message_walk m' seen k = (case parent_of m k of None \<Rightarrow> ([k], None)
     | Some k' \<Rightarrow> (case message_walk m' (insert k seen) k' of (ks, e) \<Rightarrow> (k # ks, e)))"
    by (subst message_walk_step) (auto simp: assms)
  moreover from step have "message_walk m seen k = (case parent_of m k of None \<Rightarrow> ([k], None)
     | Some k' \<Rightarrow> (case message_walk m (insert k seen) k' of (ks, e) \<Rightarrow> (k # ks, e)))"
    by (subst message_walk_step) (auto simp: assms)
  ultimately show ?case using step assms(1,2) by (auto simp: visited_def split: option.splits prod.splits)
qed

lemma upsert_into_message:
  assumes "linked m" "map_of m k = Some (PDict d)" "dget_or h ''messages'' (PDict []) = PDict m"
  shows "upsert_message_to_history now h k [(''contextSummary'', v)] =
    Inr (dset ''messages'' (PDict (dset k (PDict (dset ''contextSummary'' v d)) m)) h, dset ''contextSummary'' v d)"
proof -
  let ?d = "dset ''contextSummary'' v d" and ?m = "dset k (PDict (dset ''contextSummary'' v d)) m"
  have k: "dhas m k" "dget m k = PDict d" using assms(2) by (simp_all add: dhas_def dget_def)
  have kids: "field ?m p ''childrenIds'' = field m p ''childrenIds''" for p
    using k by (simp add: field_dset) (simp add: field_def)
  have "typed m" using assms(1) by (simp add: linked_def)
  then have ok: "parent_ok (dget d ''parentId'')" using k by (auto simp: typed_def field_def)
  have "add_child_id_to_parent ?m (dget ?d ''parentId'') k = Inr (?m, False)"
    using ok
  proof (cases rule: parent_okE)
    assume "dget d ''parentId'' = PNone"
    then show ?thesis by (simp add: add_child_id_to_parent_def)
  next
    fix p
    assume 2: "dget d ''parentId'' = PStr p"
    show ?thesis
    proof (cases "p \<noteq> [] \<and> dhas m p")
      case True
      then have "k \<in> set (kids m p)" using assms(1) k 2 by (simp add: linked_def field_def)
      moreover from True \<open>typed m\<close> have "field m p ''childrenIds'' = PList (map PStr (kids m p))" by (auto simp: typed_def)
      ultimately have listed: "field ?m p ''childrenIds'' = PList (map PStr (kids m p))" "PStr k \<in> PStr ` set (kids m p)"
        using kids by auto
      then obtain e where "map_of ?m p = Some (PDict e)" "dget e ''childrenIds'' = PList (map PStr (kids m p))"
        by (auto simp: field_def dget_def split: pyval.splits option.splits)
      then show ?thesis using listed(2) 2 True by (simp add: add_child_id_to_parent_def)
    next
      case False
      moreover have "p \<noteq> k \<or> p = []" using False k(1) by auto
      ultimately show ?thesis using 2
        by (auto simp: add_child_id_to_parent_def dhas_def AList.update_conv' split: option.splits)
    qed
  qed
  then show ?thesis using assms(2,3) by (simp add: upsert_message_to_history_def)
qed

lemma compact_chat_branchE:
  assumes "compact_chat_branch config complete py_str messages_map current chat_data = Inr (res, Some (current_id, s))"
  obtains m branch where "messages_or_history messages_map chat_data = Inr m" "chat_branch m current_id = Inr branch" "branch \<noteq> []"
proof -
  from assms have on: "cc_enable config" by (auto simp: compact_chat_branch_def split: if_splits)
  with assms obtain c where c: "chat_current_id current chat_data = Inr c" "truthy c"
    by (auto simp: compact_chat_branch_def rbind_Inr_iff split: if_splits)
  with on assms obtain m branch where m: "messages_or_history messages_map chat_data = Inr m" "chat_branch m c = Inr branch"
    by (auto simp: compact_chat_branch_def rbind_Inr_iff split: if_splits)
  obtain ms prev where ap: "apply_latest_summary_checkpoint branch = (ms, prev)"
    by (cases "apply_latest_summary_checkpoint branch")
  with on c m assms have "butlast ms \<noteq> []" "c = current_id"
    by (auto simp: compact_chat_branch_def rbind_Inr_iff Let_def split: if_splits)
  moreover from ap have "branch = [] \<Longrightarrow> ms = []" by (auto simp: apply_latest_summary_checkpoint_def)
  ultimately have "branch \<noteq> []" by auto
  with m \<open>c = current_id\<close> that show thesis by blast
qed

lemma messages_ok_dset: "messages_ok m \<Longrightarrow> message_ok v \<Longrightarrow> messages_ok (dset k v m)"
  by (induction m) (auto simp: messages_ok_def)

text \<open>The branch of a message in a map, as dictionaries, and with one field of that message changed.\<close>

lemma chat_branch_visited:
  assumes "messages_ok m" "map_of m k \<noteq> None"
  shows "chat_branch m (PStr k) = Inr (rev (map (\<lambda>j. case dget m j of PDict d \<Rightarrow> d | _ \<Rightarrow> []) (visited m {} k)))"
proof -
  have "\<forall>j \<in> set (visited m {} k). map_of m j \<noteq> None"
    using branch.walk_set [of m k] assms by (auto elim: rtranclp.cases)
  moreover have "dget m j = PDict (case dget m j of PDict d \<Rightarrow> d | _ \<Rightarrow> [])" if "map_of m j = Some v" for j v
    using messages_ok_dget [OF assms(1) that] that by (cases v) (simp_all add: dget_def)
  ultimately have "map (dget m) (visited m {} k) =
      map PDict (map (\<lambda>j. case dget m j of PDict d \<Rightarrow> d | _ \<Rightarrow> []) (visited m {} k))"
    by (auto simp del: not_None_eq)
  then have "rev (map (dget m) (visited m {} k)) =
      map PDict (rev (map (\<lambda>j. case dget m j of PDict d \<Rightarrow> d | _ \<Rightarrow> []) (visited m {} k)))"
    by (simp only: rev_map)
  then show ?thesis unfolding chat_branch_def get_message_list_visited [OF assms] by (simp only: rbind_simps as_dicts)
qed


lemma sample_tree_compacted:
  "compact_chat_branch sample_config sample_completion (\<lambda>v. []) [] (PStr ''c'')
     [(''history'', PDict [(''messages'', PDict sample_tree)])] =
   Inr ([(''ok'', PBool True), (''compacted'', PBool True), (''dropped_messages'', PInt 2), (''kept_messages'', PInt 1),
         (''summary_chars'', PInt 8)], Some (PStr ''c'', ''counting''))"
  by code_simp


end
