(* ===== verification/Anthropic_Stream.thy ===== *)
theory Anthropic_Stream
  imports Messages Chat_History
begin

section \<open>An OpenAI stream as an Anthropic stream\<close>

text \<open>
  Models \<open>openai_stream_to_anthropic_stream\<close> of \<open>utils/anthropic.py\<close>: a generator that reads the lines of an
  OpenAI chat completion stream and yields the events of an Anthropic message stream: one message, whose
  content blocks (thinking, text, tool calls) are each started, filled by deltas and stopped under a running
  index. An exception while reading ends the loop, and what is open is closed. So a step returns the state it
  reached, the events yielded so far among it, and the exception if there was one.

  The JSON decoder (\<open>loads\<close>, \<open>None\<close> where it raises) and encoder, and the generated identifiers are arguments.
  Chunks come as decoded text.
\<close>

subsection \<open>Events\<close>

datatype block = Thinking_block | Text_block | Tool_block pyval pyval

datatype delta = Thinking_delta pyval | Text_delta pyval | Json_delta string

datatype event =
    Message_start string string pyval
  | Block_start int block
  | Block_delta int delta
  | Block_stop int
  | Message_delta string pydict
  | Message_stop

fun block_data :: "block \<Rightarrow> pydict" where
  "block_data Thinking_block = [(''type'', PStr ''thinking''), (''thinking'', PStr [])]"
| "block_data Text_block = [(''type'', PStr ''text''), (''text'', PStr [])]"
| "block_data (Tool_block i name) =
     [(''type'', PStr ''tool_use''), (''id'', i), (''name'', name), (''input'', PDict [])]"

fun delta_data :: "delta \<Rightarrow> pydict" where
  "delta_data (Thinking_delta v) = [(''type'', PStr ''thinking_delta''), (''thinking'', v)]"
| "delta_data (Text_delta v) = [(''type'', PStr ''text_delta''), (''text'', v)]"
| "delta_data (Json_delta s) = [(''type'', PStr ''input_json_delta''), (''partial_json'', PStr s)]"

fun event_name :: "event \<Rightarrow> string" where
  "event_name (Message_start _ _ _) = ''message_start''"
| "event_name (Block_start _ _) = ''content_block_start''"
| "event_name (Block_delta _ _) = ''content_block_delta''"
| "event_name (Block_stop _) = ''content_block_stop''"
| "event_name (Message_delta _ _) = ''message_delta''"
| "event_name Message_stop = ''message_stop''"

fun event_fields :: "event \<Rightarrow> pydict" where
  "event_fields (Message_start message_id model input_tokens) =
     [(''message'', PDict [(''id'', PStr message_id), (''type'', PStr ''message''), (''role'', PStr ''assistant''),
        (''content'', PList []), (''model'', PStr model), (''stop_reason'', PNone), (''stop_sequence'', PNone),
        (''usage'', PDict [(''input_tokens'', py_or input_tokens (PInt 0)), (''output_tokens'', PInt 0)])])]"
| "event_fields (Block_start i b) = [(''index'', PInt i), (''content_block'', PDict (block_data b))]"
| "event_fields (Block_delta i d) = [(''index'', PInt i), (''delta'', PDict (delta_data d))]"
| "event_fields (Block_stop i) = [(''index'', PInt i)]"
| "event_fields (Message_delta reason usage) =
     [(''delta'', PDict [(''stop_reason'', PStr reason), (''stop_sequence'', PNone)]), (''usage'', PDict usage)]"
| "event_fields Message_stop = []"

definition event_line :: "(pyval \<Rightarrow> string) \<Rightarrow> event \<Rightarrow> string" where
  "event_line dumps e =
     ''event: '' @ event_name e @ [CHR 0x0A] @ ''data: '' @
     dumps (PDict ((''type'', PStr (event_name e)) # event_fields e)) @ [CHR 0x0A, CHR 0x0A]"

subsection \<open>State and steps\<close>

record tracked =
  tc_id :: pyval
  tc_name :: pyval
  tc_arguments :: string
  tc_block_index :: int
  tc_started :: bool
  tc_stopped :: bool

definition new_tool :: "pyval \<Rightarrow> pyval \<Rightarrow> tracked" where
  "new_tool i name = \<lparr>tc_id = i, tc_name = name, tc_arguments = [], tc_block_index = - 1, tc_started = False, tc_stopped = False\<rparr>"

record stream_state =
  input_tokens :: pyval
  output_tokens :: pyval
  cache_creation_input_tokens :: pyval
  cache_read_input_tokens :: pyval
  output_tokens_details :: pyval
  server_tool_use :: pyval
  service_tier :: pyval
  stop_reason :: string
  current_block_index :: int
  thinking_block_open :: bool
  text_block_open :: bool
  tracked_tool_calls :: "(pyval \<times> tracked) list"
  index_to_tool_id :: "(pyval \<times> pyval) list"
  has_tool_calls :: bool
  emitted :: "event list"

definition initial :: "pyval \<Rightarrow> stream_state" where
  "initial tokens =
     \<lparr>input_tokens = tokens, output_tokens = PInt 0, cache_creation_input_tokens = PNone,
      cache_read_input_tokens = PNone, output_tokens_details = PNone, server_tool_use = PNone, service_tier = PNone,
      stop_reason = ''end_turn'', current_block_index = 0, thinking_block_open = False, text_block_open = False,
      tracked_tool_calls = [], index_to_tool_id = [], has_tool_calls = False, emitted = []\<rparr>"

type_synonym step = "stream_state \<Rightarrow> stream_state \<times> py_error option"

text \<open>Doing nothing, changing the state, going on after a step and with a value read, and a loop.\<close>

definition skip :: step where
  "skip s = (s, None)"

definition set_state :: "(stream_state \<Rightarrow> stream_state) \<Rightarrow> step" where
  "set_state f s = (f s, None)"

definition yield :: "event \<Rightarrow> step" where
  "yield e = set_state (\<lambda>s. s\<lparr>emitted := emitted s @ [e]\<rparr>)"

definition andthen :: "step \<Rightarrow> step \<Rightarrow> step" where
  "andthen f g s = (case f s of (s', None) \<Rightarrow> g s' | (s', Some e) \<Rightarrow> (s', Some e))"

definition reading :: "'a result \<Rightarrow> ('a \<Rightarrow> step) \<Rightarrow> step" where
  "reading r k s = (case r of Inl e \<Rightarrow> (s, Some e) | Inr x \<Rightarrow> k x s)"

fun each :: "('a \<Rightarrow> step) \<Rightarrow> 'a list \<Rightarrow> step" where
  "each f [] = skip"
| "each f (x # xs) = andthen (f x) (each f xs)"

subsection \<open>Reading a chunk\<close>

text \<open>A key of a dictionary: \<open>True\<close> and \<open>1\<close> are the same key.\<close>

definition dict_key :: "pyval \<Rightarrow> pyval result" where
  "dict_key v = (case v of PBool b \<Rightarrow> Inr (PInt (if b then 1 else 0)) | _ \<Rightarrow> hash_key v)"

fun py_first :: "pyval \<Rightarrow> pyval result" where
  "py_first (PList (x # xs)) = Inr x"
| "py_first (PStr (c # s)) = Inr (PStr [c])"
| "py_first (PList []) = Inl IndexError"
| "py_first (PStr []) = Inl IndexError"
| "py_first (PDict d) = Inl (KeyError ''0'')"
| "py_first _ = Inl TypeError"

text \<open>\<open>a.get(k) or b.get(l) or ...\<close>: evaluated until one is true.\<close>

fun first_of_gets :: "(pyval \<times> string) list \<Rightarrow> pyval result" where
  "first_of_gets [] = Inr PNone"
| "first_of_gets ((v, k) # rest) =
     rbind (py_get v k PNone) (\<lambda>x. if truthy x then Inr x else first_of_gets rest)"

text \<open>\<open>a or b\<close> of two texts of dictionaries that may be missing: the input tokens reported, where not given directly.\<close>

definition usage_input_of :: "pydict \<Rightarrow> pyval \<Rightarrow> pyval \<Rightarrow> pyval result" where
  "usage_input_of usage_data cache_creation cache_read =
     (if dget usage_data ''input_tokens'' \<noteq> PNone then Inr (dget usage_data ''input_tokens'')
      else if dget usage_data ''prompt_tokens'' = PNone then Inr PNone
      else rbind (py_int (dget usage_data ''prompt_tokens'')) (\<lambda>prompt.
           rbind (py_int (py_or cache_creation (PInt 0))) (\<lambda>creation.
           rbind (py_int (py_or cache_read (PInt 0))) (\<lambda>read.
             Inr (PInt (max (prompt - creation - read) 0))))))"

definition usage_cache_read :: "pydict \<Rightarrow> pyval" where
  "usage_cache_read usage_data =
     (let cache_read = dget usage_data ''cache_read_input_tokens''
      in case dget usage_data ''prompt_tokens_details'' of
           PDict d \<Rightarrow> if cache_read = PNone then dget d ''cached_tokens'' else cache_read
         | _ \<Rightarrow> cache_read)"

definition usage_output_of :: "pydict \<Rightarrow> pyval" where
  "usage_output_of usage_data =
     (if dget usage_data ''output_tokens'' = PNone then dget usage_data ''completion_tokens''
      else dget usage_data ''output_tokens'')"

definition unless_none :: "pyval \<Rightarrow> pyval \<Rightarrow> pyval" where
  "unless_none v old = (if v = PNone then old else v)"

definition if_dict :: "pyval \<Rightarrow> pyval \<Rightarrow> pyval" where
  "if_dict v old = (if is_dict v then v else old)"

definition read_usage :: "pydict \<Rightarrow> step" where
  "read_usage usage_data =
     (let cache_creation = dget usage_data ''cache_creation_input_tokens''; cache_read = usage_cache_read usage_data
      in reading (usage_input_of usage_data cache_creation cache_read) (\<lambda>usage_input.
           set_state (\<lambda>s. s\<lparr>
             input_tokens := unless_none usage_input (input_tokens s),
             output_tokens := unless_none (usage_output_of usage_data) (output_tokens s),
             cache_creation_input_tokens := unless_none cache_creation (cache_creation_input_tokens s),
             cache_read_input_tokens := unless_none cache_read (cache_read_input_tokens s),
             output_tokens_details := if_dict (dget usage_data ''output_tokens_details'') (output_tokens_details s),
             server_tool_use := if_dict (dget usage_data ''server_tool_use'') (server_tool_use s),
             service_tier := unless_none (dget usage_data ''service_tier'') (service_tier s)\<rparr>)))"

fun thinking_of_blocks :: "pyval list \<Rightarrow> pyval" where
  "thinking_of_blocks [] = PNone"
| "thinking_of_blocks (block # rest) =
     (case block of
        PDict d \<Rightarrow>
          (let v = py_or (dget d ''thinking'') (py_or (dget d ''content'') (dget d ''text''))
           in if truthy v then v else thinking_of_blocks rest)
      | _ \<Rightarrow> thinking_of_blocks rest)"

definition reasoning_of :: "pyval \<Rightarrow> pyval \<Rightarrow> pyval result" where
  "reasoning_of delta message =
     rbind (first_of_gets [(delta, ''reasoning_content''), (delta, ''reasoning''), (delta, ''thinking''),
              (message, ''reasoning_content''), (message, ''reasoning'')]) (\<lambda>v.
       if truthy v then Inr v
       else rbind (first_of_gets [(delta, ''thinking_blocks''), (message, ''thinking_blocks'')]) (\<lambda>blocks.
            rbind (py_iter (py_or blocks (PList []))) (\<lambda>blocks. Inr (thinking_of_blocks blocks))))"

definition tool_calls_of :: "pyval \<Rightarrow> pyval \<Rightarrow> pyval result" where
  "tool_calls_of delta message =
     first_of_gets [(delta, ''tool_calls''), (message, ''tool_calls'')]"

subsection \<open>Thinking and text\<close>

definition stop_thinking :: step where
  "stop_thinking s =
     (if thinking_block_open s
      then andthen (yield (Block_stop (current_block_index s)))
             (set_state (\<lambda>s. s\<lparr>thinking_block_open := False, current_block_index := current_block_index s + 1\<rparr>)) s
      else skip s)"

definition stop_text :: step where
  "stop_text s =
     (if text_block_open s
      then andthen (yield (Block_stop (current_block_index s)))
             (set_state (\<lambda>s. s\<lparr>text_block_open := False, current_block_index := current_block_index s + 1\<rparr>)) s
      else skip s)"

definition start_thinking :: step where
  "start_thinking s =
     (if thinking_block_open s then skip s
      else andthen (yield (Block_start (current_block_index s) Thinking_block))
             (set_state (\<lambda>s. s\<lparr>thinking_block_open := True\<rparr>)) s)"

definition start_text :: step where
  "start_text s =
     (if text_block_open s then skip s
      else andthen (yield (Block_start (current_block_index s) Text_block))
             (set_state (\<lambda>s. s\<lparr>text_block_open := True\<rparr>)) s)"

definition delta_here :: "delta \<Rightarrow> step" where
  "delta_here d s = yield (Block_delta (current_block_index s) d) s"

definition emit_reasoning :: "pyval \<Rightarrow> step" where
  "emit_reasoning v s =
     (if truthy v \<and> \<not> text_block_open s \<and> \<not> has_tool_calls s
      then andthen start_thinking (delta_here (Thinking_delta v)) s
      else skip s)"

definition emit_text :: "pyval \<Rightarrow> step" where
  "emit_text v s =
     (if truthy v \<and> \<not> has_tool_calls s
      then andthen stop_thinking (andthen start_text (delta_here (Text_delta v))) s
      else skip s)"

subsection \<open>Tool calls\<close>

definition set_tool :: "pyval \<Rightarrow> tracked \<Rightarrow> step" where
  "set_tool k t = set_state (\<lambda>s. s\<lparr>tracked_tool_calls := dset k t (tracked_tool_calls s)\<rparr>)"

definition on_tool :: "pyval \<Rightarrow> (tracked \<Rightarrow> step) \<Rightarrow> step" where
  "on_tool k f s = (case map_of (tracked_tool_calls s) k of None \<Rightarrow> (s, Some (KeyError [])) | Some t \<Rightarrow> f t s)"

definition name_tool :: "pyval \<Rightarrow> pyval \<Rightarrow> step" where
  "name_tool name k =
     on_tool k (\<lambda>t. if truthy name \<and> \<not> truthy (tc_name t) then set_tool k (t\<lparr>tc_name := name\<rparr>) else skip)"

definition start_tool :: "pyval \<Rightarrow> step" where
  "start_tool k =
     on_tool k (\<lambda>t s.
       if \<not> tc_started t \<and> truthy (tc_name t)
       then andthen (set_tool k (t\<lparr>tc_block_index := current_block_index s, tc_started := True\<rparr>))
              (andthen (yield (Block_start (current_block_index s) (Tool_block (tc_id t) (tc_name t))))
                (set_state (\<lambda>s. s\<lparr>current_block_index := current_block_index s + 1\<rparr>))) s
       else skip s)"

definition start_named_tool :: "pyval \<Rightarrow> step" where
  "start_named_tool k =
     on_tool k (\<lambda>t. if \<not> tc_started t \<and> truthy (tc_name t)
                    then andthen (set_state (\<lambda>s. s\<lparr>has_tool_calls := True\<rparr>)) (start_tool k) else skip)"

definition add_arguments :: "pyval \<Rightarrow> pyval \<Rightarrow> step" where
  "add_arguments chunk k =
     on_tool k (\<lambda>t. case chunk of
         PStr c \<Rightarrow> set_tool k (t\<lparr>tc_arguments := tc_arguments t @ c\<rparr>)
       | _ \<Rightarrow> (\<lambda>s. (s, Some TypeError)))"

definition send_arguments :: "pyval \<Rightarrow> pyval \<Rightarrow> step" where
  "send_arguments chunk k =
     on_tool k (\<lambda>t. if tc_started t \<and> \<not> tc_stopped t
                    then yield (Block_delta (tc_block_index t) (Json_delta (case chunk of PStr c \<Rightarrow> c | _ \<Rightarrow> [])))
                    else skip)"

definition may_be_complete :: "string \<Rightarrow> bool" where
  "may_be_complete arguments =
     (take 1 (dropWhile is_space_char (rev arguments)) = ''}'' \<or> take 1 (dropWhile is_space_char arguments) \<noteq> ''{'')"

definition stop_complete :: "(string \<Rightarrow> pyval option) \<Rightarrow> pyval \<Rightarrow> step" where
  "stop_complete loads k =
     on_tool k (\<lambda>t. if tc_started t \<and> \<not> tc_stopped t \<and> may_be_complete (tc_arguments t) \<and> loads (tc_arguments t) \<noteq> None
                    then andthen (set_tool k (t\<lparr>tc_stopped := True\<rparr>)) (yield (Block_stop (tc_block_index t)))
                    else skip)"

definition track_tool :: "pyval \<Rightarrow> pyval \<Rightarrow> pyval \<Rightarrow> step" where
  "track_tool k i name s =
     (if map_of (tracked_tool_calls s) k \<noteq> None then skip s else set_tool k (new_tool i name) s)"

definition fallback_id :: "(pyval list \<Rightarrow> string) \<Rightarrow> stream_state \<Rightarrow> pyval" where
  "fallback_id fresh s = PStr (''toolu_'' @ fresh (map fst (tracked_tool_calls s)))"

definition set_tool_id :: "pyval \<Rightarrow> pyval \<Rightarrow> step" where
  "set_tool_id i k = set_state (\<lambda>s. s\<lparr>index_to_tool_id := dset i k (index_to_tool_id s)\<rparr>)"

text \<open>Which tracked call a delta belongs to; \<open>go_on\<close> receives its key.\<close>

definition resolve_tool :: "(pyval list \<Rightarrow> string) \<Rightarrow> pyval \<Rightarrow> pyval \<Rightarrow> pyval \<Rightarrow> (pyval \<Rightarrow> step) \<Rightarrow> step" where
  "resolve_tool fresh call_index tool_id name go_on =
     (if truthy tool_id
      then reading (dict_key tool_id) (\<lambda>k.
             andthen (track_tool k tool_id name)
               (reading (dict_key call_index) (\<lambda>i. andthen (set_tool_id i k) (go_on k))))
      else reading (dict_key call_index) (\<lambda>i s.
             case map_of (index_to_tool_id s) i of
               Some k \<Rightarrow> go_on k s
             | None \<Rightarrow>
                 (let k = fallback_id fresh s
                  in andthen (set_tool k (new_tool k name)) (andthen (set_tool_id i k) (go_on k)) s)))"

definition feed_tool :: "(string \<Rightarrow> pyval option) \<Rightarrow> pyval \<Rightarrow> pyval \<Rightarrow> pyval \<Rightarrow> step" where
  "feed_tool loads name chunk k =
     andthen (name_tool name k) (andthen (start_named_tool k)
       (if truthy chunk
        then andthen (add_arguments chunk k) (andthen (send_arguments chunk k) (stop_complete loads k))
        else skip))"

definition call_part :: "pyval \<Rightarrow> string \<Rightarrow> pyval result" where
  "call_part tool_call k =
     rbind (py_get tool_call ''function'' PNone) (\<lambda>f. py_get (py_or f (PDict [])) k (PStr []))"

definition handle_tool :: "(pyval list \<Rightarrow> string) \<Rightarrow> (string \<Rightarrow> pyval option) \<Rightarrow> pyval \<Rightarrow> step" where
  "handle_tool fresh loads tool_call =
     reading (py_get tool_call ''index'' (PInt 0)) (\<lambda>call_index.
     reading (py_get tool_call ''id'' (PStr [])) (\<lambda>tool_id.
     reading (call_part tool_call ''name'') (\<lambda>name.
     reading (call_part tool_call ''arguments'') (\<lambda>chunk.
       resolve_tool fresh call_index tool_id name (feed_tool loads name chunk)))))"

definition handle_tools :: "(pyval list \<Rightarrow> string) \<Rightarrow> (string \<Rightarrow> pyval option) \<Rightarrow> pyval \<Rightarrow> step" where
  "handle_tools fresh loads tool_calls =
     (if truthy tool_calls
      then andthen stop_thinking (andthen stop_text
             (reading (py_iter tool_calls) (each (handle_tool fresh loads))))
      else skip)"

subsection \<open>The generator\<close>

definition stop_reason_of :: "pyval \<Rightarrow> string result" where
  "stop_reason_of finish_reason =
     rbind (hash_key finish_reason) (\<lambda>k. Inr
       (if k = PStr ''stop'' then ''end_turn'' else if k = PStr ''length'' then ''max_tokens''
        else if k = PStr ''tool_calls'' then ''tool_use'' else ''end_turn''))"

definition handle_finish :: "pyval \<Rightarrow> step" where
  "handle_finish finish_reason =
     (if finish_reason = PNone then skip
      else reading (stop_reason_of finish_reason) (\<lambda>r. set_state (\<lambda>s. s\<lparr>stop_reason := r\<rparr>)))"

definition handle_choice :: "(pyval list \<Rightarrow> string) \<Rightarrow> (string \<Rightarrow> pyval option) \<Rightarrow> pyval \<Rightarrow> step" where
  "handle_choice fresh loads choice =
     reading (py_get choice ''delta'' (PDict [])) (\<lambda>delta.
     reading (py_get choice ''finish_reason'' PNone) (\<lambda>finish_reason.
     reading (py_get choice ''message'' PNone) (\<lambda>m.
       let message = py_or m (PDict []) in
       reading (reasoning_of delta message) (\<lambda>reasoning.
       andthen (emit_reasoning reasoning)
      (reading (py_get delta ''content'' PNone) (\<lambda>content.
       andthen (emit_text content)
      (reading (tool_calls_of delta message) (\<lambda>tool_calls.
       andthen (handle_tools fresh loads tool_calls) (handle_finish finish_reason)))))))))"

definition handle_data :: "(pyval list \<Rightarrow> string) \<Rightarrow> (string \<Rightarrow> pyval option) \<Rightarrow> pyval \<Rightarrow> step" where
  "handle_data fresh loads data =
     reading (py_get data ''usage'' PNone) (\<lambda>usage.
     andthen (case usage of PDict d \<Rightarrow> read_usage d | _ \<Rightarrow> skip)
    (reading (py_get data ''choices'' (PList [])) (\<lambda>choices.
       if truthy choices then reading (py_first choices) (handle_choice fresh loads) else skip)))"

definition handle_line :: "(pyval list \<Rightarrow> string) \<Rightarrow> (string \<Rightarrow> pyval option) \<Rightarrow> string \<Rightarrow> step" where
  "handle_line fresh loads raw =
     (let line = str_strip raw; data_string = str_strip (drop 5 line)
      in if \<not> starts_with line ''data:'' \<or> data_string = ''[DONE]'' \<or> data_string = ''{}'' then skip
         else (case loads data_string of None \<Rightarrow> skip | Some data \<Rightarrow> handle_data fresh loads data))"

definition convert_chunk :: "(pyval list \<Rightarrow> string) \<Rightarrow> (string \<Rightarrow> pyval option) \<Rightarrow> string \<Rightarrow> step" where
  "convert_chunk fresh loads chunk = each (handle_line fresh loads) (str_split (CHR 0x0A) (str_strip chunk))"

definition flush_tool :: "pyval \<Rightarrow> step" where
  "flush_tool k =
     on_tool k (\<lambda>t. if \<not> tc_started t \<and> truthy (tc_name t)
       then andthen (start_tool k)
              (if tc_arguments t \<noteq> [] then on_tool k (\<lambda>t. yield (Block_delta (tc_block_index t) (Json_delta (tc_arguments t))))
               else skip)
       else skip)"

definition stop_tool :: "pyval \<Rightarrow> step" where
  "stop_tool k = on_tool k (\<lambda>t. if tc_started t \<and> \<not> tc_stopped t then yield (Block_stop (tc_block_index t)) else skip)"

definition final_usage :: "stream_state \<Rightarrow> pydict" where
  "final_usage s =
     filter (\<lambda>(k, v). k = ''output_tokens'' \<or> v \<noteq> PNone)
       [(''output_tokens'', output_tokens s), (''input_tokens'', input_tokens s),
        (''cache_creation_input_tokens'', cache_creation_input_tokens s),
        (''cache_read_input_tokens'', cache_read_input_tokens s), (''output_tokens_details'', output_tokens_details s),
        (''server_tool_use'', server_tool_use s), (''service_tier'', service_tier s)]"

definition close_blocks :: "stream_state \<Rightarrow> stream_state" where
  "close_blocks s0 =
     (let s1 = (if thinking_block_open s0
                then s0\<lparr>emitted := emitted s0 @ [Block_stop (current_block_index s0)],
                        current_block_index := current_block_index s0 + 1\<rparr> else s0);
          keys = map fst (tracked_tool_calls s1);
          s2 = fst (each flush_tool keys s1);
          s3 = (if text_block_open s2 then s2\<lparr>emitted := emitted s2 @ [Block_stop (current_block_index s2)]\<rparr> else s2)
      in fst (each stop_tool keys s3))"

definition openai_stream_to_anthropic_stream ::
    "(pyval list \<Rightarrow> string) \<Rightarrow> (string \<Rightarrow> pyval option) \<Rightarrow> string \<Rightarrow> string \<Rightarrow> pyval \<Rightarrow> string list \<Rightarrow> event list"
where
  "openai_stream_to_anthropic_stream fresh loads message_id model tokens chunks =
     (let s = close_blocks (fst (each (convert_chunk fresh loads) chunks (initial tokens)))
      in Message_start message_id model tokens # emitted s @
         [Message_delta (stop_reason s) (final_usage s), Message_stop])"

subsection \<open>The protocol of an Anthropic stream\<close>

text \<open>
  \<open>open_blocks\<close> reads the events between the start and the end of a message: how many blocks were started, and the
  open ones with their kinds. Blocks start under the next index, deltas belong to an open block of their kind,
  and only an open block stops.
\<close>

datatype kind = Thinking | Text | Tool

fun block_kind :: "block \<Rightarrow> kind" where
  "block_kind Thinking_block = Thinking"
| "block_kind Text_block = Text"
| "block_kind (Tool_block _ _) = Tool"

fun delta_kind :: "delta \<Rightarrow> kind" where
  "delta_kind (Thinking_delta _) = Thinking"
| "delta_kind (Text_delta _) = Text"
| "delta_kind (Json_delta _) = Tool"

fun block_event :: "event \<Rightarrow> int \<times> (int \<times> kind) set \<Rightarrow> (int \<times> (int \<times> kind) set) option" where
  "block_event (Block_start i b) (n, B) = (if i = n then Some (n + 1, insert (i, block_kind b) B) else None)"
| "block_event (Block_delta i d) (n, B) = (if (i, delta_kind d) \<in> B then Some (n, B) else None)"
| "block_event (Block_stop i) (n, B) = (if i \<in> fst ` B then Some (n, {x \<in> B. fst x \<noteq> i}) else None)"
| "block_event _ _ = None"

fun open_blocks :: "event list \<Rightarrow> int \<times> (int \<times> kind) set \<Rightarrow> (int \<times> (int \<times> kind) set) option" where
  "open_blocks [] x = Some x"
| "open_blocks (e # es) x = Option.bind (block_event e x) (open_blocks es)"

definition well_formed_stream :: "event list \<Rightarrow> bool" where
  "well_formed_stream es =
     (\<exists>i model tokens body reason usage n. es = Message_start i model tokens # body @ [Message_delta reason usage, Message_stop] \<and>
        open_blocks body (0, {}) = Some (n, {}))"

lemma open_blocks_append: "open_blocks (es @ fs) x = Option.bind (open_blocks es x) (open_blocks fs)"
proof (induction es arbitrary: x)
  case (Cons a es)
  then show ?case by (cases "block_event a x") simp_all
qed simp

text \<open>
  What holds between steps: the protocol state of the events is the one the variables describe. \<open>tool_blocks\<close> are
  the open blocks of tool calls.
\<close>

definition is_open :: "tracked \<Rightarrow> bool" where
  "is_open t = (tc_started t \<and> \<not> tc_stopped t)"

fun open_block :: "tracked option \<Rightarrow> (int \<times> kind) set" where
  "open_block None = {}"
| "open_block (Some t) = (if is_open t then {(tc_block_index t, Tool)} else {})"

definition tool_blocks :: "(pyval \<times> tracked) list \<Rightarrow> (int \<times> kind) set" where
  "tool_blocks ts = (\<Union>k. open_block (map_of ts k))"

lemma in_open_block: "x \<in> open_block m \<longleftrightarrow> (\<exists>t. m = Some t \<and> is_open t \<and> x = (tc_block_index t, Tool))"
  by (cases m) auto

definition text_blocks :: "stream_state \<Rightarrow> (int \<times> kind) set" where
  "text_blocks s =
     (if thinking_block_open s then {(current_block_index s, Thinking)} else {}) \<union>
     (if text_block_open s then {(current_block_index s, Text)} else {})"

definition tools_ok :: "int \<Rightarrow> (pyval \<times> tracked) list \<Rightarrow> bool" where
  "tools_ok n ts =
     (distinct (map fst ts) \<and>
      (\<forall>k t. map_of ts k = Some t \<and> tc_stopped t \<longrightarrow> tc_started t) \<and>
      (\<forall>k t. map_of ts k = Some t \<and> tc_started t \<longrightarrow> tc_block_index t < n) \<and>
      (\<forall>k t k' t'. map_of ts k = Some t \<and> map_of ts k' = Some t' \<and> tc_started t \<and> tc_started t' \<and>
         tc_block_index t = tc_block_index t' \<longrightarrow> k = k'))"

definition closed_text :: "stream_state \<Rightarrow> bool" where
  "closed_text s = (\<not> thinking_block_open s \<and> \<not> text_block_open s)"

definition in_step :: "stream_state \<Rightarrow> bool" where
  "in_step s =
     (tools_ok (current_block_index s) (tracked_tool_calls s) \<and>
      \<not> (thinking_block_open s \<and> text_block_open s) \<and>
      open_blocks (emitted s) (0, {}) =
        Some (current_block_index s + (if closed_text s then 0 else 1), text_blocks s \<union> tool_blocks (tracked_tool_calls s)))"

definition named_started :: "stream_state \<Rightarrow> bool" where
  "named_started s = (\<forall>k t. map_of (tracked_tool_calls s) k = Some t \<and> truthy (tc_name t) \<longrightarrow> tc_started t)"

text \<open>A step keeps a condition \<open>P\<close> and, when it raises, reaches \<open>Q\<close>.\<close>

definition hoare :: "(stream_state \<Rightarrow> bool) \<Rightarrow> step \<Rightarrow> (stream_state \<Rightarrow> bool) \<Rightarrow> (stream_state \<Rightarrow> bool) \<Rightarrow> bool" where
  "hoare P f R Q = (\<forall>s s' e. P s \<and> f s = (s', e) \<longrightarrow> (case e of None \<Rightarrow> R s' | Some _ \<Rightarrow> Q s'))"

named_theorems hoare_rules

lemma hoare_skip [hoare_rules]: "(\<And>s. P s \<Longrightarrow> R s) \<Longrightarrow> hoare P skip R Q"
  by (simp add: hoare_def skip_def)

lemma hoare_set: "(\<And>s. P s \<Longrightarrow> R (f s)) \<Longrightarrow> hoare P (set_state f) R Q"
  by (simp add: hoare_def set_state_def)

lemma hoare_andthen: "hoare P f M Q \<Longrightarrow> hoare M g R Q \<Longrightarrow> hoare P (andthen f g) R Q"
  by (fastforce simp: hoare_def andthen_def split: prod.splits option.splits)

lemma hoare_reading: "(\<And>x. r = Inr x \<Longrightarrow> hoare P (k x) R Q) \<Longrightarrow> (\<And>s. P s \<Longrightarrow> Q s) \<Longrightarrow> hoare P (reading r k) R Q"
  by (cases r) (auto simp: hoare_def reading_def)

lemma hoare_each: "(\<And>x. x \<in> set xs \<Longrightarrow> hoare P (f x) P Q) \<Longrightarrow> hoare P (each f xs) P Q"
  by (induction xs) (auto intro: hoare_andthen hoare_skip)

lemma hoare_weaken:
  "hoare P f R Q \<Longrightarrow> (\<And>s. P' s \<Longrightarrow> P s) \<Longrightarrow> (\<And>s. R s \<Longrightarrow> R' s) \<Longrightarrow> (\<And>s. Q s \<Longrightarrow> Q' s) \<Longrightarrow> hoare P' f R' Q'"
  by (fastforce simp: hoare_def split: option.splits)

lemma hoareD: "hoare P f R Q \<Longrightarrow> P s \<Longrightarrow> f s = (s', e) \<Longrightarrow> case e of None \<Rightarrow> R s' | Some _ \<Rightarrow> Q s'"
  by (simp add: hoare_def)

lemma hoareI: "(\<And>s s' e. P s \<Longrightarrow> f s = (s', e) \<Longrightarrow> case e of None \<Rightarrow> R s' | Some _ \<Rightarrow> Q s') \<Longrightarrow> hoare P f R Q"
  unfolding hoare_def by blast

definition resting :: "stream_state \<Rightarrow> bool" where
  "resting s = (in_step s \<and> named_started s)"

definition in_tools :: "stream_state \<Rightarrow> bool" where
  "in_tools s = (in_step s \<and> closed_text s)"

definition stoppable :: "stream_state \<Rightarrow> bool" where
  "stoppable s = (in_step s \<and> (named_started s \<or> closed_text s))"

lemmas step_defs = hoare_def andthen_def yield_def set_state_def skip_def
lemmas state_defs = resting_def in_tools_def stoppable_def in_step_def closed_text_def text_blocks_def named_started_def

lemma tool_blocks_below: "tools_ok n ts \<Longrightarrow> (i, k) \<in> tool_blocks ts \<Longrightarrow> i < n \<and> k = Tool"
  by (auto simp: tools_ok_def tool_blocks_def in_open_block is_open_def)

lemma tools_ok_mono: "tools_ok n ts \<Longrightarrow> n \<le> n' \<Longrightarrow> tools_ok n' ts"
  by (fastforce simp: tools_ok_def)

lemma other_blocks: "tools_ok n ts \<Longrightarrow> {x \<in> tool_blocks ts. fst x \<noteq> n} = tool_blocks ts"
  by (auto dest: tool_blocks_below)

lemma minus_block: "tools_ok n ts \<Longrightarrow> {x. (x = (n, k) \<or> x \<in> tool_blocks ts) \<and> fst x \<noteq> n} = tool_blocks ts"
  by (auto dest: tool_blocks_below)

lemma in_step_same:
  "in_step s \<Longrightarrow> emitted s' = emitted s \<Longrightarrow> current_block_index s' = current_block_index s \<Longrightarrow>
   thinking_block_open s' = thinking_block_open s \<Longrightarrow> text_block_open s' = text_block_open s \<Longrightarrow>
   tracked_tool_calls s' = tracked_tool_calls s \<Longrightarrow> in_step s'"
  by (simp add: in_step_def closed_text_def text_blocks_def)

lemma stop_thinking_ok:
  "in_step s \<Longrightarrow> stop_thinking s = (s', e) \<Longrightarrow>
   e = None \<and> in_step s' \<and> \<not> thinking_block_open s' \<and> text_block_open s' = text_block_open s \<and>
   tracked_tool_calls s' = tracked_tool_calls s \<and> has_tool_calls s' = has_tool_calls s"
  by (auto simp: stop_thinking_def step_defs in_step_def closed_text_def text_blocks_def open_blocks_append minus_block
      tools_ok_mono split: if_splits)

lemma stop_text_ok:
  "in_step s \<Longrightarrow> stop_text s = (s', e) \<Longrightarrow>
   e = None \<and> in_step s' \<and> \<not> text_block_open s' \<and> thinking_block_open s' = thinking_block_open s \<and>
   tracked_tool_calls s' = tracked_tool_calls s \<and> has_tool_calls s' = has_tool_calls s"
  by (auto simp: stop_text_def step_defs in_step_def closed_text_def text_blocks_def open_blocks_append minus_block
      tools_ok_mono split: if_splits)

lemma start_text_ok:
  "in_step s \<Longrightarrow> \<not> thinking_block_open s \<Longrightarrow> andthen start_text (delta_here (Text_delta v)) s = (s', e) \<Longrightarrow>
   e = None \<and> in_step s' \<and> tracked_tool_calls s' = tracked_tool_calls s"
  by (auto simp: start_text_def delta_here_def step_defs in_step_def closed_text_def text_blocks_def open_blocks_append
      split: if_splits)

lemma start_thinking_ok:
  "in_step s \<Longrightarrow> \<not> text_block_open s \<Longrightarrow> andthen start_thinking (delta_here (Thinking_delta v)) s = (s', e) \<Longrightarrow>
   e = None \<and> in_step s' \<and> tracked_tool_calls s' = tracked_tool_calls s"
  by (auto simp: start_thinking_def delta_here_def step_defs in_step_def closed_text_def text_blocks_def open_blocks_append
      split: if_splits)

lemma emit_reasoning_ok: "hoare resting (emit_reasoning v) resting stoppable"
  unfolding hoare_def
proof (intro allI impI)
  fix s s' e
  assume "resting s \<and> emit_reasoning v s = (s', e)"
  then show "case e of None \<Rightarrow> resting s' | Some _ \<Rightarrow> stoppable s'"
    using start_thinking_ok [of s v s' e]
    by (auto simp: emit_reasoning_def resting_def named_started_def skip_def split: if_splits)
qed

lemma emit_text_ok: "hoare resting (emit_text v) resting stoppable"
  unfolding hoare_def
proof (intro allI impI)
  fix s s' e
  assume a: "resting s \<and> emit_text v s = (s', e)"
  obtain s1 e1 where s1: "stop_thinking s = (s1, e1)" by (cases "stop_thinking s")
  then have "e1 = None \<and> in_step s1 \<and> \<not> thinking_block_open s1 \<and> tracked_tool_calls s1 = tracked_tool_calls s"
    using a stop_thinking_ok by (auto simp: resting_def)
  with a s1 start_text_ok [of s1 v s' e] show "case e of None \<Rightarrow> resting s' | Some _ \<Rightarrow> stoppable s'"
    by (auto simp: emit_text_def andthen_def [of stop_thinking] resting_def named_started_def skip_def split: if_splits)
qed

subsection \<open>Steps of the tool calls\<close>

definition other_tool_blocks :: "pyval \<Rightarrow> (pyval \<times> tracked) list \<Rightarrow> (int \<times> kind) set" where
  "other_tool_blocks k ts = (\<Union>k' \<in> - {k}. open_block (map_of ts k'))"

lemma tool_blocks_split: "tool_blocks ts = other_tool_blocks k ts \<union> open_block (map_of ts k)"
  unfolding tool_blocks_def other_tool_blocks_def by blast

lemma tool_blocks_dset: "tool_blocks (dset k t ts) = other_tool_blocks k ts \<union> open_block (Some t)"
  unfolding tool_blocks_split [of _ k] by (auto simp: other_tool_blocks_def update_conv')

text \<open>The store of tracked calls after a call was added, changed without its block, started or stopped.\<close>

lemma tool_kept:
  assumes "tools_ok n ts"
    and "case map_of ts k of None \<Rightarrow> \<not> tc_started t \<and> \<not> tc_stopped t
         | Some t0 \<Rightarrow> tc_started t = tc_started t0 \<and> tc_stopped t = tc_stopped t0 \<and> tc_block_index t = tc_block_index t0"
  shows "tools_ok n (dset k t ts)" "tool_blocks (dset k t ts) = tool_blocks ts"
proof -
  have d: "distinct (map fst (dset k t ts))" using assms(1) by (simp add: tools_ok_def distinct_update)
  show "tools_ok n (dset k t ts)"
    using assms d unfolding tools_ok_def update_conv' by (auto split: option.splits if_splits) blast+
  show "tool_blocks (dset k t ts) = tool_blocks ts"
    using assms(2) unfolding tool_blocks_dset tool_blocks_split [of ts k] by (cases "map_of ts k") (simp_all add: is_open_def)
qed

lemma tool_started:
  assumes "tools_ok n ts" "map_of ts k = Some t" "\<not> tc_started t"
  defines "t' \<equiv> t\<lparr>tc_block_index := n, tc_started := True\<rparr>"
  shows "tools_ok (n + 1) (dset k t' ts)" "tool_blocks (dset k t' ts) = insert (n, Tool) (tool_blocks ts)"
proof -
  have d: "distinct (map fst (dset k t' ts))" using assms(1) by (simp add: tools_ok_def distinct_update)
  have ns: "\<not> tc_stopped t" using assms(1-3) by (auto simp: tools_ok_def)
  show "tools_ok (n + 1) (dset k t' ts)"
    using assms(1) d unfolding tools_ok_def update_conv' t'_def by (fastforce split: if_splits)
  show "tool_blocks (dset k t' ts) = insert (n, Tool) (tool_blocks ts)"
    using assms(2,3) ns unfolding tool_blocks_dset tool_blocks_split [of ts k] by (simp add: is_open_def t'_def)
qed

lemma tool_stopped:
  assumes "tools_ok n ts" "map_of ts k = Some t" "tc_started t"
  defines "t' \<equiv> t\<lparr>tc_stopped := True\<rparr>"
  shows "tools_ok n (dset k t' ts)" "tool_blocks (dset k t' ts) = {x \<in> tool_blocks ts. fst x \<noteq> tc_block_index t}"
proof -
  have d: "distinct (map fst (dset k t' ts))" using assms(1) by (simp add: tools_ok_def distinct_update)
  show "tools_ok n (dset k t' ts)"
    using assms(1-3) d unfolding tools_ok_def update_conv' t'_def by (auto split: if_splits) blast+
  have "map_of ts k' = Some u \<Longrightarrow> tc_started u \<Longrightarrow> tc_block_index u = tc_block_index t \<Longrightarrow> k' = k" for k' u
    using assms(1-3) by (auto simp: tools_ok_def)
  then have "x \<in> other_tool_blocks k ts \<Longrightarrow> fst x \<noteq> tc_block_index t" for x
    by (auto simp: other_tool_blocks_def in_open_block is_open_def)
  then show "tool_blocks (dset k t' ts) = {x \<in> tool_blocks ts. fst x \<noteq> tc_block_index t}"
    using assms(2,3) unfolding tool_blocks_dset tool_blocks_split [of ts k] by (auto simp: is_open_def t'_def)
qed

lemma tool_is_open: "map_of ts k = Some t \<Longrightarrow> is_open t \<Longrightarrow> (tc_block_index t, Tool) \<in> tool_blocks ts"
  by (auto simp: tool_blocks_def in_open_block)

text \<open>All calls but one have been started if they have a name.\<close>

definition named_but :: "pyval \<Rightarrow> stream_state \<Rightarrow> bool" where
  "named_but k s =
     (\<forall>k' t. k' \<noteq> k \<and> map_of (tracked_tool_calls s) k' = Some t \<and> truthy (tc_name t) \<longrightarrow> tc_started t)"

definition feeding :: "pyval \<Rightarrow> stream_state \<Rightarrow> bool" where
  "feeding k s = (in_tools s \<and> named_but k s)"

definition fed :: "stream_state \<Rightarrow> bool" where
  "fed s = (in_tools s \<and> named_started s)"

lemma in_tools_iff:
  "in_tools s \<longleftrightarrow> closed_text s \<and> tools_ok (current_block_index s) (tracked_tool_calls s) \<and>
     open_blocks (emitted s) (0, {}) = Some (current_block_index s, tool_blocks (tracked_tool_calls s))"
  by (auto simp: in_tools_def in_step_def closed_text_def text_blocks_def)

lemma named_but_dset:
  "named_but k s \<Longrightarrow> named_but k (s\<lparr>tracked_tool_calls := dset k t (tracked_tool_calls s)\<rparr>)"
  by (auto simp: named_but_def update_conv')

lemma hoare_on_tool:
  assumes "\<And>t. hoare (\<lambda>s. P s \<and> map_of (tracked_tool_calls s) k = Some t) (f t) R Q" "\<And>s. P s \<Longrightarrow> Q s"
  shows "hoare P (on_tool k f) R Q"
  using assms unfolding hoare_def on_tool_def by (fastforce split: option.splits)

lemma set_tool_kept:
  assumes "\<And>s. P s \<Longrightarrow> feeding k s \<and> (case map_of (tracked_tool_calls s) k of None \<Rightarrow> \<not> tc_started t \<and> \<not> tc_stopped t
      | Some t0 \<Rightarrow> tc_started t = tc_started t0 \<and> tc_stopped t = tc_stopped t0 \<and> tc_block_index t = tc_block_index t0)"
  shows "hoare P (set_tool k t) (feeding k) Q"
  unfolding set_tool_def
proof (rule hoare_set)
  fix s
  assume "P s"
  then have a: "feeding k s" and c: "case map_of (tracked_tool_calls s) k of None \<Rightarrow> \<not> tc_started t \<and> \<not> tc_stopped t
      | Some t0 \<Rightarrow> tc_started t = tc_started t0 \<and> tc_stopped t = tc_stopped t0 \<and> tc_block_index t = tc_block_index t0"
    using assms by blast+
  from a have ok: "tools_ok (current_block_index s) (tracked_tool_calls s)" by (simp add: feeding_def in_tools_iff)
  show "feeding k (s\<lparr>tracked_tool_calls := dset k t (tracked_tool_calls s)\<rparr>)"
    using a tool_kept [OF ok c] by (auto simp: feeding_def in_tools_iff closed_text_def named_but_def update_conv')
qed

lemma fed_in_tools: "fed s \<Longrightarrow> in_tools s" and fed_feeding: "fed s \<Longrightarrow> feeding k s" and
  feeding_in_tools: "feeding k s \<Longrightarrow> in_tools s"
  by (auto simp: fed_def feeding_def named_started_def named_but_def)

lemma feeding_fed:
  "feeding k s \<Longrightarrow> map_of (tracked_tool_calls s) k = Some t \<Longrightarrow> truthy (tc_name t) \<longrightarrow> tc_started t \<Longrightarrow> fed s"
  unfolding fed_def feeding_def named_started_def named_but_def by (metis option.sel)

lemma name_tool_ok: "hoare (feeding k) (name_tool name k) (feeding k) in_tools"
  unfolding name_tool_def
proof (rule hoare_on_tool)
  fix t :: tracked
  show "hoare (\<lambda>s. feeding k s \<and> map_of (tracked_tool_calls s) k = Some t)
      (if truthy name \<and> \<not> truthy (tc_name t) then set_tool k (t\<lparr>tc_name := name\<rparr>) else skip) (feeding k) in_tools"
    by (auto intro!: set_tool_kept hoare_skip)
qed (rule feeding_in_tools)

lemma start_tool_step:
  assumes "in_tools s" "map_of (tracked_tool_calls s) k = Some t" "\<not> tc_started t" "truthy (tc_name t)"
  defines "t' \<equiv> t\<lparr>tc_block_index := current_block_index s, tc_started := True\<rparr>"
  shows "start_tool k s =
      (s\<lparr>tracked_tool_calls := dset k t' (tracked_tool_calls s), current_block_index := current_block_index s + 1,
         emitted := emitted s @ [Block_start (current_block_index s) (Tool_block (tc_id t) (tc_name t))]\<rparr>, None)"
    "in_tools (s\<lparr>tracked_tool_calls := dset k t' (tracked_tool_calls s), current_block_index := current_block_index s + 1,
         emitted := emitted s @ [Block_start (current_block_index s) (Tool_block (tc_id t) (tc_name t))]\<rparr>)"
proof -
  show "start_tool k s =
      (s\<lparr>tracked_tool_calls := dset k t' (tracked_tool_calls s), current_block_index := current_block_index s + 1,
         emitted := emitted s @ [Block_start (current_block_index s) (Tool_block (tc_id t) (tc_name t))]\<rparr>, None)"
    using assms(2-4) by (simp add: start_tool_def on_tool_def step_defs set_tool_def t'_def)
  have "tools_ok (current_block_index s) (tracked_tool_calls s)" using assms(1) by (simp add: in_tools_iff)
  from tool_started [OF this assms(2,3)] assms(1)
  show "in_tools (s\<lparr>tracked_tool_calls := dset k t' (tracked_tool_calls s), current_block_index := current_block_index s + 1,
         emitted := emitted s @ [Block_start (current_block_index s) (Tool_block (tc_id t) (tc_name t))]\<rparr>)"
    by (simp add: in_tools_iff closed_text_def open_blocks_append t'_def)
qed

lemma in_tools_has: "in_tools (s\<lparr>has_tool_calls := b\<rparr>) = in_tools s"
  by (simp add: in_tools_iff closed_text_def)

lemma start_named_tool_ok: "hoare (feeding k) (start_named_tool k) fed in_tools"
  unfolding start_named_tool_def
proof (rule hoare_on_tool)
  fix t :: tracked
  show "hoare (\<lambda>s. feeding k s \<and> map_of (tracked_tool_calls s) k = Some t)
      (if \<not> tc_started t \<and> truthy (tc_name t) then andthen (set_state (\<lambda>s. s\<lparr>has_tool_calls := True\<rparr>)) (start_tool k)
       else skip) fed in_tools"
  proof (cases "\<not> tc_started t \<and> truthy (tc_name t)")
    case True
    have "start_tool k (s\<lparr>has_tool_calls := True\<rparr>) = (s', e) \<Longrightarrow> e = None \<and> fed s'"
      if "feeding k s" "map_of (tracked_tool_calls s) k = Some t" for s s' e
    proof -
      let ?s = "s\<lparr>has_tool_calls := True\<rparr>"
      have in_t: "in_tools ?s" "map_of (tracked_tool_calls ?s) k = Some t" using that by (simp_all add: in_tools_has feeding_def)
      note st = start_tool_step [OF in_t conjunct1 [OF True] conjunct2 [OF True]]
      assume "start_tool k ?s = (s', e)"
      with st that(1) show "e = None \<and> fed s'"
        by (auto simp: fed_def feeding_def named_started_def named_but_def update_conv')
    qed
    with True show ?thesis by (fastforce simp: hoare_def andthen_def set_state_def)
  next
    case False
    then show ?thesis unfolding if_not_P [OF False] by (intro hoare_skip) (auto intro: feeding_fed)
  qed
qed (rule feeding_in_tools)

lemma set_tool_fed:
  assumes "tc_started t = tc_started t0" "tc_stopped t = tc_stopped t0" "tc_block_index t = tc_block_index t0" "tc_name t = tc_name t0"
  shows "hoare (\<lambda>s. fed s \<and> map_of (tracked_tool_calls s) k = Some t0) (set_tool k t) fed Q"
  unfolding set_tool_def
proof (rule hoare_set)
  fix s
  assume a: "fed s \<and> map_of (tracked_tool_calls s) k = Some t0"
  then have ok: "tools_ok (current_block_index s) (tracked_tool_calls s)" by (simp add: fed_def in_tools_iff)
  have "case map_of (tracked_tool_calls s) k of None \<Rightarrow> \<not> tc_started t \<and> \<not> tc_stopped t
         | Some t0 \<Rightarrow> tc_started t = tc_started t0 \<and> tc_stopped t = tc_stopped t0 \<and> tc_block_index t = tc_block_index t0"
    using a assms by simp
  from tool_kept [OF ok this] a assms show "fed (s\<lparr>tracked_tool_calls := dset k t (tracked_tool_calls s)\<rparr>)"
    by (auto simp: fed_def in_tools_iff closed_text_def named_started_def update_conv')
qed

lemma add_arguments_ok: "hoare fed (add_arguments chunk k) fed in_tools"
  unfolding add_arguments_def
proof (rule hoare_on_tool)
  fix t :: tracked
  show "hoare (\<lambda>s. fed s \<and> map_of (tracked_tool_calls s) k = Some t)
     (case chunk of PStr c \<Rightarrow> set_tool k (t\<lparr>tc_arguments := tc_arguments t @ c\<rparr>) | _ \<Rightarrow> (\<lambda>s. (s, Some TypeError))) fed in_tools"
    by (cases chunk) (auto intro!: set_tool_fed simp: hoare_def [of _ "\<lambda>s. (s, Some TypeError)"] fed_in_tools)
qed (rule fed_in_tools)

lemma send_arguments_ok: "hoare fed (send_arguments chunk k) fed in_tools"
  unfolding send_arguments_def
proof (rule hoare_on_tool)
  fix t :: tracked
  show "hoare (\<lambda>s. fed s \<and> map_of (tracked_tool_calls s) k = Some t)
     (if tc_started t \<and> \<not> tc_stopped t
      then yield (Block_delta (tc_block_index t) (Json_delta (case chunk of PStr c \<Rightarrow> c | _ \<Rightarrow> []))) else skip) fed in_tools"
    by (auto simp: step_defs fed_def in_tools_iff closed_text_def named_started_def open_blocks_append
        intro: tool_is_open simp: is_open_def)
qed (rule fed_in_tools)

lemma stop_complete_ok: "hoare fed (stop_complete loads k) fed in_tools"
  unfolding stop_complete_def
proof (rule hoare_on_tool)
  fix t :: tracked
  let ?c = "tc_started t \<and> \<not> tc_stopped t \<and> may_be_complete (tc_arguments t) \<and> loads (tc_arguments t) \<noteq> None"
  show "hoare (\<lambda>s. fed s \<and> map_of (tracked_tool_calls s) k = Some t)
     (if ?c then andthen (set_tool k (t\<lparr>tc_stopped := True\<rparr>)) (yield (Block_stop (tc_block_index t))) else skip) fed in_tools"
  proof (cases ?c)
    case True
    have "fed (s\<lparr>tracked_tool_calls := dset k (t\<lparr>tc_stopped := True\<rparr>) (tracked_tool_calls s),
        emitted := emitted s @ [Block_stop (tc_block_index t)]\<rparr>)"
      if "fed s" "map_of (tracked_tool_calls s) k = Some t" for s
    proof -
      from that(1) have ok: "tools_ok (current_block_index s) (tracked_tool_calls s)" by (simp add: fed_def in_tools_iff)
      have "(tc_block_index t, Tool) \<in> tool_blocks (tracked_tool_calls s)"
        using that(2) True by (auto intro: tool_is_open simp: is_open_def)
      then have "tc_block_index t \<in> fst ` tool_blocks (tracked_tool_calls s)" by force
      with that True tool_stopped [OF ok that(2)] show ?thesis
        by (auto simp: fed_def in_tools_iff closed_text_def named_started_def open_blocks_append update_conv')
    qed
    then show ?thesis unfolding if_P [OF True] by (simp add: step_defs set_tool_def)
  next
    case False
    then show ?thesis unfolding if_not_P [OF False] by (intro hoare_skip) simp
  qed
qed (rule fed_in_tools)

lemma feed_tool_ok: "hoare (feeding k) (feed_tool loads name chunk k) fed in_tools"
proof -
  have "hoare fed (if truthy chunk
      then andthen (add_arguments chunk k) (andthen (send_arguments chunk k) (stop_complete loads k)) else skip) fed in_tools"
    by (auto intro: hoare_andthen [OF add_arguments_ok hoare_andthen [OF send_arguments_ok stop_complete_ok]] hoare_skip)
  with name_tool_ok start_named_tool_ok show ?thesis
    unfolding feed_tool_def by (intro hoare_andthen [OF _ hoare_andthen])
qed

lemma set_tool_id_ok: "hoare (feeding k) (set_tool_id i k) (feeding k) Q"
  unfolding set_tool_id_def
  by (rule hoare_set) (auto simp: feeding_def in_tools_iff closed_text_def named_but_def)

lemma add_tool_ok:
  assumes "fed s" "map_of (tracked_tool_calls s) k = None" "set_tool k (new_tool i name) s = (s', e)"
  shows "e = None \<and> feeding k s'"
proof -
  have "hoare (\<lambda>s. fed s \<and> map_of (tracked_tool_calls s) k = None) (set_tool k (new_tool i name)) (feeding k) (\<lambda>_. False)"
    by (rule set_tool_kept) (simp add: fed_feeding new_tool_def)
  with assms show ?thesis by (fastforce simp: hoare_def split: option.splits)
qed

lemma track_tool_ok: "hoare fed (track_tool k i name) (feeding k) in_tools"
  unfolding hoare_def
proof (intro allI impI)
  fix s s' e
  assume "fed s \<and> track_tool k i name s = (s', e)"
  then show "case e of None \<Rightarrow> feeding k s' | Some _ \<Rightarrow> in_tools s'"
    using add_tool_ok [of s k i name s' e] by (auto simp: track_tool_def skip_def fed_feeding split: if_splits)
qed

lemma resolve_tool_ok:
  assumes "\<forall>ks. PStr (''toolu_'' @ fresh ks) \<notin> set ks" "\<And>k. hoare (feeding k) (go_on k) fed in_tools"
  shows "hoare fed (resolve_tool fresh call_index tool_id name go_on) fed in_tools"
proof (cases "truthy tool_id")
  case True
  have "hoare (feeding k) (reading (dict_key call_index) (\<lambda>i. andthen (set_tool_id i k) (go_on k))) fed in_tools" for k
    by (intro hoare_reading hoare_andthen [OF set_tool_id_ok assms(2)]) (rule feeding_in_tools)
  then show ?thesis using True unfolding resolve_tool_def
    by (simp add: hoare_reading [OF hoare_andthen [OF track_tool_ok]] fed_in_tools)
next
  case False
  have "hoare fed (\<lambda>s. case map_of (index_to_tool_id s) i of Some k \<Rightarrow> go_on k s
         | None \<Rightarrow> (let k = fallback_id fresh s
             in andthen (set_tool k (new_tool k name)) (andthen (set_tool_id i k) (go_on k)) s)) fed in_tools" (is "hoare fed ?f _ _") for i
    unfolding hoare_def
  proof (intro allI impI)
    fix s s' e
    assume a: "fed s \<and> ?f s = (s', e)"
    show "case e of None \<Rightarrow> fed s' | Some _ \<Rightarrow> in_tools s'"
    proof (cases "map_of (index_to_tool_id s) i")
      case None
      let ?k = "fallback_id fresh s"
      obtain s1 e1 where s1: "set_tool ?k (new_tool ?k name) s = (s1, e1)" by (cases "set_tool ?k (new_tool ?k name) s")
      have "?k \<notin> set (map fst (tracked_tool_calls s))" unfolding fallback_id_def by (rule assms(1) [rule_format])
      then have "map_of (tracked_tool_calls s) ?k = None" by (simp add: map_of_eq_None_iff)
      with a s1 have "e1 = None" "feeding ?k s1" using add_tool_ok by blast+
      moreover from this a None s1 have "andthen (set_tool_id i ?k) (go_on ?k) s1 = (s', e)"
        by (simp add: Let_def andthen_def [of "set_tool _ _"])
      ultimately show ?thesis by (intro hoareD [OF hoare_andthen [OF set_tool_id_ok assms(2)]])
    next
      case (Some k)
      with a have "feeding k s" "go_on k s = (s', e)" by (simp_all add: fed_feeding)
      then show ?thesis by (rule hoareD [OF assms(2)])
    qed
  qed
  with False show ?thesis unfolding resolve_tool_def by (simp add: hoare_reading fed_in_tools)
qed

lemma handle_tool_ok:
  assumes "\<forall>ks. PStr (''toolu_'' @ fresh ks) \<notin> set ks"
  shows "hoare fed (handle_tool fresh loads tool_call) fed in_tools"
  unfolding handle_tool_def
  by (intro hoare_reading resolve_tool_ok [OF assms feed_tool_ok]) (erule fed_in_tools)+

lemma in_tools_stoppable: "in_tools s \<Longrightarrow> stoppable s" and resting_stoppable: "resting s \<Longrightarrow> stoppable s"
  by (auto simp: in_tools_def resting_def stoppable_def)

lemma handle_tools_ok:
  assumes "\<forall>ks. PStr (''toolu_'' @ fresh ks) \<notin> set ks"
  shows "hoare resting (handle_tools fresh loads tool_calls) resting stoppable"
proof (cases "truthy tool_calls")
  case True
  have th: "hoare resting stop_thinking (\<lambda>s. resting s \<and> \<not> thinking_block_open s) stoppable"
  proof (rule hoareI)
    fix s s' e
    assume "resting s" "stop_thinking s = (s', e)"
    then show "case e of None \<Rightarrow> resting s' \<and> \<not> thinking_block_open s' | Some _ \<Rightarrow> stoppable s'"
      using stop_thinking_ok [of s s' e] by (auto simp: resting_def named_started_def)
  qed
  have tx: "hoare (\<lambda>s. resting s \<and> \<not> thinking_block_open s) stop_text fed stoppable"
  proof (rule hoareI)
    fix s s' e
    assume "resting s \<and> \<not> thinking_block_open s" "stop_text s = (s', e)"
    then show "case e of None \<Rightarrow> fed s' | Some _ \<Rightarrow> stoppable s'"
      using stop_text_ok [of s s' e] by (auto simp: resting_def named_started_def fed_def in_tools_def closed_text_def)
  qed
  have "hoare fed (each (handle_tool fresh loads) calls) fed in_tools" for calls
    by (rule hoare_each [OF handle_tool_ok [OF assms]])
  then have "hoare fed (reading (py_iter tool_calls) (each (handle_tool fresh loads))) fed in_tools"
    by (rule hoare_reading) (rule fed_in_tools)
  then have "hoare fed (reading (py_iter tool_calls) (each (handle_tool fresh loads))) resting stoppable"
    by (rule hoare_weaken) (auto simp: fed_def in_tools_def resting_def stoppable_def)
  with True th tx show ?thesis unfolding handle_tools_def by (simp add: hoare_andthen [OF th hoare_andthen [OF tx]])
next
  case False
  then show ?thesis by (simp add: handle_tools_def hoare_skip)
qed

lemma handle_finish_ok: "hoare resting (handle_finish finish_reason) resting stoppable"
  unfolding handle_finish_def
  by (auto intro!: hoare_skip hoare_reading hoare_set resting_stoppable
      simp: resting_def in_step_def closed_text_def text_blocks_def named_started_def)

lemma read_usage_ok: "hoare resting (read_usage u) resting stoppable"
  unfolding read_usage_def Let_def
  by (auto intro!: hoare_reading hoare_set resting_stoppable
      simp: resting_def in_step_def closed_text_def text_blocks_def named_started_def)

lemma handle_choice_ok:
  assumes "\<forall>ks. PStr (''toolu_'' @ fresh ks) \<notin> set ks"
  shows "hoare resting (handle_choice fresh loads choice) resting stoppable"
  unfolding handle_choice_def Let_def
  by (intro hoare_reading hoare_andthen [OF emit_reasoning_ok] hoare_andthen [OF emit_text_ok]
      hoare_andthen [OF handle_tools_ok [OF assms]] handle_finish_ok) (erule resting_stoppable)+

lemma handle_data_ok:
  assumes "\<forall>ks. PStr (''toolu_'' @ fresh ks) \<notin> set ks"
  shows "hoare resting (handle_data fresh loads data) resting stoppable"
proof -
  have usage: "hoare resting (case u of PDict d \<Rightarrow> read_usage d | _ \<Rightarrow> skip) resting stoppable" for u
    by (cases u) (simp_all add: read_usage_ok hoare_skip)
  have choices: "hoare resting (if truthy choices then reading (py_first choices) (handle_choice fresh loads) else skip)
      resting stoppable" for choices
    using resting_stoppable by (auto intro!: hoare_reading handle_choice_ok [OF assms] hoare_skip)
  show ?thesis unfolding handle_data_def
    by (intro hoare_reading hoare_andthen [OF usage] choices) (erule resting_stoppable)+
qed

lemma chunks_ok:
  assumes "\<forall>ks. PStr (''toolu_'' @ fresh ks) \<notin> set ks"
  shows "hoare resting (each (convert_chunk fresh loads) chunks) resting stoppable"
proof -
  have "hoare resting (handle_line fresh loads line) resting stoppable" for line
    unfolding handle_line_def Let_def by (auto intro: hoare_skip handle_data_ok [OF assms] split: option.split)
  then have "hoare resting (convert_chunk fresh loads chunk) resting stoppable" for chunk
    unfolding convert_chunk_def by (rule hoare_each)
  then show ?thesis by (rule hoare_each)
qed

lemma initial_resting: "resting (initial tokens)"
  by (simp add: resting_def in_step_def closed_text_def text_blocks_def named_started_def initial_def tools_ok_def tool_blocks_def)

subsection \<open>Closing what is open\<close>

text \<open>
  From here the flags no longer say what is open. \<open>settled\<close>: only tool calls are open and the running index is
  that of the next block.
\<close>

definition settled :: "pyval set \<Rightarrow> stream_state \<Rightarrow> bool" where
  "settled K s =
     (fst ` set (tracked_tool_calls s) = K \<and> tools_ok (current_block_index s) (tracked_tool_calls s) \<and>
      open_blocks (emitted s) (0, {}) = Some (current_block_index s, tool_blocks (tracked_tool_calls s)))"

lemma has_tool: "fst ` set (tracked_tool_calls s) = K \<Longrightarrow> k \<in> K \<Longrightarrow> \<exists>t. map_of (tracked_tool_calls s) k = Some t"
  by (metis map_of_eq_None_iff not_Some_eq)

lemma dset_keys: "fst ` set (dset k v d) = insert k (fst ` set d)"
  by (induction d) auto

lemma flush_tool_ok:
  assumes "k \<in> K" "settled K s"
  shows "\<exists>s'. flush_tool k s = (s', None) \<and> settled K s' \<and> text_block_open s' = text_block_open s"
proof -
  from assms obtain t where t: "map_of (tracked_tool_calls s) k = Some t"
    using has_tool [of s K k] by (auto simp: settled_def)
  show ?thesis
  proof (cases "\<not> tc_started t \<and> truthy (tc_name t)")
    case True
    let ?t = "t\<lparr>tc_block_index := current_block_index s, tc_started := True\<rparr>"
    from assms(2) have "tools_ok (current_block_index s) (tracked_tool_calls s)" by (simp add: settled_def)
    note ok = this tool_started [OF this t conjunct1 [OF True]]
    have ns: "\<not> tc_stopped t" using ok(1) t True by (auto simp: tools_ok_def)
    have keys: "fst ` set (dset k ?t (tracked_tool_calls s)) = K"
      using assms by (auto simp: dset_keys settled_def)
    show ?thesis using True t ok keys assms(2)
      by (auto simp: flush_tool_def start_tool_def on_tool_def step_defs set_tool_def settled_def open_blocks_append
          update_conv')
  next
    case False
    with t assms show ?thesis by (auto simp: flush_tool_def on_tool_def skip_def)
  qed
qed

lemma flush_named: "named_started s \<Longrightarrow> flush_tool k s \<in> {(s, None), (s, Some (KeyError []))}"
  by (auto simp: flush_tool_def on_tool_def skip_def named_started_def split: option.splits)

lemma flush_all:
  assumes "set ks \<subseteq> K" "settled K s"
  shows "\<exists>s'. each flush_tool ks s = (s', None) \<and> settled K s' \<and> text_block_open s' = text_block_open s"
  using assms
proof (induction ks arbitrary: s)
  case (Cons k ks)
  then obtain s1 where "flush_tool k s = (s1, None)" "settled K s1" "text_block_open s1 = text_block_open s"
    using flush_tool_ok [of k K s] by auto
  with Cons show ?case by (auto simp: andthen_def)
qed (simp add: skip_def)

lemma flush_all_named: "named_started s \<Longrightarrow> fst (each flush_tool ks s) = s"
proof (induction ks)
  case (Cons k ks)
  then show ?case using flush_named [of s k] by (auto simp: andthen_def)
qed (simp add: skip_def)

lemma stop_all:
  assumes "distinct ks" "set ks \<subseteq> fst ` set (tracked_tool_calls s)" "tools_ok c (tracked_tool_calls s)"
    "open_blocks (emitted s) (0, {}) = Some (n, \<Union>k \<in> set ks. open_block (map_of (tracked_tool_calls s) k))"
  shows "\<exists>m. open_blocks (emitted (fst (each stop_tool ks s))) (0, {}) = Some (m, {})"
  using assms
proof (induction ks arbitrary: s)
  case Nil
  then show ?case by (simp add: skip_def)
next
  case (Cons k ks)
  then obtain t where t: "map_of (tracked_tool_calls s) k = Some t" using has_tool by fastforce
  let ?B = "\<Union>k \<in> set ks. open_block (map_of (tracked_tool_calls s) k)"
  show ?case
  proof (cases "is_open t")
    case True
    let ?s = "s\<lparr>emitted := emitted s @ [Block_stop (tc_block_index t)]\<rparr>"
    have "fst x \<noteq> tc_block_index t" if x: "x \<in> ?B" for x
    proof
      assume eq: "fst x = tc_block_index t"
      from x obtain k' t' where "k' \<in> set ks" "map_of (tracked_tool_calls s) k' = Some t'" "is_open t'" "x = (tc_block_index t', Tool)"
        by (auto simp: in_open_block)
      with eq t True Cons.prems(3) have "k' = k" unfolding tools_ok_def is_open_def by (metis fst_conv)
      with \<open>k' \<in> set ks\<close> Cons.prems(1) show False by simp
    qed
    then have "{x \<in> insert (tc_block_index t, Tool) ?B. fst x \<noteq> tc_block_index t} = ?B" by auto
    then have "open_blocks (emitted ?s) (0, {}) = Some (n, ?B)"
      using Cons.prems(4) t True by (simp add: open_blocks_append)
    with Cons.IH [of ?s] Cons.prems have "\<exists>m. open_blocks (emitted (fst (each stop_tool ks ?s))) (0, {}) = Some (m, {})"
      by simp
    moreover have "stop_tool k s = (?s, None)" using t True by (simp add: stop_tool_def on_tool_def is_open_def step_defs)
    ultimately show ?thesis by (simp add: andthen_def)
  next
    case False
    then have "stop_tool k s = (s, None)" using t by (auto simp: stop_tool_def on_tool_def is_open_def skip_def)
    moreover have "open_blocks (emitted s) (0, {}) = Some (n, ?B)" using Cons.prems(4) t False by simp
    ultimately show ?thesis using Cons.IH [of s] Cons.prems by (simp add: andthen_def)
  qed
qed

lemma tool_blocks_keys: "tool_blocks ts = (\<Union>k \<in> fst ` set ts. open_block (map_of ts k))"
proof -
  have "open_block (map_of ts k) = {}" if "k \<notin> fst ` set ts" for k
    using that by (metis map_of_eq_None_iff open_block.simps(1))
  then show ?thesis unfolding tool_blocks_def by blast
qed

text \<open>Text that is open is stopped after the calls were flushed, which changes nothing then.\<close>

lemma close_blocks_ok:
  assumes "stoppable s"
  shows "\<exists>n. open_blocks (emitted (close_blocks s)) (0, {}) = Some (n, {})"
proof -
  let ?s1 = "if thinking_block_open s then s\<lparr>emitted := emitted s @ [Block_stop (current_block_index s)],
                current_block_index := current_block_index s + 1\<rparr> else s"
  let ?keys = "map fst (tracked_tool_calls s)"
  have keys: "map fst (tracked_tool_calls ?s1) = ?keys" by simp
  define s2 where "s2 = fst (each flush_tool ?keys ?s1)"
  define s3 where "s3 = (if text_block_open s2 then s2\<lparr>emitted := emitted s2 @ [Block_stop (current_block_index s2)]\<rparr> else s2)"
  have close: "close_blocks s = fst (each stop_tool ?keys s3)" unfolding close_blocks_def Let_def keys s2_def s3_def ..
  have ok: "tools_ok (current_block_index s) (tracked_tool_calls s)" using assms by (simp add: stoppable_def in_step_def)
  have "\<exists>n c. fst ` set (tracked_tool_calls s3) = set ?keys \<and> tools_ok c (tracked_tool_calls s3) \<and>
      open_blocks (emitted s3) (0, {}) = Some (n, tool_blocks (tracked_tool_calls s3))"
  proof (cases "text_block_open s")
    case True
    then have "named_started s" "\<not> thinking_block_open s" using assms by (auto simp: stoppable_def in_step_def closed_text_def)
    moreover from this have "s2 = s" by (simp add: s2_def flush_all_named)
    ultimately show ?thesis using True assms ok
      by (auto simp: s3_def stoppable_def in_step_def closed_text_def text_blocks_def open_blocks_append other_blocks minus_block
          intro!: exI [of _ "current_block_index s"])
  next
    case False
    have "settled (set ?keys) ?s1"
      using False assms ok by (auto simp: settled_def stoppable_def in_step_def closed_text_def text_blocks_def
          open_blocks_append minus_block tools_ok_mono)
    from flush_all [OF _ this, of ?keys] False have "settled (set ?keys) s2" "\<not> text_block_open s2" by (auto simp: s2_def)
    then show ?thesis by (auto simp: s3_def settled_def)
  qed
  then obtain n c where s3: "fst ` set (tracked_tool_calls s3) = set ?keys" "tools_ok c (tracked_tool_calls s3)"
    "open_blocks (emitted s3) (0, {}) = Some (n, tool_blocks (tracked_tool_calls s3))" by blast
  show ?thesis unfolding close
  proof (rule stop_all [OF _ _ s3(2)])
    show "distinct ?keys" using ok by (simp add: tools_ok_def)
    show "set ?keys \<subseteq> fst ` set (tracked_tool_calls s3)" using s3(1) by simp
    show "open_blocks (emitted s3) (0, {}) = Some (n, \<Union>k \<in> set ?keys. open_block (map_of (tracked_tool_calls s3) k))"
      using s3(3) unfolding tool_blocks_keys s3(1) .
  qed
qed

text \<open>
  C16. Whatever the provider sends, malformed lines, repeated or nameless tool calls and chunks that make the
  conversion raise included, the converted stream follows the Anthropic protocol: one message, whose blocks
  start under the indices 0, 1, 2, ..., whose deltas each belong to an open block of their kind, and whose blocks are
  each stopped exactly once, all before the final events. It relies on generated identifiers being new.
\<close>

theorem converted_stream_is_well_formed:
  assumes "\<forall>ks. PStr (''toolu_'' @ fresh ks) \<notin> set ks"
  shows "well_formed_stream (openai_stream_to_anthropic_stream fresh loads message_id model tokens chunks)"
proof -
  obtain s e where s: "each (convert_chunk fresh loads) chunks (initial tokens) = (s, e)"
    by (cases "each (convert_chunk fresh loads) chunks (initial tokens)")
  then have "stoppable s"
    using hoareD [OF chunks_ok [OF assms] initial_resting s] by (cases e) (auto simp: resting_stoppable)
  from close_blocks_ok [OF this] s show ?thesis
    by (fastforce simp: well_formed_stream_def openai_stream_to_anthropic_stream_def Let_def)
qed

definition sample_fresh :: "pyval list \<Rightarrow> string" where
  "sample_fresh ks = concat (map (\<lambda>k. case k of PStr s \<Rightarrow> s @ ''x'' | _ \<Rightarrow> []) ks)"

lemma sample_fresh_new: "\<forall>ks. PStr (''toolu_'' @ sample_fresh ks) \<notin> set ks"
proof -
  have "PStr s \<in> set ks \<Longrightarrow> length s < length (sample_fresh ks)" for s ks
    by (induction ks) (auto simp: sample_fresh_def)
  then show ?thesis by (metis add_less_same_cancel2 length_append not_less_zero)
qed

definition sample_loads :: "string \<Rightarrow> pyval option" where
  "sample_loads s =
     (if s = ''t'' then Some (PDict [(''choices'', PList [PDict [(''delta'', PDict [(''content'', PStr ''hi'')])]])])
      else if s = ''c'' then Some (PDict [(''choices'', PList [PDict [(''finish_reason'', PStr ''tool_calls''),
        (''delta'', PDict [(''tool_calls'', PList [PDict [(''function'',
           PDict [(''name'', PStr ''f''), (''arguments'', PStr ''{1'')])]])])]])])
      else None)"

lemma sample_stream:
  "openai_stream_to_anthropic_stream sample_fresh sample_loads ''m'' ''gpt'' PNone [''data: t'', ''data: c'', ''other''] =
     [Message_start ''m'' ''gpt'' PNone, Block_start 0 Text_block, Block_delta 0 (Text_delta (PStr ''hi'')), Block_stop 0,
      Block_start 1 (Tool_block (PStr ''toolu_'') (PStr ''f'')), Block_delta 1 (Json_delta ''{1''), Block_stop 1,
      Message_delta ''tool_use'' [(''output_tokens'', PInt 0)], Message_stop]"
  by code_simp

lemma converted_stream_is_well_formed_witness:
  "well_formed_stream
     [Message_start ''m'' ''gpt'' PNone, Block_start 0 Text_block, Block_delta 0 (Text_delta (PStr ''hi'')), Block_stop 0,
      Block_start 1 (Tool_block (PStr ''toolu_'') (PStr ''f'')), Block_delta 1 (Json_delta ''{1''), Block_stop 1,
      Message_delta ''tool_use'' [(''output_tokens'', PInt 0)], Message_stop]"
  using converted_stream_is_well_formed [OF sample_fresh_new, of sample_loads "''m''" "''gpt''" PNone
      "[''data: t'', ''data: c'', ''other'']"]
  unfolding sample_stream .

end
