(* ===== verification/Anthropic_Payload.thy ===== *)
theory Anthropic_Payload
  imports Anthropic_Stream
begin

section \<open>Anthropic requests and responses\<close>

text \<open>
  Models \<open>convert_anthropic_to_openai_payload\<close> and \<open>convert_openai_to_anthropic_response\<close> of
  \<open>utils/anthropic.py\<close>: a request of the Anthropic Messages API as a chat completion request, and the response
  to it on the way back. The JSON encoder and decoder, the text form of values, and generated identifiers are
  arguments.
\<close>

subsection \<open>Content parts\<close>

definition has_cache :: "pyval \<Rightarrow> bool" where
  "has_cache block = (case block of PDict d \<Rightarrow> dhas d ''cache_control'' | _ \<Rightarrow> False)"

definition copy_cache_control :: "pyval \<Rightarrow> pydict \<Rightarrow> pydict" where
  "copy_cache_control source target =
     (case source of
        PDict d \<Rightarrow> if dhas d ''cache_control'' then dset ''cache_control'' (dget d ''cache_control'') target else target
      | _ \<Rightarrow> target)"

definition has_cache_control :: "pyval list \<Rightarrow> bool" where
  "has_cache_control blocks = list_ex has_cache blocks"

definition finalize_openai_content :: "pydict list \<Rightarrow> pyval" where
  "finalize_openai_content blocks =
     (case blocks of
        [] \<Rightarrow> PStr []
      | [block] \<Rightarrow>
          if dget block ''type'' = PStr ''text'' \<and> \<not> has_cache_control [PDict block] then dget_or block ''text'' (PStr [])
          else PList [PDict block]
      | _ \<Rightarrow> PList (map PDict blocks))"

definition text_part :: "pydict \<Rightarrow> pydict" where
  "text_part block =
     copy_cache_control (PDict block) [(''type'', PStr ''text''), (''text'', dget_or block ''text'' (PStr []))]"

definition image_url_part :: "pydict \<Rightarrow> pyval \<Rightarrow> pydict" where
  "image_url_part block url =
     copy_cache_control (PDict block) [(''type'', PStr ''image_url''), (''image_url'', PDict [(''url'', url)])]"

definition image_part :: "(pyval \<Rightarrow> string) \<Rightarrow> pydict \<Rightarrow> pydict list result" where
  "image_part py_str block =
     (case dget_or block ''source'' (PDict []) of
        PDict source \<Rightarrow>
          Inr (if dget source ''type'' = PStr ''base64''
               then [image_url_part block (PStr (''data:'' @ text_of py_str (dget_or source ''media_type'' (PStr ''image/png'')) @
                       '';base64,'' @ text_of py_str (dget_or source ''data'' (PStr []))))]
               else if dget source ''type'' = PStr ''url''
               then [image_url_part block (dget_or source ''url'' (PStr []))]
               else [])
      | _ \<Rightarrow> Inl AttributeError)"

text \<open>Documents and search results have no counterpart and become text.\<close>

definition plain_text :: "string \<Rightarrow> pydict" where
  "plain_text s = [(''type'', PStr ''text''), (''text'', PStr s)]"

definition document_part :: "(pyval \<Rightarrow> string) \<Rightarrow> pydict \<Rightarrow> pydict list result" where
  "document_part py_str block =
     (case dget_or block ''source'' (PDict []) of
        PDict source \<Rightarrow>
          (let document_title = dget_or block ''title'' (PStr ''Document'');
               document_context = dget_or block ''context'' (PStr [])
           in Inr [plain_text (''[Document: '' @ text_of py_str document_title @ '']'' @
                (if truthy document_context then CHR 0x0A # text_of py_str document_context else []) @
                (if dget source ''type'' = PStr ''text'' \<and> truthy (dget source ''data'')
                 then CHR 0x0A # text_of py_str (dget source ''data'') else []))])
      | _ \<Rightarrow> Inl AttributeError)"

text \<open>\<open>'\n'.join\<close> of values, which must be texts.\<close>

definition str_value :: "pyval \<Rightarrow> string result" where
  "str_value v = (case v of PStr s \<Rightarrow> Inr s | _ \<Rightarrow> Inl TypeError)"

definition join_lines :: "pyval list \<Rightarrow> string result" where
  "join_lines vs = rbind (rmap str_value vs) (\<lambda>ss. Inr (str_join [CHR 0x0A] ss))"

fun search_texts :: "pyval list \<Rightarrow> pyval list" where
  "search_texts [] = []"
| "search_texts (PDict d # rest) =
     (if dget d ''type'' = PStr ''text'' then dget_or d ''text'' (PStr []) # search_texts rest else search_texts rest)"
| "search_texts (_ # rest) = search_texts rest"

definition search_part :: "(pyval \<Rightarrow> string) \<Rightarrow> pydict \<Rightarrow> pydict list result" where
  "search_part py_str block =
     rbind (py_iter (dget_or block ''content'' (PList []))) (\<lambda>blocks.
     rbind (join_lines (search_texts blocks)) (\<lambda>search_body.
       let search_url = dget_or block ''source'' (PStr [])
       in Inr [plain_text (''[Search Result: '' @ text_of py_str (dget_or block ''title'' (PStr [])) @ '']'' @
            (if truthy search_url then CHR 0x0A # ''Source: '' @ text_of py_str search_url else []) @
            (if search_body \<noteq> [] then CHR 0x0A # search_body else []))]))"

subsection \<open>Tool results\<close>

definition result_part :: "(pyval \<Rightarrow> string) \<Rightarrow> pyval \<Rightarrow> pydict list result" where
  "result_part py_str content_block =
     (case content_block of
        PDict block \<Rightarrow>
          (let content_type = dget_or block ''type'' (PStr ''text'')
           in if content_type = PStr ''text'' then Inr [text_part block]
              else if content_type = PStr ''image'' then image_part py_str block
              else if content_type = PStr ''document'' then document_part py_str block
              else if content_type = PStr ''search_result'' then search_part py_str block
              else Inr [])
      | _ \<Rightarrow> Inr [])"

definition flatten_parts :: "pydict list \<Rightarrow> pyval result" where
  "flatten_parts parts =
     (if list_all (\<lambda>part. dget part ''type'' = PStr ''text'') parts \<and> \<not> has_cache_control (map PDict parts)
      then rbind (join_lines (map (\<lambda>part. dget_or part ''text'' (PStr [])) parts)) (\<lambda>s. Inr (PStr s))
      else Inr (PList (map PDict parts)))"

definition tool_result_text :: "(pyval \<Rightarrow> string) \<Rightarrow> pyval \<Rightarrow> pyval result" where
  "tool_result_text py_str content =
     (case content of
        PStr s \<Rightarrow> Inr (PStr s)
      | PList blocks \<Rightarrow> rbind (rmap (result_part py_str) blocks) (\<lambda>parts. flatten_parts (concat parts))
      | _ \<Rightarrow> Inr (PStr []))"

definition mark_error :: "pyval \<Rightarrow> pyval" where
  "mark_error content =
     (case content of
        PStr s \<Rightarrow> PStr (''Error: '' @ s)
      | PList parts \<Rightarrow> PList (PDict (plain_text ''Error: '') # parts)
      | v \<Rightarrow> v)"

definition result_message :: "(pyval \<Rightarrow> string) \<Rightarrow> pydict \<Rightarrow> pydict result" where
  "result_message py_str block =
     rbind (tool_result_text py_str (dget_or block ''content'' (PStr []))) (\<lambda>content.
       Inr [(''role'', PStr ''tool''), (''tool_call_id'', dget_or block ''tool_use_id'' (PStr [])),
            (''content'', if truthy (dget block ''is_error'') then mark_error content else content)])"

subsection \<open>Messages\<close>

definition use_call :: "(pyval \<Rightarrow> string) \<Rightarrow> (pyval \<Rightarrow> string) \<Rightarrow> pydict \<Rightarrow> pydict" where
  "use_call dumps py_str block =
     [(''id'', dget_or block ''id'' (PStr [])), (''type'', PStr ''function''),
      (''function'', PDict [(''name'', dget_or block ''name'' (PStr [])),
         (''arguments'', PStr (if is_dict (dget block ''input'') then dumps (dget block ''input'')
                               else text_of py_str (dget_or block ''input'' (PStr ''{}''))))])]"

text \<open>What one content block adds: to the content, to the tool calls, and to the messages.\<close>

type_synonym added = "pydict list \<times> pydict list \<times> pydict list"

definition convert_block :: "(pyval \<Rightarrow> string) \<Rightarrow> (pyval \<Rightarrow> string) \<Rightarrow> pyval \<Rightarrow> added result" where
  "convert_block dumps py_str v =
     (case v of
        PDict block \<Rightarrow>
          (let block_type = dget_or block ''type'' (PStr ''text'')
           in if block_type = PStr ''text'' then Inr ([text_part block], [], [])
              else if block_type = PStr ''thinking'' \<or> block_type = PStr ''redacted_thinking''
                then Inr ([copy_cache_control v block], [], [])
              else if block_type = PStr ''image'' then rbind (image_part py_str block) (\<lambda>parts. Inr (parts, [], []))
              else if block_type = PStr ''tool_use'' then Inr ([], [use_call dumps py_str block], [])
              else if block_type = PStr ''tool_result'' then rbind (result_message py_str block) (\<lambda>m. Inr ([], [], [m]))
              else Inr ([], [], []))
      | _ \<Rightarrow> Inl AttributeError)"

fun convert_blocks :: "(pyval \<Rightarrow> string) \<Rightarrow> (pyval \<Rightarrow> string) \<Rightarrow> pyval list \<Rightarrow> added result" where
  "convert_blocks dumps py_str [] = Inr ([], [], [])"
| "convert_blocks dumps py_str (block # rest) =
     rbind (convert_block dumps py_str block) (\<lambda>(content, calls, messages).
     rbind (convert_blocks dumps py_str rest) (\<lambda>(content', calls', messages').
       Inr (content @ content', calls @ calls', messages @ messages')))"

definition convert_message :: "(pyval \<Rightarrow> string) \<Rightarrow> (pyval \<Rightarrow> string) \<Rightarrow> pyval \<Rightarrow> pydict list result" where
  "convert_message dumps py_str msg =
     rbind (py_get msg ''role'' (PStr ''user'')) (\<lambda>role.
     rbind (py_get msg ''content'' PNone) (\<lambda>content.
       case content of
         PStr s \<Rightarrow> Inr [[(''role'', role), (''content'', PStr s)]]
       | PList blocks \<Rightarrow>
           rbind (convert_blocks dumps py_str blocks) (\<lambda>(openai_content, tool_calls, tool_messages).
             Inr (tool_messages @
               (if tool_calls \<noteq> []
                then [[(''role'', role), (''content'', finalize_openai_content openai_content),
                       (''tool_calls'', PList (map PDict tool_calls))]]
                else if openai_content \<noteq> [] then [[(''role'', role), (''content'', finalize_openai_content openai_content)]]
                else [])))
       | _ \<Rightarrow> Inr [[(''role'', role), (''content'', PStr (if truthy content then text_of py_str content else []))]]))"

definition system_part :: "pyval \<Rightarrow> pydict list" where
  "system_part v =
     (case v of
        PDict block \<Rightarrow> if dget block ''type'' = PStr ''text'' then [text_part block] else []
      | PStr s \<Rightarrow> [plain_text s]
      | _ \<Rightarrow> [])"

definition system_messages :: "pyval \<Rightarrow> pydict list" where
  "system_messages system =
     (if \<not> truthy system then []
      else (case system of
              PStr s \<Rightarrow> [[(''role'', PStr ''system''), (''content'', PStr s)]]
            | PList blocks \<Rightarrow>
                [[(''role'', PStr ''system''), (''content'', finalize_openai_content (concat (map system_part blocks)))]]
            | _ \<Rightarrow> []))"

definition convert_messages :: "(pyval \<Rightarrow> string) \<Rightarrow> (pyval \<Rightarrow> string) \<Rightarrow> pydict \<Rightarrow> pydict list result" where
  "convert_messages dumps py_str payload =
     rbind (py_iter (dget_or payload ''messages'' (PList []))) (\<lambda>msgs.
     rbind (rmap (convert_message dumps py_str) msgs) (\<lambda>converted.
       Inr (system_messages (dget payload ''system'') @ concat converted)))"

subsection \<open>The other parameters of a request\<close>

definition ANTHROPIC_CONVERTED_REQUEST_PARAMS :: "string list" where
  "ANTHROPIC_CONVERTED_REQUEST_PARAMS =
     [''model'', ''messages'', ''system'', ''max_tokens'', ''temperature'', ''top_p'', ''top_k'', ''stop_sequences'', ''stream'',
      ''metadata'', ''service_tier'', ''tools'', ''tool_choice'', ''reasoning_effort'']"

definition passthrough_names :: "(pyval \<Rightarrow> string) \<Rightarrow> pyval \<Rightarrow> string list" where
  "passthrough_names py_str passthrough_params =
     (let items = (case passthrough_params of PStr s \<Rightarrow> map PStr (str_split (CHR '','') s) | PList xs \<Rightarrow> xs | _ \<Rightarrow> [])
      in remdups (filter (\<lambda>s. s \<noteq> []) (map (\<lambda>v. str_strip (text_of py_str v)) items)))"

definition set_if_has :: "string \<Rightarrow> string \<Rightarrow> pydict \<Rightarrow> pydict \<Rightarrow> pydict" where
  "set_if_has source target d payload = (if dhas d source then dset target (dget d source) payload else payload)"

text \<open>The names are a set in the code: with several, the order in which new parameters are added is arbitrary there.\<close>

definition add_passthrough :: "string list \<Rightarrow> pydict \<Rightarrow> pydict \<Rightarrow> pydict" where
  "add_passthrough names anthropic_payload payload =
     (let captured = filter (\<lambda>(k, v). k \<notin> set ANTHROPIC_CONVERTED_REQUEST_PARAMS) anthropic_payload
      in if ''*'' \<in> set names then dmerge payload captured
         else fold (\<lambda>k payload. set_if_has k k captured payload) names payload)"

definition response_format_of :: "pydict \<Rightarrow> pyval option" where
  "response_format_of format_config =
     (if dget format_config ''type'' = PStr ''json_schema''
      then Some (PDict [(''type'', PStr ''json_schema''), (''json_schema'', PDict
             (set_if_has ''strict'' ''strict'' format_config (set_if_has ''description'' ''description'' format_config
               [(''name'', dget_or format_config ''name'' (PStr ''response_schema'')),
                (''schema'', dget_or format_config ''schema'' (PDict []))])))])
      else if dget format_config ''type'' = PStr ''json_object'' then Some (PDict [(''type'', PStr ''json_object'')])
      else None)"

definition add_output_config :: "pydict \<Rightarrow> pydict \<Rightarrow> pydict" where
  "add_output_config anthropic_payload payload =
     (let payload1 =
        (case dget anthropic_payload ''output_config'' of
           PDict output_config \<Rightarrow>
             (let payload0 = (if dhas anthropic_payload ''reasoning_effort'' then payload
                              else set_if_has ''effort'' ''reasoning_effort'' output_config payload)
              in case dget output_config ''format'' of
                   PDict format_config \<Rightarrow>
                     (case response_format_of format_config of
                        Some f \<Rightarrow> dset ''response_format'' f payload0 | None \<Rightarrow> payload0)
                 | _ \<Rightarrow> payload0)
         | _ \<Rightarrow> payload)
      in set_if_has ''reasoning_effort'' ''reasoning_effort'' anthropic_payload payload1)"

definition common_params :: "(string \<times> string) list" where
  "common_params =
     [(''temperature'', ''temperature''), (''top_p'', ''top_p''), (''top_k'', ''top_k''), (''stop_sequences'', ''stop''),
      (''stream'', ''stream''), (''metadata'', ''metadata''), (''service_tier'', ''service_tier'')]"

definition convert_tool :: "pyval \<Rightarrow> pyval result" where
  "convert_tool tool =
     (case tool of
        PDict d \<Rightarrow> Inr (PDict (copy_cache_control tool
          [(''type'', PStr ''function''),
           (''function'', PDict [(''name'', dget_or d ''name'' (PStr [])), (''description'', dget_or d ''description'' (PStr [])),
                              (''parameters'', dget_or d ''input_schema'' (PDict []))])]))
      | _ \<Rightarrow> Inl AttributeError)"

definition add_tools :: "pydict \<Rightarrow> pydict \<Rightarrow> pydict result" where
  "add_tools anthropic_payload payload =
     (if dhas anthropic_payload ''tools''
      then rbind (py_iter (dget anthropic_payload ''tools'')) (\<lambda>tools.
           rbind (rmap convert_tool tools) (\<lambda>ts. Inr (dset ''tools'' (PList ts) payload)))
      else Inr payload)"

definition add_tool_choice :: "pydict \<Rightarrow> pydict \<Rightarrow> pydict" where
  "add_tool_choice anthropic_payload payload =
     (case dget anthropic_payload ''tool_choice'' of
        PDict tool_choice \<Rightarrow>
          (let t = dget_or tool_choice ''type'' (PStr ''auto'')
           in if t = PStr ''auto'' then dset ''tool_choice'' (PStr ''auto'') payload
              else if t = PStr ''any'' then dset ''tool_choice'' (PStr ''required'') payload
              else if t = PStr ''tool''
              then dset ''tool_choice'' (PDict [(''type'', PStr ''function''),
                     (''function'', PDict [(''name'', dget_or tool_choice ''name'' (PStr []))])]) payload
              else payload)
      | _ \<Rightarrow> payload)"

definition convert_anthropic_to_openai_payload ::
    "(pyval \<Rightarrow> string) \<Rightarrow> (pyval \<Rightarrow> string) \<Rightarrow> pydict \<Rightarrow> pyval \<Rightarrow> pydict result"
where
  "convert_anthropic_to_openai_payload dumps py_str anthropic_payload passthrough_params =
     rbind (convert_messages dumps py_str anthropic_payload) (\<lambda>messages.
       let payload = set_if_has ''max_tokens'' ''max_tokens'' anthropic_payload
             [(''model'', dget_or anthropic_payload ''model'' (PStr [])), (''messages'', PList (map PDict messages))];
           payload = add_passthrough (passthrough_names py_str passthrough_params) anthropic_payload payload;
           payload = add_output_config anthropic_payload payload;
           payload = fold (\<lambda>(source, target). set_if_has source target anthropic_payload) common_params payload
       in rbind (add_tools anthropic_payload payload) (\<lambda>payload.
            Inr (add_tool_choice anthropic_payload payload)))"

subsection \<open>Responses\<close>

definition thinking_block_of :: "pyval \<Rightarrow> pyval list" where
  "thinking_block_of block =
     (case block of
        PDict d \<Rightarrow>
          if dget d ''type'' = PStr ''redacted_thinking''
          then [PDict (filter (\<lambda>(k, v). k = ''type'' \<or> k = ''data'') d)]
          else (let thinking = py_or (dget d ''thinking'') (py_or (dget d ''content'') (dget d ''text''))
                in if \<not> truthy thinking then []
                   else [PDict ([(''type'', PStr ''thinking''), (''thinking'', thinking)] @
                          (if truthy (dget d ''signature'') then [(''signature'', dget d ''signature'')] else []))])
      | _ \<Rightarrow> [])"

definition thinking_content :: "pydict \<Rightarrow> pyval list result" where
  "thinking_content message =
     (let thinking = dget message ''thinking'';
          given = py_or (dget message ''thinking_blocks'') (PList []);
          blocks = (case thinking of
                      PDict d \<Rightarrow> if truthy given then given else py_or (dget d ''blocks'') (PList [])
                    | _ \<Rightarrow> given)
      in rbind (py_iter blocks) (\<lambda>blocks.
           let content = concat (map thinking_block_of blocks);
               reasoning = py_or (dget message ''reasoning_content'') (dget message ''reasoning'');
               reasoning = (if \<not> truthy reasoning \<and> is_str thinking then thinking else reasoning)
           in Inr (if truthy reasoning \<and> content = []
                   then [PDict [(''type'', PStr ''thinking''), (''thinking'', reasoning)]] else content)))"

definition tool_input :: "(string \<Rightarrow> pyval option) \<Rightarrow> pyval \<Rightarrow> pyval" where
  "tool_input loads arguments =
     (case arguments of PStr s \<Rightarrow> (case loads s of Some v \<Rightarrow> v | None \<Rightarrow> PDict []) | _ \<Rightarrow> PDict [])"

fun tool_use_blocks ::
    "(string \<Rightarrow> pyval option) \<Rightarrow> (nat \<Rightarrow> string) \<Rightarrow> nat \<Rightarrow> pyval list \<Rightarrow> pyval list result"
where
  "tool_use_blocks loads fresh n [] = Inr []"
| "tool_use_blocks loads fresh n (tool_call # rest) =
     rbind (py_get tool_call ''function'' (PDict [])) (\<lambda>function.
     rbind (py_get function ''arguments'' (PStr ''{}'')) (\<lambda>arguments.
     rbind (py_get tool_call ''id'' (PStr (''toolu_'' @ fresh n))) (\<lambda>i.
     rbind (py_get function ''name'' (PStr [])) (\<lambda>name.
     rbind (tool_use_blocks loads fresh (Suc n) rest) (\<lambda>blocks.
       Inr (PDict [(''type'', PStr ''tool_use''), (''id'', i), (''name'', name),
                   (''input'', tool_input loads arguments)] # blocks))))))"

definition usage_of :: "pydict \<Rightarrow> pyval \<Rightarrow> pyval result" where
  "usage_of openai_usage tokens =
     (let cache_creation = dget openai_usage ''cache_creation_input_tokens''; cache_read = usage_cache_read openai_usage
      in rbind (usage_input_of openai_usage cache_creation cache_read) (\<lambda>usage_input.
           Inr (PDict (filter (\<lambda>(k, v). v \<noteq> PNone)
             [(''input_tokens'', unless_none usage_input (unless_none tokens (PInt 0))),
              (''output_tokens'', unless_none (usage_output_of openai_usage) (PInt 0)),
              (''cache_creation_input_tokens'', cache_creation), (''cache_read_input_tokens'', cache_read),
              (''output_tokens_details'', if_dict (dget openai_usage ''output_tokens_details'') PNone),
              (''server_tool_use'', if_dict (dget openai_usage ''server_tool_use'') PNone),
              (''service_tier'', dget openai_usage ''service_tier'')]))))"

definition response_stop_reason :: "pyval \<Rightarrow> string result" where
  "response_stop_reason finish_reason = stop_reason_of finish_reason"

definition convert_openai_to_anthropic_response ::
    "(string \<Rightarrow> pyval option) \<Rightarrow> (nat \<Rightarrow> string) \<Rightarrow> string \<Rightarrow> pydict \<Rightarrow> string \<Rightarrow> pyval \<Rightarrow> pydict result"
where
  "convert_openai_to_anthropic_response loads fresh message_id openai_response model tokens =
     rbind (if truthy (dget openai_response ''choices'') then py_first (dget openai_response ''choices'') else Inr (PDict [])) (\<lambda>choice.
     rbind (py_get choice ''message'' (PDict [])) (\<lambda>m.
     rbind (py_get choice ''finish_reason'' (PStr ''stop'')) (\<lambda>finish_reason.
     rbind (response_stop_reason finish_reason) (\<lambda>stop_reason.
       case m of
         PDict message \<Rightarrow>
           rbind (thinking_content message) (\<lambda>thinking.
           rbind (py_iter (py_or (dget message ''tool_calls'') (PList []))) (\<lambda>tool_calls.
           rbind (tool_use_blocks loads fresh 0 tool_calls) (\<lambda>tools.
             case py_or (dget openai_response ''usage'') (PDict []) of
               PDict openai_usage \<Rightarrow>
                 rbind (usage_of openai_usage tokens) (\<lambda>usage.
                   Inr [(''id'', dget_or openai_response ''id'' (PStr (''msg_'' @ message_id))), (''type'', PStr ''message''),
                        (''role'', PStr ''assistant''),
                        (''content'', PList (thinking @
                           (if truthy (dget message ''content'')
                            then [PDict [(''type'', PStr ''text''), (''text'', dget message ''content'')]] else []) @ tools)),
                        (''model'', if model \<noteq> [] then PStr model else dget_or openai_response ''model'' (PStr [])),
                        (''stop_reason'', PStr stop_reason), (''stop_sequence'', PNone), (''usage'', usage)])
             | _ \<Rightarrow> Inl AttributeError)))
       | _ \<Rightarrow> Inl AttributeError))))"

subsection \<open>Tool calls and results keep their order\<close>

text \<open>The tool calls and results of an OpenAI message and of an Anthropic one, whose results are sent first.\<close>

datatype tool_event = Called pyval | Answered pyval

definition entry_id :: "pyval \<Rightarrow> string \<Rightarrow> pyval" where
  "entry_id v k = (case v of PDict d \<Rightarrow> dget_or d k (PStr []) | _ \<Rightarrow> PNone)"

definition openai_events :: "pydict \<Rightarrow> tool_event list" where
  "openai_events m =
     (if dhas m ''tool_call_id'' then [Answered (dget m ''tool_call_id'')] else []) @
     (case dget m ''tool_calls'' of PList calls \<Rightarrow> map (\<lambda>c. Called (entry_id c ''id'')) calls | _ \<Rightarrow> [])"

definition of_type :: "string \<Rightarrow> pyval \<Rightarrow> bool" where
  "of_type t v = (case v of PDict d \<Rightarrow> dget_or d ''type'' (PStr ''text'') = PStr t | _ \<Rightarrow> False)"

definition block_events :: "pyval list \<Rightarrow> tool_event list" where
  "block_events blocks =
     map (\<lambda>b. Answered (entry_id b ''tool_use_id'')) (filter (of_type ''tool_result'') blocks) @
     map (\<lambda>b. Called (entry_id b ''id'')) (filter (of_type ''tool_use'') blocks)"

definition anthropic_events :: "pyval \<Rightarrow> tool_event list" where
  "anthropic_events msg =
     (case msg of PDict m \<Rightarrow> (case dget m ''content'' of PList blocks \<Rightarrow> block_events blocks | _ \<Rightarrow> []) | _ \<Rightarrow> [])"

lemma tool_message_fields:
  "result_message py_str d = Inr m \<Longrightarrow> openai_events m = [Answered (dget_or d ''tool_use_id'' (PStr []))]"
  by (auto simp: result_message_def rbind_Inr_iff openai_events_def dhas_def)

lemma convert_block_events:
  assumes "convert_block dumps py_str v = Inr (content, calls, messages)"
  shows "concat (map openai_events messages) = (if of_type ''tool_result'' v then [Answered (entry_id v ''tool_use_id'')] else [])"
    "map (\<lambda>c. entry_id (PDict c) ''id'') calls = (if of_type ''tool_use'' v then [entry_id v ''id''] else [])"
  using assms unfolding convert_block_def
  by (auto simp: of_type_def entry_id_def use_call_def Let_def rbind_Inr_iff tool_message_fields
      split: pyval.splits if_splits)

lemma convert_blocks_events:
  "convert_blocks dumps py_str blocks = Inr (content, calls, messages) \<Longrightarrow>
   concat (map openai_events messages) = map (\<lambda>b. Answered (entry_id b ''tool_use_id'')) (filter (of_type ''tool_result'') blocks) \<and>
   map (\<lambda>c. entry_id (PDict c) ''id'') calls = map (\<lambda>b. entry_id b ''id'') (filter (of_type ''tool_use'') blocks)"
proof (induction blocks arbitrary: content calls messages)
  case (Cons block rest)
  then obtain a b c a' b' c' where h: "convert_block dumps py_str block = Inr (a, b, c)"
    "convert_blocks dumps py_str rest = Inr (a', b', c')" "calls = b @ b'" "messages = c @ c'"
    by (auto simp: rbind_Inr_iff)
  from Cons.IH [OF h(2)] convert_block_events [OF h(1)] show ?case by (simp add: h(3,4))
qed simp

lemma convert_message_events:
  assumes "convert_message dumps py_str msg = Inr ms"
  shows "concat (map openai_events ms) = anthropic_events msg"
proof -
  from assms obtain m where m: "msg = PDict m" by (cases msg) (auto simp: convert_message_def)
  have get: "dget_or m ''content'' PNone = dget m ''content''" by (simp add: dget_def dget_or_def)
  show ?thesis
  proof (cases "dget m ''content''")
    case (PList blocks)
    with assms m get obtain content calls messages where
      h: "convert_blocks dumps py_str blocks = Inr (content, calls, messages)"
      "ms = messages @ (if calls \<noteq> []
         then [[(''role'', dget_or m ''role'' (PStr ''user'')), (''content'', finalize_openai_content content),
                (''tool_calls'', PList (map PDict calls))]]
         else if content \<noteq> [] then [[(''role'', dget_or m ''role'' (PStr ''user'')), (''content'', finalize_openai_content content)]]
         else [])"
      by (auto simp: convert_message_def rbind_Inr_iff)
    have "map (\<lambda>c. Called (entry_id (PDict c) ''id'')) calls = map Called (map (\<lambda>c. entry_id (PDict c) ''id'') calls)" by simp
    also have "\<dots> = map (\<lambda>b. Called (entry_id b ''id'')) (filter (of_type ''tool_use'') blocks)"
      using convert_blocks_events [OF h(1)] by simp
    finally show ?thesis using convert_blocks_events [OF h(1)] h(2) m PList
      by (auto simp: anthropic_events_def block_events_def openai_events_def [of "(_, _) # _"] dhas_def o_def)
  qed (use assms m get in \<open>auto simp: convert_message_def rbind_Inr_iff anthropic_events_def openai_events_def dhas_def\<close>)
qed

lemma rmap_concat: "rmap f xs = Inr yss \<Longrightarrow> (\<And>x ys. f x = Inr ys \<Longrightarrow> concat (map g ys) = h x) \<Longrightarrow> concat (map g (concat yss)) = concat (map h xs)"
  by (induction xs arbitrary: yss) (auto simp: rbind_Inr_iff)

lemma system_no_events: "concat (map openai_events (system_messages system)) = []"
  by (auto simp: system_messages_def openai_events_def dhas_def split: pyval.split)

text \<open>None of the steps after the messages touches them.\<close>

lemma dmerge_other: "k \<notin> fst ` set b \<Longrightarrow> dget (dmerge a b) k = dget a k"
  by (induction b arbitrary: a) auto

lemma set_if_has_other: "k \<noteq> target \<Longrightarrow> dget (set_if_has source target d payload) k = dget payload k"
  by (simp add: set_if_has_def)

lemma add_passthrough_other:
  assumes "k \<in> set ANTHROPIC_CONVERTED_REQUEST_PARAMS"
  shows "dget (add_passthrough names anthropic_payload payload) k = dget payload k"
proof -
  let ?c = "filter (\<lambda>(k, v). k \<notin> set ANTHROPIC_CONVERTED_REQUEST_PARAMS) anthropic_payload"
  have k: "k \<notin> fst ` set ?c" using assms by auto
  have "dget (set_if_has n n ?c p) k = dget p k" for n p
  proof (cases "n = k")
    case True
    with k show ?thesis by (simp add: set_if_has_def dhas_def map_of_eq_None_iff)
  qed (simp add: set_if_has_other)
  then have "dget (fold (\<lambda>n p. set_if_has n n ?c p) names p) k = dget p k" for p
    by (induction names arbitrary: p) simp_all
  with k show ?thesis by (simp add: add_passthrough_def Let_def dmerge_other)
qed

lemma add_output_config_other:
  "k \<notin> {''reasoning_effort'', ''response_format''} \<Longrightarrow> dget (add_output_config anthropic_payload payload) k = dget payload k"
  by (auto simp: add_output_config_def Let_def set_if_has_other split: pyval.split option.split)

lemma common_params_other:
  "k \<notin> snd ` set ps \<Longrightarrow> dget (fold (\<lambda>(source, target). set_if_has source target d) ps p) k = dget p k"
  by (induction ps arbitrary: p) (auto simp: set_if_has_other)

lemma converted_messages:
  assumes "convert_anthropic_to_openai_payload dumps py_str payload passthrough = Inr converted"
  obtains ms where "convert_messages dumps py_str payload = Inr ms" "dget converted ''messages'' = PList (map PDict ms)"
proof -
  from assms obtain ms p where ms: "convert_messages dumps py_str payload = Inr ms"
    and p: "add_tools payload (fold (\<lambda>(source, target). set_if_has source target payload) common_params
        (add_output_config payload (add_passthrough (passthrough_names py_str passthrough) payload
          (set_if_has ''max_tokens'' ''max_tokens'' payload
             [(''model'', dget_or payload ''model'' (PStr [])), (''messages'', PList (map PDict ms))])))) = Inr p"
      "converted = add_tool_choice payload p"
    by (auto simp: convert_anthropic_to_openai_payload_def rbind_Inr_iff Let_def)
  have "dget converted ''messages'' = dget p ''messages''"
    using p(2) by (auto simp: add_tool_choice_def Let_def split: pyval.split)
  also have "\<dots> = PList (map PDict ms)"
    using p(1) by (auto simp: add_tools_def rbind_Inr_iff common_params_other common_params_def add_output_config_other
        add_passthrough_other ANTHROPIC_CONVERTED_REQUEST_PARAMS_def set_if_has_other split: if_splits)
  finally show thesis using that ms by blast
qed

text \<open>
  C20. When an Anthropic request is converted, every \<open>tool_use\<close> block becomes one tool call and every \<open>tool_result\<close> block
  one tool message, under the same ids and in the order of the request (of one message, the results first), so
  nothing the model called or was answered is lost, repeated or attributed to another call.
\<close>

theorem converted_request_keeps_tool_order:
  assumes "convert_anthropic_to_openai_payload dumps py_str payload passthrough = Inr converted"
    and "dget payload ''messages'' = PList msgs"
  shows "\<exists>ms. dget converted ''messages'' = PList (map PDict ms) \<and>
    concat (map openai_events ms) = concat (map anthropic_events msgs)"
proof -
  from assms(1) obtain ms where ms: "convert_messages dumps py_str payload = Inr ms"
    "dget converted ''messages'' = PList (map PDict ms)" by (rule converted_messages)
  have "dget_or payload ''messages'' (PList []) = PList msgs" using assms(2) by (auto simp: dget_def dget_or_def split: option.splits)
  with ms(1) obtain mss where "rmap (convert_message dumps py_str) msgs = Inr mss"
    "ms = system_messages (dget payload ''system'') @ concat mss"
    by (auto simp: convert_messages_def rbind_Inr_iff)
  with rmap_concat [OF this(1), of openai_events anthropic_events] convert_message_events ms(2) show ?thesis
    by (fastforce simp: system_no_events)
qed

definition sample_messages_request :: pydict where
  "sample_messages_request =
     [(''model'', PStr ''claude''), (''system'', PStr ''be brief''),
      (''messages'', PList
        [PDict [(''role'', PStr ''user''), (''content'', PStr ''sum?'')],
         PDict [(''role'', PStr ''assistant''), (''content'', PList
           [PDict [(''type'', PStr ''text''), (''text'', PStr ''adding'')],
            PDict [(''type'', PStr ''tool_use''), (''id'', PStr ''c1''), (''name'', PStr ''add''), (''input'', PDict [])]])],
         PDict [(''role'', PStr ''user''), (''content'', PList
           [PDict [(''type'', PStr ''tool_result''), (''tool_use_id'', PStr ''c1''), (''content'', PStr ''3'')]])]]),
      (''tools'', PList [PDict [(''name'', PStr ''add'')]]), (''tool_choice'', PDict [(''type'', PStr ''any'')])]"

lemma sample_request_converted:
  "convert_anthropic_to_openai_payload (\<lambda>v. ''{}'') (\<lambda>v. []) sample_messages_request PNone = Inr
     [(''model'', PStr ''claude''),
      (''messages'', PList
        [PDict [(''role'', PStr ''system''), (''content'', PStr ''be brief'')],
         PDict [(''role'', PStr ''user''), (''content'', PStr ''sum?'')],
         PDict [(''role'', PStr ''assistant''), (''content'', PStr ''adding''), (''tool_calls'', PList
           [PDict [(''id'', PStr ''c1''), (''type'', PStr ''function''),
                   (''function'', PDict [(''name'', PStr ''add''), (''arguments'', PStr ''{}'')])]])],
         PDict [(''role'', PStr ''tool''), (''tool_call_id'', PStr ''c1''), (''content'', PStr ''3'')]]),
      (''tools'', PList [PDict [(''type'', PStr ''function''),
         (''function'', PDict [(''name'', PStr ''add''), (''description'', PStr []), (''parameters'', PDict [])])]]),
      (''tool_choice'', PStr ''required'')]"
  by code_simp

lemma converted_request_keeps_tool_order_witness:
  "\<exists>msgs converted ms. dget sample_messages_request ''messages'' = PList msgs \<and>
     convert_anthropic_to_openai_payload (\<lambda>v. ''{}'') (\<lambda>v. []) sample_messages_request PNone = Inr converted \<and>
     dget converted ''messages'' = PList (map PDict ms) \<and>
     concat (map openai_events ms) = concat (map anthropic_events msgs) \<and>
     concat (map anthropic_events msgs) = [Called (PStr ''c1''), Answered (PStr ''c1'')]"
proof -
  obtain msgs where msgs: "dget sample_messages_request ''messages'' = PList msgs"
    "concat (map anthropic_events msgs) = [Called (PStr ''c1''), Answered (PStr ''c1'')]"
    by (simp add: sample_messages_request_def anthropic_events_def block_events_def of_type_def entry_id_def)
  from converted_request_keeps_tool_order [OF sample_request_converted msgs(1)] msgs sample_request_converted
  show ?thesis by blast
qed

subsection \<open>An answer sent back as history\<close>

definition openai_call :: "pyval \<times> pyval \<times> string \<Rightarrow> pyval" where
  "openai_call = (\<lambda>(i, name, arguments). PDict [(''id'', i), (''type'', PStr ''function''),
     (''function'', PDict [(''name'', name), (''arguments'', PStr arguments)])])"

definition use_block :: "(string \<Rightarrow> pyval option) \<Rightarrow> pyval \<times> pyval \<times> string \<Rightarrow> pyval" where
  "use_block loads = (\<lambda>(i, name, arguments).
     PDict [(''type'', PStr ''tool_use''), (''id'', i), (''name'', name), (''input'', tool_input loads (PStr arguments))])"

lemma tool_use_blocks_calls:
  "tool_use_blocks loads fresh n (map openai_call calls) = Inr (map (use_block loads) calls)"
  by (induction calls arbitrary: n) (auto simp: openai_call_def use_block_def)

lemma convert_use_blocks:
  assumes "\<forall>(i, name, arguments) \<in> set calls. \<exists>d. loads arguments = Some (PDict d) \<and> dumps (PDict d) = arguments"
  shows "\<exists>tool_calls. convert_blocks dumps py_str (map (use_block loads) calls) = Inr ([], tool_calls, []) \<and>
    map PDict tool_calls = map openai_call calls"
  using assms
  by (induction calls) (fastforce simp: use_block_def convert_block_def use_call_def tool_input_def openai_call_def)+

lemma finalize_text: "finalize_openai_content [text_part [(''type'', PStr ''text''), (''text'', v)]] = v"
  by (simp add: finalize_openai_content_def text_part_def copy_cache_control_def has_cache_control_def has_cache_def dhas_def)

text \<open>
  An answer converted to Anthropic form and sent back in the next request of the conversation becomes the
  same assistant message again: its text and its tool calls with their ids, names and arguments, provided the
  arguments are JSON objects written the way the encoder writes them.
\<close>

lemma assistant_turn_roundtrip:
  assumes "dget response ''choices'' = PList (PDict [(''message'', PDict [(''role'', PStr ''assistant''),
        (''content'', PStr s), (''tool_calls'', PList (map openai_call calls))])] # others)"
    and "s \<noteq> []" "calls \<noteq> []"
    and "\<forall>(i, name, arguments) \<in> set calls. \<exists>d. loads arguments = Some (PDict d) \<and> dumps (PDict d) = arguments"
    and "convert_openai_to_anthropic_response loads fresh message_id response model tokens = Inr answer"
  shows "convert_message dumps py_str (PDict [(''role'', dget answer ''role''), (''content'', dget answer ''content'')]) =
    Inr [[(''role'', PStr ''assistant''), (''content'', PStr s), (''tool_calls'', PList (map openai_call calls))]]"
proof -
  have choice: "py_first (dget response ''choices'') = Inr (PDict [(''message'', PDict [(''role'', PStr ''assistant''),
        (''content'', PStr s), (''tool_calls'', PList (map openai_call calls))])])" "truthy (dget response ''choices'')"
    using assms(1) by simp_all
  obtain u where u: "py_or (dget response ''usage'') (PDict []) = PDict u"
    using assms(5) choice assms(2,3) by (cases "py_or (dget response ''usage'') (PDict [])")
      (auto simp: convert_openai_to_anthropic_response_def rbind_Inr_iff thinking_content_def Let_def)
  from assms(2,3,5) choice have "dget answer ''role'' = PStr ''assistant''"
    "dget answer ''content'' = PList (PDict [(''type'', PStr ''text''), (''text'', PStr s)] # map (use_block loads) calls)"
    by (auto simp: convert_openai_to_anthropic_response_def rbind_Inr_iff thinking_content_def tool_use_blocks_calls
        Let_def u py_or_def [of _ "PList []"] py_or_def [of PNone])
  moreover obtain tool_calls where "convert_blocks dumps py_str (map (use_block loads) calls) = Inr ([], tool_calls, [])"
    "map PDict tool_calls = map openai_call calls" using convert_use_blocks [OF assms(4)] by blast
  moreover from this assms(3) have "tool_calls \<noteq> []" by auto
  ultimately show ?thesis
    by (simp add: convert_message_def convert_block_def finalize_text)
qed

definition sample_decode :: "string \<Rightarrow> pyval option" where
  "sample_decode s = (if s = ''{}'' then Some (PDict []) else None)"

definition sample_response :: pydict where
  "sample_response =
     [(''choices'', PList [PDict [(''message'', PDict [(''role'', PStr ''assistant''), (''content'', PStr ''adding''),
         (''tool_calls'', PList (map openai_call [(PStr ''c1'', PStr ''add'', ''{}'')]))])]])]"

lemma sample_answer:
  "convert_openai_to_anthropic_response sample_decode (\<lambda>n. []) [] sample_response ''m'' PNone = Inr
     [(''id'', PStr ''msg_''), (''type'', PStr ''message''), (''role'', PStr ''assistant''),
      (''content'', PList [PDict [(''type'', PStr ''text''), (''text'', PStr ''adding'')],
         PDict [(''type'', PStr ''tool_use''), (''id'', PStr ''c1''), (''name'', PStr ''add''), (''input'', PDict [])]]),
      (''model'', PStr ''m''), (''stop_reason'', PStr ''end_turn''), (''stop_sequence'', PNone),
      (''usage'', PDict [(''input_tokens'', PInt 0), (''output_tokens'', PInt 0)])]"
  by code_simp

lemma assistant_turn_roundtrip_witness:
  "\<exists>answer. convert_openai_to_anthropic_response sample_decode (\<lambda>n. []) [] sample_response ''m'' PNone = Inr answer \<and>
    convert_message (\<lambda>v. ''{}'') (\<lambda>v. []) (PDict [(''role'', dget answer ''role''), (''content'', dget answer ''content'')]) =
      Inr [[(''role'', PStr ''assistant''), (''content'', PStr ''adding''),
            (''tool_calls'', PList (map openai_call [(PStr ''c1'', PStr ''add'', ''{}'')]))]]"
proof -
  let ?calls = "[(PStr ''c1'', PStr ''add'', ''{}'')]"
  have choices: "dget sample_response ''choices'' = PList [PDict [(''message'', PDict [(''role'', PStr ''assistant''),
        (''content'', PStr ''adding''), (''tool_calls'', PList (map openai_call ?calls))])]]"
    by (simp add: sample_response_def)
  have args: "\<forall>(i, name, arguments) \<in> set ?calls. \<exists>d. sample_decode arguments = Some (PDict d) \<and> ''{}'' = arguments"
    by (simp add: sample_decode_def)
  obtain answer where answer:
    "convert_openai_to_anthropic_response sample_decode (\<lambda>n. []) [] sample_response ''m'' PNone = Inr answer"
    unfolding sample_answer by blast
  from assistant_turn_roundtrip [OF choices _ _ args answer, of "\<lambda>v. []"] answer show ?thesis by fastforce
qed

end
