(* ===== verification/Responses_Events.thy ===== *)
theory Responses_Events
  imports Messages Chat_History
begin

section \<open>Streams of the Responses API\<close>

text \<open>
  Models \<open>handle_responses_streaming_event\<close> of \<open>utils/middleware.py\<close> with \<open>deep_merge\<close>,
  \<open>get_response_completion_event_data\<close> and \<open>merge_streamed_reasoning_details\<close>: each event of a stream of the
  Responses API changes the list of output items built so far, and may carry metadata to send on. The text form
  of a value that is not a text is an argument. The code copies the lists and items it changes, except that
  \<open>response.completed\<close> marks the reasoning items in place; here the new items are returned either way.
\<close>

subsection \<open>Merging values\<close>

text \<open>Dictionaries are merged key by key, texts are joined, anything else is replaced.\<close>

function deep_merge :: "pyval \<Rightarrow> pyval \<Rightarrow> pyval" and merge_items :: "pydict \<Rightarrow> pydict \<Rightarrow> pydict" where
  "deep_merge target source =
     (case (target, source) of
        (PDict t, PDict s) \<Rightarrow> PDict (merge_items t s)
      | (PStr t, PStr s) \<Rightarrow> PStr (t @ s)
      | _ \<Rightarrow> source)"
| "merge_items t [] = t"
| "merge_items t ((k, v) # s) =
     merge_items (dset k (case map_of t k of None \<Rightarrow> v | Some w \<Rightarrow> deep_merge w v) t) s"
  by pat_completeness auto
termination
  by (relation "measure (\<lambda>x. case x of Inl (_, v) \<Rightarrow> size v | Inr (_, s) \<Rightarrow> size_list (size_prod (\<lambda>_. 0) size) s)") auto

declare deep_merge.simps [simp del]

lemma deep_merge_str [simp]: "deep_merge (PStr s) (PStr t) = PStr (s @ t)"
  by (simp add: deep_merge.simps)

definition RESPONSE_COMPLETION_RESPONSE_FIELDS :: "string list" where
  "RESPONSE_COMPLETION_RESPONSE_FIELDS = [''error'', ''id'', ''output'', ''usage'']"

definition get_response_completion_event_data :: "pydict \<Rightarrow> pydict" where
  "get_response_completion_event_data event =
     (case dget event ''response'' of
        PDict response \<Rightarrow>
          dset ''response'' (PDict (map (\<lambda>key. (key, dget response key))
            (filter (dhas response) RESPONSE_COMPLETION_RESPONSE_FIELDS))) event
      | _ \<Rightarrow> event)"

text \<open>Fragments of reasoning details: one with the index of a detail already there continues it.\<close>

fun merge_detail :: "pydict \<Rightarrow> pydict \<Rightarrow> pydict" where
  "merge_detail existing [] = existing"
| "merge_detail existing ((key, value) # item) =
     merge_detail
       (dset key (case (dget existing key, value) of
                    (PStr old, PStr new) \<Rightarrow> if key = ''text'' \<or> key = ''summary'' then PStr (old @ new) else value
                  | _ \<Rightarrow> value) existing) item"

definition is_index :: "pyval \<Rightarrow> bool" where
  "is_index v = (case v of PInt _ \<Rightarrow> True | PBool _ \<Rightarrow> True | _ \<Rightarrow> False)"

fun find_detail :: "nat \<Rightarrow> pyval \<Rightarrow> pydict list \<Rightarrow> nat option" where
  "find_detail n index [] = None"
| "find_detail n index (detail # rest) = (if dget detail ''index'' = index then Some n else find_detail (Suc n) index rest)"

definition merge_detail_item :: "pyval \<Rightarrow> pydict list \<Rightarrow> pydict list" where
  "merge_detail_item v target =
     (case v of
        PDict item \<Rightarrow>
          (case if is_index (dget item ''index'') then find_detail 0 (dget item ''index'') target else None of
             None \<Rightarrow> target @ [item]
           | Some i \<Rightarrow> target[i := merge_detail (target ! i) item])
      | _ \<Rightarrow> target)"

definition merge_streamed_reasoning_details :: "pydict list \<Rightarrow> pyval \<Rightarrow> pydict list" where
  "merge_streamed_reasoning_details target details =
     fold merge_detail_item (case details of PList items \<Rightarrow> items | _ \<Rightarrow> [details]) target"

subsection \<open>Positions\<close>

text \<open>
  The item an event names, \<open>None\<close> when it is out of range; a position in a list, where Python counts a negative
  one from the end; an item as a dictionary, which raises \<open>e\<close> when it is a list and an \<open>AttributeError\<close> otherwise.
\<close>

definition in_range :: "pyval \<Rightarrow> nat \<Rightarrow> nat option result" where
  "in_range v n = rbind (py_int v) (\<lambda>i. Inr (if 0 \<le> i \<and> i < int n then Some (nat i) else None))"

definition named_item :: "pydict \<Rightarrow> pyval list \<Rightarrow> nat option result" where
  "named_item data current_output =
     (if current_output = [] then Inr None
      else in_range (dget_or data ''output_index'' (PInt (int (length current_output) - 1))) (length current_output))"

definition list_position :: "int \<Rightarrow> nat \<Rightarrow> nat result" where
  "list_position i n =
     (if 0 \<le> i \<and> i < int n then Inr (nat i)
      else if i < 0 \<and> - int n \<le> i then Inr (nat (int n + i))
      else Inl IndexError)"

definition event_item :: "py_error \<Rightarrow> pyval \<Rightarrow> pydict result" where
  "event_item e v = (case v of PDict d \<Rightarrow> Inr d | PList _ \<Rightarrow> Inl e | _ \<Rightarrow> Inl AttributeError)"

text \<open>The list under a key of an item, empty when there is none.\<close>

definition item_list :: "pydict \<Rightarrow> string \<Rightarrow> pyval list result" where
  "item_list item key = (if dhas item key then py_iter (dget item key) else Inr [])"

type_synonym handled = "pyval list \<times> pyval"

definition unchanged :: "pyval list \<Rightarrow> handled result" where
  "unchanged current_output = Inr (current_output, PNone)"

definition changed :: "pyval list \<Rightarrow> nat \<Rightarrow> pydict \<Rightarrow> handled result" where
  "changed current_output i item = Inr (current_output[i := PDict item], PNone)"

definition finished :: "pyval list \<Rightarrow> nat \<Rightarrow> pydict \<Rightarrow> handled result" where
  "finished current_output i item = Inr (current_output[i := PDict item], PDict [])"

subsection \<open>Items and parts added\<close>

definition same_field :: "string \<Rightarrow> pyval \<Rightarrow> pyval \<Rightarrow> bool result" where
  "same_field k item existing =
     rbind (py_get item k PNone) (\<lambda>v.
       if truthy v then rbind (py_get existing k PNone) (\<lambda>w. Inr (w = v)) else Inr False)"

definition same_item :: "pyval \<Rightarrow> pyval \<Rightarrow> bool result" where
  "same_item item existing =
     rbind (same_field ''id'' item existing) (\<lambda>b. if b then Inr True else same_field ''call_id'' item existing)"

fun find_item :: "nat \<Rightarrow> pyval \<Rightarrow> pyval list \<Rightarrow> nat option result" where
  "find_item n item [] = Inr None"
| "find_item n item (existing # rest) =
     rbind (same_item item existing) (\<lambda>b. if b then Inr (Some n) else find_item (Suc n) item rest)"

definition output_item_added :: "pydict \<Rightarrow> pyval list \<Rightarrow> handled result" where
  "output_item_added data current_output =
     (let item = dget_or data ''item'' (PDict []); n = length current_output in
      if \<not> truthy item then unchanged current_output
      else rbind (find_item 0 item current_output) (\<lambda>existing_index.
        case existing_index of
          Some i \<Rightarrow> Inr (current_output[i := item], PNone)
        | None \<Rightarrow>
            rbind (in_range (dget_or data ''output_index'' (PInt (int n))) n) (\<lambda>position.
              Inr (case position of
                     Some i \<Rightarrow> take i current_output @ item # drop i current_output
                   | None \<Rightarrow> current_output @ [item], PNone))))"

definition part_added :: "string \<Rightarrow> pydict \<Rightarrow> pyval list \<Rightarrow> handled result" where
  "part_added key data current_output =
     rbind (named_item data current_output) (\<lambda>position.
       case position of
         None \<Rightarrow> unchanged current_output
       | Some i \<Rightarrow>
           rbind (event_item TypeError (current_output ! i)) (\<lambda>item.
           rbind (item_list item key) (\<lambda>parts.
             changed current_output i (dset key
               (PList (if key = ''content'' \<and> dget item ''type'' = PStr ''reasoning'' then parts
                       else parts @ [dget_or data ''part'' (PDict [])])) item))))"

subsection \<open>Deltas\<close>

definition start_value :: "pyval \<Rightarrow> pyval \<Rightarrow> pyval" where
  "start_value v delta = (if v = PNone then (if is_dict delta then PDict [] else PStr []) else v)"

text \<open>A delta for one part of the list under \<open>list_key\<close>, which is filled up with empty parts to reach it.\<close>

definition merge_part ::
    "string \<Rightarrow> string \<Rightarrow> (pydict \<Rightarrow> pyval) \<Rightarrow> pydict \<Rightarrow> pyval \<Rightarrow> pyval \<Rightarrow> pydict \<Rightarrow> pydict result"
where
  "merge_part list_key key old_value empty_part index delta item =
     rbind (item_list item list_key) (\<lambda>parts.
     rbind (py_int index) (\<lambda>i.
       let parts = parts @ replicate (nat (i + 1 - int (length parts))) (PDict empty_part) in
       rbind (list_position i (length parts)) (\<lambda>p.
       rbind (event_item AttributeError (parts ! p)) (\<lambda>part.
         Inr (dset list_key (PList (parts[p := PDict (dset key (deep_merge (old_value part) delta) part)])) item)))))"

definition empty_text :: "string \<Rightarrow> pydict" where
  "empty_text type = [(''type'', PStr type), (''text'', PStr [])]"

definition text_types :: "string list" where
  "text_types = [''text'', ''output_text'']"

definition message_delta :: "string \<Rightarrow> pydict \<Rightarrow> pyval \<Rightarrow> pydict \<Rightarrow> pydict result" where
  "message_delta delta_type data delta item =
     (if delta_type = ''reasoning_text'' \<or> delta_type = ''reasoning_summary_text'' then Inr item
      else let key = (if delta_type \<in> set text_types then ''text'' else delta_type)
           in merge_part ''content'' key (\<lambda>part. start_value (dget part key) delta) (empty_text ''text'')
                (dget_or data ''content_index'' (PInt 0)) delta item)"

definition reasoning_delta :: "string \<Rightarrow> pydict \<Rightarrow> pyval \<Rightarrow> pydict \<Rightarrow> pydict result" where
  "reasoning_delta delta_type data delta item =
     (let old = (\<lambda>part. dget_or part ''text'' (PStr [])) in
      if delta_type = ''reasoning_summary_text''
      then merge_part ''summary'' ''text'' old (empty_text ''summary_text'') (dget_or data ''summary_index'' (PInt 0)) delta item
      else if delta_type = ''reasoning_text''
      then merge_part ''content'' ''text'' old (empty_text ''text'') (dget_or data ''content_index'' (PInt 0)) delta item
      else Inr item)"

definition other_delta :: "string \<Rightarrow> pyval \<Rightarrow> pydict \<Rightarrow> pydict result" where
  "other_delta delta_type delta item =
     (let key = (if delta_type \<in> set text_types then ''text'' else delta_type)
      in Inr (dset key (deep_merge (start_value (dget item key) delta) delta) item))"

definition arguments_delta :: "(pyval \<Rightarrow> string) \<Rightarrow> pyval \<Rightarrow> pydict \<Rightarrow> pydict result" where
  "arguments_delta py_str delta item =
     (if dget item ''type'' = PStr ''function_call''
      then (case dget_or item ''arguments'' (PStr []) of
              PStr s \<Rightarrow> Inr (dset ''arguments'' (PStr (s @ text_of py_str delta)) item)
            | _ \<Rightarrow> Inl TypeError)
      else Inr item)"

definition item_delta :: "(pyval \<Rightarrow> string) \<Rightarrow> string \<Rightarrow> pydict \<Rightarrow> pydict \<Rightarrow> pydict result" where
  "item_delta py_str delta_type data item =
     (let delta = dget_or data ''delta'' (PStr []); item_type = dget_or item ''type'' (PStr []) in
      if delta_type = ''function_call_arguments'' then arguments_delta py_str delta item
      else if item_type = PStr ''message'' then message_delta delta_type data delta item
      else if item_type = PStr ''reasoning'' then reasoning_delta delta_type data delta item
      else other_delta delta_type delta item)"

definition delta_event :: "(pyval \<Rightarrow> string) \<Rightarrow> string \<Rightarrow> pydict \<Rightarrow> pyval list \<Rightarrow> handled result" where
  "delta_event py_str delta_type data current_output =
     rbind (named_item data current_output) (\<lambda>position.
       case position of
         None \<Rightarrow> unchanged current_output
       | Some i \<Rightarrow>
           rbind (event_item AttributeError (current_output ! i)) (\<lambda>item.
           rbind (item_delta py_str delta_type data item) (\<lambda>item. changed current_output i item)))"

subsection \<open>Completed items, parts and fields\<close>

definition output_item_done :: "pydict \<Rightarrow> pyval list \<Rightarrow> handled result" where
  "output_item_done data current_output =
     (let item = dget data ''item''; n = length current_output in
      if \<not> truthy item then Inr (current_output, PDict [])
      else rbind (in_range (dget_or data ''output_index'' (PInt (int n - 1))) n) (\<lambda>position.
        Inr (case position of Some i \<Rightarrow> current_output[i := item] | None \<Rightarrow> current_output @ [item], PDict [])))"

definition part_done :: "string \<Rightarrow> string \<Rightarrow> pydict \<Rightarrow> pyval list \<Rightarrow> handled result" where
  "part_done key index_key data current_output =
     (let part = dget data ''part'' in
      if \<not> truthy part then unchanged current_output
      else rbind (named_item data current_output) (\<lambda>position.
        case position of
          None \<Rightarrow> unchanged current_output
        | Some i \<Rightarrow>
            rbind (event_item TypeError (current_output ! i)) (\<lambda>item.
              if \<not> dhas item key then unchanged current_output
              else rbind (py_iter (dget item key)) (\<lambda>parts.
                   rbind (in_range (dget_or data index_key (PInt (int (length parts) - 1))) (length parts)) (\<lambda>position.
                     case position of
                       None \<Rightarrow> unchanged current_output
                     | Some j \<Rightarrow> finished current_output i (dset key (PList (parts[j := part])) item))))))"

definition field_key :: "string \<Rightarrow> string" where
  "field_key type_name =
     (if type_name \<in> {''text'', ''output_text'', ''reasoning_text'', ''reasoning_summary_text''} then ''text''
      else if type_name = ''function_call_arguments'' then ''arguments'' else type_name)"

definition message_field_done :: "string \<Rightarrow> pydict \<Rightarrow> pyval \<Rightarrow> pydict \<Rightarrow> pydict result" where
  "message_field_done key data final_value item =
     (if \<not> dhas item ''content'' then Inr item
      else rbind (py_iter (dget item ''content'')) (\<lambda>parts.
           rbind (py_int (dget_or data ''content_index'' (PInt 0))) (\<lambda>i.
             if i \<ge> int (length parts) then Inr (dset ''content'' (PList parts) item)
             else rbind (list_position i (length parts)) (\<lambda>p.
                  rbind (event_item TypeError (parts ! p)) (\<lambda>part.
                    Inr (dset ''content'' (PList (parts[p := PDict (dset key final_value part)])) item))))))"

definition item_field_done :: "string \<Rightarrow> pydict \<Rightarrow> pydict \<Rightarrow> pydict result" where
  "item_field_done type_name data item =
     (let key = field_key type_name; final_value = dget data key; item_type = dget_or item ''type'' (PStr []) in
      if type_name = ''function_call_arguments''
      then Inr (if item_type = PStr ''function_call'' then dset ''arguments'' final_value item else item)
      else if item_type = PStr ''message'' then message_field_done key data final_value item
      else if item_type = PStr ''reasoning'' then Inr (dset ''status'' (PStr ''completed'') item)
      else Inr (dset key final_value item))"

definition field_done :: "string \<Rightarrow> pydict \<Rightarrow> pyval list \<Rightarrow> handled result" where
  "field_done type_name data current_output =
     (if type_name = ''completed'' \<or> type_name = ''failed'' then unchanged current_output
      else rbind (named_item data current_output) (\<lambda>position.
        case position of
          None \<Rightarrow> unchanged current_output
        | Some i \<Rightarrow>
            if \<not> dhas data (field_key type_name) then unchanged current_output
            else rbind (event_item AttributeError (current_output ! i)) (\<lambda>item.
                 rbind (item_field_done type_name data item) (finished current_output i))))"

fun complete_reasoning :: "pyval \<Rightarrow> pyval result" where
  "complete_reasoning (PDict d) =
     Inr (PDict (if dget d ''type'' = PStr ''reasoning'' then dset ''status'' (PStr ''completed'') d else d))"
| "complete_reasoning _ = Inl AttributeError"

definition response_completed :: "pydict \<Rightarrow> pyval list \<Rightarrow> handled result" where
  "response_completed data current_output =
     rbind (py_get (dget_or data ''response'' (PDict [])) ''output'' PNone) (\<lambda>final_output.
     rbind (if truthy final_output then py_iter final_output else Inr current_output) (\<lambda>items.
     rbind (rmap complete_reasoning items) (\<lambda>new_output.
     rbind (py_get (dget_or data ''response'' (PDict [])) ''usage'' PNone) (\<lambda>usage.
     rbind (py_get (dget_or data ''response'' (PDict [])) ''id'' PNone) (\<lambda>response_id.
       Inr (new_output, PDict [(''usage'', usage), (''done'', PBool True), (''response_id'', response_id)]))))))"

subsection \<open>One event\<close>

definition ends_with :: "string \<Rightarrow> string \<Rightarrow> bool" where
  "ends_with s p = suffix p s"

definition handle_named_event :: "(pyval \<Rightarrow> string) \<Rightarrow> string \<Rightarrow> pydict \<Rightarrow> pyval list \<Rightarrow> handled result" where
  "handle_named_event py_str event_type data current_output =
     (let parts = str_split (CHR ''.'') event_type in
      if event_type = ''response.output_item.added'' then output_item_added data current_output
      else if event_type = ''response.content_part.added'' then part_added ''content'' data current_output
      else if event_type = ''response.reasoning_summary_part.added'' then part_added ''summary'' data current_output
      else if starts_with event_type ''response.'' \<and> ends_with event_type ''.delta''
        then (if length parts \<ge> 3 then delta_event py_str (parts ! 1) data current_output else unchanged current_output)
      else if event_type = ''response.output_item.done'' then output_item_done data current_output
      else if starts_with event_type ''response.'' \<and> ends_with event_type ''.done''
        then (if length parts < 3 then unchanged current_output
              else if parts ! 1 = ''content_part'' then part_done ''content'' ''content_index'' data current_output
              else if parts ! 1 = ''reasoning_summary_part'' then part_done ''summary'' ''summary_index'' data current_output
              else field_done (parts ! 1) data current_output)
      else if event_type = ''response.completed'' then response_completed data current_output
      else if event_type = ''response.failed''
        then rbind (py_get (dget_or data ''response'' (PDict [])) ''error'' (PDict [])) (\<lambda>error.
             Inr (current_output, PDict [(''error'', error)]))
      else unchanged current_output)"

definition handle_responses_streaming_event :: "(pyval \<Rightarrow> string) \<Rightarrow> pydict \<Rightarrow> pyval list \<Rightarrow> handled result" where
  "handle_responses_streaming_event py_str data current_output =
     (case dget_or data ''type'' (PStr []) of
        PStr event_type \<Rightarrow> handle_named_event py_str event_type data current_output
      | _ \<Rightarrow> Inl AttributeError)"

subsection \<open>An event touches one item\<close>

definition touches_one :: "pyval list \<Rightarrow> pyval list \<Rightarrow> bool" where
  "touches_one out out' =
     (out' = out \<or> (\<exists>i x. i < length out \<and> out' = out[i := x]) \<or>
      (\<exists>i x. i \<le> length out \<and> out' = take i out @ x # drop i out))"

lemma touches_same [simp]: "touches_one out out"
  by (simp add: touches_one_def)

lemma touches_update: "i < length out \<Longrightarrow> touches_one out (out[i := x])"
  by (auto simp: touches_one_def)

lemma touches_insert: "i \<le> length out \<Longrightarrow> touches_one out (take i out @ x # drop i out)"
  by (auto simp: touches_one_def)

lemma touches_append [simp]: "touches_one out (out @ [x])"
  using touches_insert [of "length out" out x] by simp

lemma in_range_less: "in_range v n = Inr (Some i) \<Longrightarrow> i < n"
  by (auto simp: in_range_def rbind_Inr_iff split: if_splits)

lemma named_item_less: "named_item data out = Inr (Some i) \<Longrightarrow> i < length out"
  by (auto simp: named_item_def in_range_less split: if_splits)

lemma find_item_less: "find_item n item out = Inr (Some i) \<Longrightarrow> n \<le> i \<and> i < n + length out"
proof (induction out arbitrary: n)
  case (Cons existing rest)
  then obtain b where b: "same_item item existing = Inr b" by (auto simp: rbind_Inr_iff)
  show ?case
  proof (cases b)
    case False
    with Cons.prems b have "find_item (Suc n) item rest = Inr (Some i)" by simp
    from Cons.IH [OF this] show ?thesis by simp
  qed (use Cons.prems b in simp)
qed simp

lemmas event_defs = unchanged_def changed_def finished_def rbind_Inr_iff

lemma touches_named: "named_item data out = Inr (Some i) \<Longrightarrow> touches_one out (out[i := x])"
  by (simp add: touches_update named_item_less)

lemma touches_range: "in_range v (length out) = Inr (Some i) \<Longrightarrow> touches_one out (out[i := x])"
  by (simp add: touches_update in_range_less)

lemma touches_added: "output_item_added data out = Inr (out', md) \<Longrightarrow> touches_one out out'"
  unfolding output_item_added_def Let_def event_defs
  using find_item_less [of 0 _ out]
  by (auto simp: unchanged_def rbind_Inr_iff touches_update touches_insert dest!: in_range_less split: if_splits option.splits)

lemma touches_part_added: "part_added key data out = Inr (out', md) \<Longrightarrow> touches_one out out'"
  by (auto simp: part_added_def event_defs touches_named split: option.splits)

lemma touches_delta: "delta_event py_str t data out = Inr (out', md) \<Longrightarrow> touches_one out out'"
  by (auto simp: delta_event_def event_defs touches_named split: option.splits)

lemma touches_item_done: "output_item_done data out = Inr (out', md) \<Longrightarrow> touches_one out out'"
  by (auto simp: output_item_done_def Let_def event_defs touches_range split: option.splits if_splits)

lemma touches_part_done: "part_done key index_key data out = Inr (out', md) \<Longrightarrow> touches_one out out'"
  by (auto simp: part_done_def Let_def event_defs touches_named split: option.splits if_splits)

lemma touches_field_done: "field_done t data out = Inr (out', md) \<Longrightarrow> touches_one out out'"
  by (auto simp: field_done_def event_defs touches_named split: option.splits if_splits)


definition sample_items :: "pyval list" where
  "sample_items =
     [PDict [(''type'', PStr ''reasoning''), (''id'', PStr ''r'')],
      PDict [(''type'', PStr ''message''), (''id'', PStr ''m''),
             (''content'', PList [PDict [(''type'', PStr ''output_text''), (''text'', PStr ''he'')]])]]"

definition text_delta :: "nat \<Rightarrow> nat \<Rightarrow> string \<Rightarrow> pydict" where
  "text_delta i j d =
     [(''type'', PStr ''response.output_text.delta''), (''output_index'', PInt (int i)), (''content_index'', PInt (int j)),
      (''delta'', PStr d)]"


subsection \<open>Text arrives in pieces\<close>

definition run_events :: "(pyval \<Rightarrow> string) \<Rightarrow> pydict list \<Rightarrow> pyval list \<Rightarrow> pyval list result" where
  "run_events py_str = rfold (\<lambda>data out. rbind (handle_responses_streaming_event py_str data out) (\<lambda>(out', md). Inr out'))"

lemma text_delta_step:
  assumes "i < length out" "out ! i = PDict item" "dget item ''type'' = PStr ''message''"
    "map_of item ''content'' = Some (PList parts)" "j < length parts" "parts ! j = PDict part"
    "map_of part ''text'' = Some (PStr t)"
  shows "handle_responses_streaming_event py_str (text_delta i j d) out =
    Inr (out[i := PDict (dset ''content'' (PList (parts[j := PDict (dset ''text'' (PStr (t @ d)) part)])) item)], PNone)"
proof -
  have "dget_or item ''type'' (PStr []) = PStr ''message''" using assms(3) by (auto simp: dget_def dget_or_def split: option.splits)
  moreover have "out \<noteq> []" using assms(1) by auto
  moreover have "start_value (dget part ''text'') (PStr d) = PStr t" using assms(7) by (simp add: start_value_def dget_def)
  ultimately show ?thesis using assms
    by (simp add: handle_responses_streaming_event_def handle_named_event_def text_delta_def delta_event_def named_item_def
        in_range_def event_item_def item_delta_def message_delta_def merge_part_def item_list_def list_position_def
        dhas_def dget_def [of item] text_types_def changed_def starts_with_def ends_with_def suffix_def)
qed

text \<open>
  A text streamed in pieces is put together: after any number of \<open>response.output_text.delta\<close> events for one part
  of a message the part holds its text followed by the pieces in order, and nothing else of the output changed.
\<close>

lemma streamed_text_accumulates:
  assumes "i < length out" "out ! i = PDict item" "dget item ''type'' = PStr ''message''"
    "map_of item ''content'' = Some (PList parts)" "j < length parts" "parts ! j = PDict part"
    "map_of part ''text'' = Some (PStr t)"
  shows "run_events py_str (map (text_delta i j) ds) out =
    Inr (out[i := PDict (dset ''content'' (PList (parts[j := PDict (dset ''text'' (PStr (t @ concat ds)) part)])) item)])"
  using assms
proof (induction ds arbitrary: out item parts part t)
  case Nil
  then have "dset ''text'' (PStr t) part = part" "parts[j := PDict part] = parts" "out[i := PDict item] = out"
    "dset ''content'' (PList parts) item = item"
    by (auto simp: update_triv list_update_same_conv)
  then show ?case by (simp add: run_events_def)
next
  case (Cons d ds)
  let ?part = "dset ''text'' (PStr (t @ d)) part"
  let ?item = "dset ''content'' (PList (parts[j := PDict ?part])) item"
  let ?out = "out[i := PDict ?item]"
  have "run_events py_str (map (text_delta i j) ds) ?out =
      Inr ((?out)[i := PDict (dset ''content'' (PList ((parts[j := PDict ?part])[j := PDict (dset ''text'' (PStr ((t @ d) @ concat ds)) ?part)])) ?item)])"
    using Cons.prems by (intro Cons.IH) (simp_all add: update_conv')
  then show ?case using text_delta_step [OF Cons.prems, of py_str d]
    by (simp add: run_events_def)
qed

lemma streamed_text_accumulates_witness:
  "run_events (\<lambda>v. []) (map (text_delta 1 0) [''l'', ''lo'']) sample_items =
     Inr [sample_items ! 0,
          PDict [(''type'', PStr ''message''), (''id'', PStr ''m''),
                 (''content'', PList [PDict [(''type'', PStr ''output_text''), (''text'', PStr ''hello'')]])]]"
  using streamed_text_accumulates [of 1 sample_items _ "[PDict [(''type'', PStr ''output_text''), (''text'', PStr ''he'')]]" 0
      "[(''type'', PStr ''output_text''), (''text'', PStr ''he'')]" "''he''" "\<lambda>v. []" "[''l'', ''lo'']"]
  by (simp add: sample_items_def)

end
