(* ===== verification/Provider_Responses.thy ===== *)
theory Provider_Responses
  imports Py_Numbers Chat_History
begin

section \<open>Usage and responses of providers\<close>

text \<open>
  Models \<open>utils/response.py\<close> with the response templates of \<open>utils/misc.py\<close>: token usage reported under different
  names brought to one form and added up over the calls of a reply, and the responses of Ollama as OpenAI ones.
  Numbers are integers: costs and rates that are not have no representation, and the rates of an Ollama response
  are an argument. A missing usage is the empty dictionary.
\<close>

subsection \<open>Usage\<close>

definition normalize_usage :: "pydict \<Rightarrow> pydict result" where
  "normalize_usage usage =
     (if usage = [] then Inr []
      else
        let given = py_or (dget usage ''input_tokens'') (py_or (dget usage ''prompt_tokens'') (dget usage ''prompt_eval_count''));
            output_tokens = py_or (dget usage ''output_tokens'') (py_or (dget usage ''completion_tokens'')
              (py_or (dget usage ''eval_count'') (py_or (dget usage ''predicted_n'') (PInt 0))))
        in rbind (if given = PNone
                  then rbind (int_of (py_or (dget usage ''prompt_n'') (PInt 0))) (\<lambda>n.
                       rbind (int_of (py_or (dget usage ''cache_n'') (PInt 0))) (\<lambda>c. Inr (PInt (n + c))))
                  else Inr given) (\<lambda>input_tokens.
           rbind (if truthy (dget usage ''total_tokens'') then Inr (dget usage ''total_tokens'')
                  else py_add input_tokens output_tokens) (\<lambda>total_tokens.
           rbind (int_of input_tokens) (\<lambda>i. rbind (int_of output_tokens) (\<lambda>u. rbind (int_of total_tokens) (\<lambda>t.
             Inr (dset ''total_tokens'' (PInt t) (dset ''output_tokens'' (PInt u)
                   (dset ''input_tokens'' (PInt i) usage)))))))))"

definition USAGE_TOKEN_KEYS :: "string list" where
  "USAGE_TOKEN_KEYS = [''input_tokens'', ''output_tokens'', ''total_tokens'']"

definition USAGE_COST_KEYS :: "string list" where
  "USAGE_COST_KEYS = [''cost'', ''total_cost'', ''input_cost'', ''output_cost'', ''prompt_cost'', ''completion_cost'']"

definition USAGE_SUMMABLE_KEYS :: "string list" where
  "USAGE_SUMMABLE_KEYS = USAGE_TOKEN_KEYS @ USAGE_COST_KEYS"

definition USAGE_DETAIL_KEYS :: "string list" where
  "USAGE_DETAIL_KEYS =
     [''prompt_tokens_details'', ''completion_tokens_details'', ''input_tokens_details'', ''output_tokens_details'']"

text \<open>The sum of two values, counting what is not a number as 0.\<close>

definition count_of :: "pyval \<Rightarrow> int" where
  "count_of v = (if is_number v then number_of v else 0)"

definition usage_map :: "pyval \<Rightarrow> pydict" where
  "usage_map v = (case v of PDict d \<Rightarrow> d | _ \<Rightarrow> [])"

definition dict_size :: "pydict \<Rightarrow> nat" where
  "dict_size = size_list (size_prod (\<lambda>_. 0) size)"

lemma dict_size_nested: "dget_or d k (PInt 0) = PDict e \<Longrightarrow> dict_size e < dict_size d"
proof (induction d)
  case (Cons x d)
  then show ?case by (cases x) (auto simp: dict_size_def split: if_splits)
qed simp

lemma dict_size_empty [simp]: "dict_size [] = 0"
  by (simp add: dict_size_def)

lemma dict_size_or_empty: "dict_size (usage_map (dget_or d k (PInt 0))) \<le> dict_size d"
  by (auto simp: usage_map_def dest: dict_size_nested split: pyval.split intro: less_imp_le)

lemma dict_size_is_dict: "is_dict (dget_or d k (PInt 0)) \<Longrightarrow> dict_size (usage_map (dget_or d k (PInt 0))) < dict_size d"
  by (cases "dget_or d k (PInt 0)") (auto simp: usage_map_def dest: dict_size_nested)

function merge_numeric_usage_map :: "pydict \<Rightarrow> pydict \<Rightarrow> pydict" where
  "merge_numeric_usage_map current incoming =
     map (\<lambda>(key, value).
        let current_value = dget_or current key (PInt 0); incoming_value = dget_or incoming key (PInt 0) in
        (key,
         if is_dict current_value \<or> is_dict incoming_value
         then PDict (merge_numeric_usage_map (usage_map current_value) (usage_map incoming_value))
         else if is_number current_value \<or> is_number incoming_value
         then PInt (count_of current_value + count_of incoming_value)
         else value)) (dmerge current incoming)"
  by pat_completeness auto
termination
proof (relation "measure (\<lambda>(a, b). dict_size a + dict_size b)")
  fix current incoming :: pydict and x key val cv iv
  assume "cv = dget_or current key (PInt 0)" "iv = dget_or incoming key (PInt 0)" "is_dict cv \<or> is_dict iv"
  then show "((usage_map cv, usage_map iv), (current, incoming)) \<in> measure (\<lambda>(a, b). dict_size a + dict_size b)"
    using dict_size_or_empty [of current key] dict_size_or_empty [of incoming key]
      dict_size_is_dict [of current key] dict_size_is_dict [of incoming key] by auto
qed simp

declare merge_numeric_usage_map.simps [simp del]

definition add_summable :: "pydict \<Rightarrow> pydict \<Rightarrow> string \<Rightarrow> pydict \<Rightarrow> pydict" where
  "add_summable current_usage incoming_usage key result =
     (let current_value = dget_or current_usage key (PInt 0); incoming_value = dget_or incoming_usage key (PInt 0) in
      if (dhas current_usage key \<or> dhas incoming_usage key) \<and> (is_number current_value \<or> is_number incoming_value)
      then dset key (PInt (count_of current_value + count_of incoming_value)) result
      else result)"

definition add_details :: "pydict \<Rightarrow> pydict \<Rightarrow> string \<Rightarrow> pydict \<Rightarrow> pydict" where
  "add_details current_usage incoming_usage key result =
     (if is_dict (dget current_usage key) \<or> is_dict (dget incoming_usage key)
      then dset key (PDict (merge_numeric_usage_map (usage_map (dget current_usage key))
             (usage_map (dget incoming_usage key)))) result
      else result)"

definition merge_normalized :: "pydict \<Rightarrow> pydict \<Rightarrow> pydict" where
  "merge_normalized current_usage incoming_usage =
     (if incoming_usage = [] then current_usage
      else if current_usage = [] then incoming_usage
      else
        let result = fold (add_summable current_usage incoming_usage) USAGE_SUMMABLE_KEYS (dmerge current_usage incoming_usage);
            result = fold (add_details current_usage incoming_usage) USAGE_DETAIL_KEYS result;
            prompt_tokens = py_or (dget incoming_usage ''prompt_tokens'') (py_or (dget incoming_usage ''input_tokens'')
              (dget_or current_usage ''prompt_tokens'' (PInt 0)));
            completion_tokens = py_or (dget incoming_usage ''completion_tokens'') (py_or (dget incoming_usage ''output_tokens'')
              (dget_or current_usage ''completion_tokens'' (PInt 0)))
        in dset ''completion_tokens'' completion_tokens (dset ''prompt_tokens'' prompt_tokens result))"

definition merge_usage :: "pydict \<Rightarrow> pydict \<Rightarrow> pydict result" where
  "merge_usage current incoming =
     rbind (normalize_usage current) (\<lambda>current_usage.
     rbind (normalize_usage incoming) (\<lambda>incoming_usage.
       Inr (merge_normalized current_usage incoming_usage)))"

subsection \<open>Usage adds up\<close>

definition usage_tokens :: "pydict \<Rightarrow> string \<Rightarrow> int" where
  "usage_tokens u key = (case normalize_usage u of Inr n \<Rightarrow> number_of (dget n key) | Inl _ \<Rightarrow> 0)"

text \<open>A usage that reports tokens: its normal form exists and its counts are positive.\<close>

definition reports_tokens :: "pydict \<Rightarrow> bool" where
  "reports_tokens u =
     (isl (normalize_usage u) = False \<and> (\<forall>key \<in> set USAGE_TOKEN_KEYS. usage_tokens u key > 0))"

definition counts :: "pydict \<Rightarrow> (string \<Rightarrow> int) \<Rightarrow> bool" where
  "counts n f = (\<forall>key \<in> set USAGE_TOKEN_KEYS. map_of n key = Some (PInt (f key)) \<and> f key > 0)"

lemma normalize_counts:
  assumes "reports_tokens u"
  obtains n where "normalize_usage u = Inr n" "counts n (usage_tokens u)"
proof -
  from assms obtain n where n: "normalize_usage u = Inr n"
    by (cases "normalize_usage u") (auto simp: reports_tokens_def)
  have "u \<noteq> []" using assms n by (auto simp: reports_tokens_def usage_tokens_def normalize_usage_def USAGE_TOKEN_KEYS_def number_of_def)
  then have "\<forall>key \<in> set USAGE_TOKEN_KEYS. \<exists>i. map_of n key = Some (PInt i)"
    using n by (auto simp: normalize_usage_def Let_def rbind_Inr_iff USAGE_TOKEN_KEYS_def update_conv')
  then have "counts n (usage_tokens u)"
    using assms n by (auto simp: counts_def reports_tokens_def usage_tokens_def dget_def number_of_def)
  with n that show thesis by blast
qed

lemma normalize_normal: "counts n f \<Longrightarrow> normalize_usage n = Inr n"
  by (auto simp: counts_def USAGE_TOKEN_KEYS_def normalize_usage_def Let_def py_or_def dget_def update_triv)

lemma map_of_add_summable:
  "map_of (fold (add_summable c i) ks r) key =
     (if key \<in> set ks \<and> (dhas c key \<or> dhas i key)
         \<and> (is_number (dget_or c key (PInt 0)) \<or> is_number (dget_or i key (PInt 0)))
      then Some (PInt (count_of (dget_or c key (PInt 0)) + count_of (dget_or i key (PInt 0))))
      else map_of r key)"
  by (induction ks arbitrary: r) (auto simp: add_summable_def Let_def update_conv')

lemma map_of_add_details: "key \<notin> set ks \<Longrightarrow> map_of (fold (add_details c i) ks r) key = map_of r key"
  by (induction ks arbitrary: r) (auto simp: add_details_def Let_def update_conv')

lemma merge_counts:
  assumes "counts n f" "counts m g"
  shows "counts (merge_normalized n m) (\<lambda>key. f key + g key)"
proof -
  have "n \<noteq> []" "m \<noteq> []" using assms by (auto simp: counts_def USAGE_TOKEN_KEYS_def)
  moreover have "key \<in> set USAGE_TOKEN_KEYS \<Longrightarrow>
      key \<notin> set USAGE_DETAIL_KEYS \<and> key \<noteq> ''prompt_tokens'' \<and> key \<noteq> ''completion_tokens'' \<and> key \<in> set USAGE_SUMMABLE_KEYS" for key
    by (auto simp: USAGE_TOKEN_KEYS_def USAGE_DETAIL_KEYS_def USAGE_SUMMABLE_KEYS_def)
  ultimately have "key \<in> set USAGE_TOKEN_KEYS \<Longrightarrow> map_of (merge_normalized n m) key = Some (PInt (f key + g key))" for key
    using assms by (auto simp: merge_normalized_def Let_def update_conv' map_of_add_details map_of_add_summable
        counts_def dget_or_def dhas_def count_of_def is_number_def number_of_def)
  then show ?thesis using assms by (auto simp: counts_def add_pos_pos)
qed

lemma counts_tokens: "counts n f \<Longrightarrow> key \<in> set USAGE_TOKEN_KEYS \<Longrightarrow> usage_tokens n key = f key"
  by (simp add: usage_tokens_def normalize_normal) (simp add: counts_def dget_def number_of_def)

lemma merge_all_counts:
  assumes "counts n f" "\<forall>u \<in> set us. reports_tokens u"
  shows "\<exists>t. rfold (\<lambda>u total. merge_usage total u) us n = Inr t
           \<and> counts t (\<lambda>key. f key + sum_list (map (\<lambda>u. usage_tokens u key) us))"
  using assms
proof (induction us arbitrary: n f)
  case (Cons u us)
  obtain m where m: "normalize_usage u = Inr m" "counts m (usage_tokens u)"
    using Cons.prems by (auto elim: normalize_counts)
  have "merge_usage n u = Inr (merge_normalized n m)"
    using Cons.prems m by (simp add: merge_usage_def normalize_normal)
  then show ?case
    using Cons.IH [OF merge_counts [OF Cons.prems(1) m(2)]] Cons.prems by (simp add: add.assoc)
qed simp

text \<open>
  The usage of several calls of a provider, each reporting positive counts in its own terms, adds up: merged
  one after the other, starting without one, they give a usage whose input, output and total tokens are the sums
  of theirs.
\<close>

lemma usage_adds_up:
  assumes "us \<noteq> []" "\<forall>u \<in> set us. reports_tokens u"
  shows "\<exists>t. rfold (\<lambda>u total. merge_usage total u) us [] = Inr t
           \<and> (\<forall>key \<in> set USAGE_TOKEN_KEYS. usage_tokens t key = sum_list (map (\<lambda>u. usage_tokens u key) us))"
proof -
  obtain u us' where us: "us = u # us'" using assms by (cases us) auto
  obtain m where m: "normalize_usage u = Inr m" "counts m (usage_tokens u)"
    using assms us by (auto elim: normalize_counts)
  have "merge_usage [] u = Inr m"
    using m by (auto simp: merge_usage_def merge_normalized_def normalize_usage_def [of "[]"])
  then show ?thesis
    using merge_all_counts [OF m(2), of us'] assms us by (auto simp: counts_tokens)
qed

definition sample_usages :: "pydict list" where
  "sample_usages =
     [[(''prompt_tokens'', PInt 20), (''completion_tokens'', PInt 5), (''cost'', PInt 2)],
      [(''prompt_eval_count'', PInt 30), (''eval_count'', PInt 4)],
      [(''prompt_n'', PInt 1), (''cache_n'', PInt 40), (''predicted_n'', PInt 6)]]"

lemma usage_adds_up_witness:
  "\<exists>t. rfold (\<lambda>u total. merge_usage total u) sample_usages [] = Inr t
     \<and> (\<forall>key \<in> set USAGE_TOKEN_KEYS. usage_tokens t key = sum_list (map (\<lambda>u. usage_tokens u key) sample_usages))
     \<and> map (\<lambda>key. sum_list (map (\<lambda>u. usage_tokens u key) sample_usages)) USAGE_TOKEN_KEYS = [91, 15, 106]"
proof -
  have "sample_usages \<noteq> []" "\<forall>u \<in> set sample_usages. reports_tokens u"
    "map (\<lambda>key. sum_list (map (\<lambda>u. usage_tokens u key) sample_usages)) USAGE_TOKEN_KEYS = [91, 15, 106]"
    by code_simp+
  then show ?thesis using usage_adds_up [of sample_usages] by auto
qed

subsection \<open>Responses of Ollama\<close>

text \<open>
  The identifiers generated, the clock, the encoder and \<open>str\<close> are arguments; so is the rounded rate of tokens per
  second, a float, of a count and a duration.
\<close>

fun ollama_tool_calls :: "(nat \<Rightarrow> string) \<Rightarrow> (pyval \<Rightarrow> string) \<Rightarrow> nat \<Rightarrow> pyval list \<Rightarrow> pyval list result" where
  "ollama_tool_calls uuids dumps i [] = Inr []"
| "ollama_tool_calls uuids dumps i (tool_call # rest) =
     rbind (py_get tool_call ''function'' (PDict [])) (\<lambda>function.
     rbind (py_get function ''index'' (PInt 0)) (\<lambda>function_index.
     rbind (py_get tool_call ''index'' function_index) (\<lambda>index.
     rbind (py_get tool_call ''id'' (PStr (''call_'' @ uuids i))) (\<lambda>call.
     rbind (py_get function ''name'' (PStr [])) (\<lambda>name.
     rbind (py_get function ''arguments'' (PDict [])) (\<lambda>arguments.
     rbind (ollama_tool_calls uuids dumps (Suc i) rest) (\<lambda>calls.
       Inr (PDict [(''index'', index), (''id'', call), (''type'', PStr ''function''),
              (''function'', PDict [(''name'', name), (''arguments'', PStr (dumps arguments))])] # calls))))))))"

definition convert_ollama_tool_call_to_openai ::
    "(nat \<Rightarrow> string) \<Rightarrow> (pyval \<Rightarrow> string) \<Rightarrow> pyval \<Rightarrow> pyval result" where
  "convert_ollama_tool_call_to_openai uuids dumps tool_calls =
     rbind (py_iter tool_calls) (\<lambda>calls. rbind (ollama_tool_calls uuids dumps 0 calls) (\<lambda>converted. Inr (PList converted)))"

text \<open>\<open>v > 0\<close>, \<open>v / d\<close> as the rate, and \<open>(v or 0) // 1_000_000_000\<close>.\<close>

fun as_number :: "pyval \<Rightarrow> int result" where
  "as_number (PInt i) = Inr i"
| "as_number (PBool b) = Inr (if b then 1 else 0)"
| "as_number _ = Inl TypeError"

definition token_rate :: "(int \<Rightarrow> int \<Rightarrow> pyval) \<Rightarrow> pyval \<Rightarrow> pyval \<Rightarrow> pyval result" where
  "token_rate rate count duration =
     rbind (as_number duration) (\<lambda>d. if d > 0 then rbind (as_number count) (\<lambda>c. Inr (rate c d)) else Inr (PStr ''N/A''))"

definition time_text :: "int \<Rightarrow> string" where
  "time_text s = int_text (s div 3600) @ ''h'' @ int_text (s mod 3600 div 60) @ ''m'' @ int_text (s mod 60) @ ''s''"

definition convert_ollama_usage_to_openai :: "(int \<Rightarrow> int \<Rightarrow> pyval) \<Rightarrow> pydict \<Rightarrow> pydict result" where
  "convert_ollama_usage_to_openai rate data =
     rbind (int_of (dget_or data ''prompt_eval_count'' (PInt 0))) (\<lambda>input.
     rbind (int_of (dget_or data ''eval_count'' (PInt 0))) (\<lambda>output.
     rbind (token_rate rate (dget_or data ''eval_count'' (PInt 0)) (dget_or data ''eval_duration'' (PInt 0))) (\<lambda>response_rate.
     rbind (token_rate rate (dget_or data ''prompt_eval_count'' (PInt 0)) (dget_or data ''prompt_eval_duration'' (PInt 0))) (\<lambda>prompt_rate.
     rbind (as_number (py_or (dget_or data ''total_duration'' (PInt 0)) (PInt 0))) (\<lambda>nanoseconds.
       Inr [(''input_tokens'', PInt input), (''output_tokens'', PInt output), (''total_tokens'', PInt (input + output)),
            (''prompt_tokens'', PInt input), (''completion_tokens'', PInt output),
            (''response_token/s'', response_rate), (''prompt_token/s'', prompt_rate),
            (''total_duration'', dget_or data ''total_duration'' (PInt 0)),
            (''load_duration'', dget_or data ''load_duration'' (PInt 0)),
            (''prompt_eval_count'', dget_or data ''prompt_eval_count'' (PInt 0)),
            (''prompt_eval_duration'', dget_or data ''prompt_eval_duration'' (PInt 0)),
            (''eval_count'', dget_or data ''eval_count'' (PInt 0)),
            (''eval_duration'', dget_or data ''eval_duration'' (PInt 0)),
            (''approximate_total'', PStr (time_text (nanoseconds div 1000000000))),
            (''completion_tokens_details'', PDict [(''reasoning_tokens'', PInt 0),
               (''accepted_prediction_tokens'', PInt 0), (''rejected_prediction_tokens'', PInt 0)])])))))"

subsection \<open>Templates of a response\<close>

text \<open>\<open>template['choices'][0]\<close> and its \<open>delta\<close>, read and changed in place.\<close>

definition choice0 :: "pydict \<Rightarrow> pydict" where
  "choice0 template = (case dget template ''choices'' of PList (PDict c # _) \<Rightarrow> c | _ \<Rightarrow> [])"

definition set_choice :: "(pydict \<Rightarrow> pydict) \<Rightarrow> pydict \<Rightarrow> pydict" where
  "set_choice f template = dset ''choices'' (PList [PDict (f (choice0 template))]) template"

definition delta_of :: "pydict \<Rightarrow> pydict" where
  "delta_of template = usage_map (dget (choice0 template) ''delta'')"

definition set_delta :: "string \<Rightarrow> pyval \<Rightarrow> pydict \<Rightarrow> pydict" where
  "set_delta key v template = set_choice (dset ''delta'' (PDict (dset key v (delta_of template)))) template"

definition when_true :: "pyval \<Rightarrow> (pyval \<Rightarrow> 'a \<Rightarrow> 'a) \<Rightarrow> 'a \<Rightarrow> 'a" where
  "when_true v f x = (if truthy v then f v x else x)"

definition openai_chat_message_template :: "int \<Rightarrow> pyval \<Rightarrow> string \<Rightarrow> pydict" where
  "openai_chat_message_template now model message_id =
     [(''id'', PStr message_id), (''created'', PInt now), (''model'', model),
      (''choices'', PList [PDict [(''index'', PInt 0), (''logprobs'', PNone), (''finish_reason'', PNone)]])]"

definition openai_chat_chunk_message_template ::
    "int \<Rightarrow> pyval \<Rightarrow> pyval \<Rightarrow> pyval \<Rightarrow> pyval \<Rightarrow> pyval \<Rightarrow> string \<Rightarrow> pydict" where
  "openai_chat_chunk_message_template now model content reasoning_content tool_calls usage message_id =
     (let template = dset ''object'' (PStr ''chat.completion.chunk'') (openai_chat_message_template now model message_id);
          template = set_choice (dset ''index'' (PInt 0)) template;
          template = set_choice (dset ''delta'' (PDict [])) template;
          template = when_true content (set_delta ''content'') template;
          template = when_true reasoning_content (set_delta ''reasoning_content'') template;
          template = when_true tool_calls (set_delta ''tool_calls'') template;
          template = (if \<not> truthy content \<and> \<not> truthy reasoning_content \<and> \<not> truthy tool_calls
                      then set_choice (dset ''finish_reason'' (PStr ''stop'')) template else template)
      in when_true usage (dset ''usage'') template)"

definition openai_chat_completion_message_template ::
    "int \<Rightarrow> pyval \<Rightarrow> pyval \<Rightarrow> pyval \<Rightarrow> pyval \<Rightarrow> pyval \<Rightarrow> string \<Rightarrow> pydict" where
  "openai_chat_completion_message_template now model message reasoning_content tool_calls usage message_id =
     (let template = dset ''object'' (PStr ''chat.completion'') (openai_chat_message_template now model message_id);
          answer = when_true tool_calls (dset ''tool_calls'') (when_true reasoning_content (dset ''reasoning_content'')
            [(''role'', PStr ''assistant''), (''content'', message)]);
          template = (if message \<noteq> PNone then set_choice (dset ''message'' (PDict answer)) template else template);
          template = set_choice (dset ''finish_reason'' (PStr (if truthy tool_calls then ''tool_calls'' else ''stop''))) template
      in when_true usage (dset ''usage'') template)"

subsection \<open>A response, whole and streamed\<close>

text \<open>\<open>str\<close> is \<open>str(model)\<close>, the prefix of the identifier of a whole response.\<close>

definition convert_response_ollama_to_openai ::
    "(pyval \<Rightarrow> string) \<Rightarrow> (pyval \<Rightarrow> string) \<Rightarrow> (int \<Rightarrow> int \<Rightarrow> pyval) \<Rightarrow> (nat \<Rightarrow> string) \<Rightarrow> string \<Rightarrow> int \<Rightarrow> pydict \<Rightarrow> pydict result" where
  "convert_response_ollama_to_openai str dumps rate uuids uuid now ollama_response =
     (let model = dget_or ollama_response ''model'' (PStr ''ollama'');
          message = dget_or ollama_response ''message'' (PDict []) in
      rbind (py_get message ''content'' (PStr [])) (\<lambda>message_content.
      rbind (py_get message ''thinking'' PNone) (\<lambda>reasoning_content.
      rbind (py_get message ''tool_calls'' PNone) (\<lambda>tool_calls.
      rbind (if truthy tool_calls then convert_ollama_tool_call_to_openai uuids dumps tool_calls else Inr PNone) (\<lambda>openai_tool_calls.
      rbind (convert_ollama_usage_to_openai rate ollama_response) (\<lambda>usage.
        Inr (openai_chat_completion_message_template now model message_content reasoning_content openai_tool_calls
               (PDict usage) (str model @ ''-'' @ uuid))))))))"

text \<open>The chunk yielded for a message, from what was read of it; and one message of the stream, with whether a tool
  call has been seen by then.\<close>

definition chunk_of ::
    "string \<Rightarrow> int \<Rightarrow> bool \<Rightarrow> bool \<Rightarrow> bool \<Rightarrow> pyval \<Rightarrow> pyval \<Rightarrow> pyval \<Rightarrow> pyval \<Rightarrow> pyval \<Rightarrow> pydict" where
  "chunk_of completion_id now first has_tool_calls finished model message_content reasoning_content openai_tool_calls usage =
     (let chunk = openai_chat_chunk_message_template now model message_content reasoning_content openai_tool_calls usage completion_id;
          chunk = (if first then set_delta ''role'' (PStr ''assistant'') chunk else chunk)
      in if finished \<and> has_tool_calls then set_choice (dset ''finish_reason'' (PStr ''tool_calls'')) chunk else chunk)"

definition ollama_chunk ::
    "(pyval \<Rightarrow> string) \<Rightarrow> (int \<Rightarrow> int \<Rightarrow> pyval) \<Rightarrow> (nat \<Rightarrow> string) \<Rightarrow> string \<Rightarrow> int \<Rightarrow> bool \<Rightarrow> bool \<Rightarrow> pyval \<Rightarrow> (pydict \<times> bool) result" where
  "ollama_chunk dumps rate uuids completion_id now first has_tool_calls data =
     rbind (py_get data ''model'' (PStr ''ollama'')) (\<lambda>model.
     rbind (py_get data ''message'' PNone) (\<lambda>given.
     let message = py_or given (PDict []) in
     rbind (py_get message ''content'' PNone) (\<lambda>message_content.
     rbind (py_get message ''thinking'' PNone) (\<lambda>reasoning_content.
     rbind (py_get message ''tool_calls'' PNone) (\<lambda>tool_calls.
     rbind (if truthy tool_calls then convert_ollama_tool_call_to_openai uuids dumps tool_calls else Inr PNone) (\<lambda>openai_tool_calls.
     let has_tool_calls = (has_tool_calls \<or> truthy tool_calls) in
     rbind (py_get data ''done'' (PBool False)) (\<lambda>done_given.
     rbind (if truthy done_given then rbind (convert_ollama_usage_to_openai rate (usage_map data)) (\<lambda>u. Inr (PDict u))
            else Inr PNone) (\<lambda>usage.
       Inr (chunk_of completion_id now first has_tool_calls (truthy done_given) model message_content reasoning_content
              openai_tool_calls usage, has_tool_calls)))))))))"

text \<open>The chunks yielded up to the end of the stream or the first exception, message \<open>i\<close> read at time \<open>nows i\<close>.\<close>

fun ollama_chunks ::
    "(pyval \<Rightarrow> string) \<Rightarrow> (int \<Rightarrow> int \<Rightarrow> pyval) \<Rightarrow> (nat \<Rightarrow> nat \<Rightarrow> string) \<Rightarrow> string \<Rightarrow> (nat \<Rightarrow> int) \<Rightarrow> nat \<Rightarrow> bool
     \<Rightarrow> pyval result list \<Rightarrow> pydict list \<times> py_error option" where
  "ollama_chunks dumps rate uuids completion_id nows i has_tool_calls [] = ([], None)"
| "ollama_chunks dumps rate uuids completion_id nows i has_tool_calls (message # rest) =
     (case rbind message (ollama_chunk dumps rate (uuids i) completion_id (nows i) (i = 0) has_tool_calls) of
        Inl e \<Rightarrow> ([], Some e)
      | Inr (chunk, seen) \<Rightarrow>
          (let (chunks, e) = ollama_chunks dumps rate uuids completion_id nows (Suc i) seen rest in (chunk # chunks, e)))"

definition convert_streaming_response_ollama_to_openai ::
    "(string \<Rightarrow> pyval result) \<Rightarrow> (pyval \<Rightarrow> string) \<Rightarrow> (int \<Rightarrow> int \<Rightarrow> pyval) \<Rightarrow> (nat \<Rightarrow> nat \<Rightarrow> string) \<Rightarrow> string \<Rightarrow> (nat \<Rightarrow> int)
     \<Rightarrow> string list \<Rightarrow> string list \<times> py_error option" where
  "convert_streaming_response_ollama_to_openai loads dumps rate uuids uuid nows lines =
     (let (chunks, e) = ollama_chunks dumps rate uuids (''chatcmpl-'' @ uuid) nows 0 False (map loads lines);
          yielded = map (\<lambda>data. ''data: '' @ dumps (PDict data) @ [CHR 0x0A, CHR 0x0A]) chunks
      in case e of None \<Rightarrow> (yielded @ [''data: [DONE]'' @ [CHR 0x0A, CHR 0x0A]], None) | Some err \<Rightarrow> (yielded, Some err))"

subsection \<open>Chunks and their messages\<close>

definition message_field :: "pyval \<Rightarrow> string \<Rightarrow> pyval" where
  "message_field data key = dget (usage_map (dget (usage_map data) ''message'')) key"

definition is_done :: "pyval \<Rightarrow> bool" where
  "is_done data = truthy (dget (usage_map data) ''done'')"

definition calls_tools :: "pyval \<Rightarrow> bool" where
  "calls_tools data = truthy (message_field data ''tool_calls'')"

definition says_nothing :: "pyval \<Rightarrow> bool" where
  "says_nothing data =
     (\<not> truthy (message_field data ''content'') \<and> \<not> truthy (message_field data ''thinking'') \<and> \<not> calls_tools data)"

text \<open>The reason to stop that the chunk of a message gives, \<open>seen\<close> telling whether a tool was called by then.\<close>

definition stop_of :: "bool \<Rightarrow> pyval \<Rightarrow> pyval" where
  "stop_of seen data =
     (if is_done data \<and> seen then PStr ''tool_calls'' else if says_nothing data then PStr ''stop'' else PNone)"

definition describes :: "string \<Rightarrow> bool \<Rightarrow> bool \<Rightarrow> pyval \<Rightarrow> pydict \<Rightarrow> bool" where
  "describes completion_id first seen data chunk =
     (dget chunk ''id'' = PStr completion_id
      \<and> dhas (delta_of chunk) ''role'' = first
      \<and> (truthy (message_field data ''content'') \<longrightarrow> dget (delta_of chunk) ''content'' = message_field data ''content'')
      \<and> dhas (delta_of chunk) ''content'' = truthy (message_field data ''content'')
      \<and> dhas (delta_of chunk) ''tool_calls'' = calls_tools data
      \<and> dget (choice0 chunk) ''finish_reason'' = stop_of seen data
      \<and> dhas chunk ''usage'' = is_done data)"

lemma choice0_set_choice [simp]: "choice0 (set_choice f t) = f (choice0 t)"
  by (simp add: set_choice_def choice0_def)

lemma choice0_dset [simp]: "key \<noteq> ''choices'' \<Longrightarrow> choice0 (dset key v t) = choice0 t"
  by (simp add: choice0_def)

lemma dget_set_choice [simp]: "key \<noteq> ''choices'' \<Longrightarrow> dget (set_choice f t) key = dget t key"
  by (simp add: set_choice_def)

lemma dhas_set_choice [simp]: "key \<noteq> ''choices'' \<Longrightarrow> dhas (set_choice f t) key = dhas t key"
  by (simp add: set_choice_def)

lemma delta_of_set_delta [simp]: "delta_of (set_delta key v t) = dset key v (delta_of t)"
  by (simp add: set_delta_def delta_of_def usage_map_def)

lemma dget_set_delta [simp]: "key \<noteq> ''choices'' \<Longrightarrow> dget (set_delta k v t) key = dget t key"
  by (simp add: set_delta_def)

lemma dhas_set_delta [simp]: "key \<noteq> ''choices'' \<Longrightarrow> dhas (set_delta k v t) key = dhas t key"
  by (simp add: set_delta_def)

lemma choice0_set_delta [simp]: "key \<noteq> ''delta'' \<Longrightarrow> dget (choice0 (set_delta k v t)) key = dget (choice0 t) key"
  by (simp add: set_delta_def)

lemma delta_of_dset [simp]: "key \<noteq> ''choices'' \<Longrightarrow> delta_of (dset key v t) = delta_of t"
  by (simp add: delta_of_def)

lemma delta_of_finish [simp]: "delta_of (set_choice (dset ''finish_reason'' v) t) = delta_of t"
  by (simp add: delta_of_def)

lemma delta_of_new [simp]: "delta_of (set_choice (dset ''delta'' (PDict [])) t) = []"
  by (simp add: delta_of_def usage_map_def)

lemma template_fields [simp]:
  "dget (openai_chat_message_template now model i) ''id'' = PStr i"
  "dhas (openai_chat_message_template now model i) ''usage'' = False"
  "dget (choice0 (openai_chat_message_template now model i)) ''finish_reason'' = PNone"
  by (simp_all add: openai_chat_message_template_def dget_def dhas_def choice0_def)

lemma chunk_template_fields:
  fixes model content thinking calls usage :: pyval and now :: int and i :: string
  defines "t \<equiv> openai_chat_chunk_message_template now model content thinking calls usage i"
  shows "dget t ''id'' = PStr i" "dhas t ''usage'' = truthy usage"
    "dget (choice0 t) ''finish_reason'' =
       (if \<not> truthy content \<and> \<not> truthy thinking \<and> \<not> truthy calls then PStr ''stop'' else PNone)"
    "dhas (delta_of t) key =
       (key = ''content'' \<and> truthy content \<or> key = ''reasoning_content'' \<and> truthy thinking
        \<or> key = ''tool_calls'' \<and> truthy calls)"
    "truthy content \<Longrightarrow> dget (delta_of t) ''content'' = content"
  unfolding t_def
  by (auto simp: openai_chat_chunk_message_template_def Let_def when_true_def dhas_def [of "[]"])

lemma converted_calls_truthy:
  assumes "convert_ollama_tool_call_to_openai uuids dumps v = Inr w" "truthy v"
  shows "truthy w"
proof -
  from assms obtain calls converted where calls: "py_iter v = Inr calls" "ollama_tool_calls uuids dumps 0 calls = Inr converted"
      "w = PList converted"
    by (auto simp: convert_ollama_tool_call_to_openai_def rbind_Inr_iff)
  then have "calls \<noteq> []" using assms by (cases v) auto
  with calls show ?thesis by (cases calls) (auto simp: rbind_Inr_iff)
qed

lemma py_get_Inr: "py_get v k d = Inr x \<longleftrightarrow> (\<exists>e. v = PDict e \<and> x = dget_or e k d)"
  by (cases v) auto

lemma dget_or_None: "dget_or d k PNone = dget d k"
  by (simp add: dget_or_def dget_def)

lemma truthy_done: "truthy (dget_or d k (PBool False)) = truthy (dget d k)"
  by (simp add: dget_or_def dget_def split: option.split)

lemma usage_converted_not_Nil: "convert_ollama_usage_to_openai rate d = Inr u \<Longrightarrow> u \<noteq> []"
  by (auto simp: convert_ollama_usage_to_openai_def rbind_Inr_iff)

lemma rbind_InrE: "rbind m f = Inr y \<Longrightarrow> (\<And>x. m = Inr x \<Longrightarrow> f x = Inr y \<Longrightarrow> P) \<Longrightarrow> P"
  by (auto simp: rbind_Inr_iff)

lemma ollama_chunk_reads:
  assumes "ollama_chunk dumps rate uuids cid now first has data = Inr (chunk, seen)"
  obtains d given model oc usage where "data = PDict d" "py_or (dget d ''message'') (PDict []) = PDict given"
    "truthy oc = truthy (dget given ''tool_calls'')" "truthy usage = truthy (dget d ''done'')"
    "seen = (has \<or> truthy (dget given ''tool_calls''))"
    "chunk = chunk_of cid now first seen (truthy (dget d ''done'')) model (dget given ''content'')
       (dget given ''thinking'') oc usage"
proof -
  from assms obtain model given message content thinking calls oc fin usage where
    m: "py_get data ''model'' (PStr ''ollama'') = Inr model" "py_get data ''message'' PNone = Inr given"
       "message = py_or given (PDict [])" "py_get message ''content'' PNone = Inr content"
       "py_get message ''thinking'' PNone = Inr thinking" "py_get message ''tool_calls'' PNone = Inr calls"
    and oc: "(if truthy calls then convert_ollama_tool_call_to_openai uuids dumps calls else Inr PNone) = Inr oc"
    and fin: "py_get data ''done'' (PBool False) = Inr fin"
    and u: "(if truthy fin then rbind (convert_ollama_usage_to_openai rate (usage_map data)) (\<lambda>u. Inr (PDict u))
             else Inr PNone) = Inr usage"
    and r: "seen = (has \<or> truthy calls)" "chunk = chunk_of cid now first seen (truthy fin) model content thinking oc usage"
    unfolding ollama_chunk_def Let_def by (elim rbind_InrE) blast
  from m obtain d given' where d: "data = PDict d" "given = dget d ''message''" "message = PDict given'"
      "content = dget given' ''content''" "thinking = dget given' ''thinking''" "calls = dget given' ''tool_calls''"
    by (auto simp: py_get_Inr dget_or_None)
  have "truthy oc = truthy calls"
    using oc converted_calls_truthy by (cases "truthy calls") auto
  moreover have "truthy fin = truthy (dget d ''done'')" using fin d by (auto simp: py_get_Inr truthy_done)
  moreover have "truthy usage = truthy fin"
    using u usage_converted_not_Nil by (cases "truthy fin") (auto simp: rbind_Inr_iff)
  ultimately show thesis using that [of d given' oc usage model] d m r by simp
qed

lemma chunk_of_fields:
  fixes model content thinking calls usage :: pyval and now :: int and i :: string and first seen fin :: bool
  defines "c \<equiv> chunk_of i now first seen fin model content thinking calls usage"
  shows "dget c ''id'' = PStr i" "dhas c ''usage'' = truthy usage"
    "dget (choice0 c) ''finish_reason'' =
       (if fin \<and> seen then PStr ''tool_calls''
        else if \<not> truthy content \<and> \<not> truthy thinking \<and> \<not> truthy calls then PStr ''stop'' else PNone)"
    "dhas (delta_of c) key =
       (key = ''role'' \<and> first \<or> key = ''content'' \<and> truthy content \<or> key = ''reasoning_content'' \<and> truthy thinking
        \<or> key = ''tool_calls'' \<and> truthy calls)"
    "truthy content \<Longrightarrow> dget (delta_of c) ''content'' = content"
  unfolding c_def chunk_of_def Let_def by (auto simp: chunk_template_fields)

lemma chunk_describes:
  assumes "ollama_chunk dumps rate uuids cid now first has data = Inr (chunk, seen)"
  shows "seen = (has \<or> calls_tools data) \<and> describes cid first seen data chunk"
  using assms
proof (rule ollama_chunk_reads)
  fix d given model oc usage
  assume d: "data = PDict d" and given: "py_or (dget d ''message'') (PDict []) = PDict given"
    and oc: "truthy oc = truthy (dget given ''tool_calls'')" and usage: "truthy usage = truthy (dget d ''done'')"
    and seen: "seen = (has \<or> truthy (dget given ''tool_calls''))"
    and chunk: "chunk = chunk_of cid now first seen (truthy (dget d ''done'')) model (dget given ''content'')
       (dget given ''thinking'') oc usage"
  have "dget (usage_map (dget d ''message'')) key = dget given key" for key
    using given by (cases "dget d ''message''") (auto simp: py_or_def usage_map_def split: if_splits)
  then have m: "message_field data key = dget given key" for key
    by (simp add: message_field_def d usage_map_def)
  have "is_done data = truthy (dget d ''done'')" by (simp add: is_done_def d usage_map_def)
  then show ?thesis
    unfolding describes_def stop_of_def says_nothing_def calls_tools_def m chunk chunk_of_fields oc usage
    using seen by (auto simp: chunk_of_fields)
qed

lemma chunks_describe:
  assumes "ollama_chunks dumps rate uuids cid nows i has (map Inr ds) = (chunks, None)"
  shows "length chunks = length ds
       \<and> (\<forall>k < length ds. describes cid (i + k = 0) (has \<or> (\<exists>j \<le> k. calls_tools (ds ! j))) (ds ! k) (chunks ! k))"
  using assms
proof (induction ds arbitrary: i has chunks)
  case (Cons d ds)
  then obtain chunk seen rest where
    c: "ollama_chunk dumps rate (uuids i) cid (nows i) (i = 0) has d = Inr (chunk, seen)"
    and rest: "ollama_chunks dumps rate uuids cid nows (Suc i) seen (map Inr ds) = (rest, None)"
    and chunks: "chunks = chunk # rest"
    by (auto simp: rbind_def split: sum.splits prod.splits)
  have d: "seen = (has \<or> calls_tools d)" "describes cid (i = 0) seen d chunk"
    using chunk_describes [OF c] by blast+
  note IH = Cons.IH [OF rest]
  have "describes cid (i + k = 0) (has \<or> (\<exists>j \<le> k. calls_tools ((d # ds) ! j))) ((d # ds) ! k) ((chunk # rest) ! k)"
    if "k < length (d # ds)" for k
  proof (cases k)
    case 0
    then show ?thesis using d by simp
  next
    case (Suc k')
    have "(\<exists>j \<le> k. calls_tools ((d # ds) ! j)) \<longleftrightarrow> calls_tools d \<or> (\<exists>j \<le> k'. calls_tools (ds ! j))"
      unfolding Suc by (metis Suc_le_mono nth_Cons_0 nth_Cons_Suc le0 old.nat.exhaust)
    then show ?thesis using IH that Suc d by auto
  qed
  then show ?case using IH chunks by simp
qed simp

text \<open>
  A stream of Ollama that is read without an exception yields one chunk per message and then the end marker.
  All chunks carry the identifier of the completion, only the first one the role; the chunk of a message has its
  text and its tool calls where it has any, and usage where it is the one that is done. The reason to stop is
  \<open>tool_calls\<close> for a message that is done once a tool was called by it or before it, and otherwise \<open>stop\<close> exactly for
  the messages without text, reasoning and tool calls, done or not.
\<close>

lemma ollama_stream_is_described:
  assumes "convert_streaming_response_ollama_to_openai loads dumps rate uuids uuid nows lines = (yielded, None)"
    and "map loads lines = map Inr ds"
  shows "\<exists>chunks. yielded = map (\<lambda>data. ''data: '' @ dumps (PDict data) @ [CHR 0x0A, CHR 0x0A]) chunks
             @ [''data: [DONE]'' @ [CHR 0x0A, CHR 0x0A]]
           \<and> length chunks = length ds
           \<and> (\<forall>k < length ds. describes (''chatcmpl-'' @ uuid) (k = 0) (\<exists>j \<le> k. calls_tools (ds ! j)) (ds ! k) (chunks ! k))"
proof -
  obtain chunks where c: "ollama_chunks dumps rate uuids (''chatcmpl-'' @ uuid) nows 0 False (map Inr ds) = (chunks, None)"
    and y: "yielded = map (\<lambda>data. ''data: '' @ dumps (PDict data) @ [CHR 0x0A, CHR 0x0A]) chunks
             @ [''data: [DONE]'' @ [CHR 0x0A, CHR 0x0A]]"
    using assms by (auto simp: convert_streaming_response_ollama_to_openai_def Let_def split: prod.splits option.splits)
  show ?thesis using chunks_describe [OF c] y by auto
qed

lemma length_3_list: "length xs = 3 \<Longrightarrow> \<exists>x y z. xs = [x, y, z]"
  by (auto simp: length_Suc_conv numeral_eq_Suc)

definition sample_messages :: "pyval list" where
  "sample_messages =
     [PDict [(''model'', PStr ''llama''), (''message'', PDict [(''content'', PStr ''Hi'')])],
      PDict [(''model'', PStr ''llama''), (''message'', PDict [(''tool_calls'',
         PList [PDict [(''function'', PDict [(''name'', PStr ''now'')])]])])],
      PDict [(''model'', PStr ''llama''), (''message'', PDict [(''content'', PStr [])]), (''done'', PBool True),
        (''eval_count'', PInt 3)]]"

lemma ollama_stream_is_described_witness:
  "\<exists>chunks. fst (convert_streaming_response_ollama_to_openai (\<lambda>s. Inr (sample_messages ! length s)) (\<lambda>_. ''{}'')
        (\<lambda>_ _. PNone) (\<lambda>_ _. ''u'') ''c'' int [[], ''l'', ''ll'']) = map (\<lambda>data. ''data: {}'' @ [CHR 0x0A, CHR 0x0A]) chunks
          @ [''data: [DONE]'' @ [CHR 0x0A, CHR 0x0A]]
     \<and> map (\<lambda>c. dget (choice0 c) ''finish_reason'') chunks = [PNone, PNone, PStr ''tool_calls'']"
proof -
  let ?r = "convert_streaming_response_ollama_to_openai (\<lambda>s. Inr (sample_messages ! length s)) (\<lambda>_. ''{}'')
        (\<lambda>_ _. PNone) (\<lambda>_ _. ''u'') ''c'' int [[], ''l'', ''ll'']"
  have "snd ?r = None" by code_simp
  then have r: "?r = (fst ?r, None)" by (metis prod.collapse)
  have "map (\<lambda>s. Inr (sample_messages ! length s)) [[], ''l'', ''ll''] = (map Inr sample_messages :: pyval result list)"
    by code_simp
  from ollama_stream_is_described [OF r this] obtain chunks where
    y: "fst ?r = map (\<lambda>data. ''data: {}'' @ [CHR 0x0A, CHR 0x0A]) chunks @ [''data: [DONE]'' @ [CHR 0x0A, CHR 0x0A]]"
    and n: "length chunks = length sample_messages"
    and d: "\<forall>k < length sample_messages. describes (''chatcmpl-'' @ ''c'') (k = 0)
              (\<exists>j \<le> k. calls_tools (sample_messages ! j)) (sample_messages ! k) (chunks ! k)"
    by auto
  have l: "length sample_messages = 3" by code_simp
  have s: "calls_tools (sample_messages ! 0) = False" "calls_tools (sample_messages ! 1) = True"
    "\<forall>seen. stop_of seen (sample_messages ! 0) = PNone" "\<forall>seen. stop_of seen (sample_messages ! 1) = PNone"
    "stop_of True (sample_messages ! 2) = PStr ''tool_calls''"
    by (simp_all add: sample_messages_def calls_tools_def message_field_def usage_map_def dget_def stop_of_def is_done_def
        says_nothing_def)
  have t: "(\<exists>j \<le> 2 :: nat. calls_tools (sample_messages ! j)) = True"
    using s(2) one_le_numeral by blast
  have f: "dget (choice0 (chunks ! k)) ''finish_reason'' = stop_of (\<exists>j \<le> k. calls_tools (sample_messages ! j)) (sample_messages ! k)"
    if "k < 3" for k
    using d that unfolding l describes_def by blast
  have "dget (choice0 (chunks ! 0)) ''finish_reason'' = PNone" "dget (choice0 (chunks ! 1)) ''finish_reason'' = PNone"
    "dget (choice0 (chunks ! 2)) ''finish_reason'' = PStr ''tool_calls''"
    using f [of 0] f [of 1] f [of 2] s(3, 4, 5) t by simp_all
  moreover obtain c0 c1 c2 where "chunks = [c0, c1, c2]"
    using length_3_list [OF trans [OF n l]] by blast
  ultimately have reasons: "map (\<lambda>c. dget (choice0 c) ''finish_reason'') chunks = [PNone, PNone, PStr ''tool_calls'']"
    by simp
  show ?thesis by (rule exI [of _ chunks], rule conjI [OF y reasons])
qed

subsection \<open>Embeddings\<close>

fun openai_embeddings :: "int \<Rightarrow> pyval list \<Rightarrow> pyval list" where
  "openai_embeddings i [] = []"
| "openai_embeddings i (emb # rest) =
     (case emb of
        PList _ \<Rightarrow> [PDict [(''object'', PStr ''embedding''), (''embedding'', emb), (''index'', PInt i)]]
      | PDict d \<Rightarrow> [PDict [(''object'', PStr ''embedding''), (''embedding'', dget d ''embedding''),
                      (''index'', dget_or d ''index'' (PInt i))]]
      | _ \<Rightarrow> []) @ openai_embeddings (i + 1) rest"

definition convert_embedding_response_ollama_to_openai :: "pyval \<Rightarrow> pyval result" where
  "convert_embedding_response_ollama_to_openai response =
     (case response of
        PDict d \<Rightarrow>
          (case map_of d ''embeddings'' of
             Some v \<Rightarrow> rbind (py_iter v) (\<lambda>embs. Inr (PDict [(''object'', PStr ''list''),
                         (''data'', PList (openai_embeddings 0 embs)), (''model'', dget d ''model'')]))
           | None \<Rightarrow>
               (case map_of d ''embedding'' of
                  Some v \<Rightarrow> Inr (PDict [(''object'', PStr ''list''),
                    (''data'', PList [PDict [(''object'', PStr ''embedding''), (''embedding'', v), (''index'', PInt 0)]]),
                    (''model'', dget d ''model'')])
                | None \<Rightarrow> Inr response))
      | _ \<Rightarrow> Inr response)"

end
