(* ===== verification/Knowledge_Directories.thy ===== *)
theory Knowledge_Directories
  imports Access_Grants Parent_Chain
begin

section \<open>Directories of a knowledge base\<close>

text \<open>
  Models the directories of \<open>models/knowledge.py\<close> with the files they hold, the endpoints of
  \<open>routers/knowledge.py\<close> that change them, and the comparison of a local folder with a knowledge base.

  Whether the database enforces foreign keys is an argument \<open>fk\<close>: PostgreSQL does; SQLite, where
  \<open>internal/db.py\<close> does not turn them on, does not. With them a row may only refer to rows that exist, deleting
  a directory deletes those below it, and files of deleted directories lose the link. A commit that violates a
  constraint leaves the tables; the operations catch the exception.

  The recursions over a subtree have no visited set and no bound of their own: \<open>limit\<close> is the depth at which the
  interpreter gives up, which is an exception like any other.
\<close>

subsection \<open>Tables\<close>

record knowledge_row =
  kn_id :: string
  kn_user_id :: string
  kn_meta :: pydict
  kn_updated_at :: int

record directory_row =
  kd_id :: string
  kd_knowledge_id :: string
  kd_parent_id :: "string option"
  kd_name :: string
  kd_user_id :: string
  kd_created_at :: int
  kd_updated_at :: int

record knowledge_file_row =
  kf_id :: string
  kf_knowledge_id :: string
  kf_file_id :: string
  kf_directory_id :: "string option"
  kf_user_id :: string
  kf_created_at :: int
  kf_updated_at :: int

record knowledge_db =
  kdb_knowledge :: "knowledge_row list"
  kdb_directories :: "directory_row list"
  kdb_files :: "knowledge_file_row list"
  kdb_file_ids :: "string list"
  kdb_grants :: "access_grant list"
  kdb_groups :: group_db

definition directory_key :: "directory_row \<Rightarrow> string \<times> string option \<times> string" where
  "directory_key d = (kd_knowledge_id d, kd_parent_id d, kd_name d)"

text \<open>The unique constraints; one whose columns hold \<open>NULL\<close> does not apply.\<close>

definition directories_unique :: "directory_row list \<Rightarrow> bool" where
  "directories_unique ds =
     (distinct (map kd_id ds) \<and> distinct (map directory_key (filter (\<lambda>d. kd_parent_id d \<noteq> None) ds)))"

definition files_unique :: "knowledge_file_row list \<Rightarrow> bool" where
  "files_unique fs = (distinct (map kf_id fs) \<and> distinct (map (\<lambda>f. (kf_knowledge_id f, kf_file_id f)) fs))"

definition present_in :: "string list \<Rightarrow> string option \<Rightarrow> bool" where
  "present_in ids i = (case i of None \<Rightarrow> True | Some k \<Rightarrow> k \<in> set ids)"

definition references_ok :: "knowledge_db \<Rightarrow> bool" where
  "references_ok db =
     ((\<forall>d \<in> set (kdb_directories db). kd_knowledge_id d \<in> set (map kn_id (kdb_knowledge db))
         \<and> present_in (map kd_id (kdb_directories db)) (kd_parent_id d))
      \<and> (\<forall>f \<in> set (kdb_files db). kf_knowledge_id f \<in> set (map kn_id (kdb_knowledge db))
         \<and> kf_file_id f \<in> set (kdb_file_ids db)
         \<and> present_in (map kd_id (kdb_directories db)) (kf_directory_id f)))"

definition constraints_ok :: "bool \<Rightarrow> knowledge_db \<Rightarrow> bool" where
  "constraints_ok fk db =
     (distinct (map kn_id (kdb_knowledge db)) \<and> directories_unique (kdb_directories db) \<and> files_unique (kdb_files db)
      \<and> (fk \<longrightarrow> references_ok db))"

definition commit_or :: "bool \<Rightarrow> knowledge_db \<Rightarrow> 'a \<Rightarrow> knowledge_db \<Rightarrow> 'a \<Rightarrow> knowledge_db \<times> 'a" where
  "commit_or fk old failed new x = (if constraints_ok fk new then (new, x) else (old, failed))"

text \<open>Deleting rows, and with foreign keys all rows below them, whose files lose the link.\<close>

function cascade :: "string list \<Rightarrow> directory_row list \<Rightarrow> directory_row list" where
  "cascade gone ds =
     (let rest = filter (\<lambda>d. kd_id d \<notin> set gone) ds;
          below = map kd_id (filter (\<lambda>d. \<exists>p \<in> set gone. kd_parent_id d = Some p) rest)
      in if below = [] then rest else cascade below rest)"
  by pat_completeness auto
termination
proof (relation "measure (\<lambda>(gone, ds). length (filter (\<lambda>d. kd_id d \<notin> set gone) ds))")
  fix gone :: "string list" and ds rest below
  assume rest: "rest = filter (\<lambda>d. kd_id d \<notin> set gone) ds"
    and below: "below = map kd_id (filter (\<lambda>d. \<exists>p \<in> set gone. kd_parent_id d = Some p) rest)" and "below \<noteq> []"
  then have "\<exists>d \<in> set rest. kd_id d \<in> set below" by (cases "filter (\<lambda>d. \<exists>p \<in> set gone. kd_parent_id d = Some p) rest") (auto simp: filter_eq_Cons_iff)
  then have "length (filter (\<lambda>d. kd_id d \<notin> set below) rest) < length rest"
    by (auto intro: length_filter_less)
  then show "((below, rest), (gone, ds)) \<in> measure (\<lambda>(gone, ds). length (filter (\<lambda>d. kd_id d \<notin> set gone) ds))"
    using rest by simp
qed simp

declare cascade.simps [simp del]

definition unlink_missing :: "directory_row list \<Rightarrow> directory_row list \<Rightarrow> knowledge_file_row list \<Rightarrow> knowledge_file_row list" where
  "unlink_missing before after =
     sql_update (\<lambda>f. \<exists>d \<in> set before. kf_directory_id f = Some (kd_id d) \<and> kd_id d \<notin> set (map kd_id after))
       (\<lambda>f. f\<lparr>kf_directory_id := None\<rparr>)"

definition delete_directories :: "bool \<Rightarrow> (directory_row \<Rightarrow> bool) \<Rightarrow> knowledge_db \<Rightarrow> knowledge_db" where
  "delete_directories fk p db =
     (if fk
      then let left = cascade (map kd_id (filter p (kdb_directories db))) (kdb_directories db)
           in db\<lparr>kdb_directories := left, kdb_files := unlink_missing (kdb_directories db) left (kdb_files db)\<rparr>
      else db\<lparr>kdb_directories := sql_delete p (kdb_directories db)\<rparr>)"

subsection \<open>Reading\<close>

definition get_directory_by_id :: "string \<Rightarrow> directory_row list \<Rightarrow> directory_row option" where
  "get_directory_by_id i ds = find (\<lambda>d. kd_id d = i) ds"

text \<open>\<open>ORDER BY name\<close> is the collation of the database: \<open>rank\<close> is the place of a name in it.\<close>

definition get_directories :: "(string \<Rightarrow> int) \<Rightarrow> string \<Rightarrow> string option \<Rightarrow> directory_row list \<Rightarrow> directory_row list" where
  "get_directories rank knowledge_id parent_id ds =
     sort_key (\<lambda>d. rank (kd_name d))
       (filter (\<lambda>d. kd_knowledge_id d = knowledge_id \<and>
          (if parent_id \<noteq> None \<and> parent_id \<noteq> Some [] then kd_parent_id d = parent_id else kd_parent_id d = None)) ds)"

definition get_all_directories :: "(string \<Rightarrow> int) \<Rightarrow> string \<Rightarrow> directory_row list \<Rightarrow> directory_row list" where
  "get_all_directories rank knowledge_id ds =
     sort_key (\<lambda>d. rank (kd_name d)) (filter (\<lambda>d. kd_knowledge_id d = knowledge_id) ds)"

text \<open>The link of a directory, where the walk goes on; an empty identifier ends it.\<close>

definition up_from :: "directory_row list \<Rightarrow> string \<Rightarrow> string option" where
  "up_from ds k = (case get_directory_by_id k ds of None \<Rightarrow> None | Some d \<Rightarrow> kd_parent_id d)"

lemma get_directory_by_id_SomeD: "get_directory_by_id k ds = Some d \<Longrightarrow> d \<in> set ds \<and> kd_id d = k"
  unfolding get_directory_by_id_def by (drule find_SomeD) simp

lemma get_directory_in_ids: "get_directory_by_id k ds = Some d \<Longrightarrow> k \<in> kd_id ` set ds"
  by (auto dest: get_directory_by_id_SomeD)

function breadcrumbs_up :: "directory_row list \<Rightarrow> string set \<Rightarrow> string option \<Rightarrow> directory_row list" where
  "breadcrumbs_up ds seen current =
     (case current of
        None \<Rightarrow> []
      | Some k \<Rightarrow>
          if k = [] \<or> k \<in> seen then []
          else (case get_directory_by_id k ds of
                  None \<Rightarrow> []
                | Some d \<Rightarrow> d # breadcrumbs_up ds (insert k seen) (kd_parent_id d)))"
  by pat_completeness auto
termination
  by (relation "measure (\<lambda>(ds, seen, _). card (kd_id ` set ds - seen))")
    (auto intro!: card_insert_seen dest: get_directory_in_ids)

declare breadcrumbs_up.simps [simp del]

definition get_directory_breadcrumbs :: "string option \<Rightarrow> directory_row list \<Rightarrow> directory_row list" where
  "get_directory_breadcrumbs directory_id ds = rev (breadcrumbs_up ds {} directory_id)"

subsection \<open>Writing\<close>

definition create_directory ::
    "bool \<Rightarrow> string \<Rightarrow> int \<Rightarrow> string \<Rightarrow> string \<Rightarrow> string \<Rightarrow> string option \<Rightarrow> knowledge_db \<Rightarrow> knowledge_db \<times> directory_row option"
where
  "create_directory fk uuid now knowledge_id name user_id parent_id db =
     (let directory = \<lparr>kd_id = uuid, kd_knowledge_id = knowledge_id, kd_parent_id = parent_id, kd_name = name,
            kd_user_id = user_id, kd_created_at = now, kd_updated_at = now\<rparr>
      in commit_or fk db None (db\<lparr>kdb_directories := kdb_directories db @ [directory]\<rparr>) (Some directory))"

definition set_directory :: "string \<Rightarrow> (directory_row \<Rightarrow> directory_row) \<Rightarrow> knowledge_db \<Rightarrow> knowledge_db" where
  "set_directory i f db = db\<lparr>kdb_directories := sql_update (\<lambda>d. kd_id d = i) f (kdb_directories db)\<rparr>"

definition change_directory ::
    "bool \<Rightarrow> string \<Rightarrow> (directory_row \<Rightarrow> directory_row) \<Rightarrow> knowledge_db \<Rightarrow> knowledge_db \<times> directory_row option" where
  "change_directory fk directory_id f db =
     (let new = set_directory directory_id f db
      in commit_or fk db None new (get_directory_by_id directory_id (kdb_directories new)))"

definition rename_directory ::
    "bool \<Rightarrow> int \<Rightarrow> string \<Rightarrow> string \<Rightarrow> knowledge_db \<Rightarrow> knowledge_db \<times> directory_row option" where
  "rename_directory fk now directory_id name db =
     change_directory fk directory_id (\<lambda>d. d\<lparr>kd_name := name, kd_updated_at := now\<rparr>) db"

text \<open>The walk from the new parent upwards, looking for the directory that moves.\<close>

function would_create_cycle :: "directory_row list \<Rightarrow> string \<Rightarrow> string set \<Rightarrow> string option \<Rightarrow> bool" where
  "would_create_cycle ds directory_id seen current =
     (case current of
        None \<Rightarrow> False
      | Some k \<Rightarrow>
          if k = [] \<or> k \<in> seen then False
          else if k = directory_id then True
          else would_create_cycle ds directory_id (insert k seen) (up_from ds k))"
  by pat_completeness auto
termination
proof (relation "measure (\<lambda>(ds, _, seen, current). case current of None \<Rightarrow> 0 | Some k \<Rightarrow> Suc (card (kd_id ` set ds - seen)))")
  fix ds :: "directory_row list" and directory_id k :: string and seen :: "string set" and current
  assume current: "current = Some k" and "\<not> (k = [] \<or> k \<in> seen)" "k \<noteq> directory_id"
  show "((ds, directory_id, insert k seen, up_from ds k), (ds, directory_id, seen, current))
      \<in> measure (\<lambda>(ds, _, seen, current). case current of None \<Rightarrow> 0 | Some k \<Rightarrow> Suc (card (kd_id ` set ds - seen)))"
  proof (cases "get_directory_by_id k ds")
    case None
    then show ?thesis by (simp add: up_from_def current)
  next
    case (Some d)
    then have "card (kd_id ` set ds - insert k seen) < card (kd_id ` set ds - seen)"
      using \<open>\<not> (k = [] \<or> k \<in> seen)\<close> by (intro card_insert_seen) (auto dest: get_directory_in_ids)
    then show ?thesis by (auto simp: current split: option.split)
  qed
qed simp

declare would_create_cycle.simps [simp del]

definition move_directory ::
    "bool \<Rightarrow> int \<Rightarrow> string \<Rightarrow> string option \<Rightarrow> knowledge_db \<Rightarrow> knowledge_db \<times> directory_row option" where
  "move_directory fk now directory_id new_parent_id db =
     (if would_create_cycle (kdb_directories db) directory_id {} new_parent_id then (db, None)
      else change_directory fk directory_id (\<lambda>d. d\<lparr>kd_parent_id := new_parent_id, kd_updated_at := now\<rparr>) db)"

text \<open>\<open>update_directory\<close>: the parent is changed unless it is the marker of a field that was not given.\<close>

definition update_directory ::
    "bool \<Rightarrow> int \<Rightarrow> string \<Rightarrow> string option \<Rightarrow> string option \<Rightarrow> knowledge_db \<Rightarrow> knowledge_db \<times> directory_row option" where
  "update_directory fk now directory_id name parent_id db =
     (let (db, moved) =
            (if parent_id \<noteq> Some ''__unset__''
             then (let (db', result) = move_directory fk now directory_id parent_id db in (db', result \<noteq> None))
             else (db, True))
      in if \<not> moved then (db, None)
         else (case name of
                 Some n \<Rightarrow> rename_directory fk now directory_id n db
               | None \<Rightarrow> (db, get_directory_by_id directory_id (kdb_directories db))))"

subsection \<open>Deleting\<close>

text \<open>A loop that stops at the first exception, here \<open>None\<close>.\<close>

fun ofold :: "('a \<Rightarrow> 's \<Rightarrow> 's option) \<Rightarrow> 'a list \<Rightarrow> 's \<Rightarrow> 's option" where
  "ofold f [] s = Some s"
| "ofold f (x # xs) s = (case f x s of None \<Rightarrow> None | Some s' \<Rightarrow> ofold f xs s')"

definition child_ids :: "directory_row list \<Rightarrow> string \<Rightarrow> string list" where
  "child_ids ds i = map kd_id (filter (\<lambda>d. kd_parent_id d = Some i) ds)"

definition move_files :: "string \<Rightarrow> string option \<Rightarrow> knowledge_file_row list \<Rightarrow> knowledge_file_row list" where
  "move_files i target = sql_update (\<lambda>f. kf_directory_id f = Some i) (\<lambda>f. f\<lparr>kf_directory_id := target\<rparr>)"

fun move_files_from_subtree ::
    "nat \<Rightarrow> directory_row list \<Rightarrow> string option \<Rightarrow> string \<Rightarrow> knowledge_file_row list \<Rightarrow> knowledge_file_row list option" where
  "move_files_from_subtree 0 ds target i fs = None"
| "move_files_from_subtree (Suc limit) ds target i fs =
     ofold (\<lambda>child fs. move_files_from_subtree limit ds target child (move_files child target fs)) (child_ids ds i) fs"

fun delete_files_in_subtree ::
    "nat \<Rightarrow> directory_row list \<Rightarrow> string \<Rightarrow> knowledge_file_row list \<Rightarrow> knowledge_file_row list option" where
  "delete_files_in_subtree 0 ds i fs = None"
| "delete_files_in_subtree (Suc limit) ds i fs =
     ofold (\<lambda>child fs. delete_files_in_subtree limit ds child fs) (child_ids ds i)
       (sql_delete (\<lambda>f. kf_directory_id f = Some i) fs)"

definition delete_directory :: "bool \<Rightarrow> nat \<Rightarrow> string \<Rightarrow> bool \<Rightarrow> knowledge_db \<Rightarrow> knowledge_db \<times> bool" where
  "delete_directory fk limit directory_id move_files_to_parent db =
     (let ds = kdb_directories db in
      case get_directory_by_id directory_id ds of
        None \<Rightarrow> (db, False)
      | Some directory \<Rightarrow>
          (let parent_id = kd_parent_id directory in
           case (if move_files_to_parent
                 then move_files_from_subtree limit ds parent_id directory_id (move_files directory_id parent_id (kdb_files db))
                 else delete_files_in_subtree limit ds directory_id (kdb_files db)) of
             None \<Rightarrow> (db, False)
           | Some fs \<Rightarrow>
               commit_or fk db False (delete_directories fk (\<lambda>d. kd_id d = directory_id) (db\<lparr>kdb_files := fs\<rparr>)) True))"

subsection \<open>Files and whole knowledge bases\<close>

definition add_file_to_knowledge_by_id ::
    "bool \<Rightarrow> string \<Rightarrow> int \<Rightarrow> string \<Rightarrow> string \<Rightarrow> string \<Rightarrow> string option \<Rightarrow> knowledge_db
     \<Rightarrow> knowledge_db \<times> knowledge_file_row option"
where
  "add_file_to_knowledge_by_id fk uuid now knowledge_id file_id user_id directory_id db =
     (let row = \<lparr>kf_id = uuid, kf_knowledge_id = knowledge_id, kf_file_id = file_id, kf_directory_id = directory_id,
            kf_user_id = user_id, kf_created_at = now, kf_updated_at = now\<rparr>
      in commit_or fk db None (db\<lparr>kdb_files := kdb_files db @ [row]\<rparr>) (Some row))"

definition has_file :: "string \<Rightarrow> string \<Rightarrow> knowledge_db \<Rightarrow> bool" where
  "has_file knowledge_id file_id db =
     (find (\<lambda>f. kf_knowledge_id f = knowledge_id \<and> kf_file_id f = file_id) (kdb_files db) \<noteq> None)"

definition remove_file_from_knowledge_by_id :: "bool \<Rightarrow> string \<Rightarrow> string \<Rightarrow> knowledge_db \<Rightarrow> knowledge_db \<times> bool" where
  "remove_file_from_knowledge_by_id fk knowledge_id file_id db =
     commit_or fk db False
       (db\<lparr>kdb_files := sql_delete (\<lambda>f. kf_knowledge_id f = knowledge_id \<and> kf_file_id f = file_id) (kdb_files db)\<rparr>) True"

definition move_file_to_directory ::
    "bool \<Rightarrow> int \<Rightarrow> string \<Rightarrow> string \<Rightarrow> string option \<Rightarrow> knowledge_db \<Rightarrow> knowledge_db \<times> bool" where
  "move_file_to_directory fk now knowledge_id file_id directory_id db =
     commit_or fk db False
       (db\<lparr>kdb_files := sql_update (\<lambda>f. kf_knowledge_id f = knowledge_id \<and> kf_file_id f = file_id)
             (\<lambda>f. f\<lparr>kf_directory_id := directory_id, kf_updated_at := now\<rparr>) (kdb_files db)\<rparr>) True"

definition get_knowledge :: "string \<Rightarrow> knowledge_db \<Rightarrow> knowledge_row option" where
  "get_knowledge i db = find (\<lambda>k. kn_id k = i) (kdb_knowledge db)"

definition delete_files_of :: "string \<Rightarrow> knowledge_db \<Rightarrow> knowledge_db" where
  "delete_files_of knowledge_id db = db\<lparr>kdb_files := sql_delete (\<lambda>f. kf_knowledge_id f = knowledge_id) (kdb_files db)\<rparr>"

definition reset_knowledge_by_id ::
    "bool \<Rightarrow> int \<Rightarrow> string \<Rightarrow> bool \<Rightarrow> knowledge_db \<Rightarrow> knowledge_db \<times> knowledge_row option" where
  "reset_knowledge_by_id fk now i include_directories db =
     (let new = delete_files_of i db;
          new = (if include_directories then delete_directories fk (\<lambda>d. kd_knowledge_id d = i) new else new);
          (db, committed) = commit_or fk db False new True
      in if \<not> committed then (db, None)
         else let new = db\<lparr>kdb_knowledge := sql_update (\<lambda>k. kn_id k = i) (\<lambda>k. k\<lparr>kn_updated_at := now\<rparr>) (kdb_knowledge db)\<rparr>
              in commit_or fk db None new (get_knowledge i new))"

text \<open>
  Deleting a knowledge base first commits the deletion of its grants. With foreign keys its files and directories
  are deleted with it, and what is below those.
\<close>

definition delete_knowledge_row :: "bool \<Rightarrow> string \<Rightarrow> knowledge_db \<Rightarrow> knowledge_db" where
  "delete_knowledge_row fk i db =
     (let new = db\<lparr>kdb_knowledge := sql_delete (\<lambda>k. kn_id k = i) (kdb_knowledge db)\<rparr>
      in if fk then delete_directories fk (\<lambda>d. kd_knowledge_id d = i) (delete_files_of i new) else new)"

definition delete_knowledge_by_id :: "bool \<Rightarrow> string \<Rightarrow> knowledge_db \<Rightarrow> knowledge_db \<times> bool" where
  "delete_knowledge_by_id fk i db =
     (let db = db\<lparr>kdb_grants := fst (revoke_all_access ''knowledge'' i (kdb_grants db))\<rparr>
      in commit_or fk db False (delete_knowledge_row fk i db) True)"

subsection \<open>Endpoints\<close>

definition not_found :: py_error where
  "not_found = HTTPException 404 ''We could not find what you're looking for :/''"

definition is_external_knowledge :: "knowledge_row \<Rightarrow> bool" where
  "is_external_knowledge k = (dget (kn_meta k) ''source'' = PStr ''external'')"

definition verify_knowledge_write_access :: "string \<Rightarrow> user_row \<Rightarrow> knowledge_db \<Rightarrow> knowledge_row result" where
  "verify_knowledge_write_access i user db =
     (case get_knowledge i db of
        None \<Rightarrow> Inl not_found
      | Some k \<Rightarrow>
          if is_external_knowledge k then Inl (HTTPException 400 ''External knowledge bases are read-only.'')
          else if kn_user_id k \<noteq> u_id user
               \<and> \<not> has_access (u_id user) ''knowledge'' (kn_id k) ''write'' None (kdb_groups db) (kdb_grants db)
               \<and> u_role user \<noteq> ''admin''
          then Inl (HTTPException 403 (''You do not have permission to access this resource. '' @
                 ''Please contact your administrator for assistance.''))
          else Inr k)"

definition directory_in :: "string \<Rightarrow> string \<Rightarrow> knowledge_db \<Rightarrow> bool" where
  "directory_in i dir_id db =
     (case get_directory_by_id dir_id (kdb_directories db) of None \<Rightarrow> False | Some d \<Rightarrow> kd_knowledge_id d = i)"

definition create_knowledge_directory ::
    "bool \<Rightarrow> string \<Rightarrow> int \<Rightarrow> string \<Rightarrow> string \<Rightarrow> string option \<Rightarrow> user_row \<Rightarrow> knowledge_db \<Rightarrow> knowledge_db \<times> directory_row result"
where
  "create_knowledge_directory fk uuid now i name parent_id user db =
     (case verify_knowledge_write_access i user db of
        Inl e \<Rightarrow> (db, Inl e)
      | Inr _ \<Rightarrow>
          (case create_directory fk uuid now i name (u_id user) parent_id db of
             (db, None) \<Rightarrow> (db, Inl (HTTPException 400 (''Failed to create directory. '' @
                ''A directory with this name may already exist at this level.'')))
           | (db, Some directory) \<Rightarrow> (db, Inr directory)))"

definition update_knowledge_directory ::
    "bool \<Rightarrow> int \<Rightarrow> string \<Rightarrow> string \<Rightarrow> string option \<Rightarrow> string option \<Rightarrow> user_row \<Rightarrow> knowledge_db \<Rightarrow> knowledge_db \<times> directory_row result"
where
  "update_knowledge_directory fk now i dir_id name parent_id user db =
     (case verify_knowledge_write_access i user db of
        Inl e \<Rightarrow> (db, Inl e)
      | Inr _ \<Rightarrow>
          if \<not> directory_in i dir_id db then (db, Inl not_found)
          else (case update_directory fk now dir_id name parent_id db of
             (db, None) \<Rightarrow> (db, Inl (HTTPException 400 (''Failed to update directory. '' @
                ''This may be caused by a naming conflict or circular move.'')))
           | (db, Some directory) \<Rightarrow> (db, Inr directory)))"

definition delete_knowledge_directory ::
    "bool \<Rightarrow> nat \<Rightarrow> string \<Rightarrow> string \<Rightarrow> bool \<Rightarrow> user_row \<Rightarrow> knowledge_db \<Rightarrow> knowledge_db \<times> unit result"
where
  "delete_knowledge_directory fk limit i dir_id move user db =
     (case verify_knowledge_write_access i user db of
        Inl e \<Rightarrow> (db, Inl e)
      | Inr _ \<Rightarrow>
          if \<not> directory_in i dir_id db then (db, Inl not_found)
          else (case delete_directory fk limit dir_id move db of
                  (db, False) \<Rightarrow> (db, Inl (HTTPException 500 ''Failed to delete directory.''))
                | (db, True) \<Rightarrow> (db, Inr ())))"

definition move_file_in_knowledge ::
    "bool \<Rightarrow> int \<Rightarrow> string \<Rightarrow> string \<Rightarrow> string option \<Rightarrow> user_row \<Rightarrow> knowledge_db \<Rightarrow> knowledge_db \<times> unit result"
where
  "move_file_in_knowledge fk now i file_id directory_id user db =
     (case verify_knowledge_write_access i user db of
        Inl e \<Rightarrow> (db, Inl e)
      | Inr _ \<Rightarrow>
          if \<not> has_file i file_id db then (db, Inl not_found)
          else if (case directory_id of Some d \<Rightarrow> d \<noteq> [] \<and> \<not> directory_in i d db | None \<Rightarrow> False)
          then (db, Inl (HTTPException 404 ''Target directory not found.''))
          else (case move_file_to_directory fk now i file_id directory_id db of
                  (db, False) \<Rightarrow> (db, Inl (HTTPException 500 ''Failed to move file.''))
                | (db, True) \<Rightarrow> (db, Inr ())))"

text \<open>The loop of \<open>sync_knowledge_cleanup\<close> over the directories that a sync no longer needs.\<close>

definition cleanup_directories :: "bool \<Rightarrow> nat \<Rightarrow> string \<Rightarrow> string list \<Rightarrow> knowledge_db \<Rightarrow> knowledge_db" where
  "cleanup_directories fk limit i dir_ids db =
     fold (\<lambda>dir_id db. if directory_in i dir_id db then fst (delete_directory fk limit dir_id False db) else db)
       (rev dir_ids) db"

subsection \<open>The tree of directories\<close>

definition links :: "directory_row list \<Rightarrow> (string \<times> string) set" where
  "links ds = {(p, c). \<exists>d \<in> set ds. kd_parent_id d = Some p \<and> kd_id d = c}"

text \<open>Identifiers are distinct and not empty, and no directory is below itself.\<close>

definition forest_ok :: "directory_row list \<Rightarrow> bool" where
  "forest_ok ds = (distinct (map kd_id ds) \<and> [] \<notin> kd_id ` set ds \<and> acyclic (links ds))"

definition subtree :: "directory_row list \<Rightarrow> string \<Rightarrow> string set" where
  "subtree ds i = {c. (i, c) \<in> (links ds)\<^sup>*}"

lemma links_mono: "set ds \<subseteq> set es \<Longrightarrow> links ds \<subseteq> links es"
  by (auto simp: links_def)

lemma linksI: "d \<in> set ds \<Longrightarrow> kd_parent_id d = Some p \<Longrightarrow> (p, kd_id d) \<in> links ds"
  by (auto simp: links_def)

lemma links_in_ids: "(p, c) \<in> links ds \<Longrightarrow> c \<in> kd_id ` set ds"
  by (auto simp: links_def)

lemma links_star_in_ids: "(i, c) \<in> (links ds)\<^sup>* \<Longrightarrow> c \<noteq> i \<Longrightarrow> c \<in> kd_id ` set ds"
  by (induction rule: rtrancl_induct) (auto dest: links_in_ids)

lemma get_directory_unique:
  "distinct (map kd_id ds) \<Longrightarrow> d \<in> set ds \<Longrightarrow> get_directory_by_id (kd_id d) ds = Some d"
  unfolding get_directory_by_id_def by (rule find_unique)

lemma up_from_links: "distinct (map kd_id ds) \<Longrightarrow> up_from ds c = Some p \<longleftrightarrow> (p, c) \<in> links ds"
  by (auto simp: up_from_def links_def get_directory_unique dest: get_directory_by_id_SomeD split: option.splits)

text \<open>The search for a cycle finds the directory exactly when the new parent is in its subtree.\<close>

definition cycle_verdict :: "directory_row list \<Rightarrow> string \<Rightarrow> string \<Rightarrow> bool option" where
  "cycle_verdict ds i k =
     (if k = [] then Some False else if k = i then Some True
      else if get_directory_by_id k ds = None then Some False else None)"

interpretation moves: verdict_walk "cycle_verdict ds i" "up_from ds" False "\<lambda>seen k. would_create_cycle ds i seen (Some k)"
  for ds i
proof
  have "{k. cycle_verdict ds i k = None} \<subseteq> kd_id ` set ds"
    by (auto simp: cycle_verdict_def dest: get_directory_in_ids split: if_splits)
  then show "finite {k. cycle_verdict ds i k = None}" by (rule finite_subset) simp
next
  fix seen k and r assume "k \<notin> seen" "cycle_verdict ds i k = Some r"
  then show "would_create_cycle ds i seen (Some k) = r"
    by (subst would_create_cycle.simps, subst would_create_cycle.simps)
      (auto simp: cycle_verdict_def up_from_def split: if_splits option.splits)
qed (subst would_create_cycle.simps; auto simp: cycle_verdict_def would_create_cycle.simps [of _ _ _ None] split: if_splits)+

lemma would_create_cycle_iff:
  assumes "forest_ok ds" "i \<in> kd_id ` set ds" "n \<noteq> []"
  shows "would_create_cycle ds i {} (Some n) \<longleftrightarrow> n \<in> subtree ds i"
proof -
  let ?E = "\<lambda>x y. cycle_verdict ds i x = None \<and> up_from ds x = Some y"
  have d: "distinct (map kd_id ds)" and e: "[] \<notin> kd_id ` set ds"
    using assms(1) by (simp_all add: forest_ok_def)
  then have i: "i \<noteq> []" using assms(2) by blast
  have "would_create_cycle ds i {} (Some n) \<longleftrightarrow> (\<exists>x. ?E\<^sup>*\<^sup>* n x \<and> cycle_verdict ds i x = Some True)"
    using moves.walk_iff [of True ds i n] by simp
  also have "\<dots> \<longleftrightarrow> ?E\<^sup>*\<^sup>* n i"
    using i by (auto simp: cycle_verdict_def split: if_splits)
  also have "\<dots> \<longleftrightarrow> (i, n) \<in> (links ds)\<^sup>*"
  proof
    assume "?E\<^sup>*\<^sup>* n i"
    then show "(i, n) \<in> (links ds)\<^sup>*"
      by (induction rule: converse_rtranclp_induct) (auto simp: up_from_links [OF d] intro: rtrancl_into_rtrancl)
  next
    assume "(i, n) \<in> (links ds)\<^sup>*"
    then show "?E\<^sup>*\<^sup>* n i"
    proof (induction rule: rtrancl_induct)
      case (step y z)
      show ?case
      proof (cases "z = i")
        case False
        obtain r where r: "r \<in> set ds" "z = kd_id r" using step.hyps by (blast dest: links_in_ids)
        then have "z \<noteq> []" "get_directory_by_id z ds = Some r"
          using d e get_directory_unique by blast+
        then have "cycle_verdict ds i z = None" using False by (simp add: cycle_verdict_def)
        moreover have "up_from ds z = Some y" using step.hyps by (simp add: up_from_links [OF d])
        ultimately show ?thesis using step.IH by (auto intro: converse_rtranclp_into_rtranclp)
      qed simp
    qed simp
  qed
  finally show ?thesis by (simp add: subtree_def)
qed

lemma would_create_cycle_empty [simp]: "would_create_cycle ds i seen (Some []) = False"
  by (simp add: would_create_cycle.simps)

lemma forest_ok_subset:
  assumes "forest_ok es" "set ds \<subseteq> set es" "distinct (map kd_id ds)"
  shows "forest_ok ds"
  using assms links_mono [OF assms(2)] by (auto simp: forest_ok_def intro: acyclic_subset)

lemma forest_ok_cong:
  assumes "forest_ok es" "map (\<lambda>d. (kd_id d, kd_parent_id d)) ds = map (\<lambda>d. (kd_id d, kd_parent_id d)) es"
  shows "forest_ok ds"
proof -
  have ids: "map kd_id ds = map kd_id es"
    using arg_cong [OF assms(2), of "map fst"] by (simp add: comp_def)
  have "(\<lambda>d. (kd_id d, kd_parent_id d)) ` set ds = (\<lambda>d. (kd_id d, kd_parent_id d)) ` set es"
    using arg_cong [OF assms(2), of set] by simp
  moreover have "links xs = {(p, c). (c, Some p) \<in> (\<lambda>d. (kd_id d, kd_parent_id d)) ` set xs}" for xs
    by (auto simp: links_def)
  ultimately have "links ds = links es" by simp
  moreover have "kd_id ` set ds = kd_id ` set es" using ids by (metis list.set_map)
  ultimately show ?thesis using assms(1) ids by (simp add: forest_ok_def)
qed

lemma forest_ok_moved:
  assumes "forest_ok ds" "\<not> would_create_cycle ds i {} n"
    and f: "\<And>d. kd_id (f d) = kd_id d" "\<And>d. kd_parent_id (f d) = n"
  shows "forest_ok (sql_update (\<lambda>d. kd_id d = i) f ds)"
proof -
  let ?ds = "sql_update (\<lambda>d. kd_id d = i) f ds"
  have ids: "map kd_id ?ds = map kd_id ds" by (rule map_sql_update) (simp add: f)
  have sub: "links ?ds \<subseteq> (case n of None \<Rightarrow> links ds | Some k \<Rightarrow> if i \<in> kd_id ` set ds then insert (k, i) (links ds) else links ds)"
    by (auto simp: links_def set_sql_update f split: option.splits)
  have "acyclic (links ?ds)"
  proof (cases "\<exists>k. n = Some k \<and> i \<in> kd_id ` set ds")
    case True
    then obtain k where k: "n = Some k" "i \<in> kd_id ` set ds" by blast
    have "(i, k) \<notin> (links ds)\<^sup>*"
    proof (cases "k = []")
      case True
      then show ?thesis using assms(1) k(2) links_star_in_ids [of i "[]" ds] by (auto simp: forest_ok_def)
    next
      case False
      then show ?thesis using would_create_cycle_iff [OF assms(1) k(2) False] assms(2) k(1) by (simp add: subtree_def)
    qed
    then have "acyclic (insert (k, i) (links ds))" using assms(1) by (simp add: forest_ok_def)
    then show ?thesis using sub k by (auto intro: acyclic_subset)
  next
    case False
    then have "links ?ds \<subseteq> links ds" using sub by (auto split: option.splits)
    then show ?thesis using assms(1) by (auto simp: forest_ok_def intro: acyclic_subset)
  qed
  then show ?thesis using assms(1) ids unfolding forest_ok_def by (metis list.set_map)
qed

lemma forest_ok_added:
  assumes "forest_ok ds" "kd_id d \<notin> kd_id ` set ds" "kd_id d \<noteq> []" "Some (kd_id d) \<notin> kd_parent_id ` set ds"
    "kd_parent_id d \<noteq> Some (kd_id d)"
  shows "forest_ok (ds @ [d])"
proof -
  have new: "links (ds @ [d]) = (case kd_parent_id d of None \<Rightarrow> links ds | Some p \<Rightarrow> insert (p, kd_id d) (links ds))"
    by (auto simp: links_def split: option.split)
  have "(kd_id d, x) \<in> (links ds)\<^sup>* \<Longrightarrow> x = kd_id d" for x
    by (induction rule: rtrancl_induct) (use assms(4) in \<open>force simp: links_def\<close>)+
  then have "acyclic (links (ds @ [d]))"
    using assms by (auto simp: new forest_ok_def split: option.split)
  then show ?thesis using assms by (auto simp: forest_ok_def)
qed

subsection \<open>What the recursions do to the files of a subtree\<close>

definition moved :: "string set \<Rightarrow> string option \<Rightarrow> knowledge_file_row list \<Rightarrow> knowledge_file_row list" where
  "moved S target = sql_update (\<lambda>f. kf_directory_id f \<in> Some ` S) (\<lambda>f. f\<lparr>kf_directory_id := target\<rparr>)"

definition below :: "directory_row list \<Rightarrow> string \<Rightarrow> string set" where
  "below ds i = {c. (i, c) \<in> (links ds)\<^sup>+}"

lemma set_child_ids: "set (child_ids ds i) = {c. (i, c) \<in> links ds}"
  by (auto simp: child_ids_def links_def)

lemma subtree_below: "subtree ds i = insert i (below ds i)"
  by (auto simp: subtree_def below_def rtrancl_eq_or_trancl)

lemma below_children: "below ds i = (\<Union>c \<in> set (child_ids ds i). subtree ds c)"
  by (auto simp: below_def subtree_def set_child_ids dest: tranclD intro: rtrancl_into_trancl2)

lemma below_in_ids: "below ds i \<subseteq> kd_id ` set ds"
  by (auto simp: below_def dest: tranclD2 links_in_ids)

lemma below_smaller:
  assumes "acyclic (links ds)" "c \<in> set (child_ids ds i)"
  shows "card (below ds c) < card (below ds i)"
proof (rule psubset_card_mono)
  show "finite (below ds i)" using below_in_ids by (rule finite_subset) simp
  have "c \<in> below ds i" "c \<notin> below ds c"
    using assms by (auto simp: below_def set_child_ids acyclic_def)
  moreover have "below ds c \<subseteq> below ds i"
    using assms(2) by (auto simp: below_def set_child_ids intro: trancl_into_trancl2)
  ultimately show "below ds c \<subset> below ds i" by blast
qed

lemma moved_moved: "moved S t (moved T t fs) = moved (S \<union> T) t fs"
  by (auto simp: moved_def sql_update_def)

lemma moved_none [simp]: "moved {} t fs = fs"
  by (simp add: moved_def sql_update_def)

lemma move_files_moved: "move_files i t fs = moved {i} t fs"
  by (simp add: move_files_def moved_def)

lemma ofold_union:
  assumes "\<And>c fs. c \<in> set cs \<Longrightarrow> f c fs = Some (g (S c) fs)"
    and "\<And>A B fs. g B (g A fs) = g (A \<union> B) fs" and "\<And>fs. g {} fs = fs"
  shows "ofold f cs fs = Some (g (\<Union>c \<in> set cs. S c) fs)"
  using assms(1) by (induction cs arbitrary: fs) (simp_all add: assms(2, 3))

lemma move_files_from_subtree_result:
  assumes "acyclic (links ds)" "card (below ds i) < limit"
  shows "move_files_from_subtree limit ds t i fs = Some (moved (below ds i) t fs)"
  using assms(2)
proof (induction limit arbitrary: i fs)
  case (Suc limit)
  have "move_files_from_subtree limit ds t c (move_files c t fs) = Some (moved (subtree ds c) t fs)"
    if "c \<in> set (child_ids ds i)" for c fs
    using Suc.IH [of c "move_files c t fs"] below_smaller [OF assms(1) that] Suc.prems
    by (simp add: move_files_moved moved_moved subtree_below)
  then have "ofold (\<lambda>child fs. move_files_from_subtree limit ds t child (move_files child t fs)) (child_ids ds i) fs
      = Some (moved (\<Union>c \<in> set (child_ids ds i). subtree ds c) t fs)"
    by (intro ofold_union [where g = "\<lambda>S. moved S t"]) (simp_all add: moved_moved Un_commute)
  then show ?case by (simp add: below_children)
qed simp

definition without :: "string set \<Rightarrow> knowledge_file_row list \<Rightarrow> knowledge_file_row list" where
  "without S = sql_delete (\<lambda>f. kf_directory_id f \<in> Some ` S)"

lemma without_without: "without B (without A fs) = without (A \<union> B) fs"
  by (simp add: without_def sql_delete_def filter_filter) (rule filter_cong, auto)

lemma without_none [simp]: "without {} fs = fs"
  by (simp add: without_def sql_delete_def)

lemma delete_files_in_subtree_result:
  assumes "acyclic (links ds)" "card (below ds i) < limit"
  shows "delete_files_in_subtree limit ds i fs = Some (without (subtree ds i) fs)"
  using assms(2)
proof (induction limit arbitrary: i fs)
  case (Suc limit)
  have "delete_files_in_subtree limit ds c fs = Some (without (subtree ds c) fs)"
    if "c \<in> set (child_ids ds i)" for c fs
    using Suc.IH [of c fs] below_smaller [OF assms(1) that] Suc.prems by simp
  then have "ofold (delete_files_in_subtree limit ds) (child_ids ds i) (without {i} fs)
      = Some (without (\<Union>c \<in> set (child_ids ds i). subtree ds c) (without {i} fs))"
    by (intro ofold_union [where g = without]) (simp_all add: without_without)
  moreover have "sql_delete (\<lambda>f. kf_directory_id f = Some i) fs = without {i} fs"
    by (simp add: without_def)
  moreover have "subtree ds i = {i} \<union> (\<Union>c \<in> set (child_ids ds i). subtree ds c)"
    unfolding subtree_below [of ds i] below_children by simp
  ultimately show ?case by (simp add: without_without)
qed simp

subsection \<open>What a cascade deletes\<close>

lemma reached_from_below:
  assumes "(g, x) \<in> (links ds)\<^sup>*" "g \<in> set gone" "x \<notin> set gone"
  shows "\<exists>c p. p \<in> set gone \<and> c \<notin> set gone \<and> (p, c) \<in> links ds
    \<and> (c, x) \<in> (links (filter (\<lambda>d. kd_id d \<notin> set gone) ds))\<^sup>*"
  using assms
proof (induction rule: rtrancl_induct)
  case (step y z)
  have z: "(y, z) \<in> links (filter (\<lambda>d. kd_id d \<notin> set gone) ds)"
    using step.hyps(2) step.prems by (auto simp: links_def)
  show ?case
  proof (cases "y \<in> set gone")
    case True
    then show ?thesis using step.hyps(2) step.prems by blast
  next
    case False
    then show ?thesis using step.IH step.prems z by (blast intro: rtrancl_into_rtrancl)
  qed
qed simp

lemma cascade_result: "cascade gone ds = filter (\<lambda>d. kd_id d \<notin> (links ds)\<^sup>* `` set gone) ds"
proof (induction gone ds rule: cascade.induct)
  case (1 gone ds)
  define rest where "rest = filter (\<lambda>d. kd_id d \<notin> set gone) ds"
  define next_ids where "next_ids = map kd_id (filter (\<lambda>d. \<exists>p \<in> set gone. kd_parent_id d = Some p) rest)"
  have n: "set next_ids = {c. c \<notin> set gone \<and> (\<exists>p \<in> set gone. (p, c) \<in> links ds)}"
    by (auto simp: next_ids_def rest_def links_def)
  have sub: "(links rest)\<^sup>* \<subseteq> (links ds)\<^sup>*" by (intro rtrancl_mono links_mono) (auto simp: rest_def)
  have iff: "x \<in> (links ds)\<^sup>* `` set gone \<longleftrightarrow> x \<in> (links rest)\<^sup>* `` set next_ids" if "x \<notin> set gone" for x
  proof
    assume "x \<in> (links ds)\<^sup>* `` set gone"
    then show "x \<in> (links rest)\<^sup>* `` set next_ids"
      using reached_from_below [of _ x ds gone] that unfolding n rest_def by blast
  next
    assume "x \<in> (links rest)\<^sup>* `` set next_ids"
    then show "x \<in> (links ds)\<^sup>* `` set gone"
      using sub unfolding n by (blast intro: converse_rtrancl_into_rtrancl)
  qed
  have eq: "filter (\<lambda>d. kd_id d \<notin> (links ds)\<^sup>* `` set gone) ds = filter (\<lambda>d. kd_id d \<notin> (links rest)\<^sup>* `` set next_ids) rest"
    unfolding rest_def filter_filter
    by (rule filter_cong [OF refl]) (use iff in \<open>auto simp: rest_def\<close>)
  show ?case
  proof (cases "next_ids = []")
    case True
    then have "cascade gone ds = rest"
      by (subst cascade.simps) (simp add: Let_def rest_def next_ids_def)
    then show ?thesis unfolding eq using True by simp
  next
    case False
    then have "cascade gone ds = cascade next_ids rest"
      by (subst cascade.simps) (simp add: Let_def rest_def next_ids_def)
    also have "\<dots> = filter (\<lambda>d. kd_id d \<notin> (links rest)\<^sup>* `` set next_ids) rest"
      by (rule "1.IH" [OF rest_def next_ids_def False])
    finally show ?thesis unfolding eq .
  qed
qed

subsection \<open>Reachable states\<close>

text \<open>
  The constraints hold and the directories form a forest. A step is an operation of the table; a directory gets an
  identifier that occurs nowhere yet.
\<close>

definition knowledge_ok :: "bool \<Rightarrow> knowledge_db \<Rightarrow> bool" where
  "knowledge_ok fk db = (constraints_ok fk db \<and> forest_ok (kdb_directories db))"

definition fresh_directory_id :: "string \<Rightarrow> string option \<Rightarrow> directory_row list \<Rightarrow> bool" where
  "fresh_directory_id uuid parent_id ds =
     (uuid \<noteq> [] \<and> uuid \<notin> kd_id ` set ds \<and> Some uuid \<notin> kd_parent_id ` set ds \<and> parent_id \<noteq> Some uuid)"

inductive knowledge_step :: "bool \<Rightarrow> nat \<Rightarrow> knowledge_db \<Rightarrow> knowledge_db \<Rightarrow> bool" for fk limit where
  create: "fresh_directory_id uuid parent_id (kdb_directories db) \<Longrightarrow>
    knowledge_step fk limit db (fst (create_directory fk uuid now knowledge_id name user_id parent_id db))"
| update: "knowledge_step fk limit db (fst (update_directory fk now directory_id given_name parent_id db))"
| delete: "knowledge_step fk limit db (fst (delete_directory fk limit directory_id move db))"
| cleanup: "knowledge_step fk limit db (cleanup_directories fk limit i dir_ids db)"
| add_file: "knowledge_step fk limit db (fst (add_file_to_knowledge_by_id fk uuid now knowledge_id file_id user_id parent_id db))"
| remove_file: "knowledge_step fk limit db (fst (remove_file_from_knowledge_by_id fk knowledge_id file_id db))"
| move_file: "knowledge_step fk limit db (fst (move_file_to_directory fk now knowledge_id file_id parent_id db))"
| reset: "knowledge_step fk limit db (fst (reset_knowledge_by_id fk now i include_directories db))"
| delete_base: "knowledge_step fk limit db (fst (delete_knowledge_by_id fk i db))"

inductive knowledge_reachable :: "bool \<Rightarrow> nat \<Rightarrow> knowledge_db \<Rightarrow> knowledge_db \<Rightarrow> bool" for fk limit start where
  start: "knowledge_reachable fk limit start start"
| step: "knowledge_reachable fk limit start db \<Longrightarrow> knowledge_step fk limit db db' \<Longrightarrow> knowledge_reachable fk limit start db'"

lemma commit_or_ok:
  assumes "knowledge_ok fk db" "forest_ok (kdb_directories new)"
  shows "knowledge_ok fk (fst (commit_or fk db failed new x))"
  using assms by (simp add: commit_or_def knowledge_ok_def)

lemma commit_or_keeps:
  assumes "knowledge_ok fk db" "kdb_directories new = kdb_directories db"
  shows "knowledge_ok fk (fst (commit_or fk db failed new x))"
  using assms by (intro commit_or_ok) (simp_all add: knowledge_ok_def)

lemma forest_ok_filter: "forest_ok ds \<Longrightarrow> forest_ok (filter p ds)"
  by (rule forest_ok_subset) (auto simp: forest_ok_def distinct_map_filter)

lemma directories_deleted:
  "kdb_directories (delete_directories fk p db) = filter (\<lambda>d. \<not> (if fk
     then kd_id d \<in> (links (kdb_directories db))\<^sup>* `` set (map kd_id (filter p (kdb_directories db))) else p d))
     (kdb_directories db)"
  by (simp add: delete_directories_def cascade_result sql_delete_def Let_def)

lemma forest_ok_deleted: "forest_ok (kdb_directories db) \<Longrightarrow> forest_ok (kdb_directories (delete_directories fk p db))"
  unfolding directories_deleted by (rule forest_ok_filter)

lemma change_directory_ok:
  assumes "knowledge_ok fk db" "forest_ok (sql_update (\<lambda>d. kd_id d = i) f (kdb_directories db))"
  shows "knowledge_ok fk (fst (change_directory fk i f db))"
  using assms by (simp add: change_directory_def Let_def set_directory_def commit_or_ok)

lemma create_directory_ok:
  assumes "knowledge_ok fk db" "fresh_directory_id uuid parent_id (kdb_directories db)"
  shows "knowledge_ok fk (fst (create_directory fk uuid now knowledge_id name user_id parent_id db))"
  using assms unfolding create_directory_def Let_def
  by (intro commit_or_ok) (auto simp: knowledge_ok_def fresh_directory_id_def intro!: forest_ok_added)

lemma rename_directory_ok:
  assumes "knowledge_ok fk db"
  shows "knowledge_ok fk (fst (rename_directory fk now i name db))"
  unfolding rename_directory_def
proof (rule change_directory_ok [OF assms], rule forest_ok_cong)
  show "forest_ok (kdb_directories db)" using assms by (simp add: knowledge_ok_def)
qed (simp add: sql_update_def)

lemma move_directory_ok:
  assumes "knowledge_ok fk db"
  shows "knowledge_ok fk (fst (move_directory fk now i n db))"
  using assms unfolding move_directory_def
  by (auto simp: knowledge_ok_def [of fk db] intro!: change_directory_ok forest_ok_moved)

lemma update_directory_ok:
  assumes "knowledge_ok fk db"
  shows "knowledge_ok fk (fst (update_directory fk now i name parent_id db))"
  using assms move_directory_ok [OF assms, of now i parent_id] rename_directory_ok
  by (auto simp: update_directory_def Let_def split: prod.splits option.splits)

lemma delete_directory_ok:
  assumes "knowledge_ok fk db"
  shows "knowledge_ok fk (fst (delete_directory fk limit i move db))"
  using assms unfolding delete_directory_def Let_def
  by (auto simp: knowledge_ok_def [of fk db] split: option.split intro!: commit_or_ok forest_ok_deleted)

lemma cleanup_directories_ok:
  assumes "knowledge_ok fk db"
  shows "knowledge_ok fk (cleanup_directories fk limit i dir_ids db)"
proof -
  have "knowledge_ok fk (fold (\<lambda>dir_id db. if directory_in i dir_id db then fst (delete_directory fk limit dir_id False db) else db) xs db)" for xs
    using assms by (induction xs arbitrary: db) (auto intro: delete_directory_ok)
  then show ?thesis by (simp add: cleanup_directories_def)
qed

lemma reset_ok:
  assumes "knowledge_ok fk db"
  shows "knowledge_ok fk (fst (reset_knowledge_by_id fk now i dirs db))"
proof -
  let ?new = "if dirs then delete_directories fk (\<lambda>d. kd_knowledge_id d = i) (delete_files_of i db) else delete_files_of i db"
  have "forest_ok (kdb_directories (delete_files_of i db))" using assms by (simp add: delete_files_of_def knowledge_ok_def)
  then have "knowledge_ok fk (fst (commit_or fk db False ?new True))"
    using assms by (auto intro!: commit_or_ok forest_ok_deleted)
  then show ?thesis
    by (auto simp: reset_knowledge_by_id_def Let_def split: prod.split intro!: commit_or_keeps)
qed

lemma delete_base_ok:
  assumes "knowledge_ok fk db"
  shows "knowledge_ok fk (fst (delete_knowledge_by_id fk i db))"
proof -
  have "knowledge_ok fk (db\<lparr>kdb_grants := gs\<rparr>)" for gs
    using assms by (simp add: knowledge_ok_def constraints_ok_def references_ok_def)
  moreover have "forest_ok (kdb_directories (delete_knowledge_row fk i (db\<lparr>kdb_grants := gs\<rparr>)))" for gs
    using assms by (auto simp: delete_knowledge_row_def Let_def knowledge_ok_def delete_files_of_def intro!: forest_ok_deleted)
  ultimately show ?thesis by (simp add: delete_knowledge_by_id_def Let_def commit_or_ok)
qed

lemma knowledge_step_ok: "knowledge_step fk limit db db' \<Longrightarrow> knowledge_ok fk db \<Longrightarrow> knowledge_ok fk db'"
  by (induction rule: knowledge_step.induct)
    (simp_all add: create_directory_ok update_directory_ok delete_directory_ok cleanup_directories_ok reset_ok delete_base_ok
      add_file_to_knowledge_by_id_def remove_file_from_knowledge_by_id_def move_file_to_directory_def Let_def commit_or_keeps)

lemma knowledge_reachable_ok: "knowledge_reachable fk limit start db \<Longrightarrow> knowledge_ok fk start \<Longrightarrow> knowledge_ok fk db"
  by (induction rule: knowledge_reachable.induct) (auto intro: knowledge_step_ok)

subsection \<open>Deleting a directory succeeds\<close>

lemma sql_update_idle: "\<forall>r \<in> set t. \<not> p r \<Longrightarrow> sql_update p f t = t"
  by (simp add: sql_update_def map_idI)

lemma parent_not_in_subtree:
  assumes "forest_ok ds" "get_directory_by_id i ds = Some d"
  shows "kd_parent_id d \<notin> Some ` subtree ds i"
proof
  assume "kd_parent_id d \<in> Some ` subtree ds i"
  then obtain p where p: "kd_parent_id d = Some p" "(i, p) \<in> (links ds)\<^sup>*" by (auto simp: subtree_def)
  then have "(p, i) \<in> links ds" using get_directory_by_id_SomeD [OF assms(2)] linksI by blast
  with p(2) have "(i, i) \<in> (links ds)\<^sup>+" by (rule rtrancl_into_trancl1)
  then show False using assms(1) by (simp add: forest_ok_def acyclic_def)
qed

lemma subtree_up_closed: "(p, c) \<in> links ds \<Longrightarrow> c \<notin> subtree ds i \<Longrightarrow> p \<notin> subtree ds i"
  by (auto simp: subtree_def intro: rtrancl_into_rtrancl)

definition files_after :: "bool \<Rightarrow> string set \<Rightarrow> string option \<Rightarrow> knowledge_file_row list \<Rightarrow> knowledge_file_row list" where
  "files_after move S target fs = (if move then moved S target fs else without S fs)"

lemma files_after_unique: "files_unique fs \<Longrightarrow> files_unique (files_after move S t fs)"
  by (simp add: files_unique_def files_after_def moved_def without_def map_sql_update distinct_map_sql_delete)

lemma files_after_outside:
  assumes "t \<notin> Some ` S" "f \<in> set (files_after move S t fs)"
  shows "kf_directory_id f \<notin> Some ` S"
  using assms by (auto simp: files_after_def moved_def without_def set_sql_update split: if_splits)

lemma files_after_directory:
  assumes "f \<in> set (files_after move S t fs)"
  obtains f' where "f' \<in> set fs" "kf_knowledge_id f = kf_knowledge_id f'" "kf_file_id f = kf_file_id f'"
    "kf_directory_id f = kf_directory_id f' \<or> kf_directory_id f = t"
  using assms by (auto simp: files_after_def moved_def without_def set_sql_update split: if_splits)

lemma directories_unique_filter: "directories_unique ds \<Longrightarrow> directories_unique (filter p ds)"
proof -
  have "filter (\<lambda>d. kd_parent_id d \<noteq> None) (filter p ds) = filter p (filter (\<lambda>d. kd_parent_id d \<noteq> None) ds)"
    unfolding filter_filter by (rule filter_cong) auto
  then show "directories_unique ds \<Longrightarrow> directories_unique (filter p ds)"
    unfolding directories_unique_def by (metis distinct_map_filter)
qed

lemma delete_directory_files:
  assumes "forest_ok (kdb_directories db)" "get_directory_by_id i (kdb_directories db) = Some d"
    and "length (kdb_directories db) \<le> limit"
  shows "(if move then move_files_from_subtree limit (kdb_directories db) (kd_parent_id d) i (move_files i (kd_parent_id d) fs)
          else delete_files_in_subtree limit (kdb_directories db) i fs)
       = Some (files_after move (subtree (kdb_directories db) i) (kd_parent_id d) fs)"
proof -
  let ?ds = "kdb_directories db"
  have a: "acyclic (links ?ds)" using assms(1) by (simp add: forest_ok_def)
  then have "i \<notin> below ?ds i" by (simp add: below_def acyclic_def)
  then have "below ?ds i \<subset> kd_id ` set ?ds"
    using below_in_ids get_directory_in_ids [OF assms(2)] by blast
  then have "card (below ?ds i) < card (kd_id ` set ?ds)" by (intro psubset_card_mono) auto
  also have "\<dots> \<le> limit" using assms(3) card_image_le [of "set ?ds" kd_id] card_length [of ?ds] by auto
  finally have "card (below ?ds i) < limit" .
  then show ?thesis
    using move_files_from_subtree_result [OF a] delete_files_in_subtree_result [OF a]
    by (simp add: files_after_def move_files_moved moved_moved subtree_below)
qed

text \<open>
  C12. A directory that exists can be deleted, when the interpreter can recurse as deep as there are directories:
  the recursion over its subtree ends. The files of the whole subtree move to its parent, or are deleted; no other
  file changes. With foreign keys the whole subtree of directories is gone; without them only the directory itself
  is, and what was below it stays behind without a parent.
\<close>

theorem delete_directory_takes_its_files:
  assumes "knowledge_ok fk db" "get_directory_by_id i (kdb_directories db) = Some d"
    and "length (kdb_directories db) \<le> limit"
  shows "\<exists>db'. delete_directory fk limit i move db = (db', True)
       \<and> kdb_files db' = files_after move (subtree (kdb_directories db) i) (kd_parent_id d) (kdb_files db)
       \<and> kdb_directories db' = filter (\<lambda>r. if fk then kd_id r \<notin> subtree (kdb_directories db) i else kd_id r \<noteq> i)
             (kdb_directories db)"
proof -
  define S where "S = subtree (kdb_directories db) i"
  let ?ds = "kdb_directories db" and ?fs = "files_after move S (kd_parent_id d) (kdb_files db)"
  define new where "new = delete_directories fk (\<lambda>r. kd_id r = i) (db\<lparr>kdb_files := ?fs\<rparr>)"
  have t: "forest_ok ?ds" and c: "constraints_ok fk db" using assms(1) by (simp_all add: knowledge_ok_def)
  have d: "d \<in> set ?ds" "kd_id d = i" using get_directory_by_id_SomeD [OF assms(2)] by simp_all
  have out: "\<forall>f \<in> set ?fs. kf_directory_id f \<notin> Some ` S"
    using files_after_outside parent_not_in_subtree [OF t assms(2)] unfolding S_def by blast
  have "map kd_id (filter (\<lambda>r. kd_id r = i) ?ds) \<noteq> [] \<and> set (map kd_id (filter (\<lambda>r. kd_id r = i) ?ds)) = {i}"
    using d by (auto simp: filter_empty_conv)
  then have dirs: "kdb_directories new = filter (\<lambda>r. if fk then kd_id r \<notin> S else kd_id r \<noteq> i) ?ds"
    by (simp add: new_def directories_deleted S_def subtree_def Image_singleton)
  have files: "kdb_files new = ?fs"
  proof (cases fk)
    case True
    have "unlink_missing ?ds (kdb_directories new) ?fs = ?fs"
      unfolding unlink_missing_def
    proof (rule sql_update_idle, intro ballI notI, elim bexE conjE)
      fix f r
      assume "f \<in> set ?fs" "r \<in> set ?ds" "kf_directory_id f = Some (kd_id r)" "kd_id r \<notin> set (map kd_id (kdb_directories new))"
      then show False using out True by (auto simp: dirs)
    qed
    then show ?thesis using True by (simp add: new_def delete_directories_def Let_def)
  qed (simp add: new_def delete_directories_def)
  have same: "kdb_knowledge new = kdb_knowledge db" "kdb_file_ids new = kdb_file_ids db"
    by (simp_all add: new_def delete_directories_def Let_def)
  have "references_ok new" if fk
  proof -
    have r: "references_ok db" using c that by (simp add: constraints_ok_def)
    have "present_in (map kd_id (kdb_directories new)) (kd_parent_id x)" if "x \<in> set (kdb_directories new)" for x
    proof (cases "kd_parent_id x")
      case (Some p)
      have x: "x \<in> set ?ds" "kd_id x \<notin> S" using that \<open>fk\<close> by (auto simp: dirs)
      then have "p \<in> kd_id ` set ?ds" using r Some by (force simp: references_ok_def present_in_def)
      moreover have "p \<notin> S" using subtree_up_closed [OF linksI [OF x(1) Some]] x(2) by (simp add: S_def)
      ultimately show ?thesis using Some \<open>fk\<close> by (auto simp: dirs present_in_def)
    qed (simp add: present_in_def)
    moreover have "present_in (map kd_id (kdb_directories new)) (kf_directory_id f)" if f: "f \<in> set ?fs" for f
    proof -
      have "present_in (map kd_id ?ds) (kd_parent_id d)" using r d by (auto simp: references_ok_def)
      then have "present_in (map kd_id ?ds) (kf_directory_id f)"
        using f r by (auto elim!: files_after_directory simp: references_ok_def)
      then show ?thesis using out f \<open>fk\<close> by (auto simp: dirs present_in_def split: option.splits)
    qed
    moreover have "kf_knowledge_id f \<in> set (map kn_id (kdb_knowledge db)) \<and> kf_file_id f \<in> set (kdb_file_ids db)"
      if "f \<in> set ?fs" for f
      using that r by (auto elim!: files_after_directory simp: references_ok_def)
    moreover have "kd_knowledge_id x \<in> set (map kn_id (kdb_knowledge db))" if "x \<in> set (kdb_directories new)" for x
      using that r by (auto simp: dirs references_ok_def)
    ultimately show ?thesis unfolding references_ok_def files same by blast
  qed
  then have "constraints_ok fk new"
    using c unfolding constraints_ok_def files same dirs
    by (auto simp: files_after_unique directories_unique_filter)
  then have "delete_directory fk limit i move db = (new, True)"
    unfolding delete_directory_def Let_def assms(2) option.case delete_directory_files [OF t assms(2, 3)]
    by (simp add: commit_or_def new_def S_def)
  then show ?thesis using files dirs by (auto simp: S_def)
qed

definition sample_db :: knowledge_db where
  "sample_db =
     (let dir = \<lambda>i p n. \<lparr>kd_id = i, kd_knowledge_id = ''k'', kd_parent_id = p, kd_name = n, kd_user_id = ''u'',
                       kd_created_at = 0, kd_updated_at = 0\<rparr>;
          file = \<lambda>i d. \<lparr>kf_id = i, kf_knowledge_id = ''k'', kf_file_id = i, kf_directory_id = d, kf_user_id = ''u'',
                       kf_created_at = 0, kf_updated_at = 0\<rparr>
      in \<lparr>kdb_knowledge = [\<lparr>kn_id = ''k'', kn_user_id = ''u'', kn_meta = [], kn_updated_at = 0\<rparr>],
          kdb_directories = [dir ''a'' None ''docs'', dir ''b'' (Some ''a'') ''api'', dir ''c'' (Some ''b'') ''v1''],
          kdb_files = [file ''f'' (Some ''c''), file ''g'' None, file ''h'' (Some ''a'')],
          kdb_file_ids = [''f'', ''g'', ''h''], kdb_grants = [], kdb_groups = \<lparr>db_users = [], db_groups = [], db_members = [], db_fk = False\<rparr>\<rparr>)"

lemma forest_ok_by_rank:
  assumes "distinct (map kd_id ds)" "[] \<notin> kd_id ` set ds"
    and "\<forall>d \<in> set ds. case kd_parent_id d of None \<Rightarrow> True | Some p \<Rightarrow> (r p :: nat) < r (kd_id d)"
  shows "forest_ok ds"
proof -
  have "links ds \<subseteq> measure r" using assms(3) by (force simp: links_def)
  then have "acyclic (links ds)" using wf_acyclic [OF wf_measure] by (rule acyclic_subset [rotated])
  then show ?thesis using assms by (simp add: forest_ok_def)
qed

lemma sample_knowledge_ok: "knowledge_ok fk sample_db"
proof -
  have "constraints_ok True sample_db" by code_simp
  moreover have "forest_ok (kdb_directories sample_db)"
    by (rule forest_ok_by_rank [where r = "\<lambda>i. if i = ''a'' then 0 else if i = ''b'' then 1 else 2"]) (simp_all add: sample_db_def Let_def)
  ultimately show ?thesis by (auto simp: knowledge_ok_def constraints_ok_def)
qed

lemma delete_directory_takes_its_files_witness:
  "\<exists>db'. delete_directory False 3 ''b'' True sample_db = (db', True)
     \<and> map kf_directory_id (kdb_files db') = [Some ''a'', None, Some ''a'']
     \<and> map kd_id (kdb_directories db') = [''a'', ''c'']"
proof -
  obtain d where d: "get_directory_by_id ''b'' (kdb_directories sample_db) = Some d" "kd_parent_id d = Some ''a''"
    by (simp add: sample_db_def get_directory_by_id_def Let_def)
  have "length (kdb_directories sample_db) \<le> 3" by (simp add: sample_db_def Let_def)
  from delete_directory_takes_its_files [OF sample_knowledge_ok d(1) this, of False True] obtain db' where
    r: "delete_directory False 3 ''b'' True sample_db = (db', True)"
    and files: "kdb_files db' = files_after True (subtree (kdb_directories sample_db) ''b'') (kd_parent_id d) (kdb_files sample_db)"
    and dirs: "kdb_directories db' = filter (\<lambda>r. kd_id r \<noteq> ''b'') (kdb_directories sample_db)"
    by auto
  have links: "links (kdb_directories sample_db) = {(''a'', ''b''), (''b'', ''c'')}"
    by (auto simp: links_def sample_db_def Let_def)
  have "''c'' \<in> subtree (kdb_directories sample_db) ''b''"
    unfolding subtree_def links by (rule CollectI, rule r_into_rtrancl) simp
  moreover have "''a'' \<notin> subtree (kdb_directories sample_db) ''b''"
    using parent_not_in_subtree [of "kdb_directories sample_db" "''b''" d] sample_knowledge_ok [of False] d
    by (auto simp: knowledge_ok_def)
  ultimately have f: "map kf_directory_id (kdb_files db') = [Some ''a'', None, Some ''a'']"
    unfolding files d(2) by (auto simp: files_after_def moved_def sql_update_def sample_db_def Let_def)
  have "map kd_id (kdb_directories db') = [''a'', ''c'']"
    unfolding dirs by (simp add: sample_db_def Let_def)
  then show ?thesis by (intro exI [of _ db'] conjI r f)
qed

text \<open>
  C10. Whatever is done to the directories of knowledge bases, they stay forests under distinct identifiers:
  creating, renaming, moving and deleting directories and files, resetting and deleting knowledge bases, in any
  order, with or without foreign keys, never put a directory below itself, and they keep every constraint.
\<close>

theorem directories_stay_forests:
  assumes "knowledge_ok fk start" "knowledge_reachable fk limit start db"
  shows "forest_ok (kdb_directories db) \<and> constraints_ok fk db"
  using knowledge_reachable_ok [OF assms(2, 1)] by (simp add: knowledge_ok_def)

lemma directories_stay_forests_witness:
  "let db' = fst (update_directory True 5 ''c'' None None sample_db); db = fst (update_directory True 6 ''a'' None (Some ''c'') db')
   in forest_ok (kdb_directories db) \<and> constraints_ok True db
      \<and> map kd_parent_id (kdb_directories db) = [Some ''c'', Some ''a'', None]"
proof -
  let ?db' = "fst (update_directory True 5 ''c'' None None sample_db)"
  let ?db = "fst (update_directory True 6 ''a'' None (Some ''c'') ?db')"
  have "knowledge_reachable True 3 sample_db ?db"
    by (rule knowledge_reachable.step [OF knowledge_reachable.step [OF knowledge_reachable.start knowledge_step.update]
          knowledge_step.update])
  then have "forest_ok (kdb_directories ?db) \<and> constraints_ok True ?db"
    by (rule directories_stay_forests [OF sample_knowledge_ok])
  moreover have "map kd_parent_id (kdb_directories ?db) = [Some ''c'', Some ''a'', None]" by code_simp
  ultimately show ?thesis by (simp add: Let_def)
qed

subsection \<open>Breadcrumbs\<close>

interpretation crumbs: list_walk "\<lambda>k. k \<noteq> [] \<and> get_directory_by_id k ds \<noteq> None" "up_from ds"
  "\<lambda>seen k. map kd_id (breadcrumbs_up ds seen (Some k))" for ds
proof
  have "{k. k \<noteq> [] \<and> get_directory_by_id k ds \<noteq> None} \<subseteq> kd_id ` set ds"
    by (auto dest: get_directory_in_ids)
  then show "finite {k. k \<noteq> [] \<and> get_directory_by_id k ds \<noteq> None}" by (rule finite_subset) simp
next
  fix seen k
  assume "k \<in> seen \<or> \<not> (k \<noteq> [] \<and> get_directory_by_id k ds \<noteq> None)"
  then show "map kd_id (breadcrumbs_up ds seen (Some k)) = []"
    by (subst breadcrumbs_up.simps) auto
next
  fix seen k
  assume "k \<notin> seen" "k \<noteq> [] \<and> get_directory_by_id k ds \<noteq> None"
  then show "map kd_id (breadcrumbs_up ds seen (Some k)) =
      k # (case up_from ds k of None \<Rightarrow> [] | Some k' \<Rightarrow> map kd_id (breadcrumbs_up ds (insert k seen) (Some k')))"
    by (subst breadcrumbs_up.simps)
      (auto simp: up_from_def breadcrumbs_up.simps [of _ _ None] dest: get_directory_by_id_SomeD split: option.split)
qed

lemma set_breadcrumbs_up: "set (breadcrumbs_up ds seen current) \<subseteq> set ds"
proof (induction ds seen current rule: breadcrumbs_up.induct)
  case (1 ds seen current)
  show ?case
  proof (cases "\<exists>k d. current = Some k \<and> k \<noteq> [] \<and> k \<notin> seen \<and> get_directory_by_id k ds = Some d")
    case True
    then obtain k d where k: "current = Some k" "k \<noteq> [] \<and> k \<notin> seen" "get_directory_by_id k ds = Some d" by blast
    then have "breadcrumbs_up ds seen current = d # breadcrumbs_up ds (insert k seen) (kd_parent_id d)"
      by (subst breadcrumbs_up.simps) simp
    then show ?thesis using 1 [OF k(1) _ k(3)] k(2) get_directory_by_id_SomeD [OF k(3)] by simp
  next
    case False
    then have "breadcrumbs_up ds seen current = []"
      by (subst breadcrumbs_up.simps) (auto split: option.split)
    then show ?thesis by simp
  qed
qed

lemma breadcrumbs_linked:
  assumes "distinct (map kd_id ds)" "Suc j < length (breadcrumbs_up ds {} (Some i))"
  shows "kd_parent_id (breadcrumbs_up ds {} (Some i) ! j) = Some (kd_id (breadcrumbs_up ds {} (Some i) ! Suc j))"
proof -
  let ?b = "breadcrumbs_up ds {} (Some i)"
  have "?b ! j \<in> set ds" using assms(2) set_breadcrumbs_up [of ds "{}" "Some i"] nth_mem [of j ?b] by auto
  then have "up_from ds (kd_id (?b ! j)) = kd_parent_id (?b ! j)"
    using assms(1) by (simp add: up_from_def get_directory_unique)
  then show ?thesis using crumbs.walk_linked [of j ds "{}" i] assms(2) by simp
qed

lemma breadcrumbs_chain:
  assumes "distinct (map kd_id ds)" "m \<le> n" "n < length (breadcrumbs_up ds {} (Some i))"
  shows "(kd_id (breadcrumbs_up ds {} (Some i) ! n), kd_id (breadcrumbs_up ds {} (Some i) ! m)) \<in> (links ds)\<^sup>*"
  using assms(2, 3)
proof (induction n rule: dec_induct)
  case (step n)
  let ?b = "breadcrumbs_up ds {} (Some i)"
  have "?b ! n \<in> set ds" using step.prems set_breadcrumbs_up [of ds "{}" "Some i"] nth_mem [of n ?b] by auto
  then have "(kd_id (?b ! Suc n), kd_id (?b ! n)) \<in> links ds"
    using breadcrumbs_linked [OF assms(1) step.prems] by (rule linksI)
  moreover have "(kd_id (?b ! n), kd_id (?b ! m)) \<in> (links ds)\<^sup>*" using step by simp
  ultimately show ?case by (rule converse_rtrancl_into_rtrancl)
qed simp

lemma breadcrumbs_top:
  assumes "forest_ok ds" "breadcrumbs_up ds {} (Some i) \<noteq> []" "kd_parent_id (last (breadcrumbs_up ds {} (Some i))) = Some p"
  shows "p \<notin> kd_id ` set ds"
proof
  let ?b = "breadcrumbs_up ds {} (Some i)"
  assume p: "p \<in> kd_id ` set ds"
  have d: "distinct (map kd_id ds)" and e: "[] \<notin> kd_id ` set ds" using assms(1) by (simp_all add: forest_ok_def)
  have top: "last ?b \<in> set ds" using assms(2) set_breadcrumbs_up [of ds "{}" "Some i"] by auto
  then have "up_from ds (kd_id (last ?b)) = Some p" using d assms(3) by (simp add: up_from_def get_directory_unique)
  moreover have "p \<noteq> [] \<and> get_directory_by_id p ds \<noteq> None" using p d e get_directory_unique by blast
  ultimately have "p \<in> set (map kd_id ?b)"
    using crumbs.walk_closed [of "kd_id (last ?b)" ds "{}" i p] assms(2) by auto
  then obtain m where m: "m < length ?b" "kd_id (?b ! m) = p" by (auto simp: in_set_conv_nth)
  have l: "last ?b = ?b ! (length ?b - 1)" using assms(2) by (rule last_conv_nth)
  have "(kd_id (last ?b), p) \<in> (links ds)\<^sup>*"
    using breadcrumbs_chain [OF d, of m "length ?b - 1" i] m assms(2) unfolding l by auto
  moreover have "(p, kd_id (last ?b)) \<in> links ds" using top assms(3) by (rule linksI)
  ultimately have "(p, p) \<in> (links ds)\<^sup>+" by (simp add: rtrancl_into_trancl2)
  then show False using assms(1) by (simp add: forest_ok_def acyclic_def)
qed

text \<open>
  The breadcrumbs of a directory are its path from the top: the last one is the directory, each is the parent of
  the next, and the first has no parent; without foreign keys it may name one that no longer exists.
\<close>

lemma breadcrumbs_are_the_path:
  assumes "knowledge_ok fk db" "get_directory_by_id i (kdb_directories db) = Some d"
  shows "let b = get_directory_breadcrumbs (Some i) (kdb_directories db)
     in b \<noteq> [] \<and> last b = d
      \<and> (\<forall>j. Suc j < length b \<longrightarrow> kd_parent_id (b ! Suc j) = Some (kd_id (b ! j)))
      \<and> (case kd_parent_id (hd b) of None \<Rightarrow> True | Some p \<Rightarrow> \<not> fk \<and> p \<notin> kd_id ` set (kdb_directories db))"
proof -
  let ?ds = "kdb_directories db"
  let ?u = "breadcrumbs_up ?ds {} (Some i)"
  have t: "forest_ok ?ds" and c: "constraints_ok fk db" using assms(1) by (simp_all add: knowledge_ok_def)
  then have dist: "distinct (map kd_id ?ds)" and e: "[] \<notin> kd_id ` set ?ds" by (simp_all add: forest_ok_def)
  have "i \<noteq> []" using e get_directory_in_ids [OF assms(2)] by blast
  then have u: "?u \<noteq> []" "hd ?u = d" using assms(2) by (subst breadcrumbs_up.simps; simp)+
  have linked: "kd_parent_id (rev ?u ! Suc j) = Some (kd_id (rev ?u ! j))" if "Suc j < length ?u" for j
    using breadcrumbs_linked [OF dist, of "length ?u - Suc (Suc j)" i] that by (simp add: rev_nth Suc_diff_Suc)
  have top: "\<not> fk \<and> p \<notin> kd_id ` set ?ds" if p: "kd_parent_id (last ?u) = Some p" for p
  proof -
    have out: "p \<notin> kd_id ` set ?ds" using breadcrumbs_top [OF t u(1) p] .
    have "last ?u \<in> set ?ds" using u(1) set_breadcrumbs_up [of ?ds "{}" "Some i"] by auto
    then have "fk \<Longrightarrow> present_in (map kd_id ?ds) (Some p)"
      using c p by (force simp: constraints_ok_def references_ok_def)
    then show ?thesis using out by (auto simp: present_in_def)
  qed
  show ?thesis
    unfolding get_directory_breadcrumbs_def Let_def
    using u linked top by (auto simp: last_rev hd_rev split: option.split)
qed

lemma breadcrumbs_are_the_path_witness:
  "let b = get_directory_breadcrumbs (Some ''c'') (kdb_directories sample_db)
   in last b = kdb_directories sample_db ! 2 \<and> kd_parent_id (hd b) = None \<and> map kd_name b = [''docs'', ''api'', ''v1'']"
proof -
  have "get_directory_by_id ''c'' (kdb_directories sample_db) = Some (kdb_directories sample_db ! 2)"
    by (simp add: sample_db_def get_directory_by_id_def Let_def)
  from breadcrumbs_are_the_path [OF sample_knowledge_ok [of True] this]
  have "last (get_directory_breadcrumbs (Some ''c'') (kdb_directories sample_db)) = kdb_directories sample_db ! 2"
    "kd_parent_id (hd (get_directory_breadcrumbs (Some ''c'') (kdb_directories sample_db))) = None"
    by (auto simp: Let_def split: option.splits)
  moreover have "map kd_name (get_directory_breadcrumbs (Some ''c'') (kdb_directories sample_db)) = [''docs'', ''api'', ''v1'']"
    by code_simp
  ultimately show ?thesis by (simp add: Let_def)
qed

end
