(* ===== verification/Knowledge_Sync.thy ===== *)
theory Knowledge_Sync
  imports Knowledge_Directories
begin

section \<open>Comparing a local folder with a knowledge base\<close>

text \<open>
  Models \<open>sync_knowledge_diff\<close> of \<open>routers/knowledge.py\<close>: which files of a local folder are new or changed, which
  stored ones are stale, and which directories have to be created and removed. The paths of stored directories are
  found by a loop along their parents that has no bound; \<open>None\<close> is a loop that never ends.

  The code iterates over a set of paths: \<open>listing\<close> is the order in which it does so.
\<close>

subsection \<open>Model\<close>

record manifest_entry =
  me_filename :: string
  me_path :: string
  me_checksum :: string

record stored_file =
  sf_id :: string
  sf_filename :: string
  sf_meta :: pydict

record sync_diff =
  sd_added :: "(string \<times> string) list"
  sd_modified :: "(string \<times> string \<times> string) list"
  sd_deleted :: "(string \<times> string) list"
  sd_mkdir :: "string list"
  sd_rmdir :: "string list"
  sd_unmodified_count :: nat
  sd_directory_map :: "(string \<times> string) list"

definition get_files_with_directory_ids :: "string \<Rightarrow> stored_file list \<Rightarrow> knowledge_db \<Rightarrow> (stored_file \<times> string option) list" where
  "get_files_with_directory_ids knowledge_id files db =
     concat (map (\<lambda>file. map (\<lambda>f. (file, kf_directory_id f))
         (filter (\<lambda>f. kf_file_id f = sf_id file \<and> kf_knowledge_id f = knowledge_id) (kdb_files db))) files)"

partial_function (option) path_segments :: "directory_row list \<Rightarrow> string list \<Rightarrow> string option \<Rightarrow> string list option" where
  "path_segments ds segments parent_id =
     (case parent_id of
        None \<Rightarrow> Some segments
      | Some p \<Rightarrow>
          if p = [] then Some segments
          else (case get_directory_by_id p ds of
                  None \<Rightarrow> Some segments
                | Some parent \<Rightarrow> path_segments ds (kd_name parent # segments) (kd_parent_id parent)))"

declare path_segments.simps [code]

definition join_path :: "string list \<Rightarrow> string" where
  "join_path = str_join ''/''"

definition directory_path :: "directory_row list \<Rightarrow> directory_row \<Rightarrow> string option" where
  "directory_path ds d = map_option join_path (path_segments ds [kd_name d] (kd_parent_id d))"

text \<open>The path of every directory by its identifier, and the identifier by the path.\<close>

fun path_lookups :: "directory_row list \<Rightarrow> directory_row list \<Rightarrow> (string \<times> string) list \<Rightarrow> (string \<times> string) list
    \<Rightarrow> ((string \<times> string) list \<times> (string \<times> string) list) option" where
  "path_lookups ds [] path_by_id id_by_path = Some (path_by_id, id_by_path)"
| "path_lookups ds (d # rest) path_by_id id_by_path =
     Option.bind (directory_path ds d) (\<lambda>full_path.
       path_lookups ds rest (dset (kd_id d) full_path path_by_id) (dset full_path (kd_id d) id_by_path))"

definition index_file ::
    "(string \<times> string) list \<Rightarrow> stored_file \<times> string option \<Rightarrow> ((string \<times> string) \<times> string \<times> pyval) list
     \<Rightarrow> ((string \<times> string) \<times> string \<times> pyval) list"
where
  "index_file path_by_id entry index =
     (case entry of (file, directory_id) \<Rightarrow>
        let file_path = (case directory_id of None \<Rightarrow> [] | Some i \<Rightarrow> if i = [] then [] else dget_or path_by_id i [])
        in dset (file_path, sf_filename file) (sf_id file, dget (sf_meta file) ''file_hash'') index)"

text \<open>The part of the answer about files.\<close>

definition added_files where
  "added_files index manifest =
     map (\<lambda>e. (me_filename e, me_path e)) (filter (\<lambda>e. map_of index (me_path e, me_filename e) = None) manifest)"

definition changed_file :: "((string \<times> string) \<times> string \<times> pyval) list \<Rightarrow> manifest_entry \<Rightarrow> string option" where
  "changed_file index e =
     (case map_of index (me_path e, me_filename e) of
        None \<Rightarrow> None
      | Some (file_id, checksum) \<Rightarrow> if checksum \<noteq> PStr (me_checksum e) then Some file_id else None)"

definition modified_files where
  "modified_files index manifest =
     concat (map (\<lambda>e. case changed_file index e of None \<Rightarrow> [] | Some i \<Rightarrow> [(me_filename e, me_path e, i)]) manifest)"

definition unmodified_files where
  "unmodified_files index manifest =
     filter (\<lambda>e. map_of index (me_path e, me_filename e) \<noteq> None \<and> changed_file index e = None) manifest"

definition deleted_files where
  "deleted_files index manifest =
     map (\<lambda>(key, file_id, _). (file_id, snd key))
       (filter (\<lambda>(key, _). key \<notin> set (map (\<lambda>e. (me_path e, me_filename e)) manifest)) index)"

text \<open>The paths of the directories the manifest needs: every beginning of a path.\<close>

definition path_prefixes :: "string \<Rightarrow> string list" where
  "path_prefixes path =
     (let segments = str_split (CHR ''/'') path in map (\<lambda>depth. join_path (take (Suc depth) segments)) [0..<length segments])"

definition required_directory_paths :: "manifest_entry list \<Rightarrow> string list" where
  "required_directory_paths manifest =
     concat (map (\<lambda>e. if me_path e \<noteq> [] then path_prefixes (me_path e) else []) manifest)"

definition slashes :: "string \<Rightarrow> nat" where
  "slashes p = count_list p (CHR ''/'')"

definition sync_knowledge_diff ::
    "(string \<Rightarrow> int) \<Rightarrow> (string list \<Rightarrow> string list) \<Rightarrow> string \<Rightarrow> manifest_entry list \<Rightarrow> stored_file list \<Rightarrow> knowledge_db \<Rightarrow> sync_diff option"
where
  "sync_knowledge_diff rank listing knowledge_id manifest files db =
     (let existing = get_all_directories rank knowledge_id (kdb_directories db) in
      Option.bind (path_lookups existing existing [] []) (\<lambda>(path_by_id, id_by_path).
        let index = fold (index_file path_by_id) (get_files_with_directory_ids knowledge_id files db) [];
            required = listing (required_directory_paths manifest)
        in Some \<lparr>sd_added = added_files index manifest, sd_modified = modified_files index manifest,
             sd_deleted = deleted_files index manifest,
             sd_mkdir = sort_key slashes (filter (\<lambda>p. map_of id_by_path p = None) required),
             sd_rmdir = map (\<lambda>p. dget_or id_by_path p []) (listing (filter (\<lambda>p. p \<notin> set required) (map fst id_by_path))),
             sd_unmodified_count = length (unmodified_files index manifest), sd_directory_map = id_by_path\<rparr>))"

subsection \<open>The loop along the parents ends\<close>

lemma path_segments_ends:
  assumes "forest_ok ds"
  shows "\<exists>segments. path_segments ds acc p = Some segments"
proof (cases p)
  case None
  then show ?thesis by (subst path_segments.simps) simp
next
  case (Some k)
  have "finite (links ds)"
    by (rule finite_subset [of _ "(\<lambda>d. (the (kd_parent_id d), kd_id d)) ` set ds"]) (force simp: links_def)+
  then have "wf (links ds)" using assms by (simp add: forest_ok_def finite_acyclic_wf)
  then have "\<exists>segments. path_segments ds acc (Some k) = Some segments"
  proof (induction k arbitrary: acc rule: wf_induct_rule)
    case (less k)
    show ?case
    proof (cases "get_directory_by_id k ds")
      case None
      then show ?thesis by (subst path_segments.simps) simp
    next
      case (Some d)
      have "\<exists>segments. path_segments ds (kd_name d # acc) (kd_parent_id d) = Some segments"
      proof (cases "kd_parent_id d")
        case None
        then show ?thesis by (subst path_segments.simps) simp
      next
        case (Some q)
        then have "(q, k) \<in> links ds"
          using get_directory_by_id_SomeD [OF \<open>get_directory_by_id k ds = Some d\<close>] linksI by blast
        with less.IH Some show ?thesis by simp
      qed
      with Some show ?thesis by (subst path_segments.simps) auto
    qed
  qed
  with Some show ?thesis by simp
qed

lemma path_lookups_end: "forest_ok ds \<Longrightarrow> \<exists>r. path_lookups ds rest a b = Some r"
proof (induction rest arbitrary: a b)
  case (Cons d rest)
  obtain s where "path_segments ds [kd_name d] (kd_parent_id d) = Some s"
    using path_segments_ends [OF Cons.prems] by blast
  then show ?case using Cons by (simp add: directory_path_def)
qed simp

lemma forest_ok_all_directories: "forest_ok ds \<Longrightarrow> forest_ok (get_all_directories rank i ds)"
  by (rule forest_ok_subset) (auto simp: get_all_directories_def forest_ok_def distinct_map intro: inj_on_subset)

subsection \<open>Paths and their parents\<close>

lemma split_free: "\<forall>w \<in> set (str_split c s). c \<notin> set w"
  by (induction c s rule: str_split.induct) (auto split: list.splits)

lemma split_join_path: "xs \<noteq> [] \<Longrightarrow> \<forall>w \<in> set xs. CHR ''/'' \<notin> set w \<Longrightarrow> str_split (CHR ''/'') (join_path xs) = xs"
  unfolding join_path_def by (rule split_join)

lemma count_free: "c \<notin> set x \<Longrightarrow> count_list x c = 0"
  by (simp add: count_list_0_iff)

lemma slashes_join: "xs \<noteq> [] \<Longrightarrow> \<forall>w \<in> set xs. CHR ''/'' \<notin> set w \<Longrightarrow> slashes (join_path xs) = length xs - 1"
  unfolding join_path_def slashes_def by (induction "''/''" xs rule: str_join.induct) (simp_all add: count_free)

definition parent_path :: "string \<Rightarrow> string" where
  "parent_path p = join_path (butlast (str_split (CHR ''/'') p))"

text \<open>A beginning of a path has as many slashes as it is deep, and the beginning before it is its parent.\<close>

lemma prefix_parent:
  assumes "p \<in> set (path_prefixes path)" "0 < slashes p"
  shows "parent_path p \<in> set (path_prefixes path) \<and> slashes (parent_path p) < slashes p"
proof -
  let ?w = "str_split (CHR ''/'') path"
  have free: "\<forall>x \<in> set (take n ?w). CHR ''/'' \<notin> set x" for n
    using split_free [of "CHR ''/''" path] by (meson in_set_takeD)
  obtain d where d: "d < length ?w" "p = join_path (take (Suc d) ?w)"
    using assms(1) by (auto simp: path_prefixes_def Let_def)
  have ne: "take (Suc d) ?w \<noteq> []" by simp
  have split: "str_split (CHR ''/'') p = take (Suc d) ?w" unfolding d(2) by (rule split_join_path [OF ne free])
  have sl: "slashes p = d" unfolding d(2) using slashes_join [OF ne free] d(1) by simp
  then have "0 < d" using assms(2) by simp
  then have pos: "take d ?w \<noteq> []" by simp
  have parent: "parent_path p = join_path (take d ?w)"
    unfolding parent_path_def split using d(1) by (simp add: butlast_take)
  have "slashes (parent_path p) = d - 1" unfolding parent using slashes_join [OF pos free] d(1) by simp
  moreover have "parent_path p \<in> set (path_prefixes path)"
    unfolding parent path_prefixes_def Let_def set_map
    using \<open>0 < d\<close> d(1) by (intro image_eqI [of _ _ "d - 1"]) auto
  ultimately show ?thesis using sl \<open>0 < d\<close> by simp
qed

lemma earlier_in_sorted:
  fixes k :: "'a \<Rightarrow> nat"
  assumes "sorted (map k xs)" "j < length xs" "q \<in> set xs" "k q < k (xs ! j)"
  shows "q \<in> set (take j xs)"
proof -
  obtain i where i: "i < length xs" "xs ! i = q" using assms(3) by (auto simp: in_set_conv_nth)
  have "i < j"
  proof (rule ccontr)
    assume "\<not> i < j"
    then have "map k xs ! j \<le> map k xs ! i" using assms(1) i(1) by (intro sorted_nth_mono) auto
    then show False using assms i by simp
  qed
  then show ?thesis using i assms(2) by (auto simp: in_set_conv_nth intro!: exI [of _ i])
qed

definition required :: "manifest_entry list \<Rightarrow> string set" where
  "required manifest = {p. \<exists>e \<in> set manifest. me_path e \<noteq> [] \<and> p \<in> set (path_prefixes (me_path e))}"

lemma set_required: "set (required_directory_paths manifest) = required manifest"
  by (auto simp: required_directory_paths_def required_def split: if_splits)

lemma required_parent: "p \<in> required manifest \<Longrightarrow> 0 < slashes p \<Longrightarrow> parent_path p \<in> required manifest \<and> slashes (parent_path p) < slashes p"
  using prefix_parent by (fastforce simp: required_def)

subsection \<open>Properties\<close>

text \<open>
  C22. Comparing a folder with a knowledge base whose directories form a forest always comes to an end, although the
  loop that finds the path of a directory has no bound.
\<close>

theorem sync_diff_ends:
  assumes "knowledge_ok fk db"
  shows "\<exists>r. sync_knowledge_diff rank listing knowledge_id manifest files db = Some r"
proof -
  let ?ds = "get_all_directories rank knowledge_id (kdb_directories db)"
  have "forest_ok ?ds" using assms by (simp add: knowledge_ok_def forest_ok_all_directories)
  then obtain a b where "path_lookups ?ds ?ds [] [] = Some (a, b)" using path_lookups_end by fastforce
  then show ?thesis by (simp add: sync_knowledge_diff_def Let_def)
qed

text \<open>
  The directories of a sync are complete and in order: every directory that a local file needs exists or is to
  be created, none is created twice, a directory comes after its parent unless that exists, and exactly the
  directories no local file needs are removed.
\<close>

lemma sync_directories_in_order:
  assumes "\<forall>ps. set (listing ps) = set ps"
    and "sync_knowledge_diff rank listing knowledge_id manifest files db = Some r"
  shows "required manifest \<subseteq> fst ` set (sd_directory_map r) \<union> set (sd_mkdir r)
       \<and> set (sd_mkdir r) \<inter> fst ` set (sd_directory_map r) = {}
       \<and> (\<forall>j < length (sd_mkdir r). slashes (sd_mkdir r ! j) > 0 \<longrightarrow>
            parent_path (sd_mkdir r ! j) \<in> fst ` set (sd_directory_map r) \<union> set (take j (sd_mkdir r)))
       \<and> set (sd_rmdir r) = {i. \<exists>p. map_of (sd_directory_map r) p = Some i \<and> p \<notin> required manifest}"
proof -
  let ?ds = "get_all_directories rank knowledge_id (kdb_directories db)"
  obtain a m where r: "sd_directory_map r = m"
      "sd_mkdir r = sort_key slashes (filter (\<lambda>p. map_of m p = None) (listing (required_directory_paths manifest)))"
      "sd_rmdir r = map (\<lambda>p. dget_or m p []) (listing (filter (\<lambda>p. p \<notin> set (listing (required_directory_paths manifest))) (map fst m)))"
    using assms(2) by (fastforce simp: sync_knowledge_diff_def Let_def bind_eq_Some_conv)
  have dom: "map_of m p = None \<longleftrightarrow> p \<notin> fst ` set m" for p by (simp add: map_of_eq_None_iff)
  have mk: "set (sd_mkdir r) = required manifest - fst ` set m"
    using assms(1) unfolding r by (auto simp: set_required dom)
  have sorted: "sorted (map slashes (sd_mkdir r))" unfolding r by (rule sorted_sort_key)
  have "parent_path (sd_mkdir r ! j) \<in> fst ` set m \<union> set (take j (sd_mkdir r))"
    if j: "j < length (sd_mkdir r)" "0 < slashes (sd_mkdir r ! j)" for j
  proof -
    have "sd_mkdir r ! j \<in> required manifest" using mk nth_mem [OF j(1)] by blast
    then have p: "parent_path (sd_mkdir r ! j) \<in> required manifest" "slashes (parent_path (sd_mkdir r ! j)) < slashes (sd_mkdir r ! j)"
      using required_parent j(2) by blast+
    show ?thesis
      using earlier_in_sorted [OF sorted j(1) _ p(2)] p(1) mk by blast
  qed
  moreover have "set (sd_rmdir r) = {i. \<exists>p. map_of m p = Some i \<and> p \<notin> required manifest}"
  proof -
    have "set (sd_rmdir r) = (\<lambda>p. dget_or m p []) ` {p \<in> fst ` set m. p \<notin> required manifest}"
      using assms(1) unfolding r by (simp add: set_required)
    also have "\<dots> = {i. \<exists>p. map_of m p = Some i \<and> p \<notin> required manifest}"
    proof -
      have "{p \<in> fst ` set m. p \<notin> required manifest} = {p. map_of m p \<noteq> None \<and> p \<notin> required manifest}"
        by (auto simp: dom)
      then show ?thesis by (force simp: dget_or_def image_iff)
    qed
    finally show ?thesis .
  qed
  ultimately show ?thesis using mk unfolding r(1) by blast
qed

definition sample_manifest :: "manifest_entry list" where
  "sample_manifest =
     [\<lparr>me_filename = ''r.md'', me_path = ''new/sub'', me_checksum = ''1''\<rparr>, \<lparr>me_filename = ''f'', me_path = ''docs/api'', me_checksum = ''2''\<rparr>]"

lemma sync_diff_ends_witness:
  "\<exists>r. sync_knowledge_diff (\<lambda>_. 0) remdups ''k'' sample_manifest [] sample_db = Some r"
  by (rule sync_diff_ends [OF sample_knowledge_ok [of True]])

lemma sync_directories_in_order_witness:
  "\<exists>r. sync_knowledge_diff (\<lambda>_. 0) remdups ''k'' sample_manifest [] sample_db = Some r
     \<and> sd_mkdir r = [''new'', ''new/sub''] \<and> parent_path ''new/sub'' \<in> set (take 1 (sd_mkdir r)) \<and> set (sd_rmdir r) = {''c''}"
proof -
  obtain r where r: "sync_knowledge_diff (\<lambda>_. 0) remdups ''k'' sample_manifest [] sample_db = Some r"
    using sync_diff_ends [OF sample_knowledge_ok [of True]] by blast
  have c: "map_option (\<lambda>r. (sd_mkdir r, sd_directory_map r)) (sync_knowledge_diff (\<lambda>_. 0) remdups ''k'' sample_manifest [] sample_db)
      = Some ([''new'', ''new/sub''], [(''docs'', ''a''), (''docs/api'', ''b''), (''docs/api/v1'', ''c'')])"
    by code_simp
  then have m: "sd_mkdir r = [''new'', ''new/sub'']"
    and d: "sd_directory_map r = [(''docs'', ''a''), (''docs/api'', ''b''), (''docs/api/v1'', ''c'')]"
    using r by auto
  have "\<forall>ps :: string list. set (remdups ps) = set ps" by simp
  from sync_directories_in_order [OF this r]
  have o: "\<forall>j < length (sd_mkdir r). slashes (sd_mkdir r ! j) > 0 \<longrightarrow>
            parent_path (sd_mkdir r ! j) \<in> fst ` set (sd_directory_map r) \<union> set (take j (sd_mkdir r))"
    and rm: "set (sd_rmdir r) = {i. \<exists>p. map_of (sd_directory_map r) p = Some i \<and> p \<notin> required sample_manifest}"
    by auto
  have "slashes ''new/sub'' > 0" by code_simp
  then have "parent_path ''new/sub'' \<in> fst ` set (sd_directory_map r) \<union> set (take 1 (sd_mkdir r))"
    using o [rule_format, of 1] unfolding m by simp
  moreover have "parent_path ''new/sub'' \<notin> fst ` set (sd_directory_map r)" unfolding d by code_simp
  moreover have "set (sd_rmdir r) = {''c''}"
  proof -
    have "required sample_manifest = {''new'', ''new/sub'', ''docs'', ''docs/api''}"
      unfolding set_required [symmetric] by code_simp
    then show ?thesis unfolding rm d by (auto split: if_splits)
  qed
  ultimately show ?thesis using r m by blast
qed

end
