(* ===== verification/OAuth_Access.thy ===== *)
theory OAuth_Access
  imports Users_Groups Py_Numbers
begin

section \<open>Roles and groups given by an identity provider\<close>

text \<open>
  Models the parts of \<open>utils/oauth.py\<close> that turn the claims of an identity provider into the role and the groups
  of a user: \<open>get_user_role\<close>, \<open>update_user_role_from_oauth\<close>, \<open>is_in_blocked_groups\<close> and \<open>update_user_groups\<close>, on
  the user and group tables of \<open>Users_Groups\<close>.

  The settings are a record. \<open>re_search\<close> (\<open>None\<close> where the pattern is no regular expression) and \<open>fnmatch\<close> are
  the matchers of the standard library, \<open>loads\<close> reads the JSON list of blocked patterns.
\<close>

record oauth_config =
  oc_default_user_role :: string
  oc_role_management :: bool
  oc_roles_claim :: string
  oc_allowed_roles :: "string list"
  oc_admin_roles :: "string list"
  oc_roles_separator :: string
  oc_groups_claim :: string
  oc_groups_separator :: string
  oc_blocked_groups :: string
  oc_group_creation :: bool
  oc_group_default_share :: pyval

subsection \<open>Claims\<close>

text \<open>\<open>s.split(sep)\<close> with a separator that is not empty.\<close>

function split_text :: "string \<Rightarrow> string \<Rightarrow> string \<Rightarrow> string list" where
  "split_text sep word [] = [word]"
| "split_text sep word (c # s) =
     (if sep \<noteq> [] \<and> prefix sep (c # s) then word # split_text sep [] (drop (length sep) (c # s))
      else split_text sep (word @ [c]) s)"
  by pat_completeness auto
termination
  by (relation "measure (\<lambda>(_, _, s). length s)") auto

text \<open>A claim named by a path, one dictionary per segment.\<close>

fun nested_claim :: "string list \<Rightarrow> pyval \<Rightarrow> pyval result" where
  "nested_claim [] claim_data = Inr claim_data"
| "nested_claim (c # cs) claim_data = rbind (py_get claim_data c (PDict [])) (nested_claim cs)"

definition claim_at :: "string \<Rightarrow> pyval \<Rightarrow> pyval result" where
  "claim_at oauth_claim user_data = nested_claim (str_split (CHR ''.'') oauth_claim) user_data"

definition roles_of_claim :: "string \<Rightarrow> pyval \<Rightarrow> pyval list" where
  "roles_of_claim separator claim_data =
     (case claim_data of
        PList xs \<Rightarrow> xs
      | PStr s \<Rightarrow> if separator \<noteq> [] \<and> str_contains s separator then map PStr (split_text separator [] s) else [PStr s]
      | PInt i \<Rightarrow> [PStr (int_text i)]
      | PBool b \<Rightarrow> [PStr (if b then ''True'' else ''False'')]
      | _ \<Rightarrow> [])"

definition oauth_roles :: "oauth_config \<Rightarrow> pyval \<Rightarrow> pyval list result" where
  "oauth_roles cfg user_data =
     (if oc_roles_claim cfg \<noteq> [] \<and> oc_allowed_roles cfg \<noteq> [] \<and> oc_admin_roles cfg \<noteq> []
      then rbind (claim_at (oc_roles_claim cfg) user_data) (\<lambda>nested.
           rbind (if truthy nested then Inr nested else py_get user_data (oc_roles_claim cfg) (PDict [])) (\<lambda>claim_data.
             Inr (roles_of_claim (oc_roles_separator cfg) claim_data)))
      else Inr [])"

definition oauth_groups :: "oauth_config \<Rightarrow> pyval \<Rightarrow> pyval list result" where
  "oauth_groups cfg user_data =
     (if oc_groups_claim cfg = [] then Inr []
      else rbind (claim_at (oc_groups_claim cfg) user_data) (\<lambda>claim_data.
        case claim_data of
          PList xs \<Rightarrow> Inr xs
        | PStr s \<Rightarrow>
            if str_contains s (oc_groups_separator cfg)
            then (if oc_groups_separator cfg = [] then Inl (ValueError ''empty separator'')
                  else Inr (map PStr (split_text (oc_groups_separator cfg) [] s)))
            else Inr [PStr s]
        | _ \<Rightarrow> Inr []))"

subsection \<open>Roles\<close>

definition access_prohibited :: py_error where
  "access_prohibited = HTTPException 403 (''You do not have permission to access this resource. '' @
     ''Please contact your administrator for assistance.'')"

text \<open>The role that roles from the provider give: they must match.\<close>

definition match_roles :: "string list \<Rightarrow> string list \<Rightarrow> pyval list \<Rightarrow> string result" where
  "match_roles allowed admins roles =
     (let user_matched = list_ex (\<lambda>r. r = ''*'' \<or> PStr r \<in> set roles) allowed;
          admin_matched = list_ex (\<lambda>r. PStr r \<in> set roles) admins
      in if admin_matched then Inr ''admin'' else if user_matched then Inr ''user'' else Inl access_prohibited)"

definition get_user_role :: "oauth_config \<Rightarrow> user_row option \<Rightarrow> pyval \<Rightarrow> group_db \<Rightarrow> string result" where
  "get_user_role cfg user user_data db =
     (let user_count = length (db_users db);
          role = (case user of Some u \<Rightarrow> u_role u | None \<Rightarrow> oc_default_user_role cfg) in
      if user \<noteq> None \<and> user_count = 1 then Inr ''admin''
      else if user = None \<and> user_count = 0 then Inr (oc_default_user_role cfg)
      else if oc_role_management cfg
      then rbind (oauth_roles cfg user_data) (\<lambda>roles.
             if roles = [] then Inr role else match_roles (oc_allowed_roles cfg) (oc_admin_roles cfg) roles)
      else Inr role)"

definition update_user_role_by_id :: "string \<Rightarrow> string \<Rightarrow> group_db \<Rightarrow> group_db \<times> user_row option" where
  "update_user_role_by_id i role db =
     (let db' = db\<lparr>db_users := sql_update (\<lambda>u. u_id u = i) (\<lambda>u. u\<lparr>u_role := role\<rparr>) (db_users db)\<rparr>
      in (if find (\<lambda>u. u_id u = i) (db_users db) = None then (db, None) else (db', find (\<lambda>u. u_id u = i) (db_users db'))))"

definition update_user_role_from_oauth :: "oauth_config \<Rightarrow> user_row \<Rightarrow> pyval \<Rightarrow> group_db \<Rightarrow> group_db \<times> user_row result" where
  "update_user_role_from_oauth cfg user user_data db =
     (case get_user_role cfg (Some user) user_data db of
        Inl e \<Rightarrow> (db, Inl e)
      | Inr determined_role \<Rightarrow>
          if u_role user = determined_role then (db, Inr user)
          else (let (db', updated_user) = update_user_role_by_id (u_id user) determined_role db;
                    user = (case updated_user of Some u \<Rightarrow> u | None \<Rightarrow> user)
                in (db', Inr (user\<lparr>u_role := determined_role\<rparr>))))"

subsection \<open>Blocked groups\<close>

definition regex_chars :: "char set" where
  "regex_chars = set ''^$[](){}+|'' \<union> {CHR 0x5C}"

definition pattern_blocks ::
    "(string \<Rightarrow> string \<Rightarrow> bool option) \<Rightarrow> (string \<Rightarrow> string \<Rightarrow> bool) \<Rightarrow> string \<Rightarrow> string \<Rightarrow> bool" where
  "pattern_blocks re_search fnmatch group_name group_pattern =
     (group_pattern \<noteq> [] \<and>
      (group_name = group_pattern
       \<or> (set group_pattern \<inter> regex_chars \<noteq> {} \<and> re_search group_pattern group_name = Some True)
       \<or> ((CHR ''*'' \<in> set group_pattern \<or> CHR ''?'' \<in> set group_pattern) \<and> fnmatch group_name group_pattern)))"

definition is_in_blocked_groups ::
    "(string \<Rightarrow> string \<Rightarrow> bool option) \<Rightarrow> (string \<Rightarrow> string \<Rightarrow> bool) \<Rightarrow> string \<Rightarrow> string list \<Rightarrow> bool" where
  "is_in_blocked_groups re_search fnmatch group_name groups = list_ex (pattern_blocks re_search fnmatch group_name) groups"

subsection \<open>Groups\<close>

definition oauth_group_form :: "pydict option \<Rightarrow> pyval \<Rightarrow> string \<Rightarrow> group_form" where
  "oauth_group_form default_permissions oauth_share n =
     \<lparr>gf_name = n, gf_description = ''Group '' @ [CHR 0x27] @ n @ [CHR 0x27] @ '' created automatically via OAuth.'',
      gf_permissions = default_permissions, gf_data = Some [(''config'', PDict [(''share'', oauth_share)])]\<rparr>"

text \<open>
  Groups named by the claim and missing so far, created one after the other; \<open>fresh i\<close> is the identifier and the
  clock readings of the \<open>i\<close>-th. A name that is not a text fails the form's validation, which is logged; one that
  cannot be in a set raises before.
\<close>

fun create_missing_groups ::
    "pyval \<Rightarrow> pydict option \<Rightarrow> pyval \<Rightarrow> string \<Rightarrow> (nat \<Rightarrow> string \<times> int \<times> int) \<Rightarrow> nat \<Rightarrow> pyval list \<Rightarrow> string list \<Rightarrow> group_db
      \<Rightarrow> group_db \<times> unit result"
where
  "create_missing_groups default_share default_permissions oauth_share creator_id fresh i [] names db = (db, Inr ())"
| "create_missing_groups default_share default_permissions oauth_share creator_id fresh i (name # rest) names db =
     (if \<not> hashable name then (db, Inl TypeError)
      else case name of
        PStr n \<Rightarrow>
          if n \<in> set names
          then create_missing_groups default_share default_permissions oauth_share creator_id fresh (Suc i) rest names db
          else (let (uuid, now1, now2) = fresh i
                in case insert_new_group default_share uuid now1 now2 creator_id (oauth_group_form default_permissions oauth_share n) db of
                     (db, Inr (Some g)) \<Rightarrow>
                       create_missing_groups default_share default_permissions oauth_share creator_id fresh (Suc i) rest (n # names) db
                   | (db, _) \<Rightarrow>
                       create_missing_groups default_share default_permissions oauth_share creator_id fresh (Suc i) rest names db)
      | _ \<Rightarrow> create_missing_groups default_share default_permissions oauth_share creator_id fresh (Suc i) rest names db)"

text \<open>The form by which a group is saved again after its members changed.\<close>

definition save_group :: "int \<Rightarrow> pydict option \<Rightarrow> group_row \<Rightarrow> group_db \<Rightarrow> group_db" where
  "save_group now default_permissions g db =
     (let group_permissions = (case g_permissions g of Some (p # ps) \<Rightarrow> Some (p # ps) | _ \<Rightarrow> default_permissions)
      in fst (update_group_by_id now (g_id g)
           \<lparr>gf_name = g_name g, gf_description = g_description g, gf_permissions = group_permissions, gf_data = None\<rparr> db))"

definition leave_group ::
    "(string \<Rightarrow> bool) \<Rightarrow> pydict option \<Rightarrow> pyval list \<Rightarrow> string \<Rightarrow> int \<times> int \<Rightarrow> group_row \<Rightarrow> group_db \<Rightarrow> group_db" where
  "leave_group blocked default_permissions groups user_id nows g db =
     (if groups \<noteq> [] \<and> PStr (g_name g) \<notin> set groups \<and> \<not> blocked (g_name g)
      then save_group (snd nows) default_permissions g (fst (remove_users_from_group (fst nows) (g_id g) (Some [user_id]) db))
      else db)"

definition join_group ::
    "(string \<Rightarrow> bool) \<Rightarrow> pydict option \<Rightarrow> pyval list \<Rightarrow> group_row list \<Rightarrow> string \<Rightarrow> string \<times> int \<times> int \<Rightarrow> group_row \<Rightarrow> group_db \<Rightarrow> group_db" where
  "join_group blocked default_permissions groups current user_id fresh g db =
     (if groups \<noteq> [] \<and> PStr (g_name g) \<in> set groups \<and> \<not> list_ex (\<lambda>gm. g_name gm = g_name g) current \<and> \<not> blocked (g_name g)
      then save_group (snd (snd fresh)) default_permissions g
             (fst (add_users_to_group (\<lambda>_. fst fresh) (fst (snd fresh)) (g_id g) (Some [user_id]) db))
      else db)"

definition update_user_groups ::
    "(string \<Rightarrow> string list option) \<Rightarrow> (string \<Rightarrow> string \<Rightarrow> bool option) \<Rightarrow> (string \<Rightarrow> string \<Rightarrow> bool)
      \<Rightarrow> oauth_config \<Rightarrow> pyval \<Rightarrow> (nat \<Rightarrow> string \<times> int \<times> int) \<Rightarrow> (nat \<Rightarrow> int \<times> int) \<Rightarrow> (nat \<Rightarrow> string \<times> int \<times> int)
      \<Rightarrow> user_row \<Rightarrow> pyval \<Rightarrow> pydict option \<Rightarrow> group_db \<Rightarrow> group_db \<times> unit result"
where
  "update_user_groups loads re_search fnmatch cfg default_share fresh_groups leave_times fresh_members user user_data default_permissions db =
     (let blocked_groups = (case loads (oc_blocked_groups cfg) of Some ps \<Rightarrow> ps | None \<Rightarrow> []);
          blocked = (\<lambda>n. is_in_blocked_groups re_search fnmatch n blocked_groups) in
      case oauth_groups cfg user_data of
        Inl e \<Rightarrow> (db, Inl e)
      | Inr groups \<Rightarrow>
          (let user_current_groups = get_groups_by_member_id (u_id user) db;
               creator_id = (case find (\<lambda>u. u_role u = ''admin'') (db_users db) of Some a \<Rightarrow> u_id a | None \<Rightarrow> u_id user)
           in case (if oc_group_creation cfg
                    then create_missing_groups default_share default_permissions (oc_group_default_share cfg) creator_id
                           fresh_groups 0 groups (map g_name (get_all_groups db)) db
                    else (db, Inr ())) of
                (created, Inl e) \<Rightarrow> (created, Inl e)
              | (created, Inr _) \<Rightarrow>
                  (let all_available_groups = get_all_groups created;
                       left = fold (\<lambda>(i, g). leave_group blocked default_permissions groups (u_id user) (leave_times i) g)
                                (enumerate 0 user_current_groups) created;
                       joined = fold (\<lambda>(i, g). join_group blocked default_permissions groups user_current_groups (u_id user) (fresh_members i) g)
                                  (enumerate 0 all_available_groups) left
                   in (joined, Inr ()))))"

subsection \<open>Roles\<close>

text \<open>
  C6. With role management, the roles the provider sends decide: a user among several becomes an administrator when
  one of the roles is an administrator's, otherwise a user when one of them is allowed or all are, and otherwise is
  refused, and the tables stay. A provider that sends no role quits the role as it is. Nobody else's role changes.
\<close>

theorem oauth_role_follows_claims:
  assumes "oc_role_management cfg" "1 < length (db_users db)" "user \<in> set (db_users db)" "distinct (map u_id (db_users db))"
    and "oauth_roles cfg user_data = Inr roles"
  shows "case update_user_role_from_oauth cfg user user_data db of
      (db', Inl e) \<Rightarrow> e = access_prohibited \<and> db' = db \<and> roles \<noteq> []
        \<and> (\<forall>r \<in> set (oc_allowed_roles cfg @ oc_admin_roles cfg). PStr r \<notin> set roles) \<and> ''*'' \<notin> set (oc_allowed_roles cfg)
    | (db', Inr user') \<Rightarrow>
        u_id user' = u_id user \<and> user' \<in> set (db_users db')
        \<and> (if roles = [] then u_role user' = u_role user
           else u_role user' = (if \<exists>r \<in> set (oc_admin_roles cfg). PStr r \<in> set roles then ''admin'' else ''user'')
              \<and> (u_role user' = ''user'' \<longrightarrow> (\<exists>r \<in> set (oc_allowed_roles cfg). r = ''*'' \<or> PStr r \<in> set roles)))
        \<and> (\<forall>u. u_id u \<noteq> u_id user \<longrightarrow> (u \<in> set (db_users db') \<longleftrightarrow> u \<in> set (db_users db)))"
proof -
  have found: "find (\<lambda>u. u_id u = u_id user) (db_users db) = Some user" by (rule find_unique [OF assms(4, 3)])
  have upd: "update_user_role_by_id (u_id user) role db =
      (db\<lparr>db_users := sql_update (\<lambda>u. u_id u = u_id user) (\<lambda>u. u\<lparr>u_role := role\<rparr>) (db_users db)\<rparr>, Some (user\<lparr>u_role := role\<rparr>))" for role
  proof -
    let ?us = "sql_update (\<lambda>u. u_id u = u_id user) (\<lambda>u. u\<lparr>u_role := role\<rparr>) (db_users db)"
    have "map u_id ?us = map u_id (db_users db)" by (rule map_sql_update) simp
    moreover have "user\<lparr>u_role := role\<rparr> \<in> set ?us" using assms(3) by (auto simp: set_sql_update)
    ultimately have "find (\<lambda>u. u_id u = u_id (user\<lparr>u_role := role\<rparr>)) ?us = Some (user\<lparr>u_role := role\<rparr>)"
      using assms(4) by (intro find_unique) simp_all
    then show ?thesis by (simp add: update_user_role_by_id_def Let_def found)
  qed
  show ?thesis
    using assms(1, 2, 3, 5)
    by (auto simp: update_user_role_from_oauth_def get_user_role_def Let_def upd match_roles_def list_ex_iff set_sql_update
        split: if_splits)
qed

definition sample_oauth :: oauth_config where
  "sample_oauth =
     \<lparr>oc_default_user_role = ''pending'', oc_role_management = True, oc_roles_claim = ''realm.roles'',
      oc_allowed_roles = [''staff''], oc_admin_roles = [''root''], oc_roles_separator = '','',
      oc_groups_claim = ''groups'', oc_groups_separator = '';'', oc_blocked_groups = [], oc_group_creation = True,
      oc_group_default_share = PBool True\<rparr>"

definition sample_users :: group_db where
  "sample_users =
     \<lparr>db_users = [\<lparr>u_id = ''a'', u_role = ''admin''\<rparr>, \<lparr>u_id = ''u'', u_role = ''pending''\<rparr>],
      db_groups = [\<lparr>g_id = ''g1'', g_user_id = ''a'', g_name = ''old'', g_description = [], g_data = None, g_meta = None,
          g_permissions = None, g_created_at = 0, g_updated_at = 0\<rparr>,
        \<lparr>g_id = ''g2'', g_user_id = ''a'', g_name = ''ops'', g_description = [], g_data = None, g_meta = None,
          g_permissions = None, g_created_at = 0, g_updated_at = 0\<rparr>],
      db_members = [\<lparr>gm_id = ''m'', gm_group_id = ''g1'', gm_user_id = ''u'', gm_created_at = 0, gm_updated_at = 0\<rparr>],
      db_fk = True\<rparr>"

definition sample_claims :: pyval where
  "sample_claims =
     PDict [(''realm'', PDict [(''roles'', PStr ''guest,staff'')]), (''groups'', PStr ''ops;new'')]"

lemma oauth_role_follows_claims_witness:
  "case update_user_role_from_oauth sample_oauth (db_users sample_users ! 1) sample_claims sample_users of
      (db', Inl e) \<Rightarrow> False
    | (db', Inr user') \<Rightarrow> u_role user' = ''user'' \<and> user' \<in> set (db_users db')"
proof -
  let ?u = "db_users sample_users ! 1"
  have "oc_role_management sample_oauth" "1 < length (db_users sample_users)" "?u \<in> set (db_users sample_users)"
    "distinct (map u_id (db_users sample_users))" "oauth_roles sample_oauth sample_claims = Inr [PStr ''guest'', PStr ''staff'']"
    by code_simp+
  from oauth_role_follows_claims [OF this]
  show ?thesis
    by (cases "update_user_role_from_oauth sample_oauth ?u sample_claims sample_users")
      (auto simp: sample_oauth_def split: sum.splits)
qed

subsection \<open>What changing the groups does to membership\<close>

definition id_names :: "group_db \<Rightarrow> (string \<times> string) list" where
  "id_names db = map (\<lambda>g. (g_id g, g_name g)) (db_groups db)"

lemma id_names_touch [simp]: "id_names (touch_group n p db) = id_names db"
  by (simp add: id_names_def touch_group_def map_sql_update)

lemma id_names_members [simp]: "id_names (db\<lparr>db_members := ms\<rparr>) = id_names db"
  by (simp add: id_names_def)

lemma member_touch [simp]: "is_member (touch_group n p db) = is_member db"
  by (rule ext)+ (simp add: is_member_def)

lemma get_group_present: "(i, n) \<in> set (id_names db) \<Longrightarrow> get_group_by_id i db \<noteq> None"
  by (auto simp: id_names_def get_group_by_id_def find_None_iff)

lemma remove_one_member:
  assumes "(i, n) \<in> set (id_names db)"
  shows "is_member (fst (remove_users_from_group now i (Some [u]) db)) x v \<longleftrightarrow> is_member db x v \<and> \<not> (x = i \<and> v = u)"
    and "id_names (fst (remove_users_from_group now i (Some [u]) db)) = id_names db"
    and "gm_id ` set (db_members (fst (remove_users_from_group now i (Some [u]) db))) \<subseteq> gm_id ` set (db_members db)"
    and "db_users (fst (remove_users_from_group now i (Some [u]) db)) = db_users db"
    and "db_fk (fst (remove_users_from_group now i (Some [u]) db)) = db_fk db"
  using get_group_present [OF assms]
  by (auto simp: remove_users_from_group_def Let_def is_member_def list_ex_iff sql_delete_def)

lemma add_one_member:
  assumes "(i, n) \<in> set (id_names db)" "group_db_ok db" "uuid \<notin> gm_id ` set (db_members db)"
    and "db_fk db \<Longrightarrow> u \<in> u_id ` set (db_users db)"
  shows "is_member (fst (add_users_to_group (\<lambda>_. uuid) now i (Some [u]) db)) x v \<longleftrightarrow> is_member db x v \<or> (x = i \<and> v = u)"
    and "id_names (fst (add_users_to_group (\<lambda>_. uuid) now i (Some [u]) db)) = id_names db"
    and "gm_id ` set (db_members (fst (add_users_to_group (\<lambda>_. uuid) now i (Some [u]) db))) \<subseteq> insert uuid (gm_id ` set (db_members db))"
    and "db_users (fst (add_users_to_group (\<lambda>_. uuid) now i (Some [u]) db)) = db_users db"
    and "db_fk (fst (add_users_to_group (\<lambda>_. uuid) now i (Some [u]) db)) = db_fk db"
proof -
  let ?ms = "db_members db @ [new_member uuid i u now]"
  have "i \<in> g_id ` set (db_groups db)" using assms(1) by (force simp: id_names_def)
  then have ok: "members_ok db ?ms \<longleftrightarrow> \<not> is_member db i u"
    using assms(2, 3, 4) by (auto simp: group_db_ok_def members_ok_def is_member_iff)
  have db': "fst (add_users_to_group (\<lambda>_. uuid) now i (Some [u]) db) =
      touch_group now (\<lambda>j. j = i) (db\<lparr>db_members := (if is_member db i u then db_members db else ?ms)\<rparr>)"
    using get_group_present [OF assms(1)] ok by (auto simp: add_users_to_group_def Let_def)
  have "is_member (db\<lparr>db_members := ?ms\<rparr>) x v \<longleftrightarrow> is_member db x v \<or> (x = i \<and> v = u)"
    by (auto simp: is_member_def)
  then show "is_member (fst (add_users_to_group (\<lambda>_. uuid) now i (Some [u]) db)) x v \<longleftrightarrow> is_member db x v \<or> (x = i \<and> v = u)"
    unfolding db' by auto
  show "id_names (fst (add_users_to_group (\<lambda>_. uuid) now i (Some [u]) db)) = id_names db"
    "gm_id ` set (db_members (fst (add_users_to_group (\<lambda>_. uuid) now i (Some [u]) db))) \<subseteq> insert uuid (gm_id ` set (db_members db))"
    "db_users (fst (add_users_to_group (\<lambda>_. uuid) now i (Some [u]) db)) = db_users db"
    "db_fk (fst (add_users_to_group (\<lambda>_. uuid) now i (Some [u]) db)) = db_fk db"
    unfolding db' by auto
qed

lemma save_group_keeps:
  assumes "(g_id g, g_name g) \<in> set (id_names db)" "distinct (map fst (id_names db))"
  shows "id_names (save_group now perms g db) = id_names db"
    and "is_member (save_group now perms g db) = is_member db"
    and "db_members (save_group now perms g db) = db_members db"
    and "db_users (save_group now perms g db) = db_users db" "db_fk (save_group now perms g db) = db_fk db"
proof -
  have name: "g_name h = g_name g" if "g_id h = g_id g" "h \<in> set (db_groups db)" for h
  proof -
    have "(g_id g, g_name h) \<in> set (id_names db)" using that by (auto simp: id_names_def image_iff intro!: bexI [of _ h])
    then show ?thesis using assms eq_key_imp_eq_value by fast
  qed
  have "id_names (save_group now perms g db) =
      map (\<lambda>h. (g_id h, if g_id h = g_id g then g_name g else g_name h)) (db_groups db)"
    by (simp add: save_group_def update_group_by_id_def Let_def id_names_def sql_update_def)
  also have "\<dots> = id_names db" unfolding id_names_def by (rule map_cong) (use name in auto)
  finally show "id_names (save_group now perms g db) = id_names db" .
  show "is_member (save_group now perms g db) = is_member db"
    by (rule ext)+ (simp add: save_group_def update_group_by_id_def Let_def is_member_def)
qed (simp_all add: save_group_def update_group_by_id_def Let_def)

lemma save_group_ok: "group_db_ok db \<Longrightarrow> group_db_ok (save_group now perms g db)"
  unfolding save_group_def Let_def by (rule group_step_ok [OF group_step.update])

lemma ids_distinct: "group_db_ok db \<Longrightarrow> distinct (map fst (id_names db))"
  by (simp add: group_db_ok_def groups_ok_def id_names_def comp_def)

text \<open>What the two loops rely on and keep.\<close>

definition same_groups :: "group_db \<Rightarrow> group_db \<Rightarrow> bool" where
  "same_groups db d = (group_db_ok d \<and> id_names d = id_names db \<and> db_users d = db_users db \<and> db_fk d = db_fk db)"

definition quits :: "(string \<Rightarrow> bool) \<Rightarrow> pyval list \<Rightarrow> group_row \<Rightarrow> bool" where
  "quits blocked groups g = (groups \<noteq> [] \<and> PStr (g_name g) \<notin> set groups \<and> \<not> blocked (g_name g))"

definition joins :: "(string \<Rightarrow> bool) \<Rightarrow> pyval list \<Rightarrow> group_row list \<Rightarrow> group_row \<Rightarrow> bool" where
  "joins blocked groups current g =
     (groups \<noteq> [] \<and> PStr (g_name g) \<in> set groups \<and> \<not> list_ex (\<lambda>gm. g_name gm = g_name g) current \<and> \<not> blocked (g_name g))"

lemma leave_group_step:
  assumes "same_groups db d" "(g_id g, g_name g) \<in> set (id_names db)"
    and eq: "d' = leave_group blocked perms groups u nows g d"
  shows "same_groups db d'" "gm_id ` set (db_members d') \<subseteq> gm_id ` set (db_members d)"
    and "is_member d' x v \<longleftrightarrow> is_member d x v \<and> \<not> (quits blocked groups g \<and> x = g_id g \<and> v = u)"
proof -
  let ?r = "fst (remove_users_from_group (fst nows) (g_id g) (Some [u]) d)"
  have g: "(g_id g, g_name g) \<in> set (id_names d)" and ok: "group_db_ok d"
    using assms(1, 2) by (simp_all add: same_groups_def)
  note r = remove_one_member [OF g, of "fst nows" u]
  have rok: "group_db_ok ?r" by (rule group_step_ok [OF group_step.remove_users ok])
  have g': "(g_id g, g_name g) \<in> set (id_names ?r)" using g r(2) by simp
  note s = save_group_keeps [OF g' ids_distinct [OF rok], of "snd nows" perms]
  have d': "d' = (if quits blocked groups g then save_group (snd nows) perms g ?r else d)"
    by (simp add: eq leave_group_def quits_def)
  show "same_groups db d'" using assms(1) rok r s save_group_ok [OF rok] unfolding d' same_groups_def by simp
  show "gm_id ` set (db_members d') \<subseteq> gm_id ` set (db_members d)" using r(3) s(3) unfolding d' by simp
  show "is_member d' x v \<longleftrightarrow> is_member d x v \<and> \<not> (quits blocked groups g \<and> x = g_id g \<and> v = u)"
    using r(1) s(2) unfolding d' by auto
qed

lemma leave_groups:
  assumes "same_groups db d" "\<forall>g \<in> set gs. (g_id g, g_name g) \<in> set (id_names db)"
    and "d' = fold (\<lambda>(i, g). leave_group blocked perms groups u (nows i) g) (enumerate k gs) d"
  shows "same_groups db d' \<and> gm_id ` set (db_members d') \<subseteq> gm_id ` set (db_members d)
    \<and> (\<forall>x v. is_member d' x v \<longleftrightarrow> is_member d x v \<and> \<not> (v = u \<and> (\<exists>g \<in> set gs. quits blocked groups g \<and> x = g_id g)))"
  using assms(1, 2) unfolding assms(3)
proof (induction gs arbitrary: k d)
  case (Cons g gs)
  let ?d = "leave_group blocked perms groups u (nows k) g d"
  let ?e = "fold (\<lambda>(i, g). leave_group blocked perms groups u (nows i) g) (enumerate (Suc k) gs) ?d"
  note s = leave_group_step [OF Cons.prems(1), of g _ blocked perms groups u "nows k", OF _ refl]
  have "same_groups db ?d" using s(1) Cons.prems(2) by simp
  then have IH: "same_groups db ?e" "gm_id ` set (db_members ?e) \<subseteq> gm_id ` set (db_members ?d)"
    "\<And>x v. is_member ?e x v \<longleftrightarrow> is_member ?d x v \<and> \<not> (v = u \<and> (\<exists>g \<in> set gs. quits blocked groups g \<and> x = g_id g))"
    using Cons.IH [of ?d "Suc k"] Cons.prems(2) by simp_all
  have "gm_id ` set (db_members ?e) \<subseteq> gm_id ` set (db_members d)"
    using subset_trans [OF IH(2) s(2)] Cons.prems(2) by simp
  moreover have "is_member ?e x v \<longleftrightarrow> is_member d x v \<and> \<not> (v = u \<and> (\<exists>h \<in> set (g # gs). quits blocked groups h \<and> x = g_id h))" for x v
    using IH(3) s(3) Cons.prems(2) by auto
  ultimately show ?case using IH(1) by simp
qed simp

lemma join_group_step:
  assumes "same_groups db d" "(g_id g, g_name g) \<in> set (id_names db)" "fst new \<notin> gm_id ` set (db_members d)"
    and "db_fk db \<Longrightarrow> u \<in> u_id ` set (db_users db)"
    and eq: "d' = join_group blocked perms groups current u new g d"
  shows "same_groups db d'" "gm_id ` set (db_members d') \<subseteq> insert (fst new) (gm_id ` set (db_members d))"
    and "is_member d' x v \<longleftrightarrow> is_member d x v \<or> (joins blocked groups current g \<and> x = g_id g \<and> v = u)"
proof -
  let ?a = "fst (add_users_to_group (\<lambda>_. fst new) (fst (snd new)) (g_id g) (Some [u]) d)"
  have g: "(g_id g, g_name g) \<in> set (id_names d)" and ok: "group_db_ok d"
    using assms(1, 2) by (simp_all add: same_groups_def)
  have "db_fk d \<Longrightarrow> u \<in> u_id ` set (db_users d)" using assms(1, 4) by (simp add: same_groups_def)
  note a = add_one_member [OF g ok assms(3) this, of "fst (snd new)"]
  have aok: "group_db_ok ?a" by (rule group_step_ok [OF group_step.add_users ok])
  have g': "(g_id g, g_name g) \<in> set (id_names ?a)" using g a(2) by simp
  note s = save_group_keeps [OF g' ids_distinct [OF aok], of "snd (snd new)" perms]
  have d': "d' = (if joins blocked groups current g then save_group (snd (snd new)) perms g ?a else d)"
    by (simp add: eq join_group_def joins_def)
  show "same_groups db d'" using assms(1) aok a s save_group_ok [OF aok] unfolding d' same_groups_def by simp
  show "gm_id ` set (db_members d') \<subseteq> insert (fst new) (gm_id ` set (db_members d))"
    using a(3) s(3) unfolding d' by auto
  show "is_member d' x v \<longleftrightarrow> is_member d x v \<or> (joins blocked groups current g \<and> x = g_id g \<and> v = u)"
    using a(1) s(2) unfolding d' by auto
qed

lemma join_groups:
  assumes "same_groups db d" "\<forall>g \<in> set gs. (g_id g, g_name g) \<in> set (id_names db)"
    and "inj (fst \<circ> new)" "\<forall>j \<ge> k. fst (new j) \<notin> gm_id ` set (db_members d)"
    and "db_fk db \<Longrightarrow> u \<in> u_id ` set (db_users db)"
    and "d' = fold (\<lambda>(i, g). join_group blocked perms groups current u (new i) g) (enumerate k gs) d"
  shows "same_groups db d'
    \<and> (\<forall>x v. is_member d' x v \<longleftrightarrow> is_member d x v \<or> (v = u \<and> (\<exists>g \<in> set gs. joins blocked groups current g \<and> x = g_id g)))"
  using assms(1, 2, 4) unfolding assms(6)
proof (induction gs arbitrary: k d)
  case (Cons g gs)
  let ?d = "join_group blocked perms groups current u (new k) g d"
  let ?e = "fold (\<lambda>(i, g). join_group blocked perms groups current u (new i) g) (enumerate (Suc k) gs) ?d"
  note s = join_group_step [OF Cons.prems(1), of g "new k" u _ blocked perms groups current, OF _ _ assms(5) refl]
  have g: "(g_id g, g_name g) \<in> set (id_names db)" and new: "fst (new k) \<notin> gm_id ` set (db_members d)"
    using Cons.prems by simp_all
  have "\<forall>j \<ge> Suc k. fst (new j) \<notin> gm_id ` set (db_members ?d)"
  proof (intro allI impI notI)
    fix j assume j: "Suc k \<le> j" "fst (new j) \<in> gm_id ` set (db_members ?d)"
    then have "fst (new j) \<noteq> fst (new k)" using injD [OF assms(3), of j k] by auto
    then have "fst (new j) \<in> gm_id ` set (db_members d)" using j(2) s(2) [OF g new] by blast
    then show False using Cons.prems(3) j(1) by simp
  qed
  then have IH: "same_groups db ?e"
    "\<And>x v. is_member ?e x v \<longleftrightarrow> is_member ?d x v \<or> (v = u \<and> (\<exists>g \<in> set gs. joins blocked groups current g \<and> x = g_id g))"
    using Cons.IH [OF s(1) [OF g new], of "Suc k"] Cons.prems(2) by simp_all
  have "is_member ?e x v \<longleftrightarrow> is_member d x v \<or> (v = u \<and> (\<exists>h \<in> set (g # gs). joins blocked groups current h \<and> x = g_id h))" for x v
    using IH(2) s(3) [OF g new] by auto
  then show ?case using IH(1) by simp
qed simp

text \<open>Creating the missing groups adds groups with new names and no members.\<close>

lemma created_groups:
  assumes "create_missing_groups share perms oshare creator fresh i groups names db = (d, Inr x)"
    and "group_db_ok db" "g_name ` set (db_groups db) \<subseteq> set names" "distinct (map g_name (db_groups db))"
  shows "group_db_ok d \<and> db_members d = db_members db \<and> db_users d = db_users db \<and> db_fk d = db_fk db
    \<and> distinct (map g_name (db_groups d))
    \<and> (\<exists>new. db_groups d = db_groups db @ new \<and> (\<forall>g \<in> set new. g_id g \<in> range (fst \<circ> fresh)))"
  using assms
proof (induction groups arbitrary: i names db)
  case (Cons name rest)
  show ?case
  proof (cases "\<exists>n. name = PStr n \<and> n \<notin> set names")
    case False
    then have "create_missing_groups share perms oshare creator fresh (Suc i) rest names db = (d, Inr x)"
      using Cons.prems(1) by (cases name) (auto split: if_splits)
    then show ?thesis using Cons.IH Cons.prems by blast
  next
    case True
    then obtain n where n: "name = PStr n" "n \<notin> set names" by blast
    obtain uuid now1 now2 where f: "fresh i = (uuid, now1, now2)" by (cases "fresh i")
    let ?form = "oauth_group_form perms oshare n"
    obtain db' r where ins: "insert_new_group share uuid now1 now2 creator ?form db = (db', r)"
      by (cases "insert_new_group share uuid now1 now2 creator ?form db")
    show ?thesis
    proof (cases "\<exists>g. r = Inr (Some g)")
      case False
      then have "create_missing_groups share perms oshare creator fresh (Suc i) rest names db' = (d, Inr x)"
        using Cons.prems(1) n f ins by (auto split: sum.splits option.splits)
      moreover have "db' = db"
        using ins False by (auto simp: insert_new_group_def Let_def split: sum.splits if_splits)
      ultimately show ?thesis using Cons.IH Cons.prems by blast
    next
      case True
      then obtain g where r: "r = Inr (Some g)" by blast
      have g: "db' = db\<lparr>db_groups := db_groups db @ [g]\<rparr>" "g_id g = uuid" "g_name g = n" "groups_ok (db_groups db @ [g])"
        using ins r by (auto simp: insert_new_group_def Let_def oauth_group_form_def split: sum.splits if_splits)
      have "create_missing_groups share perms oshare creator fresh (Suc i) rest (n # names) db' = (d, Inr x)"
        using Cons.prems(1) n f ins r by simp
      moreover have "group_db_ok db'" unfolding g(1) using Cons.prems(2) g(4) by (rule group_db_ok_add_group)
      moreover have "distinct (map g_name (db_groups db'))" "g_name ` set (db_groups db') \<subseteq> set (n # names)"
        using Cons.prems(3, 4) n(2) g by auto
      ultimately obtain new where d: "group_db_ok d" "db_members d = db_members db'" "db_users d = db_users db'" "db_fk d = db_fk db'"
          "distinct (map g_name (db_groups d))" "db_groups d = db_groups db' @ new" "\<forall>g \<in> set new. g_id g \<in> range (fst \<circ> fresh)"
        using Cons.IH by blast
      have "g_id g \<in> range (fst \<circ> fresh)" using f g(2) by (metis comp_apply fst_conv rangeI)
      then have "\<forall>h \<in> set (g # new). g_id h \<in> range (fst \<circ> fresh)" using d(7) by simp
      moreover have "db_groups d = db_groups db @ g # new" using d(6) g(1) by simp
      moreover have "db_members d = db_members db" "db_users d = db_users db" "db_fk d = db_fk db" using d(2, 3, 4) g(1) by simp_all
      ultimately show ?thesis using d(1, 5) by blast
    qed
  qed
qed auto

text \<open>The tables after the missing groups were created, and the two loops that follow.\<close>

lemma update_groups_stages:
  assumes "update_user_groups loads re_search fnmatch cfg share fresh_groups nows fresh_members user user_data perms db = (db', Inr ())"
    and "oauth_groups cfg user_data = Inr groups" "group_db_ok db" "distinct (map g_name (db_groups db))"
    and b: "b = (\<lambda>n. is_in_blocked_groups re_search fnmatch n (case loads (oc_blocked_groups cfg) of Some ps \<Rightarrow> ps | None \<Rightarrow> []))"
  obtains c where "group_db_ok c" "db_members c = db_members db" "db_users c = db_users db" "db_fk c = db_fk db"
    "distinct (map g_name (db_groups c))"
    "\<exists>new. db_groups c = db_groups db @ new \<and> (\<forall>g \<in> set new. g_id g \<in> range (fst \<circ> fresh_groups))"
    "db' = fold (\<lambda>(i, g). join_group b perms groups (get_groups_by_member_id (u_id user) db) (u_id user) (fresh_members i) g)
         (enumerate 0 (get_all_groups c))
         (fold (\<lambda>(i, g). leave_group b perms groups (u_id user) (nows i) g)
            (enumerate 0 (get_groups_by_member_id (u_id user) db)) c)"
proof -
  let ?creator = "case find (\<lambda>u. u_role u = ''admin'') (db_users db) of Some a \<Rightarrow> u_id a | None \<Rightarrow> u_id user"
  obtain c r where cr: "(if oc_group_creation cfg
        then create_missing_groups share perms (oc_group_default_share cfg) ?creator fresh_groups 0 groups (map g_name (get_all_groups db)) db
        else (db, Inr ())) = (c, r)" by fastforce
  have r: "r = Inr ()" and d': "db' = fold (\<lambda>(i, g). join_group b perms groups (get_groups_by_member_id (u_id user) db) (u_id user) (fresh_members i) g)
         (enumerate 0 (get_all_groups c))
         (fold (\<lambda>(i, g). leave_group b perms groups (u_id user) (nows i) g)
            (enumerate 0 (get_groups_by_member_id (u_id user) db)) c)"
    using assms(1) unfolding update_user_groups_def Let_def assms(2) sum.case cr b by (auto split: sum.splits)
  have "group_db_ok c \<and> db_members c = db_members db \<and> db_users c = db_users db \<and> db_fk c = db_fk db
      \<and> distinct (map g_name (db_groups c))
      \<and> (\<exists>new. db_groups c = db_groups db @ new \<and> (\<forall>g \<in> set new. g_id g \<in> range (fst \<circ> fresh_groups)))"
  proof (cases "oc_group_creation cfg")
    case True
    then have "create_missing_groups share perms (oc_group_default_share cfg) ?creator fresh_groups 0 groups
        (map g_name (get_all_groups db)) db = (c, Inr ())" using cr r by simp
    then show ?thesis by (rule created_groups) (use assms(3, 4) in \<open>simp_all add: get_all_groups_def\<close>)
  qed (use cr assms(3, 4) in auto)
  then show thesis using that d' by blast
qed

text \<open>Groups are told apart by identifier and by name, so what is decided by name concerns one group.\<close>

lemma one_group:
  assumes "group_db_ok c" "distinct (map g_name (db_groups c))"
    and "(i, n) \<in> set (id_names c)" "(j, m) \<in> set (id_names c)"
  shows "i = j \<longleftrightarrow> n = m"
proof -
  obtain a b where ab: "a \<in> set (db_groups c)" "b \<in> set (db_groups c)" "i = g_id a" "n = g_name a" "j = g_id b" "m = g_name b"
    using assms(3, 4) by (auto simp: id_names_def)
  have "distinct (map g_id (db_groups c))" using assms(1) by (simp add: group_db_ok_def groups_ok_def)
  then show ?thesis using ab assms(2) by (metis distinct_map inj_onD)
qed

lemma current_group:
  assumes "is_member db (g_id g) u" "(g_id g, g_name g) \<in> set (id_names c)"
    and "db_groups c = db_groups db @ new" "\<forall>h \<in> set new. g_id h \<notin> gm_group_id ` set (db_members db)"
  shows "\<exists>h \<in> set (get_groups_by_member_id u db). g_id h = g_id g"
proof -
  obtain m where "m \<in> set (db_members db)" "gm_group_id m = g_id g"
    using assms(1) by (auto simp: is_member_def list_ex_iff)
  then have "g_id g \<in> gm_group_id ` set (db_members db)" by force
  moreover obtain h where h: "h \<in> set (db_groups c)" "g_id h = g_id g" using assms(2) by (auto simp: id_names_def)
  ultimately have "h \<in> set (db_groups db)" using assms(3, 4) by auto
  then show ?thesis using assms(1) h(2) by (auto simp: set_get_groups_by_member_id)
qed

lemma membership_by_name:
  assumes "group_db_ok c" "distinct (map g_name (db_groups c))" "groups \<noteq> []"
    and "\<forall>h \<in> set cur. (g_id h, g_name h) \<in> set (id_names c)"
    and g: "(g_id g, g_name g) \<in> set (id_names c)"
    and cur: "(\<exists>h \<in> set cur. g_id h = g_id g) \<longleftrightarrow> was_member"
  shows "(was_member \<and> \<not> (\<exists>h \<in> set cur. quits b groups h \<and> g_id g = g_id h))
      \<or> (\<exists>h \<in> set (db_groups c). joins b groups cur h \<and> g_id g = g_id h)
    \<longleftrightarrow> (if \<not> b (g_name g) then PStr (g_name g) \<in> set groups else was_member)"
proof -
  note one = one_group [OF assms(1, 2) _ g]
  have in_c: "h \<in> set (db_groups c) \<Longrightarrow> (g_id h, g_name h) \<in> set (id_names c)" for h by (simp add: id_names_def)
  have "(\<exists>h \<in> set cur. quits b groups h \<and> g_id g = g_id h) \<longleftrightarrow>
      PStr (g_name g) \<notin> set groups \<and> \<not> b (g_name g) \<and> was_member"
    using one assms(3, 4) cur unfolding quits_def by metis
  moreover have "list_ex (\<lambda>gm. g_name gm = g_name g) cur \<longleftrightarrow> was_member"
    using one assms(4) cur unfolding list_ex_iff by metis
  moreover have "(\<exists>h \<in> set (db_groups c). joins b groups cur h \<and> g_id g = g_id h) \<longleftrightarrow>
      PStr (g_name g) \<in> set groups \<and> \<not> b (g_name g) \<and> \<not> list_ex (\<lambda>gm. g_name gm = g_name g) cur"
  proof -
    obtain h where h: "h \<in> set (db_groups c)" "g_id h = g_id g" "g_name h = g_name g" using g by (auto simp: id_names_def)
    have "g_name h = g_name g" if "h \<in> set (db_groups c)" "g_id g = g_id h" for h
      using one [OF in_c [OF that(1)]] that(2) by simp
    then show ?thesis using h assms(3) unfolding joins_def by metis
  qed
  ultimately show ?thesis by auto
qed


definition sample_update :: "group_db \<times> unit result" where
  "sample_update =
     update_user_groups (\<lambda>_. Some []) (\<lambda>_ _. None) (\<lambda>_ _. False) sample_oauth (PBool True)
       (\<lambda>i. (''n'' @ replicate i CHR ''x'', 1, 1)) (\<lambda>_. (2, 3)) (\<lambda>i. (''r'' @ replicate i CHR ''x'', 4, 5))
       (db_users sample_users ! 1) sample_claims None sample_users"


end
