(* ===== verification/Replay_Messages.thy ===== *)
theory Replay_Messages
  imports Output_Messages Message_Edits Chat_Branch
begin

section \<open>The messages of a saved chat for a provider\<close>

text \<open>
  Models the steps of \<open>process_chat_payload\<close> in \<open>utils/middleware.py\<close> that replace the messages of a request by the
  branch stored in the database, put the images of a message into its content, expand the stored output of the
  assistant into messages, and drop tool calls without a result and results without a call. The second caller
  (continuing after an approval) runs the last steps on the same functions. The summary of a long conversation,
  made in between, is \<open>Context_Compaction\<close>.
\<close>

subsection \<open>Loading\<close>

definition MESSAGE_REPLAY_KEYS :: "string list" where
  "MESSAGE_REPLAY_KEYS =
     [''id'', ''role'', ''content'', ''output'', ''files'', ''contextSummary'', ''usage'', ''model'']"

definition replay_fields :: "pyval \<Rightarrow> pydict result" where
  "replay_fields message =
     (case message of PDict d \<Rightarrow> Inr (filter (\<lambda>(k, v). k \<in> set MESSAGE_REPLAY_KEYS) d) | _ \<Rightarrow> Inl AttributeError)"

definition load_messages_from_db :: "pydict option \<Rightarrow> pyval \<Rightarrow> pydict list option result" where
  "load_messages_from_db messages_map message_id =
     (case messages_map of
        None \<Rightarrow> Inr None
      | Some m \<Rightarrow>
          if m = [] then Inr None
          else rbind (get_message_list m message_id) (\<lambda>db_messages.
               if db_messages = [] then Inr None
               else rbind (rmap replay_fields db_messages) (\<lambda>ms. Inr (Some ms))))"

text \<open>An image among the files of a message, and its part of the content.\<close>

definition is_image :: "pyval \<Rightarrow> bool result" where
  "is_image f =
     rbind (py_get f ''type'' PNone) (\<lambda>t.
       if t = PStr ''image'' then Inr True
       else rbind (py_get f ''content_type'' PNone) (\<lambda>c.
         case py_or c (PStr []) of PStr s \<Rightarrow> Inr (starts_with s ''image/'') | _ \<Rightarrow> Inl AttributeError))"

definition file_image_part :: "pyval \<Rightarrow> pyval" where
  "file_image_part f =
     PDict [(''type'', PStr ''image_url''),
            (''image_url'', PDict [(''url'', case f of PDict d \<Rightarrow> dget d ''url'' | _ \<Rightarrow> PNone)])]"

definition has_url :: "pyval \<Rightarrow> bool" where
  "has_url f = (case f of PDict d \<Rightarrow> truthy (dget d ''url'') | _ \<Rightarrow> False)"

fun images_of :: "pyval list \<Rightarrow> pyval list result" where
  "images_of [] = Inr []"
| "images_of (f # fs) = rbind (is_image f) (\<lambda>b. rbind (images_of fs) (\<lambda>is. Inr (if b then f # is else is)))"

definition inject_images :: "pydict \<Rightarrow> pydict result" where
  "inject_images message =
     rbind (py_iter (dget_or message ''files'' (PList []))) (\<lambda>files. rbind (images_of files) (\<lambda>image_files.
       let text_content = dget_or message ''content'' (PStr []);
           message = (if dget message ''role'' = PStr ''user'' \<and> image_files \<noteq> [] \<and> is_str text_content
             then dset ''content'' (PList (PDict [(''type'', PStr ''text''), (''text'', text_content)]
                    # map file_image_part (filter has_url image_files))) message
             else message)
       in Inr (dpop ''files'' message)))"

text \<open>
  The messages a request goes on with: those of the branch, with the system message of the request before them and the
  answer being continued after them.
\<close>

definition continued_answer :: "pyval option \<Rightarrow> pydict list result" where
  "continued_answer assistant =
     (case assistant of
        None \<Rightarrow> Inr []
      | Some v \<Rightarrow>
          if \<not> truthy v then Inr []
          else (case v of
                  PDict d \<Rightarrow>
                    if truthy (dget d ''content'') \<or> truthy (dget d ''output'')
                    then rbind (replay_fields v) (\<lambda>m. Inr [m]) else Inr []
                | _ \<Rightarrow> Inl AttributeError))"

definition rebuild_messages ::
  "string option \<Rightarrow> string option \<Rightarrow> pydict option \<Rightarrow> pyval option \<Rightarrow> pydict list \<Rightarrow> pydict list result" where
  "rebuild_messages chat_id user_message_id messages_map assistant messages =
     (if \<not> is_saved_chat_id chat_id \<or> user_message_id \<in> {None, Some []} then Inr messages
      else rbind (load_messages_from_db messages_map (PStr (the user_message_id))) (\<lambda>db.
        case db of
          None \<Rightarrow> Inr messages
        | Some db_messages \<Rightarrow>
            rbind (continued_answer assistant) (\<lambda>answer.
            rbind (get_system_message messages) (\<lambda>system.
              rmap inject_images
                ((case system of None \<Rightarrow> [] | Some m \<Rightarrow> if m = [] then [] else [m]) @ db_messages @ answer)))))"

subsection \<open>Reasoning and output\<close>

text \<open>\<open>get_reasoning_format\<close> of a model's entry.\<close>

definition get_reasoning_format :: "pydict \<Rightarrow> string option" where
  "get_reasoning_format model =
     (if dget model ''owned_by'' = PStr ''ollama'' then Some ''thinking''
      else if dget_or model ''provider'' (PStr []) = PStr ''llama.cpp'' then Some ''reasoning_content''
      else None)"

definition strip_reasoning_details :: "pyval list \<Rightarrow> pyval list" where
  "strip_reasoning_details output =
     map (\<lambda>item. case item of PDict d \<Rightarrow> PDict (filter (\<lambda>(k, v). k \<noteq> ''reasoning_details'') d) | _ \<Rightarrow> item) output"

definition strip_foreign_details :: "pydict \<Rightarrow> pydict \<Rightarrow> pydict result" where
  "strip_foreign_details model message =
     (if dget message ''role'' \<noteq> PStr ''assistant'' then Inr message
      else rbind (dict_item model ''id'') (\<lambda>model_id.
        Inr (case dget message ''output'' of
               PList output \<Rightarrow>
                 if dget message ''model'' \<noteq> model_id
                 then dset ''output'' (PList (strip_reasoning_details output)) message else message
             | _ \<Rightarrow> message)))"

definition STORED_KEYS :: "string list" where
  "STORED_KEYS = [''id'', ''files'', ''output'', ''model'', ''contextSummary'', ''context_summary'', ''usage'']"

definition clean_message :: "pydict \<Rightarrow> pydict" where
  "clean_message message = fold dpop STORED_KEYS message"

definition expand_message :: "conversion_options \<Rightarrow> pydict \<Rightarrow> pydict list result" where
  "expand_message opts message =
     (if dget message ''role'' = PStr ''assistant'' \<and> truthy (dget message ''output'')
      then rbind (convert_output_to_messages opts (dget message ''output'')) (\<lambda>output_messages.
        Inr (if output_messages \<noteq> [] then output_messages else [clean_message message]))
      else Inr [clean_message message])"

definition process_messages_with_output ::
  "(pyval \<Rightarrow> string) \<Rightarrow> (pyval \<Rightarrow> string) \<Rightarrow> string option \<Rightarrow> pydict list \<Rightarrow> pydict list result" where
  "process_messages_with_output py_str json_dumps reasoning_format messages =
     rbind (rmap (expand_message \<lparr>co_py_str = py_str, co_json_dumps = json_dumps, co_raw = True,
                    co_reasoning_format = reasoning_format, co_flatten_tool_images = True\<rparr>) messages)
       (\<lambda>ms. Inr (concat ms))"

subsection \<open>Pairs\<close>

definition answer_without_calls :: "pydict \<Rightarrow> pydict list" where
  "answer_without_calls message =
     (let clean = dpop ''reasoning_items'' (dpop ''tool_calls'' message)
      in if truthy (dget clean ''content'') then [clean] else [])"

definition sanitize_message :: "pyval list \<Rightarrow> pyval list \<Rightarrow> pydict \<Rightarrow> pydict list result" where
  "sanitize_message tool_result_ids tool_call_ids message =
     (if dget message ''role'' = PStr ''assistant'' \<and> truthy (dget message ''tool_calls'')
      then rbind (py_iter (dget message ''tool_calls'')) (\<lambda>calls. rbind (valid_calls tool_result_ids calls) (\<lambda>valid.
        Inr (if valid \<noteq> [] then [dset ''tool_calls'' (PList valid) message] else answer_without_calls message)))
      else if dget message ''role'' \<noteq> PStr ''tool'' then Inr [message]
      else rbind (hash_key (dget message ''tool_call_id'')) (\<lambda>k. Inr (if k \<in> set tool_call_ids then [message] else [])))"

definition sanitize_tool_pairs :: "pydict list \<Rightarrow> pydict list result" where
  "sanitize_tool_pairs messages =
     rbind (completed_ids messages) (\<lambda>tool_result_ids. rbind (requested_ids messages) (\<lambda>tool_call_ids.
       rbind (rmap (sanitize_message tool_result_ids tool_call_ids) messages) (\<lambda>ms. Inr (concat ms))))"

text \<open>The last steps, in the order of the code.\<close>

definition messages_for_provider ::
  "(pyval \<Rightarrow> string) \<Rightarrow> (pyval \<Rightarrow> string) \<Rightarrow> pydict \<Rightarrow> pydict list \<Rightarrow> pydict list result" where
  "messages_for_provider py_str json_dumps model messages =
     rbind (rmap (strip_foreign_details model) messages) (\<lambda>ms.
     rbind (process_messages_with_output py_str json_dumps (get_reasoning_format model) ms) sanitize_tool_pairs)"

subsection \<open>Pairs after sanitizing\<close>

interpretation sanitizing: tool_pairing answer_without_calls
  by unfold_locales (auto simp: answer_without_calls_def Let_def split: if_splits)

lemma sanitize_message_kept:
  assumes "readable m"
  shows "sanitize_message completed requested m =
    Inr (kept answer_without_calls (set completed) (set requested) m)"
proof (cases "role_is m ''assistant'' \<and> calls_of m \<noteq> []")
  case True
  then have t: "truthy (dget m ''tool_calls'')" using assms by (simp add: calls_of_empty)
  then have "py_iter (dget m ''tool_calls'') = Inr (calls_of m)"
    using assms by (auto simp: readable_def calls_of_def py_or_def)
  with t True assms show ?thesis
    by (simp add: sanitize_message_def kept_def readable_def valid_calls_Inr Let_def)
next
  case False
  with assms show ?thesis
    by (auto simp: sanitize_message_def kept_def calls_of_empty readable_def hash_key_def)
qed

lemma sanitize_Inr:
  assumes "\<And>m. m \<in> set ms \<Longrightarrow> readable m"
  shows "sanitize_tool_pairs ms =
    Inr (concat (map (kept answer_without_calls (completed_set ms) (requested_set ms)) ms))"
proof -
  have "rmap (sanitize_message c r) ms = Inr (map (kept answer_without_calls (set c) (set r)) ms)" for c r
    using assms by (induction ms) (simp_all add: sanitize_message_kept)
  with completed_ids_Inr [OF assms] requested_ids_Inr [OF assms] show ?thesis
    by (fastforce simp: sanitize_tool_pairs_def)
qed

lemma sanitize_readable:
  assumes "sanitize_tool_pairs ms = Inr rs" "m \<in> set ms"
  shows "readable m"
proof -
  from assms(1) obtain c r out where r: "requested_ids ms = Inr r" and l: "rmap (sanitize_message c r) ms = Inr out"
    by (auto simp: sanitize_tool_pairs_def rbind_Inr_iff)
  obtain kept where "sanitize_message c r m = Inr kept"
    using l assms(2) by (induction ms arbitrary: out) (auto simp: rbind_Inr_iff)
  with requested_ids_iter [OF r assms(2)] show ?thesis
    by (intro readableI [of m c]) (auto simp: sanitize_message_def rbind_Inr_iff hash_key_Inr)
qed

lemma sanitized_pairs:
  assumes r: "sanitize_tool_pairs ms = Inr rs"
  shows "paired rs" "sanitize_tool_pairs rs = Inr rs" "paired ms \<Longrightarrow> rs = ms"
    "filter plain_message rs = filter plain_message ms"
proof -
  have readable: "readable m" if "m \<in> set ms" for m using sanitize_readable [OF r that] .
  have rs: "rs = concat (map (kept answer_without_calls (completed_set ms) (requested_set ms)) ms)"
    using sanitize_Inr [OF readable] r by simp
  show "paired rs" by (rule sanitizing.pairing(1) [OF _ rs]) (rule readable)
  show "rs = ms" if "paired ms" by (rule sanitizing.pairing(3) [OF _ rs that]) (rule readable)
  have "readable x" if "x \<in> set rs" for x by (rule sanitizing.pairing(2) [OF _ rs that]) (rule readable)
  moreover have "concat (map (kept answer_without_calls (completed_set rs) (requested_set rs)) rs) = rs"
    by (rule sanitizing.pairing(4) [OF _ rs]) (rule readable)
  ultimately show "sanitize_tool_pairs rs = Inr rs" using sanitize_Inr [of rs] by simp
  show "filter plain_message rs = filter plain_message ms"
    unfolding rs by (rule sanitizing.plain_kept)
qed

subsection \<open>Nothing stored reaches the provider\<close>

definition unstored :: "pydict \<Rightarrow> bool" where
  "unstored m = list_all (\<lambda>k. \<not> dhas m k) STORED_KEYS"

lemma unstored_dset: "unstored m \<Longrightarrow> k \<notin> set STORED_KEYS \<Longrightarrow> unstored (dset k v m)"
  by (auto simp: unstored_def list_all_iff)

lemma unstored_dpop: "unstored m \<Longrightarrow> unstored (dpop k m)"
  by (auto simp: unstored_def list_all_iff)

lemma unstored_clean: "unstored (clean_message m)"
  by (simp add: unstored_def clean_message_def STORED_KEYS_def)

lemma clean_message_dget: "k \<notin> set STORED_KEYS \<Longrightarrow> dget (clean_message m) k = dget m k"
  by (auto simp: clean_message_def STORED_KEYS_def)

lemma unstored_flush_pending:
  "list_all unstored (cv_messages st) \<Longrightarrow> list_all unstored (cv_messages (flush_pending f st))"
  by (auto simp: flush_pending_def Let_def unstored_def STORED_KEYS_def dhas_def)

lemma unstored_flush_tool_images:
  "list_all unstored (cv_messages st) \<Longrightarrow> list_all unstored (cv_messages (flush_tool_images st))"
  by (simp add: flush_tool_images_def unstored_def STORED_KEYS_def dhas_def)

lemma unstored_tool_message: "unstored (tool_message item c)"
  by (simp add: tool_message_def unstored_def STORED_KEYS_def dhas_def)

lemma unstored_flush_outputs:
  "rfold (flush_output py_str flat) items st = Inr st' \<Longrightarrow> list_all unstored (cv_messages st) \<Longrightarrow>
     list_all unstored (cv_messages st')"
proof (induction items arbitrary: st)
  case (Cons item items)
  then obtain st1 where st1: "flush_output py_str flat item st = Inr st1" "rfold (flush_output py_str flat) items st1 = Inr st'"
    by (auto simp: rbind_Inr_iff)
  from flush_output_messages [OF st1(1)] Cons.prems(2) have "list_all unstored (cv_messages st1)"
    by (auto simp: unstored_tool_message)
  with Cons.IH [OF st1(2)] show ?case by blast
qed simp

lemma unstored_flush_tools:
  assumes "flush_tools opts st = Inr st'" "list_all unstored (cv_messages st)"
  shows "list_all unstored (cv_messages st')"
  using assms unstored_flush_outputs unstored_flush_pending unstored_flush_tool_images
  by (fastforce simp: flush_tools_def flush_tool_outputs_def rbind_Inr_iff split: if_splits)

lemma handle_typed_item_messages:
  "handle_typed_item opts ids type item st = Inr st' \<Longrightarrow> cv_messages st' = cv_messages st"
  by (auto simp: handle_typed_item_def handle_message_def handle_function_call_def handle_function_call_output_def
      handle_reasoning_def handle_code_interpreter_def rbind_Inr_iff Let_def split: if_splits)

lemma unstored_convert_items:
  assumes "convert_items opts items = Inr ms"
  shows "list_all unstored ms"
proof -
  have loop: "rfold (convert_item opts ids) items st = Inr st' \<Longrightarrow> list_all unstored (cv_messages st) \<Longrightarrow>
      list_all unstored (cv_messages st')" for ids st st'
  proof (induction items arbitrary: st)
    case (Cons item items)
    then obtain st1 where st1: "convert_item opts ids item st = Inr st1" "rfold (convert_item opts ids) items st1 = Inr st'"
      by (auto simp: rbind_Inr_iff)
    then obtain d st2 where st2: "st2 = st \<or> flush_tools opts st = Inr st2"
      and h: "handle_typed_item opts ids (dget_or d ''type'' (PStr [])) d st2 = Inr st1"
      by (cases item) (auto simp: convert_item_def rbind_Inr_iff hash_key_Inr split: if_splits)
    from st2 Cons.prems(2) unstored_flush_tools have "list_all unstored (cv_messages st2)" by blast
    with handle_typed_item_messages [OF h] Cons.IH [OF st1(2)] show ?case by simp
  qed simp
  show ?thesis
    using assms loop unstored_flush_tools unstored_flush_pending
    by (fastforce simp: convert_items_def rbind_Inr_iff no_messages_def)
qed

subsection \<open>Expanding loses nothing\<close>

text \<open>A message as the database has it: neither a tool result nor the carrier of tool calls.\<close>

definition stored_message :: "pydict \<Rightarrow> bool" where
  "stored_message m = (\<not> role_is m ''tool'' \<and> \<not> truthy (dget m ''tool_calls''))"

lemma pair_sets_append:
  "completed_set (a @ b) = completed_set a \<union> completed_set b"
  "requested_set (a @ b) = requested_set a \<union> requested_set b"
  by (auto simp: completed_set_def requested_set_def)

lemma paired_append: "paired a \<Longrightarrow> paired b \<Longrightarrow> paired (a @ b)"
  by (auto simp: paired_def pair_sets_append)

lemma expand_message_unstored:
  assumes "expand_message opts m = Inr ms"
  shows "list_all unstored ms" "stored_message m \<Longrightarrow> paired ms \<and> list_all readable ms"
proof -
  consider (clean) "ms = [clean_message m]" | (converted) items where "convert_items opts items = Inr ms"
  proof (cases "role_is m ''assistant'' \<and> truthy (dget m ''output'')")
    case True
    with assms obtain os where os: "convert_output_to_messages opts (dget m ''output'') = Inr os"
      "ms = (if os \<noteq> [] then os else [clean_message m])"
      by (auto simp: expand_message_def rbind_Inr_iff)
    show ?thesis
    proof (cases "is_list (dget m ''output'')")
      case True
      then obtain items where "dget m ''output'' = PList items" by (cases "dget m ''output''") auto
      with os that show ?thesis by (auto simp: convert_output_is_loop split: if_splits)
    next
      case False
      then have "os = []" using os(1) by (cases "dget m ''output''") (auto simp: convert_output_to_messages_def)
      with os(2) that show ?thesis by simp
    qed
  next
    case False
    with assms that show ?thesis by (auto simp: expand_message_def)
  qed
  note cases = this
  show "list_all unstored ms" using cases by cases (auto simp: unstored_clean dest: unstored_convert_items)
  show "paired ms \<and> list_all readable ms" if "stored_message m"
    using cases
  proof cases
    case clean
    have "calls_of (clean_message m) = []"
      using that by (simp add: calls_of_def py_or_def stored_message_def clean_message_dget STORED_KEYS_def)
    moreover have "\<not> role_is (clean_message m) ''tool''" "\<not> truthy (dget (clean_message m) ''tool_calls'')"
      using that by (auto simp: stored_message_def clean_message_dget STORED_KEYS_def)
    ultimately show ?thesis using clean by (simp add: paired_def readable_def py_or_def)
  next
    case converted
    with converted_is_paired [OF this] show ?thesis by (simp add: list_all_iff)
  qed
qed

lemma expanded_messages:
  assumes "rmap (expand_message opts) ms = Inr out"
  shows "list_all unstored (concat out)"
    "list_all stored_message ms \<Longrightarrow> paired (concat out) \<and> list_all readable (concat out)"
  using assms
proof (induction ms arbitrary: out)
  case Nil
  case 1
  then show ?case by simp
next
  case Nil
  case 2
  then show ?case by (simp add: paired_def)
next
  case (Cons m ms)
  case 1
  with Cons.IH(1) expand_message_unstored(1) show ?case by (fastforce simp: rbind_Inr_iff)
next
  case (Cons m ms)
  case 2
  with Cons.IH(2) expand_message_unstored(2) show ?case
    by (fastforce simp: rbind_Inr_iff intro: paired_append)
qed

lemma sanitize_unstored:
  assumes r: "sanitize_tool_pairs ms = Inr rs" and u: "list_all unstored ms"
  shows "list_all unstored rs"
proof -
  have readable: "readable m" if "m \<in> set ms" for m using sanitize_readable [OF r that] .
  have rs: "rs = concat (map (kept answer_without_calls (completed_set ms) (requested_set ms)) ms)"
    using sanitize_Inr [OF readable] r by simp
  have "unstored x" if "x \<in> set (kept answer_without_calls C R m)" "unstored m" for x m C R
    using that by (auto simp: kept_def answer_without_calls_def Let_def unstored_dpop unstored_dset STORED_KEYS_def
        split: if_splits)
  with u show ?thesis by (auto simp: rs list_all_iff)
qed

lemma strip_foreign_dget:
  assumes "strip_foreign_details model m = Inr m'" "k \<noteq> ''output''"
  shows "dget m' k = dget m k"
  using assms by (cases "dget m ''output''") (auto simp: strip_foreign_details_def rbind_Inr_iff split: if_splits)

lemma strip_keeps_stored:
  "rmap (strip_foreign_details model) ms = Inr sent \<Longrightarrow> list_all stored_message ms \<Longrightarrow> list_all stored_message sent"
proof (induction ms arbitrary: sent)
  case (Cons m ms)
  then obtain m' rest where m': "strip_foreign_details model m = Inr m'" "sent = m' # rest"
    "rmap (strip_foreign_details model) ms = Inr rest" by (auto simp: rbind_Inr_iff)
  with Cons show ?case by (simp add: stored_message_def strip_foreign_dget [OF m'(1)])
qed simp

text \<open>What is loaded carries no tool calls.\<close>

lemma replay_fields_calls: "replay_fields v = Inr m \<Longrightarrow> dget m ''tool_calls'' = PNone"
  by (cases v) (auto simp: replay_fields_def dget_def MESSAGE_REPLAY_KEYS_def map_of_eq_None_iff split: option.splits dest: map_of_SomeD)

text \<open>
  C25. What a request sends of a saved chat, when no malformed message makes it raise: every tool result answers a call
  that is sent and every call sent has its result, sanitizing again changes nothing, no field the chat stores for
  itself (identifiers, files, output, model, usage, summaries) is sent, and what is neither an answer nor a
  tool result is sent in order. If the messages are as the database has them, without tool results or calls of
  their own, sanitizing drops nothing of what the outputs expand to.
\<close>

theorem replayed_messages_are_paired:
  assumes "messages_for_provider py_str json_dumps model ms = Inr rs"
  shows "paired rs \<and> sanitize_tool_pairs rs = Inr rs \<and> list_all unstored rs \<and>
     (\<exists>sent expanded. rmap (strip_foreign_details model) ms = Inr sent \<and>
        process_messages_with_output py_str json_dumps (get_reasoning_format model) sent = Inr expanded \<and>
        filter plain_message rs = filter plain_message expanded \<and>
        (list_all stored_message ms \<longrightarrow> rs = expanded))"
proof -
  from assms obtain sent expanded where sent: "rmap (strip_foreign_details model) ms = Inr sent"
    and ex: "process_messages_with_output py_str json_dumps (get_reasoning_format model) sent = Inr expanded"
    and r: "sanitize_tool_pairs expanded = Inr rs"
    by (auto simp: messages_for_provider_def rbind_Inr_iff)
  note p = sanitized_pairs [OF r]
  have "list_all stored_message sent" if "list_all stored_message ms"
    using strip_keeps_stored [OF sent] that by blast
  with ex expanded_messages p(3) have "rs = expanded" if "list_all stored_message ms"
    using that by (auto simp: process_messages_with_output_def rbind_Inr_iff)
  moreover from ex expanded_messages(1) have "list_all unstored expanded"
    by (auto simp: process_messages_with_output_def rbind_Inr_iff)
  ultimately show ?thesis using p sanitize_unstored [OF r] sent ex by blast
qed

text \<open>A saved turn with an answered and an unanswered call, produced by another model.\<close>

definition saved_turns :: "pydict list" where
  "saved_turns =
     [[(''id'', PStr ''m1''), (''role'', PStr ''user''), (''content'', PStr ''hi'')],
      [(''id'', PStr ''m2''), (''role'', PStr ''assistant''), (''content'', PStr ''done''), (''model'', PStr ''x''),
       (''output'', PList sample_output)]]"

definition saved_turns_sent :: "pydict list" where
  "saved_turns_sent = [(''role'', PStr ''user''), (''content'', PStr ''hi'')] # sample_replay"

lemma replayed_messages_are_paired_witness:
  "paired saved_turns_sent \<and> sanitize_tool_pairs saved_turns_sent = Inr saved_turns_sent \<and>
     list_all unstored saved_turns_sent"
proof -
  have "messages_for_provider (\<lambda>_. []) (\<lambda>_. ''{}'') [(''id'', PStr ''m'')] saved_turns = Inr saved_turns_sent"
    by code_simp
  from replayed_messages_are_paired [OF this] show ?thesis by blast
qed

end
