(* ===== verification/Memory_Paths.thy ===== *)
theory Memory_Paths
  imports Py_Prelude "HOL-Library.Char_ord" "HOL-Library.List_Lexorder" "HOL-Library.Product_Lexorder"
begin

section \<open>Paths of memories\<close>

text \<open>
  Models the functions of \<open>utils/memory.py\<close> that clean the paths of a user's memories and that search, group and
  read memories by path. Keys of a sort are tuples, compared lexicographically; strings are compared by code points.

  A path is kept by one call of \<open>clean_memory_path\<close> and cleaned again at every use. Cleaning strips spaces before
  slashes only, so what it returns may begin or end with a space, and cleaning that may give another path, no path or
  an error.
\<close>

record memory_row =
  mem_id :: string
  mem_user_id :: string
  mem_type :: string
  mem_path :: "string option"
  mem_content :: string
  mem_meta :: "pydict option"
  mem_updated_at :: int
  mem_created_at :: int

text \<open>\<open>a or ''\<close>, and \<open>if path:\<close> of an optional string.\<close>

definition or_empty :: "string option \<Rightarrow> string" where
  "or_empty p = (case p of None \<Rightarrow> [] | Some s \<Rightarrow> s)"

definition is_given :: "string option \<Rightarrow> bool" where
  "is_given p = (or_empty p \<noteq> [])"

subsection \<open>Cleaning\<close>

abbreviation slash :: char where
  "slash \<equiv> CHR ''/''"

definition clean_memory_content :: "string option \<Rightarrow> string result" where
  "clean_memory_content content =
     (let text = str_strip (or_empty content)
      in if text = [] then Inl (HTTPException 400 ''Memory content cannot be empty'') else Inr text)"

definition strip_slashes :: "string \<Rightarrow> string" where
  "strip_slashes s = rev (dropWhile (\<lambda>c. c = slash) (rev (dropWhile (\<lambda>c. c = slash) s)))"

fun collapse_slashes :: "string \<Rightarrow> string" where
  "collapse_slashes [] = []"
| "collapse_slashes [c] = [c]"
| "collapse_slashes (c # d # s) =
     (if c = slash \<and> d = slash then collapse_slashes (d # s) else c # collapse_slashes (d # s))"

definition clean_memory_path :: "string option \<Rightarrow> string option result" where
  "clean_memory_path path =
     (let cleaned = collapse_slashes (strip_slashes (str_strip (or_empty path)));
          parts = str_split slash cleaned
      in if cleaned = [] then Inr None
         else if (\<exists>part \<in> set parts. part \<in> {[], ''.'', ''..''}) \<or> (\<exists>c \<in> set cleaned. (of_char c :: nat) < 32)
         then Inl (HTTPException 400 ''Invalid memory path'')
         else Inr (Some cleaned))"

definition memory_vector_text :: "string \<Rightarrow> string option \<Rightarrow> string result" where
  "memory_vector_text content path =
     rbind (clean_memory_path path)
       (\<lambda>p. Inr (case p of None \<Rightarrow> content | Some q \<Rightarrow> q @ [CHR 0x0A] @ content))"

definition memory_label :: "memory_row \<Rightarrow> string" where
  "memory_label m = (if is_given (mem_path m) then or_empty (mem_path m) @ '': '' @ mem_content m else mem_content m)"

definition path_parts :: "string option \<Rightarrow> string list" where
  "path_parts path = filter (\<lambda>part. part \<noteq> []) (str_split slash (or_empty path))"

definition path_parent :: "string option \<Rightarrow> string option" where
  "path_parent path =
     (let parts = path_parts path
      in if length parts > 1 then Some (str_join [slash] (butlast parts)) else None)"

subsection \<open>Ranks\<close>

text \<open>How near a memory is to the path that is looked up, the nearest first; none when they are unrelated.\<close>

definition rank_of_paths :: "string \<Rightarrow> string \<Rightarrow> (int \<times> int) option" where
  "rank_of_paths m l =
     (let ms = path_parts (Some m); ls = path_parts (Some l); shared = card (set ms \<inter> set ls)
      in if m = l then Some (0, 0)
         else if starts_with m (l @ [slash]) then Some (1, int (length ms) - int (length ls))
         else if starts_with l (m @ [slash]) then Some (2, int (length ls) - int (length ms))
         else if is_given (path_parent (Some m)) \<and> path_parent (Some m) = path_parent (Some l) then Some (3, 0)
         else if shared \<noteq> 0 then Some (4, - int shared)
         else if drop (length ms - 1) ms = drop (length ls - 1) ls then Some (5, 0)
         else None)"

definition path_rank :: "string option \<Rightarrow> string option \<Rightarrow> (int \<times> int) option result" where
  "path_rank memory_path lookup_path =
     (if \<not> is_given lookup_path then Inr None
      else rbind (clean_memory_path memory_path) (\<lambda>m.
           rbind (clean_memory_path lookup_path) (\<lambda>l.
             case (m, l) of (Some m', Some l') \<Rightarrow> Inr (rank_of_paths m' l') | _ \<Rightarrow> Inr None)))"

subsection \<open>Searching\<close>

definition memory_matches_query :: "string \<Rightarrow> memory_row \<Rightarrow> bool" where
  "memory_matches_query query m =
     (let text = str_lower (str_strip query)
      in text = [] \<or> str_contains (str_lower (mem_content m)) text
         \<or> str_contains (str_lower (or_empty (mem_path m))) text)"

definition has_type :: "string \<Rightarrow> memory_row \<Rightarrow> bool" where
  "has_type memory_type m = (memory_type = ''all'' \<or> mem_type m = memory_type)"

text \<open>A comprehension whose condition may raise, and \<open>max(1, min(limit or usual, most))\<close>.\<close>

fun filter_checked :: "('a \<Rightarrow> bool result) \<Rightarrow> 'a list \<Rightarrow> 'a list result" where
  "filter_checked f [] = Inr []"
| "filter_checked f (x # xs) = rbind (f x) (\<lambda>b. rbind (filter_checked f xs) (\<lambda>ys. Inr (if b then x # ys else ys)))"

definition bounded_limit :: "int \<Rightarrow> int \<Rightarrow> int \<Rightarrow> nat" where
  "bounded_limit usual most limit = nat (max 1 (min (if limit = 0 then usual else limit) most))"

definition related :: "string \<Rightarrow> memory_row \<Rightarrow> bool result" where
  "related lookup_path m =
     rbind (path_rank (mem_path m) (Some lookup_path)) (\<lambda>rank.
       let basename = (if path_parts (Some lookup_path) = [] then lookup_path else last (path_parts (Some lookup_path)));
           haystack = str_lower (or_empty (mem_path m) @ [CHR 0x0A] @ mem_content m)
       in Inr (rank \<noteq> None \<or> str_contains haystack (str_lower lookup_path)
               \<or> str_contains haystack (str_lower basename)))"

type_synonym search_order = "(int \<times> int) \<times> int \<times> string"

definition search_key :: "string option \<Rightarrow> memory_row \<Rightarrow> search_order result" where
  "search_key lookup_path m =
     rbind (if is_given lookup_path then path_rank (mem_path m) lookup_path else Inr None) (\<lambda>rank.
       Inr (case rank of None \<Rightarrow> (9, 0) | Some r \<Rightarrow> r, - mem_updated_at m, mem_id m))"

text \<open>\<open>sorted(rows, key=\<dots>)\<close> computes the key of every row first.\<close>

definition sorted_by :: "('a \<Rightarrow> 'k::linorder result) \<Rightarrow> 'a list \<Rightarrow> 'a list result" where
  "sorted_by key rows =
     rbind (rmap key rows) (\<lambda>ks. Inr (map snd (sort_key fst (zip ks rows))))"

definition search_memory_rows ::
  "memory_row list \<Rightarrow> string option \<Rightarrow> string option \<Rightarrow> string option \<Rightarrow> string \<Rightarrow> int \<Rightarrow> memory_row list result" where
  "search_memory_rows memories query path memory_id memory_type limit =
     (let rows = (if is_given memory_id then filter (\<lambda>m. mem_id m = or_empty memory_id) memories else memories);
          rows = filter (has_type memory_type) rows;
          query = str_strip (or_empty query)
      in rbind (clean_memory_path path) (\<lambda>lookup_path.
         rbind (case lookup_path of None \<Rightarrow> Inr rows | Some l \<Rightarrow> filter_checked (related l) rows) (\<lambda>rows.
           let rows = (if query = [] then rows else filter (memory_matches_query query) rows)
           in rbind (sorted_by (search_key lookup_path) rows) (\<lambda>rows. Inr (take (bounded_limit 20 100 limit) rows)))))"

subsection \<open>Groups of a path\<close>

record path_group =
  gr_path :: "string option"
  gr_type :: string
  gr_count :: nat
  gr_updated_at :: int
  gr_children :: "string list"

type_synonym path_groups = "((string option \<times> string) \<times> path_group) list"

definition count_in_group :: "memory_row \<Rightarrow> path_groups \<Rightarrow> path_groups" where
  "count_in_group m grouped =
     (let key = (mem_path m, mem_type m);
          group = dget_or grouped key
            \<lparr>gr_path = mem_path m, gr_type = mem_type m, gr_count = 0, gr_updated_at = 0, gr_children = []\<rparr>
      in dset key (group\<lparr>gr_count := gr_count group + 1,
                         gr_updated_at := max (gr_updated_at group) (mem_updated_at m)\<rparr>) grouped)"

text \<open>The part of a candidate below a prefix, up to the next slash.\<close>

definition child_below :: "string \<Rightarrow> string \<Rightarrow> string" where
  "child_below front candidate = front @ takeWhile (\<lambda>c. c \<noteq> slash) (drop (length front) candidate)"

definition group_children :: "string list \<Rightarrow> string \<Rightarrow> string list" where
  "group_children paths path =
     (let front = path @ [slash]
      in fold (\<lambda>candidate children.
           if starts_with candidate front \<and> child_below front candidate \<notin> set children
           then children @ [child_below front candidate] else children) paths [])"

definition list_memory_path_groups :: "memory_row list \<Rightarrow> string \<Rightarrow> string \<Rightarrow> int \<Rightarrow> path_group list \<times> nat" where
  "list_memory_path_groups memories query memory_type limit =
     (let rows = filter (\<lambda>m. has_type memory_type m \<and> memory_matches_query query m) memories;
          grouped = fold count_in_group rows [];
          paths = map (or_empty \<circ> fst \<circ> fst) (filter (\<lambda>g. is_given (fst (fst g))) grouped);
          filled = map (\<lambda>g. if is_given (gr_path g)
                            then g\<lparr>gr_children := take 20 (group_children paths (or_empty (gr_path g)))\<rparr> else g)
                     (map snd grouped);
          groups = sql_desc gr_updated_at filled
      in (take (bounded_limit 100 500 limit) groups, length groups))"

subsection \<open>Reading a path\<close>

record path_reading =
  pr_path :: string
  pr_parents :: "string list"
  pr_children :: "string list"
  pr_memories :: "memory_row list"

definition is_below :: "string \<Rightarrow> memory_row \<Rightarrow> bool" where
  "is_below path m = (is_given (mem_path m) \<and> starts_with (or_empty (mem_path m)) (path @ [slash]))"

definition reading_key :: "string \<Rightarrow> memory_row \<Rightarrow> int \<times> int \<times> int \<times> string" where
  "reading_key path m =
     (let depth = int (length (path_parts (mem_path m)))
      in if mem_path m = Some path then (0, 0, - mem_updated_at m, mem_id m)
         else if is_below path m then (1, depth, - mem_updated_at m, mem_id m)
         else (2, - depth, - mem_updated_at m, mem_id m))"

definition path_parents :: "string \<Rightarrow> memory_row list \<Rightarrow> string list" where
  "path_parents path rows =
     (let parts = path_parts (Some path)
      in filter (\<lambda>p. \<exists>m \<in> set rows. is_given (mem_path m) \<and> mem_path m = Some p)
           (map (\<lambda>i. str_join [slash] (take i parts)) [1..<length parts]))"

definition path_children :: "string \<Rightarrow> memory_row list \<Rightarrow> string list" where
  "path_children path rows =
     sort (remdups (map (\<lambda>m. child_below (path @ [slash]) (or_empty (mem_path m))) (filter (is_below path) rows)))"

definition read_memory_path_rows :: "memory_row list \<Rightarrow> string option \<Rightarrow> string \<Rightarrow> bool \<Rightarrow> int \<Rightarrow> path_reading result" where
  "read_memory_path_rows memories path memory_type include_children limit =
     rbind (clean_memory_path path) (\<lambda>lookup_path.
       case lookup_path of
         None \<Rightarrow> Inl (HTTPException 400 ''Memory path is required'')
       | Some l \<Rightarrow>
           (let rows = filter (has_type memory_type) memories;
                parents = path_parents l rows;
                selected = filter (\<lambda>m. mem_path m = Some l \<or> mem_path m \<in> Some ` set parents
                                       \<or> (include_children \<and> is_below l m)) rows
            in Inr \<lparr>pr_path = l, pr_parents = parents, pr_children = take 50 (path_children l rows),
                     pr_memories = take (bounded_limit 50 100 limit) (sort_key (reading_key l) selected)\<rparr>))"

subsection \<open>Hints\<close>

definition is_hint :: "string \<Rightarrow> string \<Rightarrow> bool" where
  "is_hint lowered path =
     (let parts = path_parts (Some path); end = (if parts = [] then path else last parts)
      in str_contains lowered (str_lower path) \<or> str_contains lowered (str_lower end)
         \<or> (\<exists>part \<in> set parts. 3 \<le> length part \<and> str_contains lowered (str_lower part)))"

fun hints_from :: "string \<Rightarrow> int \<Rightarrow> memory_row list \<Rightarrow> string list \<Rightarrow> string list" where
  "hints_from lowered limit [] hints = hints"
| "hints_from lowered limit (m # ms) hints =
     (let path = or_empty (mem_path m)
      in if path = [] \<or> path \<in> set hints then hints_from lowered limit ms hints
         else let hints = (if is_hint lowered path then hints @ [path] else hints)
              in if limit \<le> int (length hints) then hints else hints_from lowered limit ms hints)"

definition memory_path_hints :: "string \<Rightarrow> memory_row list \<Rightarrow> int \<Rightarrow> string list" where
  "memory_path_hints query memories limit =
     (let lowered = str_lower query
      in if lowered = [] then []
         else hints_from lowered limit
                (sort_key (\<lambda>m. (or_empty (mem_path m), mem_content m, mem_id m)) memories) [])"

subsection \<open>Facts about cleaning\<close>

text \<open>What a cleaned path is made of; one that cleaning leaves is \<open>stable\<close>.\<close>

definition clean_path :: "string \<Rightarrow> bool" where
  "clean_path p =
     (p \<noteq> [] \<and> (\<forall>part \<in> set (str_split slash p). part \<notin> {[], ''.'', ''..''})
      \<and> (\<forall>c \<in> set p. 32 \<le> (of_char c :: nat)))"

definition stable_path :: "string option \<Rightarrow> bool" where
  "stable_path p = (clean_memory_path p = Inr p)"

lemma cleaned_path: "clean_memory_path p = Inr (Some q) \<Longrightarrow> clean_path q"
  by (auto simp: clean_memory_path_def clean_path_def Let_def not_less split: if_splits)

lemma split_Cons_slash: "str_split slash (slash # s) = [] # str_split slash s"
  by simp

lemma split_tl_not_Nil: "tl (str_split slash (s @ slash # t)) \<noteq> []"
  by (induction s) (auto split: list.split)

lemma last_split_slash: "last (str_split slash (s @ [slash])) = []"
  by (simp add: str_split_append)

lemma strip_slashes_clean:
  assumes "\<forall>part \<in> set (str_split slash p). part \<noteq> []"
  shows "strip_slashes p = p"
proof -
  have "p = [] \<or> hd p \<noteq> slash"
    using assms by (cases p) auto
  then have front: "dropWhile (\<lambda>c. c = slash) p = p" by (cases p) auto
  have "p = [] \<or> last p \<noteq> slash"
  proof (cases p rule: rev_cases)
    case (snoc s c)
    with assms last_split_slash [of s] show ?thesis
      by (metis last_in_set last_snoc str_split_not_Nil)
  qed simp
  then have "dropWhile (\<lambda>c. c = slash) (rev p) = rev p" by (cases p rule: rev_cases) auto
  with front show ?thesis by (simp add: strip_slashes_def)
qed

lemma collapse_without_pairs: "(\<And>u v. p \<noteq> u @ slash # slash # v) \<Longrightarrow> collapse_slashes p = p"
proof (induction p rule: collapse_slashes.induct)
  case (3 c d s)
  have "\<not> (c = slash \<and> d = slash)" using 3(3) [of "[]" s] by auto
  moreover have "d # s \<noteq> u @ slash # slash # v" for u v
    using 3(3) [of "c # u" v] by auto
  ultimately show ?case using 3(2) by auto
qed simp_all

lemma collapse_slashes_clean:
  assumes "\<forall>part \<in> set (str_split slash p). part \<noteq> []"
  shows "collapse_slashes p = p"
proof (rule collapse_without_pairs)
  fix u v
  have "[] \<in> set (str_split slash (u @ slash # slash # v))"
    by (simp add: str_split_append)
  then show "p \<noteq> u @ slash # slash # v" using assms by auto
qed

lemma strip_outer: "s \<noteq> [] \<Longrightarrow> \<not> is_space_char (hd s) \<Longrightarrow> \<not> is_space_char (last s) \<Longrightarrow> str_strip s = s"
proof -
  assume s: "s \<noteq> []" "\<not> is_space_char (hd s)" "\<not> is_space_char (last s)"
  from s(1,2) have "dropWhile is_space_char s = s" by (cases s) auto
  moreover from s(1,3) have "dropWhile is_space_char (rev s) = rev s" by (cases s rule: rev_cases) auto
  ultimately show ?thesis by (simp add: str_strip_def)
qed

lemma strip_idem [simp]: "str_strip (str_strip s) = str_strip s"
proof (cases "str_strip s = []")
  case False
  let ?a = "dropWhile is_space_char s"
  have r: "dropWhile is_space_char (rev ?a) \<noteq> []"
    using False by (simp add: str_strip_def)
  then have a: "?a \<noteq> []" by (metis dropWhile.simps(1) rev.simps(1))
  have last: "\<not> is_space_char (last (str_strip s))"
    using hd_dropWhile [OF r] by (simp add: str_strip_def last_rev)
  obtain t where t: "rev ?a = t @ dropWhile is_space_char (rev ?a)"
    by (metis takeWhile_dropWhile_id)
  then have "?a = str_strip s @ rev t"
    by (metis rev_append rev_rev_ident str_strip_def)
  then have "hd (str_strip s) = hd ?a" using False by (metis hd_append2)
  then have "\<not> is_space_char (hd (str_strip s))" using hd_dropWhile [OF a] by simp
  from strip_outer [OF False this last] show ?thesis .
next
  case True
  then show ?thesis by (simp add: str_strip_def [of "[]"])
qed

lemma clean_path_stable:
  assumes "clean_path q" "\<not> is_space_char (hd q)" "\<not> is_space_char (last q)"
  shows "stable_path (Some q)"
proof -
  have parts: "\<forall>part \<in> set (str_split slash q). part \<noteq> []" and "q \<noteq> []"
    using assms(1) by (auto simp: clean_path_def)
  then have "collapse_slashes (strip_slashes (str_strip q)) = q"
    using assms by (simp add: strip_outer strip_slashes_clean collapse_slashes_clean)
  then show ?thesis
    using assms(1) unfolding clean_path_def
    by (auto simp: stable_path_def clean_memory_path_def or_empty_def Let_def)
qed

lemma stable_None [simp]: "stable_path None"
  by code_simp

lemma cleaned_path_is_stable:
  assumes "clean_memory_path p = Inr q" "q = None \<or> \<not> is_space_char (hd (the q)) \<and> \<not> is_space_char (last (the q))"
  shows "stable_path q"
  using assms cleaned_path clean_path_stable by (cases q) auto

text \<open>Cleaning is not stable otherwise: a first call may keep what the second refuses.\<close>

lemma cleaning_twice_may_fail:
  "clean_memory_path (Some ''/ ..'') = Inr (Some '' ..'')
   \<and> clean_memory_path (Some '' ..'') = Inl (HTTPException 400 ''Invalid memory path'')"
  by code_simp

lemma cleaning_twice_may_differ: "clean_memory_path (Some ''/ a'') = Inr (Some '' a'') \<and> clean_memory_path (Some '' a'') = Inr (Some ''a'')"
  by code_simp

subsection \<open>Facts about searching\<close>

lemma filter_checked_pure: "(\<And>x. x \<in> set xs \<Longrightarrow> f x = Inr (p x)) \<Longrightarrow> filter_checked f xs = Inr (filter p xs)"
  by (induction xs) auto

lemma rmap_pure_on: "(\<And>x. x \<in> set xs \<Longrightarrow> f x = Inr (g x)) \<Longrightarrow> rmap f xs = Inr (map g xs)"
  by (induction xs) auto

lemma insort_decorated: "insort_key fst (f x, x) (map (\<lambda>y. (f y, y)) ys) = map (\<lambda>y. (f y, y)) (insort_key f x ys)"
  by (induction ys) auto

lemma sort_decorated: "sort_key fst (map (\<lambda>x. (f x, x)) xs) = map (\<lambda>x. (f x, x)) (sort_key f xs)"
  by (induction xs) (simp_all add: insort_decorated)

lemma sorted_by_pure:
  assumes "\<And>x. x \<in> set xs \<Longrightarrow> key x = Inr (f x)"
  shows "sorted_by key xs = Inr (sort_key f xs)"
proof -
  have "zip (map f xs) xs = map (\<lambda>x. (f x, x)) xs" by (simp add: zip_map1 zip_same_conv_map)
  then show ?thesis
    using rmap_pure_on [of xs key f, OF assms] by (simp add: sorted_by_def sort_decorated comp_def)
qed

lemma sorted_take_before:
  assumes "x \<in> set (take n (sort_key f xs))" "y \<in> set (drop n (sort_key f xs))"
  shows "f x \<le> f y"
  using assms sorted_append [of "map f (take n (sort_key f xs))" "map f (drop n (sort_key f xs))"]
  by (metis (no_types, lifting) append_take_drop_id image_eqI list.set_map map_append sorted_sort_key)

text \<open>
  What a search means when no path raises: the memories near the path, and their order, the nearest first, then the
  latest, then by id.
\<close>

definition near :: "string \<Rightarrow> memory_row \<Rightarrow> bool" where
  "near l m =
     ((case mem_path m of None \<Rightarrow> False | Some p \<Rightarrow> rank_of_paths p l \<noteq> None)
      \<or> (\<exists>w \<in> {l, last (path_parts (Some l))}. str_contains (str_lower (or_empty (mem_path m) @ [CHR 0x0A] @ mem_content m)) (str_lower w)))"

definition nearness :: "string option \<Rightarrow> memory_row \<Rightarrow> search_order" where
  "nearness lookup m =
     (case (mem_path m, lookup) of
        (Some p, Some l) \<Rightarrow> (case rank_of_paths p l of None \<Rightarrow> (9, 0) | Some r \<Rightarrow> r)
      | _ \<Rightarrow> (9, 0), - mem_updated_at m, mem_id m)"

definition sought :: "string option \<Rightarrow> string option \<Rightarrow> string option \<Rightarrow> string \<Rightarrow> memory_row \<Rightarrow> bool" where
  "sought query lookup memory_id memory_type m =
     ((is_given memory_id \<longrightarrow> mem_id m = or_empty memory_id) \<and> has_type memory_type m
      \<and> (case lookup of None \<Rightarrow> True | Some l \<Rightarrow> near l m)
      \<and> memory_matches_query (or_empty query) m)"

lemma is_given_Some [simp]: "is_given (Some p) \<longleftrightarrow> p \<noteq> []"
  by (simp add: is_given_def or_empty_def)

lemma is_given_None [simp]: "\<not> is_given None"
  by (simp add: is_given_def or_empty_def)

lemma or_empty_simps [simp]: "or_empty None = []" "or_empty (Some p) = p"
  by (simp_all add: or_empty_def)

lemma stable_not_empty: "stable_path (Some p) \<Longrightarrow> clean_path p"
  by (simp add: stable_path_def cleaned_path)

lemma clean_path_parts: "clean_path p \<Longrightarrow> path_parts (Some p) = str_split slash p"
  by (auto simp: clean_path_def path_parts_def intro!: filter_True)

lemma path_rank_stable:
  assumes "stable_path q" "stable_path (Some l)"
  shows "path_rank q (Some l) = Inr (case q of None \<Rightarrow> None | Some p \<Rightarrow> rank_of_paths p l)"
  using assms stable_not_empty [OF assms(2)]
  by (cases q) (simp_all add: path_rank_def stable_path_def clean_path_def)

lemma related_stable:
  assumes "stable_path (mem_path m)" "stable_path (Some l)"
  shows "related l m = Inr (near l m)"
proof -
  have "path_parts (Some l) \<noteq> []"
    using stable_not_empty [OF assms(2)] by (simp add: clean_path_parts)
  then show ?thesis
    unfolding related_def near_def path_rank_stable [OF assms] by (auto simp: Let_def split: option.splits)
qed

lemma search_key_stable:
  assumes "stable_path (mem_path m)" "stable_path lookup"
  shows "search_key lookup m = Inr (nearness lookup m)"
proof (cases lookup)
  case (Some l)
  with assms stable_not_empty [of l] show ?thesis
    by (auto simp: search_key_def nearness_def path_rank_stable clean_path_def split: option.splits)
qed (simp add: search_key_def nearness_def split: option.splits)

lemma matches_stripped: "memory_matches_query (str_strip q) = memory_matches_query q"
  by (simp add: memory_matches_query_def fun_eq_iff)

lemma matches_blank: "str_strip q = [] \<Longrightarrow> memory_matches_query q m"
  by (simp add: memory_matches_query_def str_lower_def)

text \<open>On stable paths the search is the sorted comprehension, cut to its limit.\<close>

lemma search_memory_rows_eq:
  assumes "\<forall>m \<in> set memories. stable_path (mem_path m)" "clean_memory_path path = Inr lookup" "stable_path lookup"
  shows "search_memory_rows memories query path memory_id memory_type limit =
     Inr (take (bounded_limit 20 100 limit)
            (sort_key (nearness lookup) (filter (sought query lookup memory_id memory_type) memories)))"
proof -
  let ?a = "if is_given memory_id then filter (\<lambda>m. mem_id m = or_empty memory_id) memories else memories"
  let ?b = "filter (has_type memory_type) ?a"
  let ?c = "case lookup of None \<Rightarrow> ?b | Some l \<Rightarrow> filter (near l) ?b"
  let ?d = "if str_strip (or_empty query) = [] then ?c else filter (memory_matches_query (str_strip (or_empty query))) ?c"
  have c: "(case lookup of None \<Rightarrow> Inr ?b | Some l \<Rightarrow> filter_checked (related l) ?b) = Inr ?c"
  proof (cases lookup)
    case (Some l)
    have "filter_checked (related l) ?b = Inr (filter (near l) ?b)"
      using assms Some by (intro filter_checked_pure related_stable) (auto split: if_splits)
    then show ?thesis by (simp add: Some)
  qed simp
  have d: "?d = filter (sought query lookup memory_id memory_type) memories"
    by (auto simp: sought_def matches_stripped matches_blank conj_ac intro!: filter_cong split: option.splits)
  have "sorted_by (search_key lookup) ?d = Inr (sort_key (nearness lookup) ?d)"
    unfolding d using assms by (intro sorted_by_pure search_key_stable) auto
  then show ?thesis
    unfolding search_memory_rows_def Let_def assms(2) by (simp only: rbind_simps c d)
qed

lemma bounded_limit_bounds: "1 \<le> most \<Longrightarrow> 1 \<le> bounded_limit usual most limit \<and> int (bounded_limit usual most limit) \<le> most"
  by (auto simp: bounded_limit_def)

text \<open>A memory that shares its last segment shares a segment: the rank for that is never given.\<close>

lemma last_segment_rank_unused:
  assumes "clean_path m" "clean_path l"
  shows "rank_of_paths m l \<noteq> Some (5, 0)"
proof -
  let ?ms = "path_parts (Some m)" and ?ls = "path_parts (Some l)"
  have ne: "?ms \<noteq> []" "?ls \<noteq> []" using assms by (simp_all add: clean_path_parts)
  have "drop (length xs - 1) xs = [last xs]" if "xs \<noteq> []" for xs :: "string list"
    using that by (cases xs rule: rev_cases) simp_all
  with ne have "drop (length ?ms - 1) ?ms = drop (length ?ls - 1) ?ls \<Longrightarrow> last ?ms = last ?ls" by simp
  then have "drop (length ?ms - 1) ?ms = drop (length ?ls - 1) ?ls \<Longrightarrow> card (set ?ms \<inter> set ?ls) \<noteq> 0"
    using ne by (metis IntI List.finite_set card_0_eq empty_iff finite_Int last_in_set)
  then show ?thesis by (auto simp: rank_of_paths_def Let_def)
qed

subsection \<open>Facts about groups and readings\<close>

text \<open>The parents of a path are above it: each is a prefix of it that ends before a slash, and the path of a memory.\<close>

lemma path_parents_are_above:
  assumes "clean_path l" "p \<in> set (path_parents l rows)"
  shows "starts_with l (p @ [slash])" "\<exists>m \<in> set rows. mem_path m = Some p"
proof -
  let ?parts = "str_split slash l"
  from assms obtain i where i: "p = str_join [slash] (take i ?parts)" "1 \<le> i" "i < length ?parts"
    by (auto simp: path_parents_def clean_path_parts Let_def)
  then have "str_join [slash] (take i ?parts @ drop i ?parts) = p @ [slash] @ str_join [slash] (drop i ?parts)"
    by (subst join_append) auto
  then have "l = p @ [slash] @ str_join [slash] (drop i ?parts)" by (simp add: join_split)
  then show "starts_with l (p @ [slash])"
    unfolding starts_with_def by (metis append_assoc prefixI)
  show "\<exists>m \<in> set rows. mem_path m = Some p"
    using assms(2) by (auto simp: path_parents_def Let_def)
qed

lemma path_children_are_below:
  assumes "c \<in> set (path_children l rows)"
  shows "starts_with c (l @ [slash]) \<and> slash \<notin> set (drop (length l + 1) c)
    \<and> (\<exists>m \<in> set rows. starts_with (or_empty (mem_path m)) c)"
proof -
  from assms obtain m where m: "m \<in> set rows" "is_below l m"
    and c: "c = child_below (l @ [slash]) (or_empty (mem_path m))"
    by (auto simp: path_children_def)
  from m(2) obtain t where t: "or_empty (mem_path m) = (l @ [slash]) @ t"
    by (auto simp: is_below_def starts_with_def prefix_def)
  have "slash \<notin> set (takeWhile (\<lambda>c. c \<noteq> slash) t)" by (auto dest: set_takeWhileD)
  moreover have "prefix (l @ slash # takeWhile (\<lambda>c. c \<noteq> slash) t) (l @ slash # t)"
    by (simp add: takeWhile_is_prefix)
  ultimately show ?thesis
    using m(1) t by (auto simp: c child_below_def starts_with_def intro!: bexI [of _ m])
qed

text \<open>A group counts the rows of its path and type.\<close>

lemma group_counts:
  "map_option gr_count (map_of (fold count_in_group rows []) k) =
     (let n = length (filter (\<lambda>m. (mem_path m, mem_type m) = k) rows) in if n = 0 then None else Some n)"
proof (induction rows rule: rev_induct)
  case (snoc m rows)
  then show ?case
    by (cases "map_of (fold count_in_group rows []) k")
       (auto simp: count_in_group_def dget_or_def map_of_dset Let_def split: option.splits if_splits)
qed simp

lemma hints_from_bounded:
  assumes "int (length hints) < limit" "distinct hints"
  shows "int (length (hints_from lowered limit ms hints)) \<le> limit \<and> distinct (hints_from lowered limit ms hints)
    \<and> set (hints_from lowered limit ms hints) \<subseteq> set hints \<union> {p. \<exists>m \<in> set ms. mem_path m = Some p \<and> is_hint lowered p}"
  using assms
proof (induction lowered limit ms hints rule: hints_from.induct)
  case (2 lowered limit m ms hints)
  let ?p = "or_empty (mem_path m)"
  show ?case
  proof (cases "?p = [] \<or> ?p \<in> set hints")
    case True
    then have "hints_from lowered limit (m # ms) hints = hints_from lowered limit ms hints" by (simp add: Let_def)
    then show ?thesis using 2(1) [OF refl True 2(3,4)] by auto
  next
    case False
    then have p: "mem_path m = Some ?p" by (cases "mem_path m") auto
    let ?h = "if is_hint lowered ?p then hints @ [?p] else hints"
    have h: "distinct ?h" "int (length ?h) \<le> limit"
      "set ?h \<subseteq> set hints \<union> {p. \<exists>m \<in> set (m # ms). mem_path m = Some p \<and> is_hint lowered p}"
      using 2(3,4) False p by auto
    show ?thesis
    proof (cases "limit \<le> int (length ?h)")
      case True
      then have "hints_from lowered limit (m # ms) hints = ?h" using False by (simp add: Let_def)
      then show ?thesis using h by simp
    next
      case long: False
      then have "hints_from lowered limit (m # ms) hints = hints_from lowered limit ms ?h" using False by (simp add: Let_def)
      moreover note 2(2) [OF refl False refl long _ h(1)]
      ultimately show ?thesis using long h(3) by auto
    qed
  qed
qed auto

lemma hints_bounded: "1 \<le> limit \<Longrightarrow> int (length (memory_path_hints query memories limit)) \<le> limit
    \<and> distinct (memory_path_hints query memories limit)"
  using hints_from_bounded [of "[]" limit] by (simp add: memory_path_hints_def Let_def)

subsection \<open>Property\<close>

text \<open>
  C38. Searching memories by path returns the nearest ones: when the paths of the memories and the path looked up are
  stable, the search never raises; what it returns are memories that match the query, the type, the id and the path,
  at most 100, in the order of nearness (then the latest, then by id); and a matching memory is left out only when the
  limit is reached, never in favour of a farther one.
\<close>

theorem search_returns_the_nearest:
  assumes "\<forall>m \<in> set memories. stable_path (mem_path m)" "clean_memory_path path = Inr lookup" "stable_path lookup"
  shows "\<exists>rs. search_memory_rows memories query path memory_id memory_type limit = Inr rs
    \<and> length rs \<le> 100 \<and> sorted (map (nearness lookup) rs)
    \<and> set rs \<subseteq> {m \<in> set memories. sought query lookup memory_id memory_type m}
    \<and> (\<forall>m \<in> set memories. sought query lookup memory_id memory_type m \<longrightarrow> m \<notin> set rs \<longrightarrow>
         length rs = bounded_limit 20 100 limit \<and> (\<forall>r \<in> set rs. nearness lookup r \<le> nearness lookup m))"
proof -
  let ?found = "filter (sought query lookup memory_id memory_type) memories"
  let ?all = "sort_key (nearness lookup) ?found" and ?n = "bounded_limit 20 100 limit"
  have left: "m \<in> set (drop ?n ?all)" if "m \<in> set ?found" "m \<notin> set (take ?n ?all)" for m
    using that by (metis Un_iff append_take_drop_id set_append set_sort)
  have "length (take ?n ?all) = ?n" if "drop ?n ?all \<noteq> []"
    using that by simp
  moreover have "?n \<le> 100" using bounded_limit_bounds [of 100 20 limit] by linarith
  moreover have "sorted (map (nearness lookup) (take ?n ?all))"
    by (metis sorted_sort_key sorted_wrt_take take_map)
  moreover have "set (take ?n ?all) \<subseteq> set ?found"
    by (metis set_sort set_take_subset)
  ultimately show ?thesis
    using left sorted_take_before [of _ ?n "nearness lookup" ?found]
    by (intro exI [of _ "take ?n ?all"] conjI search_memory_rows_eq [OF assms]) (fastforce dest: left)+
qed

definition sample_memories :: "memory_row list" where
  "sample_memories = map (\<lambda>(i, p, c).
     \<lparr>mem_id = i, mem_user_id = ''u'', mem_type = ''context'', mem_path = p, mem_content = c, mem_meta = None,
      mem_updated_at = 5, mem_created_at = 5\<rparr>)
     [(''a'', Some ''work/plans'', ''move''), (''b'', Some ''work'', ''desk''), (''c'', None, ''tea''), (''d'', Some ''work/plans/may'', ''trip'')]"

lemma search_returns_the_nearest_witness:
  "list_all (stable_path \<circ> mem_path) sample_memories \<and> clean_memory_path (Some ''/work//plans/'') = Inr (Some ''work/plans'')
   \<and> stable_path (Some ''work/plans'')
   \<and> (\<exists>rs. search_memory_rows sample_memories None (Some ''/work//plans/'') None ''all'' 2 = Inr rs \<and> length rs \<le> 100
        \<and> sorted (map (nearness (Some ''work/plans'')) rs))
   \<and> rbind (search_memory_rows sample_memories None (Some ''/work//plans/'') None ''all'' 2) (\<lambda>rs. Inr (map mem_id rs)) = Inr [''a'', ''d'']"
proof -
  have a: "\<forall>m \<in> set sample_memories. stable_path (mem_path m)" by code_simp
  have b: "clean_memory_path (Some ''/work//plans/'') = Inr (Some ''work/plans'')" by code_simp
  have c: "stable_path (Some ''work/plans'')" by code_simp
  have d: "rbind (search_memory_rows sample_memories None (Some ''/work//plans/'') None ''all'' 2) (\<lambda>rs. Inr (map mem_id rs)) = Inr [''a'', ''d'']"
    by code_simp
  from search_returns_the_nearest [OF a b c, of None None "''all''" 2] a b c d show ?thesis
    unfolding list_all_iff comp_def by blast
qed

end
