(* ===== verification/Vector_Store.thy ===== *)
theory Vector_Store
  imports Py_Prelude
begin

section \<open>Vector stores\<close>

text \<open>
  Models the interface of vector databases of \<open>retrieval/vector/main.py\<close>, the treatment of metadata in
  \<open>retrieval/vector/utils.py\<close>, and the client for PostgreSQL in \<open>retrieval/vector/dbs/pgvector.py\<close>: its table of
  chunks and the operations that change or list it. Similarity search is the database's.

  What is not code of the repository is an argument: \<open>text_of\<close> is \<open>str(v)\<close>, \<open>as_text\<close> is the operator
  \<open>->>\<close> of a JSON column, and \<open>storable\<close> says which rows PostgreSQL accepts. Vectors are lists of numbers of any
  type. The bound on the size of a metadata value is the setting \<open>max_chars\<close>.
\<close>

subsection \<open>Metadata\<close>

definition keys_to_exclude :: "string list" where
  "keys_to_exclude =
     [''content'', ''pages'', ''tables'', ''paragraphs'', ''sections'', ''figures'', ''documents'', ''keyValuePairs'',
      ''styles'', ''languages'']"

definition sanitize_text :: "string \<Rightarrow> string" where
  "sanitize_text s = filter (\<lambda>c. c \<noteq> CHR 0x00) s"

definition sanitize_value :: "pyval \<Rightarrow> pyval" where
  "sanitize_value v = (case v of PStr s \<Rightarrow> PStr (sanitize_text s) | _ \<Rightarrow> v)"

definition too_large :: "(pyval \<Rightarrow> string) \<Rightarrow> nat option \<Rightarrow> pyval \<Rightarrow> bool" where
  "too_large text_of max_chars v =
     (case max_chars of None \<Rightarrow> False | Some n \<Rightarrow> (is_list v \<or> is_dict v) \<and> n < length (text_of v))"

definition filter_metadata :: "(pyval \<Rightarrow> string) \<Rightarrow> nat option \<Rightarrow> pydict \<Rightarrow> pydict" where
  "filter_metadata text_of max_chars metadata =
     filter (\<lambda>(k, v). k \<notin> set keys_to_exclude \<and> \<not> too_large text_of max_chars v) metadata"

definition process_metadata :: "(pyval \<Rightarrow> string) \<Rightarrow> nat option \<Rightarrow> pydict \<Rightarrow> pydict" where
  "process_metadata text_of max_chars metadata =
     map (\<lambda>(k, v). (k, if is_list v \<or> is_dict v then PStr (sanitize_text (text_of v)) else sanitize_value v))
       (filter (\<lambda>(k, v). k \<notin> set keys_to_exclude \<and> v \<noteq> PNone \<and> \<not> too_large text_of max_chars v) metadata)"

text \<open>Filters: a value, or a dictionary with the one key \<open>$in\<close> and the values to choose from.\<close>

datatype condition = Equals pyval | One_Of "pyval list"

definition filter_condition :: "pyval \<Rightarrow> condition result" where
  "filter_condition v =
     (case v of
        PDict d \<Rightarrow>
          if set (map fst d) \<noteq> {''$in''} then Inl (ValueError ''Unsupported metadata filter'')
          else rbind (dict_item d ''$in'') (\<lambda>w. rbind (py_iter w) (\<lambda>vs. Inr (One_Of vs)))
      | _ \<Rightarrow> Inr (Equals v))"

definition normalize_filter :: "pydict \<Rightarrow> pydict result" where
  "normalize_filter f =
     rmap (\<lambda>(k, v). rbind (filter_condition v)
       (\<lambda>c. Inr (k, case c of Equals w \<Rightarrow> w | One_Of ws \<Rightarrow> PDict [(''$in'', PList ws)]))) f"

fun metadata_matches_filter :: "pydict \<Rightarrow> pydict \<Rightarrow> bool result" where
  "metadata_matches_filter metadata [] = Inr True"
| "metadata_matches_filter metadata ((k, v) # f) =
     rbind (filter_condition v) (\<lambda>c.
       if (case c of Equals w \<Rightarrow> dget metadata k = w | One_Of ws \<Rightarrow> dget metadata k \<in> set ws)
       then metadata_matches_filter metadata f else Inr False)"

subsection \<open>The interface\<close>

record 'x vector_item =
  vi_id :: string
  vi_text :: string
  vi_vector :: "'x list"
  vi_metadata :: pydict

text \<open>The operations that change a store: \<open>upsert\<close>, \<open>delete\<close> by ids and \<open>delete_collection\<close>.\<close>

record ('x, 'v) vector_client =
  vc_upsert :: "string \<Rightarrow> 'x vector_item list \<Rightarrow> 'v \<Rightarrow> 'v result"
  vc_delete :: "string \<Rightarrow> string list \<Rightarrow> 'v \<Rightarrow> 'v result"
  vc_delete_collection :: "string \<Rightarrow> 'v \<Rightarrow> 'v result"

text \<open>
  What a client of a store relies on. \<open>contents\<close> is what a collection holds under each id and \<open>entry\<close> what
  it holds for an item. An operation that raises leaves the store. Deleting a collection fails only when it holds nothing.
\<close>

locale vector_store =
  fixes client :: "('x, 'v) vector_client"
    and sound :: "'v \<Rightarrow> bool"
    and contents :: "'v \<Rightarrow> string \<Rightarrow> string \<Rightarrow> 'e option"
    and entry :: "'x vector_item \<Rightarrow> 'e"
  assumes upsert_own: "sound v \<Longrightarrow> vc_upsert client c is v = Inr v' \<Longrightarrow>
      contents v' c = contents v c ++ map_of (rev (map (\<lambda>i. (vi_id i, entry i)) is))"
    and upsert_other: "sound v \<Longrightarrow> vc_upsert client c is v = Inr v' \<Longrightarrow> c' \<noteq> c \<Longrightarrow> k \<notin> vi_id ` set is \<Longrightarrow>
      contents v' c' k = contents v c' k"
    and upsert_moves: "sound v \<Longrightarrow> vc_upsert client c is v = Inr v' \<Longrightarrow> c' \<noteq> c \<Longrightarrow>
      contents v' c' k \<in> {None, contents v c' k}"
    and delete_own: "sound v \<Longrightarrow> ids \<noteq> [] \<Longrightarrow> vc_delete client c ids v = Inr v' \<Longrightarrow>
      contents v' c = contents v c |` (- set ids)"
    and delete_other: "sound v \<Longrightarrow> vc_delete client c ids v = Inr v' \<Longrightarrow> c' \<noteq> c \<Longrightarrow> contents v' c' = contents v c'"
    and drop_own: "sound v \<Longrightarrow> vc_delete_collection client c v = Inr v' \<Longrightarrow> contents v' c = Map.empty"
    and drop_other: "sound v \<Longrightarrow> vc_delete_collection client c v = Inr v' \<Longrightarrow> c' \<noteq> c \<Longrightarrow> contents v' c' = contents v c'"
    and drop_fails: "sound v \<Longrightarrow> vc_delete_collection client c v = Inl e \<Longrightarrow> contents v c = Map.empty"
    and sound_upsert: "sound v \<Longrightarrow> vc_upsert client c is v = Inr v' \<Longrightarrow> sound v'"
    and sound_delete: "sound v \<Longrightarrow> vc_delete client c ids v = Inr v' \<Longrightarrow> sound v'"
    and sound_drop: "sound v \<Longrightarrow> vc_delete_collection client c v = Inr v' \<Longrightarrow> sound v'"
begin

text \<open>Replacing a collection: drop it, whether or not it exists, then insert.\<close>

lemma upsert_after_drop:
  assumes "sound v" "v1 = (case vc_delete_collection client c v of Inl e \<Rightarrow> v | Inr w \<Rightarrow> w)"
    and "vc_upsert client c is v1 = Inr v'"
  shows "contents v' c = map_of (rev (map (\<lambda>i. (vi_id i, entry i)) is))" and "sound v'"
proof -
  have "sound v1 \<and> contents v1 c = Map.empty"
    using assms(1,2) drop_own drop_fails sound_drop by (auto split: sum.splits)
  then show "contents v' c = map_of (rev (map (\<lambda>i. (vi_id i, entry i)) is))" "sound v'"
    using upsert_own [OF _ assms(3)] sound_upsert [OF _ assms(3)] by simp_all
qed

lemma drop_empties:
  assumes "sound v" "v1 = (case vc_delete_collection client c v of Inl e \<Rightarrow> v | Inr w \<Rightarrow> w)"
  shows "contents v1 c = Map.empty" and "sound v1" and "c' \<noteq> c \<Longrightarrow> contents v1 c' = contents v c'"
  using assms drop_own drop_fails drop_other sound_drop by (auto split: sum.splits)

end

subsection \<open>The client for PostgreSQL\<close>

record 'x chunk =
  ch_id :: string
  ch_vector :: "'x list"
  ch_collection :: string
  ch_text :: string
  ch_metadata :: pydict

text \<open>
  Settings and environment of the client. With \<open>pg_crypto\<close> texts and metadata are stored encrypted; a row here holds
  what decrypting gives.
\<close>

record 'x pg_env =
  pg_length :: nat
  pg_crypto :: bool
  pg_max_chars :: "nat option"
  pg_text_of :: "pyval \<Rightarrow> string"
  pg_as_text :: "pyval \<Rightarrow> string option"
  pg_storable :: "'x chunk \<Rightarrow> bool"

definition adjust_vector_length :: "nat \<Rightarrow> 'x::zero list \<Rightarrow> 'x list" where
  "adjust_vector_length n v =
     (if length v < n then v @ replicate (n - length v) 0 else if n < length v then take n v else v)"

definition row_of_item :: "'x::zero pg_env \<Rightarrow> string \<Rightarrow> 'x vector_item \<Rightarrow> 'x chunk" where
  "row_of_item env c i =
     \<lparr>ch_id = vi_id i, ch_vector = adjust_vector_length (pg_length env) (vi_vector i), ch_collection = c,
      ch_text = (if pg_crypto env then sanitize_text (vi_text i) else vi_text i),
      ch_metadata = (if pg_crypto env then vi_metadata i
                     else process_metadata (pg_text_of env) (pg_max_chars env) (vi_metadata i))\<rparr>"

type_synonym 'x chunks = "'x chunk list"

definition has_chunk :: "string \<Rightarrow> 'x chunks \<Rightarrow> bool" where
  "has_chunk i t = (\<exists>r \<in> set t. ch_id r = i)"

text \<open>A commit: the primary key is the id, across collections.\<close>

definition pg_commit :: "'x pg_env \<Rightarrow> 'x chunks \<Rightarrow> 'x chunks result" where
  "pg_commit env t =
     (if \<not> distinct (map ch_id t) then Inl IntegrityError
      else if \<not> list_all (pg_storable env) t then Inl DataError else Inr t)"

text \<open>
  \<open>insert\<close>: encrypted, row by row, leaving the rows that exist; otherwise all rows in one statement, which fails on
  an id that exists.
\<close>

definition pg_insert :: "'x::zero pg_env \<Rightarrow> string \<Rightarrow> 'x vector_item list \<Rightarrow> 'x chunks \<Rightarrow> 'x chunks result" where
  "pg_insert env c items t =
     (if pg_crypto env
      then rfold (\<lambda>i t. if has_chunk (vi_id i) t then Inr t else pg_commit env (t @ [row_of_item env c i])) items t
      else pg_commit env (t @ map (row_of_item env c) items))"

definition replace_chunk :: "'x chunk \<Rightarrow> 'x chunks \<Rightarrow> 'x chunks" where
  "replace_chunk r t = map (\<lambda>r'. if ch_id r' = ch_id r then r else r') t"

text \<open>
  \<open>upsert\<close>: encrypted, row by row. Otherwise each item is looked up in the table, where items added before it are
  not yet (the session does not flush before a query), and a second item with a new id is one more row at the commit.
\<close>

definition pg_upsert :: "'x::zero pg_env \<Rightarrow> string \<Rightarrow> 'x vector_item list \<Rightarrow> 'x chunks \<Rightarrow> 'x chunks result" where
  "pg_upsert env c items t =
     (if pg_crypto env
      then rfold (\<lambda>i t. let r = row_of_item env c i
                        in if has_chunk (ch_id r) t then pg_commit env (replace_chunk r t) else pg_commit env (t @ [r])) items t
      else (let (t', added) = fold (\<lambda>i (t', added).
                  let r = row_of_item env c i
                  in if has_chunk (ch_id r) t then (replace_chunk r t', added) else (t', added @ [r])) items (t, [])
            in pg_commit env (t' @ added)))"

definition filter_holds :: "'x pg_env \<Rightarrow> pydict \<Rightarrow> 'x chunk \<Rightarrow> bool" where
  "filter_holds env f r =
     (\<forall>(k, v) \<in> set f. dhas (ch_metadata r) k \<and> pg_as_text env (dget (ch_metadata r) k) = Some (pg_text_of env v))"

text \<open>\<open>delete\<close>: no ids, or an empty list of them, is every row of the collection.\<close>

definition pg_delete :: "'x pg_env \<Rightarrow> string \<Rightarrow> string list option \<Rightarrow> pydict option \<Rightarrow> 'x chunks \<Rightarrow> 'x chunks" where
  "pg_delete env c ids f t =
     sql_delete (\<lambda>r. ch_collection r = c
        \<and> (case ids of None \<Rightarrow> True | Some is \<Rightarrow> is = [] \<or> ch_id r \<in> set is)
        \<and> (case f of None \<Rightarrow> True | Some g \<Rightarrow> filter_holds env g r)) t"

definition pg_delete_collection :: "'x pg_env \<Rightarrow> string \<Rightarrow> 'x chunks \<Rightarrow> 'x chunks" where
  "pg_delete_collection env c t = pg_delete env c None None t"

definition pg_reset :: "'x chunks \<Rightarrow> 'x chunks" where
  "pg_reset t = []"

definition pg_has_collection :: "string \<Rightarrow> 'x chunks \<Rightarrow> bool" where
  "pg_has_collection c t = (\<exists>r \<in> set t. ch_collection r = c)"

definition limited :: "nat option \<Rightarrow> 'a list \<Rightarrow> 'a list" where
  "limited n xs = (case n of None \<Rightarrow> xs | Some k \<Rightarrow> take k xs)"

text \<open>\<open>get\<close> and \<open>query\<close> return ids, texts and metadata; nothing when there are no rows (\<open>get\<close> of
  encrypted rows returns the empty lists).\<close>

definition pg_rows :: "'x chunks \<Rightarrow> (string \<times> string \<times> pydict) list" where
  "pg_rows t = map (\<lambda>r. (ch_id r, ch_text r, ch_metadata r)) t"

definition pg_get :: "'x pg_env \<Rightarrow> string \<Rightarrow> nat option \<Rightarrow> 'x chunks \<Rightarrow> (string \<times> string \<times> pydict) list option" where
  "pg_get env c limit t =
     (let rows = limited limit (filter (\<lambda>r. ch_collection r = c) t)
      in if rows = [] \<and> \<not> pg_crypto env then None else Some (pg_rows rows))"

definition pg_query :: "'x pg_env \<Rightarrow> string \<Rightarrow> pydict \<Rightarrow> nat option \<Rightarrow> 'x chunks \<Rightarrow> (string \<times> string \<times> pydict) list option" where
  "pg_query env c f limit t =
     (let rows = limited limit (filter (\<lambda>r. ch_collection r = c \<and> filter_holds env f r) t)
      in if rows = [] then None else Some (pg_rows rows))"

subsection \<open>The table as a store\<close>

definition pg_row :: "'x chunks \<Rightarrow> string \<Rightarrow> 'x chunk option" where
  "pg_row t = map_of (map (\<lambda>r. (ch_id r, r)) t)"

definition pg_contents :: "'x chunks \<Rightarrow> string \<Rightarrow> string \<Rightarrow> ('x list \<times> string \<times> pydict) option" where
  "pg_contents t c k =
     (case pg_row t k of
        None \<Rightarrow> None
      | Some r \<Rightarrow> if ch_collection r = c then Some (ch_vector r, ch_text r, ch_metadata r) else None)"

definition pg_entry :: "'x::zero pg_env \<Rightarrow> 'x vector_item \<Rightarrow> 'x list \<times> string \<times> pydict" where
  "pg_entry env i = (let r = row_of_item env [] i in (ch_vector r, ch_text r, ch_metadata r))"

definition pg_sound :: "'x chunks \<Rightarrow> bool" where
  "pg_sound t = distinct (map ch_id t)"

definition pg_client :: "'x::zero pg_env \<Rightarrow> ('x, 'x chunks) vector_client" where
  "pg_client env =
     \<lparr>vc_upsert = pg_upsert env,
      vc_delete = (\<lambda>c ids t. Inr (pg_delete env c (Some ids) None t)),
      vc_delete_collection = (\<lambda>c t. Inr (pg_delete_collection env c t))\<rparr>"

abbreviation chunk_map :: "'x::zero pg_env \<Rightarrow> string \<Rightarrow> 'x vector_item list \<Rightarrow> string \<Rightarrow> 'x chunk option" where
  "chunk_map env c items \<equiv> map_of (rev (map (\<lambda>i. (vi_id i, row_of_item env c i)) items))"

lemma row_of_item_simps [simp]: "ch_id (row_of_item env c i) = vi_id i" "ch_collection (row_of_item env c i) = c"
  by (simp_all add: row_of_item_def)

lemma pg_commit_InrD: "pg_commit env t = Inr t' \<Longrightarrow> t' = t \<and> distinct (map ch_id t)"
  by (auto simp: pg_commit_def split: if_splits)

lemma has_chunk_iff: "has_chunk i t \<longleftrightarrow> i \<in> ch_id ` set t"
  by (auto simp: has_chunk_def)

lemma pg_row_None: "pg_row t k = None \<longleftrightarrow> k \<notin> ch_id ` set t"
  by (auto simp: pg_row_def map_of_eq_None_iff image_image)

lemma pg_row_append: "pg_row (t @ u) = pg_row u ++ pg_row t"
  by (simp add: pg_row_def)

lemma map_id_replace [simp]: "map ch_id (replace_chunk r t) = map ch_id t"
  by (simp add: replace_chunk_def)

lemma pg_row_replace:
  assumes "has_chunk (ch_id r) t"
  shows "pg_row (replace_chunk r t) = (pg_row t)(ch_id r \<mapsto> r)"
proof (rule ext)
  fix k
  have "pg_row (replace_chunk r t) k = (if k = ch_id r \<and> has_chunk (ch_id r) t then Some r else pg_row t k)"
  proof (induction t)
    case (Cons s t)
    have "pg_row (u # t') k = (if k = ch_id u then Some u else pg_row t' k)" for u :: "'a chunk" and t'
      by (simp add: pg_row_def)
    with Cons show ?case
      by (cases "ch_id s = ch_id r"; cases "k = ch_id r"; cases "k = ch_id s") (simp_all add: replace_chunk_def has_chunk_def)
  qed (simp add: pg_row_def replace_chunk_def has_chunk_def)
  with assms show "pg_row (replace_chunk r t) k = ((pg_row t)(ch_id r \<mapsto> r)) k" by simp
qed

lemma pg_row_snoc: "\<not> has_chunk (ch_id r) t \<Longrightarrow> pg_row (t @ [r]) = (pg_row t)(ch_id r \<mapsto> r)"
proof -
  assume "\<not> has_chunk (ch_id r) t"
  then have "pg_row t (ch_id r) = None" by (simp add: pg_row_None has_chunk_iff)
  moreover have "pg_row [r] = [ch_id r \<mapsto> r]" by (simp add: pg_row_def fun_eq_iff)
  ultimately show ?thesis by (auto simp: pg_row_append fun_eq_iff map_add_def split: option.splits)
qed

lemma chunk_map_Cons:
  "m ++ chunk_map env c (i # items) = m(vi_id i \<mapsto> row_of_item env c i) ++ chunk_map env c items"
  by (auto simp: fun_eq_iff map_add_def map_of_append split: option.splits)

lemma upsert_encrypted:
  assumes "rfold (\<lambda>i t. let r = row_of_item env c i
      in if has_chunk (ch_id r) t then pg_commit env (replace_chunk r t) else pg_commit env (t @ [r])) items t = Inr t'"
    and "distinct (map ch_id t)"
  shows "pg_row t' = pg_row t ++ chunk_map env c items \<and> distinct (map ch_id t')"
  using assms
proof (induction items arbitrary: t)
  case (Cons i items)
  let ?r = "row_of_item env c i"
  let ?u = "if has_chunk (ch_id ?r) t then replace_chunk ?r t else t @ [?r]"
  from Cons.prems(1) obtain u where u: "pg_commit env ?u = Inr u"
    and rest: "rfold (\<lambda>i t. let r = row_of_item env c i
      in if has_chunk (ch_id r) t then pg_commit env (replace_chunk r t) else pg_commit env (t @ [r])) items u = Inr t'"
    by (auto simp: rbind_Inr_iff Let_def split: if_splits)
  from pg_commit_InrD [OF u] have u': "u = ?u" "distinct (map ch_id u)" by simp_all
  have "pg_row u = (pg_row t)(vi_id i \<mapsto> ?r)"
    using pg_row_replace [of ?r t] pg_row_snoc [of ?r t] by (simp add: u'(1))
  with Cons.IH [OF rest u'(2)] show ?case by (simp only: chunk_map_Cons)
qed simp

abbreviation upsert_step where
  "upsert_step env c t \<equiv> \<lambda>i (t', added). let r = row_of_item env c i
     in if has_chunk (ch_id r) t then (replace_chunk r t', added) else (t', added @ [r])"

lemma upsert_plain_shape:
  "fold (upsert_step env c t) items (t1, a1) = (t2, a2) \<Longrightarrow> map ch_id t2 = map ch_id t1 \<and> (\<exists>more. a2 = a1 @ more)"
proof (induction items arbitrary: t1 a1)
  case (Cons i items)
  show ?case
  proof (cases "has_chunk (vi_id i) t")
    case True
    with Cons.prems Cons.IH [of "replace_chunk (row_of_item env c i) t1" a1] show ?thesis by (simp add: Let_def)
  next
    case False
    with Cons.prems Cons.IH [of t1 "a1 @ [row_of_item env c i]"] show ?thesis by (auto simp: Let_def)
  qed
qed simp

lemma upsert_plain:
  assumes "fold (upsert_step env c t) items (t1, a1) = (t2, a2)" "distinct (map ch_id (t2 @ a2))"
    and "map ch_id t1 = map ch_id t"
  shows "pg_row (t2 @ a2) = pg_row (t1 @ a1) ++ chunk_map env c items"
  using assms
proof (induction items arbitrary: t1 a1)
  case (Cons i items)
  let ?r = "row_of_item env c i"
  have same: "has_chunk k t1 \<longleftrightarrow> has_chunk k t" for k
    using Cons.prems(3) by (metis has_chunk_iff image_set)
  show ?case
  proof (cases "has_chunk (vi_id i) t")
    case True
    then have next_step: "fold (upsert_step env c t) items (replace_chunk ?r t1, a1) = (t2, a2)"
      using Cons.prems(1) by (simp add: Let_def)
    have "pg_row (replace_chunk ?r t1 @ a1) = (pg_row (t1 @ a1))(vi_id i \<mapsto> ?r)"
      using True same by (simp add: pg_row_append pg_row_replace)
    moreover have "map ch_id (replace_chunk ?r t1) = map ch_id t" using Cons.prems(3) by simp
    ultimately show ?thesis using Cons.IH [OF next_step Cons.prems(2)] by (simp only: chunk_map_Cons)
  next
    case False
    then have next_step: "fold (upsert_step env c t) items (t1, a1 @ [?r]) = (t2, a2)"
      using Cons.prems(1) by (simp add: Let_def)
    from upsert_plain_shape [OF this] Cons.prems(2)
    have "distinct (map ch_id ((t1 @ a1) @ [?r]))" by auto
    then have "\<not> has_chunk (ch_id ?r) (t1 @ a1)" by (auto simp: has_chunk_iff)
    from pg_row_snoc [OF this] Cons.IH [OF next_step Cons.prems(2,3)] show ?thesis
      by (simp only: chunk_map_Cons append_assoc row_of_item_simps)
  qed
qed simp

lemma pg_upsert_rows:
  assumes "pg_sound t" "pg_upsert env c items t = Inr t'"
  shows "pg_row t' = pg_row t ++ chunk_map env c items" and "pg_sound t'"
proof -
  have "pg_row t' = pg_row t ++ chunk_map env c items \<and> pg_sound t'"
  proof (cases "pg_crypto env")
    case True
    then show ?thesis
      using upsert_encrypted [of env c items t t'] assms unfolding pg_upsert_def pg_sound_def if_P [OF True] by blast
  next
    case False
    obtain t2 a2 where f: "fold (upsert_step env c t) items (t, []) = (t2, a2)" by fastforce
    with assms(2) False have "pg_commit env (t2 @ a2) = Inr t'" by (simp add: pg_upsert_def)
    from pg_commit_InrD [OF this] upsert_plain [OF f _ refl] show ?thesis by (simp add: pg_sound_def)
  qed
  then show "pg_row t' = pg_row t ++ chunk_map env c items" "pg_sound t'" by simp_all
qed

lemma map_of_entries:
  "map_of (rev (map (\<lambda>i. (vi_id i, pg_entry env i)) items)) k =
     map_option (\<lambda>r. (ch_vector r, ch_text r, ch_metadata r)) (chunk_map env c items k)"
proof -
  have "rev (map (\<lambda>i. (vi_id i, pg_entry env i)) items) =
      map (\<lambda>(i, r). (i, (ch_vector r, ch_text r, ch_metadata r))) (rev (map (\<lambda>i. (vi_id i, row_of_item env c i)) items))"
    by (simp add: rev_map pg_entry_def row_of_item_def Let_def)
  then show ?thesis by (simp only: map_of_map) simp
qed

lemma chunk_map_collection: "chunk_map env c items k = Some r \<Longrightarrow> ch_collection r = c"
  by (drule map_of_SomeD) auto

lemma pg_upsert_own:
  assumes "pg_sound t" "pg_upsert env c items t = Inr t'"
  shows "pg_contents t' c = pg_contents t c ++ map_of (rev (map (\<lambda>i. (vi_id i, pg_entry env i)) items))"
  unfolding fun_eq_iff pg_contents_def pg_upsert_rows [OF assms] map_add_def map_of_entries [of env _ _ c]
  by (auto split: option.splits dest: chunk_map_collection)

lemma pg_upsert_other:
  assumes "pg_sound t" "pg_upsert env c items t = Inr t'" "k \<notin> vi_id ` set items"
  shows "pg_contents t' c' k = pg_contents t c' k"
proof -
  have "chunk_map env c items k = None" using assms(3) by (simp add: map_of_eq_None_iff image_image)
  then show ?thesis by (simp add: pg_contents_def pg_upsert_rows [OF assms(1,2)] map_add_def)
qed

lemma pg_upsert_elsewhere:
  assumes "pg_sound t" "pg_upsert env c items t = Inr t'" "c' \<noteq> c"
  shows "pg_contents t' c' k \<in> {None, pg_contents t c' k}"
proof (cases "chunk_map env c items k")
  case None
  then show ?thesis by (simp add: pg_contents_def pg_upsert_rows [OF assms(1,2)] map_add_def)
next
  case (Some r)
  with assms(3) chunk_map_collection [OF Some] show ?thesis
    by (simp add: pg_contents_def pg_upsert_rows [OF assms(1,2)] map_add_def)
qed

lemma pg_row_filter: "distinct (map ch_id t) \<Longrightarrow>
    pg_row (filter p t) k = (case pg_row t k of None \<Rightarrow> None | Some r \<Rightarrow> if p r then Some r else None)"
  by (induction t) (auto simp: pg_row_def map_of_eq_None_iff image_image split: option.splits dest: map_of_SomeD)

lemma pg_row_id: "pg_row t k = Some r \<Longrightarrow> ch_id r = k"
  by (auto simp: pg_row_def dest: map_of_SomeD)

lemma pg_delete_contents:
  assumes "pg_sound t"
  shows "pg_contents (pg_delete env c ids None t) c' k =
     (if c' = c \<and> (ids = None \<or> ids = Some [] \<or> k \<in> set (the ids)) then None else pg_contents t c' k)"
  using assms
  by (cases ids)
     (auto simp: pg_delete_def sql_delete_def pg_contents_def pg_sound_def pg_row_filter dest: pg_row_id split: option.splits)

lemma pg_delete_sound: "pg_sound t \<Longrightarrow> pg_sound (pg_delete env c ids f t)"
  by (simp add: pg_sound_def pg_delete_def distinct_map_sql_delete)

interpretation pg: vector_store "pg_client env" pg_sound pg_contents "pg_entry env" for env :: "'x::zero pg_env"
proof
  fix t t' :: "'x chunks" and c c' k and items :: "'x vector_item list" and ids :: "string list" and e :: py_error
  assume t: "pg_sound t"
  show "pg_contents t' c = pg_contents t c ++ map_of (rev (map (\<lambda>i. (vi_id i, pg_entry env i)) items))"
    if "vc_upsert (pg_client env) c items t = Inr t'"
    using pg_upsert_own [OF t] that by (simp add: pg_client_def)
  show "pg_contents t' c' k = pg_contents t c' k"
    if "vc_upsert (pg_client env) c items t = Inr t'" "k \<notin> vi_id ` set items"
    using pg_upsert_other [OF t] that by (simp add: pg_client_def)
  show "pg_contents t' c' k \<in> {None, pg_contents t c' k}"
    if "vc_upsert (pg_client env) c items t = Inr t'" "c' \<noteq> c"
    using pg_upsert_elsewhere [OF t, of env c items t' c' k] that by (simp add: pg_client_def)
  show "pg_contents t' c = pg_contents t c |` (- set ids)"
    if "ids \<noteq> []" "vc_delete (pg_client env) c ids t = Inr t'"
    using that pg_delete_contents [OF t] by (auto simp: pg_client_def fun_eq_iff restrict_map_def)
  show "pg_contents t' c' = pg_contents t c'"
    if "vc_delete (pg_client env) c ids t = Inr t'" "c' \<noteq> c"
    using that pg_delete_contents [OF t] by (auto simp: pg_client_def fun_eq_iff)
  show "pg_contents t' c = Map.empty" if "vc_delete_collection (pg_client env) c t = Inr t'"
    using that pg_delete_contents [OF t] by (auto simp: pg_client_def pg_delete_collection_def fun_eq_iff)
  show "pg_contents t' c' = pg_contents t c'"
    if "vc_delete_collection (pg_client env) c t = Inr t'" "c' \<noteq> c"
    using that pg_delete_contents [OF t] by (auto simp: pg_client_def pg_delete_collection_def fun_eq_iff)
  show "pg_contents t c = Map.empty" if "vc_delete_collection (pg_client env) c t = Inl e"
    using that by (simp add: pg_client_def)
  show "pg_sound t'" if "vc_upsert (pg_client env) c items t = Inr t'"
    using pg_upsert_rows(2) [OF t] that by (simp add: pg_client_def)
  show "pg_sound t'" if "vc_delete (pg_client env) c ids t = Inr t'"
    using pg_delete_sound [OF t] that by (auto simp: pg_client_def)
  show "pg_sound t'" if "vc_delete_collection (pg_client env) c t = Inr t'"
    using pg_delete_sound [OF t] that by (auto simp: pg_client_def pg_delete_collection_def)
qed

subsection \<open>Facts about metadata\<close>

text \<open>What the client stores has no nothing, no list, no dictionary and no null character, and storing it again changes nothing.\<close>

lemma processed_values:
  "(k, v) \<in> set (process_metadata text_of n d) \<Longrightarrow>
     v \<noteq> PNone \<and> \<not> is_list v \<and> \<not> is_dict v \<and> k \<notin> set keys_to_exclude \<and> (\<forall>s. v = PStr s \<longrightarrow> CHR 0x00 \<notin> set s)"
  by (auto simp: process_metadata_def sanitize_value_def sanitize_text_def split: pyval.splits if_splits)

lemma sanitize_text_idem [simp]: "sanitize_text (sanitize_text s) = sanitize_text s"
  by (simp add: sanitize_text_def)

lemma process_metadata_idem: "process_metadata text_of n (process_metadata text_of n d) = process_metadata text_of n d"
proof -
  let ?p = "process_metadata text_of n d"
  have "\<not> too_large text_of n v" if "(k, v) \<in> set ?p" for k v
    using processed_values [OF that] by (simp add: too_large_def split: option.splits)
  then have keep: "filter (\<lambda>(k, v). k \<notin> set keys_to_exclude \<and> v \<noteq> PNone \<and> \<not> too_large text_of n v) ?p = ?p"
    using processed_values by (fastforce intro!: filter_True)
  have "sanitize_value v = v" if "(k, v) \<in> set ?p" for k v
    using processed_values [OF that] by (auto simp: sanitize_value_def sanitize_text_def intro!: filter_True split: pyval.splits)
  then show ?thesis
    using processed_values [of _ _ text_of n d]
    by (subst process_metadata_def) (auto simp: keep intro!: map_idI)
qed

lemma normalized_filter_matches:
  "normalize_filter f = Inr g \<Longrightarrow> metadata_matches_filter d g = metadata_matches_filter d f"
proof (induction f arbitrary: g)
  case (Cons p f)
  obtain k v where p: "p = (k, v)" by (cases p)
  from Cons.prems p obtain c h where c: "filter_condition v = Inr c" and h: "normalize_filter f = Inr h"
    and g: "g = (k, case c of Equals w \<Rightarrow> w | One_Of ws \<Rightarrow> PDict [(''$in'', PList ws)]) # h"
    by (auto simp: normalize_filter_def rbind_Inr_iff)
  have "filter_condition (case c of Equals w \<Rightarrow> w | One_Of ws \<Rightarrow> PDict [(''$in'', PList ws)]) = Inr c"
  proof (cases c)
    case (Equals w)
    then have "w = v" using c by (auto simp: filter_condition_def rbind_Inr_iff split: pyval.splits if_splits)
    with c Equals show ?thesis by simp
  qed (simp add: filter_condition_def dict_item_def)
  with Cons.IH [OF h] c show ?case by (simp add: g p)
qed (simp add: normalize_filter_def)

end
