(* ===== verification/Memories.thy ===== *)
theory Memories
  imports Memory_Paths Vector_Store Access_Control
begin

section \<open>Memories of a user\<close>

text \<open>
  Models the table of \<open>models/memories.py\<close>, the checks of batches in \<open>utils/memory.py\<close> and the endpoints of
  \<open>routers/memories.py\<close>, which keep the vectors of a user's memories in the collection \<open>user-memory-<id>\<close>.

  The vector store is the argument \<open>client\<close> (the interface of \<open>Vector_Store\<close>); the embedding model, the new ids,
  the clock and the configuration are fields of an environment. An endpoint returns the state it leaves, also when it
  raises: rows are committed before their vectors are made. Events that the endpoints publish, and the similarity
  search of \<open>query_memory\<close>, are not represented.
\<close>

subsection \<open>The table\<close>

definition normalize_memory_type :: "string option \<Rightarrow> string" where
  "normalize_memory_type t = (if t = Some ''user'' then ''user'' else ''context'')"

definition merged_meta :: "pydict option \<Rightarrow> pydict option \<Rightarrow> pydict option" where
  "merged_meta old new = (case new of None \<Rightarrow> old | Some d \<Rightarrow> Some (dmerge (case old of None \<Rightarrow> [] | Some e \<Rightarrow> e) d))"

definition has_memory :: "string \<Rightarrow> memory_row list \<Rightarrow> bool" where
  "has_memory i rows = (\<exists>m \<in> set rows. mem_id m = i)"

definition insert_new_memory ::
  "string \<Rightarrow> int \<Rightarrow> string \<Rightarrow> string \<Rightarrow> string option \<Rightarrow> string option \<Rightarrow> pydict option \<Rightarrow> memory_row list
     \<Rightarrow> (memory_row list \<times> memory_row) result" where
  "insert_new_memory new_id now user_id content memory_type path meta rows =
     (let record = \<lparr>mem_id = new_id, mem_user_id = user_id, mem_type = normalize_memory_type memory_type,
                    mem_path = path, mem_content = content, mem_meta = meta, mem_updated_at = now, mem_created_at = now\<rparr>
      in if has_memory new_id rows then Inl IntegrityError else Inr (rows @ [record], record))"

definition get_memory_by_id :: "string \<Rightarrow> memory_row list \<Rightarrow> memory_row option" where
  "get_memory_by_id i rows = find (\<lambda>m. mem_id m = i) rows"

definition get_memories_by_user_id :: "string \<Rightarrow> memory_row list \<Rightarrow> memory_row list" where
  "get_memories_by_user_id user_id rows = filter (\<lambda>m. mem_user_id m = user_id) rows"

definition save_memory :: "memory_row \<Rightarrow> memory_row list \<Rightarrow> memory_row list" where
  "save_memory m rows = map (\<lambda>m'. if mem_id m' = mem_id m then m else m') rows"

text \<open>A row with new content, type or path, where they are given.\<close>

definition changed_row ::
  "string option \<Rightarrow> string option \<Rightarrow> string option option \<Rightarrow> pydict option \<Rightarrow> int \<Rightarrow> memory_row \<Rightarrow> memory_row" where
  "changed_row content memory_type path meta now m =
     m\<lparr>mem_content := (case content of None \<Rightarrow> mem_content m | Some c \<Rightarrow> c),
       mem_type := (if memory_type = None then mem_type m else normalize_memory_type memory_type),
       mem_path := (case path of None \<Rightarrow> mem_path m | Some p \<Rightarrow> p),
       mem_meta := merged_meta (mem_meta m) meta, mem_updated_at := now\<rparr>"

definition update_memory_by_id_and_user_id ::
  "string \<Rightarrow> string \<Rightarrow> string option \<Rightarrow> string option \<Rightarrow> string option \<Rightarrow> bool \<Rightarrow> pydict option \<Rightarrow> int
     \<Rightarrow> memory_row list \<Rightarrow> memory_row list \<times> memory_row option" where
  "update_memory_by_id_and_user_id i user_id content memory_type path update_path meta now rows =
     (case get_memory_by_id i rows of
        None \<Rightarrow> (rows, None)
      | Some m \<Rightarrow>
          if mem_user_id m \<noteq> user_id then (rows, None)
          else let m = changed_row content memory_type (if update_path then Some path else None) meta now m
               in (save_memory m rows, Some m))"

definition delete_memory_by_id :: "string \<Rightarrow> memory_row list \<Rightarrow> memory_row list \<times> bool" where
  "delete_memory_by_id i rows = (sql_delete (\<lambda>m. mem_id m = i) rows, True)"

definition delete_memories_by_user_id :: "string \<Rightarrow> memory_row list \<Rightarrow> memory_row list \<times> bool" where
  "delete_memories_by_user_id user_id rows = (sql_delete (\<lambda>m. mem_user_id m = user_id) rows, True)"

definition delete_memory_by_id_and_user_id :: "string \<Rightarrow> string \<Rightarrow> memory_row list \<Rightarrow> memory_row list \<times> bool" where
  "delete_memory_by_id_and_user_id i user_id rows =
     (case get_memory_by_id i rows of
        None \<Rightarrow> (rows, False)
      | Some m \<Rightarrow> if mem_user_id m \<noteq> user_id then (rows, False) else (sql_delete (\<lambda>m. mem_id m = i) rows, True))"

subsection \<open>Batches\<close>

text \<open>An operation of a batch. The path is \<open>None\<close> when the dictionary has no such key.\<close>

record memory_op =
  op_action :: string
  op_id :: "string option"
  op_content :: "string option"
  op_type :: "string option"
  op_path :: "string option option"
  op_meta :: "pydict option"

record memory_result =
  re_action :: string
  re_status :: string
  re_memory :: "memory_row option"
  re_id :: "string option"

text \<open>
  The session of a batch: the rows a query sees and the ids marked for deletion. A deletion is written by the next
  flush; a query does not flush.
\<close>

record memory_session =
  ms_rows :: "memory_row list"
  ms_gone :: "string list"

definition flush :: "memory_row list \<Rightarrow> string list \<Rightarrow> memory_session" where
  "flush rows gone = \<lparr>ms_rows = sql_delete (\<lambda>m. mem_id m \<in> set gone) rows, ms_gone = []\<rparr>"

definition id_text :: "string option \<Rightarrow> string" where
  "id_text i = (case i of None \<Rightarrow> ''None'' | Some k \<Rightarrow> k)"

definition own_memory :: "string \<Rightarrow> string option \<Rightarrow> memory_session \<Rightarrow> memory_row result" where
  "own_memory user_id i s =
     (case Option.bind i (\<lambda>k. get_memory_by_id k (ms_rows s)) of
        Some m \<Rightarrow> if mem_user_id m = user_id then Inr m else Inl (ValueError (''Memory not found: '' @ id_text i))
      | None \<Rightarrow> Inl (ValueError (''Memory not found: '' @ id_text i)))"

definition stripped_content :: "memory_op \<Rightarrow> string result" where
  "stripped_content op = (case op_content op of None \<Rightarrow> Inl AttributeError | Some c \<Rightarrow> Inr (str_strip c))"

definition duplicate_of :: "string \<Rightarrow> string \<Rightarrow> string \<Rightarrow> string option \<Rightarrow> memory_session \<Rightarrow> memory_row option" where
  "duplicate_of user_id content memory_type path s =
     find (\<lambda>m. mem_user_id m = user_id \<and> mem_content m = content \<and> mem_type m = memory_type \<and> mem_path m = path) (ms_rows s)"

definition apply_add :: "string \<Rightarrow> int \<Rightarrow> string \<Rightarrow> memory_op \<Rightarrow> memory_session \<Rightarrow> (memory_session \<times> memory_result) result" where
  "apply_add user_id now new_id op s =
     rbind (stripped_content op) (\<lambda>content.
       let memory_type = normalize_memory_type (op_type op);
           path = (case op_path op of None \<Rightarrow> None | Some p \<Rightarrow> p)
       in case duplicate_of user_id content memory_type path s of
            Some existing \<Rightarrow>
              Inr (s, \<lparr>re_action = ''add'', re_status = ''skipped'', re_memory = Some existing, re_id = None\<rparr>)
          | None \<Rightarrow>
              rbind (insert_new_memory new_id now user_id content (Some memory_type) path (op_meta op) (ms_rows s))
                (\<lambda>(rows, m). Inr (flush rows (ms_gone s),
                   \<lparr>re_action = ''add'', re_status = ''created'', re_memory = Some m, re_id = None\<rparr>)))"

definition apply_replace :: "string \<Rightarrow> int \<Rightarrow> memory_op \<Rightarrow> memory_session \<Rightarrow> (memory_session \<times> memory_result) result" where
  "apply_replace user_id now op s =
     rbind (stripped_content op) (\<lambda>content. rbind (own_memory user_id (op_id op) s) (\<lambda>m.
       let m = changed_row (Some content) (op_type op) (op_path op) (op_meta op) now m
       in Inr (flush (save_memory m (ms_rows s)) (ms_gone s),
               \<lparr>re_action = ''replace'', re_status = ''updated'', re_memory = Some m, re_id = None\<rparr>)))"

definition apply_move :: "string \<Rightarrow> int \<Rightarrow> memory_op \<Rightarrow> memory_session \<Rightarrow> (memory_session \<times> memory_result) result" where
  "apply_move user_id now op s =
     rbind (own_memory user_id (op_id op) s) (\<lambda>m.
       let m = changed_row None None (Some (case op_path op of None \<Rightarrow> None | Some p \<Rightarrow> p)) (op_meta op) now m
       in Inr (flush (save_memory m (ms_rows s)) (ms_gone s),
               \<lparr>re_action = ''move'', re_status = ''updated'', re_memory = Some m, re_id = None\<rparr>))"

definition apply_remove :: "string \<Rightarrow> memory_op \<Rightarrow> memory_session \<Rightarrow> (memory_session \<times> memory_result) result" where
  "apply_remove user_id op s =
     rbind (own_memory user_id (op_id op) s) (\<lambda>m.
       Inr (s\<lparr>ms_gone := mem_id m # ms_gone s\<rparr>,
            \<lparr>re_action = ''remove'', re_status = ''deleted'', re_memory = None, re_id = op_id op\<rparr>))"

definition apply_operation :: "string \<Rightarrow> int \<Rightarrow> string \<Rightarrow> memory_op \<Rightarrow> memory_session \<Rightarrow> (memory_session \<times> memory_result) result" where
  "apply_operation user_id now new_id op s =
     (if op_action op = ''add'' then apply_add user_id now new_id op s
      else if op_action op = ''replace'' then apply_replace user_id now op s
      else if op_action op = ''move'' then apply_move user_id now op s
      else if op_action op = ''remove'' then apply_remove user_id op s
      else Inl (ValueError (''Unsupported memory operation: '' @ op_action op)))"

text \<open>The whole batch is one transaction; \<open>new_id n\<close> is the id drawn when \<open>n\<close> operations are done.\<close>

definition apply_memory_operations ::
  "string \<Rightarrow> int \<Rightarrow> (nat \<Rightarrow> string) \<Rightarrow> memory_op list \<Rightarrow> memory_row list \<Rightarrow> (memory_row list \<times> memory_result list) result" where
  "apply_memory_operations user_id now new_id ops rows =
     rbind (rfold (\<lambda>op (s, results).
         rbind (apply_operation user_id now (new_id (length results)) op s) (\<lambda>(s', r). Inr (s', results @ [r])))
       ops (\<lparr>ms_rows = rows, ms_gone = []\<rparr>, []))
       (\<lambda>(s, results). Inr (ms_rows (flush (ms_rows s) (ms_gone s)), results))"

text \<open>What a request may hold, and what is made of it before the batch.\<close>

record memory_form_op =
  fo_action :: string
  fo_id :: "string option"
  fo_content :: "string option"
  fo_type :: "string option"
  fo_path :: "string option"

definition validate_operation :: "memory_form_op \<Rightarrow> memory_op result" where
  "validate_operation f =
     (let op = \<lparr>op_action = fo_action f, op_id = fo_id f, op_content = fo_content f, op_type = fo_type f,
                op_path = Some (fo_path f), op_meta = None\<rparr>
      in if fo_action f = ''add'' then
           rbind (clean_memory_content (fo_content f)) (\<lambda>c. rbind (clean_memory_path (fo_path f)) (\<lambda>p.
             Inr (op\<lparr>op_content := Some c, op_type := Some (normalize_memory_type (fo_type f)), op_path := Some p\<rparr>)))
         else if fo_action f = ''replace'' then
           (if \<not> is_given (fo_id f) then Inl (HTTPException 400 ''Memory id is required for replace'')
            else rbind (clean_memory_content (fo_content f)) (\<lambda>c. rbind (clean_memory_path (fo_path f)) (\<lambda>p.
              Inr (op\<lparr>op_content := Some c,
                      op_type := (if fo_type f = None then None else Some (normalize_memory_type (fo_type f))),
                      op_path := Some p\<rparr>))))
         else if fo_action f = ''move'' then
           (if \<not> is_given (fo_id f) then Inl (HTTPException 400 ''Memory id is required for move'')
            else rbind (clean_memory_path (fo_path f)) (\<lambda>p. Inr (op\<lparr>op_path := Some p\<rparr>)))
         else if fo_action f = ''remove'' then
           (if \<not> is_given (fo_id f) then Inl (HTTPException 400 ''Memory id is required for remove'') else Inr op)
         else Inl (HTTPException 400 (''Unsupported memory operation: '' @ fo_action f)))"

definition validate_memory_operations :: "memory_form_op list \<Rightarrow> memory_op list result" where
  "validate_memory_operations operations =
     (if operations = [] then Inl (HTTPException 400 ''No memory operations provided'')
      else rmap validate_operation operations)"

subsection \<open>Endpoints\<close>

text \<open>
  Configuration and surroundings of a request. \<open>me_embed u t\<close> is the vector of a text with the prefix for contents,
  for user \<open>u\<close>; \<open>me_message\<close> is \<open>str(e)\<close>.
\<close>

record 'x memory_env =
  me_enabled :: bool
  me_permissions :: pydict
  me_default_permissions :: pydict
  me_groups :: group_db
  me_embed :: "string \<Rightarrow> string \<Rightarrow> 'x list result"
  me_message :: "py_error \<Rightarrow> string"
  me_new_id :: "nat \<Rightarrow> string"
  me_now :: int

record 'v memory_db =
  md_rows :: "memory_row list"
  md_vectors :: 'v

definition check_memories_permission :: "'x memory_env \<Rightarrow> user_row \<Rightarrow> unit result" where
  "check_memories_permission env user =
     (if \<not> me_enabled env then Inl (HTTPException 404 ''NOT_FOUND'')
      else if u_role user = ''admin'' then Inr ()
      else rbind (has_permission (me_default_permissions env) (u_id user) ''features.memories'' (me_permissions env) (me_groups env))
             (\<lambda>b. if b then Inr () else Inl (HTTPException 403 ''ACCESS_PROHIBITED'')))"

definition memory_metadata :: "memory_row \<Rightarrow> pydict" where
  "memory_metadata m =
     [(''created_at'', PInt (mem_created_at m)), (''updated_at'', PInt (mem_updated_at m)),
      (''type'', PStr (mem_type m)), (''path'', case mem_path m of None \<Rightarrow> PNone | Some p \<Rightarrow> PStr p)]"

definition memory_item :: "'x memory_env \<Rightarrow> string \<Rightarrow> memory_row \<Rightarrow> 'x vector_item result" where
  "memory_item env user_id m =
     rbind (memory_vector_text (mem_content m) (mem_path m)) (\<lambda>t. rbind (me_embed env user_id t) (\<lambda>v.
       Inr \<lparr>vi_id = mem_id m, vi_text = t, vi_vector = v, vi_metadata = memory_metadata m\<rparr>))"

definition collection_of :: "string \<Rightarrow> string" where
  "collection_of user_id = ''user-memory-'' @ user_id"

definition drop_collection :: "('x, 'v) vector_client \<Rightarrow> string \<Rightarrow> 'v \<Rightarrow> 'v" where
  "drop_collection client c v = (case vc_delete_collection client c v of Inl e \<Rightarrow> v | Inr w \<Rightarrow> w)"

definition reindex_memory_vectors_for_user ::
  "'x memory_env \<Rightarrow> ('x, 'v) vector_client \<Rightarrow> string \<Rightarrow> memory_row list \<Rightarrow> 'v \<Rightarrow> 'v \<times> nat result" where
  "reindex_memory_vectors_for_user env client user_id memories v =
     (let v1 = drop_collection client (collection_of user_id) v
      in if memories = [] then (v1, Inr 0)
         else case rbind (rmap (memory_item env user_id) memories) (\<lambda>items. vc_upsert client (collection_of user_id) items v1) of
                Inl e \<Rightarrow> (v1, Inl e)
              | Inr v2 \<Rightarrow> (v2, Inr (length memories)))"

definition upsert_memory_vectors_or_reindex ::
  "'x memory_env \<Rightarrow> ('x, 'v) vector_client \<Rightarrow> string \<Rightarrow> 'x vector_item list \<Rightarrow> 'v memory_db \<Rightarrow> 'v memory_db \<times> unit result" where
  "upsert_memory_vectors_or_reindex env client user_id items db =
     (case vc_upsert client (collection_of user_id) items (md_vectors db) of
        Inr v \<Rightarrow> (db\<lparr>md_vectors := v\<rparr>, Inr ())
      | Inl e \<Rightarrow>
          let message = str_lower (me_message env e)
          in if \<not> str_contains message ''dimension'' \<or> \<not> str_contains message ''embedding'' then (db, Inl e)
             else let (v, r) = reindex_memory_vectors_for_user env client user_id
                                 (get_memories_by_user_id user_id (md_rows db)) (md_vectors db)
                  in (db\<lparr>md_vectors := v\<rparr>, rbind r (\<lambda>_. Inr ())))"

text \<open>One call after another: a step that raises ends the endpoint in the state it leaves.\<close>

definition then_do :: "'s \<times> 'a result \<Rightarrow> ('s \<Rightarrow> 'a \<Rightarrow> 's \<times> 'b result) \<Rightarrow> 's \<times> 'b result" where
  "then_do r f = (case r of (s, Inl e) \<Rightarrow> (s, Inl e) | (s, Inr x) \<Rightarrow> f s x)"

definition embed_memory ::
  "'x memory_env \<Rightarrow> ('x, 'v) vector_client \<Rightarrow> string \<Rightarrow> memory_row \<Rightarrow> 'v memory_db \<Rightarrow> 'v memory_db \<times> memory_row result" where
  "embed_memory env client user_id m db =
     then_do (db, memory_item env user_id m) (\<lambda>db i.
     then_do (upsert_memory_vectors_or_reindex env client user_id [i] db) (\<lambda>db _. (db, Inr m)))"

definition made_by :: "string \<Rightarrow> pydict" where
  "made_by source = [(''created_by'', PStr source)]"

definition add_memory ::
  "'x memory_env \<Rightarrow> ('x, 'v) vector_client \<Rightarrow> user_row \<Rightarrow> string \<Rightarrow> string \<Rightarrow> string option \<Rightarrow> 'v memory_db
     \<Rightarrow> 'v memory_db \<times> memory_row result" where
  "add_memory env client user content memory_type path db =
     then_do (db, check_memories_permission env user) (\<lambda>db _.
     then_do (db, clean_memory_content (Some content)) (\<lambda>db content.
     then_do (db, clean_memory_path path) (\<lambda>db path.
     then_do (db, insert_new_memory (me_new_id env 0) (me_now env) (u_id user) content (Some memory_type) path
                 (Some (made_by ''manual'')) (md_rows db)) (\<lambda>db (rows, m).
     embed_memory env client (u_id user) m (db\<lparr>md_rows := rows\<rparr>)))))"

text \<open>The origin of an operation, for those that store a row.\<close>

definition with_meta :: "string \<Rightarrow> pydict \<Rightarrow> memory_op \<Rightarrow> memory_op" where
  "with_meta source metadata op =
     (if op_action op \<in> {''add'', ''replace'', ''move''}
      then op\<lparr>op_meta := Some (made_by source @ map (\<lambda>k. (k, dget metadata k)) [''chat_id'', ''message_id'', ''model''])\<rparr>
      else op)"

definition is_stored :: "memory_result \<Rightarrow> bool" where
  "is_stored r = (re_memory r \<noteq> None \<and> re_status r \<in> {''created'', ''updated''})"

definition stored_memories :: "memory_result list \<Rightarrow> memory_row list" where
  "stored_memories results = map (the \<circ> re_memory) (filter is_stored results)"

definition deleted_ids :: "memory_result list \<Rightarrow> string list" where
  "deleted_ids results = map (or_empty \<circ> re_id) (filter (\<lambda>r. re_status r = ''deleted'' \<and> is_given (re_id r)) results)"

text \<open>The vectors of what a batch stored, and the deletion of those it removed.\<close>

definition finish_batch ::
  "'x memory_env \<Rightarrow> ('x, 'v) vector_client \<Rightarrow> string \<Rightarrow> memory_result list \<Rightarrow> 'v memory_db \<Rightarrow> 'v memory_db \<times> memory_result list result" where
  "finish_batch env client user_id results db =
     then_do (db, rmap (memory_item env user_id) (stored_memories results)) (\<lambda>db items.
     then_do (if items = [] then (db, Inr ()) else upsert_memory_vectors_or_reindex env client user_id items db) (\<lambda>db _.
     let ids = deleted_ids results
     in if ids = [] then (db, Inr results)
        else case vc_delete client (collection_of user_id) ids (md_vectors db) of
               Inl e \<Rightarrow> (db, Inl e)
             | Inr v \<Rightarrow> (db\<lparr>md_vectors := v\<rparr>, Inr results)))"

definition update_memories ::
  "'x memory_env \<Rightarrow> ('x, 'v) vector_client \<Rightarrow> user_row \<Rightarrow> pydict \<Rightarrow> string option \<Rightarrow> memory_form_op list \<Rightarrow> 'v memory_db
     \<Rightarrow> 'v memory_db \<times> memory_result list result" where
  "update_memories env client user metadata source operations db =
     then_do (db, check_memories_permission env user) (\<lambda>db _.
     then_do (db, validate_memory_operations operations) (\<lambda>db ops.
     let ops = map (with_meta (if is_given source then or_empty source else ''tool'') metadata) ops;
         applied = apply_memory_operations (u_id user) (me_now env) (me_new_id env) ops (md_rows db)
     in then_do (db, case applied of Inl (ValueError e) \<Rightarrow> Inl (HTTPException 404 e) | r \<Rightarrow> r) (\<lambda>db (rows, results).
        finish_batch env client (u_id user) results (db\<lparr>md_rows := rows\<rparr>))))"

definition update_memory_by_id ::
  "'x memory_env \<Rightarrow> ('x, 'v) vector_client \<Rightarrow> user_row \<Rightarrow> string \<Rightarrow> string option \<Rightarrow> string option \<Rightarrow> string option
     \<Rightarrow> 'v memory_db \<Rightarrow> 'v memory_db \<times> memory_row result" where
  "update_memory_by_id env client user i content memory_type path db =
     then_do (db, check_memories_permission env user) (\<lambda>db _.
     then_do (db, if content = None then Inr None else rbind (clean_memory_content content) (\<lambda>c. Inr (Some c))) (\<lambda>db cleaned.
     then_do (db, clean_memory_path path) (\<lambda>db cleaned_path.
     if cleaned = None \<and> memory_type = None \<and> path = None
     then (db, Inl (HTTPException 400 ''No memory update provided''))
     else case update_memory_by_id_and_user_id i (u_id user) cleaned memory_type cleaned_path (path \<noteq> None)
                 (Some (made_by ''manual'')) (me_now env) (md_rows db) of
            (rows, None) \<Rightarrow> (db, Inl (HTTPException 404 ''NOT_FOUND''))
          | (rows, Some m) \<Rightarrow>
              let db = db\<lparr>md_rows := rows\<rparr>
              in if content \<noteq> None \<or> path \<noteq> None then embed_memory env client (u_id user) m db else (db, Inr m))))"

definition delete_one_memory ::
  "'x memory_env \<Rightarrow> ('x, 'v) vector_client \<Rightarrow> user_row \<Rightarrow> string \<Rightarrow> 'v memory_db \<Rightarrow> 'v memory_db \<times> bool result" where
  "delete_one_memory env client user i db =
     then_do (db, check_memories_permission env user) (\<lambda>db _.
     let (rows, deleted) = delete_memory_by_id_and_user_id i (u_id user) (md_rows db);
         db = db\<lparr>md_rows := rows\<rparr>
     in if \<not> deleted then (db, Inr False)
        else case vc_delete client (collection_of (u_id user)) [i] (md_vectors db) of
               Inl e \<Rightarrow> (db, Inl e)
             | Inr v \<Rightarrow> (db\<lparr>md_vectors := v\<rparr>, Inr True))"

definition delete_memory_by_user_id ::
  "'x memory_env \<Rightarrow> ('x, 'v) vector_client \<Rightarrow> user_row \<Rightarrow> 'v memory_db \<Rightarrow> 'v memory_db \<times> bool result" where
  "delete_memory_by_user_id env client user db =
     then_do (db, check_memories_permission env user) (\<lambda>db _.
     let (rows, deleted) = delete_memories_by_user_id (u_id user) (md_rows db)
     in if deleted
        then (\<lparr>md_rows = rows, md_vectors = drop_collection client (collection_of (u_id user)) (md_vectors db)\<rparr>, Inr True)
        else (db, Inr False))"

definition reset_memory_from_vector_db ::
  "'x memory_env \<Rightarrow> ('x, 'v) vector_client \<Rightarrow> user_row \<Rightarrow> 'v memory_db \<Rightarrow> 'v memory_db \<times> bool result" where
  "reset_memory_from_vector_db env client user db =
     then_do (db, check_memories_permission env user) (\<lambda>db _.
     let (v, r) = reindex_memory_vectors_for_user env client (u_id user)
                    (get_memories_by_user_id (u_id user) (md_rows db)) (md_vectors db)
     in (db\<lparr>md_vectors := v\<rparr>, rbind r (\<lambda>_. Inr True)))"

text \<open>Of an administrator: every user's collection, in the order of the users. The result counts memories.\<close>

fun reindex_users ::
  "'x memory_env \<Rightarrow> ('x, 'v) vector_client \<Rightarrow> user_row list \<Rightarrow> nat \<Rightarrow> 'v memory_db \<Rightarrow> 'v memory_db \<times> nat result" where
  "reindex_users env client [] so_far db = (db, Inr so_far)"
| "reindex_users env client (user # users) so_far db =
     (let (v, r) = reindex_memory_vectors_for_user env client (u_id user)
                     (get_memories_by_user_id (u_id user) (md_rows db)) (md_vectors db)
      in then_do (db\<lparr>md_vectors := v\<rparr>, r) (\<lambda>db n. reindex_users env client users (so_far + n) db))"

definition reindex_memories_from_vector_db ::
  "'x memory_env \<Rightarrow> ('x, 'v) vector_client \<Rightarrow> user_row list \<Rightarrow> 'v memory_db \<Rightarrow> 'v memory_db \<times> nat result" where
  "reindex_memories_from_vector_db env client users db = reindex_users env client users 0 db"

subsection \<open>Reading endpoints\<close>

definition with_memories :: "'x memory_env \<Rightarrow> user_row \<Rightarrow> 'v memory_db \<Rightarrow> (memory_row list \<Rightarrow> 'a result) \<Rightarrow> 'a result" where
  "with_memories env user db f =
     rbind (check_memories_permission env user) (\<lambda>_. f (get_memories_by_user_id (u_id user) (md_rows db)))"

definition get_memories :: "'x memory_env \<Rightarrow> user_row \<Rightarrow> 'v memory_db \<Rightarrow> memory_row list result" where
  "get_memories env user db = with_memories env user db Inr"

definition search_memories ::
  "'x memory_env \<Rightarrow> user_row \<Rightarrow> string option \<Rightarrow> string \<Rightarrow> string option \<Rightarrow> string option \<Rightarrow> int \<Rightarrow> 'v memory_db \<Rightarrow> memory_row list result" where
  "search_memories env user query memory_type path memory_id limit db =
     with_memories env user db (\<lambda>ms. search_memory_rows ms query path memory_id memory_type limit)"

definition list_memory_paths ::
  "'x memory_env \<Rightarrow> user_row \<Rightarrow> string option \<Rightarrow> string \<Rightarrow> int \<Rightarrow> 'v memory_db \<Rightarrow> (path_group list \<times> nat) result" where
  "list_memory_paths env user query memory_type limit db =
     with_memories env user db (\<lambda>ms. Inr (list_memory_path_groups ms (or_empty query) memory_type limit))"

definition read_memory_path ::
  "'x memory_env \<Rightarrow> user_row \<Rightarrow> string \<Rightarrow> string \<Rightarrow> bool \<Rightarrow> int \<Rightarrow> 'v memory_db \<Rightarrow> path_reading result" where
  "read_memory_path env user path memory_type include_children limit db =
     with_memories env user db (\<lambda>ms. read_memory_path_rows ms (Some path) memory_type include_children limit)"

subsection \<open>What a batch does\<close>

text \<open>The table by id, and what the results of a batch say was stored.\<close>

definition tab :: "memory_row list \<Rightarrow> string \<Rightarrow> memory_row option" where
  "tab rows = map_of (map (\<lambda>m. (mem_id m, m)) rows)"

abbreviation stored_map :: "memory_result list \<Rightarrow> string \<Rightarrow> memory_row option" where
  "stored_map results \<equiv> map_of (rev (map (\<lambda>m. (mem_id m, m)) (stored_memories results)))"

lemma tab_None: "tab rows k = None \<longleftrightarrow> k \<notin> mem_id ` set rows"
  by (auto simp: tab_def map_of_eq_None_iff image_image)

lemma tab_SomeD: "tab rows k = Some m \<Longrightarrow> m \<in> set rows \<and> mem_id m = k"
  by (auto simp: tab_def dest: map_of_SomeD)

lemma tab_mem: "distinct (map mem_id rows) \<Longrightarrow> m \<in> set rows \<Longrightarrow> tab rows (mem_id m) = Some m"
  by (simp add: tab_def comp_def)

lemma tab_Cons [simp]: "tab (m # rows) k = (if k = mem_id m then Some m else tab rows k)"
  by (simp add: tab_def)

lemma tab_Nil [simp]: "tab [] k = None"
  by (simp add: tab_def)

lemma has_memory_tab: "has_memory k rows \<longleftrightarrow> tab rows k \<noteq> None"
  by (auto simp: tab_None has_memory_def)

lemma get_memory_tab: "get_memory_by_id k rows = tab rows k"
  by (induction rows) (auto simp: get_memory_by_id_def)

lemma tab_snoc: "\<not> has_memory (mem_id m) rows \<Longrightarrow> tab (rows @ [m]) = (tab rows)(mem_id m \<mapsto> m)"
proof -
  assume "\<not> has_memory (mem_id m) rows"
  moreover have "tab (rows @ [m]) k = (case tab rows k of None \<Rightarrow> if k = mem_id m then Some m else None | Some x \<Rightarrow> Some x)" for k
    by (induction rows) auto
  ultimately show ?thesis by (auto simp: fun_eq_iff has_memory_tab split: option.splits)
qed

lemma tab_save:
  assumes "tab rows (mem_id m) \<noteq> None"
  shows "tab (save_memory m rows) = (tab rows)(mem_id m \<mapsto> m)"
proof (rule ext)
  fix k
  have "tab (save_memory m rows) k = (if k = mem_id m \<and> tab rows (mem_id m) \<noteq> None then Some m else tab rows k)"
  proof (induction rows)
    case (Cons s rows)
    then show ?case
      by (cases "mem_id s = mem_id m"; cases "k = mem_id m"; cases "k = mem_id s") (simp_all add: save_memory_def)
  qed (simp add: save_memory_def)
  with assms show "tab (save_memory m rows) k = ((tab rows)(mem_id m \<mapsto> m)) k" by simp
qed

lemma map_id_save [simp]: "map mem_id (save_memory m rows) = map mem_id rows"
  by (simp add: save_memory_def)

lemma tab_delete: "tab (sql_delete (\<lambda>m. mem_id m \<in> K) rows) k = (if k \<in> K then None else tab rows k)"
  by (induction rows) (auto simp: sql_delete_def)

lemma tab_flush: "tab (ms_rows (flush rows gone)) k = (if k \<in> set gone then None else tab rows k)"
  by (simp add: flush_def tab_delete)

lemma flush_gone [simp]: "ms_gone (flush rows gone) = []"
  by (simp add: flush_def)

lemma distinct_flush: "distinct (map mem_id rows) \<Longrightarrow> distinct (map mem_id (ms_rows (flush rows gone)))"
  by (simp add: flush_def distinct_map_sql_delete)

lemma stored_memories_append [simp]:
  "stored_memories (rs @ [r]) = stored_memories rs @ (if is_stored r then [the (re_memory r)] else [])"
  by (simp add: stored_memories_def)

lemma deleted_ids_append [simp]:
  "deleted_ids (rs @ [r]) = deleted_ids rs @ (if re_status r = ''deleted'' \<and> is_given (re_id r) then [or_empty (re_id r)] else [])"
  by (simp add: deleted_ids_def)

text \<open>
  How far a batch of \<open>u\<close> has come: apart from the ids whose deletion was asked for, the session holds the table with
  the stored rows; those ids are gone or marked; every row touched is the user's.
\<close>

definition batch_inv :: "string \<Rightarrow> (nat \<Rightarrow> string) \<Rightarrow> memory_row list \<Rightarrow> memory_session \<Rightarrow> memory_result list \<Rightarrow> bool" where
  "batch_inv u new_id rows s results \<longleftrightarrow>
     distinct (map mem_id (ms_rows s))
     \<and> set (ms_gone s) \<subseteq> set (deleted_ids results)
     \<and> (\<forall>k. k \<notin> set (deleted_ids results) \<longrightarrow> tab (ms_rows s) k = (tab rows ++ stored_map results) k)
     \<and> (\<forall>k \<in> set (deleted_ids results). k \<in> set (ms_gone s) \<or> tab (ms_rows s) k = None)
     \<and> (\<forall>k. tab (ms_rows s) k \<noteq> None \<or> k \<in> set (deleted_ids results)
            \<longrightarrow> tab rows k \<noteq> None \<or> k \<in> new_id ` {..<length results})
     \<and> (\<forall>m \<in> set (stored_memories results). mem_user_id m = u)
     \<and> (\<forall>k m. k \<in> set (deleted_ids results) \<union> mem_id ` set (stored_memories results) \<longrightarrow> tab rows k = Some m \<longrightarrow> mem_user_id m = u)"

definition fresh_ids :: "(nat \<Rightarrow> string) \<Rightarrow> memory_row list \<Rightarrow> bool" where
  "fresh_ids new_id rows \<longleftrightarrow> inj new_id \<and> (\<forall>n. new_id n \<notin> mem_id ` set rows)"

lemma batch_start: "distinct (map mem_id rows) \<Longrightarrow> batch_inv u new_id rows \<lparr>ms_rows = rows, ms_gone = []\<rparr> []"
  by (simp add: batch_inv_def deleted_ids_def stored_memories_def)

lemma batch_skip:
  assumes "batch_inv u new_id rows s results" "\<not> is_stored r" "re_status r \<noteq> ''deleted''"
  shows "batch_inv u new_id rows s (results @ [r])"
  using assms unfolding batch_inv_def by (auto simp: less_Suc_eq)

lemma stored_map_None: "stored_map results k = None \<longleftrightarrow> k \<notin> mem_id ` set (stored_memories results)"
  by (simp add: map_of_eq_None_iff image_image)

lemma batch_own:
  assumes inv: "batch_inv u new_id rows s results" and m: "tab (ms_rows s) k = Some m" "mem_user_id m = u"
    and old: "tab rows k = Some m0"
  shows "mem_user_id m0 = u"
proof (cases "k \<in> set (deleted_ids results) \<union> mem_id ` set (stored_memories results)")
  case True
  then show ?thesis using inv old unfolding batch_inv_def by blast
next
  case False
  then have "tab (ms_rows s) k = tab rows k"
    using inv stored_map_None [of results k] unfolding batch_inv_def by (simp add: map_add_def)
  with m old show ?thesis by simp
qed

lemma batch_store:
  assumes inv: "batch_inv u new_id rows s results" and fresh: "fresh_ids new_id rows"
    and r: "is_stored r" "re_memory r = Some m" "re_status r \<noteq> ''deleted''"
    and rows1: "distinct (map mem_id rows1)" "tab rows1 = (tab (ms_rows s))(mem_id m \<mapsto> m)" and u: "mem_user_id m = u"
    and origin: "mem_id m = new_id (length results) \<or> (\<exists>m1. tab (ms_rows s) (mem_id m) = Some m1 \<and> mem_user_id m1 = u)"
  shows "batch_inv u new_id rows (flush rows1 (ms_gone s)) (results @ [r])"
proof -
  let ?n = "new_id (length results)" and ?d = "set (deleted_ids results)"
  have new: "tab rows ?n = None" "?n \<notin> ?d" "?n \<notin> new_id ` {..<length results}"
  proof -
    show old: "tab rows ?n = None" using fresh by (simp add: fresh_ids_def tab_None)
    show young: "?n \<notin> new_id ` {..<length results}" using fresh by (auto simp: fresh_ids_def dest: injD)
    show "?n \<notin> ?d" using inv old young unfolding batch_inv_def by blast
  qed
  have gone: "tab (ms_rows s) k = None \<or> k \<in> set (ms_gone s)" if "k \<in> ?d" for k
    using inv that unfolding batch_inv_def by blast
  have kept: "mem_id m \<in> ?d \<Longrightarrow> mem_id m \<in> set (ms_gone s)"
    using origin new(2) gone by (metis option.distinct(1))
  have mine: "mem_user_id m0 = u" if "tab rows (mem_id m) = Some m0" for m0
    using origin new(1) batch_own [OF inv] that by (metis option.distinct(1))
  have less: "new_id ` {..<length (results @ [r])} = insert ?n (new_id ` {..<length results})"
    by (auto simp: less_Suc_eq)
  show ?thesis
    unfolding batch_inv_def less
  proof (intro conjI)
    show "distinct (map mem_id (ms_rows (flush rows1 (ms_gone s))))" by (rule distinct_flush [OF rows1(1)])
    show "set (ms_gone (flush rows1 (ms_gone s))) \<subseteq> set (deleted_ids (results @ [r]))" by simp
    show "\<forall>k. k \<notin> set (deleted_ids (results @ [r])) \<longrightarrow>
        tab (ms_rows (flush rows1 (ms_gone s))) k = (tab rows ++ stored_map (results @ [r])) k"
      using inv r unfolding batch_inv_def tab_flush rows1(2) by (auto simp: map_add_def)
    show "\<forall>k \<in> set (deleted_ids (results @ [r])).
        k \<in> set (ms_gone (flush rows1 (ms_gone s))) \<or> tab (ms_rows (flush rows1 (ms_gone s))) k = None"
      using r kept gone by (auto simp: tab_flush rows1(2))
    show "\<forall>k. tab (ms_rows (flush rows1 (ms_gone s))) k \<noteq> None \<or> k \<in> set (deleted_ids (results @ [r])) \<longrightarrow>
        tab rows k \<noteq> None \<or> k \<in> insert ?n (new_id ` {..<length results})"
      using inv origin r unfolding batch_inv_def tab_flush rows1(2) by (auto split: if_splits)
    show "\<forall>m' \<in> set (stored_memories (results @ [r])). mem_user_id m' = u"
      using inv r u unfolding batch_inv_def by auto
    show "\<forall>k m0. k \<in> set (deleted_ids (results @ [r])) \<union> mem_id ` set (stored_memories (results @ [r])) \<longrightarrow>
        tab rows k = Some m0 \<longrightarrow> mem_user_id m0 = u"
      using inv r mine unfolding batch_inv_def by auto
  qed
qed

lemma batch_remove:
  assumes inv: "batch_inv u new_id rows s results" and m: "tab (ms_rows s) k = Some m" "mem_user_id m = u"
    and r: "re_status r = ''deleted''" "re_id r = Some k" "k \<noteq> []"
  shows "batch_inv u new_id rows (s\<lparr>ms_gone := k # ms_gone s\<rparr>) (results @ [r])"
proof -
  have "\<not> is_stored r" using r by (simp add: is_stored_def)
  moreover have "mem_user_id m0 = u" if "tab rows k = Some m0" for m0
    by (rule batch_own [OF inv m that])
  ultimately show ?thesis
    using inv m(1) r unfolding batch_inv_def by (auto simp: less_Suc_eq)
qed

lemma changed_row_owner [simp]:
  "mem_id (changed_row content t p meta now m) = mem_id m" "mem_user_id (changed_row content t p meta now m) = mem_user_id m"
  by (simp_all add: changed_row_def)

lemma own_memory_Inr:
  "own_memory u i s = Inr m \<longleftrightarrow> (\<exists>k. i = Some k \<and> tab (ms_rows s) k = Some m \<and> mem_user_id m = u)"
  by (cases i) (auto simp: own_memory_def get_memory_tab split: option.splits)

lemma batch_add:
  assumes inv: "batch_inv u new_id rows s results" and fresh: "fresh_ids new_id rows"
    and a: "apply_add u now (new_id (length results)) op s = Inr (s', r)"
  shows "batch_inv u new_id rows s' (results @ [r])"
proof -
  obtain content where c: "stripped_content op = Inr content"
    using a by (auto simp: apply_add_def rbind_Inr_iff)
  let ?t = "normalize_memory_type (op_type op)" and ?p = "case op_path op of None \<Rightarrow> None | Some p \<Rightarrow> p"
  show ?thesis
  proof (cases "duplicate_of u content ?t ?p s")
    case None
    then obtain rows1 m where i: "insert_new_memory (new_id (length results)) now u content (Some ?t) ?p (op_meta op) (ms_rows s) = Inr (rows1, m)"
      and s': "s' = flush rows1 (ms_gone s)" and r: "r = \<lparr>re_action = ''add'', re_status = ''created'', re_memory = Some m, re_id = None\<rparr>"
      using a c by (auto simp: apply_add_def rbind_Inr_iff Let_def)
    from i have m: "mem_id m = new_id (length results)" "mem_user_id m = u" "rows1 = ms_rows s @ [m]"
      and absent: "\<not> has_memory (mem_id m) (ms_rows s)"
      by (auto simp: insert_new_memory_def Let_def split: if_splits)
    have "distinct (map mem_id (ms_rows s))" using inv by (simp add: batch_inv_def)
    then have "distinct (map mem_id rows1)" using absent m(3) by (auto simp: has_memory_def)
    moreover have "tab rows1 = (tab (ms_rows s))(mem_id m \<mapsto> m)" using tab_snoc [OF absent] m(3) by simp
    ultimately show ?thesis
      unfolding s' using r m by (intro batch_store [OF inv fresh]) (auto simp: is_stored_def)
  next
    case (Some e)
    with a c have "s' = s" "\<not> is_stored r" "re_status r \<noteq> ''deleted''"
      by (auto simp: apply_add_def rbind_Inr_iff Let_def is_stored_def)
    with inv show ?thesis by (simp add: batch_skip)
  qed
qed

lemma batch_save:
  assumes inv: "batch_inv u new_id rows s results" and fresh: "fresh_ids new_id rows"
    and own: "own_memory u i s = Inr m0" and m: "mem_id m = mem_id m0" "mem_user_id m = mem_user_id m0"
    and r: "re_status r = ''updated''" "re_memory r = Some m"
  shows "batch_inv u new_id rows (flush (save_memory m (ms_rows s)) (ms_gone s)) (results @ [r])"
proof -
  have m0: "tab (ms_rows s) (mem_id m) = Some m0" "mem_user_id m0 = u"
    using own m(1) by (auto simp: own_memory_Inr dest: tab_SomeD)
  then have "tab (save_memory m (ms_rows s)) = (tab (ms_rows s))(mem_id m \<mapsto> m)" by (simp add: tab_save)
  moreover have "distinct (map mem_id (save_memory m (ms_rows s)))" using inv by (simp add: batch_inv_def)
  ultimately show ?thesis
    using r m m0 by (intro batch_store [OF inv fresh]) (auto simp: is_stored_def)
qed

lemma batch_step:
  assumes inv: "batch_inv u new_id rows s results" and fresh: "fresh_ids new_id rows"
    and given: "op_action op = ''remove'' \<longrightarrow> is_given (op_id op)"
    and a: "apply_operation u now (new_id (length results)) op s = Inr (s', r)"
  shows "batch_inv u new_id rows s' (results @ [r])"
proof -
  consider (add) "apply_add u now (new_id (length results)) op s = Inr (s', r)"
    | (replace) "apply_replace u now op s = Inr (s', r)"
    | (move) "apply_move u now op s = Inr (s', r)"
    | (remove) "op_action op = ''remove''" "apply_remove u op s = Inr (s', r)"
    using a unfolding apply_operation_def by (auto split: if_splits)
  then show ?thesis
  proof cases
    case add
    then show ?thesis by (rule batch_add [OF inv fresh])
  next
    case replace
    then obtain content m0 where "own_memory u (op_id op) s = Inr m0" and
      "s' = flush (save_memory (changed_row (Some content) (op_type op) (op_path op) (op_meta op) now m0) (ms_rows s)) (ms_gone s)"
      "re_status r = ''updated''" "re_memory r = Some (changed_row (Some content) (op_type op) (op_path op) (op_meta op) now m0)"
      by (auto simp: apply_replace_def rbind_Inr_iff Let_def)
    then show ?thesis using batch_save [OF inv fresh] by simp
  next
    case move
    let ?p = "Some (case op_path op of None \<Rightarrow> None | Some p \<Rightarrow> p)"
    from move obtain m0 where "own_memory u (op_id op) s = Inr m0" and
      "s' = flush (save_memory (changed_row None None ?p (op_meta op) now m0) (ms_rows s)) (ms_gone s)"
      "re_status r = ''updated''" "re_memory r = Some (changed_row None None ?p (op_meta op) now m0)"
      by (auto simp: apply_move_def rbind_Inr_iff Let_def)
    then show ?thesis using batch_save [OF inv fresh] by simp
  next
    case remove
    then obtain m where m: "own_memory u (op_id op) s = Inr m"
      and s': "s' = s\<lparr>ms_gone := mem_id m # ms_gone s\<rparr>"
      and r: "re_status r = ''deleted''" "re_id r = op_id op"
      by (auto simp: apply_remove_def rbind_Inr_iff)
    from m obtain k where k: "op_id op = Some k" "tab (ms_rows s) k = Some m" "mem_user_id m = u"
      by (auto simp: own_memory_Inr)
    moreover from k have "mem_id m = k" by (simp add: tab_SomeD)
    ultimately show ?thesis
      using given remove(1) r batch_remove [OF inv k(2,3) r(1)] by (simp add: s')
  qed
qed

lemma batch_fold:
  assumes "rfold (\<lambda>op (s, results).
         rbind (apply_operation u now (new_id (length results)) op s) (\<lambda>(s', r). Inr (s', results @ [r]))) ops (s, results) = Inr (s2, results2)"
    and "batch_inv u new_id rows s results" and "fresh_ids new_id rows"
    and "\<forall>op \<in> set ops. op_action op = ''remove'' \<longrightarrow> is_given (op_id op)"
  shows "batch_inv u new_id rows s2 results2"
  using assms
proof (induction ops arbitrary: s results)
  case (Cons op ops)
  from Cons.prems(1) obtain s1 r where
    a: "apply_operation u now (new_id (length results)) op s = Inr (s1, r)" and
    rest: "rfold (\<lambda>op (s, results).
         rbind (apply_operation u now (new_id (length results)) op s) (\<lambda>(s', r). Inr (s', results @ [r]))) ops (s1, results @ [r]) = Inr (s2, results2)"
    by (auto simp: rbind_Inr_iff)
  have "batch_inv u new_id rows s1 (results @ [r])"
    using batch_step [OF Cons.prems(2,3) _ a] Cons.prems(4) by simp
  from Cons.IH [OF rest this Cons.prems(3)] Cons.prems(4) show ?case by simp
qed simp

text \<open>
  A batch that succeeds leaves the table with the stored rows of its results written over it and the deleted ones
  removed; every id it touches is new or a memory of the user.
\<close>

lemma batch_table:
  assumes a: "apply_memory_operations u now new_id ops rows = Inr (rows', results)"
    and d: "distinct (map mem_id rows)" and fresh: "fresh_ids new_id rows"
    and given: "\<forall>op \<in> set ops. op_action op = ''remove'' \<longrightarrow> is_given (op_id op)"
  shows "tab rows' = (tab rows ++ stored_map results) |` (- set (deleted_ids results))"
    and "distinct (map mem_id rows')"
    and "\<forall>m \<in> set (stored_memories results). mem_user_id m = u"
    and "\<forall>k \<in> set (deleted_ids results) \<union> mem_id ` set (stored_memories results). \<forall>m. tab rows k = Some m \<longrightarrow> mem_user_id m = u"
proof -
  from a obtain s where f: "rfold (\<lambda>op (s, results).
         rbind (apply_operation u now (new_id (length results)) op s) (\<lambda>(s', r). Inr (s', results @ [r])))
       ops (\<lparr>ms_rows = rows, ms_gone = []\<rparr>, []) = Inr (s, results)" and rows': "rows' = ms_rows (flush (ms_rows s) (ms_gone s))"
    using a unfolding apply_memory_operations_def rbind_def by (auto split: sum.splits)
  have inv: "batch_inv u new_id rows s results"
    by (rule batch_fold [OF f batch_start [OF d] fresh given])
  have gone: "set (ms_gone s) \<subseteq> set (deleted_ids results)"
    and marked: "\<And>k. k \<in> set (deleted_ids results) \<Longrightarrow> k \<in> set (ms_gone s) \<or> tab (ms_rows s) k = None"
    and others: "\<And>k. k \<notin> set (deleted_ids results) \<Longrightarrow> tab (ms_rows s) k = (tab rows ++ stored_map results) k"
    using inv by (simp_all add: batch_inv_def)
  show "tab rows' = (tab rows ++ stored_map results) |` (- set (deleted_ids results))"
  proof (rule ext)
    fix k
    show "tab rows' k = ((tab rows ++ stored_map results) |` (- set (deleted_ids results))) k"
      unfolding rows' tab_flush restrict_map_def using gone marked [of k] others [of k] by auto
  qed
  show "distinct (map mem_id rows')"
    unfolding rows' using inv by (intro distinct_flush) (simp add: batch_inv_def)
  show "\<forall>m \<in> set (stored_memories results). mem_user_id m = u"
    using inv by (simp add: batch_inv_def)
  show "\<forall>k \<in> set (deleted_ids results) \<union> mem_id ` set (stored_memories results). \<forall>m. tab rows k = Some m \<longrightarrow> mem_user_id m = u"
    using inv unfolding batch_inv_def by (elim conjE) (simp add: Ball_def)
qed

subsection \<open>The vectors follow the table\<close>

text \<open>
  The memories of a user by id, and the index of a user: under the id of each memory what the store keeps for its item,
  and nothing else.
\<close>

definition own_tab :: "string \<Rightarrow> memory_row list \<Rightarrow> string \<Rightarrow> memory_row option" where
  "own_tab u rows k = (case tab rows k of None \<Rightarrow> None | Some m \<Rightarrow> if mem_user_id m = u then Some m else None)"

definition item_entry :: "'x memory_env \<Rightarrow> ('x vector_item \<Rightarrow> 'e) \<Rightarrow> string \<Rightarrow> memory_row \<Rightarrow> 'e option" where
  "item_entry env entry u m = (case memory_item env u m of Inl e \<Rightarrow> None | Inr i \<Rightarrow> Some (entry i))"

definition mirrored ::
  "'x memory_env \<Rightarrow> ('x vector_item \<Rightarrow> 'e) \<Rightarrow> string \<Rightarrow> memory_row list \<Rightarrow> (string \<Rightarrow> 'e option) \<Rightarrow> bool" where
  "mirrored env entry u rows index \<longleftrightarrow>
     (\<forall>k. case own_tab u rows k of
            None \<Rightarrow> index k = None
          | Some m \<Rightarrow> index k \<noteq> None \<and> index k = item_entry env entry u m)"

definition rows_distinct :: "memory_row list \<Rightarrow> bool" where
  "rows_distinct rows = distinct (map mem_id rows)"

lemma item_id: "memory_item env u m = Inr i \<Longrightarrow> vi_id i = mem_id m"
  by (auto simp: memory_item_def rbind_Inr_iff)

lemma items_stored:
  assumes "rmap (memory_item env u) ms = Inr items"
  shows "m \<in> set ms \<Longrightarrow> item_entry env entry u m \<noteq> None" and "vi_id ` set items = mem_id ` set ms"
proof -
  show "m \<in> set ms \<Longrightarrow> item_entry env entry u m \<noteq> None"
    using assms by (induction ms arbitrary: items) (auto simp: rbind_Inr_iff item_entry_def)
  have "map vi_id items = map mem_id ms"
    using assms by (induction ms arbitrary: items) (auto simp: rbind_Inr_iff item_id)
  then show "vi_id ` set items = mem_id ` set ms" by (metis image_set)
qed

lemma items_map:
  assumes "rmap (memory_item env u) ms = Inr items"
  shows "map_of (rev (map (\<lambda>i. (vi_id i, entry i)) items)) k =
      Option.bind (map_of (rev (map (\<lambda>m. (mem_id m, m)) ms)) k) (item_entry env entry u)"
  using assms
proof (induction ms arbitrary: items)
  case (Cons m ms)
  then obtain i rest where i: "memory_item env u m = Inr i" "rmap (memory_item env u) ms = Inr rest" "items = i # rest"
    by (auto simp: rbind_Inr_iff)
  show ?case
  proof (cases "map_of (rev (map (\<lambda>m. (mem_id m, m)) ms)) k")
    case None
    with Cons.IH [OF i(2)] i(1,3) item_id [OF i(1)] show ?thesis
      by (simp add: map_of_append map_add_def item_entry_def)
  next
    case (Some x)
    then have "x \<in> set ms" by (auto dest: map_of_SomeD)
    then have "item_entry env entry u x \<noteq> None" by (rule items_stored(1) [OF i(2)])
    with Some Cons.IH [OF i(2)] i(3) show ?thesis
      by (auto simp: map_of_append map_add_def)
  qed
qed simp

lemma map_of_rev_distinct: "distinct (map fst xs) \<Longrightarrow> map_of (rev xs) = map_of xs"
  by (subst map_of_inject_set) (simp_all add: rev_map [symmetric])

lemma own_rows_map: "rows_distinct rows \<Longrightarrow>
    map_of (rev (map (\<lambda>m. (mem_id m, m)) (get_memories_by_user_id u rows))) = own_tab u rows"
proof (rule ext)
  fix k
  assume d: "rows_distinct rows"
  let ?own = "get_memories_by_user_id u rows"
  have "distinct (map mem_id ?own)" using d by (simp add: rows_distinct_def get_memories_by_user_id_def distinct_map_filter)
  then have "map_of (rev (map (\<lambda>m. (mem_id m, m)) ?own)) = map_of (map (\<lambda>m. (mem_id m, m)) ?own)"
    by (intro map_of_rev_distinct) (simp add: comp_def)
  moreover have "map_of (map (\<lambda>m. (mem_id m, m)) ?own) k = own_tab u rows k"
    using d
  proof (induction rows)
    case (Cons m rows)
    then have "tab rows (mem_id m) = None" by (simp add: rows_distinct_def tab_None)
    with Cons show ?case by (auto simp: get_memories_by_user_id_def own_tab_def rows_distinct_def)
  qed (simp add: get_memories_by_user_id_def own_tab_def)
  ultimately show "map_of (rev (map (\<lambda>m. (mem_id m, m)) ?own)) k = own_tab u rows k" by simp
qed

lemma mirrored_items:
  assumes "rows_distinct rows" "rmap (memory_item env u) (get_memories_by_user_id u rows) = Inr items"
  shows "mirrored env entry u rows (map_of (rev (map (\<lambda>i. (vi_id i, entry i)) items)))"
proof -
  have "item_entry env entry u m \<noteq> None" if "own_tab u rows k = Some m" for k m
    using that items_stored(1) [OF assms(2)]
    by (auto simp: own_tab_def get_memories_by_user_id_def split: option.splits if_splits dest: tab_SomeD)
  then show ?thesis
    unfolding mirrored_def items_map [OF assms(2)] own_rows_map [OF assms(1)]
    by (auto split: option.splits)
qed

lemma mirrored_update:
  assumes "mirrored env entry u rows index" "rmap (memory_item env u) ms = Inr items"
    and "own_tab u rows' = (own_tab u rows ++ map_of (rev (map (\<lambda>m. (mem_id m, m)) ms))) |` (- K)"
    and "index' = (index ++ map_of (rev (map (\<lambda>i. (vi_id i, entry i)) items))) |` (- K)"
  shows "mirrored env entry u rows' index'"
proof -
  have e: "item_entry env entry u m \<noteq> None" if "map_of (rev (map (\<lambda>m. (mem_id m, m)) ms)) k = Some m" for k m
    using items_stored(1) [OF assms(2)] map_of_SomeD [OF that] by auto
  have "case own_tab u rows' k of None \<Rightarrow> index' k = None
      | Some m \<Rightarrow> index' k \<noteq> None \<and> index' k = item_entry env entry u m" for k
  proof (cases "map_of (rev (map (\<lambda>m. (mem_id m, m)) ms)) k")
    case None
    with assms(1) [unfolded mirrored_def, THEN spec, of k] show ?thesis
      by (cases "own_tab u rows k"; cases "index k") (simp_all add: assms(3,4) restrict_map_def map_add_def items_map [OF assms(2)])
  next
    case (Some m)
    with e [OF Some] show ?thesis
      by (auto simp: assms(3,4) restrict_map_def map_add_def items_map [OF assms(2)] split: option.splits)
  qed
  then show ?thesis by (simp add: mirrored_def)
qed

lemma own_tab_batch:
  assumes "tab rows' = (tab rows ++ map_of (rev (map (\<lambda>m. (mem_id m, m)) ms))) |` (- K)"
    and "\<forall>m \<in> set ms. mem_user_id m = u"
    and "\<forall>k \<in> K \<union> mem_id ` set ms. \<forall>m. tab rows k = Some m \<longrightarrow> mem_user_id m = u"
  shows "own_tab u rows' = (own_tab u rows ++ map_of (rev (map (\<lambda>m. (mem_id m, m)) ms))) |` (- K)"
    and "v \<noteq> u \<Longrightarrow> own_tab v rows' = own_tab v rows"
proof -
  have own: "mem_user_id m = u \<and> k \<in> mem_id ` set ms" if "map_of (rev (map (\<lambda>m. (mem_id m, m)) ms)) k = Some m" for k m
    using assms(2) map_of_SomeD [OF that] by auto
  show "own_tab u rows' = (own_tab u rows ++ map_of (rev (map (\<lambda>m. (mem_id m, m)) ms))) |` (- K)"
    using own by (auto simp: fun_eq_iff own_tab_def assms(1) restrict_map_def map_add_def split: option.splits)
  assume v: "v \<noteq> u"
  show "own_tab v rows' = own_tab v rows"
  proof (rule ext)
    fix k
    show "own_tab v rows' k = own_tab v rows k"
    proof (cases "k \<in> K \<union> mem_id ` set ms")
      case True
      then have "own_tab v rows k = None" using assms(3) v by (auto simp: own_tab_def split: option.splits)
      moreover have "own_tab v rows' k = None"
        using True v own [of k] assms(3) by (auto simp: own_tab_def assms(1) restrict_map_def map_add_def split: option.splits)
      ultimately show ?thesis by simp
    next
      case False
      then have "map_of (rev (map (\<lambda>m. (mem_id m, m)) ms)) k = None"
        by (simp add: map_of_eq_None_iff image_image)
      with False show ?thesis by (simp add: own_tab_def assms(1) restrict_map_def map_add_def)
    qed
  qed
qed

text \<open>The state between requests: every user's vectors mirror that user's memories.\<close>

definition in_sync ::
  "'x memory_env \<Rightarrow> ('v \<Rightarrow> bool) \<Rightarrow> ('v \<Rightarrow> string \<Rightarrow> string \<Rightarrow> 'e option) \<Rightarrow> ('x vector_item \<Rightarrow> 'e) \<Rightarrow> 'v memory_db \<Rightarrow> bool" where
  "in_sync env sound contents entry db \<longleftrightarrow>
     sound (md_vectors db) \<and> rows_distinct (md_rows db)
     \<and> (\<forall>u. mirrored env entry u (md_rows db) (contents (md_vectors db) (collection_of u)))"

lemma collection_inj [simp]: "collection_of u = collection_of w \<longleftrightarrow> u = w"
  by (simp add: collection_of_def)

lemma mirrored_outside: "mirrored env entry u rows index \<Longrightarrow> own_tab u rows k = None \<Longrightarrow> index k = None"
  by (force simp: mirrored_def dest: spec [of _ k])

lemma mirrored_restrict:
  assumes "mirrored env entry u rows index" "\<forall>k \<in> K. own_tab u rows k = None"
  shows "mirrored env entry u rows (index |` (- K))"
  unfolding mirrored_def
proof
  fix k
  show "case own_tab u rows k of None \<Rightarrow> (index |` (- K)) k = None
      | Some m \<Rightarrow> (index |` (- K)) k \<noteq> None \<and> (index |` (- K)) k = item_entry env entry u m"
    using assms(1) [unfolded mirrored_def, THEN spec, of k] assms(2)
    by (cases "own_tab u rows k"; cases "index k") (auto simp: restrict_map_def)
qed

lemma mirrored_cong: "own_tab u rows' = own_tab u rows \<Longrightarrow> mirrored env entry u rows' index = mirrored env entry u rows index"
  by (simp add: mirrored_def)

lemma then_do_Inr: "then_do r f = (s', Inr y) \<longleftrightarrow> (\<exists>s x. r = (s, Inr x) \<and> f s x = (s', Inr y))"
  by (cases r; cases "snd r") (auto simp: then_do_def)

lemma own_ids: "m \<in> set (get_memories_by_user_id u rows) \<Longrightarrow> rows_distinct rows \<Longrightarrow> w \<noteq> u \<Longrightarrow> own_tab w rows (mem_id m) = None"
  using tab_mem [of rows m] by (auto simp: get_memories_by_user_id_def rows_distinct_def own_tab_def)

context vector_store
begin

lemma upsert_others:
  assumes "sound v" "vc_upsert client (collection_of u) items v = Inr v'" "w \<noteq> u"
    and "\<forall>k \<in> vi_id ` set items. contents v (collection_of w) k = None"
  shows "contents v' (collection_of w) = contents v (collection_of w)"
proof (rule ext)
  fix k
  show "contents v' (collection_of w) k = contents v (collection_of w) k"
    using upsert_other [OF assms(1,2), of "collection_of w" k] upsert_moves [OF assms(1,2), of "collection_of w" k] assms(3,4)
    by (cases "k \<in> vi_id ` set items") auto
qed

lemma drop_collection_contents:
  assumes "sound v"
  shows "contents (drop_collection client c v) c = Map.empty" "sound (drop_collection client c v)"
    "c' \<noteq> c \<Longrightarrow> contents (drop_collection client c v) c' = contents v c'"
  using drop_empties [OF assms, of "drop_collection client c v" c] by (simp_all add: drop_collection_def)

lemma reindex_mirrors:
  assumes v: "sound v" and d: "rows_distinct rows"
    and others: "\<forall>w. w \<noteq> u \<longrightarrow> mirrored env entry w rows (contents v (collection_of w))"
    and r: "reindex_memory_vectors_for_user env client u (get_memories_by_user_id u rows) v = (v', Inr n)"
  shows "sound v' \<and> (\<forall>w. mirrored env entry w rows (contents v' (collection_of w)))"
proof -
  let ?own = "get_memories_by_user_id u rows" and ?v1 = "drop_collection client (collection_of u) v"
  note v1 = drop_collection_contents [OF v, where c = "collection_of u"]
  show ?thesis
  proof (cases "?own = []")
    case True
    then have "v' = ?v1" using r by (simp add: reindex_memory_vectors_for_user_def Let_def)
    moreover have "own_tab u rows = Map.empty" using own_rows_map [OF d, of u] True by simp
    then have "mirrored env entry u rows Map.empty" by (simp add: mirrored_def)
    then have "mirrored env entry w rows (contents ?v1 (collection_of w))" for w
      using v1(1) v1(3) [of "collection_of w"] others by (cases "w = u") simp_all
    ultimately show ?thesis using v1(2) by simp
  next
    case False
    with r obtain items where items: "rmap (memory_item env u) ?own = Inr items"
      and up: "vc_upsert client (collection_of u) items ?v1 = Inr v'"
      by (auto simp: reindex_memory_vectors_for_user_def Let_def rbind_def split: sum.splits)
    have "contents v' (collection_of u) = map_of (rev (map (\<lambda>i. (vi_id i, entry i)) items))"
      using upsert_own [OF v1(2) up] v1(1) by simp
    then have "mirrored env entry u rows (contents v' (collection_of u))" using mirrored_items [OF d items] by simp
    moreover have "mirrored env entry w rows (contents v' (collection_of w))" if w: "w \<noteq> u" for w
    proof -
      have c: "contents ?v1 (collection_of w) = contents v (collection_of w)" using v1(3) w by simp
      have "contents v (collection_of w) k = None" if "k \<in> vi_id ` set items" for k
        using that w others own_ids [OF _ d w] mirrored_outside items_stored(2) [OF items] by (metis imageE)
      with upsert_others [OF v1(2) up w] c others w show ?thesis by simp
    qed
    ultimately show ?thesis using sound_upsert [OF v1(2) up] by metis
  qed
qed

text \<open>Storing the items of changed rows, or all of them anew: what is left are ids \<open>K\<close> still to be deleted.\<close>

lemma upsert_mirrors:
  assumes v: "sound v" and d: "rows_distinct rows'" and m: "\<forall>w. mirrored env entry w rows (contents v (collection_of w))"
    and items: "rmap (memory_item env u) ms = Inr items"
    and own: "own_tab u rows' = (own_tab u rows ++ map_of (rev (map (\<lambda>m. (mem_id m, m)) ms))) |` (- K)"
    and others: "\<forall>w. w \<noteq> u \<longrightarrow> own_tab w rows' = own_tab w rows"
    and touched: "\<forall>k \<in> mem_id ` set ms. \<forall>w. w \<noteq> u \<longrightarrow> own_tab w rows k = None"
    and call: "upsert_memory_vectors_or_reindex env client u items \<lparr>md_rows = rows', md_vectors = v\<rparr> = (db2, Inr x)"
  shows "md_rows db2 = rows' \<and> sound (md_vectors db2)
    \<and> mirrored env entry u rows' (contents (md_vectors db2) (collection_of u) |` (- K))
    \<and> (\<forall>w. w \<noteq> u \<longrightarrow> mirrored env entry w rows' (contents (md_vectors db2) (collection_of w)))"
proof -
  have kept: "\<forall>w. w \<noteq> u \<longrightarrow> mirrored env entry w rows' (contents v (collection_of w))"
    using m others mirrored_cong by metis
  show ?thesis
  proof (cases "vc_upsert client (collection_of u) items v")
    case (Inr v')
    with call have db2: "db2 = \<lparr>md_rows = rows', md_vectors = v'\<rparr>"
      by (simp add: upsert_memory_vectors_or_reindex_def)
    have "mirrored env entry u rows' (contents v' (collection_of u) |` (- K))"
      using m by (intro mirrored_update [OF _ items own]) (auto simp: upsert_own [OF v Inr])
    moreover have "contents v' (collection_of w) = contents v (collection_of w)" if w: "w \<noteq> u" for w
      using upsert_others [OF v Inr w] touched w m mirrored_outside items_stored(2) [OF items] by metis
    ultimately show ?thesis
      using db2 sound_upsert [OF v Inr] kept by simp
  next
    case (Inl e)
    obtain v' r where re: "reindex_memory_vectors_for_user env client u (get_memories_by_user_id u rows') v = (v', r)"
      by fastforce
    from call Inl re have db2: "db2 = \<lparr>md_rows = rows', md_vectors = v'\<rparr>" and "rbind r (\<lambda>_. Inr ()) = Inr x"
      by (simp_all add: upsert_memory_vectors_or_reindex_def Let_def split: if_splits)
    then obtain n where "r = Inr n" by (cases r) simp_all
    note r = re [unfolded this]
    have "sound v' \<and> (\<forall>w. mirrored env entry w rows' (contents v' (collection_of w)))"
      by (rule reindex_mirrors [OF v d kept r])
    moreover have "own_tab u rows' k = None" if "k \<in> K" for k using that by (simp add: own)
    ultimately show ?thesis by (simp add: db2 mirrored_restrict)
  qed
qed

end

subsection \<open>Requests\<close>

text \<open>A request of a user that changes memories, answered by its endpoint.\<close>

datatype memory_request =
    Add string string "string option"
  | Batch pydict "string option" "memory_form_op list"
  | Change string "string option" "string option" "string option"
  | Delete string
  | Delete_All
  | Reset

definition serve ::
  "'x memory_env \<Rightarrow> ('x, 'v) vector_client \<Rightarrow> user_row \<Rightarrow> memory_request \<Rightarrow> 'v memory_db \<Rightarrow> 'v memory_db \<times> unit result" where
  "serve env client user req db =
     (case req of
        Add content t path \<Rightarrow> then_do (add_memory env client user content t path db) (\<lambda>db _. (db, Inr ()))
      | Batch metadata source ops \<Rightarrow> then_do (update_memories env client user metadata source ops db) (\<lambda>db _. (db, Inr ()))
      | Change i content t path \<Rightarrow> then_do (update_memory_by_id env client user i content t path db) (\<lambda>db _. (db, Inr ()))
      | Delete i \<Rightarrow> then_do (delete_one_memory env client user i db) (\<lambda>db _. (db, Inr ()))
      | Delete_All \<Rightarrow> then_do (delete_memory_by_user_id env client user db) (\<lambda>db _. (db, Inr ()))
      | Reset \<Rightarrow> then_do (reset_memory_from_vector_db env client user db) (\<lambda>db _. (db, Inr ())))"

text \<open>The change of one memory's type alone, for which the code makes no vector.\<close>

fun type_only :: "memory_request \<Rightarrow> bool" where
  "type_only (Change i content t path) = (content = None \<and> path = None)"
| "type_only _ = False"

lemma step_Inr [simp]: "then_do (s, Inr x) f = f s x" and step_Inl [simp]: "then_do (s, Inl e) f = (s, Inl e)"
  by (simp_all add: then_do_def)

text \<open>What each change of the table is, by id.\<close>

lemma insert_tab:
  assumes "insert_new_memory i now u content t path meta rows = Inr (rows', m)" "rows_distinct rows"
  shows "tab rows' = (tab rows)(mem_id m \<mapsto> m)" "rows_distinct rows'" "mem_user_id m = u" "tab rows (mem_id m) = None"
proof -
  have m: "rows' = rows @ [m]" "mem_id m = i" and absent: "\<not> has_memory (mem_id m) rows" and u: "mem_user_id m = u"
    using assms(1) by (auto simp: insert_new_memory_def Let_def split: if_splits)
  show "tab rows' = (tab rows)(mem_id m \<mapsto> m)" using m(1) tab_snoc [OF absent] by simp
  show "rows_distinct rows'" using assms(2) absent m(1) by (auto simp: rows_distinct_def has_memory_def)
  show "mem_user_id m = u" "tab rows (mem_id m) = None" using u absent by (simp_all add: has_memory_tab)
qed

lemma change_tab:
  assumes "update_memory_by_id_and_user_id i u content t path up meta now rows = (rows', Some m)" "rows_distinct rows"
  shows "tab rows' = (tab rows)(mem_id m \<mapsto> m)" "rows_distinct rows'" "mem_user_id m = u"
    "\<exists>m0. tab rows (mem_id m) = Some m0 \<and> mem_user_id m0 = u"
proof -
  from assms(1) obtain m0 where m0: "tab rows i = Some m0" "mem_user_id m0 = u"
    and m: "m = changed_row content t (if up then Some path else None) meta now m0" "rows' = save_memory m rows"
    by (auto simp: update_memory_by_id_and_user_id_def get_memory_tab Let_def split: option.splits if_splits)
  have "mem_id m = i" using m0 m by (auto dest: tab_SomeD)
  with m0 m show "tab rows' = (tab rows)(mem_id m \<mapsto> m)" "mem_user_id m = u"
    "\<exists>m0. tab rows (mem_id m) = Some m0 \<and> mem_user_id m0 = u"
    by (simp_all add: tab_save)
  show "rows_distinct rows'" using assms(2) m(2) by (simp add: rows_distinct_def)
qed

lemma delete_tab:
  assumes "delete_memory_by_id_and_user_id i u rows = (rows', deleted)" "rows_distinct rows"
  shows "deleted \<Longrightarrow> tab rows' = tab rows |` (- {i})" "\<not> deleted \<Longrightarrow> rows' = rows" "rows_distinct rows'"
    "deleted \<Longrightarrow> \<exists>m. tab rows i = Some m \<and> mem_user_id m = u"
proof -
  have t: "tab (sql_delete (\<lambda>m. mem_id m = i) rows) = tab rows |` (- {i})"
    using tab_delete [of "{i}" rows] by (auto simp: fun_eq_iff restrict_map_def)
  show "deleted \<Longrightarrow> tab rows' = tab rows |` (- {i})" "\<not> deleted \<Longrightarrow> rows' = rows" "rows_distinct rows'"
    "deleted \<Longrightarrow> \<exists>m. tab rows i = Some m \<and> mem_user_id m = u"
    using assms t
    by (auto simp: delete_memory_by_id_and_user_id_def get_memory_tab rows_distinct_def distinct_map_sql_delete
        split: option.splits if_splits)
qed

lemma delete_all_tab:
  assumes "rows_distinct rows"
  shows "own_tab u (sql_delete (\<lambda>m. mem_user_id m = u) rows) = Map.empty"
    "w \<noteq> u \<Longrightarrow> own_tab w (sql_delete (\<lambda>m. mem_user_id m = u) rows) = own_tab w rows"
    "rows_distinct (sql_delete (\<lambda>m. mem_user_id m = u) rows)"
proof -
  let ?rows = "sql_delete (\<lambda>m. mem_user_id m = u) rows"
  have "tab ?rows k = (case tab rows k of None \<Rightarrow> None | Some m \<Rightarrow> if mem_user_id m = u then None else Some m)" for k
    using assms
  proof (induction rows)
    case (Cons m rows)
    then have "tab rows (mem_id m) = None" by (simp add: rows_distinct_def tab_None)
    with Cons show ?case by (auto simp: sql_delete_def rows_distinct_def)
  qed (simp add: sql_delete_def)
  then show "own_tab u ?rows = Map.empty" "w \<noteq> u \<Longrightarrow> own_tab w ?rows = own_tab w rows"
    by (auto simp: own_tab_def fun_eq_iff split: option.splits)
  show "rows_distinct ?rows" using assms by (simp add: rows_distinct_def distinct_map_sql_delete)
qed

lemma valid_ops_given:
  assumes "validate_memory_operations fs = Inr ops"
  shows "\<forall>op \<in> set (map (with_meta source metadata) ops). op_action op = ''remove'' \<longrightarrow> is_given (op_id op)"
proof -
  have one: "op_action op = ''remove'' \<longrightarrow> is_given (op_id op)" if "validate_operation f = Inr op" for f op
    using that by (auto simp: validate_operation_def Let_def rbind_Inr_iff split: if_splits)
  have "rmap validate_operation fs = Inr ops \<Longrightarrow> \<forall>op \<in> set ops. op_action op = ''remove'' \<longrightarrow> is_given (op_id op)"
    by (induction fs arbitrary: ops) (auto simp: rbind_Inr_iff dest: one)
  then show ?thesis
    using assms by (auto simp: validate_memory_operations_def with_meta_def split: if_splits)
qed

context vector_store
begin

lemma in_syncI:
  assumes "md_rows db = rows" "sound (md_vectors db)" "rows_distinct rows"
    and "mirrored env entry u rows (contents (md_vectors db) (collection_of u))"
    and "\<forall>w. w \<noteq> u \<longrightarrow> mirrored env entry w rows (contents (md_vectors db) (collection_of w))"
  shows "in_sync env sound contents entry db"
  using assms unfolding in_sync_def by metis

lemma in_syncD:
  assumes "in_sync env sound contents entry db"
  shows "sound (md_vectors db)" "rows_distinct (md_rows db)"
    "\<forall>w. mirrored env entry w (md_rows db) (contents (md_vectors db) (collection_of w))"
  using assms by (simp_all add: in_sync_def)

text \<open>Deleting from the store what a batch, or a deletion, removed from the table.\<close>

lemma delete_mirrors:
  assumes "sound v" "ids \<noteq> []" "vc_delete client (collection_of u) ids v = Inr v'"
    and "mirrored env entry u rows (contents v (collection_of u) |` (- set ids))"
    and "\<forall>w. w \<noteq> u \<longrightarrow> mirrored env entry w rows (contents v (collection_of w))" and "rows_distinct rows"
  shows "in_sync env sound contents entry \<lparr>md_rows = rows, md_vectors = v'\<rparr>"
  using assms by (intro in_syncI [where u = u and rows = rows])
    (simp_all add: delete_own [OF assms(1,2,3)] delete_other [OF assms(1,3)] sound_delete [OF assms(1,3)])

lemma upsert_syncs:
  assumes s: "in_sync env sound contents entry db" and items: "rmap (memory_item env u) ms = Inr items"
    and t: "tab rows' = (tab (md_rows db) ++ map_of (rev (map (\<lambda>m. (mem_id m, m)) ms))) |` (- K)" and d: "rows_distinct rows'"
    and mine: "\<forall>m \<in> set ms. mem_user_id m = u"
      "\<forall>k \<in> K \<union> mem_id ` set ms. \<forall>m. tab (md_rows db) k = Some m \<longrightarrow> mem_user_id m = u"
    and call: "upsert_memory_vectors_or_reindex env client u items (db\<lparr>md_rows := rows'\<rparr>) = (db2, Inr x)"
  shows "md_rows db2 = rows' \<and> sound (md_vectors db2)
    \<and> mirrored env entry u rows' (contents (md_vectors db2) (collection_of u) |` (- K))
    \<and> (\<forall>w. w \<noteq> u \<longrightarrow> mirrored env entry w rows' (contents (md_vectors db2) (collection_of w)))"
proof -
  note old = in_syncD [OF s] and new = own_tab_batch [OF t mine]
  have touched: "\<forall>k \<in> mem_id ` set ms. \<forall>w. w \<noteq> u \<longrightarrow> own_tab w (md_rows db) k = None"
    using mine(2) by (auto simp: own_tab_def split: option.splits)
  have "db\<lparr>md_rows := rows'\<rparr> = \<lparr>md_rows = rows', md_vectors = md_vectors db\<rparr>" by (cases db) simp
  with call have "upsert_memory_vectors_or_reindex env client u items \<lparr>md_rows = rows', md_vectors = md_vectors db\<rparr> = (db2, Inr x)"
    by simp
  from upsert_mirrors [OF old(1) d old(3) items new(1) _ touched this] new(2) show ?thesis by blast
qed

lemma embed_syncs:
  assumes s: "in_sync env sound contents entry db"
    and t: "tab rows' = (tab (md_rows db))(mem_id m \<mapsto> m)" and d: "rows_distinct rows'" and u: "mem_user_id m = u"
    and mine: "\<forall>m0. tab (md_rows db) (mem_id m) = Some m0 \<longrightarrow> mem_user_id m0 = u"
    and call: "embed_memory env client u m (db\<lparr>md_rows := rows'\<rparr>) = (db2, Inr x)"
  shows "in_sync env sound contents entry db2 \<and> md_rows db2 = rows'"
proof -
  from call obtain i y where i: "memory_item env u m = Inr i"
    and up: "upsert_memory_vectors_or_reindex env client u [i] (db\<lparr>md_rows := rows'\<rparr>) = (db2, Inr y)"
    by (auto simp: embed_memory_def then_do_Inr)
  have items: "rmap (memory_item env u) [m] = Inr [i]" using i by simp
  have t': "tab rows' = (tab (md_rows db) ++ map_of (rev (map (\<lambda>m. (mem_id m, m)) [m]))) |` (- {})"
    by (simp add: t fun_eq_iff map_add_def)
  have r: "md_rows db2 = rows' \<and> sound (md_vectors db2)
    \<and> mirrored env entry u rows' (contents (md_vectors db2) (collection_of u) |` (- {}))
    \<and> (\<forall>w. w \<noteq> u \<longrightarrow> mirrored env entry w rows' (contents (md_vectors db2) (collection_of w)))"
    using u mine by (intro upsert_syncs [OF s items t' d _ _ up]) simp_all
  have "f |` (- {}) = f" for f :: "string \<Rightarrow> 'e option" by (simp add: fun_eq_iff)
  with r d show ?thesis by (auto intro!: in_syncI [where u = u and rows = rows'])
qed

lemma add_syncs:
  assumes s: "in_sync env sound contents entry db" and call: "add_memory env client user content t path db = (db', Inr m)"
  shows "in_sync env sound contents entry db' \<and> (\<forall>w. w \<noteq> u_id user \<longrightarrow> own_tab w (md_rows db') = own_tab w (md_rows db))"
proof -
  from call obtain c p rows' m0 where i: "insert_new_memory (me_new_id env 0) (me_now env) (u_id user) c (Some t) p
      (Some (made_by ''manual'')) (md_rows db) = Inr (rows', m0)"
    and e: "embed_memory env client (u_id user) m0 (db\<lparr>md_rows := rows'\<rparr>) = (db', Inr m)"
    by (auto simp: add_memory_def then_do_Inr)
  note tab = insert_tab [OF i in_syncD(2) [OF s]]
  have "in_sync env sound contents entry db' \<and> md_rows db' = rows'"
    using tab(4) by (intro embed_syncs [OF s tab(1,2,3) _ e]) simp
  then show ?thesis using tab by (auto simp: own_tab_def fun_eq_iff split: option.splits)
qed

lemma change_syncs:
  assumes s: "in_sync env sound contents entry db" and given: "content \<noteq> None \<or> path \<noteq> None"
    and call: "update_memory_by_id env client user i content t path db = (db', Inr m)"
  shows "in_sync env sound contents entry db' \<and> (\<forall>w. w \<noteq> u_id user \<longrightarrow> own_tab w (md_rows db') = own_tab w (md_rows db))"
proof -
  from call given obtain c p rows' m0 where i: "update_memory_by_id_and_user_id i (u_id user) c t p (path \<noteq> None)
      (Some (made_by ''manual'')) (me_now env) (md_rows db) = (rows', Some m0)"
    and e: "embed_memory env client (u_id user) m0 (db\<lparr>md_rows := rows'\<rparr>) = (db', Inr m)"
    by (auto simp: update_memory_by_id_def then_do_Inr Let_def split: if_splits prod.splits option.splits)
  note tab = change_tab [OF i in_syncD(2) [OF s]]
  have "in_sync env sound contents entry db' \<and> md_rows db' = rows'"
    using tab(4) by (intro embed_syncs [OF s tab(1,2,3) _ e]) auto
  then show ?thesis using tab by (auto simp: own_tab_def fun_eq_iff split: option.splits)
qed

lemma delete_syncs:
  assumes s: "in_sync env sound contents entry db" and call: "delete_one_memory env client user i db = (db', Inr x)"
  shows "in_sync env sound contents entry db' \<and> (\<forall>w. w \<noteq> u_id user \<longrightarrow> own_tab w (md_rows db') = own_tab w (md_rows db))"
proof -
  obtain rows' deleted where del: "delete_memory_by_id_and_user_id i (u_id user) (md_rows db) = (rows', deleted)" by fastforce
  note old = in_syncD [OF s]
  note tab = delete_tab [OF del old(2)]
  show ?thesis
  proof (cases deleted)
    case True
    with call del obtain v where v: "vc_delete client (collection_of (u_id user)) [i] (md_vectors db) = Inr v"
      and db': "db' = \<lparr>md_rows = rows', md_vectors = v\<rparr>"
      by (cases db) (auto simp: delete_one_memory_def then_do_Inr Let_def split: sum.splits)
    have t: "tab rows' = (tab (md_rows db) ++ map_of (rev (map (\<lambda>m. (mem_id m, m)) []))) |` (- {i})"
      using tab(1) True by simp
    have mine: "\<forall>k \<in> {i} \<union> mem_id ` set []. \<forall>m. tab (md_rows db) k = Some m \<longrightarrow> mem_user_id m = u_id user"
      using tab(4) True by auto
    note new = own_tab_batch [OF t _ mine]
    have own: "own_tab (u_id user) rows' = (own_tab (u_id user) (md_rows db) ++ map_of (rev (map (\<lambda>m. (mem_id m, m)) []))) |` (- {i})"
      and others: "\<And>w. w \<noteq> u_id user \<Longrightarrow> own_tab w rows' = own_tab w (md_rows db)"
      using new by simp_all
    have "mirrored env entry (u_id user) rows' (contents (md_vectors db) (collection_of (u_id user)) |` (- set [i]))"
      using old(3) by (intro mirrored_update [OF _ _ own, of env entry _ "[]"]) simp_all
    moreover have "mirrored env entry w rows' (contents (md_vectors db) (collection_of w))" if "w \<noteq> u_id user" for w
      using old(3) mirrored_cong [OF others [OF that]] by blast
    ultimately have "in_sync env sound contents entry db'"
      unfolding db' by (intro delete_mirrors [OF old(1) _ v] tab(3)) simp_all
    with others show ?thesis by (simp add: db')
  next
    case False
    with call del tab(2) have "db' = db" by (cases db) (auto simp: delete_one_memory_def then_do_Inr)
    with s show ?thesis by simp
  qed
qed

end

lemma fresh_ids_tab: "fresh_ids new_id rows \<Longrightarrow> tab rows (new_id n) = None"
  by (simp add: fresh_ids_def tab_None)

context vector_store
begin

lemma delete_all_syncs:
  assumes s: "in_sync env sound contents entry db" and call: "delete_memory_by_user_id env client user db = (db', Inr x)"
  shows "in_sync env sound contents entry db' \<and> (\<forall>w. w \<noteq> u_id user \<longrightarrow> own_tab w (md_rows db') = own_tab w (md_rows db))"
proof -
  let ?u = "u_id user" and ?rows = "sql_delete (\<lambda>m. mem_user_id m = u_id user) (md_rows db)"
  note old = in_syncD [OF s]
  note tab = delete_all_tab [OF old(2), where u = ?u]
  note v = drop_collection_contents [OF old(1), where c = "collection_of ?u"]
  have db': "db' = \<lparr>md_rows = ?rows, md_vectors = drop_collection client (collection_of ?u) (md_vectors db)\<rparr>"
    using call by (auto simp: delete_memory_by_user_id_def delete_memories_by_user_id_def then_do_Inr)
  have "mirrored env entry w ?rows (contents (drop_collection client (collection_of ?u) (md_vectors db)) (collection_of w))" for w
  proof (cases "w = ?u")
    case True
    then show ?thesis using tab(1) v(1) by (simp add: mirrored_def)
  next
    case False
    then show ?thesis using old(3) v(3) [of "collection_of w"] mirrored_cong [OF tab(2) [OF False], of env entry] by simp
  qed
  then show ?thesis using tab v(2) by (simp add: db' in_sync_def)
qed

lemma reset_syncs:
  assumes s: "in_sync env sound contents entry db" and call: "reset_memory_from_vector_db env client user db = (db', Inr x)"
  shows "in_sync env sound contents entry db' \<and> (\<forall>w. w \<noteq> u_id user \<longrightarrow> own_tab w (md_rows db') = own_tab w (md_rows db))"
proof -
  let ?u = "u_id user"
  note old = in_syncD [OF s]
  obtain v r where re: "reindex_memory_vectors_for_user env client ?u (get_memories_by_user_id ?u (md_rows db)) (md_vectors db) = (v, r)"
    by fastforce
  with call have db': "db' = db\<lparr>md_vectors := v\<rparr>" and "rbind r (\<lambda>_. Inr True) = Inr x"
    by (auto simp: reset_memory_from_vector_db_def then_do_Inr)
  then obtain n where "r = Inr n" by (cases r) simp_all
  from reindex_mirrors [OF old(1,2) _ re [unfolded this]] old(3) show ?thesis
    using old(2) by (simp add: db' in_sync_def)
qed

text \<open>
  A batch: the results say what to store and what to delete. When there is nothing to store, the store is as it was.
\<close>

lemma batch_syncs:
  assumes s: "in_sync env sound contents entry db" and fresh: "fresh_ids (me_new_id env) (md_rows db)"
    and call: "update_memories env client user metadata source fs db = (db', Inr x)"
  shows "in_sync env sound contents entry db' \<and> (\<forall>w. w \<noteq> u_id user \<longrightarrow> own_tab w (md_rows db') = own_tab w (md_rows db))"
proof -
  let ?u = "u_id user" and ?src = "if is_given source then or_empty source else ''tool''"
  note old = in_syncD [OF s]
  from call obtain ops p where ops: "validate_memory_operations fs = Inr ops"
    and applied: "(case apply_memory_operations ?u (me_now env) (me_new_id env) (map (with_meta ?src metadata) ops) (md_rows db)
        of Inl (ValueError e) \<Rightarrow> Inl (HTTPException 404 e) | r \<Rightarrow> r) = Inr p"
    and ended: "(case p of (rows, results) \<Rightarrow> finish_batch env client ?u results (db\<lparr>md_rows := rows\<rparr>)) = (db', Inr x)"
    unfolding update_memories_def Let_def then_do_Inr by blast
  obtain rows' results where p: "p = (rows', results)" by fastforce
  have a: "apply_memory_operations ?u (me_now env) (me_new_id env) (map (with_meta ?src metadata) ops) (md_rows db) = Inr (rows', results)"
    using applied unfolding p
    by (cases "apply_memory_operations ?u (me_now env) (me_new_id env) (map (with_meta ?src metadata) ops) (md_rows db)")
       (simp_all split: py_error.splits)
  have fin: "finish_batch env client ?u results (db\<lparr>md_rows := rows'\<rparr>) = (db', Inr x)"
    using ended by (simp add: p)
  from fin obtain items db2 y where items: "rmap (memory_item env ?u) (stored_memories results) = Inr items"
    and up: "(if items = [] then (db\<lparr>md_rows := rows'\<rparr>, Inr ()) else upsert_memory_vectors_or_reindex env client ?u items (db\<lparr>md_rows := rows'\<rparr>)) = (db2, Inr y)"
    and del: "(if deleted_ids results = [] then (db2, Inr results)
              else case vc_delete client (collection_of ?u) (deleted_ids results) (md_vectors db2) of
                     Inl e \<Rightarrow> (db2, Inl e) | Inr v \<Rightarrow> (db2\<lparr>md_vectors := v\<rparr>, Inr results)) = (db', Inr x)"
    unfolding finish_batch_def Let_def then_do_Inr prod.inject by blast
  let ?K = "set (deleted_ids results)" and ?ms = "stored_memories results"
  note batch = batch_table [OF a old(2) [unfolded rows_distinct_def] fresh valid_ops_given [OF ops]]
  have d: "rows_distinct rows'" using batch(2) by (simp add: rows_distinct_def)
  note new = own_tab_batch [OF batch(1,3,4)]
  have kept: "mirrored env entry w rows' (contents (md_vectors db) (collection_of w))" if "w \<noteq> ?u" for w
    using old(3) mirrored_cong [OF new(2) [OF that]] by blast
  have mid: "md_rows db2 = rows' \<and> sound (md_vectors db2)
    \<and> mirrored env entry ?u rows' (contents (md_vectors db2) (collection_of ?u) |` (- ?K))
    \<and> (\<forall>w. w \<noteq> ?u \<longrightarrow> mirrored env entry w rows' (contents (md_vectors db2) (collection_of w)))"
  proof (cases "items = []")
    case True
    with up have db2: "db2 = db\<lparr>md_rows := rows'\<rparr>" by simp
    have "mirrored env entry ?u rows' (contents (md_vectors db) (collection_of ?u) |` (- ?K))"
      using old(3) True by (intro mirrored_update [OF _ items new(1)]) simp_all
    with kept old(1) show ?thesis by (simp add: db2)
  next
    case False
    with up show ?thesis by (intro upsert_syncs [OF s items batch(1) d batch(3,4)]) simp
  qed
  have "in_sync env sound contents entry db' \<and> md_rows db' = rows'"
  proof (cases "deleted_ids results = []")
    case True
    have all: "f |` UNIV = f" for f :: "string \<Rightarrow> 'e option" by (simp add: fun_eq_iff)
    from True del mid d show ?thesis by (auto simp: all intro!: in_syncI [where u = ?u and rows = rows'])
  next
    case False
    with del obtain v where v: "vc_delete client (collection_of ?u) (deleted_ids results) (md_vectors db2) = Inr v"
      and db': "db' = db2\<lparr>md_vectors := v\<rparr>" by (auto split: sum.splits)
    from mid have "db' = \<lparr>md_rows = rows', md_vectors = v\<rparr>" by (cases db2) (simp add: db')
    with mid d delete_mirrors [OF _ False v] show ?thesis by simp
  qed
  with new(2) show ?thesis by simp
qed

lemma serve_syncs:
  assumes s: "in_sync env sound contents entry db" and fresh: "fresh_ids (me_new_id env) (md_rows db)"
    and kind: "\<not> type_only req" and call: "serve env client user req db = (db', Inr ())"
  shows "in_sync env sound contents entry db' \<and> (\<forall>w. w \<noteq> u_id user \<longrightarrow> own_tab w (md_rows db') = own_tab w (md_rows db))"
proof (cases req)
  case (Add content t path)
  with call obtain m where "add_memory env client user content t path db = (db', Inr m)" by (auto simp: serve_def then_do_Inr)
  then show ?thesis by (rule add_syncs [OF s])
next
  case (Batch metadata source fs)
  with call obtain m where "update_memories env client user metadata source fs db = (db', Inr m)" by (auto simp: serve_def then_do_Inr)
  then show ?thesis by (rule batch_syncs [OF s fresh])
next
  case (Change i content t path)
  with call obtain m where "update_memory_by_id env client user i content t path db = (db', Inr m)" by (auto simp: serve_def then_do_Inr)
  with kind Change show ?thesis by (intro change_syncs [OF s]) auto
next
  case (Delete i)
  with call obtain m where "delete_one_memory env client user i db = (db', Inr m)" by (auto simp: serve_def then_do_Inr)
  then show ?thesis by (rule delete_syncs [OF s])
next
  case Delete_All
  with call obtain m where "delete_memory_by_user_id env client user db = (db', Inr m)" by (auto simp: serve_def then_do_Inr)
  then show ?thesis by (rule delete_all_syncs [OF s])
next
  case Reset
  with call obtain m where "reset_memory_from_vector_db env client user db = (db', Inr m)" by (auto simp: serve_def then_do_Inr)
  then show ?thesis by (rule reset_syncs [OF s])
qed

end

subsection \<open>Rows stay well-formed\<close>

text \<open>
  What every row holds: one of the two types, a text without spaces around it, and a path as \<open>clean_memory_path\<close>
  returns it.
\<close>

definition memory_row_ok :: "memory_row \<Rightarrow> bool" where
  "memory_row_ok m =
     (mem_type m \<in> {''user'', ''context''} \<and> mem_content m \<noteq> [] \<and> str_strip (mem_content m) = mem_content m
      \<and> (case mem_path m of None \<Rightarrow> True | Some p \<Rightarrow> clean_path p))"

definition rows_ok :: "memory_row list \<Rightarrow> bool" where
  "rows_ok rows = (\<forall>m \<in> set rows. memory_row_ok m)"

definition content_ok :: "string \<Rightarrow> bool" where
  "content_ok c = (c \<noteq> [] \<and> str_strip c = c)"

definition path_ok :: "string option \<Rightarrow> bool" where
  "path_ok p = (case p of None \<Rightarrow> True | Some q \<Rightarrow> clean_path q)"

lemma cleaned_content_ok: "clean_memory_content c = Inr t \<Longrightarrow> content_ok t"
  by (auto simp: clean_memory_content_def content_ok_def Let_def split: if_splits)

lemma cleaned_path_ok: "clean_memory_path p = Inr q \<Longrightarrow> path_ok q"
  using cleaned_path by (auto simp: path_ok_def split: option.splits)

lemma type_ok [simp]: "normalize_memory_type t = ''user'' \<or> normalize_memory_type t = ''context''"
  by (simp add: normalize_memory_type_def)

lemma row_ok_iff: "memory_row_ok m \<longleftrightarrow> mem_type m \<in> {''user'', ''context''} \<and> content_ok (mem_content m) \<and> path_ok (mem_path m)"
  by (auto simp: memory_row_ok_def content_ok_def path_ok_def)

lemma insert_ok:
  "insert_new_memory i now u c t p meta rows = Inr (rows', m) \<Longrightarrow> rows_ok rows \<Longrightarrow> content_ok c \<Longrightarrow> path_ok p \<Longrightarrow> rows_ok rows'"
proof -
  assume i: "insert_new_memory i now u c t p meta rows = Inr (rows', m)" and ok: "rows_ok rows" "content_ok c" "path_ok p"
  then have "memory_row_ok m" and "rows' = rows @ [m]"
    by (auto simp: insert_new_memory_def Let_def row_ok_iff normalize_memory_type_def split: if_splits)
  with ok(1) show ?thesis by (simp add: rows_ok_def)
qed

lemma changed_ok:
  "memory_row_ok m \<Longrightarrow> (\<forall>x. c = Some x \<longrightarrow> content_ok x) \<Longrightarrow> (\<forall>x. p = Some x \<longrightarrow> path_ok x) \<Longrightarrow>
     memory_row_ok (changed_row c t p meta now m)"
  by (auto simp: changed_row_def row_ok_iff split: option.splits)

lemma save_ok: "rows_ok rows \<Longrightarrow> memory_row_ok m \<Longrightarrow> rows_ok (save_memory m rows)"
  by (auto simp: rows_ok_def save_memory_def)

lemma delete_ok: "rows_ok rows \<Longrightarrow> rows_ok (sql_delete p rows)"
  by (auto simp: rows_ok_def)

lemma update_ok:
  assumes "update_memory_by_id_and_user_id i u c t p up meta now rows = (rows', r)" "rows_ok rows"
    and "\<forall>x. c = Some x \<longrightarrow> content_ok x" "path_ok p"
  shows "rows_ok rows'"
proof (cases r)
  case (Some m)
  from assms(1) Some obtain m0 where m0: "tab rows i = Some m0"
    and m: "m = changed_row c t (if up then Some p else None) meta now m0" "rows' = save_memory m rows"
    by (auto simp: update_memory_by_id_and_user_id_def get_memory_tab Let_def split: option.splits if_splits)
  have "memory_row_ok m0" using assms(2) tab_SomeD [OF m0] by (simp add: rows_ok_def)
  then have "memory_row_ok m" unfolding m(1) using assms(3,4) by (intro changed_ok) auto
  then show ?thesis using assms(2) m(2) by (simp add: save_ok)
next
  case None
  with assms(1,2) show ?thesis
    by (auto simp: update_memory_by_id_and_user_id_def Let_def split: option.splits if_splits)
qed

text \<open>An operation that validation let through, and what it does in a batch.\<close>

definition op_ok :: "memory_op \<Rightarrow> bool" where
  "op_ok op =
     ((op_action op \<in> {''add'', ''replace''} \<longrightarrow> (\<exists>c. op_content op = Some c \<and> content_ok c))
      \<and> (op_action op \<noteq> ''remove'' \<longrightarrow> (\<exists>p. op_path op = Some p \<and> path_ok p)))"

lemma valid_op_ok: "validate_operation f = Inr op \<Longrightarrow> op_ok op"
  unfolding validate_operation_def Let_def
  by (auto simp: op_ok_def rbind_Inr_iff cleaned_content_ok cleaned_path_ok split: if_splits)

lemma valid_ops_ok:
  assumes "validate_memory_operations fs = Inr ops"
  shows "\<forall>op \<in> set (map (with_meta source metadata) ops). op_ok op"
proof -
  have "rmap validate_operation fs = Inr ops \<Longrightarrow> \<forall>op \<in> set ops. op_ok op"
    by (induction fs arbitrary: ops) (auto simp: rbind_Inr_iff dest: valid_op_ok)
  then show ?thesis
    using assms by (auto simp: validate_memory_operations_def with_meta_def op_ok_def split: if_splits)
qed

lemma own_memory_ok: "own_memory u i s = Inr m \<Longrightarrow> rows_ok (ms_rows s) \<Longrightarrow> memory_row_ok m"
  by (auto simp: own_memory_Inr rows_ok_def dest: tab_SomeD)

lemma apply_operation_ok:
  assumes a: "apply_operation u now i op s = Inr (s', r)" and ok: "rows_ok (ms_rows s)" and op: "op_ok op"
  shows "rows_ok (ms_rows s')"
proof -
  consider (add) "op_action op = ''add''" "apply_add u now i op s = Inr (s', r)"
    | (replace) "op_action op = ''replace''" "apply_replace u now op s = Inr (s', r)"
    | (move) "op_action op = ''move''" "apply_move u now op s = Inr (s', r)"
    | (remove) "apply_remove u op s = Inr (s', r)"
    using a unfolding apply_operation_def by (auto split: if_splits)
  then show ?thesis
  proof cases
    case add
    with op obtain c p where c: "op_content op = Some c" "content_ok c" and p: "op_path op = Some p" "path_ok p"
      by (auto simp: op_ok_def)
    have "str_strip c = c" using c by (simp add: content_ok_def)
    with add c p ok show ?thesis
      by (auto simp: apply_add_def stripped_content_def rbind_Inr_iff Let_def flush_def
          intro!: delete_ok dest: insert_ok split: option.splits)
  next
    case replace
    with op obtain c p where c: "op_content op = Some c" "content_ok c" and p: "op_path op = Some p" "path_ok p"
      by (auto simp: op_ok_def)
    have "str_strip c = c" using c by (simp add: content_ok_def)
    with replace c p ok own_memory_ok show ?thesis
      by (auto simp: apply_replace_def stripped_content_def rbind_Inr_iff Let_def flush_def intro!: delete_ok save_ok changed_ok)
  next
    case move
    with op obtain p where p: "op_path op = Some p" "path_ok p" by (auto simp: op_ok_def)
    with move ok own_memory_ok show ?thesis
      by (auto simp: apply_move_def rbind_Inr_iff Let_def flush_def intro!: delete_ok save_ok changed_ok)
  next
    case remove
    with ok show ?thesis by (auto simp: apply_remove_def rbind_Inr_iff)
  qed
qed

lemma batch_ok:
  assumes "apply_memory_operations u now new_id ops rows = Inr (rows', results)" "rows_ok rows" "\<forall>op \<in> set ops. op_ok op"
  shows "rows_ok rows'"
proof -
  have fold: "rows_ok (ms_rows s2)" if "rfold (\<lambda>op (s, results).
         rbind (apply_operation u now (new_id (length results)) op s) (\<lambda>(s', r). Inr (s', results @ [r]))) ops (s, rs) = Inr (s2, rs2)"
     "rows_ok (ms_rows s)" for s rs s2 rs2
    using that assms(3)
  proof (induction ops arbitrary: s rs)
    case (Cons op ops)
    from Cons.prems(1) obtain s1 r where a: "apply_operation u now (new_id (length rs)) op s = Inr (s1, r)"
      and rest: "rfold (\<lambda>op (s, results).
         rbind (apply_operation u now (new_id (length results)) op s) (\<lambda>(s', r). Inr (s', results @ [r]))) ops (s1, rs @ [r]) = Inr (s2, rs2)"
      by (auto simp: rbind_Inr_iff)
    have "rows_ok (ms_rows s1)" using apply_operation_ok [OF a Cons.prems(2)] Cons.prems(3) by simp
    then show ?case using Cons.IH [OF rest] Cons.prems(3) by simp
  qed simp
  from assms(1) obtain s where "rfold (\<lambda>op (s, results).
         rbind (apply_operation u now (new_id (length results)) op s) (\<lambda>(s', r). Inr (s', results @ [r])))
       ops (\<lparr>ms_rows = rows, ms_gone = []\<rparr>, []) = Inr (s, results)" "rows' = ms_rows (flush (ms_rows s) (ms_gone s))"
    unfolding apply_memory_operations_def rbind_def by (auto split: sum.splits)
  with fold assms(2) show ?thesis by (simp add: flush_def delete_ok)
qed

text \<open>An endpoint keeps a property of the state when each of its calls does.\<close>

lemma then_do_keeps: "P (fst r) \<Longrightarrow> (\<And>s x. r = (s, Inr x) \<Longrightarrow> P s \<Longrightarrow> P (fst (f s x))) \<Longrightarrow> P (fst (then_do r f))"
  by (cases r; cases "snd r") auto

lemma upsert_keeps_rows: "md_rows (fst (upsert_memory_vectors_or_reindex env client u items db)) = md_rows db"
  by (simp add: upsert_memory_vectors_or_reindex_def Let_def split: sum.splits prod.splits)

lemma embed_keeps_rows: "md_rows (fst (embed_memory env client u m db)) = md_rows db"
proof (cases "memory_item env u m")
  case (Inr i)
  obtain d r where d: "upsert_memory_vectors_or_reindex env client u [i] db = (d, r)" by fastforce
  with upsert_keeps_rows [of env client u "[i]" db] have "md_rows d = md_rows db" by simp
  then show ?thesis by (cases r) (simp_all add: embed_memory_def Inr d)
qed (simp add: embed_memory_def)

lemma finish_keeps_rows: "md_rows (fst (finish_batch env client u results db)) = md_rows db"
proof (cases "rmap (memory_item env u) (stored_memories results)")
  case (Inr items)
  obtain d r where d: "(if items = [] then (db, Inr ()) else upsert_memory_vectors_or_reindex env client u items db) = (d, r)"
    by fastforce
  with upsert_keeps_rows [of env client u items db] have "md_rows d = md_rows db" by (auto split: if_splits)
  then show ?thesis by (cases r) (simp_all add: finish_batch_def Inr d Let_def split: sum.split)
qed (simp add: finish_batch_def)

lemma then_do_ok:
  "rows_ok (md_rows s) \<Longrightarrow> (\<And>x. r = Inr x \<Longrightarrow> rows_ok (md_rows (fst (f s x)))) \<Longrightarrow> rows_ok (md_rows (fst (then_do (s, r) f)))"
  by (cases r) simp_all

lemma add_keeps_ok:
  assumes ok: "rows_ok (md_rows db)"
  shows "rows_ok (md_rows (fst (add_memory env client user content t path db)))"
  unfolding add_memory_def
proof (intro then_do_ok ok, goal_cases)
  case (1 x c p r)
  obtain rows m where r: "r = (rows, m)" by fastforce
  have "rows_ok rows"
    by (rule insert_ok [OF 1(4) [unfolded r] ok cleaned_content_ok [OF 1(2)] cleaned_path_ok [OF 1(3)]])
  then show ?case by (simp add: r embed_keeps_rows)
qed

lemma batch_keeps_ok:
  assumes ok: "rows_ok (md_rows db)"
  shows "rows_ok (md_rows (fst (update_memories env client user metadata source fs db)))"
  unfolding update_memories_def Let_def
proof (intro then_do_ok ok, goal_cases)
  case (1 x ops r)
  let ?ops = "map (with_meta (if is_given source then or_empty source else ''tool'') metadata) ops"
  obtain rows results where r: "r = (rows, results)" by fastforce
  from 1(3) have "apply_memory_operations (u_id user) (me_now env) (me_new_id env) ?ops (md_rows db) = Inr (rows, results)"
    unfolding r by (cases "apply_memory_operations (u_id user) (me_now env) (me_new_id env) ?ops (md_rows db)")
      (simp_all split: py_error.splits)
  then have "rows_ok rows" by (rule batch_ok [OF _ ok valid_ops_ok [OF 1(2)]])
  then show ?case by (simp add: r finish_keeps_rows)
qed

lemma change_keeps_ok:
  assumes ok: "rows_ok (md_rows db)"
  shows "rows_ok (md_rows (fst (update_memory_by_id env client user i content t path db)))"
  unfolding update_memory_by_id_def Let_def
proof (intro then_do_ok ok, goal_cases)
  case (1 x c p)
  have c: "\<forall>y. c = Some y \<longrightarrow> content_ok y"
    using 1(2) by (auto simp: rbind_Inr_iff cleaned_content_ok split: if_splits)
  obtain rows r where u: "update_memory_by_id_and_user_id i (u_id user) c t p (path \<noteq> None) (Some (made_by ''manual'')) (me_now env) (md_rows db) = (rows, r)"
    by fastforce
  have "rows_ok rows" by (rule update_ok [OF u ok c cleaned_path_ok [OF 1(3)]])
  with ok show ?case unfolding u by (cases r) (simp_all add: embed_keeps_rows)
qed

lemma delete_keeps_ok:
  assumes ok: "rows_ok (md_rows db)"
  shows "rows_ok (md_rows (fst (delete_one_memory env client user i db)))"
  unfolding delete_one_memory_def Let_def
proof (intro then_do_ok ok, goal_cases)
  case (1 x)
  obtain rows deleted where d: "delete_memory_by_id_and_user_id i (u_id user) (md_rows db) = (rows, deleted)" by fastforce
  then have "rows_ok rows"
    using ok by (auto simp: delete_memory_by_id_and_user_id_def delete_ok split: option.splits if_splits)
  then show ?case by (simp add: d split: sum.split)
qed

lemma delete_all_keeps_ok:
  assumes ok: "rows_ok (md_rows db)"
  shows "rows_ok (md_rows (fst (delete_memory_by_user_id env client user db)))"
  unfolding delete_memory_by_user_id_def Let_def
  by (intro then_do_ok ok) (simp add: delete_memories_by_user_id_def delete_ok ok)

lemma reset_keeps_ok:
  assumes ok: "rows_ok (md_rows db)"
  shows "rows_ok (md_rows (fst (reset_memory_from_vector_db env client user db)))"
  unfolding reset_memory_from_vector_db_def Let_def
  by (intro then_do_ok ok) (simp add: ok split: prod.split)

lemma then_unit: "fst (then_do r (\<lambda>db _. (db, Inr ()))) = fst r"
  by (cases r; cases "snd r") auto

lemma serve_keeps_ok: "rows_ok (md_rows db) \<Longrightarrow> rows_ok (md_rows (fst (serve env client user req db)))"
  by (cases req)
     (simp_all add: serve_def then_unit add_keeps_ok batch_keeps_ok change_keeps_ok delete_keeps_ok delete_all_keeps_ok reset_keeps_ok)

subsection \<open>Properties\<close>

text \<open>
  C13. With the store in PostgreSQL, the vectors of every user mirror that user's memories: when they do before a request,
  the drawn ids are new, and the request (an addition, a batch, a change of content or path, a deletion of one or all, a
  reset) is answered without an exception, then after it the collection of each user holds, under the id of each memory
  of the user and nowhere else, the text, vector and metadata of the memory as it is now, also when the first attempt to
  store the vectors failed on their dimension and all were made anew; and the memories of other users are as before.
\<close>

theorem vectors_mirror_memories:
  fixes pg :: "'x::zero pg_env"
  assumes "in_sync env pg_sound pg_contents (pg_entry pg) db" "fresh_ids (me_new_id env) (md_rows db)"
    and "\<not> type_only req" "serve env (pg_client pg) user req db = (db', Inr ())"
  shows "in_sync env pg_sound pg_contents (pg_entry pg) db'
    \<and> (\<forall>w. w \<noteq> u_id user \<longrightarrow> own_tab w (md_rows db') = own_tab w (md_rows db))"
  by (rule pg.serve_syncs [OF assms])

definition sample_pg :: "int pg_env" where
  "sample_pg = \<lparr>pg_length = 2, pg_crypto = False, pg_max_chars = None, pg_text_of = (\<lambda>_. []), pg_as_text = (\<lambda>_. None),
     pg_storable = (\<lambda>_. True)\<rparr>"

definition sample_env :: "int memory_env" where
  "sample_env = \<lparr>me_enabled = True, me_permissions = [], me_default_permissions = [],
     me_groups = \<lparr>db_users = [], db_groups = [], db_members = [], db_fk = True\<rparr>, me_embed = (\<lambda>_ t. Inr [int (length t)]),
     me_message = (\<lambda>_. []), me_new_id = (\<lambda>n. replicate (Suc n) (CHR ''m'')), me_now = 7\<rparr>"

definition sample_user :: user_row where
  "sample_user = \<lparr>u_id = ''u'', u_role = ''admin''\<rparr>"

definition sample_batch :: memory_request where
  "sample_batch = Batch [] None
     [\<lparr>fo_action = ''add'', fo_id = None, fo_content = Some '' likes tea '', fo_type = Some ''user'', fo_path = Some ''/home//drinks/''\<rparr>]"

definition no_memories :: "int chunks memory_db" where
  "no_memories = \<lparr>md_rows = [], md_vectors = []\<rparr>"

definition after_batch :: "int chunks memory_db" where
  "after_batch = fst (serve sample_env (pg_client sample_pg) sample_user sample_batch no_memories)"

lemma vectors_mirror_memories_witness:
  "in_sync sample_env pg_sound pg_contents (pg_entry sample_pg) no_memories
   \<and> serve sample_env (pg_client sample_pg) sample_user sample_batch no_memories = (after_batch, Inr ())
   \<and> in_sync sample_env pg_sound pg_contents (pg_entry sample_pg) after_batch
   \<and> map mem_path (md_rows after_batch) = [Some ''home/drinks'']
   \<and> map ch_text (md_vectors after_batch) = [''home/drinks'' @ [CHR 0x0A] @ ''likes tea'']"
proof -
  have a: "in_sync sample_env pg_sound pg_contents (pg_entry sample_pg) no_memories"
    by (simp add: in_sync_def no_memories_def pg_sound_def rows_distinct_def mirrored_def own_tab_def pg_contents_def pg_row_def)
  have b: "fresh_ids (me_new_id sample_env) (md_rows no_memories)"
    by (auto simp: fresh_ids_def sample_env_def no_memories_def inj_def replicate_eq_replicate)
  have c: "\<not> type_only sample_batch" by (simp add: sample_batch_def)
  have d: "serve sample_env (pg_client sample_pg) sample_user sample_batch no_memories = (after_batch, Inr ())"
    unfolding after_batch_def by code_simp
  have e: "map mem_path (md_rows after_batch) = [Some ''home/drinks'']" by code_simp
  have f: "map ch_text (md_vectors after_batch) = [''home/drinks'' @ [CHR 0x0A] @ ''likes tea'']" by code_simp
  from vectors_mirror_memories [OF a b c d] a d e f show ?thesis by blast
qed

text \<open>
  C14. Whatever a request does, and also when it raises after rows were written, every row of the table stays
  well-formed: its type is user or context, its text is not empty and has no spaces around it, and its path, when it has
  one, has no empty segment, no segment of one or two dots and no control character.
\<close>

theorem memory_rows_stay_well_formed:
  assumes "\<forall>m \<in> set (md_rows db). memory_row_ok m" "serve env client user req db = (db', r)"
  shows "\<forall>m \<in> set (md_rows db'). memory_row_ok m"
  using serve_keeps_ok [of db env client user req] assms by (simp add: rows_ok_def)

lemma memory_rows_stay_well_formed_witness:
  "serve sample_env (pg_client sample_pg) sample_user sample_batch no_memories = (after_batch, Inr ())
   \<and> list_all memory_row_ok (md_rows after_batch) \<and> md_rows after_batch \<noteq> []"
proof -
  have a: "\<forall>m \<in> set (md_rows no_memories). memory_row_ok m" by (simp add: no_memories_def)
  have d: "serve sample_env (pg_client sample_pg) sample_user sample_batch no_memories = (after_batch, Inr ())"
    unfolding after_batch_def by code_simp
  have e: "map mem_path (md_rows after_batch) = [Some ''home/drinks'']" by code_simp
  from memory_rows_stay_well_formed [OF a d] d e show ?thesis by (auto simp: list_all_iff)
qed

subsection \<open>Where the code does otherwise\<close>

text \<open>A change of the type alone leaves the old type in the store.\<close>

lemma type_change_leaves_vector:
  "let db = fst (serve sample_env (pg_client sample_pg) sample_user (Change ''m'' None (Some ''context'') None) after_batch)
   in map mem_type (md_rows db) = [''context''] \<and> map (\<lambda>c. dget (ch_metadata c) ''type'') (md_vectors db) = [PStr ''user'']"
  by code_simp

text \<open>A batch that removes a memory and adds it again loses it: the addition is skipped as a duplicate of the removed row.\<close>

lemma remove_and_add_loses:
  "let (db, r) = update_memories sample_env (pg_client sample_pg) sample_user [] None
         [\<lparr>fo_action = ''remove'', fo_id = Some ''m'', fo_content = None, fo_type = None, fo_path = None\<rparr>,
          \<lparr>fo_action = ''add'', fo_id = None, fo_content = Some ''likes tea'', fo_type = Some ''user'', fo_path = Some ''home/drinks''\<rparr>]
         after_batch
   in md_rows db = [] \<and> rbind r (\<lambda>rs. Inr (map re_status rs)) = Inr [''deleted'', ''skipped'']"
  by code_simp

text \<open>An addition whose path cannot be cleaned again is stored, but the request raises and there is no vector.\<close>

lemma unstable_path_is_stored_without_vector:
  "let (db, r) = add_memory sample_env (pg_client sample_pg) sample_user ''tea'' ''user'' (Some ''/ ..'') no_memories
   in map mem_path (md_rows db) = [Some '' ..''] \<and> md_vectors db = [] \<and> r = Inl (HTTPException 400 ''Invalid memory path'')"
  by code_simp

end
