(* ===== verification/Shell_Text.thy ===== *)
theory Shell_Text
  imports Py_Numbers
begin

section \<open>Command lines and text of the knowledge shell\<close>

text \<open>
  Models how \<open>tools/knowledge_fs.py\<close> reads a command line (pipes, words, options) and a search pattern, with the
  functions of the standard library it uses for that: \<open>shlex.split\<close>, \<open>str.split\<close>, \<open>fnmatch.fnmatch\<close>, the
  formatting of numbers and dates. The third-party engine for regular expressions is a value of type
  \<open>search_engine\<close>: compiling a pattern gives a message or a search, and a search under a time limit
  gives an answer or none, with the time it took. Times are whole numbers of some unit.
\<close>

subsection \<open>Strings\<close>

abbreviation quote_char :: char where "quote_char \<equiv> CHR 0x27"
abbreviation dquote_char :: char where "dquote_char \<equiv> CHR 0x22"
abbreviation backslash_char :: char where "backslash_char \<equiv> CHR 0x5C"
abbreviation newline_char :: char where "newline_char \<equiv> CHR 0x0A"

definition nl :: string where
  "nl = [newline_char]"

definition str_lines :: "string \<Rightarrow> string list" where
  "str_lines s = str_split newline_char s"

definition unlines :: "string list \<Rightarrow> string" where
  "unlines ls = str_join nl ls"

definition str_rstrip :: "string \<Rightarrow> string" where
  "str_rstrip s = rev (dropWhile is_space_char (rev s))"

definition strip_char :: "char \<Rightarrow> string \<Rightarrow> string" where
  "strip_char c s = rev (dropWhile (\<lambda>x. x = c) (rev (dropWhile (\<lambda>x. x = c) s)))"

definition str_ends_with :: "string \<Rightarrow> string \<Rightarrow> bool" where
  "str_ends_with s p = suffix p s"

text \<open>\<open>s.isdigit()\<close>: the superscripts among the characters count; \<open>\d\<close> and \<open>int\<close> take decimal digits only.\<close>

definition is_digit_char :: "char \<Rightarrow> bool" where
  "is_digit_char c = (is_decimal c \<or> of_char c \<in> {178, 179, 185 :: nat})"

definition str_isdigit :: "string \<Rightarrow> bool" where
  "str_isdigit s = (s \<noteq> [] \<and> list_all is_digit_char s)"

text \<open>\<open>s.split()\<close>.\<close>

fun words_from :: "string \<Rightarrow> string \<Rightarrow> string list" where
  "words_from w [] = (if w = [] then [] else [w])"
| "words_from w (c # cs) =
     (if is_space_char c then (if w = [] then words_from [] cs else w # words_from [] cs)
      else words_from (w @ [c]) cs)"

definition str_words :: "string \<Rightarrow> string list" where
  "str_words s = words_from [] s"

text \<open>\<open>f'{n:,}'\<close>.\<close>

fun group_digits :: "string \<Rightarrow> string" where
  "group_digits (a # b # c # d # rest) = a # b # c # CHR '','' # group_digits (d # rest)"
| "group_digits ds = ds"

definition comma_text :: "int \<Rightarrow> string" where
  "comma_text i = (if i < 0 then ''-'' else []) @ rev (group_digits (rev (nat_text (nat \<bar>i\<bar>))))"

subsection \<open>Dates\<close>

text \<open>The date of a day counted from 1970, in the proleptic Gregorian calendar.\<close>

definition civil_date :: "int \<Rightarrow> int \<times> int \<times> int" where
  "civil_date days =
     (let z = days + 719468;
          era = z div 146097;
          doe = z mod 146097;
          yoe = (doe - doe div 1460 + doe div 36524 - doe div 146096) div 365;
          doy = doe - (365 * yoe + yoe div 4 - yoe div 100);
          mp = (5 * doy + 2) div 153;
          d = doy - (153 * mp + 2) div 5 + 1;
          m = (if mp < 10 then mp + 3 else mp - 9)
      in (yoe + era * 400 + (if m \<le> 2 then 1 else 0), m, d))"

definition two_digits :: "int \<Rightarrow> string" where
  "two_digits i = (if i < 10 then ''0'' else []) @ int_text i"

definition date_text :: "int \<Rightarrow> string result" where
  "date_text t =
     (let (y, m, d) = civil_date (t div 86400)
      in if y < 1 \<or> y > 9999 then Inl (ValueError (''year '' @ int_text y @ '' is out of range''))
         else Inr (int_text y @ ''-'' @ two_digits m @ ''-'' @ two_digits d))"

definition utc_time_text :: "int \<Rightarrow> string result" where
  "utc_time_text t =
     rbind (date_text t) (\<lambda>date.
       let s = t mod 86400
       in Inr (date @ '' '' @ two_digits (s div 3600) @ '':'' @ two_digits (s div 60 mod 60) @ '':''
               @ two_digits (s mod 60) @ '' UTC''))"

subsection \<open>Words of a command\<close>

text \<open>
  \<open>shlex.split\<close>. The states are between words, in a word, in quotes, and behind a backslash, which remembers where it
  was. A word exists when it has characters or had quotes.
\<close>

datatype shlex_state =
    Between
  | InWord
  | InQuotes char
  | Escaped "char option"

definition is_shlex_space :: "char \<Rightarrow> bool" where
  "is_shlex_space c = (c \<in> {CHR '' '', CHR 0x09, CHR 0x0D, CHR 0x0A})"

definition end_word :: "string \<Rightarrow> bool \<Rightarrow> string list" where
  "end_word token quoted = (if token \<noteq> [] \<or> quoted then [token] else [])"

fun shlex_scan :: "shlex_state \<Rightarrow> string \<Rightarrow> bool \<Rightarrow> string \<Rightarrow> string list option" where
  "shlex_scan Between token quoted [] = Some []"
| "shlex_scan Between token quoted (c # cs) =
     (if is_shlex_space c then shlex_scan Between [] False cs
      else if c = backslash_char then shlex_scan (Escaped None) [] False cs
      else if c = quote_char \<or> c = dquote_char then shlex_scan (InQuotes c) [] True cs
      else shlex_scan InWord [c] False cs)"
| "shlex_scan InWord token quoted [] = Some (end_word token quoted)"
| "shlex_scan InWord token quoted (c # cs) =
     (if is_shlex_space c then map_option ((@) (end_word token quoted)) (shlex_scan Between [] False cs)
      else if c = quote_char \<or> c = dquote_char then shlex_scan (InQuotes c) token True cs
      else if c = backslash_char then shlex_scan (Escaped None) token quoted cs
      else shlex_scan InWord (token @ [c]) quoted cs)"
| "shlex_scan (InQuotes q) token quoted [] = None"
| "shlex_scan (InQuotes q) token quoted (c # cs) =
     (if c = q then shlex_scan InWord token quoted cs
      else if c = backslash_char \<and> q = dquote_char then shlex_scan (Escaped (Some q)) token quoted cs
      else shlex_scan (InQuotes q) (token @ [c]) quoted cs)"
| "shlex_scan (Escaped from) token quoted [] = None"
| "shlex_scan (Escaped from) token quoted (c # cs) =
     (case from of
        None \<Rightarrow> shlex_scan InWord (token @ [c]) quoted cs
      | Some q \<Rightarrow>
          shlex_scan (InQuotes q)
            ((if c \<noteq> backslash_char \<and> c \<noteq> q then token @ [backslash_char] else token) @ [c]) quoted cs)"

definition shlex_split :: "string \<Rightarrow> string list option" where
  "shlex_split s = shlex_scan Between [] False s"

text \<open>Pipes outside quotes; the text after the last one counts when it is not blank.\<close>

fun split_pipes :: "bool \<Rightarrow> bool \<Rightarrow> string \<Rightarrow> string \<Rightarrow> string list" where
  "split_pipes in_single in_double buf [] = (if str_strip buf \<noteq> [] then [str_strip buf] else [])"
| "split_pipes in_single in_double buf (ch # rest) =
     (if ch = quote_char \<and> \<not> in_double then split_pipes (\<not> in_single) in_double (buf @ [ch]) rest
      else if ch = dquote_char \<and> \<not> in_single then split_pipes in_single (\<not> in_double) (buf @ [ch]) rest
      else if ch = CHR ''|'' \<and> \<not> in_single \<and> \<not> in_double
      then str_strip buf # split_pipes in_single in_double [] rest
      else split_pipes in_single in_double (buf @ [ch]) rest)"

definition segment_tokens :: "string \<Rightarrow> string list" where
  "segment_tokens seg = (case shlex_split seg of Some tokens \<Rightarrow> tokens | None \<Rightarrow> str_words seg)"

definition parse_pipeline :: "string \<Rightarrow> string list list" where
  "parse_pipeline command =
     filter (\<lambda>tokens. tokens \<noteq> [])
       (map segment_tokens (filter (\<lambda>seg. seg \<noteq> []) (split_pipes False False [] command)))"

subsection \<open>Options\<close>

definition is_flag_token :: "string \<Rightarrow> bool" where
  "is_flag_token token =
     (case token of [] \<Rightarrow> False | c # rest \<Rightarrow> c = CHR ''-'' \<and> rest \<noteq> [] \<and> \<not> str_isdigit rest)"

definition extract_flags :: "string list \<Rightarrow> char set \<times> string list" where
  "extract_flags tokens =
     (set (concat (map tl (filter is_flag_token tokens))), filter (\<lambda>t. \<not> is_flag_token t) tokens)"

text \<open>\<open>$\<close> also matches before a last line feed.\<close>

definition at_end :: "string \<Rightarrow> bool" where
  "at_end s = (s = [] \<or> s = nl)"

definition leading_number :: "string \<Rightarrow> (int \<times> string) option" where
  "leading_number s =
     (let ds = takeWhile is_decimal s
      in if ds = [] then None
         else (case digits_int 0 ds of None \<Rightarrow> None | Some n \<Rightarrow> Some (n, dropWhile is_decimal s)))"

definition numeric_token :: "string \<Rightarrow> int option" where
  "numeric_token token =
     (case token of
        [] \<Rightarrow> None
      | c # rest \<Rightarrow>
          if c \<noteq> CHR ''-'' then None
          else (case leading_number rest of
                  None \<Rightarrow> None
                | Some (n, s) \<Rightarrow> if at_end s then Some n else None))"

fun extract_numeric_flag :: "string list \<Rightarrow> int option \<times> string list" where
  "extract_numeric_flag [] = (None, [])"
| "extract_numeric_flag (token # tokens) =
     (case numeric_token token of
        Some n \<Rightarrow> (Some n, tokens)
      | None \<Rightarrow> (let (num, remaining) = extract_numeric_flag tokens in (num, token # remaining)))"

text \<open>A range of lines \<open>M,Np\<close>, with or without quotes around it.\<close>

definition skip_char :: "char \<Rightarrow> string \<Rightarrow> string" where
  "skip_char c s = (case s of [] \<Rightarrow> [] | x # t \<Rightarrow> if x = c then t else s)"

definition line_range :: "bool \<Rightarrow> string \<Rightarrow> (int \<times> int) option" where
  "line_range quotes s =
     (case leading_number (if quotes then skip_char quote_char s else s) of
        None \<Rightarrow> None
      | Some (m, r) \<Rightarrow>
          (case r of
             [] \<Rightarrow> None
           | c # r \<Rightarrow>
               if c \<noteq> CHR '','' then None
               else (case leading_number r of
                       None \<Rightarrow> None
                     | Some (n, r) \<Rightarrow>
                         let r = skip_char (CHR ''p'') r; r = (if quotes then skip_char quote_char r else r)
                         in if at_end r then Some (m, n) else None)))"

subsection \<open>Names of files\<close>

text \<open>
  \<open>fnmatch.fnmatch\<close> of a system with case-sensitive names: \<open>*\<close>, \<open>?\<close> and sets of characters and ranges, of which an
  empty one matches nothing and the negation of an empty one anything.
\<close>

datatype glob_part =
    Star
  | AnyChar
  | OneOf bool "(char \<times> char) list"
  | Lit char

fun set_ranges :: "string \<Rightarrow> (char \<times> char) list" where
  "set_ranges (x # c # y # rest) =
     (if c = CHR ''-'' then (x, y) # set_ranges rest else (x, x) # set_ranges (c # y # rest))"
| "set_ranges (x # rest) = (x, x) # set_ranges rest"
| "set_ranges [] = []"

text \<open>The text of a set, after its opening bracket, and what follows it; \<open>None\<close> when it is not closed.\<close>

definition bracket_end :: "string \<Rightarrow> (string \<times> string) option" where
  "bracket_end s =
     (let neg = (case s of [] \<Rightarrow> 0 | c # _ \<Rightarrow> if c = CHR ''!'' then 1 else 0);
          skip = (case drop neg s of [] \<Rightarrow> neg | c # _ \<Rightarrow> if c = CHR '']'' then Suc neg else neg);
          body = takeWhile (\<lambda>c. c \<noteq> CHR '']'') (drop skip s)
      in if skip + length body < length s then Some (take skip s @ body, drop (Suc (skip + length body)) s) else None)"

definition set_part :: "string \<Rightarrow> glob_part" where
  "set_part body =
     (case body of
        [] \<Rightarrow> OneOf False []
      | c # rest \<Rightarrow> if c = CHR ''!'' then OneOf True (set_ranges rest) else OneOf False (set_ranges body))"

lemma bracket_end_shorter: "bracket_end s = Some (b, r) \<Longrightarrow> length r < length s"
  by (auto simp: bracket_end_def Let_def split: if_splits)

function glob_parts :: "string \<Rightarrow> glob_part list" where
  "glob_parts [] = []"
| "glob_parts (c # cs) =
     (if c = CHR ''*'' then Star # glob_parts cs
      else if c = CHR ''?'' then AnyChar # glob_parts cs
      else if c = CHR ''['' then
        (case bracket_end cs of
           Some (body, rest) \<Rightarrow> set_part body # glob_parts rest
         | None \<Rightarrow> Lit c # glob_parts cs)
      else Lit c # glob_parts cs)"
  by pat_completeness auto
termination
  by (relation "measure length") (auto dest: bracket_end_shorter)

definition in_ranges :: "char \<Rightarrow> (char \<times> char) list \<Rightarrow> bool" where
  "in_ranges c rs = list_ex (\<lambda>(a, b). of_char a \<le> (of_char c :: nat) \<and> of_char c \<le> (of_char b :: nat)) rs"

fun part_matches :: "glob_part \<Rightarrow> char \<Rightarrow> bool" where
  "part_matches Star c = False"
| "part_matches AnyChar c = True"
| "part_matches (OneOf neg rs) c = (in_ranges c rs \<noteq> neg)"
| "part_matches (Lit d) c = (c = d)"

fun glob_match :: "glob_part list \<Rightarrow> string \<Rightarrow> bool" where
  "glob_match [] s = (s = [])"
| "glob_match (Star # ps) [] = glob_match ps []"
| "glob_match (Star # ps) (c # s) = (glob_match ps (c # s) \<or> glob_match (Star # ps) s)"
| "glob_match (p # ps) [] = False"
| "glob_match (p # ps) (c # s) = (part_matches p c \<and> glob_match ps s)"

definition fnmatch :: "string \<Rightarrow> string \<Rightarrow> bool" where
  "fnmatch name pat = glob_match (glob_parts pat) name"

subsection \<open>Patterns\<close>

definition has_bracket :: "string \<Rightarrow> bool" where
  "has_bracket s =
     list_ex (\<lambda>i. case drop i s of
         [] \<Rightarrow> False
       | c # rest \<Rightarrow> c = CHR ''['' \<and> CHR '']'' \<in> set (drop 1 (takeWhile (\<lambda>c. c \<noteq> newline_char) rest))) [0..<length s]"

definition is_regex_pattern :: "string \<Rightarrow> bool" where
  "is_regex_pattern pattern =
     (list_ex (str_contains pattern)
        [''|'', ''.*'', ''.+'', ''.?'', [backslash_char, CHR ''d''], [backslash_char, CHR ''w''], [backslash_char, CHR ''s'']]
      \<or> has_bracket pattern)"

text \<open>The two replacements of the code replace the same text.\<close>

fun replace_escaped_pipe :: "string \<Rightarrow> string" where
  "replace_escaped_pipe (a # b # s) =
     (if a = backslash_char \<and> b = CHR ''|'' then CHR ''|'' # replace_escaped_pipe s else a # replace_escaped_pipe (b # s))"
| "replace_escaped_pipe s = s"

definition normalize_regex :: "string \<Rightarrow> string" where
  "normalize_regex pattern = replace_escaped_pipe (replace_escaped_pipe pattern)"

definition MAX_REGEX_QUANTIFIER_COUNT :: int where
  "MAX_REGEX_QUANTIFIER_COUNT = 2000"

definition MAX_REGEX_QUANTIFIER_EXPANSION :: int where
  "MAX_REGEX_QUANTIFIER_EXPANSION = 100000"

text \<open>The first numbers of the counted quantifiers \<open>{m}\<close>, \<open>{m,}\<close> and \<open>{m,n}\<close> behind no backslash.\<close>

definition counted_quantifier :: "string \<Rightarrow> string option" where
  "counted_quantifier s =
     (let count = takeWhile is_decimal s;
          rest = dropWhile is_decimal s;
          rest = (case rest of [] \<Rightarrow> [] | c # r \<Rightarrow> if c = CHR '','' then dropWhile is_decimal r else rest)
      in if count \<noteq> [] \<and> starts_with rest ''}'' then Some count else None)"

fun quantifier_counts :: "bool \<Rightarrow> string \<Rightarrow> string list" where
  "quantifier_counts escaped [] = []"
| "quantifier_counts escaped (c # s) =
     (case (if c = CHR ''{'' \<and> \<not> escaped then counted_quantifier s else None) of
        Some count \<Rightarrow> count # quantifier_counts False s
      | None \<Rightarrow> quantifier_counts (c = backslash_char) s)"

fun check_quantifiers :: "int \<Rightarrow> string list \<Rightarrow> string option" where
  "check_quantifiers expansion [] = None"
| "check_quantifiers expansion (count_text # rest) =
     (let count = (if length count_text \<le> 6
                   then (case digits_int 0 count_text of Some n \<Rightarrow> n | None \<Rightarrow> 0) else MAX_REGEX_QUANTIFIER_COUNT + 1)
      in if count > MAX_REGEX_QUANTIFIER_COUNT then Some ''Regex quantifier counts over 2000 are not supported''
         else if expansion * max count 1 > MAX_REGEX_QUANTIFIER_EXPANSION
         then Some ''Regex quantifiers expand too much, lower the counts''
         else check_quantifiers (expansion * max count 1) rest)"

definition validate_regex_quantifiers :: "string \<Rightarrow> string option" where
  "validate_regex_quantifiers pattern = check_quantifiers 1 (quantifier_counts False pattern)"

text \<open>
  The argument of a search is the line and the time left; it returns the answer, or nothing when the time ran out, and
  the time it took. A shell error is the end of that time, the end of the interpreter's stack, or an exception.
\<close>

type_synonym line_search = "string \<Rightarrow> int \<Rightarrow> bool option \<times> int"
type_synonym search_engine = "string \<Rightarrow> bool \<Rightarrow> string + line_search"

datatype shell_error =
    BudgetExceeded
  | TooDeep
  | Raised py_error

type_synonym 'a shell = "shell_error + 'a"

datatype matcher =
    Contains bool string
  | Searches line_search

definition build_matcher :: "search_engine \<Rightarrow> string \<Rightarrow> bool \<Rightarrow> bool \<Rightarrow> string + matcher" where
  "build_matcher compile pattern case_insensitive use_regex =
     (if use_regex \<or> is_regex_pattern pattern
      then (let normalized = normalize_regex pattern
            in case validate_regex_quantifiers normalized of
                 Some e \<Rightarrow> Inl e
               | None \<Rightarrow>
                   (case compile normalized case_insensitive of
                      Inl e \<Rightarrow> Inl (''Invalid regex: '' @ e)
                    | Inr search \<Rightarrow> Inr (Searches search)))
      else Inr (Contains case_insensitive (if case_insensitive then str_lower pattern else pattern)))"

fun matches_line :: "matcher \<Rightarrow> string \<Rightarrow> int \<Rightarrow> (bool \<times> int) shell" where
  "matches_line (Contains case_insensitive sp) line budget =
     Inr (str_contains (if case_insensitive then str_lower line else line) sp, budget)"
| "matches_line (Searches search) line budget =
     (if budget \<le> 0 then Inl BudgetExceeded
      else (case search line budget of
              (None, _) \<Rightarrow> Inl BudgetExceeded
            | (Some b, took) \<Rightarrow> Inr (b, budget - took)))"

text \<open>The lines of a text that match, with their numbers, and the time left.\<close>

fun matching_lines :: "matcher \<Rightarrow> nat \<Rightarrow> string list \<Rightarrow> int \<Rightarrow> ((nat \<times> string) list \<times> int) shell" where
  "matching_lines m i [] budget = Inr ([], budget)"
| "matching_lines m i (line # ls) budget =
     rbind (matches_line m line budget) (\<lambda>(b, budget).
     rbind (matching_lines m (Suc i) ls budget) (\<lambda>(found, budget).
       Inr (if b then (i, line) # found else found, budget)))"

subsection \<open>Reading back a command line\<close>

text \<open>A plain word: no space, quote, backslash or pipe.\<close>

definition plain_char :: "char \<Rightarrow> bool" where
  "plain_char c =
     (\<not> is_space_char c \<and> c \<noteq> quote_char \<and> c \<noteq> dquote_char \<and> c \<noteq> backslash_char \<and> c \<noteq> CHR ''|'')"

definition plain_word :: "string \<Rightarrow> bool" where
  "plain_word w = (w \<noteq> [] \<and> list_all plain_char w)"

lemma shlex_spaces_are_spaces: "is_shlex_space c \<Longrightarrow> is_space_char c"
  by (auto simp: is_shlex_space_def is_space_char_def)

lemma space_is_space [simp]: "is_space_char (CHR '' '')" "is_shlex_space (CHR '' '')"
  by code_simp+

lemma plain_char_not [simp]:
  assumes "plain_char c"
  shows "\<not> is_shlex_space c" and "c \<noteq> quote_char" and "c \<noteq> dquote_char" and "c \<noteq> backslash_char"
    and "c \<noteq> CHR ''|''" and "\<not> is_space_char c"
  using assms shlex_spaces_are_spaces [of c] unfolding plain_char_def by blast+

lemma shlex_in_word:
  "list_all plain_char w \<Longrightarrow> shlex_scan InWord token False (w @ rest) = shlex_scan InWord (token @ w) False rest"
  by (induction w arbitrary: token) simp_all

lemma shlex_word:
  assumes "plain_word w"
  shows "shlex_scan Between [] False (w @ rest) = shlex_scan InWord w False rest"
proof -
  from assms obtain c cs where w: "w = c # cs" "plain_char c" "list_all plain_char cs"
    by (cases w) (auto simp: plain_word_def)
  then show ?thesis using shlex_in_word [of cs "[c]" rest] by simp
qed

lemma shlex_words:
  "list_all plain_word ws \<Longrightarrow> shlex_split (str_join '' '' ws) = Some ws"
  unfolding shlex_split_def
proof (induction ws rule: induct_list012)
  case (2 w)
  then show ?case using shlex_word [of w "[]"] by (simp add: end_word_def plain_word_def)
next
  case (3 w x ws)
  then have "shlex_scan Between [] False (str_join '' '' (w # x # ws)) = map_option ((@) (end_word w False)) (Some (x # ws))"
    using shlex_word [of w "'' '' @ str_join '' '' (x # ws)"] by simp
  with 3 show ?case by (simp add: end_word_def plain_word_def)
qed simp

abbreviation unquoted_char :: "char \<Rightarrow> bool" where
  "unquoted_char \<equiv> \<lambda>c. c \<noteq> quote_char \<and> c \<noteq> dquote_char \<and> c \<noteq> CHR ''|''"

text \<open>What holds neither quotes nor pipes goes into the current segment.\<close>

lemma split_pipes_run:
  "list_all unquoted_char s \<Longrightarrow>
    split_pipes False False buf (s @ rest) = split_pipes False False (buf @ s) rest"
  by (induction s arbitrary: buf) simp_all

lemma strip_spaces:
  assumes s: "s \<noteq> []" "\<not> is_space_char (hd s)" "\<not> is_space_char (last s)"
    and a: "list_all is_space_char a" and b: "list_all is_space_char b"
  shows "str_strip (a @ s @ b) = s"
proof -
  have drop: "list_all is_space_char x \<Longrightarrow> y \<noteq> [] \<Longrightarrow> \<not> is_space_char (hd y) \<Longrightarrow> dropWhile is_space_char (x @ y) = y"
    for x y
    by (induction x) (auto simp: dropWhile_eq_self_iff)
  have "dropWhile is_space_char (a @ s @ b) = s @ b" using s a by (intro drop) simp_all
  moreover have "dropWhile is_space_char (rev b @ rev s) = rev s"
    using s b by (intro drop) (simp_all add: hd_rev)
  ultimately show ?thesis by (simp add: str_strip_def)
qed

abbreviation joined :: "string list \<Rightarrow> string" where
  "joined ws \<equiv> str_join '' '' ws"

definition plain_segment :: "string list \<Rightarrow> bool" where
  "plain_segment ws = (ws \<noteq> [] \<and> list_all plain_word ws)"

lemma plain_word_unquoted: "plain_word w \<Longrightarrow> list_all unquoted_char w"
  unfolding plain_word_def by (erule conjE, erule list.pred_mono_strong) simp

lemma plain_segment_joined:
  assumes "plain_segment ws"
  shows "joined ws \<noteq> []" and "\<not> is_space_char (hd (joined ws))" and "\<not> is_space_char (last (joined ws))"
    and "list_all unquoted_char (joined ws)"
proof -
  have words: "w \<noteq> []" "plain_char (hd w)" "plain_char (last w)" if "w \<in> set ws" for w
    using assms that by (auto simp: plain_segment_def plain_word_def list_all_iff)
  have ne: "ws \<noteq> []" using assms by (simp add: plain_segment_def)
  then have e: "joined ws \<noteq> [] \<and> hd (joined ws) = hd (hd ws) \<and> last (joined ws) = last (last ws)"
    using words(1) by (intro join_ends) auto
  then show "joined ws \<noteq> []" "\<not> is_space_char (hd (joined ws))" "\<not> is_space_char (last (joined ws))"
    using ne words by simp_all
  have "list_all plain_word ws" using assms by (simp add: plain_segment_def)
  then show "list_all unquoted_char (joined ws)"
    by (induction ws rule: induct_list012) (simp_all add: plain_word_unquoted)
qed

lemma split_pipes_segments:
  "list_all plain_segment segs \<Longrightarrow> list_all is_space_char buf \<Longrightarrow> segs \<noteq> [] \<Longrightarrow>
    split_pipes False False buf (str_join '' | '' (map joined segs)) = map joined segs"
proof (induction segs arbitrary: buf rule: induct_list012)
  case (2 ws)
  then show ?case
    using split_pipes_run [of "joined ws" buf "[]"] plain_segment_joined [of ws] strip_spaces [of "joined ws" buf "[]"]
    by simp
next
  case (3 ws x segs)
  let ?rest = "str_join '' | '' (map joined (x # segs))"
  have "str_join '' | '' (map joined (ws # x # segs)) = joined ws @ '' | '' @ ?rest" by simp
  moreover have "split_pipes False False buf (joined ws @ '' | '' @ ?rest)
      = str_strip (buf @ joined ws @ '' '') # split_pipes False False [] ('' '' @ ?rest)"
    using 3 split_pipes_run [of "joined ws" buf "'' | '' @ ?rest"] plain_segment_joined [of ws] by simp
  moreover have "split_pipes False False [] ('' '' @ ?rest) = split_pipes False False '' '' ?rest" by simp
  moreover have "str_strip (buf @ joined ws @ '' '') = joined ws"
    using 3 plain_segment_joined [of ws] by (intro strip_spaces) simp_all
  moreover have "split_pipes False False '' '' ?rest = map joined (x # segs)"
    using 3 by (intro "3.IH"(2)) simp_all
  ultimately show ?case by simp
qed simp

text \<open>
  C36. A command line of plain words is read back as it was written: joining the words of each command with blanks and
  the commands with pipes, and parsing the result, gives the commands with their words.
\<close>

theorem plain_commands_are_read_back:
  assumes "list_all (\<lambda>ws. ws \<noteq> [] \<and> list_all plain_word ws) segs"
  shows "parse_pipeline (str_join '' | '' (map (str_join '' '') segs)) = segs"
proof (cases "segs = []")
  case True
  then show ?thesis by (simp add: parse_pipeline_def str_strip_def)
next
  case False
  have plain: "list_all plain_segment segs" using assms by (simp add: plain_segment_def [abs_def])
  then have split: "split_pipes False False [] (str_join '' | '' (map joined segs)) = map joined segs"
    using False by (intro split_pipes_segments) simp_all
  have ne: "filter (\<lambda>s. s \<noteq> []) (map joined segs) = map joined segs"
    using plain plain_segment_joined(1) by (auto simp: filter_id_conv list_all_iff)
  have "map (segment_tokens \<circ> joined) segs = segs"
    using plain by (intro map_idI) (simp add: segment_tokens_def shlex_words plain_segment_def list_all_iff)
  moreover have "filter (\<lambda>tokens. tokens \<noteq> []) segs = segs"
    using plain by (auto simp: filter_id_conv list_all_iff plain_segment_def)
  ultimately show ?thesis by (simp add: parse_pipeline_def split ne)
qed

lemma plain_commands_are_read_back_witness:
  "parse_pipeline ''grep -n rate /docs | head -5'' = [[''grep'', ''-n'', ''rate'', ''/docs''], [''head'', ''-5'']]"
proof -
  have "list_all (\<lambda>ws. ws \<noteq> [] \<and> list_all plain_word ws) [[''grep'', ''-n'', ''rate'', ''/docs''], [''head'', ''-5'']]"
    by code_simp
  from plain_commands_are_read_back [OF this] show ?thesis by simp
qed

text \<open>A quote behind a backslash opens no quotes for the words, but does for the pipes.\<close>

lemma escaped_quote_hides_the_pipe:
  "parse_pipeline (''grep it'' @ [backslash_char, quote_char] @ ''s | head'')
    = [[''grep'', ''it'' @ [quote_char] @ ''s'', ''|'', ''head'']]"
  by code_simp

end
