(* ===== verification/Knowledge_Tree.thy ===== *)
theory Knowledge_Tree
  imports Knowledge_Directories Shell_Text "HOL-Library.Char_ord" "HOL-Library.List_Lexorder" "HOL-Library.Multiset"
begin

section \<open>Paths and trees of a knowledge base\<close>

text \<open>
  Models the directory tree that \<open>tools/knowledge_fs.py\<close> builds of a knowledge base, the walk along a path that asks
  the database level by level, and the two searches for the directories below one. The recursions of the code that
  have no bound of their own get \<open>limit\<close>, the depth at which the interpreter gives up.
\<close>

subsection \<open>Files with their directory\<close>

record kb_file =
  kb_id :: string
  kb_filename :: string
  kb_data :: "pydict option"
  kb_meta :: "pydict option"
  kb_created_at :: "int option"
  kb_updated_at :: "int option"

definition get_kb_file :: "kb_file list \<Rightarrow> string \<Rightarrow> kb_file option" where
  "get_kb_file fs i = find (\<lambda>f. kb_id f = i) fs"

definition get_files_with_directories ::
    "string \<Rightarrow> knowledge_file_row list \<Rightarrow> kb_file list \<Rightarrow> (kb_file \<times> string option) list"
where
  "get_files_with_directories knowledge_id ls fs =
     concat (map (\<lambda>l. case get_kb_file fs (kf_file_id l) of None \<Rightarrow> [] | Some f \<Rightarrow> [(f, kf_directory_id l)])
       (filter (\<lambda>l. kf_knowledge_id l = knowledge_id) ls))"

definition meta_get :: "kb_file \<Rightarrow> string \<Rightarrow> pyval" where
  "meta_get f k = (case kb_meta f of None \<Rightarrow> PNone | Some m \<Rightarrow> dget m k)"

subsection \<open>The tree\<close>

record tree_file =
  tf_id :: string
  tf_filename :: string
  tf_path :: string
  tf_directory_id :: "string option"
  tf_size :: pyval
  tf_type :: pyval
  tf_updated_at :: "int option"

record directory_tree =
  dt_dirs :: "(string \<times> directory_row) list"
  dt_files :: "tree_file list"
  dt_path_to_dir_id :: "(string \<times> string) list"
  dt_dir_id_to_path :: "(string \<times> string) list"

text \<open>The path of a directory, with the paths computed before it.\<close>

fun get_dir_path ::
    "nat \<Rightarrow> (string \<times> directory_row) list \<Rightarrow> string \<Rightarrow> (string \<times> string) list \<Rightarrow> (string \<times> (string \<times> string) list) shell"
where
  "get_dir_path 0 dir_map dir_id paths = Inl TooDeep"
| "get_dir_path (Suc limit) dir_map dir_id paths =
     (case map_of paths dir_id of
        Some path \<Rightarrow> Inr (path, paths)
      | None \<Rightarrow>
          (case map_of dir_map dir_id of
             None \<Rightarrow> Inr ([], paths)
           | Some d \<Rightarrow>
               rbind (case kd_parent_id d of
                        Some p \<Rightarrow>
                          if p \<noteq> [] \<and> p \<in> fst ` set dir_map
                          then rbind (get_dir_path limit dir_map p paths) (\<lambda>(parent_path, paths).
                            Inr (if parent_path \<noteq> [] then parent_path @ ''/'' @ kd_name d else kd_name d, paths))
                          else Inr (kd_name d, paths)
                      | None \<Rightarrow> Inr (kd_name d, paths))
                 (\<lambda>(path, paths). Inr (path, dset dir_id path paths))))"

definition dir_paths :: "nat \<Rightarrow> (string \<times> directory_row) list \<Rightarrow> (string \<times> string) list shell" where
  "dir_paths limit dir_map =
     rfold (\<lambda>dir_id paths. rbind (get_dir_path limit dir_map dir_id paths) (\<lambda>(_, paths). Inr paths)) (map fst dir_map) []"

definition tree_file_of :: "(string \<times> string) list \<Rightarrow> kb_file \<times> string option \<Rightarrow> tree_file" where
  "tree_file_of paths = (\<lambda>(f, directory_id).
     \<lparr>tf_id = kb_id f, tf_filename = kb_filename f,
      tf_path = (case directory_id of
          Some i \<Rightarrow> (if i \<noteq> [] then case map_of paths i of Some p \<Rightarrow> p @ ''/'' @ kb_filename f | None \<Rightarrow> kb_filename f
                     else kb_filename f)
        | None \<Rightarrow> kb_filename f),
      tf_directory_id = directory_id, tf_size = meta_get f ''size'', tf_type = meta_get f ''content_type'',
      tf_updated_at = kb_updated_at f\<rparr>)"

definition build_directory_tree ::
    "nat \<Rightarrow> (string \<Rightarrow> int) \<Rightarrow> string \<Rightarrow> directory_row list \<Rightarrow> knowledge_file_row list \<Rightarrow> kb_file list \<Rightarrow> directory_tree shell"
where
  "build_directory_tree limit rank knowledge_id ds ls fs =
     (let dir_map = fold (\<lambda>d m. dset (kd_id d) d m) (get_all_directories rank knowledge_id ds) []
      in rbind (dir_paths limit dir_map) (\<lambda>paths.
           Inr \<lparr>dt_dirs = dir_map,
                dt_files = map (tree_file_of paths) (get_files_with_directories knowledge_id ls fs),
                dt_path_to_dir_id = fold (\<lambda>(i, path) m. dset path i m) paths [],
                dt_dir_id_to_path = paths\<rparr>))"

definition resolve_path :: "string \<Rightarrow> directory_tree \<Rightarrow> string option" where
  "resolve_path path tree = map_of (dt_path_to_dir_id tree) (strip_char (CHR ''/'') path)"

definition get_files_in_dir :: "directory_tree \<Rightarrow> string option \<Rightarrow> tree_file list" where
  "get_files_in_dir tree dir_id = filter (\<lambda>f. tf_directory_id f = dir_id) (dt_files tree)"

text \<open>
  Directories below one, in the order of their names as the interpreter compares them: by code points, where
  the database has its collation.
\<close>

definition get_subdirs :: "directory_tree \<Rightarrow> string option \<Rightarrow> directory_row list" where
  "get_subdirs tree parent_id =
     sort_key kd_name (filter (\<lambda>d. kd_parent_id d = parent_id) (map snd (dt_dirs tree)))"

text \<open>One pass of the loop over all directories, and passes until nothing changes.\<close>

definition add_below :: "directory_row \<Rightarrow> string set \<Rightarrow> string set" where
  "add_below d ids =
     (if (case kd_parent_id d of None \<Rightarrow> False | Some p \<Rightarrow> p \<in> ids) \<and> kd_id d \<notin> ids then insert (kd_id d) ids else ids)"

definition below_pass :: "directory_row list \<Rightarrow> string set \<Rightarrow> string set" where
  "below_pass ds target_ids = fold add_below ds target_ids"

lemma below_pass_grows: "ids \<subseteq> below_pass ds ids" "below_pass ds ids \<subseteq> ids \<union> kd_id ` set ds"
proof -
  have step: "ids \<subseteq> add_below d ids \<and> add_below d ids \<subseteq> insert (kd_id d) ids" for d ids
    by (auto simp: add_below_def)
  have "ids \<subseteq> below_pass ds ids \<and> below_pass ds ids \<subseteq> ids \<union> kd_id ` set ds"
    unfolding below_pass_def
  proof (induction ds arbitrary: ids)
    case (Cons d ds)
    from Cons [of "add_below d ids"] step [of ids d] show ?case by auto
  qed simp
  then show "ids \<subseteq> below_pass ds ids" "below_pass ds ids \<subseteq> ids \<union> kd_id ` set ds" by blast+
qed

function dirs_below :: "directory_row list \<Rightarrow> string set \<Rightarrow> string set" where
  "dirs_below ds target_ids =
     (let new_ids = below_pass ds target_ids in if new_ids = target_ids then target_ids else dirs_below ds new_ids)"
  by pat_completeness auto
termination
proof (relation "measure (\<lambda>(ds, ids). card (kd_id ` set ds - ids))")
  fix ds :: "directory_row list" and ids new
  assume new: "new = below_pass ds ids" "new \<noteq> ids"
  then have "ids \<subset> new" "new \<subseteq> ids \<union> kd_id ` set ds" using below_pass_grows [where ids = ids and ds = ds] by auto
  then have "kd_id ` set ds - new \<subset> kd_id ` set ds - ids" by blast
  then show "((ds, new), ds, ids) \<in> measure (\<lambda>(ds, ids). card (kd_id ` set ds - ids))"
    by (simp add: psubset_card_mono)
qed simp

declare dirs_below.simps [simp del]

definition get_files_under_dir :: "directory_tree \<Rightarrow> string \<Rightarrow> tree_file list" where
  "get_files_under_dir tree dir_id =
     (let target_ids = dirs_below (map snd (dt_dirs tree)) {dir_id}
      in filter (\<lambda>f. \<exists>i \<in> target_ids. tf_directory_id f = Some i) (dt_files tree))"

subsection \<open>Walking the database\<close>

fun walk_path ::
    "(string \<Rightarrow> int) \<Rightarrow> string \<Rightarrow> directory_row list \<Rightarrow> string option \<Rightarrow> string list \<Rightarrow> string option option"
where
  "walk_path rank knowledge_id ds current_parent [] = Some current_parent"
| "walk_path rank knowledge_id ds current_parent (part # parts) =
     (case find (\<lambda>d. kd_name d = part) (get_directories rank knowledge_id current_parent ds) of
        None \<Rightarrow> None
      | Some d \<Rightarrow> walk_path rank knowledge_id ds (Some (kd_id d)) parts)"

definition resolve_dir_path :: "(string \<Rightarrow> int) \<Rightarrow> directory_row list \<Rightarrow> string \<Rightarrow> string \<Rightarrow> string option" where
  "resolve_dir_path rank ds path knowledge_id =
     (case walk_path rank knowledge_id ds None (str_split (CHR ''/'') (strip_char (CHR ''/'') path)) of
        None \<Rightarrow> None | Some i \<Rightarrow> i)"

definition push_unseen :: "string list \<Rightarrow> string set \<times> string list \<Rightarrow> string set \<times> string list" where
  "push_unseen children st =
     fold (\<lambda>i (result, queue). if i \<notin> result then (insert i result, queue @ [i]) else (result, queue)) children st"

definition child_dirs :: "(string \<Rightarrow> int) \<Rightarrow> string \<Rightarrow> directory_row list \<Rightarrow> string \<Rightarrow> string list" where
  "child_dirs rank knowledge_id ds parent = map kd_id (get_directories rank knowledge_id (Some parent) ds)"

definition pending :: "directory_row list \<Rightarrow> string set \<times> string list \<Rightarrow> nat" where
  "pending ds = (\<lambda>(result, queue). card (kd_id ` set ds - result) + length queue)"

lemma push_unseen_pending:
  "set children \<subseteq> kd_id ` set ds \<Longrightarrow> pending ds (push_unseen children st) = pending ds st"
proof (induction children arbitrary: st)
  case (Cons i children)
  obtain result queue where st: "st = (result, queue)" by (cases st)
  let ?st = "if i \<notin> result then (insert i result, queue @ [i]) else (result, queue)"
  have "pending ds ?st = pending ds st"
  proof (cases "i \<in> result")
    case False
    have i: "i \<in> kd_id ` set ds - result" using Cons.prems False by simp
    have "kd_id ` set ds - insert i result = (kd_id ` set ds - result) - {i}" by blast
    then have "card (kd_id ` set ds - insert i result) + 1 = card (kd_id ` set ds - result)"
      using i card_Suc_Diff1 [of "kd_id ` set ds - result" i] by simp
    with False show ?thesis by (simp add: pending_def st)
  qed (simp add: st)
  moreover have "push_unseen (i # children) st = push_unseen children ?st" by (simp add: push_unseen_def st)
  ultimately show ?case using Cons by simp
qed (simp add: push_unseen_def)

lemma child_dirs_in: "set (child_dirs rank knowledge_id ds parent) \<subseteq> kd_id ` set ds"
  by (auto simp: child_dirs_def get_directories_def)

function descend_dirs :: "(string \<Rightarrow> int) \<Rightarrow> string \<Rightarrow> directory_row list \<Rightarrow> string set \<times> string list \<Rightarrow> string set" where
  "descend_dirs rank knowledge_id ds (result, queue) =
     (if queue = [] then result
      else descend_dirs rank knowledge_id ds
             (push_unseen (child_dirs rank knowledge_id ds (last queue)) (result, butlast queue)))"
  by pat_completeness auto
termination
  by (relation "measure (\<lambda>(_, _, ds, st). pending ds st)")
    (auto simp: push_unseen_pending child_dirs_in, simp add: pending_def)

declare descend_dirs.simps [simp del]

definition get_descendant_dir_ids :: "(string \<Rightarrow> int) \<Rightarrow> directory_row list \<Rightarrow> string \<Rightarrow> string \<Rightarrow> string set" where
  "get_descendant_dir_ids rank ds dir_id knowledge_id = descend_dirs rank knowledge_id ds ({dir_id}, [dir_id])"

subsection \<open>What the searches find\<close>

definition kb_dirs :: "string \<Rightarrow> directory_row list \<Rightarrow> directory_row list" where
  "kb_dirs knowledge_id ds = filter (\<lambda>d. kd_knowledge_id d = knowledge_id) ds"

lemma set_kb_dirs [simp]: "d \<in> set (kb_dirs k ds) \<longleftrightarrow> d \<in> set ds \<and> kd_knowledge_id d = k"
  by (simp add: kb_dirs_def)

lemma set_get_directories:
  "set (get_directories rank k parent ds) =
    {d \<in> set (kb_dirs k ds). if parent \<noteq> None \<and> parent \<noteq> Some [] then kd_parent_id d = parent else kd_parent_id d = None}"
  by (auto simp: get_directories_def)

lemma set_child_dirs: "p \<noteq> [] \<Longrightarrow> set (child_dirs rank k ds p) = {c. (p, c) \<in> links (kb_dirs k ds)}"
  by (force simp: child_dirs_def set_get_directories links_def)

text \<open>
  A set holds what is linked from the start, and of its members, those not waiting have their children in it. With nothing
  waiting it is the subtree.
\<close>

definition explored :: "directory_row list \<Rightarrow> string \<Rightarrow> string set \<Rightarrow> string set \<Rightarrow> bool" where
  "explored ds i found waiting =
     (i \<in> found \<and> waiting \<subseteq> found \<and> found \<subseteq> subtree ds i \<and>
      (\<forall>p \<in> found - waiting. \<forall>c. (p, c) \<in> links ds \<longrightarrow> c \<in> found))"

lemma explored_all: "explored ds i found {} \<Longrightarrow> found = subtree ds i"
proof
  assume e: "explored ds i found {}"
  show "subtree ds i \<subseteq> found"
  proof
    fix c assume "c \<in> subtree ds i"
    then have "(i, c) \<in> (links ds)\<^sup>*" by (simp add: subtree_def)
    then show "c \<in> found" using e by (induction rule: rtrancl_induct) (auto simp: explored_def)
  qed
qed (simp add: explored_def)

lemma subtree_child: "p \<in> subtree ds i \<Longrightarrow> (p, c) \<in> links ds \<Longrightarrow> c \<in> subtree ds i"
  by (auto simp: subtree_def intro: rtrancl_into_rtrancl)

lemma push_unseen_sets:
  "set (snd (push_unseen children (result, queue))) = set queue \<union> (set children - result) \<and>
   fst (push_unseen children (result, queue)) = result \<union> set children"
proof (induction children arbitrary: result queue)
  case (Cons i children)
  have "push_unseen (i # children) (result, queue) =
      push_unseen children (if i \<notin> result then (insert i result, queue @ [i]) else (result, queue))"
    by (simp add: push_unseen_def)
  with Cons.IH show ?case by (auto simp: Cons.IH)
qed (simp add: push_unseen_def)

lemma explored_step:
  assumes e: "explored (kb_dirs k ds) i result (insert p waiting)" and p: "p \<noteq> []"
    and st: "st = push_unseen (child_dirs rank k ds p) (result, queue)" "set queue = waiting"
  shows "explored (kb_dirs k ds) i (fst st) (set (snd st))"
proof -
  let ?L = "links (kb_dirs k ds)"
  have f: "fst st = result \<union> {c. (p, c) \<in> ?L}" "set (snd st) = waiting \<union> ({c. (p, c) \<in> ?L} - result)"
    using push_unseen_sets [of "child_dirs rank k ds p" result queue]
    by (simp_all add: st(1) set_child_dirs [OF p] st(2) [symmetric])
  have "p \<in> result" "p \<in> subtree (kb_dirs k ds) i" using e by (auto simp: explored_def)
  then have "{c. (p, c) \<in> ?L} \<subseteq> subtree (kb_dirs k ds) i" by (auto intro: subtree_child)
  then show ?thesis using e unfolding f explored_def by blast
qed

lemma descend_subtree:
  "explored (kb_dirs k ds) i (fst st) (set (snd st)) \<Longrightarrow> [] \<notin> set (snd st) \<union> kd_id ` set (kb_dirs k ds) \<Longrightarrow>
    descend_dirs rank k ds st = subtree (kb_dirs k ds) i"
proof (induction rank k ds st rule: descend_dirs.induct)
  case (1 rank k ds result queue)
  show ?case
  proof (cases queue rule: rev_exhaust)
    case Nil
    with 1 explored_all show ?thesis by (subst descend_dirs.simps) fastforce
  next
    case (snoc qs p)
    let ?st = "push_unseen (child_dirs rank k ds p) (result, qs)"
    have p: "p \<noteq> []" using 1(3) snoc by auto
    have e: "explored (kb_dirs k ds) i (fst ?st) (set (snd ?st))"
      by (rule explored_step [OF _ p refl refl]) (use 1(2) snoc in simp)
    have "set (snd ?st) \<subseteq> set queue \<union> kd_id ` set (kb_dirs k ds)"
      using push_unseen_sets [of "child_dirs rank k ds p" result qs] links_in_ids
      by (auto simp: snoc set_child_dirs [OF p])
    then have "[] \<notin> set (snd ?st) \<union> kd_id ` set (kb_dirs k ds)" using 1(3) by auto
    with 1(1) e snoc show ?thesis by (subst descend_dirs.simps) simp
  qed
qed

lemma descendants_are_the_subtree:
  assumes "[] \<notin> kd_id ` set (kb_dirs k ds)" "i \<noteq> []"
  shows "get_descendant_dir_ids rank ds i k = subtree (kb_dirs k ds) i"
  unfolding get_descendant_dir_ids_def
  by (rule descend_subtree) (use assms in \<open>auto simp: explored_def subtree_def\<close>)

text \<open>The loop over the tree: a pass that changes nothing has found all.\<close>

lemma below_pass_sound: "ids \<subseteq> subtree ds i \<Longrightarrow> set es \<subseteq> set ds \<Longrightarrow> below_pass es ids \<subseteq> subtree ds i"
proof (induction es arbitrary: ids)
  case (Cons d es)
  have "add_below d ids \<subseteq> subtree ds i"
  proof (cases "\<exists>p \<in> ids. kd_parent_id d = Some p")
    case True
    then obtain p where "p \<in> ids" "(p, kd_id d) \<in> links ds" using linksI Cons.prems(2) by auto
    with Cons.prems(1) subtree_child have "kd_id d \<in> subtree ds i" by blast
    with Cons.prems(1) show ?thesis by (simp add: add_below_def)
  next
    case False
    with Cons.prems(1) show ?thesis by (auto simp: add_below_def split: option.splits)
  qed
  with Cons show ?case by (simp add: below_pass_def)
qed (simp add: below_pass_def)

lemma below_pass_closed:
  assumes "below_pass es ids = ids" "d \<in> set es" "kd_parent_id d = Some p" "p \<in> ids"
  shows "kd_id d \<in> ids"
proof -
  obtain as bs where es: "es = as @ d # bs" using assms(2) by (meson split_list)
  let ?ids = "below_pass as ids"
  have "ids \<subseteq> ?ids" by (rule below_pass_grows)
  then have "kd_id d \<in> add_below d ?ids" using assms(3,4) by (auto simp: add_below_def)
  also have "add_below d ?ids \<subseteq> below_pass bs (add_below d ?ids)" by (rule below_pass_grows)
  also have "\<dots> = ids" using assms(1) by (simp add: below_pass_def es)
  finally show ?thesis .
qed

lemma dirs_below_subtree: "i \<in> ids \<Longrightarrow> ids \<subseteq> subtree ds i \<Longrightarrow> dirs_below ds ids = subtree ds i"
proof (induction ds ids rule: dirs_below.induct)
  case (1 ds ids)
  show ?case
  proof (cases "below_pass ds ids = ids")
    case True
    have "explored ds i ids {}"
      using 1(2,3) below_pass_closed [OF True] by (auto simp: explored_def links_def)
    with True explored_all show ?thesis by (subst dirs_below.simps) (simp add: Let_def)
  next
    case False
    have "i \<in> below_pass ds ids" "below_pass ds ids \<subseteq> subtree ds i"
      using 1(2,3) below_pass_grows(1) [of ids ds] below_pass_sound [of ids ds i ds] by auto
    with 1(1) False show ?thesis by (subst dirs_below.simps) (simp add: Let_def)
  qed
qed

subsection \<open>Paths name directories\<close>

text \<open>
  A knowledge base whose paths are names: its directories form a forest of their own, siblings differ in name, and no
  name is empty or holds a slash.
\<close>

abbreviation slash_char :: char where "slash_char \<equiv> CHR ''/''"

definition paths_ok :: "directory_row list \<Rightarrow> bool" where
  "paths_ok ds =
     (forest_ok ds \<and> (\<forall>d \<in> set ds. present_in (map kd_id ds) (kd_parent_id d) \<and> kd_name d \<noteq> [] \<and> slash_char \<notin> set (kd_name d))
      \<and> distinct (map (\<lambda>d. (kd_parent_id d, kd_name d)) ds))"

inductive dir_path :: "directory_row list \<Rightarrow> string \<Rightarrow> string list \<Rightarrow> bool" for ds where
  top: "d \<in> set ds \<Longrightarrow> kd_parent_id d = None \<Longrightarrow> dir_path ds (kd_id d) [kd_name d]"
| below: "d \<in> set ds \<Longrightarrow> kd_parent_id d = Some p \<Longrightarrow> dir_path ds p ps \<Longrightarrow> dir_path ds (kd_id d) (ps @ [kd_name d])"

lemma dir_path_id: "dir_path ds i ps \<Longrightarrow> i \<in> kd_id ` set ds"
  by (induction rule: dir_path.induct) auto

lemma dir_path_not_Nil: "dir_path ds i ps \<Longrightarrow> ps \<noteq> []"
  by (induction rule: dir_path.induct) auto

lemma dir_path_names: "dir_path ds i ps \<Longrightarrow> x \<in> set ps \<Longrightarrow> x \<in> kd_name ` set ds"
  by (induction rule: dir_path.induct) auto

lemma paths_ok_unique:
  assumes "paths_ok ds" "d \<in> set ds" "e \<in> set ds"
  shows "kd_id d = kd_id e \<Longrightarrow> d = e" "kd_parent_id d = kd_parent_id e \<Longrightarrow> kd_name d = kd_name e \<Longrightarrow> d = e"
proof -
  have "inj_on kd_id (set ds)" "inj_on (\<lambda>d. (kd_parent_id d, kd_name d)) (set ds)"
    using assms(1) by (simp_all add: paths_ok_def forest_ok_def distinct_map)
  then show "kd_id d = kd_id e \<Longrightarrow> d = e" "kd_parent_id d = kd_parent_id e \<Longrightarrow> kd_name d = kd_name e \<Longrightarrow> d = e"
    using assms(2,3) by (auto dest: inj_onD)
qed

lemma dir_path_snoc:
  assumes ok: "paths_ok ds" and d: "d \<in> set ds"
  shows "dir_path ds (kd_id d) qs \<longleftrightarrow>
    (case kd_parent_id d of None \<Rightarrow> qs = [kd_name d] | Some p \<Rightarrow> \<exists>ps. dir_path ds p ps \<and> qs = ps @ [kd_name d])"
proof
  assume "dir_path ds (kd_id d) qs"
  then show "case kd_parent_id d of None \<Rightarrow> qs = [kd_name d] | Some p \<Rightarrow> \<exists>ps. dir_path ds p ps \<and> qs = ps @ [kd_name d]"
  proof cases
    case (top e)
    with paths_ok_unique(1) [OF ok d top(3)] show ?thesis by simp
  next
    case (below e p ps)
    with paths_ok_unique(1) [OF ok d below(3)] show ?thesis by simp
  qed
next
  assume "case kd_parent_id d of None \<Rightarrow> qs = [kd_name d] | Some p \<Rightarrow> \<exists>ps. dir_path ds p ps \<and> qs = ps @ [kd_name d]"
  with d show "dir_path ds (kd_id d) qs" by (auto intro: dir_path.intros split: option.splits)
qed

lemma dir_path_single:
  "dir_path ds i [name] \<longleftrightarrow> (\<exists>d \<in> set ds. kd_parent_id d = None \<and> kd_name d = name \<and> i = kd_id d)"
proof
  assume "dir_path ds i [name]"
  then show "\<exists>d \<in> set ds. kd_parent_id d = None \<and> kd_name d = name \<and> i = kd_id d"
    by cases (auto dest: dir_path_not_Nil)
qed (auto intro: dir_path.intros)

lemma dir_path_more:
  assumes "ps \<noteq> []"
  shows "dir_path ds i (ps @ [name]) \<longleftrightarrow>
    (\<exists>p. dir_path ds p ps \<and> (\<exists>d \<in> set ds. kd_parent_id d = Some p \<and> kd_name d = name \<and> i = kd_id d))"
proof
  assume "dir_path ds i (ps @ [name])"
  then show "\<exists>p. dir_path ds p ps \<and> (\<exists>d \<in> set ds. kd_parent_id d = Some p \<and> kd_name d = name \<and> i = kd_id d)"
    using assms by cases auto
qed (auto intro: dir_path.intros)

text \<open>A directory has one path, and a path names one directory.\<close>

lemma dir_path_fun: "dir_path ds i ps \<Longrightarrow> paths_ok ds \<Longrightarrow> dir_path ds i qs \<Longrightarrow> qs = ps"
proof (induction arbitrary: qs rule: dir_path.induct)
  case (top d)
  with dir_path_snoc [OF top(3,1), of qs] show ?case by simp
next
  case (below d p ps)
  from dir_path_snoc [OF below(5,1), of qs] below(2,6) obtain rs where "dir_path ds p rs" "qs = rs @ [kd_name d]"
    by auto
  with below.IH [OF below(5)] show ?case by blast
qed

lemma dir_path_inj: "dir_path ds i ps \<Longrightarrow> paths_ok ds \<Longrightarrow> dir_path ds j ps \<Longrightarrow> j = i"
proof (induction arbitrary: j rule: dir_path.induct)
  case (top d)
  from top(4) show ?case
  proof cases
    case (top e)
    with paths_ok_unique(2) [OF \<open>paths_ok ds\<close> \<open>d \<in> set ds\<close> top(3)] \<open>kd_parent_id d = None\<close> show ?thesis by simp
  next
    case (below e p ps)
    with dir_path_not_Nil show ?thesis by fastforce
  qed
next
  case (below d p ps)
  from below(6) show ?case
  proof cases
    case (top e)
    with dir_path_not_Nil [OF below(3)] show ?thesis by simp
  next
    case (below e q qs)
    with \<open>dir_path ds p ps\<close> \<open>paths_ok ds\<close> below.IH [of q] have "q = p" by simp
    with below paths_ok_unique(2) [OF \<open>paths_ok ds\<close> \<open>d \<in> set ds\<close> \<open>e \<in> set ds\<close>] \<open>kd_parent_id d = Some p\<close> show ?thesis by simp
  qed
qed

lemma dir_path_text:
  assumes "paths_ok ds" "dir_path ds i ps"
  shows "str_split slash_char (str_join ''/'' ps) = ps"
proof -
  have "slash_char \<notin> set x" if "x \<in> set ps" for x
    using dir_path_names [OF assms(2) that] assms(1) by (auto simp: paths_ok_def)
  then show ?thesis using dir_path_not_Nil [OF assms(2)] by (intro split_join) auto
qed

text \<open>The walk follows the path.\<close>

lemma walk_path_append:
  "walk_path rank k ds cur (ps @ qs) = (case walk_path rank k ds cur ps of None \<Rightarrow> None | Some c \<Rightarrow> walk_path rank k ds c qs)"
proof (induction ps arbitrary: cur)
  case (Cons p ps)
  then show ?case by (cases "find (\<lambda>d. kd_name d = p) (get_directories rank k cur ds)") simp_all
qed simp

lemma find_unique_Some:
  assumes "d \<in> set xs" "P d" "\<And>x. x \<in> set xs \<Longrightarrow> P x \<Longrightarrow> x = d"
  shows "find P xs = Some d"
proof -
  from assms(1,2) have "find P xs \<noteq> None" by (auto simp: find_None_iff)
  then obtain x where x: "find P xs = Some x" by blast
  then have "x \<in> set xs" "P x" by (auto simp: find_Some_iff)
  with assms(3) x show ?thesis by blast
qed

lemma walk_path_dir_path:
  assumes ok: "paths_ok (kb_dirs k ds)"
  shows "ps \<noteq> [] \<Longrightarrow> walk_path rank k ds None ps = Some j \<longleftrightarrow> (\<exists>i. j = Some i \<and> dir_path (kb_dirs k ds) i ps)"
proof (induction ps arbitrary: j rule: rev_induct)
  case (snoc name ps)
  let ?K = "kb_dirs k ds"
  have nonempty: "kd_id d \<noteq> []" if "d \<in> set ?K" for d
    using ok that unfolding paths_ok_def forest_ok_def by (metis imageI)
  have step: "walk_path rank k ds cur [name] = Some j \<longleftrightarrow>
      (\<exists>d \<in> set ?K. kd_parent_id d = cur \<and> kd_name d = name \<and> j = Some (kd_id d))" if "cur \<noteq> Some []" for cur
  proof -
    have s: "set (get_directories rank k cur ds) = {d \<in> set ?K. kd_parent_id d = cur}"
      using that by (auto simp: set_get_directories)
    show ?thesis
    proof (cases "\<exists>d \<in> set ?K. kd_parent_id d = cur \<and> kd_name d = name")
      case True
      then obtain d where d: "d \<in> set ?K" "kd_parent_id d = cur" "kd_name d = name" by blast
      have "find (\<lambda>d. kd_name d = name) (get_directories rank k cur ds) = Some d"
      proof (rule find_unique_Some)
        fix x assume "x \<in> set (get_directories rank k cur ds)" "kd_name x = name"
        then have "x \<in> set ?K" "kd_parent_id x = kd_parent_id d" "kd_name x = kd_name d" using d by (simp_all add: s)
        with paths_ok_unique(2) [OF ok] d(1) show "x = d" by blast
      qed (use d in \<open>simp_all add: s\<close>)
      then have w: "walk_path rank k ds cur [name] = Some (Some (kd_id d))" by simp
      have "e = d" if "e \<in> set ?K" "kd_parent_id e = cur" "kd_name e = name" for e
        using paths_ok_unique(2) [OF ok that(1) d(1)] that d by simp
      then show ?thesis unfolding w using d by (metis option.inject)
    next
      case False
      then have "find (\<lambda>d. kd_name d = name) (get_directories rank k cur ds) = None" by (auto simp: find_None_iff s)
      with False show ?thesis by auto
    qed
  qed
  show ?case
  proof (cases "ps = []")
    case True
    have "walk_path rank k ds None [name] = Some j \<longleftrightarrow> (\<exists>i. j = Some i \<and> dir_path ?K i [name])"
      unfolding dir_path_single using step [of None] by blast
    with True show ?thesis by simp
  next
    case False
    have "walk_path rank k ds None (ps @ [name]) = Some j \<longleftrightarrow>
        (\<exists>p. dir_path ?K p ps \<and> walk_path rank k ds (Some p) [name] = Some j)"
    proof (cases "walk_path rank k ds None ps")
      case None
      with snoc.IH [OF False] have "\<not> dir_path ?K p ps" for p by (metis option.distinct(1))
      with None show ?thesis by (simp add: walk_path_append)
    next
      case (Some c)
      with snoc.IH [OF False, of c] obtain i where i: "c = Some i" "dir_path ?K i ps" by auto
      with dir_path_inj [OF i(2) ok] have "dir_path ?K p ps \<longleftrightarrow> p = i" for p by blast
      with Some i(1) show ?thesis by (simp add: walk_path_append)
    qed
    also have "\<dots> \<longleftrightarrow> (\<exists>p. dir_path ?K p ps \<and> (\<exists>d \<in> set ?K. kd_parent_id d = Some p \<and> kd_name d = name \<and> j = Some (kd_id d)))"
    proof (intro ex_cong1 conj_cong refl)
      fix p assume "dir_path ?K p ps"
      then have "Some p \<noteq> Some []" using nonempty dir_path_id by fastforce
      then show "walk_path rank k ds (Some p) [name] = Some j \<longleftrightarrow>
          (\<exists>d \<in> set ?K. kd_parent_id d = Some p \<and> kd_name d = name \<and> j = Some (kd_id d))" by (rule step)
    qed
    also have "\<dots> \<longleftrightarrow> (\<exists>i. j = Some i \<and> dir_path ?K i (ps @ [name]))"
      unfolding dir_path_more [OF False] by blast
    finally show ?thesis .
  qed
qed simp

lemma resolve_dir_path_iff:
  assumes ok: "paths_ok (kb_dirs k ds)"
  shows "resolve_dir_path rank ds path k = Some i \<longleftrightarrow>
    (\<exists>ps. dir_path (kb_dirs k ds) i ps \<and> strip_char slash_char path = str_join ''/'' ps)"
proof -
  let ?parts = "str_split slash_char (strip_char slash_char path)"
  have "resolve_dir_path rank ds path k = Some i \<longleftrightarrow> dir_path (kb_dirs k ds) i ?parts"
    using walk_path_dir_path [OF ok, of ?parts rank] dir_path_inj [OF _ ok, of i ?parts]
    by (auto simp: resolve_dir_path_def split: option.splits)
  also have "\<dots> \<longleftrightarrow> (\<exists>ps. dir_path (kb_dirs k ds) i ps \<and> strip_char slash_char path = str_join ''/'' ps)"
    using dir_path_text [OF ok] join_split [of slash_char] by metis
  finally show ?thesis .
qed

subsection \<open>The tree agrees with the walk\<close>

definition above :: "directory_row list \<Rightarrow> string \<Rightarrow> string set" where
  "above ds i = {a \<in> kd_id ` set ds. (a, i) \<in> (links ds)\<^sup>*}"

lemma dir_path_length: "dir_path ds i ps \<Longrightarrow> paths_ok ds \<Longrightarrow> length ps \<le> card (above ds i)"
proof (induction rule: dir_path.induct)
  case (top d)
  then have "kd_id d \<in> above ds (kd_id d)" by (auto simp: above_def)
  then have "card (above ds (kd_id d)) \<noteq> 0" by (auto simp: above_def)
  then show ?case by simp
next
  case (below d p ps)
  have l: "(p, kd_id d) \<in> links ds" using below.hyps(1,2) by (rule linksI)
  have "kd_id d \<notin> above ds p"
  proof
    assume "kd_id d \<in> above ds p"
    then have "(kd_id d, kd_id d) \<in> (links ds)\<^sup>+" using l by (auto simp: above_def intro: rtrancl_into_trancl1)
    then show False using below.prems by (simp add: paths_ok_def forest_ok_def acyclic_def)
  qed
  moreover have "insert (kd_id d) (above ds p) \<subseteq> above ds (kd_id d)"
    using below.hyps(1) l by (auto simp: above_def intro: rtrancl_into_rtrancl)
  ultimately have "Suc (card (above ds p)) \<le> card (above ds (kd_id d))"
    by (metis (no_types, lifting) List.finite_set above_def card_insert_disjoint card_mono finite_Collect_conjI finite_imageI
        finite_subset mem_Collect_eq subsetI)
  with below.IH [OF below.prems] show ?case by simp
qed

lemma dir_path_exists:
  assumes ok: "paths_ok ds" and i: "i \<in> kd_id ` set ds"
  shows "\<exists>ps. dir_path ds i ps \<and> length ps \<le> length ds"
proof -
  have "finite (links ds)"
    by (rule finite_subset [of _ "(\<lambda>d. (the (kd_parent_id d), kd_id d)) ` set ds"]) (force simp: links_def)+
  then have "wf (links ds)" using ok by (intro finite_acyclic_wf) (simp_all add: paths_ok_def forest_ok_def)
  then have "i \<in> kd_id ` set ds \<longrightarrow> (\<exists>ps. dir_path ds i ps)"
  proof (induction i rule: wf_induct_rule)
    case (less i)
    show ?case
    proof
      assume "i \<in> kd_id ` set ds"
      then obtain d where d: "d \<in> set ds" "i = kd_id d" by blast
      show "\<exists>ps. dir_path ds i ps"
      proof (cases "kd_parent_id d")
        case None
        with d show ?thesis by (auto intro: dir_path.intros)
      next
        case (Some p)
        have "p \<in> kd_id ` set ds" using ok d(1) Some by (force simp: paths_ok_def present_in_def)
        with less [of p] d Some show ?thesis by (auto dest: linksI intro: dir_path.intros)
      qed
    qed
  qed
  with i obtain ps where ps: "dir_path ds i ps" by blast
  have "card (above ds i) \<le> card (kd_id ` set ds)" by (intro card_mono) (auto simp: above_def)
  also have "\<dots> \<le> length ds" by (metis card_image_le card_length le_trans List.finite_set)
  finally show ?thesis using dir_path_length [OF ps ok] ps by force
qed

text \<open>The paths computed so far are those of directories.\<close>

definition path_table :: "directory_row list \<Rightarrow> (string \<times> string) list \<Rightarrow> bool" where
  "path_table ds paths =
     (distinct (map fst paths) \<and> (\<forall>(i, path) \<in> set paths. \<exists>ps. dir_path ds i ps \<and> path = str_join ''/'' ps))"

definition dir_table :: "directory_row list \<Rightarrow> (string \<times> directory_row) list" where
  "dir_table ds = map (\<lambda>d. (kd_id d, d)) ds"

lemma map_of_dir_table: "distinct (map kd_id ds) \<Longrightarrow> d \<in> set ds \<Longrightarrow> map_of (dir_table ds) (kd_id d) = Some d"
  by (rule map_of_is_SomeI) (auto simp: dir_table_def comp_def)

lemma dir_table_keys: "fst ` set (dir_table ds) = kd_id ` set ds"
  by (force simp: dir_table_def)

lemma path_table_lookup:
  assumes "path_table ds paths" "map_of paths i = Some path" "dir_path ds i ps" "paths_ok ds"
  shows "path = str_join ''/'' ps"
  using assms dir_path_fun by (fastforce simp: path_table_def dest: map_of_SomeD)

lemma path_table_dset:
  assumes "path_table ds paths" "dir_path ds i ps"
  shows "path_table ds (dset i (str_join ''/'' ps) paths)"
  using assms by (auto simp: path_table_def distinct_update dest!: set_dset)

lemma dset_key_set: "fst ` set (dset k v d) = insert k (fst ` set d)"
  by (induction d) auto

lemma dir_path_text_not_Nil:
  assumes "paths_ok ds" "dir_path ds i ps"
  shows "str_join ''/'' ps \<noteq> []"
proof
  assume "str_join ''/'' ps = []"
  then have "ps = [[]]" using dir_path_text [OF assms] by simp
  then have "[] \<in> kd_name ` set ds" using dir_path_names [OF assms(2), of "[]"] by simp
  then show False using assms(1) by (auto simp: paths_ok_def)
qed

lemma get_dir_path_ok:
  assumes ok: "paths_ok ds"
  shows "dir_path ds i ps \<Longrightarrow> path_table ds paths \<Longrightarrow> length ps \<le> limit \<Longrightarrow>
    \<exists>paths'. get_dir_path limit (dir_table ds) i paths = Inr (str_join ''/'' ps, paths') \<and> path_table ds paths' \<and>
      insert i (fst ` set paths) \<subseteq> fst ` set paths'"
proof (induction arbitrary: limit paths rule: dir_path.induct)
  case (top d)
  from top.prems obtain n where n: "limit = Suc n" by (cases limit) auto
  have p: "dir_path ds (kd_id d) [kd_name d]" by (rule dir_path.top [OF top.hyps])
  have d: "map_of (dir_table ds) (kd_id d) = Some d"
    using ok top.hyps(1) by (intro map_of_dir_table) (simp_all add: paths_ok_def forest_ok_def)
  show ?case
  proof (cases "map_of paths (kd_id d)")
    case None
    with path_table_dset [OF top.prems(1) p] d top.hyps(2) show ?thesis by (auto simp: n dset_key_set)
  next
    case (Some path)
    with path_table_lookup [OF top.prems(1) Some p ok] top.prems(1) map_of_keyD [OF Some] show ?thesis
      by (auto simp: n)
  qed
next
  case (below d p ps)
  from below.prems obtain n where n: "limit = Suc n" "length ps \<le> n" by (cases limit) auto
  have path: "dir_path ds (kd_id d) (ps @ [kd_name d])" by (rule dir_path.below [OF below.hyps])
  have joined: "str_join ''/'' (ps @ [kd_name d]) = str_join ''/'' ps @ ''/'' @ kd_name d" "str_join ''/'' ps \<noteq> []"
    using join_append [of ps "[kd_name d]" "''/''"] dir_path_not_Nil [OF below.hyps(3)]
      dir_path_text_not_Nil [OF ok below.hyps(3)] by simp_all
  have d: "map_of (dir_table ds) (kd_id d) = Some d"
    using ok below.hyps(1) by (intro map_of_dir_table) (simp_all add: paths_ok_def forest_ok_def)
  have p: "p \<in> fst ` set (dir_table ds)" "p \<noteq> []"
    using dir_path_id [OF below.hyps(3)] ok unfolding dir_table_keys paths_ok_def forest_ok_def by blast+
  show ?case
  proof (cases "map_of paths (kd_id d)")
    case None
    from below.IH [OF below.prems(1) n(2)] obtain paths' where
      g: "get_dir_path n (dir_table ds) p paths = Inr (str_join ''/'' ps, paths')" and t: "path_table ds paths'"
      and s: "insert p (fst ` set paths) \<subseteq> fst ` set paths'" by blast
    have "get_dir_path limit (dir_table ds) (kd_id d) paths =
        Inr (str_join ''/'' (ps @ [kd_name d]), dset (kd_id d) (str_join ''/'' (ps @ [kd_name d])) paths')"
      using None d p g below.hyps(2) by (simp add: n joined)
    moreover have "insert (kd_id d) (fst ` set paths) \<subseteq> fst ` set (dset (kd_id d) x paths')" for x
      using s unfolding dset_key_set by blast
    ultimately show ?thesis using path_table_dset [OF t path] by blast
  next
    case (Some path)
    with path_table_lookup [OF below.prems(1) Some path ok] below.prems(1) map_of_keyD [OF Some] show ?thesis
      by (auto simp: n)
  qed
qed

lemma dir_paths_ok:
  assumes ok: "paths_ok ds" and limit: "length ds \<le> limit"
  shows "\<exists>paths. dir_paths limit (dir_table ds) = Inr paths \<and> path_table ds paths \<and> kd_id ` set ds \<subseteq> fst ` set paths"
proof -
  let ?step = "\<lambda>i paths. rbind (get_dir_path limit (dir_table ds) i paths) (\<lambda>(_, paths). Inr paths)"
  have "\<exists>paths'. rfold ?step xs paths = Inr paths' \<and> path_table ds paths' \<and> set xs \<union> fst ` set paths \<subseteq> fst ` set paths'"
    if "set xs \<subseteq> kd_id ` set ds" "path_table ds paths" for xs paths
    using that
  proof (induction xs arbitrary: paths)
    case (Cons i xs)
    then obtain ps where ps: "dir_path ds i ps" "length ps \<le> length ds" using dir_path_exists [OF ok, of i] by auto
    from get_dir_path_ok [OF ok ps(1) Cons.prems(2), of limit] ps(2) limit obtain paths1 where
      1: "get_dir_path limit (dir_table ds) i paths = Inr (str_join ''/'' ps, paths1)" "path_table ds paths1"
        "insert i (fst ` set paths) \<subseteq> fst ` set paths1" by auto
    from Cons.IH [OF _ 1(2)] Cons.prems(1) obtain paths2 where
      2: "rfold ?step xs paths1 = Inr paths2" "path_table ds paths2" "set xs \<union> fst ` set paths1 \<subseteq> fst ` set paths2" by auto
    from 2(3) 1(3) have "set (i # xs) \<union> fst ` set paths \<subseteq> fst ` set paths2" by (simp add: subset_iff)
    with 1(1) 2(1,2) show ?case by (intro exI [of _ paths2]) simp
  qed simp
  from this [of "map fst (dir_table ds)" "[]"] show ?thesis
    by (auto simp: dir_paths_def path_table_def dir_table_keys [unfolded list.set_map [symmetric]] dir_table_def comp_def)
qed

lemma fold_dset_new:
  "distinct (map f xs) \<Longrightarrow> f ` set xs \<inter> fst ` set m = {} \<Longrightarrow>
     fold (\<lambda>x m. dset (f x) (g x) m) xs m = m @ map (\<lambda>x. (f x, g x)) xs"
proof (induction xs arbitrary: m)
  case (Cons x xs)
  then have "dset (f x) (g x) m = m @ [(f x, g x)]" by (intro dset_new) auto
  with Cons show ?case by auto
qed simp

lemma path_table_distinct:
  assumes "paths_ok ds" "path_table ds paths"
  shows "distinct (map snd paths)"
proof -
  have "x = y" if mem: "x \<in> set paths" "y \<in> set paths" and eq: "snd x = snd y" for x y
  proof -
    obtain i path j where xy: "x = (i, path)" "y = (j, path)" using eq by (cases x; cases y) simp
    have entry: "\<exists>ps. dir_path ds i ps \<and> path = str_join ''/'' ps" if "(i, path) \<in> set paths" for i path
      using that assms(2) by (auto simp: path_table_def)
    obtain ps where ps: "dir_path ds i ps" "str_join ''/'' ps = path" using entry mem(1) xy by blast
    obtain qs where qs: "dir_path ds j qs" "str_join ''/'' qs = path" using entry mem(2) xy by blast
    have "ps = qs" using dir_path_text [OF assms(1)] ps qs by metis
    with qs(1) dir_path_inj [OF ps(1) assms(1)] xy show ?thesis by simp
  qed
  then show ?thesis using assms(2) by (auto simp: path_table_def distinct_map inj_on_def)
qed

lemma distinct_map_mset: "mset xs = mset ys \<Longrightarrow> distinct (map f xs) = distinct (map f ys)"
  by (rule mset_eq_imp_distinct_iff) simp

lemma paths_ok_mset:
  assumes "mset ds = mset es"
  shows "paths_ok ds = paths_ok es"
proof -
  have "set ds = set es" using assms by (rule mset_eq_setD)
  moreover have "links ds = links es" by (simp add: links_def \<open>set ds = set es\<close>)
  moreover have "present_in (map kd_id ds) = present_in (map kd_id es)"
    by (intro ext) (simp add: present_in_def \<open>set ds = set es\<close> split: option.split)
  ultimately show ?thesis
    using distinct_map_mset [OF assms, of kd_id] distinct_map_mset [OF assms, of "\<lambda>d. (kd_parent_id d, kd_name d)"]
    by (simp add: paths_ok_def forest_ok_def)
qed

text \<open>All directories of the knowledge base, in the order of their names, are those of the table.\<close>

lemma all_directories_table:
  assumes "paths_ok (kb_dirs k ds)"
  shows "fold (\<lambda>d m. dset (kd_id d) d m) (get_all_directories rank k ds) [] = dir_table (get_all_directories rank k ds)"
    "paths_ok (get_all_directories rank k ds)"
proof -
  let ?A = "get_all_directories rank k ds"
  have m: "mset ?A = mset (kb_dirs k ds)" by (simp only: get_all_directories_def kb_dirs_def mset_sort)
  then show "paths_ok ?A" using assms paths_ok_mset by blast
  then have "distinct (map kd_id ?A)" by (simp add: paths_ok_def forest_ok_def)
  then show "fold (\<lambda>d m. dset (kd_id d) d m) ?A [] = dir_table ?A"
    using fold_dset_new [of kd_id ?A "[]" "\<lambda>d. d"] by (simp add: dir_table_def)
qed

lemma dir_path_set: "set ds = set es \<Longrightarrow> dir_path ds i ps \<Longrightarrow> dir_path es i ps"
  by (rotate_tac, induction rule: dir_path.induct) (auto intro: dir_path.intros)

lemma dir_path_all: "dir_path (get_all_directories rank k ds) = dir_path (kb_dirs k ds)"
proof (intro ext iffI)
  have s: "set (get_all_directories rank k ds) = set (kb_dirs k ds)" by (simp add: get_all_directories_def kb_dirs_def)
  show "dir_path (kb_dirs k ds) i ps" if "dir_path (get_all_directories rank k ds) i ps" for i ps
    using dir_path_set [OF s that] .
  show "dir_path (get_all_directories rank k ds) i ps" if "dir_path (kb_dirs k ds) i ps" for i ps
    using dir_path_set [OF s [symmetric] that] .
qed

lemma built_tree:
  assumes ok: "paths_ok (kb_dirs k ds)" and limit: "length (kb_dirs k ds) \<le> limit"
  shows "\<exists>tree. build_directory_tree limit rank k ds ls fs = Inr tree \<and>
     dt_dirs tree = dir_table (get_all_directories rank k ds) \<and>
     (\<forall>i ps. map_of (dt_dir_id_to_path tree) i = Some ps \<longleftrightarrow> (\<exists>names. dir_path (kb_dirs k ds) i names \<and> ps = str_join ''/'' names)) \<and>
     (\<forall>path i. map_of (dt_path_to_dir_id tree) path = Some i \<longleftrightarrow> (\<exists>names. dir_path (kb_dirs k ds) i names \<and> path = str_join ''/'' names)) \<and>
     dt_files tree = map (tree_file_of (dt_dir_id_to_path tree)) (get_files_with_directories k ls fs)"
proof -
  let ?A = "get_all_directories rank k ds"
  note A = all_directories_table [OF ok, of rank]
  have len: "length ?A \<le> limit" using limit by (simp add: get_all_directories_def kb_dirs_def)
  from dir_paths_ok [OF A(2) len] obtain paths where p: "dir_paths limit (dir_table ?A) = Inr paths"
    "path_table ?A paths" "kd_id ` set ?A \<subseteq> fst ` set paths" by blast
  have fwd: "map_of paths i = Some path \<longleftrightarrow> (\<exists>names. dir_path ?A i names \<and> path = str_join ''/'' names)" for i path
  proof
    assume "map_of paths i = Some path"
    then have "(i, path) \<in> set paths" by (rule map_of_SomeD)
    with p(2) show "\<exists>names. dir_path ?A i names \<and> path = str_join ''/'' names" by (auto simp: path_table_def)
  next
    assume "\<exists>names. dir_path ?A i names \<and> path = str_join ''/'' names"
    then obtain names where n: "dir_path ?A i names" "path = str_join ''/'' names" by blast
    with dir_path_id [OF n(1)] p(3) have "i \<in> fst ` set paths" by blast
    then obtain path' where "map_of paths i = Some path'" by (metis image_iff map_of_eq_None_iff not_None_eq)
    with path_table_lookup [OF p(2) this n(1) A(2)] n(2) show "map_of paths i = Some path" by simp
  qed
  have d: "distinct (map fst paths)" using p(2) by (simp add: path_table_def)
  have swap: "fold (\<lambda>(i, path) m. dset path i m) paths [] = map (\<lambda>(i, path). (path, i)) paths"
    using fold_dset_new [of snd paths "[]" fst] path_table_distinct [OF A(2) p(2)] by (simp add: case_prod_unfold)
  have "distinct (map fst (map (\<lambda>(i, path). (path, i)) paths))"
    using path_table_distinct [OF A(2) p(2)] by (simp add: comp_def case_prod_unfold)
  then have "map_of (map (\<lambda>(i, path). (path, i)) paths) path = Some i \<longleftrightarrow> (path, i) \<in> set (map (\<lambda>(i, path). (path, i)) paths)" for i path
    by (rule map_of_eq_Some_iff)
  also have "(path, i) \<in> set (map (\<lambda>(i, path). (path, i)) paths) \<longleftrightarrow> (i, path) \<in> set paths" for i path by force
  also have "(i, path) \<in> set paths \<longleftrightarrow> map_of paths i = Some path" for i path using d by simp
  finally have bwd: "map_of (map (\<lambda>(i, path). (path, i)) paths) path = Some i \<longleftrightarrow> map_of paths i = Some path" for i path .
  show ?thesis
    using fwd bwd A(1) p(1) swap unfolding dir_path_all by (simp add: build_directory_tree_def Let_def)
qed

lemma strip_char_ends: "s \<noteq> [] \<Longrightarrow> hd s \<noteq> c \<Longrightarrow> last s \<noteq> c \<Longrightarrow> strip_char c s = s"
  by (simp add: strip_char_def dropWhile_eq_self_iff [THEN iffD2] hd_rev)

lemma dir_path_strip:
  assumes "paths_ok ds" "dir_path ds i ps"
  shows "strip_char slash_char (str_join ''/'' ps) = str_join ''/'' ps"
proof (rule strip_char_ends)
  have names: "w \<noteq> [] \<and> slash_char \<notin> set w" if "w \<in> set ps" for w
    using dir_path_names [OF assms(2) that] assms(1) by (auto simp: paths_ok_def)
  have ne: "ps \<noteq> []" using dir_path_not_Nil [OF assms(2)] .
  have e: "str_join ''/'' ps \<noteq> []" "hd (str_join ''/'' ps) = hd (hd ps)" "last (str_join ''/'' ps) = last (last ps)"
    using join_ends [OF ne, of "''/''"] names by blast+
  show "str_join ''/'' ps \<noteq> []" by (rule e)
  show "hd (str_join ''/'' ps) \<noteq> slash_char" unfolding e using names [of "hd ps"] ne by (metis hd_in_set)
  show "last (str_join ''/'' ps) \<noteq> slash_char" unfolding e using names [of "last ps"] ne by (metis last_in_set)
qed


definition shelf :: "directory_row list" where
  "shelf =
     (let dir = (\<lambda>i p n. \<lparr>kd_id = i, kd_knowledge_id = ''k'', kd_parent_id = p, kd_name = n, kd_user_id = ''u'',
            kd_created_at = 0, kd_updated_at = 0\<rparr>)
      in [dir ''1'' None ''docs'', dir ''2'' (Some ''1'') ''api'', dir ''3'' (Some ''2'') ''auth'', dir ''4'' None ''img''])"

lemma shelf_ok: "paths_ok (kb_dirs ''k'' shelf)" "length (kb_dirs ''k'' shelf) \<le> 4"
proof -
  have l: "links (kb_dirs ''k'' shelf) = {(''1'', ''2''), (''2'', ''3'')}"
    by (auto simp: links_def kb_dirs_def shelf_def Let_def)
  have "acyclic {(''1'', ''2''), (''2'', ''3'' :: string)}"
    by (rule acyclicI_order [where f = "\<lambda>s. - int (of_char (hd s))"]) auto
  then show "paths_ok (kb_dirs ''k'' shelf)" unfolding paths_ok_def forest_ok_def l
    by (simp add: kb_dirs_def shelf_def Let_def present_in_def)
  show "length (kb_dirs ''k'' shelf) \<le> 4" by (simp add: kb_dirs_def shelf_def Let_def)
qed


end
