(* ===== verification/Knowledge_Shell.thy ===== *)
theory Knowledge_Shell
  imports Knowledge_Tree
begin

section \<open>The knowledge shell\<close>

text \<open>
  Models \<open>tools/knowledge_fs.py\<close>: the command line over knowledge bases that models use as a tool. A command reads
  the tables and changes none. What it may read is decided first: the knowledge bases the user may read, or of those
  the ones attached to the model, and the files attached to the model.

  Arguments of the model: the collation of the database, the order in which a Python set is iterated, the engine for
  regular expressions, the depth of the interpreter's stack, the settings, the text of exceptions and values, and the
  few characters of the output that are no bytes. The text of a file is a string, as the endpoints store it; any other
  value makes the commands that take it apart raise.
\<close>

subsection \<open>Tables and settings\<close>

record shell_kb =
  sk_id :: string
  sk_user_id :: string
  sk_name :: string
  sk_description :: "string option"
  sk_updated_at :: int

record shell_db =
  sd_kbs :: "shell_kb list"
  sd_dirs :: "directory_row list"
  sd_links :: "knowledge_file_row list"
  sd_files :: "kb_file list"
  sd_grants :: "access_grant list"
  sd_groups :: group_db

record shell_env =
  se_rank :: "string \<Rightarrow> int"
  se_order :: "pyval list \<Rightarrow> pyval list"
  se_engine :: search_engine
  se_limit :: nat
  se_time :: int
  se_max_output :: nat
  se_max_grep_files :: nat
  se_max_matches :: nat
  se_str :: "pyval \<Rightarrow> string"
  se_message :: "shell_error \<Rightarrow> string"
  se_folder :: string
  se_last :: string
  se_branch :: string
  se_bar :: string
  se_dash :: string

definition raised :: "'a result \<Rightarrow> 'a shell" where
  "raised r = (case r of Inl e \<Rightarrow> Inl (Raised e) | Inr x \<Rightarrow> Inr x)"

definition string_set :: "shell_env \<Rightarrow> string list \<Rightarrow> string list" where
  "string_set env xs = concat (map (\<lambda>v. case v of PStr s \<Rightarrow> [s] | _ \<Rightarrow> []) (se_order env (map PStr xs)))"

definition text_given :: "string option \<Rightarrow> bool" where
  "text_given v = (case v of None \<Rightarrow> False | Some s \<Rightarrow> s \<noteq> [])"

subsection \<open>What the user may read\<close>

text \<open>A knowledge base as the commands see it: identifier, name, description.\<close>

type_synonym kb_info = "string \<times> string \<times> string"

definition kb_info_of :: "shell_kb \<Rightarrow> kb_info" where
  "kb_info_of kb = (sk_id kb, sk_name kb, case sk_description kb of None \<Rightarrow> [] | Some d \<Rightarrow> d)"

definition get_kb :: "shell_db \<Rightarrow> pyval \<Rightarrow> shell_kb option" where
  "get_kb db i = (case i of PStr s \<Rightarrow> find (\<lambda>kb. sk_id kb = s) (sd_kbs db) | _ \<Rightarrow> None)"

definition user_group_ids :: "shell_db \<Rightarrow> user_row \<Rightarrow> string list" where
  "user_group_ids db user = map g_id (get_groups_by_member_id (u_id user) (sd_groups db))"

definition has_kb_access :: "shell_db \<Rightarrow> user_row \<Rightarrow> shell_kb \<Rightarrow> bool" where
  "has_kb_access db user kb =
     (u_role user = ''admin'' \<or> sk_user_id kb = u_id user \<or>
      has_access (u_id user) ''knowledge'' (sk_id kb) ''read'' (Some (user_group_ids db user)) (sd_groups db) (sd_grants db))"

definition readable_kb :: "shell_db \<Rightarrow> user_row \<Rightarrow> pyval \<Rightarrow> kb_info list" where
  "readable_kb db user i =
     (case get_kb db i of None \<Rightarrow> [] | Some kb \<Rightarrow> if has_kb_access db user kb then [kb_info_of kb] else [])"

text \<open>The identifiers among the items attached to a model.\<close>

definition attached_ids :: "string \<Rightarrow> pydict list \<Rightarrow> pyval list result" where
  "attached_ids type items =
     rbind (rmap hash_key (map (\<lambda>item. dget item ''id'') (filter (\<lambda>item. dget item ''type'' = PStr type) items)))
       (\<lambda>ids. Inr (remdups ids))"

definition kb_document :: "shell_kb \<Rightarrow> document" where
  "kb_document kb = \<lparr>doc_id = sk_id kb, doc_user_id = sk_user_id kb\<rparr>"

definition search_knowledge_bases :: "shell_env \<Rightarrow> shell_db \<Rightarrow> user_row \<Rightarrow> nat \<Rightarrow> shell_kb list" where
  "search_knowledge_bases env db user limit =
     take limit (sql_desc sk_updated_at (sort_key (\<lambda>kb. se_rank env (sk_id kb))
       (filter (\<lambda>kb. has_permission_filter \<lparr>af_group_ids = user_group_ids db user, af_user_id = Some (u_id user)\<rparr>
                  ''knowledge'' ''read'' (sd_grants db) [kb_document kb] \<noteq> []) (sd_kbs db))))"

definition get_accessible_kb_ids ::
    "shell_env \<Rightarrow> shell_db \<Rightarrow> user_row \<Rightarrow> pydict list \<Rightarrow> string option \<Rightarrow> kb_info list shell"
where
  "get_accessible_kb_ids env db user model_knowledge knowledge_id =
     (if model_knowledge \<noteq> [] then
        rbind (raised (attached_ids ''collection'' model_knowledge)) (\<lambda>attached.
          if text_given knowledge_id then
            (if PStr (the knowledge_id) \<notin> set attached then Inr []
             else Inr (concat (map (readable_kb db user) (se_order env [PStr (the knowledge_id)]))))
          else Inr (concat (map (readable_kb db user) (se_order env attached))))
      else if text_given knowledge_id then Inr (readable_kb db user (PStr (the knowledge_id)))
      else Inr (map kb_info_of (search_knowledge_bases env db user 50)))"

record file_info =
  fx_id :: string
  fx_filename :: string
  fx_directory_id :: "string option"
  fx_size :: pyval
  fx_type :: pyval
  fx_updated_at :: "int option"
  fx_knowledge_id :: "string option"
  fx_knowledge_name :: "string option"

definition file_info_of :: "kb_info option \<Rightarrow> kb_file \<times> string option \<Rightarrow> file_info" where
  "file_info_of kb = (\<lambda>(f, dir_id).
     \<lparr>fx_id = kb_id f, fx_filename = kb_filename f, fx_directory_id = dir_id, fx_size = meta_get f ''size'',
      fx_type = meta_get f ''content_type'', fx_updated_at = kb_updated_at f,
      fx_knowledge_id = map_option fst kb, fx_knowledge_name = map_option (fst \<circ> snd) kb\<rparr>)"

definition kb_files :: "shell_db \<Rightarrow> kb_info \<Rightarrow> file_info list" where
  "kb_files db kb = map (file_info_of (Some kb)) (get_files_with_directories (fst kb) (sd_links db) (sd_files db))"

definition attached_file :: "shell_db \<Rightarrow> pyval \<Rightarrow> file_info list" where
  "attached_file db i =
     (case i of
        PStr s \<Rightarrow> (case get_kb_file (sd_files db) s of None \<Rightarrow> [] | Some f \<Rightarrow> [file_info_of None (f, None)])
      | _ \<Rightarrow> [])"

definition get_accessible_files ::
    "shell_env \<Rightarrow> shell_db \<Rightarrow> user_row \<Rightarrow> pydict list \<Rightarrow> string option \<Rightarrow> file_info list shell"
where
  "get_accessible_files env db user model_knowledge knowledge_id =
     rbind (get_accessible_kb_ids env db user model_knowledge knowledge_id) (\<lambda>kbs.
     rbind (raised (attached_ids ''file'' model_knowledge)) (\<lambda>attached.
       Inr (concat (map (kb_files db) kbs) @ concat (map (attached_file db) (se_order env attached)))))"

subsection \<open>Which file a reference means\<close>

record resolved_file =
  rs_file :: kb_file
  rs_knowledge_id :: "string option"
  rs_knowledge_name :: "string option"

datatype resolution =
    NotFound
  | Ambiguous string
  | Resolved resolved_file

definition has_data :: "kb_file \<Rightarrow> bool" where
  "has_data f = (case kb_data f of None \<Rightarrow> False | Some d \<Rightarrow> d \<noteq> [])"

definition readable_file :: "shell_db \<Rightarrow> string \<Rightarrow> kb_file option" where
  "readable_file db i = (case get_kb_file (sd_files db) i of None \<Rightarrow> None | Some f \<Rightarrow> if has_data f then Some f else None)"

definition resolved_of :: "shell_db \<Rightarrow> file_info \<Rightarrow> resolution" where
  "resolved_of db info =
     (case readable_file db (fx_id info) of
        None \<Rightarrow> NotFound
      | Some f \<Rightarrow> Resolved \<lparr>rs_file = f, rs_knowledge_id = fx_knowledge_id info, rs_knowledge_name = fx_knowledge_name info\<rparr>)"

definition rsplit_slash :: "string \<Rightarrow> string \<times> string" where
  "rsplit_slash s =
     (let name = rev (takeWhile (\<lambda>c. c \<noteq> slash_char) (rev s))
      in (take (length s - length name - 1) s, name))"

fun by_path :: "shell_env \<Rightarrow> shell_db \<Rightarrow> file_info list \<Rightarrow> string \<Rightarrow> string \<Rightarrow> string list \<Rightarrow> resolution" where
  "by_path env db accessible folder filename [] = NotFound"
| "by_path env db accessible folder filename (k # ks) =
     (case resolve_dir_path (se_rank env) (sd_dirs db) folder k of
        None \<Rightarrow> by_path env db accessible folder filename ks
      | Some dir_id \<Rightarrow>
          (case filter (\<lambda>info. fx_filename info = filename \<and> fx_directory_id info = Some dir_id) accessible of
             [info] \<Rightarrow>
               (case resolved_of db info of
                  NotFound \<Rightarrow> by_path env db accessible folder filename ks
                | r \<Rightarrow> r)
           | _ \<Rightarrow> by_path env db accessible folder filename ks))"

definition knowledge_ids :: "shell_env \<Rightarrow> file_info list \<Rightarrow> string list" where
  "knowledge_ids env accessible =
     string_set env (remdups (concat (map (\<lambda>info. case fx_knowledge_id info of
       None \<Rightarrow> [] | Some i \<Rightarrow> if i \<noteq> [] then [i] else []) accessible)))"

definition by_name :: "shell_db \<Rightarrow> file_info list \<Rightarrow> string \<Rightarrow> resolution" where
  "by_name db accessible ref =
     (case filter (\<lambda>info. fx_filename info = ref) accessible of
        [] \<Rightarrow> NotFound
      | [info] \<Rightarrow> resolved_of db info
      | infos \<Rightarrow> Ambiguous (''Ambiguous filename '' @ [dquote_char] @ ref @ [dquote_char]
          @ ''. Use full path to disambiguate:'' @ nl
          @ unlines (map (\<lambda>m. ''  '' @ fx_id m @ ''  '' @ fx_filename m @ ''  ('' @
                       (case fx_knowledge_name m of None \<Rightarrow> ''None'' | Some n \<Rightarrow> n) @ '')'') infos)))"

definition resolve_file :: "shell_env \<Rightarrow> shell_db \<Rightarrow> user_row \<Rightarrow> pydict list \<Rightarrow> string \<Rightarrow> resolution shell" where
  "resolve_file env db user model_knowledge ref =
     rbind (get_accessible_files env db user model_knowledge None) (\<lambda>accessible. Inr (
       case readable_file db ref of
         Some f \<Rightarrow>
           if kb_id f \<notin> set (map fx_id accessible) then NotFound
           else Resolved \<lparr>rs_file = f, rs_knowledge_id = None, rs_knowledge_name = None\<rparr>
       | None \<Rightarrow>
           (let ref_clean = strip_char slash_char ref;
                (folder, filename) = rsplit_slash ref_clean
            in case (if slash_char \<in> set ref_clean
                     then by_path env db accessible folder filename (knowledge_ids env accessible) else NotFound) of
                 NotFound \<Rightarrow> by_name db accessible ref
               | r \<Rightarrow> r)))"

definition content_value :: "kb_file \<Rightarrow> pyval" where
  "content_value f = dget_or (case kb_data f of None \<Rightarrow> [] | Some d \<Rightarrow> d) ''content'' (PStr [])"

definition text_content :: "kb_file \<Rightarrow> string shell" where
  "text_content f = (case content_value f of PStr s \<Rightarrow> Inr s | _ \<Rightarrow> Inl (Raised AttributeError))"

definition with_file ::
    "shell_env \<Rightarrow> shell_db \<Rightarrow> user_row \<Rightarrow> pydict list \<Rightarrow> string \<Rightarrow> (resolved_file \<Rightarrow> string \<Rightarrow> string shell) \<Rightarrow> string shell"
where
  "with_file env db user model_knowledge ref f =
     rbind (resolve_file env db user model_knowledge ref) (\<lambda>r.
       case r of
         NotFound \<Rightarrow> Inr (''File not found: '' @ ref)
       | Ambiguous e \<Rightarrow> Inr e
       | Resolved file \<Rightarrow> rbind (text_content (rs_file file)) (f file))"

subsection \<open>Commands that show files\<close>

text \<open>What a command gets: its options, its arguments, and the output of the command before it in a pipe.\<close>

definition format_commas :: "pyval \<Rightarrow> string result" where
  "format_commas v =
     (case v of
        PInt i \<Rightarrow> Inr (comma_text i)
      | PBool b \<Rightarrow> Inr (if b then ''1'' else ''0'')
      | PStr _ \<Rightarrow> Inl (ValueError (''Cannot specify '' @ [quote_char] @ '','' @ [quote_char] @ '' with '' @ [quote_char] @ ''s'' @ [quote_char] @ ''.''))
      | _ \<Rightarrow> Inl TypeError)"

definition fmt_size :: "pyval \<Rightarrow> string shell" where
  "fmt_size sz = (if truthy sz then raised (rbind (format_commas sz) (\<lambda>s. Inr (s @ '' bytes''))) else Inr [])"

definition fmt_date :: "int option \<Rightarrow> string shell" where
  "fmt_date t = (case t of None \<Rightarrow> Inr [] | Some t \<Rightarrow> if t \<noteq> 0 then raised (date_text t) else Inr [])"

definition file_line :: "string \<Rightarrow> string \<Rightarrow> pyval \<Rightarrow> int option \<Rightarrow> string shell" where
  "file_line i name sz t =
     rbind (fmt_size sz) (\<lambda>s. rbind (fmt_date t) (\<lambda>d. Inr (''  '' @ i @ ''  '' @ name @ ''  '' @ s @ ''  '' @ d)))"

definition info_line :: "file_info \<Rightarrow> string shell" where
  "info_line info = file_line (fx_id info) (fx_filename info) (fx_size info) (fx_updated_at info)"

definition kb_header :: "kb_info \<Rightarrow> string" where
  "kb_header = (\<lambda>(i, kb_name, kb_desc).
     ''Knowledge Base: '' @ kb_name @ '' ('' @ i @ '')'' @ (if kb_desc \<noteq> [] then nl @ ''  '' @ kb_desc else []))"

definition direct_files :: "shell_env \<Rightarrow> shell_db \<Rightarrow> user_row \<Rightarrow> pydict list \<Rightarrow> file_info list shell" where
  "direct_files env db user model_knowledge =
     (if model_knowledge = [] then Inr []
      else rbind (get_accessible_files env db user model_knowledge None) (\<lambda>fs.
             Inr (filter (\<lambda>f. \<not> text_given (fx_knowledge_id f)) fs)))"

definition tree_of :: "shell_env \<Rightarrow> shell_db \<Rightarrow> string \<Rightarrow> directory_tree shell" where
  "tree_of env db k = build_directory_tree (se_limit env) (se_rank env) k (sd_dirs db) (sd_links db) (sd_files db)"

text \<open>One knowledge base of a listing; \<open>folder\<close> is empty for its top level.\<close>

definition ls_kb ::
    "shell_env \<Rightarrow> shell_db \<Rightarrow> user_row \<Rightarrow> pydict list \<Rightarrow> bool \<Rightarrow> string \<Rightarrow> kb_info \<Rightarrow> string list shell"
where
  "ls_kb env db user model_knowledge flat_mode folder kb =
     (if flat_mode then
        rbind (tree_of env db (fst kb)) (\<lambda>tree.
        rbind (rmap (\<lambda>f. file_line (tf_id f) (tf_path f) (tf_size f) (tf_updated_at f)) (dt_files tree)) (\<lambda>ls.
          Inr (kb_header kb # ls @ [[]])))
      else if folder \<noteq> [] \<and> resolve_dir_path (se_rank env) (sd_dirs db) folder (fst kb) = None
      then Inr [kb_header kb, ''  Directory not found: '' @ folder, []]
      else
        (let target_dir_id = (if folder \<noteq> [] then resolve_dir_path (se_rank env) (sd_dirs db) folder (fst kb) else None);
             subdirs = get_directories (se_rank env) (fst kb) target_dir_id (sd_dirs db)
         in rbind (get_accessible_files env db user model_knowledge (Some (fst kb))) (\<lambda>accessible.
            let dir_files = filter (\<lambda>f. fx_directory_id f = target_dir_id) accessible
            in rbind (rmap info_line dir_files) (\<lambda>ls.
              Inr (kb_header kb # (if folder \<noteq> [] then [''  Path: '' @ folder @ ''/''] else [])
                   @ map (\<lambda>d. ''  '' @ se_folder env @ '' '' @ kd_name d @ ''/'') subdirs @ ls
                   @ (if subdirs = [] \<and> dir_files = [] then [''  (empty)''] else []) @ [[]])))))"

definition kb_ls :: "shell_env \<Rightarrow> shell_db \<Rightarrow> user_row \<Rightarrow> pydict list \<Rightarrow> char set \<Rightarrow> string list \<Rightarrow> string shell" where
  "kb_ls env db user model_knowledge flags args =
     rbind (get_accessible_kb_ids env db user model_knowledge None) (\<lambda>kbs.
     rbind (direct_files env db user model_knowledge) (\<lambda>direct.
       let path_arg = (case args of [] \<Rightarrow> [] | a # _ \<Rightarrow> a);
           scoped = (path_arg \<noteq> [] \<and> path_arg \<in> set (map fst kbs));
           folder = (if scoped then [] else strip_char slash_char path_arg);
           kbs = (if scoped then filter (\<lambda>kb. fst kb = path_arg) kbs else kbs)
       in if kbs = [] \<and> direct = [] then Inr ''No knowledge bases found.''
          else rbind (rmap (ls_kb env db user model_knowledge (CHR ''a'' \<in> flags) folder) kbs) (\<lambda>blocks.
               rbind (if direct \<noteq> [] \<and> \<not> scoped \<and> folder = []
                      then rbind (rmap info_line direct) (\<lambda>ls. Inr ([''Attached Files:''] @ ls @ [[]])) else Inr [])
                 (\<lambda>attached. Inr (str_rstrip (unlines (concat blocks @ attached)))))))"

text \<open>Lines are numbered from one.\<close>

definition numbered :: "nat \<Rightarrow> string \<Rightarrow> string" where
  "numbered i line = nat_text i @ '': '' @ line"

definition kb_cat :: "shell_env \<Rightarrow> shell_db \<Rightarrow> user_row \<Rightarrow> pydict list \<Rightarrow> char set \<Rightarrow> string list \<Rightarrow> string shell" where
  "kb_cat env db user model_knowledge flags args =
     (case args of
        [] \<Rightarrow> Inr ''Usage: cat [-n] <file_id or filename>''
      | ref # _ \<Rightarrow>
          with_file env db user model_knowledge ref (\<lambda>_ content.
            Inr (if CHR ''n'' \<in> flags
                 then unlines (map (\<lambda>(i, line). numbered i line) (enumerate 1 (str_lines content))) else content)))"

definition DEFAULT_HEAD_LINES :: int where
  "DEFAULT_HEAD_LINES = 10"

definition DEFAULT_TAIL_LINES :: int where
  "DEFAULT_TAIL_LINES = 10"

text \<open>\<open>lines[:n]\<close> and \<open>lines[-n:]\<close>, where the latter takes all lines for zero.\<close>

definition first_lines :: "int \<Rightarrow> string list \<Rightarrow> string list" where
  "first_lines n ls = take (nat n) ls"

definition last_lines :: "int \<Rightarrow> string list \<Rightarrow> string list" where
  "last_lines n ls = (if n = 0 then ls else drop (length ls - nat n) ls)"

definition shown_note :: "string \<Rightarrow> int \<Rightarrow> nat \<Rightarrow> string" where
  "shown_note what n tot =
     (if int tot > n then nl @ ''[showing '' @ what @ int_text n @ '' of '' @ nat_text tot @ '' lines]'' else [])"

definition kb_head ::
    "shell_env \<Rightarrow> shell_db \<Rightarrow> user_row \<Rightarrow> pydict list \<Rightarrow> string list \<Rightarrow> string option \<Rightarrow> string shell"
where
  "kb_head env db user model_knowledge args piped_input =
     (let (num, args) = extract_numeric_flag args;
          n = (case num of None \<Rightarrow> DEFAULT_HEAD_LINES | Some n \<Rightarrow> n)
      in case piped_input of
           Some text \<Rightarrow> Inr (unlines (first_lines n (str_lines text)))
         | None \<Rightarrow>
             (case args of
                [] \<Rightarrow> Inr ''Usage: head [-N] <file>''
              | ref # _ \<Rightarrow>
                  with_file env db user model_knowledge ref (\<lambda>_ content.
                    let ls = str_lines content
                    in Inr (unlines (first_lines n ls) @ shown_note [] n (length ls)))))"

definition kb_tail ::
    "shell_env \<Rightarrow> shell_db \<Rightarrow> user_row \<Rightarrow> pydict list \<Rightarrow> string list \<Rightarrow> string option \<Rightarrow> string shell"
where
  "kb_tail env db user model_knowledge args piped_input =
     (let (num, args) = extract_numeric_flag args;
          n = (case num of None \<Rightarrow> DEFAULT_TAIL_LINES | Some n \<Rightarrow> n)
      in case piped_input of
           Some text \<Rightarrow> Inr (unlines (last_lines n (str_lines text)))
         | None \<Rightarrow>
             (case args of
                [] \<Rightarrow> Inr ''Usage: tail [-N] <file>''
              | ref # _ \<Rightarrow>
                  with_file env db user model_knowledge ref (\<lambda>_ content.
                    let ls = str_lines content
                    in Inr (unlines (last_lines n ls) @ shown_note ''last '' n (length ls)))))"

text \<open>Lines, words and characters.\<close>

definition count_lines :: "string \<Rightarrow> nat" where
  "count_lines s = length (filter (\<lambda>c. c = newline_char) s) + (if s \<noteq> [] \<and> \<not> str_ends_with s nl then 1 else 0)"

definition kb_wc ::
    "shell_env \<Rightarrow> shell_db \<Rightarrow> user_row \<Rightarrow> pydict list \<Rightarrow> char set \<Rightarrow> string list \<Rightarrow> string option \<Rightarrow> string shell"
where
  "kb_wc env db user model_knowledge flags args piped_input =
     (let counts = (\<lambda>s. ''  '' @ nat_text (count_lines s) @ ''  '' @ nat_text (length (str_words s)) @ ''  '' @ nat_text (length s))
      in case piped_input of
           Some text \<Rightarrow> Inr (if CHR ''l'' \<in> flags then nat_text (count_lines text) else counts text)
         | None \<Rightarrow>
             (case args of
                [] \<Rightarrow> Inr ''Usage: wc [-l] <file>''
              | ref # _ \<Rightarrow>
                  with_file env db user model_knowledge ref (\<lambda>file content.
                    Inr ((if CHR ''l'' \<in> flags then ''  '' @ nat_text (count_lines content) else counts content)
                         @ ''  '' @ kb_filename (rs_file file)))))"

definition stat_time :: "string \<Rightarrow> int option \<Rightarrow> string list shell" where
  "stat_time label t =
     (case t of
        None \<Rightarrow> Inr []
      | Some t \<Rightarrow> if t = 0 then Inr [] else rbind (raised (utc_time_text t)) (\<lambda>s. Inr [label @ s]))"

definition kb_stat :: "shell_env \<Rightarrow> shell_db \<Rightarrow> user_row \<Rightarrow> pydict list \<Rightarrow> string list \<Rightarrow> string shell" where
  "kb_stat env db user model_knowledge args =
     (case args of
        [] \<Rightarrow> Inr ''Usage: stat <file>''
      | ref # _ \<Rightarrow>
          with_file env db user model_knowledge ref (\<lambda>file content.
            let f = rs_file file;
                meta = (case kb_meta f of None \<Rightarrow> [] | Some m \<Rightarrow> m);
                sz = dget_or meta ''size'' (PInt (int (length content)));
                content_type = dget_or meta ''content_type'' (PStr ''unknown'')
            in rbind (raised (format_commas sz)) (\<lambda>sz.
               rbind (stat_time ''  Created: '' (kb_created_at f)) (\<lambda>created.
               rbind (stat_time ''  Updated: '' (kb_updated_at f)) (\<lambda>updated.
                 Inr (unlines
                   ([''  File: '' @ kb_filename f, ''    ID: '' @ kb_id f, ''  Size: '' @ sz @ '' bytes'',
                     ''  Type: '' @ (case content_type of PStr s \<Rightarrow> s | v \<Rightarrow> se_str env v),
                     '' Lines: '' @ comma_text (int (count_lines content)),
                     '' Words: '' @ comma_text (int (length (str_words content))),
                     '' Chars: '' @ comma_text (int (length content))]
                    @ created @ updated
                    @ (if text_given (rs_knowledge_name file)
                       then [''      KB: '' @ the (rs_knowledge_name file) @ '' ('' @
                             (case rs_knowledge_id file of None \<Rightarrow> ''None'' | Some i \<Rightarrow> i) @ '')''] else []))))))))"

text \<open>\<open>lines[max(0, start - 1):end]\<close>; piped input takes all lines up from the start when the end is zero.\<close>

definition line_slice :: "int \<Rightarrow> int \<Rightarrow> string list \<Rightarrow> string list" where
  "line_slice start stop ls = drop (nat (max 0 (start - 1))) (take (nat stop) ls)"

definition kb_sed ::
    "shell_env \<Rightarrow> shell_db \<Rightarrow> user_row \<Rightarrow> pydict list \<Rightarrow> char set \<Rightarrow> string list \<Rightarrow> string option \<Rightarrow> string shell"
where
  "kb_sed env db user model_knowledge flags args piped_input =
     (case piped_input of
        Some text \<Rightarrow>
          (let ls = str_lines text;
               rng = (if CHR ''n'' \<in> flags then (case args of [] \<Rightarrow> None | a # _ \<Rightarrow> line_range False a) else None);
               (start, stop) = (case rng of None \<Rightarrow> (1, 0) | Some r \<Rightarrow> r)
           in Inr (unlines (line_slice start (if stop = 0 then int (length ls) else stop) ls)))
      | None \<Rightarrow>
          (let ranges = filter (\<lambda>a. line_range True a \<noteq> None) args;
               refs = filter (\<lambda>a. line_range True a = None) args
           in if ranges = [] \<or> refs = [] \<or> last refs = []
              then Inr (''Usage: sed -n '' @ [quote_char] @ ''40,60p'' @ [quote_char] @ '' <file>'')
              else
                (let (start, stop) = the (line_range True (last ranges))
                 in if start > stop
                    then Inr (''Invalid range: start ('' @ int_text start @ '') > end ('' @ int_text stop @ '')'')
                    else with_file env db user model_knowledge (last refs) (\<lambda>_ content.
                           let ls = str_lines content; tot = length ls
                           in Inr (unlines (line_slice start stop ls) @ nl @ ''[lines '' @ int_text start @ ''-''
                                   @ int_text (min stop (int tot)) @ '' of '' @ nat_text tot @ '']'')))))"

subsection \<open>Commands that search\<close>

definition no_matches :: "string \<Rightarrow> string" where
  "no_matches pattern = ''No matches for '' @ [dquote_char] @ pattern @ [dquote_char]"

text \<open>The file, the extension and the directory among the arguments after the pattern; of each the last.\<close>

definition lstrip_char :: "char \<Rightarrow> string \<Rightarrow> string" where
  "lstrip_char c s = dropWhile (\<lambda>x. x = c) s"

definition is_ext_arg :: "string \<Rightarrow> bool" where
  "is_ext_arg arg = (CHR ''*'' \<in> set arg \<or> starts_with arg ''.'')"

definition grep_scope :: "string list \<Rightarrow> string \<times> string \<times> string" where
  "grep_scope args =
     fold (\<lambda>arg (file_ref, ext, scope).
       if is_ext_arg arg then (file_ref, lstrip_char (CHR ''.'') (lstrip_char (CHR ''*'') arg), scope)
       else if str_ends_with arg ''/'' then (file_ref, ext, strip_char slash_char arg)
       else (arg, ext, scope)) args ([], [], [])"

definition grep_text ::
    "matcher \<Rightarrow> string \<Rightarrow> int \<Rightarrow> ((nat \<times> string) list \<Rightarrow> string) \<Rightarrow> (string \<times> int) shell"
where
  "grep_text m text budget show_found =
     rbind (matching_lines m 1 (str_lines text) budget) (\<lambda>(found, budget). Inr (show_found found, budget))"

definition grep_piped :: "matcher \<Rightarrow> string \<Rightarrow> char set \<Rightarrow> string \<Rightarrow> int \<Rightarrow> (string \<times> int) shell" where
  "grep_piped m pattern flags text budget =
     grep_text m text budget (\<lambda>found.
       if CHR ''c'' \<in> flags then nat_text (length found)
       else if CHR ''l'' \<in> flags then (if found \<noteq> [] then ''(standard input)'' else no_matches pattern)
       else if found \<noteq> [] then unlines (map (\<lambda>(i, line). numbered i line) found) else no_matches pattern)"

definition grep_file :: "matcher \<Rightarrow> string \<Rightarrow> char set \<Rightarrow> kb_file \<Rightarrow> int \<Rightarrow> (string \<times> int) shell" where
  "grep_file m pattern flags f budget =
     rbind (text_content f) (\<lambda>content.
       grep_text m content budget (\<lambda>found.
         if CHR ''c'' \<in> flags then kb_id f @ ''  '' @ kb_filename f @ '': '' @ nat_text (length found)
         else if CHR ''l'' \<in> flags then (if found \<noteq> [] then kb_id f @ ''  '' @ kb_filename f else no_matches pattern)
         else if found = [] then no_matches pattern @ '' in '' @ kb_filename f
         else unlines (map (\<lambda>(i, line). numbered i line) found)))"

text \<open>The directories a scope means in the knowledge bases of the files, with all below them.\<close>

definition scope_dirs :: "shell_env \<Rightarrow> shell_db \<Rightarrow> file_info list \<Rightarrow> string \<Rightarrow> string set" where
  "scope_dirs env db accessible scope =
     \<Union> (set (map (\<lambda>k. case resolve_dir_path (se_rank env) (sd_dirs db) scope k of
                   None \<Rightarrow> {}
                 | Some i \<Rightarrow> if i \<noteq> [] then get_descendant_dir_ids (se_rank env) (sd_dirs db) i k else {})
            (knowledge_ids env accessible)))"

definition in_dirs :: "string set \<Rightarrow> file_info \<Rightarrow> bool" where
  "in_dirs dirs info = (case fx_directory_id info of None \<Rightarrow> False | Some i \<Rightarrow> i \<in> dirs)"

text \<open>What is collected over many files: the lines shown, the files with a match and how many, and the time left.\<close>

record grep_state =
  gs_results :: "string list"
  gs_counts :: "(file_info \<times> nat) list"
  gs_budget :: int

definition grep_one :: "shell_env \<Rightarrow> shell_db \<Rightarrow> matcher \<Rightarrow> char set \<Rightarrow> file_info \<Rightarrow> grep_state \<Rightarrow> grep_state shell" where
  "grep_one env db m flags info st =
     (case readable_file db (fx_id info) of
        None \<Rightarrow> Inr st
      | Some f \<Rightarrow>
          if \<not> truthy (content_value f) then Inr st
          else rbind (text_content f) (\<lambda>content.
            rbind (matching_lines m 1 (str_lines content) (gs_budget st)) (\<lambda>(found, budget).
              let rows = map (\<lambda>(i, line). fx_id info @ ''  '' @ fx_filename info @ '':'' @ nat_text i @ '': '' @ str_rstrip line) found
              in Inr (if found = [] then st\<lparr>gs_budget := budget\<rparr>
                 else \<lparr>gs_results = (if CHR ''c'' \<in> flags \<or> CHR ''l'' \<in> flags then gs_results st
                         else gs_results st @ take (se_max_matches env - length (gs_results st)) rows),
                       gs_counts = gs_counts st @ [(info, length found)], gs_budget = budget\<rparr>))))"

definition grep_report :: "shell_env \<Rightarrow> string \<Rightarrow> char set \<Rightarrow> nat \<Rightarrow> grep_state \<Rightarrow> string" where
  "grep_report env pattern flags searched st =
     (let tot = sum_list (map snd (gs_counts st))
      in if CHR ''c'' \<in> flags then
           (if gs_counts st = [] then no_matches pattern
            else unlines (map (\<lambda>(fi, n). fx_id fi @ ''  '' @ fx_filename fi @ '': '' @ nat_text n) (gs_counts st)
                   @ [''Total: '' @ nat_text tot @ '' matches in '' @ nat_text (length (gs_counts st)) @ '' files'']))
         else if CHR ''l'' \<in> flags then
           (if gs_counts st = [] then no_matches pattern
            else unlines (map (\<lambda>(fi, _). fx_id fi @ ''  '' @ fx_filename fi) (gs_counts st)))
         else if gs_results st = [] then no_matches pattern @ '' across '' @ nat_text searched @ '' files''
         else unlines (gs_results st) @
           (if tot > se_max_matches env
            then nl @ ''[showing '' @ nat_text (se_max_matches env) @ '' of '' @ nat_text tot @ '' matches]'' else []))"

definition grep_files ::
    "shell_env \<Rightarrow> shell_db \<Rightarrow> user_row \<Rightarrow> pydict list \<Rightarrow> matcher \<Rightarrow> string \<Rightarrow> char set \<Rightarrow> string \<Rightarrow> string \<Rightarrow> int
     \<Rightarrow> (string \<times> int) shell"
where
  "grep_files env db user model_knowledge m pattern flags ext scope budget =
     rbind (get_accessible_files env db user model_knowledge None) (\<lambda>accessible.
       let none_found = ''No files found under '' @ [dquote_char] @ scope @ ''/'' @ [dquote_char];
           scoped = (if scope = [] then accessible else filter (in_dirs (scope_dirs env db accessible scope)) accessible);
           wanted = (if ext = [] then scoped else filter (\<lambda>info. str_ends_with (fx_filename info) (''.'' @ ext)) scoped)
       in if scope \<noteq> [] \<and> scoped = [] then Inr (none_found, budget)
          else if length wanted > se_max_grep_files env
          then Inr (''Too many files ('' @ nat_text (length wanted) @ ''). Scope your search: grep '' @ [dquote_char] @ pattern
                 @ [dquote_char] @ '' docs/ or grep '' @ [dquote_char] @ pattern @ [dquote_char] @ '' *.py'', budget)
          else rbind (rfold (grep_one env db m flags) wanted \<lparr>gs_results = [], gs_counts = [], gs_budget = budget\<rparr>) (\<lambda>st.
                 Inr (grep_report env pattern flags (length wanted) st, gs_budget st)))"

definition kb_grep ::
    "shell_env \<Rightarrow> shell_db \<Rightarrow> user_row \<Rightarrow> pydict list \<Rightarrow> char set \<Rightarrow> string list \<Rightarrow> string option \<Rightarrow> int \<Rightarrow> (string \<times> int) shell"
where
  "kb_grep env db user model_knowledge flags args piped_input budget =
     (case args of
        [] \<Rightarrow> Inr (''Usage: grep [-E] [-i] [-l] [-c] '' @ [dquote_char] @ ''pattern'' @ [dquote_char] @ '' [file] [*.ext]'', budget)
      | pattern # rest \<Rightarrow>
          (let (file_ref, ext, scope) = grep_scope rest
           in case build_matcher (se_engine env) pattern (CHR ''i'' \<in> flags) (CHR ''E'' \<in> flags) of
                Inl err \<Rightarrow> Inr (err, budget)
              | Inr m \<Rightarrow>
                  (case piped_input of
                     Some text \<Rightarrow> grep_piped m pattern flags text budget
                   | None \<Rightarrow>
                       if file_ref \<noteq> [] \<and> scope = []
                       then rbind (resolve_file env db user model_knowledge file_ref) (\<lambda>r.
                              case r of
                                NotFound \<Rightarrow> grep_files env db user model_knowledge m pattern flags ext file_ref budget
                              | Ambiguous e \<Rightarrow> Inr (e, budget)
                              | Resolved file \<Rightarrow> grep_file m pattern flags (rs_file file) budget)
                       else grep_files env db user model_knowledge m pattern flags ext scope budget)))"

definition kb_find :: "shell_env \<Rightarrow> shell_db \<Rightarrow> user_row \<Rightarrow> pydict list \<Rightarrow> string list \<Rightarrow> string shell" where
  "kb_find env db user model_knowledge args =
     (case args of
        [] \<Rightarrow> Inr (''Usage: find '' @ [dquote_char] @ ''*.md'' @ [dquote_char] @ '' or find docs/ '' @ [dquote_char] @ ''*.md'' @ [dquote_char])
      | a # rest \<Rightarrow>
          (let two = (rest \<noteq> [] \<and> (slash_char \<in> set a \<or> \<not> (CHR ''*'' \<in> set a \<or> CHR ''?'' \<in> set a)));
               scope = (if two then strip_char slash_char a else []);
               pattern = (if two then hd rest else a)
           in rbind (get_accessible_files env db user model_knowledge None) (\<lambda>accessible.
              let scoped = (if scope = [] then accessible else filter (in_dirs (scope_dirs env db accessible scope)) accessible);
                  matched = filter (\<lambda>f. fnmatch (fx_filename f) pattern) scoped
              in Inr (if matched = []
                      then ''No files matching '' @ [dquote_char] @ pattern @ [dquote_char] @
                           (if scope \<noteq> [] then '' under '' @ [dquote_char] @ scope @ ''/'' @ [dquote_char] else [])
                      else unlines (map (\<lambda>f. fx_id f @ ''  '' @ fx_filename f @
                             (if text_given (fx_knowledge_name f) then '' ('' @ the (fx_knowledge_name f) @ '')'' else [])) matched)))))"

subsection \<open>The tree\<close>

text \<open>The lines below a directory. The connector of an entry depends on whether it is the last.\<close>

fun tree_lines :: "shell_env \<Rightarrow> directory_tree \<Rightarrow> nat \<Rightarrow> string option \<Rightarrow> string \<Rightarrow> string list shell" where
  "tree_lines env tree 0 parent_id prefix_text = Inl TooDeep"
| "tree_lines env tree (Suc limit) parent_id prefix_text =
     (let files = map tf_filename (get_files_in_dir tree parent_id);
          subdirs = get_subdirs tree parent_id;
          n = length subdirs + length files;
          connector = (\<lambda>idx. if Suc idx = n then se_last env else se_branch env)
      in rbind (rmap (\<lambda>(idx, d).
             rbind (tree_lines env tree limit (Some (kd_id d)) (prefix_text @ (if Suc idx = n then ''    '' else se_bar env)))
               (\<lambda>below. Inr ((prefix_text @ connector idx @ se_folder env @ '' '' @ kd_name d @ ''/'') # below)))
           (enumerate 0 subdirs))
         (\<lambda>blocks. Inr (concat blocks @
            map (\<lambda>(idx, name). prefix_text @ connector idx @ name) (enumerate (length subdirs) files))))"

definition tree_kb :: "shell_env \<Rightarrow> shell_db \<Rightarrow> string \<Rightarrow> kb_info \<Rightarrow> string list shell" where
  "tree_kb env db scope kb =
     rbind (tree_of env db (fst kb)) (\<lambda>tree.
       let root = (if scope \<noteq> [] then resolve_path scope tree else None)
       in if scope \<noteq> [] \<and> root = None
          then Inr [kb_header kb, ''  Directory not found: '' @ scope, []]
          else rbind (tree_lines env tree (se_limit env) root ''  '') (\<lambda>ls.
                 Inr (kb_header kb # (if scope \<noteq> [] then [''  '' @ scope @ ''/''] else []) @ ls @
                   [nl @ ''  '' @ nat_text (length (dt_dirs tree)) @ '' directories, '' @ nat_text (length (dt_files tree)) @ '' files'', []])))"

definition kb_tree :: "shell_env \<Rightarrow> shell_db \<Rightarrow> user_row \<Rightarrow> pydict list \<Rightarrow> string list \<Rightarrow> string shell" where
  "kb_tree env db user model_knowledge args =
     rbind (get_accessible_kb_ids env db user model_knowledge None) (\<lambda>kbs.
     rbind (direct_files env db user model_knowledge) (\<lambda>direct.
       if kbs = [] \<and> direct = [] then Inr ''No knowledge bases found.''
       else
         (let scope = (case args of [] \<Rightarrow> [] | a # _ \<Rightarrow> strip_char slash_char a)
          in rbind (rmap (tree_kb env db scope) kbs) (\<lambda>blocks.
               Inr (str_rstrip (unlines (concat blocks @
                 (if direct \<noteq> [] \<and> scope = []
                  then [''Attached Files:''] @
                       map (\<lambda>(idx, f). ''  '' @ (if Suc idx = length direct then se_last env else se_branch env) @ fx_filename f)
                         (enumerate 0 direct)
                       @ [nl @ ''  0 directories, '' @ nat_text (length direct) @ '' files'', []]
                  else []))))))))"

subsection \<open>Pipes and the entry point\<close>

definition command_names :: "string list" where
  "command_names = [''cat'', ''find'', ''grep'', ''head'', ''ls'', ''sed'', ''stat'', ''tail'', ''tree'', ''wc'']"

definition untimed :: "int \<Rightarrow> string shell \<Rightarrow> (string \<times> int) shell" where
  "untimed budget r = rbind r (\<lambda>s. Inr (s, budget))"

definition run_command ::
    "shell_env \<Rightarrow> shell_db \<Rightarrow> user_row \<Rightarrow> pydict list \<Rightarrow> string \<Rightarrow> string list \<Rightarrow> string option \<Rightarrow> int \<Rightarrow> (string \<times> int) shell option"
where
  "run_command env db user model_knowledge cmd tokens piped_input budget =
     (let (flags, args) = extract_flags tokens
      in if cmd = ''ls'' then Some (untimed budget (kb_ls env db user model_knowledge flags args))
         else if cmd = ''cat'' then Some (untimed budget (kb_cat env db user model_knowledge flags args))
         else if cmd = ''head'' then Some (untimed budget (kb_head env db user model_knowledge args piped_input))
         else if cmd = ''tail'' then Some (untimed budget (kb_tail env db user model_knowledge args piped_input))
         else if cmd = ''grep'' then Some (kb_grep env db user model_knowledge flags args piped_input budget)
         else if cmd = ''find'' then Some (untimed budget (kb_find env db user model_knowledge args))
         else if cmd = ''wc'' then Some (untimed budget (kb_wc env db user model_knowledge flags args piped_input))
         else if cmd = ''stat'' then Some (untimed budget (kb_stat env db user model_knowledge args))
         else if cmd = ''sed'' then Some (untimed budget (kb_sed env db user model_knowledge flags args piped_input))
         else if cmd = ''tree'' then Some (untimed budget (kb_tree env db user model_knowledge args))
         else None)"

fun execute_pipeline ::
    "shell_env \<Rightarrow> shell_db \<Rightarrow> user_row \<Rightarrow> pydict list \<Rightarrow> string list list \<Rightarrow> string option \<Rightarrow> int \<Rightarrow> string shell"
where
  "execute_pipeline env db user model_knowledge [] piped_input budget = Inr (case piped_input of None \<Rightarrow> [] | Some s \<Rightarrow> s)"
| "execute_pipeline env db user model_knowledge (tokens # segments) piped_input budget =
     (case tokens of
        [] \<Rightarrow> Inl (Raised IndexError)
      | cmd # rest \<Rightarrow>
          (case run_command env db user model_knowledge (str_lower cmd) rest piped_input budget of
             None \<Rightarrow> Inr (''Unknown command: '' @ str_lower cmd @ ''. Available: '' @ str_join '', '' command_names)
           | Some r \<Rightarrow> rbind r (\<lambda>(out, budget). execute_pipeline env db user model_knowledge segments (Some out) budget)))"

definition usage_hint :: string where
  "usage_hint = ''Run kb_exec('' @ [dquote_char] @ ''ls'' @ [dquote_char] @ '') to start.''"

definition truncate_output :: "shell_env \<Rightarrow> string \<Rightarrow> string" where
  "truncate_output env out =
     (if length out > se_max_output env
      then take (se_max_output env) out @ nl @ ''[output truncated at '' @ comma_text (int (se_max_output env)) @ '' chars ''
           @ se_dash env @ '' narrow the command with a path, glob, head/tail/sed or grep]''
      else out)"

definition kb_exec :: "shell_env \<Rightarrow> shell_db \<Rightarrow> user_row option \<Rightarrow> pydict list \<Rightarrow> string \<Rightarrow> string" where
  "kb_exec env db user model_knowledge command =
     (case user of
        None \<Rightarrow> ''Error: User context not available''
      | Some user \<Rightarrow>
          if str_strip command = []
          then ''Usage: kb_exec('' @ [dquote_char] @ ''<command>'' @ [dquote_char] @ ''). '' @ usage_hint
          else
            (let segments = parse_pipeline (str_strip command)
             in if segments = [] then ''Could not parse command. '' @ usage_hint
                else (case execute_pipeline env db user model_knowledge segments None (se_time env) of
                        Inl e \<Rightarrow> ''Error: '' @ se_message env e
                      | Inr out \<Rightarrow> truncate_output env out)))"

subsection \<open>Only accessible files show\<close>

text \<open>
  Two states of the tables that differ only in files outside a set: the same files exist and have data in both, and those
  of the set are the same rows.
\<close>

definition differ_outside :: "string set \<Rightarrow> shell_db \<Rightarrow> shell_db \<Rightarrow> bool" where
  "differ_outside ids db db' =
     (db' = db\<lparr>sd_files := sd_files db'\<rparr> \<and>
      (\<forall>i. (get_kb_file (sd_files db') i = None) = (get_kb_file (sd_files db) i = None) \<and>
           (readable_file db' i = None) = (readable_file db i = None)) \<and>
      (\<forall>i \<in> ids. get_kb_file (sd_files db') i = get_kb_file (sd_files db) i))"

lemma differ_outside_tables:
  assumes "differ_outside ids db db'"
  shows "sd_kbs db' = sd_kbs db" "sd_dirs db' = sd_dirs db" "sd_links db' = sd_links db" "sd_grants db' = sd_grants db"
    "sd_groups db' = sd_groups db"
proof -
  have e: "db' = db\<lparr>sd_files := sd_files db'\<rparr>" using assms by (simp add: differ_outside_def)
  show "sd_kbs db' = sd_kbs db" by (subst e) simp
  show "sd_dirs db' = sd_dirs db" by (subst e) simp
  show "sd_links db' = sd_links db" by (subst e) simp
  show "sd_grants db' = sd_grants db" by (subst e) simp
  show "sd_groups db' = sd_groups db" by (subst e) simp
qed

lemma differ_outside_files:
  assumes "differ_outside ids db db'"
  shows "get_kb_file (sd_files db) i = None \<Longrightarrow> get_kb_file (sd_files db') i = None"
    "i \<in> ids \<Longrightarrow> get_kb_file (sd_files db') i = get_kb_file (sd_files db) i"
    "readable_file db i = None \<Longrightarrow> readable_file db' i = None"
    "i \<in> ids \<Longrightarrow> readable_file db' i = readable_file db i"
  using assms unfolding differ_outside_def by (blast, blast, blast, simp add: readable_file_def)

lemma accessible_kbs_same:
  assumes "differ_outside ids db db'"
  shows "get_accessible_kb_ids env db' user mk k = get_accessible_kb_ids env db user mk k"
proof -
  note t = differ_outside_tables [OF assms]
  have r: "readable_kb db' user = readable_kb db user"
    by (intro ext) (auto simp: readable_kb_def get_kb_def has_kb_access_def user_group_ids_def t split: pyval.split option.split)
  have "search_knowledge_bases env db' user = search_knowledge_bases env db user"
    by (intro ext) (simp add: search_knowledge_bases_def user_group_ids_def t)
  with r show ?thesis by (simp add: get_accessible_kb_ids_def cong: if_cong)
qed

lemma get_kb_file_id: "get_kb_file fs i = Some f \<Longrightarrow> kb_id f = i"
  by (auto simp: get_kb_file_def find_Some_iff)

lemma linked_files_same:
  assumes d: "differ_outside ids db db'" and sub: "fx_id ` set (kb_files db kb) \<subseteq> ids"
  shows "get_files_with_directories (fst kb) (sd_links db) (sd_files db') =
    get_files_with_directories (fst kb) (sd_links db) (sd_files db)"
proof -
  have "(case get_kb_file (sd_files db') (kf_file_id l) of None \<Rightarrow> [] | Some f \<Rightarrow> [(f, kf_directory_id l)]) =
      (case get_kb_file (sd_files db) (kf_file_id l) of None \<Rightarrow> [] | Some f \<Rightarrow> [(f, kf_directory_id l)])"
    if l: "l \<in> set (sd_links db)" "kf_knowledge_id l = fst kb" for l
  proof (cases "get_kb_file (sd_files db) (kf_file_id l)")
    case None
    with differ_outside_files(1) [OF d None] show ?thesis by simp
  next
    case (Some f)
    with l have "(f, kf_directory_id l) \<in> set (get_files_with_directories (fst kb) (sd_links db) (sd_files db))"
      by (force simp: get_files_with_directories_def)
    then have "kb_id f \<in> fx_id ` set (kb_files db kb)" by (force simp: kb_files_def file_info_of_def)
    with sub get_kb_file_id [OF Some] have "kf_file_id l \<in> ids" by auto
    with differ_outside_files(2) [OF d] show ?thesis by simp
  qed
  then show ?thesis
    unfolding get_files_with_directories_def by (intro arg_cong [of _ _ concat] map_cong refl) simp
qed

lemma kb_files_same:
  assumes "differ_outside ids db db'" "fx_id ` set (kb_files db kb) \<subseteq> ids"
  shows "kb_files db' kb = kb_files db kb"
  using linked_files_same [OF assms] differ_outside_tables [OF assms(1)] by (simp add: kb_files_def)

lemma attached_file_same:
  assumes d: "differ_outside ids db db'" and sub: "fx_id ` set (attached_file db v) \<subseteq> ids"
  shows "attached_file db' v = attached_file db v"
proof (cases v)
  case (PStr i)
  show ?thesis
  proof (cases "get_kb_file (sd_files db) i")
    case None
    with differ_outside_files(1) [OF d None] PStr show ?thesis by (simp add: attached_file_def)
  next
    case (Some f)
    with sub PStr get_kb_file_id [OF Some] have "i \<in> ids" by (simp add: attached_file_def file_info_of_def)
    with differ_outside_files(2) [OF d] PStr show ?thesis by (simp add: attached_file_def)
  qed
qed (simp_all add: attached_file_def)

text \<open>The files of the user, and of one of the knowledge bases.\<close>

definition all_ids :: "shell_env \<Rightarrow> shell_db \<Rightarrow> user_row \<Rightarrow> pydict list \<Rightarrow> string set" where
  "all_ids env db user mk =
     (case get_accessible_files env db user mk None of Inl _ \<Rightarrow> {} | Inr fs \<Rightarrow> fx_id ` set fs)"

definition order_ok :: "shell_env \<Rightarrow> bool" where
  "order_ok env = (\<forall>vs. set (se_order env vs) = set vs)"

lemma accessible_parts:
  assumes "get_accessible_kb_ids env db user mk None = Inr kbs" "raised (attached_ids ''file'' mk) = Inr attached"
  shows "kb \<in> set kbs \<Longrightarrow> fx_id ` set (kb_files db kb) \<subseteq> all_ids env db user mk"
    "v \<in> set (se_order env attached) \<Longrightarrow> fx_id ` set (attached_file db v) \<subseteq> all_ids env db user mk"
  using assms by (auto simp: all_ids_def get_accessible_files_def)

text \<open>Asking for one knowledge base gives it when it is one of those listed.\<close>

lemma one_kb:
  assumes k: "get_accessible_kb_ids env db user mk (Some i) = Inr kbs'" and all: "get_accessible_kb_ids env db user mk None = Inr kbs"
    and i: "i \<in> fst ` set kbs" "i \<noteq> []" and order: "order_ok env"
  shows "fst ` set kbs' \<subseteq> fst ` set kbs"
proof -
  have "sk_id kb = i" if "find (\<lambda>kb. sk_id kb = i) (sd_kbs db) = Some kb" for kb
    using that by (auto simp: find_Some_iff)
  then have one: "fst ` set (readable_kb db user (PStr i)) \<subseteq> {i}"
    by (cases "find (\<lambda>kb. sk_id kb = i) (sd_kbs db)") (auto simp: readable_kb_def get_kb_def kb_info_of_def)
  show ?thesis
  proof (cases "mk = []")
    case True
    with k i have "kbs' = readable_kb db user (PStr i)" by (simp add: get_accessible_kb_ids_def text_given_def)
    with one i show ?thesis by auto
  next
    case False
    with k i(2) have "kbs' = [] \<or> kbs' = concat (map (readable_kb db user) (se_order env [PStr i]))"
      by (auto simp: get_accessible_kb_ids_def text_given_def rbind_Inr_iff split: if_splits)
    then have "set kbs' \<subseteq> (\<Union>v \<in> set (se_order env [PStr i]). set (readable_kb db user v))" by auto
    also have "\<dots> = set (readable_kb db user (PStr i))" using order by (simp add: order_ok_def)
    finally show ?thesis using one i by auto
  qed
qed

lemma accessible_files_same:
  assumes d: "differ_outside (all_ids env db user mk) db db'" and order: "order_ok env"
    and k: "k = None \<or> (\<exists>i kbs. k = Some i \<and> i \<noteq> [] \<and> get_accessible_kb_ids env db user mk None = Inr kbs \<and> i \<in> fst ` set kbs)"
  shows "get_accessible_files env db' user mk k = get_accessible_files env db user mk k"
proof (cases "get_accessible_kb_ids env db user mk k")
  case (Inl e)
  then show ?thesis by (simp add: get_accessible_files_def accessible_kbs_same [OF d])
next
  case (Inr kbs)
  show ?thesis
  proof (cases "raised (attached_ids ''file'' mk)")
    case (Inl e)
    with Inr show ?thesis by (simp add: get_accessible_files_def accessible_kbs_same [OF d])
  next
    case attached: (Inr attached)
    obtain kbs0 where kbs0: "get_accessible_kb_ids env db user mk None = Inr kbs0" using k Inr by auto
    have sub: "fst ` set kbs \<subseteq> fst ` set kbs0"
    proof (cases k)
      case None
      with Inr kbs0 show ?thesis by simp
    next
      case (Some i)
      with k kbs0 have "i \<in> fst ` set kbs0" "i \<noteq> []" by auto
      with one_kb [OF _ kbs0 _ _ order] Inr Some show ?thesis by blast
    qed
    have files: "kb_files db' kb = kb_files db kb" if "kb \<in> set kbs" for kb
    proof -
      have "fst kb \<in> fst ` set kbs0" using sub that by blast
      then obtain kb0 where kb0: "kb0 \<in> set kbs0" "fst kb0 = fst kb" by (metis imageE)
      have "fx_id ` set (kb_files db kb) = fx_id ` set (kb_files db kb0)"
        by (force simp: kb_files_def kb0(2) file_info_of_def)
      with accessible_parts(1) [OF kbs0 attached kb0(1)] show ?thesis by (intro kb_files_same [OF d]) simp
    qed
    have "attached_file db' v = attached_file db v" if "v \<in> set (se_order env attached)" for v
      by (rule attached_file_same [OF d]) (rule accessible_parts(2) [OF kbs0 attached that])
    then have "map (attached_file db') (se_order env attached) = map (attached_file db) (se_order env attached)" by simp
    moreover have "map (kb_files db') kbs = map (kb_files db) kbs" by (rule map_cong [OF refl files])
    ultimately show ?thesis
      using Inr attached by (simp add: get_accessible_files_def accessible_kbs_same [OF d] del: map_eq_conv)
  qed
qed

text \<open>Command by command, the output is the same.\<close>

definition same_view :: "shell_env \<Rightarrow> shell_db \<Rightarrow> shell_db \<Rightarrow> user_row \<Rightarrow> pydict list \<Rightarrow> bool" where
  "same_view env db db' user mk = (differ_outside (all_ids env db user mk) db db' \<and> order_ok env)"

lemma same_viewD:
  assumes "same_view env db db' user mk"
  shows "differ_outside (all_ids env db user mk) db db'" "order_ok env"
    "get_accessible_files env db' user mk None = get_accessible_files env db user mk None"
    "get_accessible_kb_ids env db' user mk k = get_accessible_kb_ids env db user mk k"
  using assms accessible_files_same [of env db user mk db' None] accessible_kbs_same by (auto simp: same_view_def)

lemma seen_file_same:
  assumes "same_view env db db' user mk" "get_accessible_files env db user mk None = Inr acc" "info \<in> set acc"
  shows "readable_file db' (fx_id info) = readable_file db (fx_id info)"
  by (rule differ_outside_files(4) [OF same_viewD(1) [OF assms(1)]]) (use assms in \<open>simp add: all_ids_def\<close>)

lemma resolved_of_same:
  assumes "same_view env db db' user mk" "get_accessible_files env db user mk None = Inr acc" "info \<in> set acc"
  shows "resolved_of db' info = resolved_of db info"
  using seen_file_same [OF assms] by (simp add: resolved_of_def)

lemma by_path_same:
  assumes v: "same_view env db db' user mk" and acc: "get_accessible_files env db user mk None = Inr acc"
  shows "by_path env db' acc folder name ks = by_path env db acc folder name ks"
proof (induction ks)
  case (Cons k ks)
  have t: "sd_dirs db' = sd_dirs db" by (rule differ_outside_tables [OF same_viewD(1) [OF v]])
  show ?case
  proof (cases "resolve_dir_path (se_rank env) (sd_dirs db) folder k")
    case None
    with Cons t show ?thesis by simp
  next
    case (Some i)
    let ?found = "filter (\<lambda>info. fx_filename info = name \<and> fx_directory_id info = Some i) acc"
    have "resolved_of db' info = resolved_of db info" if "?found = [info]" for info
    proof -
      have "info \<in> set ?found" unfolding that by simp
      then show ?thesis using resolved_of_same [OF v acc] by simp
    qed
    with Cons t Some show ?thesis by (auto split: list.split resolution.split)
  qed
qed simp

lemma by_name_same:
  assumes "same_view env db db' user mk" "get_accessible_files env db user mk None = Inr acc"
  shows "by_name db' acc ref = by_name db acc ref"
proof -
  have "resolved_of db' info = resolved_of db info" if "filter (\<lambda>info. fx_filename info = ref) acc = [info]" for info
  proof -
    have "info \<in> set (filter (\<lambda>info. fx_filename info = ref) acc)" unfolding that by simp
    then show ?thesis using resolved_of_same [OF assms] by simp
  qed
  then show ?thesis by (auto simp: by_name_def split: list.split)
qed

lemma resolve_file_same:
  assumes v: "same_view env db db' user mk"
  shows "resolve_file env db' user mk ref = resolve_file env db user mk ref"
proof (cases "get_accessible_files env db user mk None")
  case (Inl e)
  with v show ?thesis by (simp add: resolve_file_def same_viewD(3))
next
  case (Inr acc)
  note d = same_viewD(1) [OF v]
  have ids: "all_ids env db user mk = fx_id ` set acc" by (simp add: all_ids_def Inr)
  have id: "kb_id f = ref" if "readable_file x ref = Some f" for x f
    using that get_kb_file_id by (auto simp: readable_file_def split: option.splits if_splits)
  show ?thesis
  proof (cases "readable_file db ref")
    case None
    have p: "by_path env db' acc = by_path env db acc" "by_name db' acc = by_name db acc"
      by (intro ext by_path_same [OF v Inr] by_name_same [OF v Inr])+
    show ?thesis
      unfolding resolve_file_def same_viewD(3) [OF v] Inr None differ_outside_files(3) [OF d None] rbind_simps p ..
  next
    case (Some f)
    show ?thesis
    proof (cases "ref \<in> fx_id ` set acc")
      case True
      with differ_outside_files(4) [OF d] have "readable_file db' ref = Some f" by (simp add: ids Some)
      with Some Inr v True id [OF Some] show ?thesis by (simp add: resolve_file_def same_viewD(3))
    next
      case False
      have "readable_file db' ref \<noteq> None" using d Some unfolding differ_outside_def by (metis option.distinct(1))
      then obtain f' where f': "readable_file db' ref = Some f'" by blast
      with Some Inr v False id [OF Some] id [OF f'] show ?thesis by (simp add: resolve_file_def same_viewD(3))
    qed
  qed
qed

lemma with_file_same:
  assumes "same_view env db db' user mk"
  shows "with_file env db' user mk = with_file env db user mk"
  by (intro ext) (simp add: with_file_def resolve_file_same [OF assms])

lemma scope_dirs_same:
  assumes "same_view env db db' user mk"
  shows "scope_dirs env db' = scope_dirs env db"
  by (intro ext) (simp only: scope_dirs_def differ_outside_tables(2) [OF same_viewD(1) [OF assms]])

lemma rfold_cong: "(\<And>x s. x \<in> set xs \<Longrightarrow> f x s = g x s) \<Longrightarrow> rfold f xs s = rfold g xs s"
  by (induction xs arbitrary: s) (auto intro!: arg_cong [of _ _ "rbind _"])

lemma rmap_cong: "(\<And>x. x \<in> set xs \<Longrightarrow> f x = g x) \<Longrightarrow> rmap f xs = rmap g xs"
  by (induction xs) auto

lemma grep_files_same:
  assumes v: "same_view env db db' user mk"
  shows "grep_files env db' user mk m pattern flags ext scope budget = grep_files env db user mk m pattern flags ext scope budget"
proof (cases "get_accessible_files env db user mk None")
  case (Inl e)
  with v show ?thesis by (simp add: grep_files_def same_viewD(3))
next
  case (Inr acc)
  have "rfold (grep_one env db' m flags) xs st = rfold (grep_one env db m flags) xs st" if "set xs \<subseteq> set acc" for xs st
    using that seen_file_same [OF v Inr] by (intro rfold_cong) (auto simp: grep_one_def)
  then show ?thesis
    using Inr v by (auto simp: grep_files_def same_viewD(3) scope_dirs_same Let_def)
qed

lemma kb_grep_same:
  assumes "same_view env db db' user mk"
  shows "kb_grep env db' user mk = kb_grep env db user mk"
proof -
  have "resolve_file env db' user mk = resolve_file env db user mk" "grep_files env db' user mk = grep_files env db user mk"
    by (intro ext resolve_file_same [OF assms] grep_files_same [OF assms])+
  then show ?thesis by (intro ext) (unfold kb_grep_def, simp only:)
qed

lemma kb_find_same:
  assumes "same_view env db db' user mk"
  shows "kb_find env db' user mk = kb_find env db user mk"
  by (intro ext) (unfold kb_find_def same_viewD(3) [OF assms] scope_dirs_same [OF assms], rule refl)

lemma direct_files_same:
  assumes "same_view env db db' user mk"
  shows "direct_files env db' user mk = direct_files env db user mk"
  by (simp add: direct_files_def same_viewD(3) [OF assms])

text \<open>Where the files attached to the model can be read, so can the trees of the knowledge bases.\<close>

lemma direct_files_attached:
  assumes "direct_files env db user mk = Inr direct"
  shows "\<exists>attached. raised (attached_ids ''file'' mk) = Inr attached"
proof (cases "mk = []")
  case True
  then show ?thesis by (simp add: attached_ids_def raised_def)
next
  case False
  with assms show ?thesis by (auto simp: direct_files_def get_accessible_files_def rbind_Inr_iff)
qed

lemma tree_of_same:
  assumes v: "same_view env db db' user mk" and kbs: "get_accessible_kb_ids env db user mk None = Inr kbs"
    and direct: "direct_files env db user mk = Inr direct" and kb: "kb \<in> set kbs"
  shows "tree_of env db' (fst kb) = tree_of env db (fst kb)"
proof -
  obtain attached where "raised (attached_ids ''file'' mk) = Inr attached" using direct_files_attached [OF direct] by blast
  from linked_files_same [OF same_viewD(1) [OF v] accessible_parts(1) [OF kbs this kb]] show ?thesis
    by (simp add: tree_of_def build_directory_tree_def differ_outside_tables [OF same_viewD(1) [OF v]])
qed

lemma ls_kb_same:
  assumes v: "same_view env db db' user mk" and kbs: "get_accessible_kb_ids env db user mk None = Inr kbs"
    and direct: "direct_files env db user mk = Inr direct" and kb: "kb \<in> set kbs"
  shows "ls_kb env db' user mk flat folder kb = ls_kb env db user mk flat folder kb"
proof -
  have "get_accessible_files env db' user mk (Some (fst kb)) = get_accessible_files env db user mk (Some (fst kb))"
  proof (cases "fst kb = []")
    case True
    have "get_accessible_files env x user mk (Some []) = get_accessible_files env x user mk None" for x
      by (simp add: get_accessible_files_def get_accessible_kb_ids_def text_given_def)
    with True same_viewD(3) [OF v] show ?thesis by simp
  next
    case False
    with kbs kb show ?thesis by (intro accessible_files_same [OF same_viewD(1,2) [OF v]]) auto
  qed
  with tree_of_same [OF v kbs direct kb] show ?thesis
    by (simp add: ls_kb_def differ_outside_tables [OF same_viewD(1) [OF v]])
qed

lemma kb_ls_same:
  assumes v: "same_view env db db' user mk"
  shows "kb_ls env db' user mk = kb_ls env db user mk"
proof (intro ext)
  fix flags args
  show "kb_ls env db' user mk flags args = kb_ls env db user mk flags args"
  proof (cases "get_accessible_kb_ids env db user mk None")
    case (Inl e)
    then show ?thesis by (simp add: kb_ls_def same_viewD(4) [OF v])
  next
    case kbs: (Inr kbs)
    show ?thesis
    proof (cases "direct_files env db user mk")
      case (Inl e)
      with kbs show ?thesis by (simp add: kb_ls_def same_viewD(4) [OF v] direct_files_same [OF v])
    next
      case (Inr direct)
      have "rmap (ls_kb env db' user mk flat folder) xs = rmap (ls_kb env db user mk flat folder) xs" if "set xs \<subseteq> set kbs" for xs flat folder
        using that ls_kb_same [OF v kbs Inr] by (intro rmap_cong) auto
      with kbs Inr show ?thesis by (simp add: kb_ls_def same_viewD(4) [OF v] direct_files_same [OF v] Let_def)
    qed
  qed
qed

lemma kb_tree_same:
  assumes v: "same_view env db db' user mk"
  shows "kb_tree env db' user mk = kb_tree env db user mk"
proof (intro ext)
  fix args
  show "kb_tree env db' user mk args = kb_tree env db user mk args"
  proof (cases "get_accessible_kb_ids env db user mk None")
    case (Inl e)
    then show ?thesis by (simp add: kb_tree_def same_viewD(4) [OF v])
  next
    case kbs: (Inr kbs)
    show ?thesis
    proof (cases "direct_files env db user mk")
      case (Inl e)
      with kbs show ?thesis by (simp add: kb_tree_def same_viewD(4) [OF v] direct_files_same [OF v])
    next
      case (Inr direct)
      have "rmap (tree_kb env db' scope) kbs = rmap (tree_kb env db scope) kbs" for scope
        using tree_of_same [OF v kbs Inr] by (intro rmap_cong) (simp add: tree_kb_def)
      with kbs Inr show ?thesis by (simp add: kb_tree_def same_viewD(4) [OF v] direct_files_same [OF v])
    qed
  qed
qed

lemma run_command_same:
  assumes v: "same_view env db db' user mk"
  shows "run_command env db' user mk = run_command env db user mk"
proof -
  note w = with_file_same [OF v]
  have "kb_cat env db' user mk = kb_cat env db user mk" "kb_head env db' user mk = kb_head env db user mk"
    "kb_tail env db' user mk = kb_tail env db user mk" "kb_wc env db' user mk = kb_wc env db user mk"
    "kb_stat env db' user mk = kb_stat env db user mk" "kb_sed env db' user mk = kb_sed env db user mk"
    by (intro ext, (unfold kb_cat_def kb_head_def kb_tail_def kb_wc_def kb_stat_def kb_sed_def w)?, rule refl)+
  then show ?thesis
    by (intro ext, unfold run_command_def kb_ls_same [OF v] kb_tree_same [OF v] kb_grep_same [OF v] kb_find_same [OF v])
      (simp only:)
qed

lemma execute_pipeline_same:
  assumes "same_view env db db' user mk"
  shows "execute_pipeline env db' user mk segs piped budget = execute_pipeline env db user mk segs piped budget"
proof (induction segs arbitrary: piped budget)
  case (Cons tokens segs)
  then have "(\<lambda>(out, budget). execute_pipeline env db' user mk segs (Some out) budget) =
      (\<lambda>(out, budget). execute_pipeline env db user mk segs (Some out) budget)" by auto
  then show ?case unfolding execute_pipeline.simps run_command_same [OF assms] by (simp only:)
qed simp

text \<open>
  C11. A command shows nothing of the files its user may not read: whatever text and metadata the files outside the
  knowledge bases the user may read (or, of those, the ones attached to the model) and outside the attached files have,
  the output of every command line is the same. That a hidden file exists, and has data, is all it may depend on: a
  reference that is the identifier of such a file is refused before it is tried as a name.
\<close>

theorem hidden_files_never_show:
  assumes "differ_outside (all_ids env db user mk) db db'" "order_ok env"
  shows "kb_exec env db' (Some user) mk command = kb_exec env db (Some user) mk command"
  using assms execute_pipeline_same [of env db db' user mk] by (simp add: kb_exec_def same_view_def Let_def)

text \<open>A knowledge base of the reader, and one of another user.\<close>

definition text_file :: "string \<Rightarrow> string \<Rightarrow> string \<Rightarrow> kb_file" where
  "text_file i name text =
     \<lparr>kb_id = i, kb_filename = name, kb_data = Some [(''content'', PStr text)], kb_meta = None, kb_created_at = None, kb_updated_at = None\<rparr>"

definition shelf_link :: "string \<Rightarrow> string \<Rightarrow> knowledge_file_row" where
  "shelf_link k i =
     \<lparr>kf_id = i, kf_knowledge_id = k, kf_file_id = i, kf_directory_id = None, kf_user_id = ''u'', kf_created_at = 0, kf_updated_at = 0\<rparr>"

definition library :: "string \<Rightarrow> shell_db" where
  "library hidden =
     \<lparr>sd_kbs = [\<lparr>sk_id = ''k'', sk_user_id = ''u'', sk_name = ''Shelf'', sk_description = None, sk_updated_at = 1\<rparr>,
        \<lparr>sk_id = ''x'', sk_user_id = ''v'', sk_name = ''Safe'', sk_description = None, sk_updated_at = 1\<rparr>],
      sd_dirs = shelf, sd_links = [shelf_link ''k'' ''f1'', shelf_link ''x'' ''f2''],
      sd_files = [text_file ''f1'' ''a.md'' (''a token'' @ nl @ ''b''), text_file ''f2'' ''b.md'' hidden],
      sd_grants = [], sd_groups = \<lparr>db_users = [], db_groups = [], db_members = [], db_fk = False\<rparr>\<rparr>"

definition shelf_env :: shell_env where
  "shelf_env =
     \<lparr>se_rank = \<lambda>_. 0, se_order = remdups, se_engine = \<lambda>_ _. Inl [], se_limit = 9, se_time = 2, se_max_output = 300,
      se_max_grep_files = 20, se_max_matches = 5, se_str = \<lambda>_. [], se_message = \<lambda>_. [], se_folder = ''D'',
      se_last = ''L '', se_branch = ''B '', se_bar = ''I   '', se_dash = ''-''\<rparr>"

definition reader :: user_row where
  "reader = \<lparr>u_id = ''u'', u_role = ''user''\<rparr>"

lemma library_accessible:
  "get_accessible_files shelf_env (library ''s'') reader [] None =
    Inr [file_info_of (Some (''k'', ''Shelf'', [])) (text_file ''f1'' ''a.md'' (''a token'' @ nl @ ''b''), None)]"
  by code_simp

lemma library_differs: "differ_outside (all_ids shelf_env (library ''s'') reader []) (library ''s'') (library t)"
  unfolding all_ids_def library_accessible
  by (simp add: differ_outside_def library_def readable_file_def get_kb_file_def text_file_def has_data_def file_info_of_def)

lemma hidden_files_never_show_witness:
  "kb_exec shelf_env (library ''token'') (Some reader) [] ''grep token'' = ''f1  a.md:1: a token''"
proof -
  have "kb_exec shelf_env (library ''token'') (Some reader) [] ''grep token'' =
      kb_exec shelf_env (library ''s'') (Some reader) [] ''grep token''"
    by (rule hidden_files_never_show [OF library_differs]) (simp add: order_ok_def shelf_env_def)
  also have "\<dots> = ''f1  a.md:1: a token''" by code_simp
  finally show ?thesis .
qed

subsection \<open>What a search reports\<close>

definition line_has :: "string \<Rightarrow> nat \<times> string \<Rightarrow> bool" where
  "line_has pattern = (\<lambda>(_, line). str_contains line pattern)"

lemma matching_lines_text: "matching_lines (Contains False sp) i ls budget = Inr (filter (line_has sp) (enumerate i ls), budget)"
  by (induction ls arbitrary: i) (simp_all add: line_has_def)

text \<open>The text of a file, empty for one without data, and its matching lines as they are shown.\<close>

definition shown_text :: "shell_db \<Rightarrow> file_info \<Rightarrow> string" where
  "shown_text db info =
     (case readable_file db (fx_id info) of
        None \<Rightarrow> []
      | Some f \<Rightarrow> (case content_value f of PStr s \<Rightarrow> s | _ \<Rightarrow> []))"

definition match_rows :: "shell_db \<Rightarrow> string \<Rightarrow> file_info \<Rightarrow> string list" where
  "match_rows db pattern info =
     (if shown_text db info = [] then []
      else map (\<lambda>(i, line). fx_id info @ ''  '' @ fx_filename info @ '':'' @ nat_text i @ '': '' @ str_rstrip line)
             (filter (line_has pattern) (enumerate 1 (str_lines (shown_text db info)))))"

definition holds_text :: "shell_db \<Rightarrow> file_info \<Rightarrow> bool" where
  "holds_text db info =
     (case readable_file db (fx_id info) of None \<Rightarrow> True | Some f \<Rightarrow> is_str (content_value f))"

lemma grep_one_text:
  assumes "holds_text db info"
  shows "grep_one env db (Contains False pattern) {} info st =
    Inr (let rows = match_rows db pattern info
         in if rows = [] then st
            else st\<lparr>gs_results := gs_results st @ take (se_max_matches env - length (gs_results st)) rows,
                    gs_counts := gs_counts st @ [(info, length rows)]\<rparr>)"
proof (cases "readable_file db (fx_id info)")
  case None
  then show ?thesis by (simp add: grep_one_def match_rows_def shown_text_def)
next
  case (Some f)
  with assms obtain s where "content_value f = PStr s" by (cases "content_value f") (auto simp: holds_text_def)
  with Some show ?thesis
    by (auto simp: grep_one_def match_rows_def shown_text_def text_content_def matching_lines_text Let_def)
qed

lemma grep_loop_text:
  assumes "list_all (holds_text db) infos" "gs_results st = take (se_max_matches env) done_rows"
    "sum_list (map snd (gs_counts st)) = length done_rows"
  shows "\<exists>st'. rfold (grep_one env db (Contains False pattern) {}) infos st = Inr st' \<and>
     gs_results st' = take (se_max_matches env) (done_rows @ concat (map (match_rows db pattern) infos)) \<and>
     sum_list (map snd (gs_counts st')) = length done_rows + length (concat (map (match_rows db pattern) infos)) \<and>
     gs_budget st' = gs_budget st"
  using assms
proof (induction infos arbitrary: st done_rows)
  case (Cons info infos)
  let ?rows = "match_rows db pattern info"
  let ?st = "if ?rows = [] then st else st\<lparr>gs_results := gs_results st @ take (se_max_matches env - length (gs_results st)) ?rows,
      gs_counts := gs_counts st @ [(info, length ?rows)]\<rparr>"
  have one: "grep_one env db (Contains False pattern) {} info st = Inr ?st"
    using grep_one_text [of db info env pattern st] Cons.prems(1) by (simp add: Let_def)
  have "gs_results ?st = take (se_max_matches env) (done_rows @ ?rows)"
    using Cons.prems(2) by (auto simp: min_def)
  moreover have "sum_list (map snd (gs_counts ?st)) = length (done_rows @ ?rows)" using Cons.prems(3) by simp
  ultimately obtain st' where "rfold (grep_one env db (Contains False pattern) {}) infos ?st = Inr st'"
    "gs_results st' = take (se_max_matches env) ((done_rows @ ?rows) @ concat (map (match_rows db pattern) infos))"
    "sum_list (map snd (gs_counts st')) = length (done_rows @ ?rows) + length (concat (map (match_rows db pattern) infos))"
    "gs_budget st' = gs_budget ?st"
    using Cons.IH [of ?st "done_rows @ ?rows"] Cons.prems(1) by auto
  with one show ?case by (intro exI [of _ st']) auto
qed simp



subsection \<open>The end of a text\<close>

text \<open>No last line at all is every line.\<close>

lemma tail_zero_shows_everything: "kb_tail env db user mk [''-0''] (Some text) = Inr text"
proof -
  have "extract_numeric_flag [''-0''] = (Some 0, [])" by code_simp
  then show ?thesis by (simp add: kb_tail_def last_lines_def unlines_def str_lines_def nl_def join_split)
qed

end
