(* ===== verification/Spec2Isabelle.thy ===== *)
theory Spec2Isabelle
  imports Py_Prelude Parent_Chain Users_Groups Access_Grants Access_Control Folders File_Access
    Rate_Limit Task_Registry Ydoc_Manager Stream_Chunks Chat_Branch Chat_History Output_Messages Message_Edits
    Timers Tool_Approval Context_Compaction Anthropic_Stream Anthropic_Payload Responses_Events Provider_Responses
    Knowledge_Sync OAuth_Access Replay_Messages Memory_Paths Vector_Store Memories
    Shell_Text Knowledge_Tree Knowledge_Shell
begin

text \<open>
  A verification development for the Python backend of Open WebUI (\<open>src/backend/open_webui\<close>).

  \<^bold>\<open>The program.\<close> The backend is a FastAPI application: routers parse requests, table models
  (\<open>models/\<close>) store rows through SQLAlchemy, and utilities (\<open>utils/\<close>) decide access, build prompts
  and handle streams. The theories model the parts that decide something by themselves: who may read or write
  what, how trees of folders and messages are walked, changed and repaired, how running tasks, request rates
  and collaborative documents are tracked, and how streams and messages are reshaped.

  \<^bold>\<open>Theories, in the order they build on each other.\<close>

  \<^item> \<open>Py_Prelude\<close>: Python values, exceptions as results, dictionaries as association lists, strings, and
    tables as lists of rows. \<open>Parent_Chain\<close>: two interfaces (locales) for walks along parent links with a
    visited set, interpreted below by the walks of models, folders, unread counts and chat messages.
  \<^item> \<open>Users_Groups\<close> (\<open>models/groups.py\<close>, \<open>utils/groups.py\<close>): the user, group and membership tables.
  \<^item> \<open>OAuth_Access\<close> (part of \<open>utils/oauth.py\<close>): the role and the groups that the claims of an identity
    provider give a user.
  \<^item> \<open>Access_Grants\<close> (\<open>models/access_grants.py\<close>): the grant table and the list and dictionary forms of grants.
  \<^item> \<open>Access_Control\<close> (\<open>utils/access_control/__init__.py\<close>): permission trees, grants in configuration,
    filtering of submitted grants, access along chains of base models.
  \<^item> \<open>Folders\<close> (\<open>models/folders.py\<close>, \<open>utils/access_control/folders.py\<close>, part of \<open>routers/folders.py\<close>).
  \<^item> \<open>Knowledge_Directories\<close> (part of \<open>models/knowledge.py\<close> and \<open>routers/knowledge.py\<close>): the directories of a
    knowledge base, and \<open>Knowledge_Sync\<close>: comparing them with a local folder.
  \<^item> \<open>File_Access\<close> (\<open>utils/access_control/files.py\<close> with the queries it makes).
  \<^item> \<open>Rate_Limit\<close> (\<open>utils/rate_limit.py\<close>), \<open>Task_Registry\<close> (\<open>tasks.py\<close> without Redis), \<open>Ydoc_Manager\<close>
    (\<open>socket/utils.py\<close> without Redis), \<open>Stream_Chunks\<close> (\<open>stream_chunks_handler\<close> of \<open>utils/misc.py\<close>).
  \<^item> \<open>Chat_Branch\<close> (\<open>get_message_list\<close> of \<open>utils/misc.py\<close>, \<open>utils/chat_fork.py\<close>, \<open>utils/chat_id.py\<close>) and
    \<open>Chat_History\<close> (the message tree in \<open>models/chats.py\<close>).
  \<^item> \<open>Messages\<close>, \<open>Output_Messages\<close> and \<open>Message_Edits\<close> (\<open>utils/misc.py\<close>): the text of a message, tool calls paired
    with their results, stored output as messages, and the edits made to the messages of a request.
    \<open>Replay_Messages\<close> (part of \<open>utils/middleware.py\<close>): a saved chat loaded, expanded and sanitized for a
    provider. Both ways of pairing calls with results interpret one locale.
  \<^item> \<open>Tool_Approval\<close> (\<open>utils/tool_approval.py\<close>, \<open>utils/ask_user.py\<close>): decisions of the user on tool calls, and
    questions a model asks.
  \<^item> \<open>Context_Compaction\<close> (\<open>utils/context_compaction.py\<close>): the summary that replaces the older messages of a
    long conversation, and the checkpoint by which later requests find it.
  \<^item> \<open>Anthropic_Payload\<close> and \<open>Anthropic_Stream\<close> (\<open>utils/anthropic.py\<close>): requests, responses and streams converted
    between the formats of Anthropic and OpenAI.
  \<^item> \<open>Py_Numbers\<close> (integers read, written and added) and \<open>Provider_Responses\<close> (\<open>utils/response.py\<close> with the
    templates of \<open>utils/misc.py\<close>): token usage, and responses of Ollama as responses of OpenAI.
  \<^item> \<open>Responses_Events\<close> (part of \<open>utils/middleware.py\<close>): the events of a stream of the Responses API.
  \<^item> \<open>Timers\<close> (\<open>utils/timers.py\<close>): one-shot timers, from their creation to the prompt they post.
  \<^item> \<open>Memory_Paths\<close> (part of \<open>utils/memory.py\<close>): paths of memories and searches by them. \<open>Vector_Store\<close>
    (\<open>retrieval/vector\<close>): the interface of vector databases as a locale, and the client for PostgreSQL that interprets
    it. \<open>Memories\<close> (\<open>models/memories.py\<close>, \<open>routers/memories.py\<close>): the table, batches, and the endpoints that keep the
    vectors of memories, proved over the interface.
  \<^item> \<open>Shell_Text\<close>, \<open>Knowledge_Tree\<close> and \<open>Knowledge_Shell\<close> (\<open>tools/knowledge_fs.py\<close>): the command line by which
    models read knowledge bases: its words and pipes, the two ways to find a directory by its path, and the commands.

  \<^bold>\<open>State and effects.\<close> A table is the list of its rows in a record of tables; an operation returns the new
  tables and its result. Constraints of the schema are conditions under which a commit succeeds; a commit that
  violates one leaves the tables and returns the exception. Objects the code mutates in place are returned
  changed. The registry of tasks and the timers are step relations: the event loop, several servers and crashes
  interleave their handlers.

  \<^bold>\<open>Parameters.\<close> Fresh identifiers (\<open>uuid4\<close>), clock readings, settings, the SQL \<open>ILIKE\<close> match, the text form
  of JSON scalars, the iteration order of sets, the engine for regular expressions, the Redis client and the
  CRDT library are arguments of the definitions that use them.
  Properties that need them state what they rely on, such as fresh identifiers, as hypotheses.

  \<^bold>\<open>Termination.\<close> Every recursion is a total function: walks along links are measured by the nodes not yet
  seen. Two loops over directories have no visited set: the recursion that deletes a subtree is given the depth at
  which the interpreter stops, and shown to need no more than there are directories; the one that finds a path is a
  partial function, shown to end in every state the operations reach.

  \<^bold>\<open>Not modelled.\<close> Request handlers other than those named above, provider calls, similarity search,
  authentication, Redis branches (calls into a client), row storage without logic, migrations and
  configuration. Floating-point numbers have no representation; characters are code points below 256.
\<close>

end
